(* ===== verification/Prelude.thy ===== *)
theory Prelude
  imports Main "HOL-Library.AList" "HOL-Library.Char_ord" "HOL-Library.Multiset"
begin

text \<open>
  Shared vocabulary of the development: the string, number and map operations of
  the Java and JavaScript standard libraries that several components use, with
  the laws the component proofs rest on.

  \<^item> \<open>split_on\<close> and \<open>java_split\<close>: \<open>String.split\<close> on a single character;
  \<^item> \<open>show_base\<close> and \<open>parse_base\<close>: \<open>toString(radix)\<close> and its parser, with
    the round trip \<open>parse_show_base\<close>;
  \<^item> association lists read as hash maps, whose order is the iteration order.

  The collection \<open>wf_intros\<close> gathers the invariant-preservation rules, and
  \<open>map_laws\<close> the equations that read a container operation as an operation on maps.
\<close>

named_theorems wf_intros
named_theorems map_laws

section \<open>Exceptions of the Java code\<close>

text \<open>
  The exceptions the Java components can raise; a fallible operation returns
  \<open>java_error + 'a\<close>, with the raised exception on the left.
\<close>

datatype java_error =
    NullPointerException
  | NumberFormatException
  | ArrayIndexOutOfBoundsException
  | IndexOutOfBoundsException
  | IOException
  | ClassCastException
  | IllegalArgumentException
  | UnknownHostException
  | InterruptedException
  | KeeperException

section \<open>Strings\<close>

text \<open>Splitting at every occurrence of a separator, empty pieces included.\<close>

fun split_on :: "'a \<Rightarrow> 'a list \<Rightarrow> 'a list list" where
  "split_on c [] = [[]]"
| "split_on c (x # xs) =
     (if x = c then [] # split_on c xs
      else (case split_on c xs of [] \<Rightarrow> [[x]] | p # ps \<Rightarrow> (x # p) # ps))"

lemma split_on_nonempty [simp]: "split_on c xs \<noteq> []"
  by (induction xs) (auto split: list.splits)

lemma split_on_no_sep: "c \<notin> set xs \<Longrightarrow> split_on c xs = [xs]"
  by (induction xs) auto

lemma split_on_append: "c \<notin> set xs \<Longrightarrow> split_on c (xs @ c # ys) = xs # split_on c ys"
  by (induction xs) auto

lemma split_on_pieces: "p \<in> set (split_on c xs) \<Longrightarrow> c \<notin> set p"
  by (induction xs arbitrary: p) (auto split: list.splits if_splits)

text \<open>
  Java's \<open>String.split\<close> removes trailing empty pieces; a string without the
  separator is returned whole, even when it is empty.
\<close>

definition java_split :: "char \<Rightarrow> string \<Rightarrow> string list" where
  "java_split c s =
     (if c \<in> set s then rev (dropWhile (\<lambda>p. p = []) (rev (split_on c s))) else [s])"

lemma java_split_pair:
  assumes "c \<notin> set a" and "c \<notin> set b" and "b \<noteq> []"
  shows "java_split c (a @ c # b) = [a, b]"
  using assms by (simp add: java_split_def split_on_append split_on_no_sep)

lemma java_split_head:
  assumes "c \<notin> set a" and "a \<noteq> []"
  shows "\<exists>q. java_split c (a @ c # b) = a # q"
proof -
  let ?q = "split_on c b"
  have "java_split c (a @ c # b) = rev (dropWhile (\<lambda>p. p = []) (rev ?q @ [a]))"
    using assms by (simp add: java_split_def split_on_append)
  also have "\<exists>q. \<dots> = a # q"
    using assms by (auto simp: dropWhile_append) (metis rev_rev_ident)
  finally show ?thesis .
qed

section \<open>Numbers in a radix\<close>

fun digits_base :: "nat \<Rightarrow> nat \<Rightarrow> nat list" where
  "digits_base b n =
     (if n < b \<or> b < 2 then [n] else digits_base b (n div b) @ [n mod b])"

declare digits_base.simps [simp del]

definition digit_char :: "nat \<Rightarrow> char" where
  "digit_char d = (if d < 10 then char_of (48 + d) else char_of (87 + d))"

definition digit_val :: "nat \<Rightarrow> char \<Rightarrow> nat option" where
  "digit_val b c =
     (let n = (of_char c :: nat);
          d = (if 48 \<le> n \<and> n \<le> 57 then n - 48
               else if 97 \<le> n \<and> n \<le> 122 then n - 87
               else if 65 \<le> n \<and> n \<le> 90 then n - 55 else b)
      in if d < b then Some d else None)"

definition show_base :: "nat \<Rightarrow> nat \<Rightarrow> string" where
  "show_base b n = map digit_char (digits_base b n)"

fun parse_digits :: "nat \<Rightarrow> nat \<Rightarrow> string \<Rightarrow> nat option" where
  "parse_digits b acc [] = Some acc"
| "parse_digits b acc (c # cs) =
     (case digit_val b c of None \<Rightarrow> None | Some d \<Rightarrow> parse_digits b (acc * b + d) cs)"

definition parse_base :: "nat \<Rightarrow> string \<Rightarrow> nat option" where
  "parse_base b s = (if s = [] then None else parse_digits b 0 s)"

lemma digits_base_bound: "2 \<le> b \<Longrightarrow> d \<in> set (digits_base b n) \<Longrightarrow> d < b"
proof (induction b n rule: digits_base.induct)
  case (1 b n)
  show ?case
  proof (cases "n < b")
    case True
    with "1.prems" show ?thesis by (simp add: digits_base.simps [of b n])
  next
    case False
    with "1.prems" "1.IH" show ?thesis
      by (auto simp: digits_base.simps [of b n])
  qed
qed

lemma digits_base_nonempty [simp]: "digits_base b n \<noteq> []"
  by (subst digits_base.simps) simp

lemma digit_val_char:
  assumes "d < b" "b \<le> 36"
  shows "digit_val b (digit_char d) = Some d"
proof (cases "d < 10")
  case True
  then have "(of_char (char_of (48 + d) :: char) :: nat) = 48 + d" by (simp add: of_char_of)
  with True assms show ?thesis by (simp add: digit_val_def digit_char_def Let_def)
next
  case False
  with assms have "(of_char (char_of (87 + d) :: char) :: nat) = 87 + d"
    by (simp add: of_char_of)
  with False assms show ?thesis by (simp add: digit_val_def digit_char_def Let_def)
qed

lemma parse_digits_append:
  "parse_digits b acc (xs @ ys) =
     (case parse_digits b acc xs of None \<Rightarrow> None | Some a \<Rightarrow> parse_digits b a ys)"
  by (induction xs arbitrary: acc) (auto split: option.splits)

lemma parse_digits_show:
  assumes "2 \<le> b" "b \<le> 36"
  shows "\<exists>k. parse_digits b acc (show_base b n) = Some (acc * b ^ k + n)"
  using assms
proof (induction b n rule: digits_base.induct)
  case (1 b n)
  show ?case
  proof (cases "n < b")
    case True
    with "1.prems" show ?thesis
      by (intro exI [of _ 1])
        (simp add: show_base_def digits_base.simps [of b n] digit_val_char)
  next
    case False
    with "1.prems" "1.IH" obtain k where k:
      "parse_digits b acc (map digit_char (digits_base b (n div b))) = Some (acc * b ^ k + n div b)"
      by (auto simp: show_base_def)
    have "n mod b < b" using "1.prems" by simp
    moreover have "(acc * b ^ k + n div b) * b + n mod b = acc * b ^ Suc k + n"
      by (simp add: algebra_simps)
    ultimately have "parse_digits b acc (show_base b n) = Some (acc * b ^ Suc k + n)"
      using False "1.prems" k
      by (simp add: show_base_def digits_base.simps [of b n] parse_digits_append digit_val_char)
    then show ?thesis by blast
  qed
qed

lemma parse_digits_show0:
  assumes "2 \<le> b" "b \<le> 36"
  shows "parse_digits b 0 (show_base b n) = Some n"
  using parse_digits_show [OF assms, of 0 n] by auto

lemma parse_show_base:
  assumes "2 \<le> b" "b \<le> 36"
  shows "parse_base b (show_base b n) = Some n"
  using parse_digits_show0 [OF assms] by (simp add: parse_base_def show_base_def)

lemma show_base_nonempty [simp]: "show_base b n \<noteq> []"
  by (simp add: show_base_def)

lemma show_base_inject:
  assumes "2 \<le> b" "b \<le> 36"
  shows "show_base b m = show_base b n \<longleftrightarrow> m = n"
  using parse_show_base [OF assms] by (metis option.inject)

lemma digit_char_code:
  "d < 36 \<Longrightarrow> (of_char (digit_char d) :: nat) = (if d < 10 then 48 + d else 87 + d)"
  by (auto simp: digit_char_def of_char_of)

lemma show_base_chars:
  assumes "2 \<le> b" "b \<le> 36" "c \<in> set (show_base b n)"
  shows "48 \<le> (of_char c :: nat)" and "(of_char c :: nat) \<noteq> 58"
proof -
  from assms(3) obtain d where d: "d \<in> set (digits_base b n)" "c = digit_char d"
    by (auto simp: show_base_def)
  with digits_base_bound [OF assms(1) d(1)] assms(2) have "d < 36" by simp
  with d show "48 \<le> (of_char c :: nat)" "(of_char c :: nat) \<noteq> 58"
    by (auto simp: digit_char_code)
qed

lemma show_base_no_colon:
  assumes "2 \<le> b" "b \<le> 36"
  shows "CHR '':'' \<notin> set (show_base b n)"
  using show_base_chars(2) [OF assms] by fastforce

section \<open>Hash maps as association lists\<close>

lemma map_of_mset_eq:
  assumes "distinct (map fst m)" "set m = set m'" "distinct (map fst m')"
  shows "map_of m = map_of m'"
  using assms by (metis map_of_inject_set)

lemma map_of_update [map_laws]: "map_of (AList.update k v al) = (map_of al)(k \<mapsto> v)"
  by (rule update_conv')

lemma alist_update_twice: "AList.update k x (AList.update k y al) = AList.update k x al"
  by (induction al) auto

lemma list_all2_choice: "\<forall>x \<in> set xs. \<exists>y. P x y \<Longrightarrow> \<exists>ys. list_all2 P xs ys"
proof (induction xs)
  case (Cons x xs)
  then obtain y ys where "P x y" "list_all2 P xs ys" by auto
  then have "list_all2 P (x # xs) (y # ys)" by simp
  then show ?case by blast
qed (auto intro: exI [of _ "[]"])

lemma map_of_delete [map_laws]: "map_of (AList.delete k al) = (map_of al)(k := None)"
  by (rule delete_conv')

lemma map_of_fold_update [map_laws]:
  "map_of (fold (\<lambda>x. AList.update (f x) (g x)) xs m) =
     map_of m ++ map_of (rev (map (\<lambda>x. (f x, g x)) xs))"
  by (induction xs arbitrary: m) (auto simp: map_of_update map_add_def fun_eq_iff split: option.splits)

lemma distinct_fold_update [wf_intros]:
  "distinct (map fst m) \<Longrightarrow> distinct (map fst (fold (\<lambda>x. AList.update (f x) (g x)) xs m))"
  by (induction xs arbitrary: m) (auto simp: distinct_update)

lemma map_of_fold_update_distinct:
  assumes "distinct (map f xs)"
  shows "map_of (fold (\<lambda>x. AList.update (f x) (g x)) xs []) = map_of (map (\<lambda>x. (f x, g x)) xs)"
proof -
  let ?l = "map (\<lambda>x. (f x, g x)) xs"
  have "distinct (map fst ?l)" "distinct (map fst (rev ?l))"
    using assms by (simp_all add: comp_def rev_map [symmetric])
  then have "map_of (rev ?l) = map_of ?l" by (intro map_of_mset_eq) auto
  then show ?thesis by (simp add: map_of_fold_update)
qed

lemma set_fold_update_distinct:
  assumes "distinct (map f xs)"
  shows "set (fold (\<lambda>x. AList.update (f x) (g x)) xs []) = (\<lambda>x. (f x, g x)) ` set xs"
proof -
  let ?l = "map (\<lambda>x. (f x, g x)) xs" and ?m = "fold (\<lambda>x. AList.update (f x) (g x)) xs []"
  have d: "distinct (map fst ?m)" by (rule distinct_fold_update) simp
  have e: "distinct (map fst ?l)" using assms by (simp add: comp_def)
  have "map_of ?m = map_of ?l" by (rule map_of_fold_update_distinct [OF assms])
  then have "set ?m = set ?l" using d e by (simp add: map_of_inject_set)
  then show ?thesis by simp
qed

lemma distinct_update_keys [wf_intros]:
  "distinct (map fst al) \<Longrightarrow> distinct (map fst (AList.update k v al))"
  by (rule distinct_update)

lemma distinct_delete_keys [wf_intros]:
  "distinct (map fst al) \<Longrightarrow> distinct (map fst (AList.delete k al))"
  by (rule distinct_delete)

end
