(* ===== verification/HashRing.thy ===== *)
theory HashRing
  imports Prelude
begin

text \<open>
  The consistent-hashing ring of \<open>src/src/app_kvECS/ECSClient.java\<close>: the metadata
  map from \<open>host:port\<close> to the hash range a server is responsible for
  (\<open>calc_metadata\<close>), the lookup in it (\<open>getNodeByKey\<close>), and the range test
  that \<open>KVServer\<close>, \<open>KVStore\<close> and \<open>ECSClient\<close> share.

  MD5 is a parameter \<open>hash :: string \<Rightarrow> nat\<close> of every definition; nothing is
  assumed of it beyond what a theorem states. Metadata maps are association lists;
  the order of the list stands for the iteration order of the Java \<open>HashMap\<close>, so
  a theorem about every permutation of the list covers every iteration order.
  The last section relates the ranges to the ideal ring, in which a key belongs to
  the first server at or after its hash (\<open>ring_owner\<close>).
\<close>

section \<open>Nodes, addresses and hexadecimal range strings\<close>

record ECSNode =
  nodeName :: string
  nodeHost :: string
  nodePort :: nat

type_synonym metadata = "(string \<times> string) list"

definition show_address :: "string \<Rightarrow> nat \<Rightarrow> string" where
  "show_address host port = host @ CHR '':'' # show_base 10 port"

abbreviation node_address :: "ECSNode \<Rightarrow> string" where
  "node_address n \<equiv> show_address (nodeHost n) (nodePort n)"

text \<open>\<open>addr.split(":")[0]\<close> and \<open>Integer.parseInt(addr.split(":")[1])\<close>.\<close>

definition parse_address :: "string \<Rightarrow> java_error + (string \<times> nat)" where
  "parse_address s =
     (case java_split CHR '':'' s of
        [] \<Rightarrow> Inl ArrayIndexOutOfBoundsException
      | [h] \<Rightarrow> Inl ArrayIndexOutOfBoundsException
      | h # p # _ \<Rightarrow>
          (case parse_base 10 p of
             None \<Rightarrow> Inl NumberFormatException
           | Some n \<Rightarrow> Inr (h, n)))"

text \<open>\<open>BigInteger.toString(16)\<close>.\<close>

definition to_hex :: "int \<Rightarrow> string" where
  "to_hex n = (if n < 0 then CHR ''-'' # show_base 16 (nat (- n)) else show_base 16 (nat n))"

text \<open>
  \<open>new BigInteger("0" + range.split(":")[0], 16)\<close> and the same for the second
  part. The leading zero makes a sign an illegal digit.
\<close>

definition parse_range :: "string \<Rightarrow> java_error + (int \<times> int)" where
  "parse_range r =
     (case java_split CHR '':'' r of
        [] \<Rightarrow> Inl ArrayIndexOutOfBoundsException
      | a # rest \<Rightarrow>
          (case parse_base 16 (CHR ''0'' # a) of
             None \<Rightarrow> Inl NumberFormatException
           | Some s \<Rightarrow>
               (case rest of
                  [] \<Rightarrow> Inl ArrayIndexOutOfBoundsException
                | b # _ \<Rightarrow>
                    (case parse_base 16 (CHR ''0'' # b) of
                       None \<Rightarrow> Inl NumberFormatException
                     | Some e \<Rightarrow> Inr (int s, int e)))))"

text \<open>The range test: an ordinary interval, or one that wraps around the ring.\<close>

definition range_test :: "int \<Rightarrow> int \<Rightarrow> int \<Rightarrow> bool" where
  "range_test rs re k =
     (if rs < re then rs \<le> k \<and> k \<le> re else rs \<le> k \<or> k \<le> re)"

section \<open>Building the metadata\<close>

definition computeHash :: "(string \<Rightarrow> nat) \<Rightarrow> string \<Rightarrow> int" where
  "computeHash hash val = int (hash val)"

definition server_range :: "int list \<Rightarrow> nat \<Rightarrow> string" where
  "server_range hs i =
     (let predec = (if i = 0 then length hs - 1 else i - 1);
          server_pos = hs ! i;
          predecessor_pos = hs ! predec;
          predecessor_pos' =
            (if i = 0 then predecessor_pos + 1 else predecessor_pos - 1)
      in to_hex predecessor_pos' @ CHR '':'' # to_hex server_pos)"

definition server_hash_map :: "(string \<Rightarrow> nat) \<Rightarrow> ECSNode list \<Rightarrow> (int \<times> string) list" where
  "server_hash_map hash nodes =
     fold (\<lambda>n. AList.update (computeHash hash (node_address n)) (node_address n)) nodes []"

definition calc_metadata :: "(string \<Rightarrow> nat) \<Rightarrow> ECSNode list \<Rightarrow> metadata" where
  "calc_metadata hash nodeList =
     (let serverHashList = sort (map (\<lambda>n. computeHash hash (node_address n)) nodeList);
          serverHashMap = server_hash_map hash nodeList
      in fold (\<lambda>i. AList.update (the (map_of serverHashMap (serverHashList ! i)))
                                (server_range serverHashList i))
              [0..<length serverHashList] [])"

section \<open>Looking a hash up\<close>

text \<open>
  The first entry, in iteration order, whose range contains the hash. A range that
  does not parse raises before later entries are looked at.
\<close>

fun find_in_range :: "int \<Rightarrow> metadata \<Rightarrow> java_error + (string \<times> string) option" where
  "find_in_range k [] = Inr None"
| "find_in_range k ((addr, rng) # rest) =
     (case parse_range rng of
        Inl e \<Rightarrow> Inl e
      | Inr (rs, re) \<Rightarrow>
          if range_test rs re k then Inr (Some (addr, rng)) else find_in_range k rest)"

definition getNodeByKey ::
  "(string \<Rightarrow> nat) \<Rightarrow> metadata \<Rightarrow> string \<Rightarrow> java_error + (string \<times> string) option" where
  "getNodeByKey hash md key = find_in_range (int (hash key) - 2) md"

section \<open>Parsing what the code prints\<close>

lemma parse_base_leading_zero:
  "2 \<le> b \<Longrightarrow> b \<le> 36 \<Longrightarrow> parse_base b (CHR ''0'' # show_base b n) = Some n"
  by (simp add: parse_base_def digit_val_def parse_digits_show0)

lemma to_hex_no_colon: "0 \<le> n \<Longrightarrow> CHR '':'' \<notin> set (to_hex n)"
  by (simp add: to_hex_def show_base_no_colon)

lemma to_hex_nonempty [simp]: "to_hex n \<noteq> []"
  by (simp add: to_hex_def)

lemma parse_range_to_hex:
  assumes "0 \<le> s" "0 \<le> e"
  shows "parse_range (to_hex s @ CHR '':'' # to_hex e) = Inr (s, e)"
  using assms
  by (simp add: parse_range_def java_split_pair to_hex_no_colon)
    (simp add: to_hex_def parse_base_leading_zero)

lemma parse_show_address:
  assumes "CHR '':'' \<notin> set host"
  shows "parse_address (show_address host port) = Inr (host, port)"
  using assms
  by (simp add: parse_address_def show_address_def java_split_pair show_base_no_colon
      parse_show_base)

lemma parse_range_negative:
  assumes "s < 0"
  shows "parse_range (to_hex s @ CHR '':'' # to_hex e) = Inl NumberFormatException"
proof -
  let ?m = "show_base 16 (nat (- s))"
  have 1: "CHR '':'' \<notin> set (CHR ''-'' # ?m)" by (simp add: show_base_no_colon)
  obtain q where "java_split CHR '':'' (to_hex s @ CHR '':'' # to_hex e) = (CHR ''-'' # ?m) # q"
    using java_split_head [OF 1, of "to_hex e"] assms by (auto simp: to_hex_def)
  moreover have "parse_base 16 (CHR ''0'' # CHR ''-'' # ?m) = None"
    by (simp add: parse_base_def digit_val_def)
  ultimately show ?thesis by (simp add: parse_range_def)
qed

section \<open>The ideal ring\<close>

text \<open>
  In a strictly increasing list of server positions, the owner of a hash is the
  first position at or after it, or the first position of all when there is none.
\<close>

definition ring_owner :: "int list \<Rightarrow> int \<Rightarrow> int" where
  "ring_owner hs k = (case filter (\<lambda>h. k \<le> h) hs of [] \<Rightarrow> hd hs | h # _ \<Rightarrow> h)"

definition range_start :: "int list \<Rightarrow> nat \<Rightarrow> int" where
  "range_start hs i = (if i = 0 then last hs + 1 else hs ! (i - 1) - 1)"

lemma strict_sorted_nth_less:
  "sorted_wrt (<) (hs :: int list) \<Longrightarrow> i < j \<Longrightarrow> j < length hs \<Longrightarrow> hs ! i < hs ! j"
  by (simp add: sorted_wrt_nth_less)

lemma strict_sorted_nth_le:
  "sorted_wrt (<) (hs :: int list) \<Longrightarrow> i \<le> j \<Longrightarrow> j < length hs \<Longrightarrow> hs ! i \<le> hs ! j"
  using strict_sorted_nth_less [of hs i j] by (cases "i = j") auto

lemma ring_owner_eq_nth:
  assumes s: "sorted_wrt (<) hs" and i: "i < length hs"
    and lo: "0 < i \<Longrightarrow> hs ! (i - 1) < k" and hi: "k \<le> hs ! i"
  shows "ring_owner hs k = hs ! i"
proof -
  have "x < k" if "x \<in> set (take i hs)" for x
  proof -
    from that obtain j where j: "j < i" "x = hs ! j" using i by (auto simp: in_set_conv_nth)
    then have "x \<le> hs ! (i - 1)" using strict_sorted_nth_le [OF s, of j "i - 1"] i by simp
    with lo j show ?thesis by simp
  qed
  then have t: "filter (\<lambda>h. k \<le> h) (take i hs) = []" by (force simp: filter_empty_conv)
  have "k \<le> x" if "x \<in> set (drop i hs)" for x
  proof -
    from that obtain j where "j < length hs - i" "x = hs ! (i + j)"
      by (auto simp: in_set_conv_nth)
    with strict_sorted_nth_le [OF s, of i "i + j"] hi show ?thesis by force
  qed
  then have d: "filter (\<lambda>h. k \<le> h) (drop i hs) = drop i hs" by simp
  have "filter (\<lambda>h. k \<le> h) hs = drop i hs"
    using t d by (metis append_Nil append_take_drop_id filter_append)
  also have "\<dots> = hs ! i # drop (Suc i) hs" using i by (simp add: Cons_nth_drop_Suc)
  finally show ?thesis by (simp add: ring_owner_def)
qed

lemma ring_owner_wrap:
  assumes "sorted_wrt (<) hs" "hs \<noteq> []" "last hs < k"
  shows "ring_owner hs k = hs ! 0"
proof -
  have "x < k" if "x \<in> set hs" for x
  proof -
    from that obtain j where "j < length hs" "x = hs ! j" by (auto simp: in_set_conv_nth)
    with strict_sorted_nth_le [OF assms(1), of j "length hs - 1"] assms(2,3) show ?thesis
      by (force simp: last_conv_nth)
  qed
  then have "filter (\<lambda>h. k \<le> h) hs = []" by (force simp: filter_empty_conv)
  with assms(2) show ?thesis by (simp add: ring_owner_def hd_conv_nth)
qed

lemma ring_owner_cases:
  assumes s: "sorted_wrt (<) hs" and ne: "hs \<noteq> []"
  obtains (wrap) "last hs < k" "ring_owner hs k = hs ! 0"
    | (at) i where "i < length hs" "0 < i \<Longrightarrow> hs ! (i - 1) < k" "k \<le> hs ! i"
        "ring_owner hs k = hs ! i"
proof (cases "last hs < k")
  case True
  with ring_owner_wrap [OF s ne] show ?thesis using wrap by blast
next
  case False
  define i where "i = (LEAST j. j < length hs \<and> k \<le> hs ! j)"
  have ex: "length hs - 1 < length hs \<and> k \<le> hs ! (length hs - 1)"
    using False ne by (simp add: last_conv_nth)
  then have i: "i < length hs \<and> k \<le> hs ! i" unfolding i_def by (rule LeastI)
  have "hs ! (i - 1) < k" if "0 < i"
  proof (rule ccontr)
    assume "\<not> hs ! (i - 1) < k"
    with i have "i - 1 < length hs \<and> k \<le> hs ! (i - 1)" by auto
    then have "i \<le> i - 1" unfolding i_def by (rule Least_le)
    with that show False by simp
  qed
  with i ring_owner_eq_nth [OF s, of i k] show ?thesis using at by blast
qed

lemma ring_owner_iff:
  assumes s: "sorted_wrt (<) hs" and i: "i < length hs"
  shows "ring_owner hs k = hs ! i \<longleftrightarrow>
    (if i = 0 then k \<le> hs ! 0 \<or> last hs < k else hs ! (i - 1) < k \<and> k \<le> hs ! i)"
    (is "_ \<longleftrightarrow> ?R i")
proof
  assume o: "ring_owner hs k = hs ! i"
  have d: "distinct hs" using s by (simp add: strict_sorted_iff)
  have ne: "hs \<noteq> []" using i by auto
  from s ne show "?R i"
  proof (cases rule: ring_owner_cases [where k = k])
    case wrap
    then have "i = 0" using o i d ne by (simp add: nth_eq_iff_index_eq)
    with wrap show ?thesis by simp
  next
    case (at j)
    then have "i = j" using o i d by (simp add: nth_eq_iff_index_eq)
    with at show ?thesis by auto
  qed
next
  assume R: "?R i"
  show "ring_owner hs k = hs ! i"
  proof (cases "i = 0 \<and> last hs < k")
    case True
    with ring_owner_wrap [OF s] i show ?thesis by auto
  next
    case False
    with R show ?thesis by (intro ring_owner_eq_nth [OF s i]) (auto split: if_splits)
  qed
qed

text \<open>
  The range the code gives to the server at index \<open>i\<close>, read by the range test:
  the ideal range, and for every server but the first the two hashes before it.
\<close>

lemma range_test_ring:
  assumes s: "sorted_wrt (<) hs" and i: "i < length hs"
  shows "range_test (range_start hs i) (hs ! i) k \<longleftrightarrow>
    ring_owner hs k = hs ! i \<or> 0 < i \<and> (k = hs ! (i - 1) \<or> k = hs ! (i - 1) - 1)"
proof (cases "i = 0")
  case True
  have "hs ! 0 \<le> last hs"
    using strict_sorted_nth_le [OF s, of 0 "length hs - 1"] i by (cases hs) (auto simp: last_conv_nth)
  with True ring_owner_iff [OF s i, of k] show ?thesis
    by (auto simp: range_test_def range_start_def)
next
  case False
  then have "hs ! (i - 1) < hs ! i" using strict_sorted_nth_less [OF s, of "i - 1" i] i by simp
  with False ring_owner_iff [OF s i, of k] show ?thesis
    by (auto simp: range_test_def range_start_def)
qed

section \<open>The metadata of a ring\<close>

text \<open>
  The hypothesis on MD5 in the ring theorems: the addresses of the nodes have
  pairwise different, positive hashes. (A hash of 0 would print the next server's
  range with a minus sign, which \<open>parse_range_negative\<close> shows does not parse.)
\<close>

definition ring_ok :: "(string \<Rightarrow> nat) \<Rightarrow> ECSNode list \<Rightarrow> bool" where
  "ring_ok hash nodes \<longleftrightarrow>
     distinct (map (\<lambda>n. hash (node_address n)) nodes) \<and>
     (\<forall>n \<in> set nodes. 0 < hash (node_address n))"

definition ring_hashes :: "(string \<Rightarrow> nat) \<Rightarrow> ECSNode list \<Rightarrow> int list" where
  "ring_hashes hash nodes = sort (map (\<lambda>n. computeHash hash (node_address n)) nodes)"

lemma ring_hashes_strict:
  assumes "ring_ok hash nodes"
  shows "sorted_wrt (<) (ring_hashes hash nodes)"
proof -
  have "map (\<lambda>n. computeHash hash (node_address n)) nodes = map int (map (\<lambda>n. hash (node_address n)) nodes)"
    by (simp add: computeHash_def)
  moreover have "distinct (map int (map (\<lambda>n. hash (node_address n)) nodes))"
    using assms by (subst distinct_map) (auto simp: ring_ok_def inj_on_def)
  ultimately have "distinct (map (\<lambda>n. computeHash hash (node_address n)) nodes)" by metis
  then show ?thesis by (simp add: ring_hashes_def strict_sorted_iff)
qed

lemma length_ring_hashes [simp]: "length (ring_hashes hash nodes) = length nodes"
  by (simp add: ring_hashes_def)

lemma set_ring_hashes [simp]:
  "set (ring_hashes hash nodes) = (\<lambda>n. computeHash hash (node_address n)) ` set nodes"
  by (simp add: ring_hashes_def)

lemma ring_hashes_pos: "ring_ok hash nodes \<Longrightarrow> h \<in> set (ring_hashes hash nodes) \<Longrightarrow> 0 < h"
  by (auto simp: ring_ok_def computeHash_def)

lemma server_hash_map_lookup:
  assumes "ring_ok hash nodes" "n \<in> set nodes"
  shows "map_of (server_hash_map hash nodes) (computeHash hash (node_address n)) = Some (node_address n)"
proof -
  let ?f = "\<lambda>n. computeHash hash (node_address n)"
  have i: "inj_on ?f (set nodes)" and d: "distinct nodes"
    using assms(1) by (auto simp: ring_ok_def computeHash_def distinct_map inj_on_def)
  then have "map_of (server_hash_map hash nodes) = map_of (map (\<lambda>n. (?f n, node_address n)) nodes)"
    unfolding server_hash_map_def by (intro map_of_fold_update_distinct) (simp add: distinct_map)
  moreover have "map_of (map (\<lambda>n. (?f n, node_address n)) nodes) (?f n) = Some (node_address n)"
    using i d assms(2) by (intro map_of_is_SomeI) (auto simp: distinct_map comp_def)
  ultimately show ?thesis by simp
qed

text \<open>The node at a position of the ring.\<close>

lemma ring_node_at:
  assumes "i < length nodes"
  obtains n where "n \<in> set nodes" "ring_hashes hash nodes ! i = computeHash hash (node_address n)"
proof -
  have "ring_hashes hash nodes ! i \<in> set (ring_hashes hash nodes)" using assms by (intro nth_mem) simp
  then show thesis using that by (auto simp del: nth_mem)
qed

lemma ring_index_of:
  assumes "n \<in> set nodes"
  obtains i where "i < length nodes" "ring_hashes hash nodes ! i = computeHash hash (node_address n)"
proof -
  have "computeHash hash (node_address n) \<in> set (ring_hashes hash nodes)" using assms by simp
  then show thesis using that by (metis in_set_conv_nth length_ring_hashes)
qed

lemma server_range_start:
  "i < length hs \<Longrightarrow> server_range hs i = to_hex (range_start hs i) @ CHR '':'' # to_hex (hs ! i)"
  by (cases hs rule: rev_cases) (auto simp: server_range_def range_start_def Let_def)

lemma range_start_nonneg:
  assumes "ring_ok hash nodes" "i < length nodes"
  shows "0 \<le> range_start (ring_hashes hash nodes) i" "0 \<le> ring_hashes hash nodes ! i"
proof -
  let ?hs = "ring_hashes hash nodes"
  have p: "0 < ?hs ! j" if "j < length nodes" for j
    using ring_hashes_pos [OF assms(1)] that by (metis length_ring_hashes nth_mem)
  from p [OF assms(2)] show "0 \<le> ?hs ! i" by simp
  have "?hs \<noteq> []" using assms(2) by (metis length_ring_hashes list.size(3) not_less_zero)
  then have "last ?hs = ?hs ! (length nodes - 1)" by (simp add: last_conv_nth)
  with p [of "i - 1"] p [of "length nodes - 1"] assms(2) show "0 \<le> range_start ?hs i"
    by (auto simp: range_start_def)
qed

lemma parse_server_range:
  assumes "ring_ok hash nodes" "i < length nodes"
  shows "parse_range (server_range (ring_hashes hash nodes) i) =
    Inr (range_start (ring_hashes hash nodes) i, ring_hashes hash nodes ! i)"
  using assms by (simp add: server_range_start parse_range_to_hex range_start_nonneg)

lemma set_calc_metadata:
  assumes "ring_ok hash nodes"
  shows "(a, r) \<in> set (calc_metadata hash nodes) \<longleftrightarrow>
    (\<exists>i n. i < length nodes \<and> n \<in> set nodes \<and> ring_hashes hash nodes ! i = computeHash hash (node_address n) \<and>
       a = node_address n \<and> r = server_range (ring_hashes hash nodes) i)"
proof -
  let ?hs = "ring_hashes hash nodes"
  let ?f = "\<lambda>i. the (map_of (server_hash_map hash nodes) (?hs ! i))"
  have f: "?f i = node_address n" if "i < length nodes" "n \<in> set nodes" "?hs ! i = computeHash hash (node_address n)" for i n
    using that server_hash_map_lookup [OF assms] by simp
  have "inj_on ?f {0..<length nodes}"
  proof (rule inj_onI)
    fix i j assume ij: "i \<in> {0..<length nodes}" "j \<in> {0..<length nodes}" "?f i = ?f j"
    obtain n where n: "n \<in> set nodes" "?hs ! i = computeHash hash (node_address n)"
      using ij(1) by (auto intro: ring_node_at)
    obtain n' where n': "n' \<in> set nodes" "?hs ! j = computeHash hash (node_address n')"
      using ij(2) by (auto intro: ring_node_at)
    have "node_address n = node_address n'" using f n n' ij by simp
    then have "?hs ! i = ?hs ! j" using n n' by simp
    moreover have "distinct ?hs" using ring_hashes_strict [OF assms] by (simp add: strict_sorted_iff)
    ultimately show "i = j" using ij by (simp add: nth_eq_iff_index_eq)
  qed
  then have "distinct (map ?f [0..<length nodes])" by (simp add: distinct_map)
  then have "set (calc_metadata hash nodes) = (\<lambda>i. (?f i, server_range ?hs i)) ` {0..<length nodes}"
    using set_fold_update_distinct [of ?f "[0..<length nodes]" "server_range ?hs"]
    by (simp add: calc_metadata_def Let_def ring_hashes_def)
  then have *: "(a, r) \<in> set (calc_metadata hash nodes) \<longleftrightarrow>
      (\<exists>i < length nodes. a = ?f i \<and> r = server_range ?hs i)" by auto
  show ?thesis
  proof
    assume "(a, r) \<in> set (calc_metadata hash nodes)"
    with * obtain i where i: "i < length nodes" "a = ?f i" "r = server_range ?hs i" by blast
    obtain n where n: "n \<in> set nodes" "?hs ! i = computeHash hash (node_address n)"
      using i(1) by (rule ring_node_at)
    with i f show "\<exists>i n. i < length nodes \<and> n \<in> set nodes \<and> ?hs ! i = computeHash hash (node_address n) \<and>
       a = node_address n \<and> r = server_range ?hs i" by auto
  next
    assume "\<exists>i n. i < length nodes \<and> n \<in> set nodes \<and> ?hs ! i = computeHash hash (node_address n) \<and>
       a = node_address n \<and> r = server_range ?hs i"
    with * f show "(a, r) \<in> set (calc_metadata hash nodes)" by metis
  qed
qed

lemma distinct_calc_metadata [wf_intros]: "distinct (map fst (calc_metadata hash nodes))"
  unfolding calc_metadata_def Let_def by (rule distinct_fold_update) simp

section \<open>Looking a hash up in the metadata of a ring\<close>

definition range_has :: "string \<Rightarrow> int \<Rightarrow> bool" where
  "range_has r k = (case parse_range r of Inl _ \<Rightarrow> False | Inr (rs, re) \<Rightarrow> range_test rs re k)"

lemma find_in_range_find:
  assumes "\<forall>e \<in> set m. \<exists>p. parse_range (snd e) = Inr p"
  shows "find_in_range k m = Inr (find (\<lambda>e. range_has (snd e) k) m)"
  using assms by (induction m) (auto simp: range_has_def)

lemma calc_metadata_parses:
  assumes "ring_ok hash nodes" "mset m = mset (calc_metadata hash nodes)" "e \<in> set m"
  shows "\<exists>p. parse_range (snd e) = Inr p"
proof -
  have "(fst e, snd e) \<in> set (calc_metadata hash nodes)"
    using assms(2,3) by (metis mset_eq_setD prod.collapse)
  with assms(1) obtain i where "i < length nodes" "snd e = server_range (ring_hashes hash nodes) i"
    unfolding set_calc_metadata [OF assms(1)] by blast
  with assms(1) show ?thesis by (simp add: parse_server_range)
qed

lemma range_has_server_range:
  assumes "ring_ok hash nodes" "i < length nodes"
  shows "range_has (server_range (ring_hashes hash nodes) i) k \<longleftrightarrow>
    ring_owner (ring_hashes hash nodes) k = ring_hashes hash nodes ! i \<or>
    0 < i \<and> (k = ring_hashes hash nodes ! (i - 1) \<or> k = ring_hashes hash nodes ! (i - 1) - 1)"
  using assms by (simp add: range_has_def parse_server_range range_test_ring ring_hashes_strict)

lemma ring_owner_entry:
  assumes "ring_ok hash nodes" "nodes \<noteq> []"
  obtains i n where "i < length nodes" "n \<in> set nodes"
    "ring_hashes hash nodes ! i = computeHash hash (node_address n)"
    "ring_owner (ring_hashes hash nodes) k = ring_hashes hash nodes ! i"
    "(node_address n, server_range (ring_hashes hash nodes) i) \<in> set (calc_metadata hash nodes)"
proof -
  let ?hs = "ring_hashes hash nodes"
  have "?hs \<noteq> []" using assms(2) by (metis length_0_conv length_ring_hashes)
  then obtain i where i: "i < length nodes" "ring_owner ?hs k = ?hs ! i"
    using assms(2)
    by (cases rule: ring_owner_cases [OF ring_hashes_strict [OF assms(1)], where k = k])
      (auto simp del: length_greater_0_conv simp add: length_greater_0_conv [symmetric])
  obtain n where n: "n \<in> set nodes" "?hs ! i = computeHash hash (node_address n)"
    using i(1) by (rule ring_node_at)
  with i assms(1) that show thesis by (auto simp: set_calc_metadata)
qed

text \<open>The hashes that the off-by-one of \<open>server_range\<close> gives to two servers.\<close>

definition shared_hash :: "int list \<Rightarrow> int \<Rightarrow> bool" where
  "shared_hash hs k \<longleftrightarrow> (\<exists>p \<in> set (butlast hs). k = p \<or> k = p - 1)"

lemma shared_hashI:
  assumes "0 < i" "i < length hs" "k = hs ! (i - 1) \<or> k = hs ! (i - 1) - 1"
  shows "shared_hash hs k"
proof -
  have "hs ! (i - 1) = butlast hs ! (i - 1)" "i - 1 < length (butlast hs)"
    using assms(1,2) by (simp_all add: nth_butlast)
  then have "hs ! (i - 1) \<in> set (butlast hs)" by (metis nth_mem)
  with assms(3) show ?thesis by (auto simp: shared_hash_def)
qed

lemma find_in_range_ring:
  assumes ok: "ring_ok hash nodes" and ne: "nodes \<noteq> []"
    and m: "mset m = mset (calc_metadata hash nodes)"
  obtains i n where "i < length nodes" "n \<in> set nodes"
    "ring_hashes hash nodes ! i = computeHash hash (node_address n)"
    "find_in_range k m = Inr (Some (node_address n, server_range (ring_hashes hash nodes) i))"
    "range_has (server_range (ring_hashes hash nodes) i) k"
proof -
  let ?hs = "ring_hashes hash nodes"
  have sm: "set m = set (calc_metadata hash nodes)" using m by (metis set_mset_mset)
  obtain i n where i: "i < length nodes" "ring_owner ?hs k = ?hs ! i"
      "(node_address n, server_range ?hs i) \<in> set m"
    using ring_owner_entry [OF ok ne, of k] sm by metis
  have "range_has (server_range ?hs i) k" using i ok by (simp add: range_has_server_range)
  then have "find (\<lambda>e. range_has (snd e) k) m \<noteq> None"
    using i(3) by (auto simp: find_None_iff)
  then obtain a r where f: "find (\<lambda>e. range_has (snd e) k) m = Some (a, r)" by auto
  then have ar: "(a, r) \<in> set m" "range_has r k"
    by (auto simp: find_Some_iff) (metis snd_conv)
  with sm obtain i' n' where "i' < length nodes" "n' \<in> set nodes" "?hs ! i' = computeHash hash (node_address n')"
      "a = node_address n'" "r = server_range ?hs i'"
    using ok by (auto simp: set_calc_metadata)
  moreover have "find_in_range k m = Inr (Some (a, r))"
    using calc_metadata_parses [OF ok m] f by (simp add: find_in_range_find)
  ultimately show thesis using that ar by blast
qed

section \<open>Properties\<close>

lemma lookup_owner:
  assumes "ring_ok hash nodes" and "nodes \<noteq> []"
    and "mset m = mset (calc_metadata hash nodes)"
    and "\<not> shared_hash (ring_hashes hash nodes) k"
  shows "\<exists>n \<in> set nodes. \<exists>r.
    find_in_range k m = Inr (Some (node_address n, r)) \<and>
    computeHash hash (node_address n) = ring_owner (ring_hashes hash nodes) k"
proof -
  obtain i n where i: "i < length nodes" "n \<in> set nodes"
    "ring_hashes hash nodes ! i = computeHash hash (node_address n)"
    "find_in_range k m = Inr (Some (node_address n, server_range (ring_hashes hash nodes) i))"
    "range_has (server_range (ring_hashes hash nodes) i) k"
    using assms(1-3) by (rule find_in_range_ring)
  then have "ring_owner (ring_hashes hash nodes) k = ring_hashes hash nodes ! i"
    using assms(1,4) by (auto simp: range_has_server_range intro: shared_hashI)
  with i show ?thesis by auto
qed

text \<open>
  C2. Routing is complete, and exact but for the border hashes. With metadata built by
  \<open>calc_metadata\<close> for a non-empty ring, whatever the iteration order of the hash map,
  looking up any hash at all finds a server. It is the server the ideal ring assigns the
  hash to, except that a hash equal to the position of a server on the ring, or one below it,
  may be routed to the server behind that one: the ranges of both contain it
  (\<open>server_range_exact\<close>), and the iteration order decides.
\<close>

theorem lookup_finds_owner:
  assumes "ring_ok hash nodes" and "nodes \<noteq> []"
    and "mset m = mset (calc_metadata hash nodes)"
  shows "\<exists>n \<in> set nodes. \<exists>r.
    find_in_range k m = Inr (Some (node_address n, r)) \<and>
    (computeHash hash (node_address n) = ring_owner (ring_hashes hash nodes) k \<or>
     (\<exists>i. 0 < i \<and> i < length nodes \<and> computeHash hash (node_address n) = ring_hashes hash nodes ! i \<and>
       (k = ring_hashes hash nodes ! (i - 1) \<or> k = ring_hashes hash nodes ! (i - 1) - 1)))"
proof -
  obtain i n where i: "i < length nodes" "n \<in> set nodes"
    "ring_hashes hash nodes ! i = computeHash hash (node_address n)"
    "find_in_range k m = Inr (Some (node_address n, server_range (ring_hashes hash nodes) i))"
    "range_has (server_range (ring_hashes hash nodes) i) k"
    using assms by (rule find_in_range_ring)
  then have "ring_owner (ring_hashes hash nodes) k = ring_hashes hash nodes ! i \<or>
      0 < i \<and> (k = ring_hashes hash nodes ! (i - 1) \<or> k = ring_hashes hash nodes ! (i - 1) - 1)"
    using range_has_server_range [OF assms(1) i(1)] by blast
  with i show ?thesis by metis
qed

definition example_hash :: "string \<Rightarrow> nat" where
  "example_hash s =
     (if s = ''a:1'' then 100 else if s = ''b:2'' then 200 else if s = ''c:3'' then 300 else 150)"

definition example_nodes :: "ECSNode list" where
  "example_nodes =
     [\<lparr>nodeName = ''s3'', nodeHost = ''c'', nodePort = 3\<rparr>,
      \<lparr>nodeName = ''s1'', nodeHost = ''a'', nodePort = 1\<rparr>,
      \<lparr>nodeName = ''s2'', nodeHost = ''b'', nodePort = 2\<rparr>]"

lemma example_ring:
  "ring_ok example_hash example_nodes"
  "ring_hashes example_hash example_nodes = [100, 200, 300]"
  by code_simp+

lemma lookup_finds_owner_witness:
  "(\<exists>n \<in> set example_nodes. \<exists>r.
     find_in_range 150 (calc_metadata example_hash example_nodes) = Inr (Some (node_address n, r)) \<and>
     computeHash example_hash (node_address n) = 200) \<and>
   (\<exists>n \<in> set example_nodes. \<exists>r.
     find_in_range 200 (calc_metadata example_hash example_nodes) = Inr (Some (node_address n, r)))"
proof -
  have *: "\<exists>n \<in> set example_nodes. \<exists>r.
      find_in_range k (calc_metadata example_hash example_nodes) = Inr (Some (node_address n, r)) \<and>
      (computeHash example_hash (node_address n) = ring_owner [100, 200, 300] k \<or>
       (\<exists>i. 0 < i \<and> i < length example_nodes \<and>
         computeHash example_hash (node_address n) = [100, 200, 300 :: int] ! i \<and>
         (k = [100, 200, 300 :: int] ! (i - 1) \<or> k = [100, 200, 300 :: int] ! (i - 1) - 1)))" for k
    using lookup_finds_owner [of example_hash example_nodes "calc_metadata example_hash example_nodes" k]
    unfolding example_ring by (simp add: example_ring(1)) (simp add: example_nodes_def)
  have "\<not> (150 = [100, 200, 300 :: int] ! (i - 1) \<or> 150 = [100, 200, 300 :: int] ! (i - 1) - 1)"
    if "i < length example_nodes" for i
  proof -
    from that have "i = 0 \<or> i = 1 \<or> i = 2" by (auto simp: example_nodes_def)
    then show ?thesis by auto
  qed
  then show ?thesis using * [of 150] * [of 200] by (simp add: ring_owner_def) metis
qed

text \<open>
  The exact meaning of a range. The range \<open>calc_metadata\<close> gives the server at
  ring position \<open>i\<close> contains a hash if and only if the server owns it, or it is one
  of the two hashes at and before the predecessor. The comment in the source says the
  predecessor position is excluded; for every server but the first it is not.
\<close>

theorem server_range_exact:
  assumes "ring_ok hash nodes" and "i < length nodes"
  shows "range_has (server_range (ring_hashes hash nodes) i) k \<longleftrightarrow>
    ring_owner (ring_hashes hash nodes) k = ring_hashes hash nodes ! i \<or>
    0 < i \<and> (k = ring_hashes hash nodes ! (i - 1) \<or> k = ring_hashes hash nodes ! (i - 1) - 1)"
  using assms by (rule range_has_server_range)

lemma server_range_exact_witness:
  "range_has (server_range [100, 200, 300] 1) 100 \<and> ring_owner [100, 200, 300] 100 \<noteq> 200"
  using server_range_exact [of example_hash example_nodes 1 100]
  by (simp add: example_ring ring_owner_def) (simp add: example_nodes_def)

text \<open>
  A server finds itself. If the hashes of a node's address and of every other node
  are at least three apart, then \<open>getNodeByKey\<close> of the node's own address returns
  that node, for every iteration order: subtracting 2 from the hash steps over the
  two hashes shared with the successor.
\<close>

theorem getNodeByKey_self:
  assumes ok: "ring_ok hash nodes" and n: "n \<in> set nodes"
    and m: "mset m = mset (calc_metadata hash nodes)"
    and gap: "\<forall>n' \<in> set nodes. n' \<noteq> n \<longrightarrow>
      3 \<le> \<bar>computeHash hash (node_address n') - computeHash hash (node_address n)\<bar>"
  shows "\<exists>r. getNodeByKey hash m (node_address n) = Inr (Some (node_address n, r))"
proof -
  let ?hs = "ring_hashes hash nodes" and ?p = "computeHash hash (node_address n)"
  have ne: "nodes \<noteq> []" using n by auto
  obtain i n' where i: "i < length nodes" "n' \<in> set nodes" "?hs ! i = computeHash hash (node_address n')"
    "find_in_range (?p - 2) m = Inr (Some (node_address n', server_range ?hs i))"
    "range_has (server_range ?hs i) (?p - 2)"
    using ok ne m by (rule find_in_range_ring)
  have s: "sorted_wrt (<) ?hs" using ok by (rule ring_hashes_strict)
  obtain j where j: "j < length nodes" "?hs ! j = ?p" using n by (rule ring_index_of)
  have far: "?hs ! l = ?p \<or> 3 \<le> \<bar>?hs ! l - ?p\<bar>" if l: "l < length nodes" for l
  proof -
    obtain n'' where "n'' \<in> set nodes" "?hs ! l = computeHash hash (node_address n'')"
      using ring_node_at [OF l] by metis
    with gap show ?thesis by auto
  qed
  have "ring_owner ?hs (?p - 2) = ?hs ! i"
  proof (rule ccontr)
    assume "ring_owner ?hs (?p - 2) \<noteq> ?hs ! i"
    with i ok have "0 < i" "?p - 2 = ?hs ! (i - 1) \<or> ?p - 2 = ?hs ! (i - 1) - 1"
      by (auto simp: range_has_server_range)
    with far [of "i - 1"] i(1) show False by (auto simp: less_imp_diff_less)
  qed
  moreover have "ring_owner ?hs (?p - 2) = ?hs ! j"
  proof (rule ring_owner_eq_nth [OF s])
    show "j < length ?hs" using j by simp
    show "?p - 2 \<le> ?hs ! j" using j by simp
    show "?hs ! (j - 1) < ?p - 2" if "0 < j"
      using far [of "j - 1"] strict_sorted_nth_less [OF s, of "j - 1" j] j that
      by (auto simp: less_imp_diff_less)
  qed
  ultimately have "computeHash hash (node_address n') = ?p" using i j by simp
  then have "n' = n" using gap i(2) by (metis abs_zero diff_self not_numeral_le_zero)
  with i(4) show ?thesis by (auto simp: getNodeByKey_def computeHash_def)
qed

lemma getNodeByKey_self_witness:
  "\<exists>r. getNodeByKey example_hash (calc_metadata example_hash example_nodes) ''b:2'' =
     Inr (Some (''b:2'', r))"
proof -
  let ?n = "\<lparr>nodeName = ''s2'', nodeHost = ''b'', nodePort = 2\<rparr>"
  have n: "?n \<in> set example_nodes" and a: "node_address ?n = ''b:2''" by code_simp+
  have "\<forall>n' \<in> set example_nodes. n' \<noteq> ?n \<longrightarrow>
      3 \<le> \<bar>computeHash example_hash (node_address n') - computeHash example_hash (node_address ?n)\<bar>"
    by code_simp
  from getNodeByKey_self [OF example_ring(1) n refl this] show ?thesis unfolding a .
qed

end
