(* ===== verification/KVMessages.thy ===== *)
theory KVMessages
  imports HashRing
begin

text \<open>
  The messages of \<open>src/src/shared/messages\<close>: the status codes of
  \<open>KVMessage.StatusType\<close>, client messages (\<open>KVMsg\<close>), administration messages
  (\<open>KVAdminMsg\<close>) and the sealed envelope \<open>HMessage\<close>. A Java reference that may
  be null is an option; a byte is a natural number below 256.
\<close>

datatype StatusType =
    GET | GET_ERROR | GET_SUCCESS
  | PUT | PUT_SUCCESS | PUT_UPDATE | PUT_ERROR
  | DELETE_SUCCESS | DELETE_ERROR
  | SERVER_STOPPED | SERVER_WRITE_LOCK | SERVER_NOT_RESPONSIBLE
  | INIT_SERVER | INIT_SERVER_SUCCESS | INIT_SERVER_FAILED
  | START | START_SUCCESS
  | STOP | STOP_SUCCESS
  | SHUTDOWN | SHUTDOWN_SUCCESS
  | LOCK | LOCK_SUCCESS
  | UNLOCK | UNLOCK_SUCCESS
  | MOVE_DATA | MOVE_DATA_SUCCESS | MOVE_DATA_FAILED
  | UPDATE | UPDATE_SUCCESS | UPDATE_FAILED
  | FLUSH | FLUSH_SUCCESS | FLUSH_FAILED

record KVMsg =
  msgStatus :: "StatusType option"
  msgKey :: "string option"
  msgValue :: "string option"
  msgMetadata :: "metadata option"

definition kv_msg :: "StatusType option \<Rightarrow> string option \<Rightarrow> string option \<Rightarrow> KVMsg" where
  "kv_msg s k v = \<lparr>msgStatus = s, msgKey = k, msgValue = v, msgMetadata = None\<rparr>"

definition kv_msg_metadata ::
  "StatusType option \<Rightarrow> string option \<Rightarrow> string option \<Rightarrow> metadata option \<Rightarrow> KVMsg" where
  "kv_msg_metadata s k v m = \<lparr>msgStatus = s, msgKey = k, msgValue = v, msgMetadata = m\<rparr>"

lemma kv_msg_simps [simp]:
  "msgStatus (kv_msg s k v) = s" "msgKey (kv_msg s k v) = k"
  "msgValue (kv_msg s k v) = v" "msgMetadata (kv_msg s k v) = None"
  "msgStatus (kv_msg_metadata s k v m) = s" "msgKey (kv_msg_metadata s k v m) = k"
  "msgValue (kv_msg_metadata s k v m) = v" "msgMetadata (kv_msg_metadata s k v m) = m"
  by (simp_all add: kv_msg_def kv_msg_metadata_def)

record KVAdminMsg =
  admServer :: "string option"
  admStatus :: "StatusType option"
  admMetadata :: "metadata option"
  admRange :: "string option"

type_synonym bytes = "nat list"

text \<open>
  The encrypted payload of an envelope is opaque to the code that carries it: the
  type \<open>'b\<close> of encoded messages is a parameter.
\<close>

record 'b HMessage =
  hmMessage :: 'b
  hmHmac :: bytes

text \<open>A message on the wire is either of the two classes; \<open>isAdminMessage\<close> tells which.\<close>

datatype KVMessage = ClientMessage KVMsg | AdminMessage KVAdminMsg

fun isAdminMessage :: "KVMessage \<Rightarrow> bool" where
  "isAdminMessage (ClientMessage _) = False"
| "isAdminMessage (AdminMessage _) = True"

end
