(* ===== verification/KVStorage.thy ===== *)
theory KVStorage
  imports KVMessages
begin

text \<open>
  The persistent store of \<open>src/src/storage/KVStorage.java\<close>: a JSON object in one
  file, read before and rewritten after every change.

  The JSON text is produced and parsed by json-simple, which is not part of the
  repository: it is the field \<open>kvJson\<close> (a parser and a printer), of which
  \<open>json_lib_ok\<close> states what the code relies on. \<open>kvIO\<close> says how the environment
  answers the next file write; a \<open>FileWriter\<close> truncates the file when it is opened,
  so a write that fails later leaves an empty file behind.

  \<open>stored\<close> abstracts the store to the map from keys to values it holds. The locale
  \<open>key_value_map\<close> is the contract the server relies on; the last section proves
  that the storage fulfils it.
\<close>

type_synonym kv_object = "(string \<times> string) list"

record json_lib =
  jsonParse :: "string \<Rightarrow> kv_object option"
  jsonPrint :: "kv_object \<Rightarrow> string"

definition json_lib_ok :: "json_lib \<Rightarrow> bool" where
  "json_lib_ok J \<longleftrightarrow>
     (\<forall>ob. distinct (map fst ob) \<longrightarrow>
        (\<exists>ob'. jsonParse J (jsonPrint J ob) = Some ob' \<and> map_of ob' = map_of ob)) \<and>
     (\<forall>s ob. jsonParse J s = Some ob \<longrightarrow> distinct (map fst ob)) \<and>
     jsonParse J ''{}'' = Some [] \<and> jsonParse J [] = None"

datatype io_outcome = IoOk | IoOpenFails | IoWriteFails

record KVStorage =
  kvFile :: "string option"
  kvIO :: io_outcome
  kvJson :: json_lib

section \<open>Operations\<close>

definition storageExists :: "KVStorage \<Rightarrow> bool" where
  "storageExists st = (kvFile st \<noteq> None)"

definition createStorageFile :: "KVStorage \<Rightarrow> KVStorage" where
  "createStorageFile st =
     (if kvIO st = IoOpenFails then st
      else if kvFile st = None then st\<lparr>kvFile := Some []\<rparr> else st)"

definition initializeStorage :: "KVStorage \<Rightarrow> KVStorage" where
  "initializeStorage st = (if \<not> storageExists st then createStorageFile st else st)"

definition getKVObject :: "KVStorage \<Rightarrow> KVStorage \<times> kv_object" where
  "getKVObject st =
     (case kvFile st of
        Some text \<Rightarrow> (st, case jsonParse (kvJson st) text of Some ob \<Rightarrow> ob | None \<Rightarrow> [])
      | None \<Rightarrow> (initializeStorage st, []))"

definition inStorage :: "KVStorage \<Rightarrow> kv_object option \<Rightarrow> string \<Rightarrow> KVStorage \<times> bool" where
  "inStorage st kvObject key =
     (let (st', ob) = (case kvObject of None \<Rightarrow> getKVObject st | Some ob \<Rightarrow> (st, ob))
      in (st', if ob \<noteq> [] then map_of ob key \<noteq> None else False))"

definition get :: "KVStorage \<Rightarrow> string \<Rightarrow> KVStorage \<times> string option" where
  "get st key =
     (let (st1, kvObject) = getKVObject st;
          (st2, present) = inStorage st1 (Some kvObject) key
      in (st2, if present then map_of kvObject key else None))"

text \<open>\<open>new FileWriter(fileName)\<close>, \<open>write\<close>, \<open>flush\<close>.\<close>

definition write_file :: "KVStorage \<Rightarrow> string \<Rightarrow> KVStorage \<times> (java_error + unit)" where
  "write_file st text =
     (case kvIO st of
        IoOk \<Rightarrow> (st\<lparr>kvFile := Some text\<rparr>, Inr ())
      | IoOpenFails \<Rightarrow> (st, Inl IOException)
      | IoWriteFails \<Rightarrow> (st\<lparr>kvFile := Some []\<rparr>, Inl IOException))"

text \<open>The values that mean "delete this key".\<close>

definition is_delete :: "string option \<Rightarrow> bool" where
  "is_delete v = (v = None \<or> v = Some [] \<or> v = Some ''null'')"

definition put :: "KVStorage \<Rightarrow> string \<Rightarrow> string option \<Rightarrow> KVStorage \<times> (java_error + unit)" where
  "put st key value =
     (let (st1, kvObject) = getKVObject st;
          kvObject' = (if \<not> is_delete value then AList.update key (the value) kvObject
                       else AList.delete key kvObject)
      in write_file st1 (jsonPrint (kvJson st1) kvObject'))"

fun flushData :: "KVStorage \<Rightarrow> string list \<Rightarrow> KVStorage \<times> (java_error + unit)" where
  "flushData st [] = (st, Inr ())"
| "flushData st (key # keys) =
     (case put st key None of
        (st', Inl e) \<Rightarrow> (st', Inl e)
      | (st', Inr _) \<Rightarrow> flushData st' keys)"

definition clearKVStorage :: "KVStorage \<Rightarrow> KVStorage" where
  "clearKVStorage st = fst (write_file st ''{}'')"

section \<open>The map a storage holds\<close>

definition stored :: "KVStorage \<Rightarrow> string \<Rightarrow> string option" where
  "stored st = map_of (snd (getKVObject st))"

definition storage_ok :: "KVStorage \<Rightarrow> bool" where
  "storage_ok st \<longleftrightarrow> json_lib_ok (kvJson st) \<and> kvIO st = IoOk"

lemma getKVObject_distinct:
  "json_lib_ok (kvJson st) \<Longrightarrow> distinct (map fst (snd (getKVObject st)))"
  by (auto simp: getKVObject_def json_lib_ok_def split: option.splits)

lemma getKVObject_frame [simp]:
  "kvIO (fst (getKVObject st)) = kvIO st" "kvJson (fst (getKVObject st)) = kvJson st"
  by (auto simp: getKVObject_def initializeStorage_def createStorageFile_def split: option.splits)

lemma stored_getKVObject [simp]:
  assumes "json_lib_ok (kvJson st)"
  shows "stored (fst (getKVObject st)) = stored st"
  using assms
  by (auto simp: stored_def getKVObject_def initializeStorage_def createStorageFile_def
      json_lib_ok_def split: option.splits)

lemma storage_ok_getKVObject [wf_intros]: "storage_ok st \<Longrightarrow> storage_ok (fst (getKVObject st))"
  by (simp add: storage_ok_def)

lemma inStorage_result:
  "inStorage st None key = (fst (getKVObject st), stored st key \<noteq> None)"
  by (auto simp: inStorage_def stored_def Let_def split: prod.splits)

lemma get_result: "get st key = (fst (getKVObject st), stored st key)"
  by (auto simp: get_def inStorage_def stored_def Let_def split: prod.splits)

text \<open>What \<open>put\<close> makes of a map.\<close>

definition put_map :: "string \<Rightarrow> string option \<Rightarrow> (string \<Rightarrow> string option) \<Rightarrow> (string \<Rightarrow> string option)" where
  "put_map key value m = m(key := (if is_delete value then None else value))"

lemma put_ok:
  assumes "storage_ok st"
  shows "snd (put st key value) = Inr ()" and "storage_ok (fst (put st key value))"
    and "stored (fst (put st key value)) = put_map key value (stored st)"
proof -
  let ?ob = "snd (getKVObject st)" and ?st = "fst (getKVObject st)"
  let ?ob' = "if \<not> is_delete value then AList.update key (the value) ?ob else AList.delete key ?ob"
  from assms have J: "json_lib_ok (kvJson st)" and io: "kvIO st = IoOk" by (auto simp: storage_ok_def)
  have p: "put st key value = (?st\<lparr>kvFile := Some (jsonPrint (kvJson st) ?ob')\<rparr>, Inr ())"
    using io by (simp add: put_def write_file_def Let_def case_prod_beta)
  have d: "distinct (map fst ?ob')"
    using getKVObject_distinct [OF J] by (auto intro: wf_intros)
  then obtain ob where ob: "jsonParse (kvJson st) (jsonPrint (kvJson st) ?ob') = Some ob"
      "map_of ob = map_of ?ob'"
    using J unfolding json_lib_ok_def by blast
  show "snd (put st key value) = Inr ()" by (simp add: p)
  show "storage_ok (fst (put st key value))" using J io by (simp add: p storage_ok_def)
  have "stored (fst (put st key value)) = map_of ?ob'"
    using ob by (simp add: p stored_def [of "_\<lparr>kvFile := _\<rparr>"] getKVObject_def [of "_\<lparr>kvFile := _\<rparr>"])
  also have "\<dots> = put_map key value (stored st)"
    by (auto simp: put_map_def stored_def map_of_update map_of_delete is_delete_def)
  finally show "stored (fst (put st key value)) = put_map key value (stored st)" .
qed

lemma clearKVStorage_ok:
  assumes "storage_ok st"
  shows "stored (clearKVStorage st) = Map.empty" and "storage_ok (clearKVStorage st)"
  using assms
  by (auto simp: clearKVStorage_def write_file_def storage_ok_def stored_def getKVObject_def
      json_lib_ok_def)

section \<open>The contract the server relies on\<close>

text \<open>
  A store of optional values under keys: \<open>content\<close> reads it, \<open>store\<close> writes one
  entry (or deletes it), \<open>ok\<close> is the provider's invariant. \<open>erase\<close> deletes a list
  of keys one after the other.
\<close>

locale key_value_map =
  fixes content :: "'s \<Rightarrow> string \<Rightarrow> string option"
    and store :: "'s \<Rightarrow> string \<Rightarrow> string option \<Rightarrow> 's \<times> (java_error + unit)"
    and ok :: "'s \<Rightarrow> bool"
  assumes store_returns: "ok s \<Longrightarrow> snd (store s k v) = Inr ()"
    and store_ok: "ok s \<Longrightarrow> ok (fst (store s k v))"
    and store_content: "ok s \<Longrightarrow> content (fst (store s k v)) = put_map k v (content s)"
begin

fun erase :: "'s \<Rightarrow> string list \<Rightarrow> 's \<times> (java_error + unit)" where
  "erase s [] = (s, Inr ())"
| "erase s (k # ks) =
     (case store s k None of (s', Inl e) \<Rightarrow> (s', Inl e) | (s', Inr _) \<Rightarrow> erase s' ks)"

lemma erase_step:
  "ok s \<Longrightarrow> erase s (k # ks) = erase (fst (store s k None)) ks"
  using store_returns [of s k None] by (cases "store s k None") auto

lemma erase_ok:
  "ok s \<Longrightarrow> snd (erase s ks) = Inr () \<and> ok (fst (erase s ks)) \<and>
    content (fst (erase s ks)) = (content s) |` (- set ks)"
proof (induction ks arbitrary: s)
  case Nil
  then show ?case by simp
next
  case (Cons k ks)
  let ?s = "fst (store s k None)"
  have "content ?s |` (- set ks) = content s |` (- set (k # ks))"
    using store_content [OF Cons.prems, of k None]
    by (auto simp: put_map_def is_delete_def restrict_map_def fun_eq_iff)
  with Cons.IH [OF store_ok [OF Cons.prems, of k None]] Cons.prems show ?case
    by (simp add: erase_step del: erase.simps)
qed

lemma store_other: "ok s \<Longrightarrow> k' \<noteq> k \<Longrightarrow> content (fst (store s k v)) k' = content s k'"
  by (simp add: store_content put_map_def)

end

interpretation storage: key_value_map stored put storage_ok
  by unfold_locales (auto intro: put_ok)

lemma flushData_erase: "flushData st keys = storage.erase st keys"
  by (induction keys arbitrary: st) (auto split: prod.splits sum.splits)

lemmas storage_laws = put_ok get_result inStorage_result clearKVStorage_ok

section \<open>A concrete JSON library\<close>

text \<open>
  An instance that satisfies \<open>json_lib_ok\<close>, for the witnesses: pairs of strings,
  each preceded by its length in unary.
\<close>

definition enc_str :: "string \<Rightarrow> string" where
  "enc_str s = replicate (length s) CHR ''1'' @ CHR ''0'' # s"

definition dec_str :: "string \<Rightarrow> string \<times> string" where
  "dec_str t =
     (let n = length (takeWhile (\<lambda>c. c = CHR ''1'') t); r = drop (Suc n) t
      in (take n r, drop n r))"

fun enc_pairs :: "kv_object \<Rightarrow> string" where
  "enc_pairs [] = ''}''"
| "enc_pairs ((k, v) # ps) = CHR '','' # enc_str k @ enc_str v @ enc_pairs ps"

fun dec_pairs :: "nat \<Rightarrow> string \<Rightarrow> kv_object" where
  "dec_pairs 0 t = []"
| "dec_pairs (Suc n) t =
     (case t of
        [] \<Rightarrow> []
      | c # r \<Rightarrow>
          (if c = CHR '','' then
             (let (k, r1) = dec_str r; (v, r2) = dec_str r1 in (k, v) # dec_pairs n r2)
           else []))"

definition example_json :: json_lib where
  "example_json =
     \<lparr>jsonParse = (\<lambda>s. case s of [] \<Rightarrow> None
        | c # r \<Rightarrow> (let ob = dec_pairs (length s) r
                   in if distinct (map fst ob) then Some ob else None)),
      jsonPrint = (\<lambda>ob. CHR ''{'' # enc_pairs ob)\<rparr>"

lemma dec_enc_str [simp]: "dec_str (enc_str s @ r) = (s, r)"
proof -
  have "takeWhile (\<lambda>c. c = CHR ''1'') (enc_str s @ r) = replicate (length s) CHR ''1''"
    by (simp add: enc_str_def takeWhile_append takeWhile_eq_all_conv [symmetric])
  then show ?thesis by (simp add: dec_str_def Let_def) (simp add: enc_str_def)
qed

lemma dec_enc_pairs: "length ob < n \<Longrightarrow> dec_pairs n (enc_pairs ob) = ob"
proof (induction ob arbitrary: n)
  case Nil
  then show ?case by (cases n) auto
next
  case (Cons p ob)
  then obtain m where "n = Suc m" "length ob < m" by (cases n) auto
  with Cons.IH show ?case by (cases p) (simp add: Let_def)
qed

lemma enc_pairs_length: "length ob < length (enc_pairs ob)"
  by (induction ob rule: enc_pairs.induct) auto

lemma example_json_ok: "json_lib_ok example_json"
proof -
  have "jsonParse example_json (jsonPrint example_json ob) = Some ob" if "distinct (map fst ob)" for ob
    using that enc_pairs_length [of ob] dec_enc_pairs [of ob "Suc (length (enc_pairs ob))"]
    by (simp add: example_json_def Let_def del: dec_pairs.simps)
  then show ?thesis
    by (auto simp: json_lib_ok_def example_json_def Let_def split: list.splits if_splits)
qed

end
