(* ===== verification/KVServer.thy ===== *)
theory KVServer
  imports KVStorage
begin

text \<open>
  The storage server of \<open>src/src/app_kvServer/KVServer.java\<close>: its flags, its
  metadata, its store and the operations the communication module calls.

  The record \<open>KVServer\<close> has the fields the operations read and write; \<open>published\<close>
  collects the notifications handed to \<open>Publisher.pub\<close>. Moving data to another
  server goes through a \<open>network\<close>: opening a connection and one PUT request with
  its reply, over an abstract state \<open>'w\<close> of the rest of the system. The locale
  \<open>kv_peer\<close> is what \<open>moveData\<close> needs of the receiving server; \<open>CommModule\<close>
  interprets it on the request handler.
\<close>

record KVServer =
  srvHost :: string
  srvPort :: nat
  stopped :: bool
  writeLock :: bool
  running :: bool
  srvMetadata :: "metadata option"
  dataToFlush :: "string list"
  srvStorage :: KVStorage
  published :: "string list"

section \<open>Flags and metadata\<close>

definition setStart :: "KVServer \<Rightarrow> KVServer" where
  "setStart s = s\<lparr>stopped := False\<rparr>"

definition setStop :: "KVServer \<Rightarrow> KVServer" where
  "setStop s = s\<lparr>stopped := True\<rparr>"

definition lockWrite :: "KVServer \<Rightarrow> KVServer" where
  "lockWrite s = s\<lparr>writeLock := True\<rparr>"

definition unLockWrite :: "KVServer \<Rightarrow> KVServer" where
  "unLockWrite s = s\<lparr>writeLock := False\<rparr>"

definition shutDown :: "KVServer \<Rightarrow> KVServer" where
  "shutDown s = s\<lparr>running := False\<rparr>"

definition initKVServer :: "metadata \<Rightarrow> KVServer \<Rightarrow> KVServer" where
  "initKVServer md s = s\<lparr>srvMetadata := Some md\<rparr>"

definition update_metadata :: "metadata \<Rightarrow> KVServer \<Rightarrow> KVServer" where
  "update_metadata md s = s\<lparr>srvMetadata := Some md\<rparr>"

text \<open>
  \<open>inRange\<close> reads the range of the server's own address in its metadata; a server
  without metadata, or without an entry, dereferences null.
\<close>

definition inRange :: "(string \<Rightarrow> nat) \<Rightarrow> KVServer \<Rightarrow> string \<Rightarrow> java_error + bool" where
  "inRange hash s key =
     (case srvMetadata s of
        None \<Rightarrow> Inl NullPointerException
      | Some md \<Rightarrow>
          (case map_of md (show_address (srvHost s) (srvPort s)) of
             None \<Rightarrow> Inl NullPointerException
           | Some r \<Rightarrow>
               (case parse_range r of
                  Inl e \<Rightarrow> Inl e
                | Inr (rs, re) \<Rightarrow> Inr (range_test rs re (int (hash key))))))"

section \<open>The store behind the server\<close>

definition inStorageKV :: "KVServer \<Rightarrow> string \<Rightarrow> KVServer \<times> bool" where
  "inStorageKV s key =
     (let (st, b) = inStorage (srvStorage s) None key in (s\<lparr>srvStorage := st\<rparr>, b))"

definition getKV :: "KVServer \<Rightarrow> string \<Rightarrow> KVServer \<times> string option" where
  "getKV s key = (let (st, v) = get (srvStorage s) key in (s\<lparr>srvStorage := st\<rparr>, v))"

text \<open>String concatenation prints a null reference as \<open>null\<close>.\<close>

definition java_str :: "string option \<Rightarrow> string" where
  "java_str v = (case v of None \<Rightarrow> ''null'' | Some s \<Rightarrow> s)"

definition notification :: "string \<Rightarrow> string option \<Rightarrow> bool \<Rightarrow> bool \<Rightarrow> string" where
  "notification key value in_storage del =
     (if in_storage \<and> del then ''Delete''
      else if in_storage \<and> \<not> del then ''Update'' else ''Put'')
     @ '' --> '' @ key @ '':'' @ java_str value"

definition putKV ::
  "KVServer \<Rightarrow> string \<Rightarrow> string option \<Rightarrow> bool \<Rightarrow> bool \<Rightarrow> KVServer \<times> (java_error + unit)" where
  "putKV s key value in_storage del =
     (let s1 = s\<lparr>published := published s @ [notification key value in_storage del]\<rparr>;
          (st, r) = put (srvStorage s1) key value
      in (s1\<lparr>srvStorage := st\<rparr>, r))"

definition clearStorage :: "KVServer \<Rightarrow> KVServer" where
  "clearStorage s = s\<lparr>srvStorage := clearKVStorage (srvStorage s)\<rparr>"

definition flushServer :: "KVServer \<Rightarrow> KVServer \<times> (java_error + unit)" where
  "flushServer s =
     (case flushData (srvStorage s) (dataToFlush s) of
        (st, Inl e) \<Rightarrow> (s\<lparr>srvStorage := st\<rparr>, Inl e)
      | (st, Inr _) \<Rightarrow> (s\<lparr>srvStorage := st, dataToFlush := []\<rparr>, Inr ()))"

section \<open>Moving data to another server\<close>

record 'w network =
  netConnect :: "string \<times> nat \<Rightarrow> 'w \<Rightarrow> 'w \<times> (java_error + unit)"
  netRequest :: "string \<times> nat \<Rightarrow> KVMsg \<Rightarrow> 'w \<Rightarrow> 'w \<times> (java_error + KVMsg option)"

abbreviation put_request :: "string \<Rightarrow> string option \<Rightarrow> KVMsg" where
  "put_request key value \<equiv> kv_msg (Some PUT) (Some key) value"

text \<open>
  The loop over the key set. A reply other than \<open>PUT_SUCCESS\<close> is only reported on
  the console; a null reply is dereferenced; every exception ends the loop.
\<close>

fun move_keys ::
  "(string \<Rightarrow> nat) \<Rightarrow> 'w network \<Rightarrow> string \<times> nat \<Rightarrow> string \<Rightarrow> kv_object \<Rightarrow>
   KVServer \<Rightarrow> 'w \<Rightarrow> KVServer \<times> 'w \<times> (java_error + unit)" where
  "move_keys hash net addr rng [] s w = (s, w, Inr ())"
| "move_keys hash net addr rng ((key, value) # rest) s w =
     (case parse_range rng of
        Inl e \<Rightarrow> (s, w, Inl e)
      | Inr (rs, re) \<Rightarrow>
          if range_test rs re (int (hash key)) then
            (let s1 = s\<lparr>dataToFlush := dataToFlush s @ [key]\<rparr>
             in case netRequest net addr (put_request key (Some value)) w of
                  (w1, Inl e) \<Rightarrow> (s1, w1, Inl e)
                | (w1, Inr None) \<Rightarrow> (s1, w1, Inl NullPointerException)
                | (w1, Inr (Some reply)) \<Rightarrow> move_keys hash net addr rng rest s1 w1)
          else move_keys hash net addr rng rest s w)"

definition moveData ::
  "(string \<Rightarrow> nat) \<Rightarrow> 'w network \<Rightarrow> string \<Rightarrow> string \<Rightarrow> KVServer \<Rightarrow> 'w \<Rightarrow>
   KVServer \<times> 'w \<times> (java_error + unit)" where
  "moveData hash net rng sendTo s w =
     (let s1 = lockWrite s;
          (st, kvObject) = getKVObject (srvStorage s1);
          s2 = s1\<lparr>srvStorage := st\<rparr>
      in case parse_address sendTo of
           Inl e \<Rightarrow> (s2, w, Inl e)
         | Inr addr \<Rightarrow>
             (case netConnect net addr w of
                (w1, Inl e) \<Rightarrow> (s2, w1, Inl e)
              | (w1, Inr _) \<Rightarrow>
                  (case move_keys hash net addr rng kvObject s2 w1 of
                     (s3, w2, Inl e) \<Rightarrow> (s3, w2, Inl e)
                   | (s3, w2, Inr _) \<Rightarrow>
                       (case flushServer s3 of
                          (s4, Inl e) \<Rightarrow> (s4, w2, Inl e)
                        | (s4, Inr _) \<Rightarrow> (unLockWrite s4, w2, Inr ())))))"

section \<open>Laws of the operations\<close>

abbreviation content :: "KVServer \<Rightarrow> string \<Rightarrow> string option" where
  "content s \<equiv> stored (srvStorage s)"

abbreviation server_ok :: "KVServer \<Rightarrow> bool" where
  "server_ok s \<equiv> storage_ok (srvStorage s)"

lemma inStorageKV_result:
  "inStorageKV s key = (s\<lparr>srvStorage := fst (getKVObject (srvStorage s))\<rparr>, content s key \<noteq> None)"
  by (simp add: inStorageKV_def inStorage_result)

lemma getKV_result:
  "getKV s key = (s\<lparr>srvStorage := fst (getKVObject (srvStorage s))\<rparr>, content s key)"
  by (simp add: getKV_def get_result)

lemma putKV_ok:
  assumes "server_ok s"
  obtains st where
    "putKV s key value i d =
       (s\<lparr>published := published s @ [notification key value i d], srvStorage := st\<rparr>, Inr ())"
    "storage_ok st" "stored st = put_map key value (content s)"
proof -
  obtain st r where p: "put (srvStorage s) key value = (st, r)" by fastforce
  with put_ok [OF assms, of key "value"] have "r = Inr ()" "storage_ok st"
      "stored st = put_map key value (content s)" by auto
  with p that show thesis by (auto simp: putKV_def)
qed

lemma flushServer_ok:
  assumes "server_ok s"
  obtains st where
    "flushServer s = (s\<lparr>srvStorage := st, dataToFlush := []\<rparr>, Inr ())"
    "storage_ok st" "stored st = content s |` (- set (dataToFlush s))"
proof -
  obtain st r where f: "flushData (srvStorage s) (dataToFlush s) = (st, r)" by fastforce
  with storage.erase_ok [OF assms, of "dataToFlush s"] have "r = Inr ()" "storage_ok st"
      "stored st = content s |` (- set (dataToFlush s))" by (auto simp: flushData_erase)
  with f that show thesis by (auto simp: flushServer_def)
qed

text \<open>
  An operation that fails anywhere after the first statement of \<open>moveData\<close> leaves
  the write lock set: there is no handler that releases it.
\<close>

lemma move_keys_flags:
  "move_keys hash net addr rng ob s w = (s', w', r) \<Longrightarrow>
     writeLock s' = writeLock s \<and> stopped s' = stopped s \<and> srvStorage s' = srvStorage s \<and>
     srvMetadata s' = srvMetadata s"
proof (induction ob arbitrary: s w)
  case Nil
  then show ?case by simp
next
  case (Cons p ob)
  obtain key val where p: "p = (key, val)" by fastforce
  from Cons.prems show ?case
    by (auto simp: Let_def p dest!: Cons.IH
        split: sum.splits prod.splits option.splits if_splits)
qed

lemma flushServer_flags:
  "flushServer s = (s', r) \<Longrightarrow> writeLock s' = writeLock s \<and> stopped s' = stopped s"
  by (auto simp: flushServer_def split: prod.splits sum.splits)

section \<open>What moving data needs of the receiving server\<close>

text \<open>
  \<open>accepts w k\<close>: in state \<open>w\<close>, a PUT of key \<open>k\<close> is carried out. The provider
  promises that an accepted PUT is answered and stored, and that accepting is kept.
\<close>

locale kv_peer =
  fixes net :: "'w network"
    and addr :: "string \<times> nat"
    and peer_content :: "'w \<Rightarrow> string \<Rightarrow> string option"
    and accepts :: "'w \<Rightarrow> string \<Rightarrow> bool"
  assumes put_accepted:
    "accepts w k \<Longrightarrow> \<not> is_delete (Some v) \<Longrightarrow>
       \<exists>w' reply. netRequest net addr (put_request k (Some v)) w = (w', Inr (Some reply)) \<and>
         peer_content w' = (peer_content w)(k \<mapsto> v) \<and> (\<forall>k'. accepts w k' \<longrightarrow> accepts w' k')"
begin

definition moved :: "(string \<Rightarrow> nat) \<Rightarrow> int \<Rightarrow> int \<Rightarrow> kv_object \<Rightarrow> kv_object" where
  "moved h rs re ob = filter (\<lambda>p. range_test rs re (int (h (fst p)))) ob"

lemma map_of_moved:
  "map_of (moved h rs re ob) k =
     (if range_test rs re (int (h k)) then map_of ob k else None)"
  by (induction ob) (auto simp: moved_def)

lemma move_keys_accepted:
  assumes "parse_range rng = Inr (rs, re)"
    and "\<forall>p \<in> set ob. \<not> is_delete (Some (snd p))"
    and "\<forall>p \<in> set (moved h rs re ob). accepts w (fst p)"
    and "distinct (map fst ob)"
  shows "\<exists>w'. move_keys h net addr rng ob s w =
      (s\<lparr>dataToFlush := dataToFlush s @ map fst (moved h rs re ob)\<rparr>, w', Inr ()) \<and>
      peer_content w' = peer_content w ++ map_of (moved h rs re ob)"
  using assms(2-)
proof (induction ob arbitrary: s w)
  case Nil
  then show ?case by (simp add: moved_def)
next
  case (Cons p ob)
  obtain key val where p: "p = (key, val)" by fastforce
  show ?case
  proof (cases "range_test rs re (int (h key))")
    case False
    with Cons p assms(1) show ?thesis by (simp add: moved_def)
  next
    case True
    let ?s = "s\<lparr>dataToFlush := dataToFlush s @ [key]\<rparr>"
    have "accepts w key" using Cons.prems(2) p True by (simp add: moved_def)
    then obtain w1 reply where r:
        "netRequest net addr (put_request key (Some val)) w = (w1, Inr (Some reply))"
        "peer_content w1 = (peer_content w)(key \<mapsto> val)" "\<forall>k'. accepts w k' \<longrightarrow> accepts w1 k'"
      using put_accepted [of w key val] Cons.prems(1) p by auto
    obtain w' where w': "move_keys h net addr rng ob ?s w1 =
        (?s\<lparr>dataToFlush := dataToFlush ?s @ map fst (moved h rs re ob)\<rparr>, w', Inr ()) \<and>
        peer_content w' = peer_content w1 ++ map_of (moved h rs re ob)"
      using Cons.IH [of w1 ?s] Cons.prems p True r(3) by (auto simp: moved_def)
    have k: "map_of (moved h rs re ob) key = None"
      using Cons.prems(3) p by (auto simp: map_of_moved map_of_eq_None_iff)
    have mv: "moved h rs re (p # ob) = (key, val) # moved h rs re ob"
      using p True by (simp add: moved_def)
    have "peer_content w' = (peer_content w)(key \<mapsto> val) ++ map_of (moved h rs re ob)"
      using w' r(2) by metis
    also have "\<dots> = peer_content w ++ map_of (moved h rs re (p # ob))"
      using k mv by (auto simp: fun_eq_iff map_add_def split: option.splits)
    finally have "peer_content w' = peer_content w ++ map_of (moved h rs re (p # ob))" .
    moreover have "move_keys h net addr rng (p # ob) s w =
        (s\<lparr>dataToFlush := dataToFlush s @ map fst (moved h rs re (p # ob))\<rparr>, w', Inr ())"
      using p True r(1) assms(1) w' mv by (simp add: Let_def)
    ultimately show ?thesis by blast
  qed
qed

end

end
