(* ===== verification/CommModule.thy ===== *)
theory CommModule
  imports KVServer
begin

text \<open>
  The communication module of \<open>src/src/shared/comm/CommModule.java\<close>: key exchange
  (\<open>fastModExp\<close>, \<open>sendSecret\<close>, \<open>setKey\<close>), sealed messages (\<open>sendMsg\<close>,
  \<open>receiveMsg\<close>) and the server side of the protocol (\<open>serve\<close>, \<open>adminServe\<close>,
  one iteration of \<open>run\<close>).

  SHA-256, DES, HMAC-SHA256 and Java serialization are a parameter (\<open>crypto_lib\<close>);
  \<open>crypto_lib_ok\<close> says that decryption inverts encryption and deserialization
  inverts serialization, nothing about secrecy. \<open>spec_serve\<close> is the abstract
  request handler over a map, which \<open>serve\<close> refines.
\<close>

section \<open>Diffie-Hellman key exchange\<close>

definition dh_prime :: int where
  "dh_prime =
     0xFFFFFFFFFFFFFFFFC90FDAA22168C234C4C6628B80DC1CD129024E088A67CC74020BBEA63B139B22514A08798E3404DDEF9519B3CD3A431B302B0A6DF25F14374FE1356D6D51C245E485B576625E7EC6F44C42E9A637ED6B0BFF5CB6F406B7EDEE386BFB5A899FA5AE9F24117C4B1FE649286651ECE45B3DC2007CB8A163BF0598DA48361C55D39A69163FA8FD24CF5F83655D23DCA3AD961C62F356208552BB9ED529077096966D670C354E4ABC9804F1746C08CA237327FFFFFFFFFFFFFFFF"

definition dh_generator :: int where
  "dh_generator = 2"

text \<open>The loop of \<open>fastModExp\<close>: \<open>while (x > 1)\<close> with the accumulator \<open>Y\<close>.\<close>

function modexp_loop :: "int \<Rightarrow> int \<Rightarrow> int \<Rightarrow> int \<Rightarrow> int" where
  "modexp_loop G Y x p =
     (if 1 < x then
        (if x mod 2 = 0 then modexp_loop ((G * G) mod p) Y (x div 2) p
         else modexp_loop ((G * G) mod p) ((G * Y) mod p) ((x - 1) div 2) p)
      else (G * Y) mod p)"
  by pat_completeness auto
termination
  by (relation "measure (\<lambda>(G, Y, x, p). nat x)") auto

declare modexp_loop.simps [simp del]

definition fastModExp :: "int \<Rightarrow> int \<Rightarrow> int \<Rightarrow> int" where
  "fastModExp G x p = (if x = 0 then 1 else modexp_loop G 1 x p)"

text \<open>\<open>BigInteger.toByteArray\<close> of a non-negative number: big-endian, with a sign bit.\<close>

definition to_byte_array :: "int \<Rightarrow> bytes" where
  "to_byte_array n = (let ds = digits_base 256 (nat n) in if 128 \<le> hd ds then 0 # ds else ds)"

definition sendSecret :: "int \<Rightarrow> int" where
  "sendSecret secretInt = fastModExp dh_generator secretInt dh_prime"

definition setKey :: "(bytes \<Rightarrow> bytes) \<Rightarrow> int \<Rightarrow> int \<Rightarrow> bytes" where
  "setKey sha256 secretInt received =
     (let digest = sha256 (to_byte_array (fastModExp received secretInt dh_prime))
      in take 8 (digest @ replicate 8 0))"

section \<open>Sealed messages\<close>

record 'b crypto_lib =
  encrypt :: "bytes \<Rightarrow> 'b \<Rightarrow> 'b"
  decrypt :: "bytes \<Rightarrow> 'b \<Rightarrow> 'b option"
  hmacSHA256 :: "bytes \<Rightarrow> 'b \<Rightarrow> bytes"
  serialize :: "KVMessage \<Rightarrow> 'b"
  deserialize :: "'b \<Rightarrow> KVMessage option"

definition crypto_lib_ok :: "'b crypto_lib \<Rightarrow> bool" where
  "crypto_lib_ok C \<longleftrightarrow>
     (\<forall>k m. decrypt C k (encrypt C k m) = Some m) \<and>
     (\<forall>m. deserialize C (serialize C m) = Some m)"

definition seal :: "'b crypto_lib \<Rightarrow> bytes \<Rightarrow> KVMessage \<Rightarrow> 'b HMessage" where
  "seal C key m =
     (let encrypted = encrypt C key (serialize C m)
      in \<lparr>hmMessage = encrypted, hmHmac = hmacSHA256 C key encrypted\<rparr>)"

definition sendMsg ::
  "'b crypto_lib \<Rightarrow> bytes \<Rightarrow> StatusType option \<Rightarrow> string option \<Rightarrow> string option \<Rightarrow> metadata option \<Rightarrow> 'b HMessage" where
  "sendMsg C key status k v md = seal C key (ClientMessage (kv_msg_metadata status k v md))"

definition sendAdminMsg ::
  "'b crypto_lib \<Rightarrow> bytes \<Rightarrow> string option \<Rightarrow> StatusType option \<Rightarrow> metadata option \<Rightarrow> string option \<Rightarrow> 'b HMessage" where
  "sendAdminMsg C key kvServer status md rng =
     seal C key (AdminMessage
       \<lparr>admServer = kvServer, admStatus = status, admMetadata = md, admRange = rng\<rparr>)"

text \<open>
  \<open>receiveMsg\<close> returns the message, null when decryption or deserialization fails,
  and, as the first component, whether "HMACs do not match" was logged.
\<close>

definition receiveMsg :: "'b crypto_lib \<Rightarrow> bytes \<Rightarrow> 'b HMessage \<Rightarrow> bool \<times> KVMessage option" where
  "receiveMsg C key h =
     (let mismatch = (hmHmac h \<noteq> hmacSHA256 C key (hmMessage h))
      in (mismatch,
          case decrypt C key (hmMessage h) of
            None \<Rightarrow> None
          | Some serialized \<Rightarrow> deserialize C serialized))"

section \<open>Serving a client request\<close>

text \<open>\<open>getBytes(UTF_8).length\<close> of a string of Latin-1 characters.\<close>

definition utf8_size :: "string \<Rightarrow> nat" where
  "utf8_size s = sum_list (map (\<lambda>c. if (of_char c :: nat) < 128 then 1 else 2) s)"

definition serve_get ::
  "(string \<Rightarrow> nat) \<Rightarrow> KVServer \<Rightarrow> string \<Rightarrow> KVServer \<times> (java_error + KVMsg)" where
  "serve_get hash s key =
     (case inRange hash s key of
        Inl e \<Rightarrow> (s, Inl e)
      | Inr False \<Rightarrow>
          (s, Inr (kv_msg_metadata (Some SERVER_NOT_RESPONSIBLE) (Some key) None (srvMetadata s)))
      | Inr True \<Rightarrow>
          (let (s1, out_value) = getKV s key
           in (s1, Inr (kv_msg (Some (if out_value \<noteq> None then GET_SUCCESS else GET_ERROR))
                               (Some key) out_value))))"

text \<open>
  Both lengths are computed from the key, as in the source: \<open>val_len\<close> is not the
  length of the value.
\<close>

definition serve_put ::
  "(string \<Rightarrow> nat) \<Rightarrow> KVServer \<Rightarrow> string \<Rightarrow> string option \<Rightarrow> KVServer \<times> (java_error + KVMsg)" where
  "serve_put hash s key val =
     (let key_len = utf8_size key; val_len = utf8_size key in
      if writeLock s then (s, Inr (kv_msg (Some SERVER_WRITE_LOCK) (Some key) None))
      else if key_len < 1 \<or> key_len > 20 \<or> val_len > 122880 then
        (s, Inr (kv_msg (Some PUT_ERROR) (Some key) None))
      else
        (case inRange hash s key of
           Inl e \<Rightarrow> (s, Inl e)
         | Inr False \<Rightarrow>
             (s, Inr (kv_msg_metadata (Some SERVER_NOT_RESPONSIBLE) (Some key) None (srvMetadata s)))
         | Inr True \<Rightarrow>
             (let delete = is_delete val;
                  (s1, present) = inStorageKV s key
              in if present then
                   (case putKV s1 key val True delete of
                      (s2, Inl e) \<Rightarrow> (s2, Inl e)
                    | (s2, Inr _) \<Rightarrow>
                        (s2, Inr (kv_msg (Some (if delete then DELETE_SUCCESS else PUT_UPDATE))
                                         (Some key) val)))
                 else if delete then (s1, Inr (kv_msg (Some DELETE_ERROR) (Some key) val))
                 else
                   (case putKV s1 key val False delete of
                      (s2, Inl e) \<Rightarrow> (s2, Inl e)
                    | (s2, Inr _) \<Rightarrow> (s2, Inr (kv_msg (Some PUT_SUCCESS) (Some key) val))))))"

text \<open>
  \<open>serve\<close>: the key is measured before anything else, so a message without a key
  raises; so does a message without a status on a server that is not stopped.
\<close>

definition serve ::
  "(string \<Rightarrow> nat) \<Rightarrow> KVServer \<Rightarrow> KVMsg option \<Rightarrow> KVServer \<times> (java_error + KVMsg option)" where
  "serve hash s msg =
     (case msg of
        None \<Rightarrow> (s, Inr None)
      | Some m \<Rightarrow>
          (case msgKey m of
             None \<Rightarrow> (s, Inl NullPointerException)
           | Some key \<Rightarrow>
               if stopped s then (s, Inr (Some (kv_msg (Some SERVER_STOPPED) (Some key) None)))
               else
                 (case msgStatus m of
                    None \<Rightarrow> (s, Inl NullPointerException)
                  | Some GET \<Rightarrow> map_prod id (map_sum id Some) (serve_get hash s key)
                  | Some PUT \<Rightarrow> map_prod id (map_sum id Some) (serve_put hash s key (msgValue m))
                  | Some _ \<Rightarrow> (s, Inr (Some (kv_msg None (Some key) None))))))"

section \<open>Serving the configuration service\<close>

definition admin_reply :: "StatusType option \<Rightarrow> KVAdminMsg" where
  "admin_reply st = \<lparr>admServer = None, admStatus = st, admMetadata = None, admRange = None\<rparr>"

definition adminServe ::
  "(string \<Rightarrow> nat) \<Rightarrow> 'w network \<Rightarrow> KVServer \<Rightarrow> 'w \<Rightarrow> KVAdminMsg \<Rightarrow> KVServer \<times> 'w \<times> KVAdminMsg option" where
  "adminServe hash net s w m =
     (case admStatus m of
        None \<Rightarrow> (s, w, None)
      | Some st \<Rightarrow>
          (let (s', w', out) =
             (case st of
                INIT_SERVER \<Rightarrow>
                  (case admMetadata m of
                     None \<Rightarrow> (s, w, Some INIT_SERVER_FAILED)
                   | Some md \<Rightarrow> (initKVServer md s, w, Some INIT_SERVER_SUCCESS))
              | START \<Rightarrow> (setStart s, w, Some START_SUCCESS)
              | STOP \<Rightarrow> (setStop s, w, Some STOP_SUCCESS)
              | SHUTDOWN \<Rightarrow> (shutDown s, w, Some SHUTDOWN_SUCCESS)
              | LOCK \<Rightarrow> (lockWrite s, w, Some LOCK_SUCCESS)
              | UNLOCK \<Rightarrow> (unLockWrite s, w, Some UNLOCK_SUCCESS)
              | MOVE_DATA \<Rightarrow>
                  (case (admRange m, admServer m) of
                     (Some rng, Some sendTo) \<Rightarrow>
                       (case moveData hash net rng sendTo s w of
                          (s1, w1, Inl e) \<Rightarrow> (s1, w1, Some MOVE_DATA_FAILED)
                        | (s1, w1, Inr _) \<Rightarrow> (s1, w1, Some MOVE_DATA_SUCCESS))
                   | _ \<Rightarrow> (s, w, Some MOVE_DATA_FAILED))
              | UPDATE \<Rightarrow>
                  (case admMetadata m of
                     None \<Rightarrow> (s, w, Some UPDATE_FAILED)
                   | Some md \<Rightarrow> (update_metadata md s, w, Some UPDATE_SUCCESS))
              | FLUSH \<Rightarrow>
                  (case flushServer s of
                     (s1, Inl e) \<Rightarrow> (s1, w, Some FLUSH_FAILED)
                   | (s1, Inr _) \<Rightarrow> (s1, w, Some FLUSH_SUCCESS))
              | _ \<Rightarrow> (s, w, None))
           in (s', w', Some (admin_reply out))))"

text \<open>
  One iteration of \<open>run\<close> on a received envelope: the new server state, the reply
  sent (if any) and whether the connection stays open. A null message is
  dereferenced outside the inner handlers, which ends the thread.
\<close>

definition run_iteration ::
  "(string \<Rightarrow> nat) \<Rightarrow> 'b crypto_lib \<Rightarrow> bytes \<Rightarrow> 'w network \<Rightarrow> KVServer \<Rightarrow> 'w \<Rightarrow> 'b HMessage \<Rightarrow>
   KVServer \<times> 'w \<times> 'b HMessage option \<times> bool" where
  "run_iteration hash C key net s w h =
     (case snd (receiveMsg C key h) of
        None \<Rightarrow> (s, w, None, False)
      | Some (AdminMessage m) \<Rightarrow>
          (case adminServe hash net s w m of
             (s', w', None) \<Rightarrow> (s', w', None, False)
           | (s', w', Some out) \<Rightarrow> (s', w', Some (sendAdminMsg C key None (admStatus out) None None), True))
      | Some (ClientMessage m) \<Rightarrow>
          (case serve hash s (Some m) of
             (s', Inr (Some out)) \<Rightarrow>
               (s', w, Some (sendMsg C key (msgStatus out) (msgKey out) (msgValue out) (msgMetadata out)), True)
           | (s', _) \<Rightarrow> (s', w, None, False)))"

section \<open>Modular exponentiation\<close>

lemma modexp_loop_correct:
  assumes "0 < p" "1 \<le> x"
  shows "modexp_loop G Y x p = (G ^ nat x * Y) mod p"
  using assms
proof (induction G Y x p rule: modexp_loop.induct)
  case (1 G Y x p)
  show ?case
  proof (cases "1 < x")
    case False
    with "1.prems" show ?thesis by (subst modexp_loop.simps) simp
  next
    case gt: True
    show ?thesis
    proof (cases "x mod 2 = 0")
      case True
      let ?k = "nat (x div 2)"
      have "x = x div 2 + x div 2" using True by presburger
      then have x: "nat x = ?k + ?k" using gt by linarith
      have "modexp_loop G Y x p = ((G * G) mod p) ^ ?k * Y mod p"
        using "1.IH"(1) "1.prems" gt True by (simp add: modexp_loop.simps [of G Y x p])
      also have "\<dots> = (G * G) ^ ?k * Y mod p"
        by (metis mod_mult_left_eq power_mod)
      also have "(G * G) ^ ?k = G ^ nat x" by (simp add: x power_add power_mult_distrib)
      finally show ?thesis .
    next
      case False
      let ?k = "nat ((x - 1) div 2)"
      have "x = 1 + (x - 1) div 2 + (x - 1) div 2" using False by presburger
      then have x: "nat x = Suc (?k + ?k)" using gt by linarith
      have "modexp_loop G Y x p = ((G * G) mod p) ^ ?k * ((G * Y) mod p) mod p"
        using "1.IH"(2) "1.prems" gt False \<open>x = 1 + (x - 1) div 2 + (x - 1) div 2\<close> by (simp add: modexp_loop.simps [of G Y x p])
      also have "\<dots> = (G * G) ^ ?k * (G * Y) mod p"
        by (metis mod_mult_left_eq mod_mult_right_eq power_mod)
      also have "(G * G) ^ ?k * (G * Y) = G ^ nat x * Y"
        by (simp add: x power_add power_mult_distrib)
      finally show ?thesis .
    qed
  qed
qed

lemma fastModExp_power:
  assumes "1 < p" "0 \<le> x"
  shows "fastModExp G x p = G ^ nat x mod p"
  using assms modexp_loop_correct [of p x G 1] by (cases "x = 0") (auto simp: fastModExp_def)

section \<open>The abstract request handler\<close>

text \<open>
  Over a map from keys to values: the status and value of the reply, and the new
  map. \<open>owned\<close> says whether the key hashes into the server's range.
\<close>

definition spec_serve ::
  "bool \<Rightarrow> bool \<Rightarrow> bool \<Rightarrow> StatusType \<Rightarrow> string \<Rightarrow> string option \<Rightarrow> (string \<Rightarrow> string option) \<Rightarrow>
   StatusType \<times> string option \<times> (string \<Rightarrow> string option)" where
  "spec_serve stop lock owned request key val m =
     (if stop then (SERVER_STOPPED, None, m)
      else if request = GET then
        (if \<not> owned then (SERVER_NOT_RESPONSIBLE, None, m)
         else (if m key = None then GET_ERROR else GET_SUCCESS, m key, m))
      else if lock then (SERVER_WRITE_LOCK, None, m)
      else if key = [] \<or> 20 < utf8_size key then (PUT_ERROR, None, m)
      else if \<not> owned then (SERVER_NOT_RESPONSIBLE, None, m)
      else if is_delete val then
        (if m key = None then DELETE_ERROR else DELETE_SUCCESS, val, m(key := None))
      else (if m key = None then PUT_SUCCESS else PUT_UPDATE, val, m(key := val)))"

definition same_config :: "KVServer \<Rightarrow> KVServer \<Rightarrow> bool" where
  "same_config s s' \<longleftrightarrow>
     stopped s' = stopped s \<and> writeLock s' = writeLock s \<and> running s' = running s \<and>
     srvMetadata s' = srvMetadata s \<and> srvHost s' = srvHost s \<and> srvPort s' = srvPort s \<and>
     dataToFlush s' = dataToFlush s"

lemma utf8_size_pos: "utf8_size key = 0 \<longleftrightarrow> key = []"
  by (cases key) (auto simp: utf8_size_def)

lemma content_refreshed [simp]:
  "server_ok s \<Longrightarrow> stored (fst (getKVObject (srvStorage s))) = content s"
  by (simp add: storage_ok_def)

lemma serve_get_spec:
  assumes "server_ok s" "inRange hash s key = Inr owned"
  shows "\<exists>s' reply. serve_get hash s key = (s', Inr reply) \<and>
    spec_serve False lock owned GET key val (content s) =
      (the (msgStatus reply), msgValue reply, content s') \<and>
    msgStatus reply \<noteq> None \<and> msgKey reply = Some key \<and> server_ok s' \<and> same_config s s'"
  using assms
  by (cases owned)
    (auto simp: serve_get_def spec_serve_def getKV_result same_config_def Let_def
      intro: storage_ok_getKVObject)

lemma serve_put_spec:
  assumes ok: "server_ok s" and r: "inRange hash s key = Inr owned"
  shows "\<exists>s' reply. serve_put hash s key val = (s', Inr reply) \<and>
    spec_serve False (writeLock s) owned PUT key val (content s) =
      (the (msgStatus reply), msgValue reply, content s') \<and>
    msgStatus reply \<noteq> None \<and> msgKey reply = Some key \<and> server_ok s' \<and> same_config s s'"
proof -
  let ?s = "s\<lparr>srvStorage := fst (getKVObject (srvStorage s))\<rparr>"
  have ok1: "server_ok ?s" using ok by (simp add: storage_ok_getKVObject)
  have c1: "content ?s = content s" using ok by simp
  consider (refused) "writeLock s \<or> key = [] \<or> 20 < utf8_size key \<or> \<not> owned"
    | (miss) "\<not> (writeLock s \<or> key = [] \<or> 20 < utf8_size key \<or> \<not> owned)"
        "content s key = None" "is_delete val"
    | (stores) "\<not> (writeLock s \<or> key = [] \<or> 20 < utf8_size key \<or> \<not> owned)"
        "content s key \<noteq> None \<or> \<not> is_delete val"
    by blast
  then show ?thesis
  proof cases
    case refused
    with r ok show ?thesis
      by (auto simp: serve_put_def spec_serve_def same_config_def Let_def utf8_size_pos)
  next
    case miss
    with r ok ok1 c1 show ?thesis
      by (auto simp: serve_put_def spec_serve_def same_config_def Let_def utf8_size_pos
          inStorageKV_result fun_upd_idem)
  next
    case stores
    let ?p = "content s key \<noteq> None"
    obtain st where st:
      "putKV ?s key val ?p (is_delete val) =
         (?s\<lparr>published := published ?s @ [notification key val ?p (is_delete val)], srvStorage := st\<rparr>, Inr ())"
      "storage_ok st" "stored st = put_map key val (content ?s)"
      using ok1 by (rule putKV_ok)
    have "\<not> 122880 < utf8_size key" using stores by auto
    with stores st r c1 show ?thesis
      by (auto simp: serve_put_def spec_serve_def same_config_def Let_def utf8_size_pos
          inStorageKV_result put_map_def is_delete_def)
  qed
qed

section \<open>The request handler as the receiver of moved data\<close>

text \<open>
  A network whose far side is one server answering through \<open>serve\<close>; it takes a
  moved key when it is started, unlocked, responsible for the key and the key fits.
\<close>

definition server_network :: "(string \<Rightarrow> nat) \<Rightarrow> KVServer network" where
  "server_network hash =
     \<lparr>netConnect = (\<lambda>addr w. (w, Inr ())),
      netRequest = (\<lambda>addr m w. serve hash w (Some m))\<rparr>"

definition takes_key :: "(string \<Rightarrow> nat) \<Rightarrow> KVServer \<Rightarrow> string \<Rightarrow> bool" where
  "takes_key hash s k \<longleftrightarrow>
     server_ok s \<and> \<not> stopped s \<and> \<not> writeLock s \<and> inRange hash s k = Inr True \<and>
     k \<noteq> [] \<and> utf8_size k \<le> 20"

lemma inRange_same_config:
  "same_config s s' \<Longrightarrow> inRange hash s' k = inRange hash s k"
  by (auto simp: same_config_def inRange_def split: option.split)

interpretation peer: kv_peer "server_network hash" addr content "takes_key hash"
  for hash :: "string \<Rightarrow> nat" and addr :: "string \<times> nat"
proof
  fix s :: KVServer and k v
  assume t: "takes_key hash s k" and d: "\<not> is_delete (Some v)"
  from t obtain s' reply where s': "serve_put hash s k (Some v) = (s', Inr reply)"
      "spec_serve False (writeLock s) True PUT k (Some v) (content s) =
        (the (msgStatus reply), msgValue reply, content s')"
      "server_ok s'" "same_config s s'"
    using serve_put_spec [of s hash k True "Some v"] by (auto simp: takes_key_def)
  then have "content s' = (content s)(k \<mapsto> v)"
    using t d by (auto simp: spec_serve_def takes_key_def)
  moreover have "netRequest (server_network hash) addr (put_request k (Some v)) s = (s', Inr (Some reply))"
    using t s'(1) by (simp add: server_network_def serve_def takes_key_def)
  moreover have "takes_key hash s' k'" if "takes_key hash s k'" for k'
    using that s'(3,4) inRange_same_config [OF s'(4), of hash k'] by (simp add: takes_key_def same_config_def)
  ultimately show "\<exists>w' reply. netRequest (server_network hash) addr (put_request k (Some v)) s =
      (w', Inr (Some reply)) \<and> content w' = (content s)(k \<mapsto> v) \<and>
      (\<forall>k'. takes_key hash s k' \<longrightarrow> takes_key hash w' k')"
    by blast
qed

section \<open>Moving data between two servers\<close>

lemma server_network_connect [simp]: "netConnect (server_network hash) a d = (d, Inr ())"
  by (simp add: server_network_def)

lemma serve_put_keeps:
  assumes "server_ok d" "serve hash d (Some (put_request k v)) = (d', r)"
  shows "server_ok d' \<and> same_config d d'"
proof (cases "stopped d")
  case True
  with assms show ?thesis by (auto simp: serve_def same_config_def)
next
  case False
  then have p: "d' = fst (serve_put hash d k v)"
    using assms(2) by (simp add: serve_def) (metis fst_conv fst_map_prod id_apply)
  show ?thesis
  proof (cases "inRange hash d k")
    case (Inl e)
    then have "d' = d" using p by (auto simp: serve_put_def Let_def)
    with assms(1) show ?thesis by (simp add: same_config_def)
  next
    case (Inr owned)
    from serve_put_spec [OF assms(1) Inr, of v] p show ?thesis by fastforce
  qed
qed

lemma same_config_refl [simp]: "same_config s s"
  by (simp add: same_config_def)

lemma same_config_trans: "same_config s t \<Longrightarrow> same_config t u \<Longrightarrow> same_config s u"
  by (simp add: same_config_def)

lemma move_keys_peer:
  "move_keys hash (server_network hash) addr rng ob s d = (s', d', r) \<Longrightarrow> server_ok d \<Longrightarrow> server_ok d' \<and> same_config d d'"
proof (induction ob arbitrary: s d)
  case Nil
  then show ?case by simp
next
  case (Cons p ob)
  obtain key val where p: "p = (key, val)" by fastforce
  obtain d1 r1 where d1: "serve hash d (Some (put_request key (Some val))) = (d1, r1)" by fastforce
  have k: "server_ok d1 \<and> same_config d d1" using serve_put_keeps [OF Cons.prems(2) d1] .
  show ?case
    using Cons.prems k
    by (auto simp: p Let_def server_network_def d1 dest!: Cons.IH [unfolded server_network_def] intro: same_config_trans
        split: sum.splits option.splits if_splits)
qed

text \<open>What \<open>moveData\<close> leaves, with the configuration of both servers.\<close>

lemma moveData_effect:
  assumes "server_ok s" and "dataToFlush s = []"
    and "parse_range rng = Inr (rs, re)" and "parse_address sendTo = Inr addr"
    and "\<forall>k v. content s k = Some v \<longrightarrow> \<not> is_delete (Some v)"
    and "\<forall>k. content s k \<noteq> None \<and> range_test rs re (int (hash k)) \<longrightarrow> takes_key hash dst k"
  shows "\<exists>s' dst'. moveData hash (server_network hash) rng sendTo s dst = (s', dst', Inr ()) \<and>
    content s' = (\<lambda>k. if range_test rs re (int (hash k)) then None else content s k) \<and>
    content dst' = (\<lambda>k. if range_test rs re (int (hash k)) \<and> content s k \<noteq> None
                        then content s k else content dst k) \<and>
    server_ok s' \<and> same_config (unLockWrite s) s' \<and> (server_ok dst \<longrightarrow> server_ok dst' \<and> same_config dst dst')"
proof -
  let ?ob = "snd (getKVObject (srvStorage s))"
  let ?s = "(lockWrite s)\<lparr>srvStorage := fst (getKVObject (srvStorage s))\<rparr>"
  let ?mv = "peer.moved hash rs re ?ob"
  have J: "json_lib_ok (kvJson (srvStorage s))" using assms(1) by (simp add: storage_ok_def)
  have d: "distinct (map fst ?ob)" using J by (rule getKVObject_distinct)
  have c: "content s = map_of ?ob" by (simp add: stored_def)
  have el: "content s (fst p) = Some (snd p)" if "p \<in> set ?ob" for p
    using that d c by simp
  have "\<forall>p \<in> set ?ob. \<not> is_delete (Some (snd p))" using el assms(5) by blast
  moreover have "\<forall>p \<in> set ?mv. takes_key hash dst (fst p)"
    using el assms(6) by (fastforce simp: peer.moved_def)
  ultimately obtain dst' where mk:
      "move_keys hash (server_network hash) addr rng ?ob ?s dst =
        (?s\<lparr>dataToFlush := dataToFlush ?s @ map fst ?mv\<rparr>, dst', Inr ())"
      "content dst' = content dst ++ map_of ?mv"
    using peer.move_keys_accepted [where h = hash and w = dst and s = ?s, OF assms(3) _ _ d] by blast
  have dst: "server_ok dst \<longrightarrow> server_ok dst' \<and> same_config dst dst'" using move_keys_peer [OF mk(1)] by blast
  let ?s3 = "?s\<lparr>dataToFlush := map fst ?mv\<rparr>"
  have "server_ok ?s3" using assms(1) by (simp add: storage_ok_getKVObject)
  then obtain st where fl:
      "flushServer ?s3 = (?s3\<lparr>srvStorage := st, dataToFlush := []\<rparr>, Inr ())" "storage_ok st"
      "stored st = content ?s3 |` (- set (dataToFlush ?s3))"
    by (rule flushServer_ok)
  let ?s' = "unLockWrite (?s3\<lparr>srvStorage := st, dataToFlush := []\<rparr>)"
  have "moveData hash (server_network hash) rng sendTo s dst = (?s', dst', Inr ())"
    using mk(1) fl(1) assms(2,4)
    by (simp add: moveData_def Let_def case_prod_beta lockWrite_def)
  moreover have "content ?s' = (\<lambda>k. if range_test rs re (int (hash k)) then None else content s k)"
    using fl(3) J c
    by (auto simp: fun_eq_iff restrict_map_def unLockWrite_def peer.moved_def map_of_eq_None_iff)
  moreover have "content dst' = (\<lambda>k. if range_test rs re (int (hash k)) \<and> content s k \<noteq> None
      then content s k else content dst k)"
    using mk(2) c by (auto simp: fun_eq_iff map_add_def peer.map_of_moved split: option.splits)
  moreover have "server_ok ?s'" "same_config (unLockWrite s) ?s'"
    using fl(2) assms(2) by (simp_all add: unLockWrite_def same_config_def lockWrite_def)
  ultimately show ?thesis using dst by blast
qed

section \<open>Properties\<close>

lemma serve_refines:
  assumes "server_ok s" and "inRange hash s key = Inr owned"
    and "msgKey m = Some key" and "msgStatus m = Some request" and "request = GET \<or> request = PUT"
  shows "\<exists>s' reply. serve hash s (Some m) = (s', Inr (Some reply)) \<and>
    spec_serve (stopped s) (writeLock s) owned request key (msgValue m) (content s) =
      (the (msgStatus reply), msgValue reply, content s') \<and>
    msgStatus reply \<noteq> None \<and> msgKey reply = Some key \<and> server_ok s' \<and> same_config s s'"
proof (cases "stopped s")
  case True
  with assms show ?thesis by (auto simp: serve_def spec_serve_def same_config_def)
next
  case False
  from assms(5) show ?thesis
  proof
    assume "request = GET"
    with False assms serve_get_spec [OF assms(1,2), where val = "msgValue m" and lock = "writeLock s"] show ?thesis
      by (auto simp: serve_def)
  next
    assume "request = PUT"
    with False assms serve_put_spec [OF assms(1,2), where val = "msgValue m"] show ?thesis
      by (auto simp: serve_def)
  qed
qed

text \<open>
  C1. The request handler implements its specification. For a GET or PUT on a
  server with a sound store whose metadata covers its own address, \<open>serve\<close> returns
  the reply and leaves the contents that the abstract handler \<open>spec_serve\<close> gives:
  every branch (stopped, locked, oversized key, not responsible, found, missing,
  inserted, updated, deleted), with the server's configuration unchanged.
\<close>

theorem serve_refines_spec:
  assumes "server_ok s" and "inRange hash s key = Inr owned"
    and "msgKey m = Some key" and "msgStatus m = Some request" and "request = GET \<or> request = PUT"
  shows "\<exists>s' reply. serve hash s (Some m) = (s', Inr (Some reply)) \<and>
    spec_serve (stopped s) (writeLock s) owned request key (msgValue m) (content s) =
      (the (msgStatus reply), msgValue reply, content s') \<and>
    msgStatus reply \<noteq> None \<and> msgKey reply = Some key \<and> server_ok s' \<and> same_config s s'"
  using assms by (rule serve_refines)

text \<open>The server and the libraries of the witnesses.\<close>

definition example_storage :: KVStorage where
  "example_storage =
     \<lparr>kvFile = Some (jsonPrint example_json [(''k'', ''v'')]), kvIO = IoOk, kvJson = example_json\<rparr>"

definition example_server :: KVServer where
  "example_server =
     \<lparr>srvHost = ''a'', srvPort = 1, stopped = False, writeLock = False, running = True,
      srvMetadata = Some [(''a:1'', ''0:ff'')], dataToFlush = [],
      srvStorage = example_storage, published = []\<rparr>"

definition example_crypto :: "KVMessage crypto_lib" where
  "example_crypto =
     \<lparr>encrypt = (\<lambda>k m. m), decrypt = (\<lambda>k m. Some m), hmacSHA256 = (\<lambda>k m. k),
      serialize = (\<lambda>m. m), deserialize = Some\<rparr>"

lemma example_crypto_ok: "crypto_lib_ok example_crypto"
  by (simp add: crypto_lib_ok_def example_crypto_def)

lemma example_server_ok: "server_ok example_server"
  by (simp add: example_server_def example_storage_def storage_ok_def example_json_ok)

lemma example_server_object: "snd (getKVObject (srvStorage example_server)) = [(''k'', ''v'')]"
  by code_simp

lemma example_server_content: "content example_server = [''k'' \<mapsto> ''v'']"
  by (simp add: stored_def example_server_object)

lemma example_server_range: "inRange (\<lambda>_. 5) example_server key = Inr True"
proof -
  have "parse_range ''0:ff'' = Inr (0, 255)" "show_address ''a'' 1 = ''a:1''" by code_simp+
  then show ?thesis by (simp add: inRange_def example_server_def range_test_def)
qed

lemma example_server_takes: "k \<noteq> [] \<Longrightarrow> utf8_size k \<le> 20 \<Longrightarrow> takes_key (\<lambda>_. 5) example_server k"
  using example_server_ok example_server_range
  by (simp add: takes_key_def) (simp add: example_server_def)

lemma serve_refines_spec_witness:
  "\<exists>s' reply. serve (\<lambda>_. 5) example_server (Some (put_request ''n'' (Some ''w''))) = (s', Inr (Some reply)) \<and>
     msgStatus reply = Some PUT_SUCCESS \<and> content s' = [''k'' \<mapsto> ''v'', ''n'' \<mapsto> ''w'']"
proof -
  have f: "\<not> stopped example_server" "\<not> writeLock example_server" by (simp_all add: example_server_def)
  have "\<not> 20 < utf8_size ''n''" by code_simp
  with f serve_refines_spec [OF example_server_ok example_server_range, of "put_request ''n'' (Some ''w'')" "''n''" PUT]
  show ?thesis by (force simp: spec_serve_def is_delete_def example_server_content)
qed

text \<open>
  C38. Both ends of the key exchange derive the same key. Whatever the two secret
  exponents and the digest function, the key the client computes from the server's
  public value is the key the server computes from the client's.
\<close>

theorem dh_keys_agree:
  assumes "0 \<le> x" and "0 \<le> y"
  shows "setKey sha256 x (sendSecret y) = setKey sha256 y (sendSecret x)"
proof -
  have p: "1 < dh_prime" by (simp add: dh_prime_def)
  have "fastModExp (fastModExp dh_generator y dh_prime) x dh_prime =
      dh_generator ^ (nat y * nat x) mod dh_prime" if "0 \<le> x" "0 \<le> y" for x y
    using that p by (simp add: fastModExp_power power_mod power_mult)
  from this [OF assms] this [OF assms(2) assms(1)] show ?thesis
    by (simp add: setKey_def sendSecret_def mult.commute)
qed

lemma dh_keys_agree_witness:
  "setKey (\<lambda>b. b) 3 (sendSecret 5) = setKey (\<lambda>b. b) 5 (sendSecret 3)"
  using dh_keys_agree [of 3 5 "\<lambda>b. b"] by simp

text \<open>
  The square-and-multiply loop computes modular powers, for every base, every
  non-negative exponent and every modulus above one.
\<close>

theorem fastModExp_correct:
  assumes "1 < p" and "0 \<le> x"
  shows "fastModExp G x p = G ^ nat x mod p"
  using assms by (rule fastModExp_power)

lemma fastModExp_correct_witness: "fastModExp 7 13 100 = 7"
  using fastModExp_correct [of 100 13 7] by simp

text \<open>
  Messages survive the channel: what one side seals, the other side, with the
  same key, opens to the same message, and no HMAC mismatch is reported.
\<close>

theorem receive_sent_message:
  assumes "crypto_lib_ok C"
  shows "receiveMsg C key (sendMsg C key st k v md) =
      (False, Some (ClientMessage (kv_msg_metadata st k v md))) \<and>
    receiveMsg C key (sendAdminMsg C key srv st md rng) =
      (False, Some (AdminMessage \<lparr>admServer = srv, admStatus = st, admMetadata = md, admRange = rng\<rparr>))"
  using assms by (simp_all add: receiveMsg_def sendMsg_def sendAdminMsg_def seal_def crypto_lib_ok_def Let_def)

lemma receive_sent_message_witness:
  "receiveMsg example_crypto [1, 2] (sendMsg example_crypto [1, 2] (Some GET) (Some ''k'') None None) =
    (False, Some (ClientMessage (kv_msg (Some GET) (Some ''k'') None)))"
  using receive_sent_message [OF example_crypto_ok, of "[1, 2]" "Some GET" "Some ''k''" None None]
  by (simp add: kv_msg_def kv_msg_metadata_def)

text \<open>
  The HMAC is checked but never enforced: an envelope with any other HMAC is
  answered in exactly the same way, down to the state of the server.
\<close>

theorem hmac_not_enforced:
  "run_iteration hash C key net s w (h\<lparr>hmHmac := tag\<rparr>) = run_iteration hash C key net s w h"
  by (simp add: run_iteration_def receiveMsg_def Let_def)

text \<open>
  C9. Moving data is correct. If the receiving server takes every stored key of the
  range, \<open>moveData\<close> succeeds, the receiver ends up with exactly its old contents
  overridden by the moved entries, the sender keeps exactly the other keys, and its
  write lock is released. (\<open>dataToFlush\<close> must be empty, as it is after every
  successful move.)
\<close>

theorem moveData_transfers:
  assumes "server_ok s" and "dataToFlush s = []"
    and "parse_range rng = Inr (rs, re)" and "parse_address sendTo = Inr addr"
    and "\<forall>k v. content s k = Some v \<longrightarrow> \<not> is_delete (Some v)"
    and "\<forall>k. content s k \<noteq> None \<and> range_test rs re (int (hash k)) \<longrightarrow> takes_key hash dst k"
  shows "\<exists>s' dst'. moveData hash (server_network hash) rng sendTo s dst = (s', dst', Inr ()) \<and>
    content s' = (\<lambda>k. if range_test rs re (int (hash k)) then None else content s k) \<and>
    content dst' = (\<lambda>k. if range_test rs re (int (hash k)) \<and> content s k \<noteq> None
                        then content s k else content dst k) \<and>
    \<not> writeLock s' \<and> dataToFlush s' = []"
  using moveData_effect [OF assms] by (auto simp: same_config_def unLockWrite_def assms(2))

lemma moveData_transfers_witness:
  "\<exists>s' dst'. moveData (\<lambda>_. 5) (server_network (\<lambda>_. 5)) ''0:ff'' ''b:2'' example_server
       (example_server\<lparr>srvStorage := clearKVStorage example_storage\<rparr>) = (s', dst', Inr ()) \<and>
     content s' = Map.empty \<and> content dst' = [''k'' \<mapsto> ''v'']"
proof -
  let ?dst = "example_server\<lparr>srvStorage := clearKVStorage example_storage\<rparr>"
  have r: "parse_range ''0:ff'' = Inr (0, 255)" "parse_address ''b:2'' = Inr (''b'', 2)" by code_simp+
  have st: "storage_ok example_storage" using example_server_ok by (simp add: example_server_def)
  have u: "utf8_size ''k'' \<le> 20" by code_simp
  have e: "dataToFlush example_server = []" by (simp add: example_server_def)
  have "takes_key (\<lambda>_. 5) ?dst ''k''"
    using u clearKVStorage_ok(2) [OF st] example_server_range [of "''k''"]
    by (simp add: takes_key_def inRange_def) (simp add: example_server_def)
  then have f1: "\<forall>k. content example_server k \<noteq> None \<and> range_test 0 255 (int 5) \<longrightarrow> takes_key (\<lambda>_. 5) ?dst k"
    by (auto simp: example_server_content split: if_splits)
  have f2: "\<forall>k v. content example_server k = Some v \<longrightarrow> \<not> is_delete (Some v)"
    by (simp add: example_server_content is_delete_def)
  have c: "content ?dst = Map.empty" using clearKVStorage_ok(1) [OF st] by simp
  obtain s' dst' where m:
      "moveData (\<lambda>_. 5) (server_network (\<lambda>_. 5)) ''0:ff'' ''b:2'' example_server ?dst = (s', dst', Inr ())"
      "content s' = (\<lambda>k. if range_test 0 255 (int 5) then None else content example_server k)"
      "content dst' = (\<lambda>k. if range_test 0 255 (int 5) \<and> content example_server k \<noteq> None
                          then content example_server k else content ?dst k)"
    using moveData_transfers [where hash = "\<lambda>_. 5" and dst = ?dst, OF example_server_ok e r f2 f1] by blast
  have "content s' = Map.empty" using m(2) by (simp add: range_test_def)
  moreover have "content dst' = [''k'' \<mapsto> ''v'']"
    using m(3) unfolding c by (auto simp: range_test_def example_server_content fun_eq_iff)
  ultimately show ?thesis using m(1) by blast
qed

text \<open>
  C40. A failed move leaves the server locked: whenever \<open>moveData\<close> ends with an
  exception, the write lock it took at the start is still set, and every further
  PUT is refused until the configuration service unlocks the server.
\<close>

theorem moveData_failure_keeps_lock:
  assumes "moveData hash net rng sendTo s w = (s', w', Inl e)"
  shows "writeLock s' \<and> (\<forall>key val. serve_put hash s' key val =
    (s', Inr (kv_msg (Some SERVER_WRITE_LOCK) (Some key) None)))"
proof -
  have "writeLock s'"
    using assms
    by (auto simp: moveData_def lockWrite_def Let_def unLockWrite_def
        split: prod.splits sum.splits dest!: move_keys_flags flushServer_flags)
  then show ?thesis by (simp add: serve_put_def Let_def)
qed

lemma moveData_failure_keeps_lock_witness:
  "writeLock (fst (moveData (\<lambda>_. 5) (server_network (\<lambda>_. 5)) ''0:ff'' ''b'' example_server example_server))"
proof -
  let ?m = "moveData (\<lambda>_. 5) (server_network (\<lambda>_. 5)) ''0:ff'' ''b'' example_server example_server"
  have "parse_address ''b'' = Inl ArrayIndexOutOfBoundsException" by code_simp
  then have "?m = (fst ?m, fst (snd ?m), Inl ArrayIndexOutOfBoundsException)"
    by (simp add: moveData_def Let_def case_prod_beta)
  from moveData_failure_keeps_lock [OF this] show ?thesis by blast
qed

text \<open>
  A refused transfer loses data: when the receiving server is stopped, it stores
  nothing, yet \<open>moveData\<close> reports success and deletes every key of the range from
  the sender.
\<close>

theorem moveData_to_stopped_server_loses_keys:
  assumes "server_ok s" and "parse_range rng = Inr (rs, re)"
    and "parse_address sendTo = Inr addr" and "stopped dst"
  shows "\<exists>s'. moveData hash (server_network hash) rng sendTo s dst = (s', dst, Inr ()) \<and>
    (\<forall>k. range_test rs re (int (hash k)) \<longrightarrow> content s' k = None)"
proof -
  let ?ob = "snd (getKVObject (srvStorage s))"
  let ?s = "(lockWrite s)\<lparr>srvStorage := fst (getKVObject (srvStorage s))\<rparr>"
  let ?ks = "map fst (peer.moved hash rs re ?ob)"
  have mk: "move_keys hash (server_network hash) addr rng ob t dst =
      (t\<lparr>dataToFlush := dataToFlush t @ map fst (peer.moved hash rs re ob)\<rparr>, dst, Inr ())" for ob t
    using assms(2,4)
    by (induction ob arbitrary: t)
      (auto simp: peer.moved_def server_network_def serve_def Let_def)
  let ?s3 = "?s\<lparr>dataToFlush := dataToFlush s @ ?ks\<rparr>"
  have ok: "server_ok ?s3" using assms(1) by (simp add: storage_ok_getKVObject)
  then obtain st where fl:
      "flushServer ?s3 = (?s3\<lparr>srvStorage := st, dataToFlush := []\<rparr>, Inr ())"
      "stored st = content ?s3 |` (- set (dataToFlush ?s3))"
    by (rule flushServer_ok)
  let ?s' = "unLockWrite (?s3\<lparr>srvStorage := st, dataToFlush := []\<rparr>)"
  have "moveData hash (server_network hash) rng sendTo s dst = (?s', dst, Inr ())"
    using mk [of ?ob ?s] fl(1) assms(3)
    by (simp add: moveData_def Let_def case_prod_beta server_network_def lockWrite_def)
  moreover have "content ?s' k = None" if "range_test rs re (int (hash k))" for k
  proof (cases "k \<in> set ?ks")
    case True
    with fl(2) show ?thesis by (simp add: unLockWrite_def)
  next
    case False
    with that have "content s k = None"
      by (auto simp: stored_def peer.moved_def map_of_eq_None_iff)
    with fl(2) assms(1) show ?thesis by (simp add: unLockWrite_def restrict_map_def)
  qed
  ultimately show ?thesis by blast
qed

lemma moveData_to_stopped_server_loses_keys_witness:
  "\<exists>s'. moveData (\<lambda>_. 5) (server_network (\<lambda>_. 5)) ''0:ff'' ''b:2'' example_server (setStop example_server)
       = (s', setStop example_server, Inr ()) \<and> content s' ''k'' = None \<and> content example_server ''k'' \<noteq> None"
proof -
  have r: "parse_range ''0:ff'' = Inr (0, 255)" "parse_address ''b:2'' = Inr (''b'', 2)" by code_simp+
  have "stopped (setStop example_server)" by (simp add: setStop_def)
  from moveData_to_stopped_server_loses_keys [where hash = "\<lambda>_. 5", OF example_server_ok r this]
  show ?thesis by (auto simp: range_test_def example_server_content)
qed

end
