(* ===== verification/KVClient.thy ===== *)
theory KVClient
  imports CommModule
begin

text \<open>
  The client of the storage service: \<open>KVStore\<close> (\<open>src/src/client/KVStore.java\<close>), which keeps
  the metadata it was last told, connects to the server responsible for a key and repeats
  a request as long as servers answer that they are not responsible, and the commands of
  \<open>KVClient\<close> (\<open>src/src/app_kvClient/KVClient.java\<close>).

  The servers are a \<open>network\<close> over a state \<open>'w\<close>, as for the transfer of data between
  servers. What a command prints is what it returns, so the console is left out; the
  thread of a subscriber is its flag \<open>running\<close>.
\<close>

section \<open>The connection to the servers\<close>

text \<open>The communication module: none yet, one to a server, or one that was closed.\<close>

datatype client_comm = NoComm | OpenComm "string \<times> nat" | ClosedComm

record KVStore =
  ksAddress :: string
  ksPort :: int
  clientSocket :: bool
  clientComm :: client_comm
  ksMetadata :: "metadata option"

definition show_int :: "int \<Rightarrow> string" where
  "show_int n = (if n < 0 then CHR ''-'' # show_base 10 (nat (- n)) else show_base 10 (nat n))"

definition whole_range :: string where
  "whole_range = replicate 32 CHR ''0'' @ CHR '':'' # replicate 32 CHR ''f''"

definition new_KVStore :: "string \<Rightarrow> int \<Rightarrow> KVStore" where
  "new_KVStore address port =
     \<lparr>ksAddress = address, ksPort = port, clientSocket = False, clientComm = NoComm,
      ksMetadata = Some [(address @ CHR '':'' # show_int port, whole_range)]\<rparr>"

definition connect :: "'w network \<Rightarrow> KVStore \<Rightarrow> 'w \<Rightarrow> KVStore \<times> 'w \<times> (java_error + unit)" where
  "connect net k w =
     (if ksPort k < 0 \<or> 65535 < ksPort k then (k, w, Inl IllegalArgumentException)
      else let addr = (ksAddress k, nat (ksPort k))
           in case netConnect net addr w of
                (w', Inl e) \<Rightarrow> (k, w', Inl e)
              | (w', Inr _) \<Rightarrow> (k\<lparr>clientSocket := True, clientComm := OpenComm addr\<rparr>, w', Inr ()))"

definition disconnect :: "KVStore \<Rightarrow> KVStore" where
  "disconnect k = (if clientSocket k then k\<lparr>clientSocket := False, clientComm := ClosedComm\<rparr> else k)"

text \<open>
  A failure to connect to the responsible server is only printed; the closed connection to
  the previous one stays in place.
\<close>

definition connectCorrServer ::
  "(string \<Rightarrow> nat) \<Rightarrow> 'w network \<Rightarrow> string \<Rightarrow> KVStore \<Rightarrow> 'w \<Rightarrow> KVStore \<times> 'w \<times> (java_error + unit)" where
  "connectCorrServer hash net key k w =
     (case ksMetadata k of
        None \<Rightarrow> (k, w, Inl NullPointerException)
      | Some md \<Rightarrow>
          (case find_in_range (int (hash key)) md of
             Inl e \<Rightarrow> (k, w, Inl e)
           | Inr None \<Rightarrow> (k, w, Inr ())
           | Inr (Some (addr_port, rng)) \<Rightarrow>
               (case parse_address addr_port of
                  Inl e \<Rightarrow> (k, w, Inl e)
                | Inr (address, port) \<Rightarrow>
                    if address \<noteq> ksAddress k \<or> int port \<noteq> ksPort k then
                      (case connect net ((disconnect k)\<lparr>ksAddress := address, ksPort := int port\<rparr>) w of
                         (k', w', r) \<Rightarrow> (k', w', Inr ()))
                    else (k, w, Inr ()))))"

text \<open>Sending a request and reading the reply; an unreadable reply is null.\<close>

definition exchange :: "'w network \<Rightarrow> KVMsg \<Rightarrow> KVStore \<Rightarrow> 'w \<Rightarrow> 'w \<times> (java_error + KVMsg option)" where
  "exchange net m k w =
     (case clientComm k of
        NoComm \<Rightarrow> (w, Inl NullPointerException)
      | ClosedComm \<Rightarrow> (w, Inl IOException)
      | OpenComm addr \<Rightarrow> netRequest net addr m w)"

partial_function (option) request ::
  "(string \<Rightarrow> nat) \<Rightarrow> 'w network \<Rightarrow> string \<Rightarrow> KVMsg \<Rightarrow> KVStore \<Rightarrow> 'w \<Rightarrow> (KVStore \<times> 'w \<times> (java_error + KVMsg)) option" where
  "request hash net key m k w =
     (case connectCorrServer hash net key k w of
        (k1, w1, Inl e) \<Rightarrow> Some (k1, w1, Inl e)
      | (k1, w1, Inr _) \<Rightarrow>
          (case exchange net m k1 w1 of
             (w2, Inl e) \<Rightarrow> Some (k1, w2, Inl e)
           | (w2, Inr None) \<Rightarrow> Some (k1, w2, Inl NullPointerException)
           | (w2, Inr (Some reply)) \<Rightarrow>
               if msgStatus reply = Some SERVER_NOT_RESPONSIBLE
               then request hash net key m (k1\<lparr>ksMetadata := msgMetadata reply\<rparr>) w2
               else Some (k1, w2, Inr reply)))"

definition store_put ::
  "(string \<Rightarrow> nat) \<Rightarrow> 'w network \<Rightarrow> string \<Rightarrow> string option \<Rightarrow> KVStore \<Rightarrow> 'w \<Rightarrow> (KVStore \<times> 'w \<times> (java_error + KVMsg)) option" where
  "store_put hash net key val = request hash net key (kv_msg (Some PUT) (Some key) val)"

definition store_get ::
  "(string \<Rightarrow> nat) \<Rightarrow> 'w network \<Rightarrow> string \<Rightarrow> KVStore \<Rightarrow> 'w \<Rightarrow> (KVStore \<times> 'w \<times> (java_error + KVMsg)) option" where
  "store_get hash net key = request hash net key (kv_msg (Some GET) (Some key) (Some []))"

section \<open>Commands\<close>

text \<open>
  \<open>split("\s+")\<close>: a line of white space alone has no tokens at all.
\<close>

definition java_space :: "char \<Rightarrow> bool" where
  "java_space c \<longleftrightarrow> (of_char c :: nat) \<in> {9, 10, 11, 12, 13, 32}"

function split_spaces :: "string \<Rightarrow> string list" where
  "split_spaces s =
     (let r = dropWhile (\<lambda>c. \<not> java_space c) s
      in takeWhile (\<lambda>c. \<not> java_space c) s #
         (if r = [] then [] else split_spaces (dropWhile java_space r)))"
  by pat_completeness auto
termination
proof (relation "measure length")
  fix s :: string and r
  assume r: "r = dropWhile (\<lambda>c. \<not> java_space c) s" "r \<noteq> []"
  then have "java_space (hd r)" using hd_dropWhile [of "\<lambda>c. \<not> java_space c" s] by auto
  with r(2) obtain a cs where "r = a # cs" "java_space a" by (cases r) auto
  then have "length (dropWhile java_space r) < length r"
    by (simp add: less_Suc_eq_le length_dropWhile_le)
  also have "\<dots> \<le> length s" by (simp add: r(1) length_dropWhile_le)
  finally show "(dropWhile java_space r, s) \<in> measure length" by simp
qed simp

declare split_spaces.simps [simp del]

definition tokens_of :: "string \<Rightarrow> string list" where
  "tokens_of s =
     (if \<exists>c \<in> set s. java_space c then rev (dropWhile (\<lambda>t. t = []) (rev (split_spaces s))) else [s])"

text \<open>\<open>Integer.parseInt\<close>\<close>

definition parse_int :: "string \<Rightarrow> int option" where
  "parse_int s =
     (let neg = (take 1 s = ''-''); ds = (if take 1 s = ''-'' \<or> take 1 s = ''+'' then drop 1 s else s)
      in case parse_base 10 ds of
           None \<Rightarrow> None
         | Some n \<Rightarrow>
             let i = (if neg then - int n else int n)
             in if - (2 ^ 31) \<le> i \<and> i < 2 ^ 31 then Some i else None)"

record KVClient =
  kvStore :: "KVStore option"
  running :: bool
  stop :: bool
  subbed :: bool
  subscribers :: "bool list"
  logLevel :: string

definition new_KVClient :: KVClient where
  "new_KVClient = \<lparr>kvStore = None, running = False, stop = False, subbed = False, subscribers = [], logLevel = ''ALL''\<rparr>"

type_synonym 'w command_result = "KVClient \<times> 'w \<times> (java_error + string option)"

definition do_connect :: "'w network \<Rightarrow> string list \<Rightarrow> KVClient \<Rightarrow> 'w \<Rightarrow> 'w command_result" where
  "do_connect net tokens c w =
     (if length tokens = 3 then
        (case parse_int (tokens ! 2) of
           None \<Rightarrow> (c, w, Inr (Some ''No valid address. Port must be a number!''))
         | Some port \<Rightarrow>
             (case connect net (new_KVStore (tokens ! 1) port) w of
                (k, w', r) \<Rightarrow>
                  (c\<lparr>kvStore := Some k, running := True\<rparr>, w',
                   case r of
                     Inr _ \<Rightarrow> Inr (Some (''Connected to server '' @ tokens ! 1 @ '' at port '' @ tokens ! 2))
                   | Inl UnknownHostException \<Rightarrow> Inr (Some ''Unknown Host!'')
                   | Inl IOException \<Rightarrow> Inr (Some ''Could not establish connection!'')
                   | Inl e \<Rightarrow> Inl e)))
      else (c, w, Inr (Some ''Invalid number of parameters!'')))"

text \<open>A store call from a command; the status and value of its reply decide the text.\<close>

definition with_store ::
  "(KVStore \<Rightarrow> 'w \<Rightarrow> (KVStore \<times> 'w \<times> (java_error + KVMsg)) option) \<Rightarrow> (KVMsg \<Rightarrow> string) \<Rightarrow> KVClient \<Rightarrow> 'w \<Rightarrow> 'w command_result option" where
  "with_store f text c w =
     (case kvStore c of
        None \<Rightarrow> Some (c, w, Inl NullPointerException)
      | Some k \<Rightarrow>
          (case f k w of
             None \<Rightarrow> None
           | Some (k', w', r) \<Rightarrow> Some (c\<lparr>kvStore := Some k'\<rparr>, w', map_sum id (\<lambda>m. Some (text m)) r)))"

definition put_text :: "KVMsg \<Rightarrow> string" where
  "put_text m =
     (case msgStatus m of
        Some PUT_ERROR \<Rightarrow> ''PUT ERROR'' | Some PUT_UPDATE \<Rightarrow> ''PUT UPDATE''
      | Some SERVER_STOPPED \<Rightarrow> ''SERVER_STOPPED'' | Some SERVER_WRITE_LOCK \<Rightarrow> ''SERVER_WRITE_LOCK''
      | _ \<Rightarrow> ''PUT SUCCESS'')"

definition delete_text :: "KVMsg \<Rightarrow> string" where
  "delete_text m =
     (case msgStatus m of
        Some DELETE_ERROR \<Rightarrow> ''DELETE ERROR'' | Some SERVER_STOPPED \<Rightarrow> ''SERVER_STOPPED''
      | Some SERVER_WRITE_LOCK \<Rightarrow> ''SERVER_WRITE_LOCK'' | _ \<Rightarrow> ''DELETE SUCCESS'')"

definition get_text :: "KVMsg \<Rightarrow> string" where
  "get_text m =
     (if msgStatus m = Some SERVER_STOPPED then ''SERVER_STOPPED''
      else case msgValue m of None \<Rightarrow> ''GET ERROR - no corresponding value'' | Some v \<Rightarrow> v)"

definition do_put ::
  "(string \<Rightarrow> nat) \<Rightarrow> 'w network \<Rightarrow> string list \<Rightarrow> KVClient \<Rightarrow> 'w \<Rightarrow> 'w command_result option" where
  "do_put hash net tokens c w =
     (if \<not> running c then Some (c, w, Inr (Some ''ERROR: Not connected to server''))
      else if length tokens \<ge> 3 \<and> \<not> (length tokens = 3 \<and> tokens ! 2 = ''null'') then
        (let inputV = foldl (\<lambda>v t. v @ '' '' @ t) (tokens ! 2) (drop 3 tokens)
         in with_store (store_put hash net (tokens ! 1) (Some inputV)) put_text c w)
      else if length tokens = 2 \<or> length tokens = 3 \<and> tokens ! 2 = ''null'' then
        with_store (store_put hash net (tokens ! 1) None) delete_text c w
      else Some (c, w, Inr (Some ''Invalid number of parameters!'')))"

definition do_get ::
  "(string \<Rightarrow> nat) \<Rightarrow> 'w network \<Rightarrow> string list \<Rightarrow> KVClient \<Rightarrow> 'w \<Rightarrow> 'w command_result option" where
  "do_get hash net tokens c w =
     (if \<not> running c then Some (c, w, Inr (Some ''ERROR: Not connected to server''))
      else if length tokens = 2 then with_store (store_get hash net (tokens ! 1)) get_text c w
      else Some (c, w, Inr (Some ''Invalid number of parameters!'')))"

definition setLevel :: "string \<Rightarrow> KVClient \<Rightarrow> KVClient \<times> string" where
  "setLevel level c =
     (if level \<in> set [''ALL'', ''DEBUG'', ''INFO'', ''WARN'', ''ERROR'', ''FATAL'', ''OFF'']
      then (c\<lparr>logLevel := level\<rparr>, level) else (c, ''UnknownLevel''))"

definition handleCommand ::
  "(string \<Rightarrow> nat) \<Rightarrow> 'w network \<Rightarrow> string \<Rightarrow> KVClient \<Rightarrow> 'w \<Rightarrow> 'w command_result option" where
  "handleCommand hash net cmdLine c w =
     (let tokens = tokens_of cmdLine; answer = (\<lambda>c t. Some (c, w, Inr (Some t)))
      in case tokens of
           [] \<Rightarrow> Some (c, w, Inl ArrayIndexOutOfBoundsException)
         | cmd # _ \<Rightarrow>
             if cmd = ''quit'' then
               (if running c then
                  (case kvStore c of
                     None \<Rightarrow> Some (c\<lparr>stop := True\<rparr>, w, Inl NullPointerException)
                   | Some k \<Rightarrow> answer (c\<lparr>stop := True, kvStore := Some (disconnect k)\<rparr>) ''Application exit'')
                else answer (c\<lparr>stop := True\<rparr>) ''Application exit'')
             else if cmd = ''connect'' then Some (do_connect net tokens c w)
             else if cmd = ''disconnect'' then
               (if \<not> running c then answer c ''ERROR: Not connected to server''
                else case kvStore c of
                  None \<Rightarrow> Some (c, w, Inl NullPointerException)
                | Some k \<Rightarrow> answer (c\<lparr>kvStore := Some (disconnect k), running := False\<rparr>) ''Disconnected from server'')
             else if cmd = ''subscribe'' then
               (if subbed c then answer c ''already subscribed''
                else answer (c\<lparr>subbed := True, subscribers := subscribers c @ [True]\<rparr>) ''subscribed'')
             else if cmd = ''unsubscribe'' then
               (if subbed c then
                  answer (c\<lparr>subbed := False, subscribers := butlast (subscribers c) @ [False]\<rparr>) ''unsubscribed''
                else answer c ''not subscribed'')
             else if cmd = ''put'' then do_put hash net tokens c w
             else if cmd = ''get'' then do_get hash net tokens c w
             else if cmd = ''logLevel'' then
               (if length tokens = 2 then
                  (case setLevel (tokens ! 1) c of
                     (c', level) \<Rightarrow>
                       if level = ''UnknownLevel'' then answer c' ''No valid log level!''
                       else answer c' (''KVClient> Log level changed to level '' @ level))
                else answer c ''Invalid number of parameters!'')
             else if cmd = ''help'' then Some (c, w, Inr None)
             else answer c ''Unknown command'')"

text \<open>
  The loop of \<open>run\<close> on the lines the user enters: only an \<open>IOException\<close> is handled, any
  other ends the program, as does the end of the input. The last component is what ended it.
\<close>

fun run_lines ::
  "(string \<Rightarrow> nat) \<Rightarrow> 'w network \<Rightarrow> string list \<Rightarrow> KVClient \<Rightarrow> 'w \<Rightarrow> (KVClient \<times> 'w \<times> java_error option) option" where
  "run_lines hash net [] c w =
     Some (c, w, if stop c then None else Some NullPointerException)"
| "run_lines hash net (l # ls) c w =
     (if stop c then Some (c, w, None)
      else case handleCommand hash net l c w of
        None \<Rightarrow> None
      | Some (c', w', Inr _) \<Rightarrow> run_lines hash net ls c' w'
      | Some (c', w', Inl IOException) \<Rightarrow> run_lines hash net ls (c'\<lparr>running := False\<rparr>) w'
      | Some (c', w', Inl UnknownHostException) \<Rightarrow> run_lines hash net ls (c'\<lparr>running := False\<rparr>) w'
      | Some (c', w', Inl e) \<Rightarrow> Some (c', w', Some e))"

section \<open>A cluster of servers\<close>

type_synonym cluster = "string \<times> nat \<Rightarrow> KVServer option"

text \<open>Every server answers a request with \<open>serve\<close>; when that throws the connection is closed and the client reads null.\<close>

definition cluster_network :: "(string \<Rightarrow> nat) \<Rightarrow> cluster network" where
  "cluster_network hash =
     \<lparr>netConnect = (\<lambda>a w. (w, if w a = None then Inl IOException else Inr ())),
      netRequest = (\<lambda>a m w.
        case w a of
          None \<Rightarrow> (w, Inl IOException)
        | Some s \<Rightarrow>
            (case serve hash s (Some m) of
               (s', Inr r) \<Rightarrow> (w(a \<mapsto> s'), Inr r)
             | (s', Inl e) \<Rightarrow> (w(a \<mapsto> s'), Inr None)))\<rparr>"

abbreviation node_at :: "ECSNode \<Rightarrow> string \<times> nat" where
  "node_at n \<equiv> (nodeHost n, nodePort n)"

definition ring_metadata :: "(string \<Rightarrow> nat) \<Rightarrow> ECSNode list \<Rightarrow> metadata \<Rightarrow> bool" where
  "ring_metadata hash nodes m \<longleftrightarrow> mset m = mset (calc_metadata hash nodes)"

text \<open>A server of the ring in normal operation, with the metadata of the ring.\<close>

definition serving :: "(string \<Rightarrow> nat) \<Rightarrow> ECSNode list \<Rightarrow> ECSNode \<Rightarrow> KVServer \<Rightarrow> bool" where
  "serving hash nodes n s \<longleftrightarrow>
     server_ok s \<and> \<not> stopped s \<and> \<not> writeLock s \<and> srvHost s = nodeHost n \<and> srvPort s = nodePort n \<and>
     (\<exists>m. srvMetadata s = Some m \<and> ring_metadata hash nodes m)"

definition cluster_ok :: "(string \<Rightarrow> nat) \<Rightarrow> ECSNode list \<Rightarrow> cluster \<Rightarrow> bool" where
  "cluster_ok hash nodes w \<longleftrightarrow>
     ring_ok hash nodes \<and> (\<forall>n \<in> set nodes. CHR '':'' \<notin> set (nodeHost n) \<and> nodePort n \<le> 65535 \<and>
       (\<exists>s. w (node_at n) = Some s \<and> serving hash nodes n s))"

definition owns :: "(string \<Rightarrow> nat) \<Rightarrow> ECSNode list \<Rightarrow> ECSNode \<Rightarrow> string \<Rightarrow> bool" where
  "owns hash nodes n key \<longleftrightarrow>
     computeHash hash (node_address n) = ring_owner (ring_hashes hash nodes) (int (hash key))"

text \<open>The keys a server accepts and the ring gives to one server only.\<close>

definition good_key :: "(string \<Rightarrow> nat) \<Rightarrow> ECSNode list \<Rightarrow> string \<Rightarrow> bool" where
  "good_key hash nodes key \<longleftrightarrow>
     key \<noteq> [] \<and> utf8_size key \<le> 20 \<and> \<not> shared_hash (ring_hashes hash nodes) (int (hash key))"

text \<open>A server knows which keys are its own.\<close>

lemma inRange_owns:
  assumes "ring_ok hash nodes" "n \<in> set nodes" "serving hash nodes n s" "good_key hash nodes key"
  shows "inRange hash s key = Inr (owns hash nodes n key)"
proof -
  let ?hs = "ring_hashes hash nodes"
  obtain m where m: "srvMetadata s = Some m" "mset m = mset (calc_metadata hash nodes)"
    using assms(3) by (auto simp: serving_def ring_metadata_def)
  obtain i where i: "i < length nodes" "?hs ! i = computeHash hash (node_address n)"
    using assms(2) by (rule ring_index_of)
  have set: "set m = set (calc_metadata hash nodes)" using m(2) by (rule mset_eq_setD)
  have "mset (map fst m) = mset (map fst (calc_metadata hash nodes))" using m(2) by simp
  then have "distinct (map fst m)" using distinct_calc_metadata mset_eq_imp_distinct_iff by blast
  moreover have "(node_address n, server_range ?hs i) \<in> set m"
    using set set_calc_metadata [OF assms(1)] i assms(2) by blast
  ultimately have "map_of m (show_address (srvHost s) (srvPort s)) = Some (server_range ?hs i)"
    using assms(3) by (simp add: serving_def)
  then have "inRange hash s key = Inr (range_has (server_range ?hs i) (int (hash key)))"
    using m(1) parse_server_range [OF assms(1) i(1)] by (simp add: inRange_def range_has_def)
  moreover have "\<not> (0 < i \<and> (int (hash key) = ?hs ! (i - 1) \<or> int (hash key) = ?hs ! (i - 1) - 1))"
    using assms(4) i(1) by (auto simp: good_key_def intro: shared_hashI)
  then have "range_has (server_range ?hs i) (int (hash key)) = owns hash nodes n key"
    unfolding range_has_server_range [OF assms(1) i(1)] owns_def using i(2) by auto
  ultimately show ?thesis by simp
qed

text \<open>The answers of the owner and of any other server to a request with a good key.\<close>

lemma owner_serves:
  assumes "cluster_ok hash nodes w" "n \<in> set nodes" "owns hash nodes n key" "good_key hash nodes key"
    and "r = GET \<or> r = PUT"
  shows "\<exists>w' reply. netRequest (cluster_network hash) (node_at n) (kv_msg (Some r) (Some key) val) w = (w', Inr (Some reply)) \<and>
    spec_serve False False True r key val (content (the (w (node_at n)))) =
      (the (msgStatus reply), msgValue reply, content (the (w' (node_at n)))) \<and> msgStatus reply \<noteq> None \<and>
    (\<forall>a. a \<noteq> node_at n \<longrightarrow> w' a = w a) \<and> (\<forall>a. map_option dataToFlush (w' a) = map_option dataToFlush (w a)) \<and> cluster_ok hash nodes w'"
proof -
  obtain s where s: "w (node_at n) = Some s" "serving hash nodes n s" and ring: "ring_ok hash nodes"
    using assms(1,2) by (auto simp: cluster_ok_def)
  have "server_ok s" using s(2) by (simp add: serving_def)
  note r = inRange_owns [OF ring assms(2) s(2) assms(4)]
  from serve_refines [OF \<open>server_ok s\<close> r, of "kv_msg (Some r) (Some key) val" r] assms(3,5) s(2)
  obtain s' reply where s': "serve hash s (Some (kv_msg (Some r) (Some key) val)) = (s', Inr (Some reply))"
    "spec_serve False False True r key val (content s) = (the (msgStatus reply), msgValue reply, content s')"
    "msgStatus reply \<noteq> None" "server_ok s'" "same_config s s'"
    by (auto simp: serving_def)
  have "serving hash nodes n s'" using s(2) s'(4,5) by (auto simp: serving_def same_config_def)
  then have "cluster_ok hash nodes (w(node_at n \<mapsto> s'))"
    using assms(1) s(2) unfolding cluster_ok_def
    by (auto simp: serving_def)
  with s s' show ?thesis by (auto simp: cluster_network_def same_config_def)
qed

lemma other_refuses:
  assumes "cluster_ok hash nodes w" "n \<in> set nodes" "\<not> owns hash nodes n key" "good_key hash nodes key"
    and "r = GET \<or> r = PUT"
  shows "\<exists>m. netRequest (cluster_network hash) (node_at n) (kv_msg (Some r) (Some key) val) w =
    (w, Inr (Some (kv_msg_metadata (Some SERVER_NOT_RESPONSIBLE) (Some key) None (Some m)))) \<and> ring_metadata hash nodes m"
proof -
  obtain s where s: "w (node_at n) = Some s" "serving hash nodes n s" and ring: "ring_ok hash nodes"
    using assms(1,2) by (auto simp: cluster_ok_def)
  note r = inRange_owns [OF ring assms(2) s(2) assms(4)]
  have "utf8_size key \<noteq> 0" using assms(4) by (simp add: good_key_def utf8_size_pos)
  with s(2) r assms(3-5) have "\<exists>m. serve hash s (Some (kv_msg (Some r) (Some key) val)) =
    (s, Inr (Some (kv_msg_metadata (Some SERVER_NOT_RESPONSIBLE) (Some key) None (Some m)))) \<and> ring_metadata hash nodes m"
    by (auto simp: serving_def serve_def serve_get_def serve_put_def Let_def good_key_def)
  with s(1) show ?thesis by (auto simp: cluster_network_def fun_upd_idem)
qed

section \<open>The client in the cluster\<close>

text \<open>Connected to a server, with the metadata of the ring or still those it started with.\<close>

definition connected :: "ECSNode \<Rightarrow> KVStore \<Rightarrow> bool" where
  "connected n k \<longleftrightarrow> ksAddress k = nodeHost n \<and> ksPort k = int (nodePort n) \<and> clientSocket k \<and> clientComm k = OpenComm (node_at n)"

definition client_ok :: "(string \<Rightarrow> nat) \<Rightarrow> ECSNode list \<Rightarrow> KVStore \<Rightarrow> bool" where
  "client_ok hash nodes k \<longleftrightarrow>
     (\<exists>n \<in> set nodes. connected n k \<and>
       (ksMetadata k = Some [(node_address n, whole_range)] \<or> (\<exists>m. ksMetadata k = Some m \<and> ring_metadata hash nodes m)))"

lemma connect_node:
  assumes "w (node_at n) \<noteq> None" "nodePort n \<le> 65535" "ksAddress k = nodeHost n" "ksPort k = int (nodePort n)"
  shows "connect (cluster_network hash) k w = (k\<lparr>clientSocket := True, clientComm := OpenComm (node_at n)\<rparr>, w, Inr ())"
  using assms by (auto simp: connect_def cluster_network_def Let_def)

lemma new_client_ok:
  assumes "cluster_ok hash nodes w" "n \<in> set nodes"
  shows "\<exists>k. connect (cluster_network hash) (new_KVStore (nodeHost n) (int (nodePort n))) w = (k, w, Inr ()) \<and> client_ok hash nodes k"
proof -
  let ?k = "(new_KVStore (nodeHost n) (int (nodePort n)))\<lparr>clientSocket := True, clientComm := OpenComm (node_at n)\<rparr>"
  have "w (node_at n) \<noteq> None" "nodePort n \<le> 65535" using assms by (auto simp: cluster_ok_def)
  then have "connect (cluster_network hash) (new_KVStore (nodeHost n) (int (nodePort n))) w = (?k, w, Inr ())"
    by (intro connect_node) (simp_all add: new_KVStore_def)
  moreover have "client_ok hash nodes ?k"
    using assms(2) by (auto simp: client_ok_def connected_def new_KVStore_def show_address_def show_int_def)
  ultimately show ?thesis by blast
qed

lemma parse_digits_total: "\<forall>c \<in> set s. digit_val b c \<noteq> None \<Longrightarrow> \<exists>n. parse_digits b a s = Some n"
  by (induction s arbitrary: a) auto

lemma parse_whole_range: "\<exists>rs re. parse_range whole_range = Inr (rs, re)"
proof -
  have "\<exists>n. parse_digits 16 0 (CHR ''0'' # replicate 32 CHR ''0'') = Some n"
    "\<exists>n. parse_digits 16 0 (CHR ''0'' # replicate 32 CHR ''f'') = Some n"
    by (rule parse_digits_total; simp add: digit_val_def)+
  then obtain a b where "parse_base 16 (CHR ''0'' # replicate 32 CHR ''0'') = Some a"
    "parse_base 16 (CHR ''0'' # replicate 32 CHR ''f'') = Some b" by (auto simp: parse_base_def)
  moreover have "java_split CHR '':'' whole_range = [replicate 32 CHR ''0'', replicate 32 CHR ''f'']"
    unfolding whole_range_def by (rule java_split_pair) auto
  ultimately show ?thesis by (simp add: parse_range_def)
qed

lemma stays_connected:
  assumes "connected n k" "ksMetadata k = Some [(node_address n, whole_range)]" "CHR '':'' \<notin> set (nodeHost n)"
  shows "connectCorrServer hash net key k w = (k, w, Inr ())"
proof -
  obtain rs re where "parse_range whole_range = Inr (rs, re)" using parse_whole_range by blast
  then show ?thesis using assms parse_show_address [OF assms(3), of "nodePort n"]
    by (simp add: connectCorrServer_def connected_def)
qed

lemma routed_to_owner:
  assumes "cluster_ok hash nodes w" "n0 \<in> set nodes" "connected n0 k" "ksMetadata k = Some m" "ring_metadata hash nodes m"
    and "good_key hash nodes key"
  shows "\<exists>n k'. n \<in> set nodes \<and> owns hash nodes n key \<and> connected n k' \<and> ksMetadata k' = Some m \<and>
    connectCorrServer hash (cluster_network hash) key k w = (k', w, Inr ())"
proof -
  have ring: "ring_ok hash nodes" "nodes \<noteq> []" using assms(1,2) by (auto simp: cluster_ok_def)
  from lookup_owner [OF ring, of m "int (hash key)"] assms(5,6) obtain n r where
    n: "n \<in> set nodes" "find_in_range (int (hash key)) m = Inr (Some (node_address n, r))" "owns hash nodes n key"
    by (auto simp: ring_metadata_def good_key_def owns_def)
  have h: "CHR '':'' \<notin> set (nodeHost n)" "w (node_at n) \<noteq> None" "nodePort n \<le> 65535"
    using assms(1) n(1) by (auto simp: cluster_ok_def)
  let ?k = "(disconnect k)\<lparr>ksAddress := nodeHost n, ksPort := int (nodePort n), clientSocket := True, clientComm := OpenComm (node_at n)\<rparr>"
  have "connectCorrServer hash (cluster_network hash) key k w =
      (if nodeHost n \<noteq> ksAddress k \<or> int (nodePort n) \<noteq> ksPort k then (?k, w, Inr ()) else (k, w, Inr ()))"
    using assms(4) n(2) parse_show_address [OF h(1), of "nodePort n"]
      connect_node [where w = w, OF h(2,3), of "(disconnect k)\<lparr>ksAddress := nodeHost n, ksPort := int (nodePort n)\<rparr>"]
    by (simp add: connectCorrServer_def)
  moreover have "connected n ?k" by (simp add: connected_def)
  moreover have "ksMetadata ?k = Some m" using assms(4) by (simp add: disconnect_def)
  moreover have "connected n k" if "nodeHost n = ksAddress k" "int (nodePort n) = ksPort k"
    using assms(3) that by (auto simp: connected_def)
  ultimately show ?thesis using n(1,3) assms(4)
    by (cases "nodeHost n \<noteq> ksAddress k \<or> int (nodePort n) \<noteq> ksPort k") auto
qed

text \<open>
  A request goes to the owner of its key: at once when the client has the metadata of the
  ring, and at the second attempt when it asks another server first.
\<close>

lemma request_routed:
  assumes "cluster_ok hash nodes w" "n0 \<in> set nodes" "connected n0 k" "ksMetadata k = Some m" "ring_metadata hash nodes m"
    and "good_key hash nodes key" "r = GET \<or> r = PUT"
  shows "\<exists>n k' w' reply. n \<in> set nodes \<and> owns hash nodes n key \<and> client_ok hash nodes k' \<and> cluster_ok hash nodes w' \<and>
    request hash (cluster_network hash) key (kv_msg (Some r) (Some key) val) k w = Some (k', w', Inr reply) \<and>
    spec_serve False False True r key val (content (the (w (node_at n)))) =
      (the (msgStatus reply), msgValue reply, content (the (w' (node_at n)))) \<and> msgStatus reply \<noteq> None \<and>
    (\<forall>a. a \<noteq> node_at n \<longrightarrow> w' a = w a) \<and> (\<forall>a. map_option dataToFlush (w' a) = map_option dataToFlush (w a))"
proof -
  from routed_to_owner [OF assms(1-6)] obtain n k1 where
    n: "n \<in> set nodes" "owns hash nodes n key" "connected n k1" "ksMetadata k1 = Some m"
    "connectCorrServer hash (cluster_network hash) key k w = (k1, w, Inr ())" by blast
  from owner_serves [OF assms(1) n(1,2) assms(6,7), of val] obtain w' reply where
    s: "netRequest (cluster_network hash) (node_at n) (kv_msg (Some r) (Some key) val) w = (w', Inr (Some reply))"
    "spec_serve False False True r key val (content (the (w (node_at n)))) =
      (the (msgStatus reply), msgValue reply, content (the (w' (node_at n))))" "msgStatus reply \<noteq> None"
    "\<forall>a. a \<noteq> node_at n \<longrightarrow> w' a = w a" "cluster_ok hash nodes w'"
    "\<forall>a. map_option dataToFlush (w' a) = map_option dataToFlush (w a)" by blast
  have "the (msgStatus reply) \<noteq> SERVER_NOT_RESPONSIBLE"
    using s(2) assms(7) by (auto simp: spec_serve_def split: if_splits)
  with s(3) have "msgStatus reply \<noteq> Some SERVER_NOT_RESPONSIBLE" by auto
  with n(3,5) s(1) have "request hash (cluster_network hash) key (kv_msg (Some r) (Some key) val) k w = Some (k1, w', Inr reply)"
    by (simp add: request.simps [of hash _ key _ k w] exchange_def connected_def)
  moreover have "client_ok hash nodes k1" using n assms(5) by (auto simp: client_ok_def)
  ultimately show ?thesis using n(1,2) s(2-6) by blast
qed

lemma request_served:
  assumes "cluster_ok hash nodes w" "client_ok hash nodes k" "good_key hash nodes key" "r = GET \<or> r = PUT"
  shows "\<exists>n k' w' reply. n \<in> set nodes \<and> owns hash nodes n key \<and> client_ok hash nodes k' \<and> cluster_ok hash nodes w' \<and>
    request hash (cluster_network hash) key (kv_msg (Some r) (Some key) val) k w = Some (k', w', Inr reply) \<and>
    spec_serve False False True r key val (content (the (w (node_at n)))) =
      (the (msgStatus reply), msgValue reply, content (the (w' (node_at n)))) \<and> msgStatus reply \<noteq> None \<and>
    (\<forall>a. a \<noteq> node_at n \<longrightarrow> w' a = w a) \<and> (\<forall>a. map_option dataToFlush (w' a) = map_option dataToFlush (w a))"
proof -
  obtain n0 where n0: "n0 \<in> set nodes" "connected n0 k"
    "ksMetadata k = Some [(node_address n0, whole_range)] \<or> (\<exists>m. ksMetadata k = Some m \<and> ring_metadata hash nodes m)"
    using assms(2) by (auto simp: client_ok_def)
  from n0(3) show ?thesis
  proof
    assume "\<exists>m. ksMetadata k = Some m \<and> ring_metadata hash nodes m"
    then show ?thesis using request_routed [OF assms(1) n0(1,2) _ _ assms(3,4)] by blast
  next
    assume first: "ksMetadata k = Some [(node_address n0, whole_range)]"
    have colon: "CHR '':'' \<notin> set (nodeHost n0)" using assms(1) n0(1) by (auto simp: cluster_ok_def)
    have stay: "connectCorrServer hash (cluster_network hash) key k w = (k, w, Inr ())"
      using stays_connected [OF n0(2) first colon] .
    show ?thesis
    proof (cases "owns hash nodes n0 key")
      case True
      from owner_serves [OF assms(1) n0(1) True assms(3,4), of val] obtain w' reply where
        s: "netRequest (cluster_network hash) (node_at n0) (kv_msg (Some r) (Some key) val) w = (w', Inr (Some reply))"
        "spec_serve False False True r key val (content (the (w (node_at n0)))) =
          (the (msgStatus reply), msgValue reply, content (the (w' (node_at n0))))" "msgStatus reply \<noteq> None"
        "\<forall>a. a \<noteq> node_at n0 \<longrightarrow> w' a = w a" "cluster_ok hash nodes w'"
        "\<forall>a. map_option dataToFlush (w' a) = map_option dataToFlush (w a)" by blast
      have "the (msgStatus reply) \<noteq> SERVER_NOT_RESPONSIBLE"
        using s(2) assms(4) by (auto simp: spec_serve_def split: if_splits)
      with s(3) have "msgStatus reply \<noteq> Some SERVER_NOT_RESPONSIBLE" by auto
      with n0(2) stay s(1) have "request hash (cluster_network hash) key (kv_msg (Some r) (Some key) val) k w = Some (k, w', Inr reply)"
        by (simp add: request.simps [of hash _ key _ k w] exchange_def connected_def)
      then show ?thesis using n0(1) True s(2-6) assms(2) by blast
    next
      case False
      from other_refuses [OF assms(1) n0(1) False assms(3,4), of val] obtain m where
        m: "netRequest (cluster_network hash) (node_at n0) (kv_msg (Some r) (Some key) val) w =
          (w, Inr (Some (kv_msg_metadata (Some SERVER_NOT_RESPONSIBLE) (Some key) None (Some m))))" "ring_metadata hash nodes m" by blast
      let ?k = "k\<lparr>ksMetadata := Some m\<rparr>"
      have again: "request hash (cluster_network hash) key (kv_msg (Some r) (Some key) val) k w =
          request hash (cluster_network hash) key (kv_msg (Some r) (Some key) val) ?k w"
        using n0(2) stay m(1) by (subst request.simps) (simp add: exchange_def connected_def)
      have "connected n0 ?k" "ksMetadata ?k = Some m" using n0(2) by (simp_all add: connected_def)
      from request_routed [OF assms(1) n0(1) this m(2) assms(3,4)] show ?thesis unfolding again .
    qed
  qed
qed

lemma owner_unique:
  assumes "cluster_ok hash nodes w" "n \<in> set nodes" "n' \<in> set nodes" "owns hash nodes n key" "owns hash nodes n' key"
  shows "n = n'"
  using assms by (auto simp: cluster_ok_def ring_ok_def owns_def computeHash_def distinct_map inj_on_def)

text \<open>
  Clients whose metadata are not those of the ring: of whatever ring they are, before nodes
  joined or left, they name for the key a server that is in the ring. A client that believes
  to be connected to that server is.
\<close>

definition client_reaches :: "(string \<Rightarrow> nat) \<Rightarrow> ECSNode list \<Rightarrow> string \<Rightarrow> KVStore \<Rightarrow> bool" where
  "client_reaches hash nodes key k \<longleftrightarrow>
     client_ok hash nodes k \<or>
     (\<exists>n \<in> set nodes. \<exists>m r. ksMetadata k = Some m \<and> find_in_range (int (hash key)) m = Inr (Some (node_address n, r)) \<and>
        (ksAddress k = nodeHost n \<and> ksPort k = int (nodePort n) \<longrightarrow> connected n k))"

lemma client_ok_reaches: "client_ok hash nodes k \<Longrightarrow> client_reaches hash nodes key k"
  by (simp add: client_reaches_def)

lemma routed_by_metadata:
  assumes "cluster_ok hash nodes w" "n \<in> set nodes" "ksMetadata k = Some m"
    and "find_in_range (int (hash key)) m = Inr (Some (node_address n, r))"
    and "ksAddress k = nodeHost n \<and> ksPort k = int (nodePort n) \<longrightarrow> connected n k"
  shows "\<exists>k'. connected n k' \<and> ksMetadata k' = Some m \<and> connectCorrServer hash (cluster_network hash) key k w = (k', w, Inr ())"
proof -
  have h: "CHR '':'' \<notin> set (nodeHost n)" "w (node_at n) \<noteq> None" "nodePort n \<le> 65535"
    using assms(1,2) by (auto simp: cluster_ok_def)
  let ?k = "(disconnect k)\<lparr>ksAddress := nodeHost n, ksPort := int (nodePort n), clientSocket := True, clientComm := OpenComm (node_at n)\<rparr>"
  have "connectCorrServer hash (cluster_network hash) key k w =
      (if nodeHost n \<noteq> ksAddress k \<or> int (nodePort n) \<noteq> ksPort k then (?k, w, Inr ()) else (k, w, Inr ()))"
    using assms(3,4) parse_show_address [OF h(1), of "nodePort n"]
      connect_node [where w = w, OF h(2,3), of "(disconnect k)\<lparr>ksAddress := nodeHost n, ksPort := int (nodePort n)\<rparr>"]
    by (simp add: connectCorrServer_def)
  moreover have "connected n ?k" "ksMetadata ?k = Some m" using assms(3) by (simp_all add: connected_def disconnect_def)
  ultimately show ?thesis using assms(3,5)
    by (cases "nodeHost n \<noteq> ksAddress k \<or> int (nodePort n) \<noteq> ksPort k") auto
qed

text \<open>
  A request of such a client is carried out by the owner of the key, at the second attempt when
  the server the client asks first is not the owner.
\<close>

lemma request_reaches:
  assumes "cluster_ok hash nodes w" "client_reaches hash nodes key k" "good_key hash nodes key" "r = GET \<or> r = PUT"
  shows "\<exists>n k' w' reply. n \<in> set nodes \<and> owns hash nodes n key \<and> client_reaches hash nodes key k' \<and> cluster_ok hash nodes w' \<and>
    request hash (cluster_network hash) key (kv_msg (Some r) (Some key) val) k w = Some (k', w', Inr reply) \<and>
    spec_serve False False True r key val (content (the (w (node_at n)))) =
      (the (msgStatus reply), msgValue reply, content (the (w' (node_at n)))) \<and> msgStatus reply \<noteq> None \<and>
    (\<forall>a. a \<noteq> node_at n \<longrightarrow> w' a = w a) \<and> (\<forall>a. map_option dataToFlush (w' a) = map_option dataToFlush (w a))"
proof (cases "client_ok hash nodes k")
  case True
  from request_served [OF assms(1) this assms(3,4), of val] show ?thesis
    by (elim exE conjE, intro exI conjI) (assumption | erule client_ok_reaches)+
next
  case False
  then obtain n m rng where o: "n \<in> set nodes" "ksMetadata k = Some m" "find_in_range (int (hash key)) m = Inr (Some (node_address n, rng))"
    "ksAddress k = nodeHost n \<and> ksPort k = int (nodePort n) \<longrightarrow> connected n k" using assms(2) by (auto simp: client_reaches_def)
  obtain k1 where n: "connected n k1" "ksMetadata k1 = Some m" "connectCorrServer hash (cluster_network hash) key k w = (k1, w, Inr ())"
    using routed_by_metadata [OF assms(1) o] by blast
  let ?msg = "kv_msg (Some r) (Some key) val"
  show ?thesis
  proof (cases "owns hash nodes n key")
    case own: True
    from owner_serves [OF assms(1) o(1) own assms(3,4), of val] obtain w' reply where
      s: "netRequest (cluster_network hash) (node_at n) ?msg w = (w', Inr (Some reply))"
      "spec_serve False False True r key val (content (the (w (node_at n)))) =
        (the (msgStatus reply), msgValue reply, content (the (w' (node_at n))))" "msgStatus reply \<noteq> None"
      "\<forall>a. a \<noteq> node_at n \<longrightarrow> w' a = w a" "cluster_ok hash nodes w'"
      "\<forall>a. map_option dataToFlush (w' a) = map_option dataToFlush (w a)" by blast
    have "the (msgStatus reply) \<noteq> SERVER_NOT_RESPONSIBLE"
      using s(2) assms(4) by (auto simp: spec_serve_def split: if_splits)
    with s(3) have "msgStatus reply \<noteq> Some SERVER_NOT_RESPONSIBLE" by auto
    with n(1,3) s(1) have "request hash (cluster_network hash) key ?msg k w = Some (k1, w', Inr reply)"
      by (simp add: request.simps [of hash _ key _ k w] exchange_def connected_def)
    moreover have "client_reaches hash nodes key k1" using n(1,2) o(1,3) by (auto simp: client_reaches_def)
    ultimately show ?thesis using o(1) own s(2-6) by blast
  next
    case False
    from other_refuses [OF assms(1) o(1) False assms(3,4), of val] obtain m' where
      m': "netRequest (cluster_network hash) (node_at n) ?msg w =
        (w, Inr (Some (kv_msg_metadata (Some SERVER_NOT_RESPONSIBLE) (Some key) None (Some m'))))" "ring_metadata hash nodes m'" by blast
    let ?k = "k1\<lparr>ksMetadata := Some m'\<rparr>"
    have again: "request hash (cluster_network hash) key ?msg k w = request hash (cluster_network hash) key ?msg ?k w"
      using n(1,3) m'(1) by (subst request.simps) (simp add: exchange_def connected_def)
    have "connected n ?k" "ksMetadata ?k = Some m'" using n(1) by (simp_all add: connected_def)
    from request_routed [OF assms(1) o(1) this m'(2) assms(3,4), of val] show ?thesis
      unfolding again by (elim exE conjE, intro exI conjI) (assumption | erule client_ok_reaches)+
  qed
qed

text \<open>
  A client whose metadata name a server that is gone. The request ends with an exception, and
  no server has changed. \<open>comm_ok\<close>: an open connection is to the address the client has.
\<close>

definition comm_ok :: "KVStore \<Rightarrow> bool" where
  "comm_ok k \<longleftrightarrow>
     (case clientComm k of OpenComm a \<Rightarrow> clientSocket k \<and> a = (ksAddress k, nat (ksPort k)) \<and> 0 \<le> ksPort k | _ \<Rightarrow> True)"

definition client_lost :: "(string \<Rightarrow> nat) \<Rightarrow> cluster \<Rightarrow> string \<Rightarrow> KVStore \<Rightarrow> bool" where
  "client_lost hash w key k \<longleftrightarrow>
     comm_ok k \<and> (\<exists>n m r. CHR '':'' \<notin> set (nodeHost n) \<and> nodePort n \<le> 65535 \<and> w (node_at n) = None \<and>
       ksMetadata k = Some m \<and> find_in_range (int (hash key)) m = Inr (Some (node_address n, r)))"

lemma connected_comm_ok: "connected n k \<Longrightarrow> comm_ok k"
  by (simp add: comm_ok_def connected_def)

lemma request_lost:
  assumes "client_lost hash w key k"
  shows "\<exists>k' e. request hash (cluster_network hash) key msg k w = Some (k', w, Inl e) \<and> client_lost hash w key k'"
proof -
  obtain n m r where o: "CHR '':'' \<notin> set (nodeHost n)" "nodePort n \<le> 65535" "w (node_at n) = None" "ksMetadata k = Some m"
    "find_in_range (int (hash key)) m = Inr (Some (node_address n, r))" and k: "comm_ok k"
    using assms by (auto simp: client_lost_def)
  let ?k = "if nodeHost n \<noteq> ksAddress k \<or> int (nodePort n) \<noteq> ksPort k
    then (disconnect k)\<lparr>ksAddress := nodeHost n, ksPort := int (nodePort n)\<rparr> else k"
  have "connect (cluster_network hash) ((disconnect k)\<lparr>ksAddress := nodeHost n, ksPort := int (nodePort n)\<rparr>) w =
      ((disconnect k)\<lparr>ksAddress := nodeHost n, ksPort := int (nodePort n)\<rparr>, w, Inl IOException)"
    using o(2,3) by (simp add: connect_def cluster_network_def Let_def)
  then have c: "connectCorrServer hash (cluster_network hash) key k w = (?k, w, Inr ())"
    using o(4,5) parse_show_address [OF o(1), of "nodePort n"] by (auto simp: connectCorrServer_def)
  have ok: "comm_ok ?k" using k by (auto simp: comm_ok_def disconnect_def split: client_comm.splits)
  have "\<exists>e. exchange (cluster_network hash) msg ?k w = (w, Inl e)"
  proof (cases "clientComm ?k")
    case (OpenComm a)
    have "a = node_at n"
      using OpenComm k by (auto simp: comm_ok_def disconnect_def split: if_splits)
    with OpenComm o(3) show ?thesis by (simp add: exchange_def cluster_network_def del: if_split)
  qed (simp_all add: exchange_def del: if_split)
  then obtain e where "exchange (cluster_network hash) msg ?k w = (w, Inl e)" by blast
  with c have "request hash (cluster_network hash) key msg k w = Some (?k, w, Inl e)"
    by (subst request.simps) (simp del: if_split)
  moreover have "ksMetadata ?k = Some m" using o(4) by (simp add: disconnect_def)
  then have "client_lost hash w key ?k" using ok o unfolding client_lost_def by blast
  ultimately show ?thesis by blast
qed

text \<open>What one client puts another gets.\<close>

lemma put_then_get:
  assumes "cluster_ok hash nodes w" "client_reaches hash nodes key c" "client_reaches hash nodes key c'"
    and "good_key hash nodes key" "\<not> is_delete (Some v)"
  shows "\<exists>c1 w1 reply c2 w2 answer.
    store_put hash (cluster_network hash) key (Some v) c w = Some (c1, w1, Inr reply) \<and>
    msgStatus reply \<in> {Some PUT_SUCCESS, Some PUT_UPDATE} \<and>
    store_get hash (cluster_network hash) key c' w1 = Some (c2, w2, Inr answer) \<and>
    msgStatus answer = Some GET_SUCCESS \<and> msgValue answer = Some v \<and>
    client_reaches hash nodes key c1 \<and> client_reaches hash nodes key c2 \<and> cluster_ok hash nodes w2"
proof -
  from request_reaches [OF assms(1,2,4), of PUT "Some v"] obtain n c1 w1 reply where
    put: "n \<in> set nodes" "owns hash nodes n key" "client_reaches hash nodes key c1" "cluster_ok hash nodes w1"
    "store_put hash (cluster_network hash) key (Some v) c w = Some (c1, w1, Inr reply)"
    "spec_serve False False True PUT key (Some v) (content (the (w (node_at n)))) =
      (the (msgStatus reply), msgValue reply, content (the (w1 (node_at n))))" "msgStatus reply \<noteq> None"
    by (auto simp: store_put_def)
  from request_reaches [OF put(4) assms(3,4), of GET "Some []"] obtain n' c2 w2 answer where
    get: "n' \<in> set nodes" "owns hash nodes n' key" "client_reaches hash nodes key c2" "cluster_ok hash nodes w2"
    "store_get hash (cluster_network hash) key c' w1 = Some (c2, w2, Inr answer)"
    "spec_serve False False True GET key (Some []) (content (the (w1 (node_at n')))) =
      (the (msgStatus answer), msgValue answer, content (the (w2 (node_at n'))))" "msgStatus answer \<noteq> None"
    by (auto simp: store_get_def)
  have "n' = n" using assms(1) get(1,2) put(1,2) owner_unique by blast
  have key: "key \<noteq> []" "\<not> 20 < utf8_size key" using assms(4) by (auto simp: good_key_def)
  let ?r = "spec_serve False False True PUT key (Some v) (content (the (w (node_at n))))"
  have "content (the (w1 (node_at n))) = snd (snd ?r)" "the (msgStatus reply) = fst ?r" unfolding put(6) by simp_all
  with key assms(5) have "content (the (w1 (node_at n))) = (content (the (w (node_at n))))(key \<mapsto> v)"
    and 1: "the (msgStatus reply) = PUT_SUCCESS \<or> the (msgStatus reply) = PUT_UPDATE"
    by (simp_all add: spec_serve_def split: if_splits)
  then have 0: "content (the (w1 (node_at n))) key = Some v" by simp
  from 0 get(6) \<open>n' = n\<close> have 2: "the (msgStatus answer) = GET_SUCCESS" "msgValue answer = Some v"
    by (auto simp: spec_serve_def)
  have "msgStatus reply \<in> {Some PUT_SUCCESS, Some PUT_UPDATE}" "msgStatus answer = Some GET_SUCCESS"
    using 1 2(1) put(7) get(7) by auto
  then show ?thesis using put(3,5) get(3,4,5) 2(2) by blast
qed

section \<open>Commands of the user\<close>

text \<open>Words of a line: not empty and without white space.\<close>

definition word :: "string \<Rightarrow> bool" where
  "word t \<longleftrightarrow> t \<noteq> [] \<and> (\<forall>c \<in> set t. \<not> java_space c)"

fun spaced :: "string list \<Rightarrow> string" where
  "spaced [] = []"
| "spaced [t] = t"
| "spaced (t # u # ts) = t @ CHR '' '' # spaced (u # ts)"

lemma spaced_Cons: "ts \<noteq> [] \<Longrightarrow> spaced (t # ts) = t @ CHR '' '' # spaced ts"
  by (cases ts) auto

lemma space_is_space [simp]: "java_space CHR '' ''"
  by (simp add: java_space_def)

lemma split_spaces_word: "word t \<Longrightarrow> split_spaces t = [t]"
  by (subst split_spaces.simps) (simp add: word_def)

lemma split_spaces_spaced: "ts \<noteq> [] \<Longrightarrow> \<forall>t \<in> set ts. word t \<Longrightarrow> split_spaces (spaced ts) = ts"
proof (induction ts rule: spaced.induct)
  case (3 t u ts)
  have t: "\<forall>c \<in> set t. \<not> java_space c" "t \<noteq> []" using 3(3) by (simp_all add: word_def)
  obtain a s where s: "spaced (u # ts) = a # s" "\<not> java_space a"
    using 3(3) by (cases "ts"; cases u) (auto simp: word_def)
  have "split_spaces (t @ CHR '' '' # spaced (u # ts)) = t # split_spaces (spaced (u # ts))"
    using t by (subst split_spaces.simps) (simp add: takeWhile_append2 dropWhile_append2 s)
  with 3 show ?case by simp
qed (auto simp: split_spaces_word)

lemma tokens_of_spaced:
  assumes "ts \<noteq> []" "\<forall>t \<in> set ts. word t"
  shows "tokens_of (spaced ts) = ts"
proof (cases "\<exists>c \<in> set (spaced ts). java_space c")
  case True
  have "last ts \<noteq> []" using assms by (simp add: word_def)
  then have "dropWhile (\<lambda>t. t = []) (rev ts) = rev ts"
    using assms(1) by (cases "rev ts") (auto simp: hd_rev [symmetric])
  with True assms show ?thesis by (simp add: tokens_of_def split_spaces_spaced)
next
  case False
  have "ts = [hd ts]" using assms(1) False by (cases ts rule: spaced.cases) auto
  then have "spaced ts = hd ts" by (metis spaced.simps(2))
  with False \<open>ts = [hd ts]\<close> show ?thesis by (simp add: tokens_of_def)
qed

lemma foldl_spaced: "foldl (\<lambda>v t. v @ '' '' @ t) v ts = spaced (v # ts)"
proof (induction ts arbitrary: v)
  case (Cons t ts)
  have "spaced ((v @ '' '' @ t) # ts) = spaced (v # t # ts)" by (cases ts) simp_all
  with Cons show ?case by simp
qed simp

text \<open>
  C3. What one user puts another gets. In a cluster of running servers with the metadata of
  their ring, the command \<open>put\<close> of a user reports success, and the command \<open>get\<close> of a second
  user prints the words of the value with single spaces between them. The key has at most 20
  bytes and is not on the border of two ranges; the value is not the one word \<open>null\<close>, which
  asks for a deletion. Both clients are connected and have the metadata they started with,
  those of the ring, or others, such as those of the ring before nodes joined or left, that name
  for the key a server which is in the ring (\<open>client_reaches\<close>); when the one they name is
  gone the request fails (\<open>request_lost\<close>).
\<close>

theorem put_command_then_get:
  assumes "cluster_ok hash nodes w" "running u" "kvStore u = Some k" "client_reaches hash nodes key k"
    and "running u'" "kvStore u' = Some k'" "client_reaches hash nodes key k'"
    and "good_key hash nodes key" "\<forall>t \<in> set (key # ws). word t" "ws \<noteq> []" "ws \<noteq> [''null'']"
  shows "\<exists>u1 w1 text u2 w2.
    handleCommand hash (cluster_network hash) (spaced (''put'' # key # ws)) u w = Some (u1, w1, Inr (Some text)) \<and>
    text \<in> {''PUT SUCCESS'', ''PUT UPDATE''} \<and>
    handleCommand hash (cluster_network hash) (spaced [''get'', key]) u' w1 = Some (u2, w2, Inr (Some (spaced ws)))"
proof -
  have words: "word ''put''" "word ''get''" by (simp_all add: word_def java_space_def)
  have tokens: "tokens_of (spaced (''put'' # key # ws)) = ''put'' # key # ws" "tokens_of (spaced [''get'', key]) = [''get'', key]"
    using assms(9) words by (intro tokens_of_spaced; auto)+
  obtain v vs where ws: "ws = v # vs" using assms(10) by (cases ws) auto
  have joined: "foldl (\<lambda>v t. v @ '' '' @ t) v vs = spaced ws" by (simp only: foldl_spaced ws)
  have "v \<noteq> []" using assms(9) ws by (simp add: word_def)
  have "spaced ws \<noteq> ''null''"
  proof (cases vs)
    case Nil
    then show ?thesis using assms(11) ws by simp
  next
    case (Cons a list)
    then have "CHR '' '' \<in> set (spaced ws)" by (simp add: ws)
    then show ?thesis by auto
  qed
  moreover have "spaced ws \<noteq> []" using \<open>v \<noteq> []\<close> by (cases vs) (simp_all add: ws)
  ultimately have "\<not> is_delete (Some (spaced ws))" by (simp add: is_delete_def)
  from put_then_get [OF assms(1,4,7,8) this] obtain c1 w1 reply c2 w2 answer where
    pg: "store_put hash (cluster_network hash) key (Some (spaced ws)) k w = Some (c1, w1, Inr reply)"
    "msgStatus reply \<in> {Some PUT_SUCCESS, Some PUT_UPDATE}"
    "store_get hash (cluster_network hash) key k' w1 = Some (c2, w2, Inr answer)"
    "msgStatus answer = Some GET_SUCCESS" "msgValue answer = Some (spaced ws)" by blast
  have "\<not> (vs = [] \<and> v = ''null'')" using assms(11) ws by auto
  then have "do_put hash (cluster_network hash) (''put'' # key # ws) u w = Some (u\<lparr>kvStore := Some c1\<rparr>, w1, Inr (Some (put_text reply)))"
    using assms(2,3) pg(1) joined by (auto simp: do_put_def with_store_def ws Let_def)
  then have "handleCommand hash (cluster_network hash) (spaced (''put'' # key # ws)) u w =
      Some (u\<lparr>kvStore := Some c1\<rparr>, w1, Inr (Some (put_text reply)))"
    unfolding handleCommand_def tokens Let_def by simp
  moreover have "put_text reply \<in> {''PUT SUCCESS'', ''PUT UPDATE''}" using pg(2) by (auto simp: put_text_def)
  moreover have "do_get hash (cluster_network hash) [''get'', key] u' w1 = Some (u'\<lparr>kvStore := Some c2\<rparr>, w2, Inr (Some (spaced ws)))"
    using assms(5,6) pg(3-5) by (simp add: do_get_def with_store_def get_text_def)
  then have "handleCommand hash (cluster_network hash) (spaced [''get'', key]) u' w1 =
      Some (u'\<lparr>kvStore := Some c2\<rparr>, w2, Inr (Some (spaced ws)))"
    unfolding handleCommand_def tokens Let_def by simp
  ultimately show ?thesis by blast
qed

text \<open>Three servers with empty stores.\<close>

definition example_cluster :: cluster where
  "example_cluster a =
     (if a \<in> node_at ` set example_nodes then
        Some (example_server\<lparr>srvHost := fst a, srvPort := snd a,
          srvMetadata := Some (calc_metadata example_hash example_nodes), srvStorage := clearKVStorage example_storage\<rparr>)
      else None)"

lemma example_cluster_ok: "cluster_ok example_hash example_nodes example_cluster"
proof -
  have "storage_ok example_storage" using example_server_ok by (simp add: example_server_def)
  then have "storage_ok (clearKVStorage example_storage)" by (rule clearKVStorage_ok)
  then have "serving example_hash example_nodes n (example_server\<lparr>srvHost := nodeHost n, srvPort := nodePort n,
      srvMetadata := Some (calc_metadata example_hash example_nodes), srvStorage := clearKVStorage example_storage\<rparr>)" for n
    by (simp add: serving_def ring_metadata_def) (simp add: example_server_def)
  moreover have "\<forall>n \<in> set example_nodes. CHR '':'' \<notin> set (nodeHost n) \<and> nodePort n \<le> 65535"
    by (simp add: example_nodes_def)
  ultimately show ?thesis using example_ring(1) by (auto simp: cluster_ok_def example_cluster_def)
qed

text \<open>A second client that knows only the server that is now the second of the ring, from before the others joined.\<close>

definition example_stale :: KVStore where
  "example_stale =
     \<lparr>ksAddress = ''c'', ksPort = 3, clientSocket = False, clientComm = ClosedComm,
      ksMetadata = Some (calc_metadata example_hash [\<lparr>nodeName = ''s2'', nodeHost = ''b'', nodePort = 2\<rparr>])\<rparr>"

theorem put_command_then_get_witness:
  "\<exists>k u1 w1 text u2 w2.
     connect (cluster_network example_hash) (new_KVStore ''a'' 1) example_cluster = (k, example_cluster, Inr ()) \<and>
     handleCommand example_hash (cluster_network example_hash) (spaced [''put'', ''x'', ''hello'', ''world''])
       (new_KVClient\<lparr>running := True, kvStore := Some k\<rparr>) example_cluster = Some (u1, w1, Inr (Some text)) \<and>
     handleCommand example_hash (cluster_network example_hash) (spaced [''get'', ''x''])
       (new_KVClient\<lparr>running := True, kvStore := Some example_stale\<rparr>) w1 = Some (u2, w2, Inr (Some (spaced [''hello'', ''world''])))"
proof -
  let ?n = "\<lparr>nodeName = ''s1'', nodeHost = ''a'', nodePort = 1\<rparr>"
  let ?n2 = "\<lparr>nodeName = ''s2'', nodeHost = ''b'', nodePort = 2\<rparr>"
  have "?n \<in> set example_nodes" by (simp add: example_nodes_def)
  from new_client_ok [OF example_cluster_ok this] obtain k where
    k: "connect (cluster_network example_hash) (new_KVStore ''a'' 1) example_cluster = (k, example_cluster, Inr ())"
    "client_ok example_hash example_nodes k" by auto
  let ?u = "new_KVClient\<lparr>running := True, kvStore := Some k\<rparr>" and ?u' = "new_KVClient\<lparr>running := True, kvStore := Some example_stale\<rparr>"
  have u: "running ?u" "kvStore ?u = Some k" "running ?u'" "kvStore ?u' = Some example_stale" by simp_all
  have "\<exists>r. find_in_range (int (example_hash ''x'')) (calc_metadata example_hash [?n2]) = Inr (Some (node_address ?n2, r))"
  proof -
    have ring: "ring_ok example_hash [?n2]" by code_simp
    show ?thesis by (rule find_in_range_ring [OF ring _ refl, of "int (example_hash ''x'')"]) auto
  qed
  then have k': "client_reaches example_hash example_nodes ''x'' example_stale"
    by (auto simp: client_reaches_def example_stale_def example_nodes_def)
  have "utf8_size ''x'' \<le> 20" by code_simp
  then have key: "good_key example_hash example_nodes ''x''"
    by (simp add: good_key_def example_ring(2) shared_hash_def example_hash_def)
  have words: "\<forall>t \<in> set (''x'' # [''hello'', ''world'']). word t" by (simp add: word_def java_space_def)
  have "[''hello'', ''world''] \<noteq> []" "[''hello'', ''world''] \<noteq> [''null'']" by simp_all
  from put_command_then_get [OF example_cluster_ok u(1,2) client_ok_reaches [OF k(2)] u(3,4) k' key words this] k(1)
  show ?thesis by blast
qed

section \<open>What ends the client\<close>

text \<open>A line of spaces has no first token.\<close>

theorem blank_line_ends_client:
  "\<not> stop c \<Longrightarrow> run_lines hash net (replicate (Suc n) CHR '' '' # ls) c w = Some (c, w, Some ArrayIndexOutOfBoundsException)"
proof -
  have "split_spaces (replicate (Suc n) CHR '' '') = [[], []]"
    by (subst split_spaces.simps) (simp add: split_spaces.simps [of "[]"] dropWhile_eq_Nil_conv [THEN iffD2])
  then have "tokens_of (replicate (Suc n) CHR '' '') = []" by (simp add: tokens_of_def)
  moreover assume "\<not> stop c"
  ultimately show ?thesis by (simp add: handleCommand_def del: replicate_Suc)
qed

theorem blank_line_ends_client_witness:
  "run_lines (\<lambda>_. 0) (cluster_network (\<lambda>_. 0)) ['' ''] new_KVClient example_cluster =
     Some (new_KVClient, example_cluster, Some ArrayIndexOutOfBoundsException)"
  using blank_line_ends_client [of new_KVClient "\<lambda>_. 0" "cluster_network (\<lambda>_. 0)" 0 "[]" example_cluster]
  by (simp add: new_KVClient_def)

text \<open>
  The client counts as connected before it is. When the server of a \<open>connect\<close> cannot be
  reached the user is told so, but a \<open>put\<close> or \<open>get\<close> after it ends the program with a null
  pointer exception instead of the message that it is not connected.
\<close>

theorem failed_connect_then_request:
  assumes "\<not> stop c" "\<forall>t \<in> set [host, port, key]. word t" "parse_int port = Some (int p)" "p \<le> 65535" "CHR '':'' \<notin> set host"
    and "netConnect net (host, p) w = (w', Inl IOException)" "cmd = ''get'' \<or> cmd = ''put''"
  shows "\<exists>c'. handleCommand hash net (spaced [''connect'', host, port]) c w = Some (c', w', Inr (Some ''Could not establish connection!'')) \<and>
    (\<exists>c''. run_lines hash net (spaced [''connect'', host, port] # spaced [cmd, key] # ls) c w = Some (c'', w', Some NullPointerException))"
proof -
  let ?k = "new_KVStore host (int p)"
  let ?c = "c\<lparr>kvStore := Some ?k, running := True\<rparr>"
  have words: "word ''connect''" "word ''put''" "word ''get''" by (simp_all add: word_def java_space_def)
  have t: "tokens_of (spaced [''connect'', host, port]) = [''connect'', host, port]" "tokens_of (spaced [cmd, key]) = [cmd, key]"
    using assms(2,7) words by (intro tokens_of_spaced; auto)+
  have 1: "handleCommand hash net (spaced [''connect'', host, port]) c w = Some (?c, w', Inr (Some ''Could not establish connection!''))"
    unfolding handleCommand_def t Let_def using assms(3,4,6)
    by (simp add: do_connect_def connect_def new_KVStore_def)
  obtain rs re where "parse_range whole_range = Inr (rs, re)" using parse_whole_range by blast
  then have stay: "connectCorrServer hash net key ?k w' = (?k, w', Inr ())"
    using parse_show_address [OF assms(5), of p]
    by (simp add: connectCorrServer_def new_KVStore_def show_address_def show_int_def)
  have "request hash net key m ?k w' = Some (?k, w', Inl NullPointerException)" for m
    by (subst request.simps) (simp add: stay, simp add: exchange_def new_KVStore_def)
  then have "handleCommand hash net (spaced [cmd, key]) ?c w' = Some (?c, w', Inl NullPointerException)"
    unfolding handleCommand_def t Let_def using assms(7)
    by (auto simp: do_get_def do_put_def with_store_def store_get_def store_put_def)
  with 1 assms(1) show ?thesis by simp
qed

theorem failed_connect_then_request_witness:
  "\<exists>c''. run_lines (\<lambda>_. 0) (cluster_network (\<lambda>_. 0)) [spaced [''connect'', ''h'', ''1''], spaced [''get'', ''k'']] new_KVClient (\<lambda>_. None) =
     Some (c'', \<lambda>_. None, Some NullPointerException)"
proof -
  have "parse_int ''1'' = Some (int 1)" by code_simp
  then show ?thesis
    using failed_connect_then_request [of new_KVClient "''h''" "''1''" "''k''" 1 "cluster_network (\<lambda>_. 0)" "\<lambda>_. None" "\<lambda>_. None" "''get''" "\<lambda>_. 0" "[]"]
    by (auto simp: new_KVClient_def word_def java_space_def cluster_network_def)
qed

end
