(* ===== verification/EcsControl.thy ===== *)
theory EcsControl
  imports KVClient
begin

text \<open>
  The configuration service \<open>ECSClient\<close> (\<open>src/src/app_kvECS/ECSClient.java\<close>): the lists of
  idle and active servers, the commands of the administrator, and the protocol by which it
  launches servers, tells them the metadata of the ring and has them move their data when
  the ring changes.

  Everything outside the process is a \<open>control\<close> over a state \<open>'w\<close>: sockets and the
  administration messages sent over them, the start script, the random choice of a server
  and what ZooKeeper reports. \<open>cluster_control\<close> is that interface for a cluster of the servers
  of \<open>KVServer\<close> which answer through \<open>adminServe\<close>. Waiting and the console are left out.
\<close>

section \<open>State and environment\<close>

record ECSClient =
  idleServers :: "ECSNode list"
  activeServers :: "ECSNode list"
  activatingServers :: "ECSNode list"
  ecsMetadata :: "metadata option"
  ecsStop :: bool
  ecsLevel :: string

text \<open>
  \<open>ctlRequest\<close> sends one message and reads the reply, null when it cannot be read.
  \<open>ctlKeeper\<close> gives what \<open>getChildren\<close> of ZooKeeper returns (the number of servers checked
  in) at every poll before the deadline, and at the one after it.
\<close>

record 'w control =
  ctlConnect :: "string \<times> nat \<Rightarrow> 'w \<Rightarrow> 'w \<times> (java_error + unit)"
  ctlRequest :: "string \<times> nat \<Rightarrow> KVAdminMsg \<Rightarrow> 'w \<Rightarrow> 'w \<times> KVAdminMsg option"
  ctlLaunch :: "string list \<Rightarrow> 'w \<Rightarrow> 'w"
  ctlRandom :: "'w \<Rightarrow> 'w \<times> nat"
  ctlKeeper :: "nat \<Rightarrow> 'w \<Rightarrow> 'w \<times> (java_error + nat) list \<times> (java_error + nat)"
  ctlDir :: string

type_synonym ('w, 'a) ecs_result = "ECSClient \<times> 'w \<times> (java_error + 'a)"

definition open_node :: "'w control \<Rightarrow> string \<times> nat \<Rightarrow> 'w \<Rightarrow> 'w \<times> (java_error + unit)" where
  "open_node E a w = (if 65535 < snd a then (w, Inl IllegalArgumentException) else ctlConnect E a w)"

definition admin_msg :: "string option \<Rightarrow> StatusType \<Rightarrow> metadata option \<Rightarrow> string option \<Rightarrow> KVAdminMsg" where
  "admin_msg srv st md rng = \<lparr>admServer = srv, admStatus = Some st, admMetadata = md, admRange = rng\<rparr>"

text \<open>\<open>receiveMsg().getStatus()\<close>\<close>

definition ask :: "'w control \<Rightarrow> string \<times> nat \<Rightarrow> KVAdminMsg \<Rightarrow> 'w \<Rightarrow> 'w \<times> (java_error + StatusType option)" where
  "ask E a m w =
     (case ctlRequest E a m w of
        (w', None) \<Rightarrow> (w', Inl NullPointerException)
      | (w', Some reply) \<Rightarrow> (w', Inr (admStatus reply)))"

definition ask_node :: "'w control \<Rightarrow> ECSNode \<Rightarrow> KVAdminMsg \<Rightarrow> 'w \<Rightarrow> 'w \<times> (java_error + StatusType option)" where
  "ask_node E n m w =
     (case open_node E (node_at n) w of
        (w1, Inl e) \<Rightarrow> (w1, Inl e)
      | (w1, Inr _) \<Rightarrow> ask E (node_at n) m w1)"

section \<open>Start-up\<close>

text \<open>
  One line of the configuration file. \<open>None\<close>: a negative port, which the model of a node
  does not have.
\<close>

definition config_node :: "string \<Rightarrow> (java_error + ECSNode) option" where
  "config_node line =
     (let args = tokens_of line
      in if length args < 3 then Some (Inl ArrayIndexOutOfBoundsException)
         else case parse_int (args ! 2) of
           None \<Rightarrow> Some (Inl NumberFormatException)
         | Some p \<Rightarrow>
             if p < 0 then None
             else Some (Inr \<lparr>nodeName = args ! 0, nodeHost = args ! 1, nodePort = nat p\<rparr>))"

fun read_config :: "string list \<Rightarrow> ECSClient \<Rightarrow> (java_error + ECSClient) option" where
  "read_config [] c = Some (Inr c)"
| "read_config (l # ls) c =
     (case config_node l of
        None \<Rightarrow> None
      | Some (Inl e) \<Rightarrow> Some (Inl e)
      | Some (Inr n) \<Rightarrow> read_config ls (c\<lparr>idleServers := idleServers c @ [n]\<rparr>))"

text \<open>
  The servers that are checked in already: the address stored with a name is parsed (and not
  used), and the first idle server of that name becomes active.
\<close>

definition adopt :: "string \<Rightarrow> ECSClient \<Rightarrow> ECSClient" where
  "adopt name c =
     (case find (\<lambda>n. name = nodeName n) (idleServers c) of
        None \<Rightarrow> c
      | Some n \<Rightarrow> c\<lparr>activeServers := activeServers c @ [n], idleServers := remove1 n (idleServers c)\<rparr>)"

fun adopt_all :: "(string \<times> (java_error + string)) list \<Rightarrow> ECSClient \<Rightarrow> ECSClient \<times> (java_error + unit)" where
  "adopt_all [] c = (c, Inr ())"
| "adopt_all ((name, locData) # rest) c =
     (case locData of
        Inl e \<Rightarrow> (c, Inl e)
      | Inr addr_port \<Rightarrow>
          (case parse_address addr_port of
             Inl e \<Rightarrow> (c, Inl e)
           | Inr _ \<Rightarrow> adopt_all rest (adopt name c)))"

text \<open>
  \<open>config\<close> is \<open>None\<close> when the file cannot be read; only an \<open>InterruptedException\<close> of ZooKeeper
  is handled, and leaves the service without metadata.
\<close>

definition empty_client :: ECSClient where
  "empty_client =
     \<lparr>idleServers = [], activeServers = [], activatingServers = [], ecsMetadata = None, ecsStop = False, ecsLevel = ''ALL''\<rparr>"

definition new_ECSClient ::
  "(string \<Rightarrow> nat) \<Rightarrow> string list option \<Rightarrow> java_error + (string \<times> (java_error + string)) list \<Rightarrow> (java_error + ECSClient) option" where
  "new_ECSClient hash config attendance =
     (case (case config of None \<Rightarrow> Some (Inr (empty_client\<lparr>ecsStop := True\<rparr>)) | Some ls \<Rightarrow> read_config ls empty_client) of
        None \<Rightarrow> None
      | Some (Inl e) \<Rightarrow> Some (Inl e)
      | Some (Inr c) \<Rightarrow>
          (case (case attendance of Inl e \<Rightarrow> (c, Inl e) | Inr ps \<Rightarrow> adopt_all ps c) of
             (c', Inr _) \<Rightarrow> Some (Inr (c'\<lparr>ecsMetadata := Some (calc_metadata hash (activeServers c'))\<rparr>))
           | (c', Inl e) \<Rightarrow> if e = InterruptedException then Some (Inr c') else Some (Inl e)))"

section \<open>Starting, stopping and shutting down\<close>

fun broadcast ::
  "'w control \<Rightarrow> StatusType \<Rightarrow> StatusType \<Rightarrow> ECSNode list \<Rightarrow> bool \<Rightarrow> 'w \<Rightarrow> 'w \<times> (java_error + bool)" where
  "broadcast E req success [] allsuccess w = (w, Inr allsuccess)"
| "broadcast E req success (n # ns) allsuccess w =
     (case ask_node E n (admin_msg None req None None) w of
        (w', Inl e) \<Rightarrow> (w', Inl e)
      | (w', Inr st) \<Rightarrow> broadcast E req success ns (allsuccess \<and> st = Some success) w')"

definition start_all :: "'w control \<Rightarrow> ECSClient \<Rightarrow> 'w \<Rightarrow> ('w, bool) ecs_result" where
  "start_all E c w = (c, broadcast E START START_SUCCESS (activeServers c) True w)"

definition stop_all :: "'w control \<Rightarrow> ECSClient \<Rightarrow> 'w \<Rightarrow> ('w, bool) ecs_result" where
  "stop_all E c w = (c, broadcast E STOP STOP_SUCCESS (activeServers c) True w)"

fun await_polls :: "nat \<Rightarrow> (java_error + nat) list \<Rightarrow> java_error + nat \<Rightarrow> java_error + bool" where
  "await_polls wanted [] present = map_sum id (\<lambda>_. False) present"
| "await_polls wanted (Inl e # ps) present = Inl e"
| "await_polls wanted (Inr n # ps) present = (if n = wanted then Inr True else await_polls wanted ps present)"

definition awaitNodes :: "'w control \<Rightarrow> nat \<Rightarrow> nat \<Rightarrow> 'w \<Rightarrow> 'w \<times> (java_error + bool)" where
  "awaitNodes E wanted timeout w =
     (case ctlKeeper E timeout w of (w', ps, present) \<Rightarrow> (w', await_polls wanted ps present))"

text \<open>An exception while waiting counts as failure.\<close>

definition await_or_false :: "'w control \<Rightarrow> nat \<Rightarrow> nat \<Rightarrow> 'w \<Rightarrow> 'w \<times> bool" where
  "await_or_false E wanted timeout w =
     (case awaitNodes E wanted timeout w of (w', Inr b) \<Rightarrow> (w', b) | (w', Inl e) \<Rightarrow> (w', False))"

text \<open>
  \<open>shutdown_server\<close> on the servers not yet looked at; a server that does not confirm stays,
  and the search goes on behind it.
\<close>

fun shutdown_search :: "'w control \<Rightarrow> string \<Rightarrow> ECSNode list \<Rightarrow> ECSNode list \<Rightarrow> ECSClient \<Rightarrow> 'w \<Rightarrow> ('w, bool) ecs_result" where
  "shutdown_search E name seen [] c w = (c, w, Inr False)"
| "shutdown_search E name seen (n # ns) c w =
     (if nodeName n = name then
        (case ask_node E n (admin_msg None SHUTDOWN None None) w of
           (w1, Inl e) \<Rightarrow> (c, w1, Inl e)
         | (w1, Inr st) \<Rightarrow>
             if st \<noteq> Some SHUTDOWN_SUCCESS then shutdown_search E name (seen @ [n]) ns c w1
             else
               (let c1 = c\<lparr>idleServers := idleServers c @ [n], activeServers := seen @ ns\<rparr>
                in case await_or_false E (length (activeServers c1)) 20000 w1 of (w2, b) \<Rightarrow> (c1, w2, Inr b)))
      else shutdown_search E name (seen @ [n]) ns c w)"

definition shutdown_server :: "'w control \<Rightarrow> string \<Rightarrow> ECSClient \<Rightarrow> 'w \<Rightarrow> ('w, bool) ecs_result" where
  "shutdown_server E name c w = shutdown_search E name [] (activeServers c) c w"

text \<open>\<open>shutdown\<close> does not read the replies.\<close>

fun shutdown_each :: "'w control \<Rightarrow> ECSNode list \<Rightarrow> ECSClient \<Rightarrow> 'w \<Rightarrow> ('w, unit) ecs_result" where
  "shutdown_each E [] c w = (c, w, Inr ())"
| "shutdown_each E (n # ns) c w =
     (case open_node E (node_at n) w of
        (w1, Inl e) \<Rightarrow> (c, w1, Inl e)
      | (w1, Inr _) \<Rightarrow>
          shutdown_each E ns (c\<lparr>idleServers := idleServers c @ [n], activeServers := ns\<rparr>)
            (fst (ctlRequest E (node_at n) (admin_msg None SHUTDOWN None None) w1)))"

definition shutdown :: "'w control \<Rightarrow> ECSClient \<Rightarrow> 'w \<Rightarrow> ('w, bool) ecs_result" where
  "shutdown E c w =
     (case shutdown_each E (activeServers c) c w of
        (c1, w1, Inl e) \<Rightarrow> (c1, w1, Inl e)
      | (c1, w1, Inr _) \<Rightarrow> (case await_or_false E 0 10000 w1 of (w2, b) \<Rightarrow> (c1, w2, Inr b)))"

section \<open>Adding a server\<close>

text \<open>
  \<open>UpdateAllNodesMeta\<close>: every exception is caught.
\<close>

fun update_nodes :: "'w control \<Rightarrow> metadata option \<Rightarrow> ECSNode list \<Rightarrow> bool \<Rightarrow> 'w \<Rightarrow> 'w \<times> bool" where
  "update_nodes E md [] successful w = (w, successful)"
| "update_nodes E md (n # ns) successful w =
     (case ask_node E n (admin_msg None UPDATE md None) w of
        (w', Inl e) \<Rightarrow> update_nodes E md ns False w'
      | (w', Inr st) \<Rightarrow> update_nodes E md ns (successful \<and> st = Some UPDATE_SUCCESS) w')"

definition updateAllNodesMeta :: "'w control \<Rightarrow> ECSClient \<Rightarrow> 'w \<Rightarrow> 'w \<times> bool" where
  "updateAllNodesMeta E c w = update_nodes E (ecsMetadata c) (activeServers c) True w"

text \<open>The lookup in the metadata of the service; \<open>get_entry\<close> is one whose result is dereferenced.\<close>

definition lookup_node :: "(string \<Rightarrow> nat) \<Rightarrow> ECSClient \<Rightarrow> string \<Rightarrow> java_error + (string \<times> string) option" where
  "lookup_node hash c key =
     (case ecsMetadata c of None \<Rightarrow> Inl NullPointerException | Some md \<Rightarrow> getNodeByKey hash md key)"

definition get_entry :: "(string \<Rightarrow> nat) \<Rightarrow> ECSClient \<Rightarrow> string \<Rightarrow> java_error + (string \<times> string)" where
  "get_entry hash c key =
     (case lookup_node hash c key of
        Inl e \<Rightarrow> Inl e | Inr None \<Rightarrow> Inl NullPointerException | Inr (Some e) \<Rightarrow> Inr e)"

definition launch_command :: "string \<Rightarrow> ECSNode \<Rightarrow> string list" where
  "launch_command dir n =
     [''sh'', dir @ ''/src/app_kvECS/startnode.sh'', nodeHost n, dir @ ''/m4-server.jar'',
      show_base 10 (nodePort n), nodeName n]"

text \<open>
  Initialising and starting the new server over one connection; every exception is caught.
\<close>

definition init_and_start :: "'w control \<Rightarrow> metadata option \<Rightarrow> ECSNode \<Rightarrow> 'w \<Rightarrow> 'w" where
  "init_and_start E md n w =
     (case open_node E (node_at n) w of
        (w1, Inl e) \<Rightarrow> w1
      | (w1, Inr _) \<Rightarrow>
          (case ask E (node_at n) (admin_msg None INIT_SERVER md (Some (nodeName n))) w1 of
             (w2, Inl e) \<Rightarrow> w2
           | (w2, Inr _) \<Rightarrow> fst (ask E (node_at n) (admin_msg None START None None) w2)))"

text \<open>
  Having the successor move the range of the new server. In \<open>addNode\<close> an \<open>IOException\<close> is
  caught, in \<open>addNodes\<close> nothing is.
\<close>

definition ask_successor ::
  "(string \<Rightarrow> nat) \<Rightarrow> 'w control \<Rightarrow> ECSClient \<Rightarrow> (string \<times> string) option \<Rightarrow> ECSNode \<Rightarrow> 'w \<Rightarrow> 'w \<times> (java_error + unit)" where
  "ask_successor hash E c succ n w =
     (case succ of
        None \<Rightarrow> (w, Inl NullPointerException)
      | Some (saddr, _) \<Rightarrow>
          (case parse_address saddr of
             Inl e \<Rightarrow> (w, Inl e)
           | Inr a \<Rightarrow>
               (case open_node E a w of
                  (w1, Inl e) \<Rightarrow> (w1, Inl e)
                | (w1, Inr _) \<Rightarrow>
                    (case get_entry hash c (node_address n) of
                       Inl e \<Rightarrow> (w1, Inl e)
                     | Inr (_, rng) \<Rightarrow>
                         (case ask E a (admin_msg (Some (node_address n)) MOVE_DATA None (Some rng)) w1 of
                            (w2, Inl e) \<Rightarrow> (w2, Inl e)
                          | (w2, Inr _) \<Rightarrow> (w2, Inr ()))))))"

definition move_from_successor ::
  "(string \<Rightarrow> nat) \<Rightarrow> 'w control \<Rightarrow> ECSClient \<Rightarrow> (string \<times> string) option \<Rightarrow> ECSNode \<Rightarrow> 'w \<Rightarrow> 'w \<times> (java_error + unit)" where
  "move_from_successor hash E c succ n w =
     (case ask_successor hash E c succ n w of
        (w', Inl e) \<Rightarrow> (w', if e = IOException \<or> e = UnknownHostException then Inr () else Inl e)
      | (w', Inr _) \<Rightarrow> (w', Inr ()))"

text \<open>
  \<open>addNode\<close> after the choice of the idle server \<open>r\<close>. The successor is looked up in the metadata
  of the old ring, the range to move in those of the new one.
\<close>

definition activate :: "(string \<Rightarrow> nat) \<Rightarrow> 'w control \<Rightarrow> nat \<Rightarrow> ECSClient \<Rightarrow> 'w \<Rightarrow> ('w, ECSNode) ecs_result" where
  "activate hash E r c w =
     (let node = idleServers c ! r;
          w1 = ctlLaunch E (launch_command (ctlDir E) node) w;
          c1 = c\<lparr>idleServers := take r (idleServers c) @ drop (Suc r) (idleServers c)\<rparr>;
          w2 = fst (awaitNodes E (length (activeServers c1) + 1) 10000 w1)
      in case (if activeServers c1 \<noteq> [] then lookup_node hash c1 (node_address node) else Inr None) of
           Inl e \<Rightarrow> (c1, w2, Inl e)
         | Inr succ \<Rightarrow>
             (let c2 = c1\<lparr>ecsMetadata := Some (calc_metadata hash (activeServers c1 @ [node]))\<rparr>;
                  w3 = init_and_start E (ecsMetadata c2) node w2
              in case (if activeServers c2 \<noteq> [] then move_from_successor hash E c2 succ node w3 else (w3, Inr ())) of
                   (w4, Inl e) \<Rightarrow> (c2, w4, Inl e)
                 | (w4, Inr _) \<Rightarrow>
                     (let c3 = c2\<lparr>activeServers := activeServers c2 @ [node]\<rparr>
                      in (c3, fst (updateAllNodesMeta E c3 w4), Inr node))))"

text \<open>\<open>new Random().nextInt(n)\<close> is any number below \<open>n\<close>, and throws when \<open>n\<close> is zero.\<close>

definition addNode :: "(string \<Rightarrow> nat) \<Rightarrow> 'w control \<Rightarrow> ECSClient \<Rightarrow> 'w \<Rightarrow> ('w, ECSNode) ecs_result" where
  "addNode hash E c w =
     (if idleServers c = [] then (c, w, Inl IllegalArgumentException)
      else case ctlRandom E w of (w1, r) \<Rightarrow> activate hash E (r mod length (idleServers c)) c w1)"

section \<open>Removing servers\<close>

text \<open>
  The part of \<open>removeNode\<close> after the new metadata: the successor is told the metadata first,
  so that it takes the keys of the removed server. Every exception is caught.
\<close>

definition hand_over ::
  "'w control \<Rightarrow> ECSNode \<Rightarrow> string \<times> nat \<Rightarrow> string \<Rightarrow> ECSClient \<Rightarrow> 'w \<Rightarrow> ECSClient \<times> 'w" where
  "hand_over E n a rng c w =
     (let w1 = (case open_node E a w of
          (w', Inl e) \<Rightarrow> w'
        | (w', Inr _) \<Rightarrow> fst (ask E a (admin_msg None UPDATE (ecsMetadata c) None) w'))
      in case ask_node E n (admin_msg (Some (show_address (fst a) (snd a))) MOVE_DATA None (Some rng)) w1 of
           (w2, Inl e) \<Rightarrow> (c, w2)
         | (w2, Inr _) \<Rightarrow>
             (case shutdown_server E (nodeName n) c (fst (updateAllNodesMeta E c w2)) of (c', w3, _) \<Rightarrow> (c', w3)))"

definition removeNode :: "(string \<Rightarrow> nat) \<Rightarrow> 'w control \<Rightarrow> string \<Rightarrow> ECSClient \<Rightarrow> 'w \<Rightarrow> ('w, bool) ecs_result" where
  "removeNode hash E name c w =
     (case find (\<lambda>n. nodeName n = name) (activeServers c) of
        None \<Rightarrow> (c, w, Inr False)
      | Some n \<Rightarrow>
          (case get_entry hash c (node_address n) of
             Inl e \<Rightarrow> (c, w, Inl e)
           | Inr (_, removeRange) \<Rightarrow>
               (let c1 = c\<lparr>ecsMetadata := Some (calc_metadata hash (remove1 n (activeServers c)))\<rparr>
                in case get_entry hash c1 (node_address n) of
                     Inl e \<Rightarrow> (c1, w, Inl e)
                   | Inr (saddr, _) \<Rightarrow>
                       (case parse_address saddr of
                          Inl e \<Rightarrow> (c1, w, Inl e)
                        | Inr a \<Rightarrow> (case hand_over E n a removeRange c1 w of (c2, w2) \<Rightarrow> (c2, w2, Inr True))))))"

text \<open>
  \<open>addNodes\<close>: all servers are launched first, and then activated one after the other.
\<close>

fun launch_nodes :: "'w control \<Rightarrow> nat \<Rightarrow> ECSClient \<Rightarrow> 'w \<Rightarrow> ('w, ECSNode list) ecs_result" where
  "launch_nodes E 0 c w = (c, w, Inr [])"
| "launch_nodes E (Suc k) c w =
     (if idleServers c = [] then (c, w, Inl IllegalArgumentException)
      else case ctlRandom E w of (w1, r0) \<Rightarrow>
        (let r = r0 mod length (idleServers c); node = idleServers c ! r;
             c1 = c\<lparr>activatingServers := activatingServers c @ [node],
                    idleServers := take r (idleServers c) @ drop (Suc r) (idleServers c)\<rparr>
         in case launch_nodes E k c1 (ctlLaunch E (launch_command (ctlDir E) node) w1) of
              (c2, w2, out) \<Rightarrow> (c2, w2, map_sum id (Cons node) out)))"

fun activate_each ::
  "(string \<Rightarrow> nat) \<Rightarrow> 'w control \<Rightarrow> ECSNode list \<Rightarrow> ECSNode list \<Rightarrow> ECSClient \<Rightarrow> 'w \<Rightarrow> ('w, unit) ecs_result" where
  "activate_each hash E thServers [] c w = (c, w, Inr ())"
| "activate_each hash E thServers (n # ns) c w =
     (case (if activeServers c \<noteq> [] then lookup_node hash c (node_address n) else Inr None) of
        Inl e \<Rightarrow> (c, w, Inl e)
      | Inr succ \<Rightarrow>
          (let c1 = c\<lparr>ecsMetadata := Some (calc_metadata hash (thServers @ [n]))\<rparr>;
               w1 = init_and_start E (ecsMetadata c1) n w
           in if activeServers c1 = [] then activate_each hash E (thServers @ [n]) ns c1 w1
              else case ask_successor hash E c1 succ n w1 of
                (w2, Inl e) \<Rightarrow> (c1, w2, Inl e)
              | (w2, Inr _) \<Rightarrow>
                  activate_each hash E (thServers @ [n]) ns c1 (fst (updateAllNodesMeta E c1 w2))))"

definition addNodes :: "(string \<Rightarrow> nat) \<Rightarrow> 'w control \<Rightarrow> nat \<Rightarrow> ECSClient \<Rightarrow> 'w \<Rightarrow> ('w, ECSNode list) ecs_result" where
  "addNodes hash E k c w =
     (case launch_nodes E k c w of
        (c1, w1, Inl e) \<Rightarrow> (c1, w1, Inl e)
      | (c1, w1, Inr inodes) \<Rightarrow>
          (let w2 = fst (awaitNodes E (length (activeServers c1) + length (activatingServers c1)) 10000 w1)
           in case activate_each hash E (activeServers c1) (activatingServers c1) c1 w2 of
                (c3, w3, Inl e) \<Rightarrow> (c3, w3, Inl e)
              | (c3, w3, Inr _) \<Rightarrow>
                  (c3\<lparr>activeServers := activeServers c3 @ activatingServers c3, activatingServers := []\<rparr>, w3, Inr inodes)))"

text \<open>
  \<open>removeNodes\<close> for one name on the servers not yet looked at; \<open>seen\<close> are those that stay.
  \<open>thServers\<close> is indexed by the position in the active servers. The metadata of the successor
  are optional here, and the address the data are sent to is that of the removed server.
\<close>

definition tell_successor :: "'w control \<Rightarrow> metadata option \<Rightarrow> string \<Rightarrow> 'w \<Rightarrow> 'w" where
  "tell_successor E md saddr w =
     (case parse_address saddr of
        Inl e \<Rightarrow> w
      | Inr a \<Rightarrow>
          (case open_node E a w of
             (w', Inl e) \<Rightarrow> w'
           | (w', Inr _) \<Rightarrow> fst (ask E a (admin_msg None UPDATE md None) w')))"

text \<open>Moving the data and shutting down over one connection: whether the server confirmed.\<close>

definition move_and_shutdown :: "'w control \<Rightarrow> ECSNode \<Rightarrow> (string \<times> string) option \<Rightarrow> 'w \<Rightarrow> 'w \<times> bool" where
  "move_and_shutdown E n succ w =
     (case open_node E (node_at n) w of
        (w1, Inl e) \<Rightarrow> (w1, False)
      | (w1, Inr _) \<Rightarrow>
          (case (case succ of
                   None \<Rightarrow> (w1, Inr None)
                 | Some (_, rng) \<Rightarrow> ask E (node_at n) (admin_msg (Some (node_address n)) MOVE_DATA None (Some rng)) w1) of
             (w2, Inl e) \<Rightarrow> (w2, False)
           | (w2, Inr _) \<Rightarrow>
               (case ask E (node_at n) (admin_msg None SHUTDOWN None None) w2 of
                  (w3, Inl e) \<Rightarrow> (w3, False)
                | (w3, Inr st) \<Rightarrow> (w3, st = Some SHUTDOWN_SUCCESS))))"

fun remove_named ::
  "(string \<Rightarrow> nat) \<Rightarrow> 'w control \<Rightarrow> string \<Rightarrow> ECSNode list \<Rightarrow> ECSNode list \<Rightarrow> ECSNode list \<Rightarrow> ECSClient \<Rightarrow> 'w \<Rightarrow> ('w, ECSNode list) ecs_result" where
  "remove_named hash E name thServers seen [] c w = (c, w, Inr thServers)"
| "remove_named hash E name thServers seen (n # ns) c w =
     (if nodeName n \<noteq> name then remove_named hash E name thServers (seen @ [n]) ns c w
      else if length thServers \<le> length seen then (c, w, Inl IndexOutOfBoundsException)
      else
        (let th = take (length seen) thServers @ drop (Suc (length seen)) thServers;
             c1 = c\<lparr>ecsMetadata := Some (calc_metadata hash th)\<rparr>
         in case lookup_node hash c1 (node_address n) of
              Inl e \<Rightarrow> (c1, w, Inl e)
            | Inr succ \<Rightarrow>
                (let w1 = (case succ of None \<Rightarrow> w | Some (saddr, _) \<Rightarrow> tell_successor E (ecsMetadata c1) saddr w)
                 in case move_and_shutdown E n succ w1 of
                      (w2, True) \<Rightarrow>
                        (let c2 = c1\<lparr>idleServers := idleServers c1 @ [n], activeServers := seen @ ns\<rparr>
                         in remove_named hash E name th seen ns c2 (fst (updateAllNodesMeta E c2 w2)))
                    | (w2, False) \<Rightarrow>
                        remove_named hash E name th (seen @ [n]) ns c1 (fst (updateAllNodesMeta E c1 w2)))))"

fun remove_names ::
  "(string \<Rightarrow> nat) \<Rightarrow> 'w control \<Rightarrow> string list \<Rightarrow> ECSNode list \<Rightarrow> ECSClient \<Rightarrow> 'w \<Rightarrow> ('w, bool) ecs_result" where
  "remove_names hash E [] thServers c w = (c, w, Inr False)"
| "remove_names hash E (name # names) thServers c w =
     (case remove_named hash E name thServers [] (activeServers c) c w of
        (c', w', Inl e) \<Rightarrow> (c', w', Inl e)
      | (c', w', Inr th) \<Rightarrow> remove_names hash E names th c' w')"

definition removeNodes :: "(string \<Rightarrow> nat) \<Rightarrow> 'w control \<Rightarrow> string list \<Rightarrow> ECSClient \<Rightarrow> 'w \<Rightarrow> ('w, bool) ecs_result" where
  "removeNodes hash E nodeNames c w = remove_names hash E nodeNames (activeServers c) c w"

section \<open>Commands\<close>

text \<open>The repetition of \<open>addNode\<close> in the command \<open>addNodes\<close> and the addresses it answers with.\<close>

fun add_repeatedly :: "(string \<Rightarrow> nat) \<Rightarrow> 'w control \<Rightarrow> nat \<Rightarrow> string \<Rightarrow> ECSClient \<Rightarrow> 'w \<Rightarrow> ('w, string) ecs_result" where
  "add_repeatedly hash E 0 addrs c w = (c, w, Inr addrs)"
| "add_repeatedly hash E (Suc k) addrs c w =
     (case addNode hash E c w of
        (c', w', Inl e) \<Rightarrow> (c', w', Inl e)
      | (c', w', Inr n) \<Rightarrow>
          add_repeatedly hash E k (addrs @ '' '' @ node_address n @ '':'' @ nodeName n) c' w')"

definition ecs_level :: "string \<Rightarrow> ECSClient \<Rightarrow> ECSClient \<times> string" where
  "ecs_level level c =
     (if level \<in> set [''ALL'', ''DEBUG'', ''INFO'', ''WARN'', ''ERROR'', ''FATAL'', ''OFF'']
      then (c\<lparr>ecsLevel := level\<rparr>, level) else (c, ''UnknownLevel''))"

definition add_nodes_command :: "(string \<Rightarrow> nat) \<Rightarrow> 'w control \<Rightarrow> string list \<Rightarrow> ECSClient \<Rightarrow> 'w \<Rightarrow> ('w, string option) ecs_result" where
  "add_nodes_command hash E tokens c w =
     (if length tokens \<noteq> 2 then (c, w, Inr (Some ''Invalid number of parameters!''))
      else if idleServers c = [] then (c, w, Inr (Some ''No servers available!''))
      else case parse_int (tokens ! 1) of
        None \<Rightarrow> (c, w, Inl NumberFormatException)
      | Some k \<Rightarrow>
          if int (length (idleServers c)) < k then
            (c, w, Inr (Some (''Not enough servers available! '' @ show_base 10 (length (idleServers c)) @ '' servers available.'')))
          else (case add_repeatedly hash E (nat k) [] c w of (c', w', r) \<Rightarrow> (c', w', map_sum id Some r)))"

definition remove_node_command :: "(string \<Rightarrow> nat) \<Rightarrow> 'w control \<Rightarrow> string list \<Rightarrow> ECSClient \<Rightarrow> 'w \<Rightarrow> ('w, string option) ecs_result" where
  "remove_node_command hash E tokens c w =
     (if length tokens \<noteq> 2 then (c, w, Inr (Some ''Invalid number of parameters!''))
      else if activeServers c = [] then (c, w, Inr (Some ''No servers running!''))
      else if length (activeServers c) = 1 then
        (c, w, Inr (Some (''Only one server running, run '' @ [CHR 0x27] @ ''shutDown'' @ [CHR 0x27] @ '' to close the last node'')))
      else (case removeNode hash E (tokens ! 1) c w of (c', w', r) \<Rightarrow> (c', w', map_sum id (\<lambda>_. Some ''start'') r)))"

definition ecs_command :: "(string \<Rightarrow> nat) \<Rightarrow> 'w control \<Rightarrow> string \<Rightarrow> ECSClient \<Rightarrow> 'w \<Rightarrow> ('w, string option) ecs_result" where
  "ecs_command hash E cmdLine c w =
     (let tokens = tokens_of cmdLine;
          answer = (\<lambda>c t. (c, w, Inr (Some t)));
          report = (\<lambda>good bad (c', w', r). (c', w', map_sum id (\<lambda>b. Some (if b then good else bad)) r))
      in case tokens of
           [] \<Rightarrow> (c, w, Inl ArrayIndexOutOfBoundsException)
         | cmd # _ \<Rightarrow>
             if cmd = ''quit'' then answer (c\<lparr>ecsStop := True\<rparr>) ''Application exit''
             else if cmd = ''start'' then
               report ''All activated servers started'' ''Not all activated servers started'' (start_all E c w)
             else if cmd = ''stop'' then
               report ''All activated servers stopped'' ''Not all activated servers stopped'' (stop_all E c w)
             else if cmd = ''shutDown'' then
               report ''All activated servers shut down'' ''Not all activated servers shut down'' (shutdown E c w)
             else if cmd = ''addNodes'' then add_nodes_command hash E tokens c w
             else if cmd = ''addNode'' then
               (if length tokens \<noteq> 1 then answer c ''Invalid number of parameters!''
                else if idleServers c = [] then answer c ''No servers available!''
                else case addNode hash E c w of
                  (c', w', r) \<Rightarrow>
                    (c', w', map_sum id (\<lambda>n. Some (''Added node '' @ nodeName n @ '' at '' @ node_address n)) r))
             else if cmd = ''removeNode'' then remove_node_command hash E tokens c w
             else if cmd = ''logLevel'' then
               (if length tokens = 2 then
                  (case ecs_level (tokens ! 1) c of
                     (c', level) \<Rightarrow>
                       if level = ''UnknownLevel'' then answer c' ''No valid log level!''
                       else answer c' (''ECSClient> Log level changed to level '' @ level))
                else answer c ''Invalid number of parameters!'')
             else if cmd = ''help'' then (c, w, Inr None)
             else answer c ''Unknown command'')"

text \<open>The loop of \<open>run\<close>: an exception ends the program, and so does the end of the input.\<close>

fun run_commands :: "(string \<Rightarrow> nat) \<Rightarrow> 'w control \<Rightarrow> string list \<Rightarrow> ECSClient \<Rightarrow> 'w \<Rightarrow> ECSClient \<times> 'w \<times> java_error option" where
  "run_commands hash E [] c w = (c, w, if ecsStop c then None else Some NullPointerException)"
| "run_commands hash E (l # ls) c w =
     (if ecsStop c then (c, w, None)
      else case ecs_command hash E l c w of
        (c', w', Inl e) \<Rightarrow> (c', w', Some e)
      | (c', w', Inr _) \<Rightarrow> run_commands hash E ls c' w')"

section \<open>A cluster under the control of the service\<close>

text \<open>
  A server process as \<open>main\<close> starts it: stopped, and without metadata until it is
  initialised. Its host name is fixed in the source.
\<close>

definition new_KVServer :: "nat \<Rightarrow> KVStorage \<Rightarrow> KVServer" where
  "new_KVServer port st =
     \<lparr>srvHost = ''127.0.0.1'', srvPort = port, stopped = False, writeLock = False, running = False,
      srvMetadata = None, dataToFlush = [], srvStorage = initializeStorage st, published = []\<rparr>"

text \<open>
  \<open>main\<close> and the start of \<open>run\<close> once the port is bound; \<open>disk\<close> holds the storage files. In the
  other cases the process ends.
\<close>

definition server_main :: "(string \<Rightarrow> KVStorage) \<Rightarrow> string list \<Rightarrow> KVServer option" where
  "server_main disk args =
     (if length args \<noteq> 4 then None
      else case (parse_int (args ! 0), parse_int (args ! 1)) of
        (Some port, Some cacheSize) \<Rightarrow>
          if 0 \<le> port \<and> port \<le> 65535
          then Some ((setStop (new_KVServer (nat port) (disk (args ! 3))))\<lparr>KVServer.running := True\<rparr>)
          else None
      | _ \<Rightarrow> None)"

text \<open>The end of \<open>run\<close>, once the port is closed: what the process leaves on disk.\<close>

definition server_exit :: "KVServer \<Rightarrow> KVStorage" where
  "server_exit s = clearKVStorage (srvStorage s)"

text \<open>
  The script \<open>startnode.sh\<close>, on hosts that can all be reached; the server it starts is up at
  once. A script that is slow or fails is another \<open>control\<close>.
\<close>

definition launch_server :: "(string \<Rightarrow> KVStorage) \<Rightarrow> string list \<Rightarrow> cluster \<Rightarrow> cluster" where
  "launch_server disk cmd w =
     (case cmd of
        [_, _, host, jar, port, name] \<Rightarrow>
          (case server_main disk [port, ''100'', ''FIFO'', name] of
             None \<Rightarrow> w
           | Some s \<Rightarrow> if w (host, srvPort s) = None then w((host, srvPort s) \<mapsto> s) else w)
      | _ \<Rightarrow> w)"

text \<open>
  A server that moves data is locked for its peers from the first statement on. A server that
  is shut down is gone; whether its reply still arrives is \<open>confirms\<close>.
\<close>

definition peers_view :: "KVAdminMsg \<Rightarrow> KVServer \<Rightarrow> KVServer" where
  "peers_view m s =
     (if admStatus m = Some MOVE_DATA \<and> admRange m \<noteq> None \<and> admServer m \<noteq> None then lockWrite s else s)"

definition cluster_request ::
  "(string \<Rightarrow> nat) \<Rightarrow> bool \<Rightarrow> string \<times> nat \<Rightarrow> KVAdminMsg \<Rightarrow> cluster \<Rightarrow> cluster \<times> KVAdminMsg option" where
  "cluster_request hash confirms a m w =
     (case w a of
        None \<Rightarrow> (w, None)
      | Some s \<Rightarrow>
          (case adminServe hash (cluster_network hash) s (w(a \<mapsto> peers_view m s)) m of
             (s', w', reply) \<Rightarrow>
               if admStatus m = Some SHUTDOWN then (w'(a := None), if confirms then reply else None)
               else (w'(a \<mapsto> s'), reply)))"

definition cluster_control ::
  "(string \<Rightarrow> nat) \<Rightarrow> (string \<Rightarrow> KVStorage) \<Rightarrow> bool \<Rightarrow> nat \<Rightarrow> (nat \<Rightarrow> (java_error + nat) list \<times> (java_error + nat)) \<Rightarrow> string \<Rightarrow> cluster control" where
  "cluster_control hash disk confirms choice polls dir =
     \<lparr>ctlConnect = (\<lambda>a w. (w, if w a = None then Inl IOException else Inr ())),
      ctlRequest = cluster_request hash confirms,
      ctlLaunch = launch_server disk,
      ctlRandom = (\<lambda>w. (w, choice)),
      ctlKeeper = (\<lambda>timeout w. (w, polls timeout)),
      ctlDir = dir\<rparr>"

end
