(* ===== verification/EcsRing.thy ===== *)
theory EcsRing
  imports EcsControl
begin

text \<open>
  What the operations of the configuration service rest on: how the ring changes by one
  position, what \<open>moveData\<close> does in a cluster of servers, and how the servers of a cluster
  answer the messages of the service.
\<close>

section \<open>The ring when a node comes or goes\<close>

text \<open>
  From \<open>k\<close> clockwise, \<open>a\<close> comes no later than \<open>b\<close>. The owner of a hash is the position that
  comes first, so it is a matter of the set of positions.
\<close>

definition nearer :: "int \<Rightarrow> int \<Rightarrow> int \<Rightarrow> bool" where
  "nearer k a b \<longleftrightarrow> (if (k \<le> a) = (k \<le> b) then a \<le> b else k \<le> a)"

lemma nearer_antisym: "nearer k a b \<Longrightarrow> nearer k b a \<Longrightarrow> a = b"
  by (auto simp: nearer_def split: if_splits)

lemma ring_owner_nearest:
  assumes s: "sorted_wrt (<) hs" and ne: "hs \<noteq> []"
  shows "ring_owner hs k \<in> set hs \<and> (\<forall>h \<in> set hs. nearer k (ring_owner hs k) h)"
  using s ne
proof (cases rule: ring_owner_cases [where k = k])
  case wrap
  have "hs ! 0 \<le> h \<and> h < k" if "h \<in> set hs" for h
  proof -
    from that obtain j where j: "j < length hs" "h = hs ! j" by (auto simp: in_set_conv_nth)
    then have "hs ! 0 \<le> hs ! j" "hs ! j \<le> hs ! (length hs - 1)"
      by (auto intro!: strict_sorted_nth_le [OF s])
    with wrap(1) ne j show ?thesis by (simp add: last_conv_nth)
  qed
  moreover have "hs ! 0 \<in> set hs" using ne by simp
  ultimately show ?thesis unfolding nearer_def wrap(2) by (metis linorder_not_le)
next
  case (at i)
  have "nearer k (hs ! i) h" if "h \<in> set hs" for h
  proof -
    from that obtain j where j: "j < length hs" "h = hs ! j" by (auto simp: in_set_conv_nth)
    show ?thesis
    proof (cases "i \<le> j")
      case True
      then show ?thesis using strict_sorted_nth_le [OF s True j(1)] at(3) j(2) by (auto simp: nearer_def)
    next
      case False
      then have "hs ! j \<le> hs ! (i - 1)" using strict_sorted_nth_le [OF s, of j "i - 1"] at(1) by simp
      then show ?thesis using at False j(2) by (auto simp: nearer_def)
    qed
  qed
  then show ?thesis using at by simp
qed

lemma ring_owner_unique:
  assumes "sorted_wrt (<) hs" "m \<in> set hs" "\<forall>h \<in> set hs. nearer k m h"
  shows "ring_owner hs k = m"
proof -
  have "hs \<noteq> []" using assms(2) by auto
  from ring_owner_nearest [OF assms(1) this, of k] assms(2,3) show ?thesis by (metis nearer_antisym)
qed

text \<open>A new position takes over hashes of one other position only, its own successor.\<close>

lemma ring_owner_insert:
  assumes "sorted_wrt (<) hs" "sorted_wrt (<) hs'" "hs \<noteq> []" "set hs' = insert x (set hs)"
  shows "ring_owner hs' k = x \<and> ring_owner hs k = ring_owner hs x \<or> ring_owner hs' k = ring_owner hs k"
proof -
  let ?o = "ring_owner hs' k" and ?p = "ring_owner hs k"
  have ne': "hs' \<noteq> []" using assms(4) by auto
  from ring_owner_nearest [OF assms(2) ne', of k] assms(4)
  have o: "?o = x \<or> ?o \<in> set hs" "\<forall>h \<in> insert x (set hs). nearer k ?o h" by auto
  from ring_owner_nearest [OF assms(1,3), of k] have p: "?p \<in> set hs" "\<forall>h \<in> set hs. nearer k ?p h" by auto
  show ?thesis
  proof (cases "?o = x")
    case True
    have "nearer x ?p h" if h: "h \<in> set hs" for h
    proof -
      have "nearer k x h" "nearer k x ?p" "nearer k ?p h" using o(2) p h True by auto
      then show ?thesis by (auto simp: nearer_def split: if_splits)
    qed
    with True p(1) show ?thesis using ring_owner_unique [OF assms(1), of ?p x] by auto
  next
    case False
    with o have "?o \<in> set hs" "\<forall>h \<in> set hs. nearer k ?o h" by auto
    then show ?thesis using ring_owner_unique [OF assms(1)] by metis
  qed
qed

lemma shared_hash_set:
  assumes "sorted_wrt (<) hs"
  shows "shared_hash hs k \<longleftrightarrow> (\<exists>p \<in> set hs. (\<exists>q \<in> set hs. p < q) \<and> (k = p \<or> k = p - 1))"
proof (cases hs rule: rev_cases)
  case Nil
  then show ?thesis by (simp add: shared_hash_def)
next
  case (snoc ys y)
  then have "\<forall>x \<in> set ys. x < y" using assms by (auto simp: sorted_wrt_append)
  then show ?thesis unfolding shared_hash_def snoc by fastforce
qed

text \<open>
  An address whose hash is at least three away from those of the nodes (but its own): the
  lookup of \<open>ECSClient\<close> finds the owner of its hash, and the range of that owner.
\<close>

definition apart :: "(string \<Rightarrow> nat) \<Rightarrow> ECSNode list \<Rightarrow> ECSNode \<Rightarrow> bool" where
  "apart hash nodes n \<longleftrightarrow>
     (\<forall>n' \<in> set nodes. n' \<noteq> n \<longrightarrow> 3 \<le> \<bar>computeHash hash (node_address n') - computeHash hash (node_address n)\<bar>)"

lemma lookup_entry:
  assumes ok: "ring_ok hash nodes" and ne: "nodes \<noteq> []"
    and m: "mset m = mset (calc_metadata hash nodes)" and gap: "apart hash nodes n"
  obtains i s where "i < length nodes" "s \<in> set nodes" "ring_hashes hash nodes ! i = computeHash hash (node_address s)"
    "ring_owner (ring_hashes hash nodes) (computeHash hash (node_address n)) = ring_hashes hash nodes ! i"
    "getNodeByKey hash m (node_address n) = Inr (Some (node_address s, server_range (ring_hashes hash nodes) i))"
proof -
  let ?hs = "ring_hashes hash nodes" and ?p = "computeHash hash (node_address n)"
  obtain i s where i: "i < length nodes" "s \<in> set nodes" "?hs ! i = computeHash hash (node_address s)"
    "find_in_range (?p - 2) m = Inr (Some (node_address s, server_range ?hs i))"
    "range_has (server_range ?hs i) (?p - 2)"
    using ok ne m by (rule find_in_range_ring)
  have s: "sorted_wrt (<) ?hs" using ok by (rule ring_hashes_strict)
  have far: "h = ?p \<or> 3 \<le> \<bar>h - ?p\<bar>" if h: "h \<in> set ?hs" for h
    using h gap by (auto simp: apart_def)
  have "ring_owner ?hs (?p - 2) = ?hs ! i"
  proof (rule ccontr)
    assume "ring_owner ?hs (?p - 2) \<noteq> ?hs ! i"
    with i ok have *: "0 < i" "?p - 2 = ?hs ! (i - 1) \<or> ?p - 2 = ?hs ! (i - 1) - 1"
      by (auto simp: range_has_server_range)
    have "?hs ! (i - 1) \<in> set ?hs" using i(1) by (intro nth_mem) simp
    from far [OF this] * show False by auto
  qed
  moreover have "ring_owner ?hs (?p - 2) = ring_owner ?hs ?p"
  proof -
    have hne: "?hs \<noteq> []" using ne by (metis length_0_conv length_ring_hashes)
    from ring_owner_nearest [OF s hne, of ?p] have o: "ring_owner ?hs ?p \<in> set ?hs"
      "\<forall>h \<in> set ?hs. nearer ?p (ring_owner ?hs ?p) h" by auto
    have "nearer (?p - 2) (ring_owner ?hs ?p) h" if h: "h \<in> set ?hs" for h
      using far [OF h] far [OF o(1)] o(2) h by (fastforce simp: nearer_def split: if_splits)
    with o(1) show ?thesis by (intro ring_owner_unique [OF s]) auto
  qed
  ultimately show thesis using that i by (simp add: getNodeByKey_def computeHash_def)
qed

section \<open>Moving data inside a cluster\<close>

lemma cluster_network_connect [simp]:
  "netConnect (cluster_network hash) a w = (w, if w a = None then Inl IOException else Inr ())"
  by (simp add: cluster_network_def)

lemma netRequest_cluster:
  "w a = Some d \<Longrightarrow> serve hash d (Some m) = (d', Inr r) \<Longrightarrow>
     netRequest (cluster_network hash) a m w = (w(a \<mapsto> d'), Inr r)"
  by (simp add: cluster_network_def)

text \<open>In a cluster the transfer touches the receiving server only.\<close>

lemma move_keys_cluster:
  "move_keys hash (server_network hash) addr rng ob s d = (s', d', Inr ()) \<Longrightarrow> w addr = Some d \<Longrightarrow>
     move_keys hash (cluster_network hash) addr rng ob s w = (s', w(addr \<mapsto> d'), Inr ())"
proof (induction ob arbitrary: s d w)
  case Nil
  then show ?case by (simp add: fun_upd_idem)
next
  case (Cons p ob)
  obtain key val where p: "p = (key, val)" by fastforce
  obtain d1 r1 where d1: "serve hash d (Some (put_request key (Some val))) = (d1, r1)" by fastforce
  show ?case
  proof (cases "\<exists>rs re. parse_range rng = Inr (rs, re) \<and> range_test rs re (int (hash key))")
    case True
    then obtain rs re where r: "parse_range rng = Inr (rs, re)" "range_test rs re (int (hash key))" by blast
    then obtain reply where r1: "r1 = Inr (Some reply)"
      and m: "move_keys hash (server_network hash) addr rng ob (s\<lparr>dataToFlush := dataToFlush s @ [key]\<rparr>) d1 = (s', d', Inr ())"
      using Cons.prems(1) d1 by (auto simp: p Let_def server_network_def split: sum.splits option.splits)
    have "move_keys hash (cluster_network hash) addr rng ob (s\<lparr>dataToFlush := dataToFlush s @ [key]\<rparr>) (w(addr \<mapsto> d1))
        = (s', w(addr \<mapsto> d'), Inr ())"
      using Cons.IH [OF m, of "w(addr \<mapsto> d1)", OF fun_upd_same] by (simp only: fun_upd_upd)
    then show ?thesis using r netRequest_cluster [where w = w and a = addr, OF Cons.prems(2), of hash _ d1 "Some reply"] d1 r1
      by (simp add: p Let_def fun_upd_def)
  next
    case False
    with Cons.prems Cons.IH show ?thesis by (auto simp: p split: sum.splits prod.splits if_splits)
  qed
qed

lemma moveData_cluster:
  assumes "moveData hash (server_network hash) rng sendTo s d = (s', d', Inr ())"
    and "parse_address sendTo = Inr addr" and "w addr = Some d"
  shows "moveData hash (cluster_network hash) rng sendTo s w = (s', w(addr \<mapsto> d'), Inr ())"
proof -
  let ?ob = "snd (getKVObject (srvStorage (lockWrite s)))"
  let ?s = "(lockWrite s)\<lparr>srvStorage := fst (getKVObject (srvStorage (lockWrite s)))\<rparr>"
  obtain s3 d3 r3 where m: "move_keys hash (server_network hash) addr rng ?ob ?s d = (s3, d3, r3)"
    by (rule prod_cases3)
  obtain s4 r4 where f: "flushServer s3 = (s4, r4)" by fastforce
  from assms(1,2) m f have r: "r3 = Inr ()" "r4 = Inr ()" "d3 = d'" "s' = unLockWrite s4"
    by (auto simp: moveData_def Let_def case_prod_beta split: sum.splits)
  from move_keys_cluster [where w = w, OF m [unfolded r] assms(3)] f r assms(2,3) show ?thesis
    by (simp add: moveData_def Let_def case_prod_beta)
qed

section \<open>Administration messages in a cluster\<close>

lemma cluster_control_simps [simp]:
  "ctlConnect (cluster_control h d cf ch p dir) a w = (w, if w a = None then Inl IOException else Inr ())"
  "ctlRequest (cluster_control h d cf ch p dir) = cluster_request h cf"
  "ctlLaunch (cluster_control h d cf ch p dir) = launch_server d"
  "ctlRandom (cluster_control h d cf ch p dir) w = (w, ch)"
  "ctlKeeper (cluster_control h d cf ch p dir) t w = (w, p t)"
  "ctlDir (cluster_control h d cf ch p dir) = dir"
  by (simp_all add: cluster_control_def)

lemma await_cluster [simp]:
  "fst (awaitNodes (cluster_control h d cf ch p dir) k t w) = w"
  "fst (await_or_false (cluster_control h d cf ch p dir) k t w) = w"
  by (auto simp: awaitNodes_def await_or_false_def split: prod.splits sum.splits)

text \<open>The answers of a server to the messages that only change its own state.\<close>

lemma request_init:
  "w a = Some s \<Longrightarrow> cluster_request h cf a (admin_msg None INIT_SERVER (Some md) r) w =
     (w(a \<mapsto> initKVServer md s), Some (admin_reply (Some INIT_SERVER_SUCCESS)))"
  by (simp add: cluster_request_def admin_msg_def peers_view_def adminServe_def)

lemma request_update:
  "w a = Some s \<Longrightarrow> cluster_request h cf a (admin_msg None UPDATE (Some md) None) w =
     (w(a \<mapsto> update_metadata md s), Some (admin_reply (Some UPDATE_SUCCESS)))"
  by (simp add: cluster_request_def admin_msg_def peers_view_def adminServe_def)

lemma request_start:
  "w a = Some s \<Longrightarrow> cluster_request h cf a (admin_msg None START None None) w =
     (w(a \<mapsto> setStart s), Some (admin_reply (Some START_SUCCESS)))"
  by (simp add: cluster_request_def admin_msg_def peers_view_def adminServe_def)

lemma request_stop:
  "w a = Some s \<Longrightarrow> cluster_request h cf a (admin_msg None STOP None None) w =
     (w(a \<mapsto> setStop s), Some (admin_reply (Some STOP_SUCCESS)))"
  by (simp add: cluster_request_def admin_msg_def peers_view_def adminServe_def)

lemma request_shutdown:
  "w a = Some s \<Longrightarrow> cluster_request h cf a (admin_msg None SHUTDOWN None None) w =
     (w(a := None), if cf then Some (admin_reply (Some SHUTDOWN_SUCCESS)) else None)"
  by (simp add: cluster_request_def admin_msg_def peers_view_def adminServe_def)

text \<open>A move to another server of the cluster.\<close>

lemma request_move:
  assumes "w a = Some s" "w b = Some d" "a \<noteq> b" "parse_address sendTo = Inr b"
    and "moveData h (server_network h) rng sendTo s d = (s', d', Inr ())"
  shows "cluster_request h cf a (admin_msg (Some sendTo) MOVE_DATA None (Some rng)) w =
    (w(a \<mapsto> s', b \<mapsto> d'), Some (admin_reply (Some MOVE_DATA_SUCCESS)))"
proof -
  have "(w(a \<mapsto> lockWrite s)) b = Some d" using assms(2,3) by simp
  from moveData_cluster [where w = "w(a \<mapsto> lockWrite s)", OF assms(5,4) this] assms(1,3) show ?thesis
    by (auto simp: cluster_request_def admin_msg_def peers_view_def adminServe_def fun_upd_twist)
qed

lemma admin_reply_status [simp]: "admStatus (admin_reply st) = st"
  by (simp add: admin_reply_def)

lemma ask_cluster:
  "cluster_request h cf a m w = (w', Some (admin_reply st)) \<Longrightarrow>
     ask (cluster_control h d cf ch p dir) a m w = (w', Inr st)"
  by (simp add: ask_def)

lemma open_cluster:
  "w a = Some s \<Longrightarrow> snd a \<le> 65535 \<Longrightarrow> open_node (cluster_control h d cf ch p dir) a w = (w, Inr ())"
  by (simp add: open_node_def)

lemma ask_node_cluster:
  "cluster_request h cf (node_at n) m w = (w', Some (admin_reply st)) \<Longrightarrow> w (node_at n) = Some s \<Longrightarrow> nodePort n \<le> 65535 \<Longrightarrow>
     ask_node (cluster_control h d cf ch p dir) n m w = (w', Inr st)"
  by (simp add: ask_node_def open_cluster ask_cluster)

text \<open>Every node of a list can be reached.\<close>

definition up :: "ECSNode list \<Rightarrow> cluster \<Rightarrow> bool" where
  "up ns w \<longleftrightarrow> (\<forall>n \<in> set ns. nodePort n \<le> 65535 \<and> w (node_at n) \<noteq> None)"

text \<open>A broadcast changes every server of the list in the same way.\<close>

definition at_nodes :: "ECSNode list \<Rightarrow> (KVServer \<Rightarrow> KVServer) \<Rightarrow> cluster \<Rightarrow> cluster" where
  "at_nodes ns f w = (\<lambda>a. if a \<in> node_at ` set ns then map_option f (w a) else w a)"

lemma at_nodes_one: "w (node_at n) = Some s \<Longrightarrow> at_nodes [n] f w = w(node_at n \<mapsto> f s)"
  by (auto simp: at_nodes_def fun_eq_iff)

lemma at_nodes_fold:
  assumes "\<And>s. f (f s) = f s"
  shows "fold (\<lambda>n. at_nodes [n] f) ns w = at_nodes ns f w"
proof (induction ns arbitrary: w)
  case Nil
  then show ?case by (simp add: at_nodes_def)
next
  case (Cons n ns)
  have "at_nodes (n # ns) f w = at_nodes ns f (at_nodes [n] f w)"
    using assms by (auto simp: at_nodes_def fun_eq_iff option.map_comp comp_def)
  with Cons show ?case by simp
qed

text \<open>
  The contract between the service and its servers for one message: a live server answers
  with the expected status, and goes on living when it or another one obeys.
\<close>

locale obeyed =
  fixes E :: "'w control" and msg :: KVAdminMsg and ok :: StatusType
    and live :: "'w \<Rightarrow> ECSNode \<Rightarrow> bool" and step :: "ECSNode \<Rightarrow> 'w \<Rightarrow> 'w"
  assumes answers: "live w n \<Longrightarrow> ask_node E n msg w = (step n w, Inr (Some ok))"
    and stays: "live w n \<Longrightarrow> live w n' \<Longrightarrow> live (step n' w) n"
begin

lemma broadcast_all:
  assumes m: "msg = admin_msg None req None None"
  shows "\<forall>n \<in> set ns. live w n \<Longrightarrow> broadcast E req ok ns b w = (fold step ns w, Inr b)"
  by (induction ns arbitrary: w) (simp_all add: answers stays m [symmetric])

lemma update_all:
  assumes m: "msg = admin_msg None UPDATE md None" and ok: "ok = UPDATE_SUCCESS"
  shows "\<forall>n \<in> set ns. live w n \<Longrightarrow> update_nodes E md ns b w = (fold step ns w, b)"
  by (induction ns arbitrary: w) (simp_all add: answers stays m [symmetric] ok [symmetric])

end

text \<open>The servers of a cluster keep it for START, STOP and UPDATE.\<close>

lemma cluster_obeys:
  assumes "\<And>a s w. w a = Some s \<Longrightarrow> cluster_request h cf a msg w = (w(a \<mapsto> f s), Some (admin_reply (Some ok)))"
  shows "obeyed (cluster_control h d cf ch p dir) msg ok (\<lambda>w n. up [n] w) (\<lambda>n. at_nodes [n] f)"
proof
  fix w n assume "up [n] w"
  then obtain s where s: "w (node_at n) = Some s" "nodePort n \<le> 65535" by (auto simp: up_def)
  show "ask_node (cluster_control h d cf ch p dir) n msg w = (at_nodes [n] f w, Inr (Some ok))"
    using ask_node_cluster [where w = w, OF assms [where w = w and a = "node_at n", OF s(1)] s] at_nodes_one [where w = w, OF s(1)]
    by simp
next
  fix w n n' assume "up [n] w" "up [n'] w"
  then show "up [n] (at_nodes [n'] f w)" by (auto simp: up_def at_nodes_def)
qed

interpretation starting: obeyed "cluster_control h d cf ch p dir" "admin_msg None START None None" START_SUCCESS
    "\<lambda>w n. up [n] w" "\<lambda>n. at_nodes [n] setStart"
  by (rule cluster_obeys) (rule request_start)

interpretation stopping: obeyed "cluster_control h d cf ch p dir" "admin_msg None STOP None None" STOP_SUCCESS
    "\<lambda>w n. up [n] w" "\<lambda>n. at_nodes [n] setStop"
  by (rule cluster_obeys) (rule request_stop)

interpretation updating: obeyed "cluster_control h d cf ch p dir" "admin_msg None UPDATE (Some md) None" UPDATE_SUCCESS
    "\<lambda>w n. up [n] w" "\<lambda>n. at_nodes [n] (update_metadata md)"
  by (rule cluster_obeys) (rule request_update)

lemma up_each: "up ns w \<longleftrightarrow> (\<forall>n \<in> set ns. up [n] w)"
  by (simp add: up_def)

lemma started_all: "up ns w \<Longrightarrow> broadcast (cluster_control h d cf ch p dir) START START_SUCCESS ns b w = (at_nodes ns setStart w, Inr b)"
  using starting.broadcast_all [OF refl, of ns w] by (simp add: up_each [of ns] at_nodes_fold setStart_def)

lemma stopped_all: "up ns w \<Longrightarrow> broadcast (cluster_control h d cf ch p dir) STOP STOP_SUCCESS ns b w = (at_nodes ns setStop w, Inr b)"
  using stopping.broadcast_all [OF refl, of ns w] by (simp add: up_each [of ns] at_nodes_fold setStop_def)

lemma update_cluster:
  "up ns w \<Longrightarrow> update_nodes (cluster_control h d cf ch p dir) (Some md) ns b w = (at_nodes ns (update_metadata md) w, b)"
  using updating.update_all [OF refl refl, of ns w] by (simp add: up_each [of ns] at_nodes_fold update_metadata_def)

end
