(* ===== verification/ClusterMap.thy ===== *)
theory ClusterMap
  imports EcsRing
begin

text \<open>
  The abstract view of a cluster: the pairs of all its servers as one map, and the invariant
  (\<open>tidy\<close>) that each pair is stored at its owner and nowhere else.
\<close>

section \<open>The data of a cluster as one map\<close>

definition stored_at :: "cluster \<Rightarrow> ECSNode \<Rightarrow> string \<Rightarrow> string option" where
  "stored_at w n key = (case w (node_at n) of None \<Rightarrow> None | Some s \<Rightarrow> content s key)"

definition cluster_map :: "ECSNode list \<Rightarrow> cluster \<Rightarrow> string \<Rightarrow> string option" where
  "cluster_map nodes w key =
     (case find (\<lambda>n. stored_at w n key \<noteq> None) nodes of None \<Rightarrow> None | Some n \<Rightarrow> stored_at w n key)"

text \<open>Every pair is stored where it belongs, and could have been put there by a client.\<close>

definition tidy :: "(string \<Rightarrow> nat) \<Rightarrow> ECSNode list \<Rightarrow> cluster \<Rightarrow> bool" where
  "tidy hash nodes w \<longleftrightarrow> cluster_ok hash nodes w \<and>
     (\<forall>n \<in> set nodes. dataToFlush (the (w (node_at n))) = [] \<and>
        (\<forall>k v. stored_at w n k = Some v \<longrightarrow> good_key hash nodes k \<and> owns hash nodes n k \<and> \<not> is_delete (Some v)))"

lemma ring_ok_inj:
  "ring_ok hash nodes \<Longrightarrow> n \<in> set nodes \<Longrightarrow> n' \<in> set nodes \<Longrightarrow>
     computeHash hash (node_address n) = computeHash hash (node_address n') \<Longrightarrow> n = n'"
  by (auto simp: ring_ok_def computeHash_def distinct_map inj_on_def)

lemma one_owner:
  "ring_ok hash nodes \<Longrightarrow> n \<in> set nodes \<Longrightarrow> n' \<in> set nodes \<Longrightarrow> owns hash nodes n k \<Longrightarrow> owns hash nodes n' k \<Longrightarrow> n = n'"
  by (auto simp: owns_def intro: ring_ok_inj)

lemma ring_hashes_ne: "nodes \<noteq> [] \<Longrightarrow> ring_hashes hash nodes \<noteq> []"
  by (metis length_0_conv length_ring_hashes)

lemma owner_exists:
  assumes "ring_ok hash nodes" "nodes \<noteq> []"
  obtains n where "n \<in> set nodes" "ring_owner (ring_hashes hash nodes) k = computeHash hash (node_address n)"
  using ring_owner_nearest [OF ring_hashes_strict [OF assms(1)] ring_hashes_ne [OF assms(2)], of k] that by auto

text \<open>In a tidy cluster the map is the union of what the servers store.\<close>

lemma cluster_map_iff:
  assumes "tidy hash nodes w"
  shows "cluster_map nodes w k = Some v \<longleftrightarrow> (\<exists>n \<in> set nodes. stored_at w n k = Some v)"
proof (cases "find (\<lambda>n. stored_at w n k \<noteq> None) nodes")
  case None
  then have "\<forall>n \<in> set nodes. stored_at w n k = None" by (auto simp: find_None_iff)
  then show ?thesis unfolding cluster_map_def None by auto
next
  case (Some n)
  have ring: "ring_ok hash nodes" using assms by (simp add: tidy_def cluster_ok_def)
  from Some have n: "n \<in> set nodes" "stored_at w n k \<noteq> None" by (auto simp: find_Some_iff)
  have own: "owns hash nodes n' k" if "n' \<in> set nodes" "stored_at w n' k = Some v'" for n' v'
    using assms that by (auto simp: tidy_def)
  have "n' = n" if "n' \<in> set nodes" "stored_at w n' k = Some v'" for n' v'
    using one_owner [OF ring that(1) n(1) own [OF that]] own [OF n(1)] n(2) by auto
  moreover have "cluster_map nodes w k = stored_at w n k" unfolding cluster_map_def Some by simp
  ultimately show ?thesis using n by metis
qed

text \<open>Two clusters hold the same data when each pair is somewhere in both.\<close>

lemma same_cluster_map:
  assumes "tidy hash nodes w" "tidy hash' nodes' w'"
    and "\<And>k v. (\<exists>n \<in> set nodes. stored_at w n k = Some v) = (\<exists>n \<in> set nodes'. stored_at w' n k = Some v)"
  shows "cluster_map nodes' w' = cluster_map nodes w"
proof
  fix k
  show "cluster_map nodes' w' k = cluster_map nodes w k"
    using assms(3) [of k] cluster_map_iff [OF assms(1), of k] cluster_map_iff [OF assms(2), of k]
    by (metis not_Some_eq)
qed

text \<open>The key ranges of servers, on keys that are stored somewhere.\<close>

lemma range_owns:
  assumes "ring_ok hash nodes" "i < length nodes" "ring_hashes hash nodes ! i = computeHash hash (node_address n)" "good_key hash nodes k"
  obtains rs re where "parse_range (server_range (ring_hashes hash nodes) i) = Inr (rs, re)"
    "range_test rs re (int (hash k)) = owns hash nodes n k"
proof -
  have "range_has (server_range (ring_hashes hash nodes) i) (int (hash k)) = owns hash nodes n k"
    unfolding range_has_server_range [OF assms(1,2)] owns_def
    using assms(2-4) shared_hashI [of i "ring_hashes hash nodes" "int (hash k)"] by (auto simp: good_key_def)
  then show thesis using that parse_server_range [OF assms(1,2)] by (simp add: range_has_def)
qed

lemma good_key_mono:
  assumes "ring_ok hash nodes" "ring_ok hash nodes'" "set nodes \<subseteq> set nodes'" "good_key hash nodes' k"
  shows "good_key hash nodes k"
proof -
  have "set (ring_hashes hash nodes) \<subseteq> set (ring_hashes hash nodes')" using assms(3) by auto
  then have "shared_hash (ring_hashes hash nodes') h" if "shared_hash (ring_hashes hash nodes) h" for h
    using that unfolding shared_hash_set [OF ring_hashes_strict [OF assms(1)]] shared_hash_set [OF ring_hashes_strict [OF assms(2)]]
    by (meson subsetD)
  with assms(4) show ?thesis by (auto simp: good_key_def)
qed

lemma serving_takes_key:
  assumes "ring_ok hash nodes" "n \<in> set nodes" "serving hash nodes n s" "good_key hash nodes k" "owns hash nodes n k"
  shows "takes_key hash s k"
  using assms inRange_owns [OF assms(1-4)] by (auto simp: takes_key_def serving_def good_key_def)

section \<open>Handing over the keys of one node\<close>

text \<open>
  Server \<open>n\<close> of a ring has the keys of its own range moved to (or from) the node \<open>m\<close>: what
  both servers hold afterwards. \<open>nodes\<close> is the ring the range is taken from.
\<close>

lemma move_own_range:
  assumes ring: "ring_ok hash nodes" and i: "i < length nodes" "ring_hashes hash nodes ! i = computeHash hash (node_address n)"
    and s: "server_ok s" "dataToFlush s = []"
    and good: "\<And>k v. content s k = Some v \<Longrightarrow> good_key hash nodes k \<and> \<not> is_delete (Some v)"
    and takes: "\<And>k. content s k \<noteq> None \<Longrightarrow> owns hash nodes n k \<Longrightarrow> takes_key hash d k"
    and d: "server_ok d" and a: "parse_address sendTo = Inr a"
  obtains s' d' where "moveData hash (server_network hash) (server_range (ring_hashes hash nodes) i) sendTo s d = (s', d', Inr ())"
    "\<And>k. content s' k = (if owns hash nodes n k then None else content s k)"
    "\<And>k. content d' k = (if owns hash nodes n k \<and> content s k \<noteq> None then content s k else content d k)"
    "server_ok s'" "same_config (unLockWrite s) s'" "server_ok d'" "same_config d d'"
proof -
  obtain rs re where r: "parse_range (server_range (ring_hashes hash nodes) i) = Inr (rs, re)"
    using parse_server_range [OF ring i(1)] by blast
  have rt: "range_test rs re (int (hash k)) = owns hash nodes n k" if "content s k \<noteq> None" for k
    using that good range_owns [OF ring i, of k] r by (metis Pair_inject not_Some_eq sum.inject(2))
  obtain s' d' where m: "moveData hash (server_network hash) (server_range (ring_hashes hash nodes) i) sendTo s d = (s', d', Inr ())"
    "content s' = (\<lambda>k. if range_test rs re (int (hash k)) then None else content s k)"
    "content d' = (\<lambda>k. if range_test rs re (int (hash k)) \<and> content s k \<noteq> None then content s k else content d k)"
    "server_ok s'" "same_config (unLockWrite s) s'" "server_ok d'" "same_config d d'"
    using moveData_effect [where hash = hash and dst = d, OF s r a] d good takes rt by blast
  have "content s' k = (if owns hash nodes n k then None else content s k)"
    "content d' k = (if owns hash nodes n k \<and> content s k \<noteq> None then content s k else content d k)" for k
    using m(2,3) rt [of k] by (cases "content s k"; simp)+
  then show thesis by (rule that [OF m(1) _ _ m(4-7)])
qed

end
