(* ===== verification/EcsAdd.thy ===== *)
theory EcsAdd
  imports ClusterMap
begin

text \<open>
  \<open>addNode\<close> on a tidy cluster: launching the server, initialising it, having its successor
  move the keys of the new range, and telling all servers the metadata.
\<close>

section \<open>Adding a server\<close>

definition booted :: "(string \<Rightarrow> KVStorage) \<Rightarrow> ECSNode \<Rightarrow> KVServer" where
  "booted disk n = (setStop (new_KVServer (nodePort n) (disk (nodeName n))))\<lparr>KVServer.running := True\<rparr>"

lemma parse_int_port:
  assumes "p \<le> 65535"
  shows "parse_int (show_base 10 p) = Some (int p)"
proof -
  have "take 1 (show_base 10 p) \<noteq> ''-''" "take 1 (show_base 10 p) \<noteq> ''+''"
    using parse_show_base [of 10 p] by (cases "show_base 10 p"; auto simp: parse_base_def digit_val_def)+
  with assms show ?thesis using parse_show_base [of 10 p] by (simp add: parse_int_def Let_def)
qed

lemma launch_cluster:
  assumes "w (node_at n) = None" "nodePort n \<le> 65535"
  shows "launch_server disk (launch_command dir n) w = w(node_at n \<mapsto> booted disk n)"
proof -
  have "parse_int ''100'' = Some 100" by code_simp
  with assms parse_int_port [OF assms(2)] show ?thesis
    by (simp add: launch_server_def launch_command_def server_main_def booted_def setStop_def new_KVServer_def)
qed

lemma initializeStorage_ok:
  assumes "storage_ok st"
  shows "storage_ok (initializeStorage st)" "stored (initializeStorage st) = stored st"
  using assms by (auto simp: storage_ok_def initializeStorage_def createStorageFile_def storageExists_def stored_def
      getKVObject_def json_lib_ok_def split: option.splits)

lemma init_and_start_cluster:
  assumes "w (node_at n) = Some s" "nodePort n \<le> 65535"
  shows "init_and_start (cluster_control h d cf ch p dir) (Some md) n w = w(node_at n \<mapsto> setStart (initKVServer md s))"
proof -
  let ?w = "w(node_at n \<mapsto> initKVServer md s)"
  have "?w (node_at n) = Some (initKVServer md s)" by simp
  note start = ask_cluster [where d = d and ch = ch and p = p and dir = dir, OF request_start [where w = ?w, OF this]]
  show ?thesis
    using open_cluster [where w = w, OF assms(1)] assms(2) start
      ask_cluster [where d = d and ch = ch and p = p and dir = dir, OF request_init [where w = w, OF assms(1)]]
    by (simp add: init_and_start_def)
qed

text \<open>The new server once it is started: it serves, and has no data.\<close>

definition fresh_disk :: "(string \<Rightarrow> KVStorage) \<Rightarrow> string \<Rightarrow> bool" where
  "fresh_disk disk name \<longleftrightarrow> storage_ok (disk name) \<and> stored (disk name) = Map.empty"

text \<open>A server that has been shut down leaves nothing, so it can be launched again.\<close>

lemma exit_fresh: "server_ok s \<Longrightarrow> fresh_disk (disk(name := server_exit s)) name"
  using clearKVStorage_ok [of "srvStorage s"] by (simp add: fresh_disk_def server_exit_def)

lemma booted_serves:
  assumes "fresh_disk disk (nodeName n)" "nodeHost n = ''127.0.0.1''" "ring_metadata hash nodes md"
  shows "serving hash nodes n (setStart (initKVServer md (booted disk n)))"
    "content (setStart (initKVServer md (booted disk n))) = Map.empty"
    "dataToFlush (setStart (initKVServer md (booted disk n))) = []"
  using assms initializeStorage_ok [of "disk (nodeName n)"]
  by (auto simp: serving_def setStart_def initKVServer_def booted_def setStop_def new_KVServer_def fresh_disk_def)

lemma serving_update:
  "serving hash nodes n s \<Longrightarrow> ring_metadata hash nodes' md \<Longrightarrow> serving hash nodes' n (update_metadata md s)"
  by (simp add: serving_def update_metadata_def)

lemma serving_same:
  "serving hash nodes n s \<Longrightarrow> server_ok s' \<Longrightarrow> same_config s s' \<Longrightarrow> serving hash nodes n s'"
  by (auto simp: serving_def same_config_def)

lemma serving_unlock: "serving hash nodes n s \<Longrightarrow> unLockWrite s = s"
  by (simp add: serving_def unLockWrite_def)

lemma content_update_metadata [simp]: "content (update_metadata md s) = content s"
  by (simp add: update_metadata_def)

lemma node_at_inj:
  assumes "ring_ok hash nodes" "n \<in> set nodes" "n' \<in> set nodes" "node_at n = node_at n'"
  shows "n = n'"
  using assms ring_ok_inj [OF assms(1-3)] by simp

lemma ring_metadata_calc [simp]: "ring_metadata hash nodes (calc_metadata hash nodes)"
  by (simp add: ring_metadata_def)

lemma tidy_server:
  assumes "tidy hash nodes w" "n \<in> set nodes"
  shows "\<exists>s. w (node_at n) = Some s \<and> serving hash nodes n s \<and> dataToFlush s = [] \<and> stored_at w n = content s \<and>
    CHR '':'' \<notin> set (nodeHost n) \<and> nodePort n \<le> 65535"
  using assms by (fastforce simp: tidy_def cluster_ok_def stored_at_def)

text \<open>
  A cluster whose servers serve the ring \<open>R'\<close>, and where the same pairs are stored as in the
  tidy cluster \<open>w\<close>, each at its owner.
\<close>

lemma tidy_redistributed:
  assumes t: "tidy hash R w" and ring': "ring_ok hash R'"
    and good: "\<And>k. cluster_map R w k \<noteq> None \<Longrightarrow> good_key hash R' k"
    and up: "\<And>m. m \<in> set R' \<Longrightarrow> CHR '':'' \<notin> set (nodeHost m) \<and> nodePort m \<le> 65535 \<and>
      (\<exists>s. w' (node_at m) = Some s \<and> serving hash R' m s \<and> dataToFlush s = [])"
    and old: "\<And>m k v. m \<in> set R' \<Longrightarrow> stored_at w' m k = Some v \<Longrightarrow>
      owns hash R' m k \<and> (\<exists>m0 \<in> set R. stored_at w m0 k = Some v)"
    and kept: "\<And>m k v. m \<in> set R \<Longrightarrow> stored_at w m k = Some v \<Longrightarrow> \<exists>m' \<in> set R'. stored_at w' m' k = Some v"
  shows "tidy hash R' w' \<and> cluster_map R' w' = cluster_map R w"
proof -
  have "good_key hash R' k \<and> owns hash R' m k \<and> \<not> is_delete (Some v)" if m: "m \<in> set R'" "stored_at w' m k = Some v" for m k v
  proof -
    obtain m0 where m0: "m0 \<in> set R" "stored_at w m0 k = Some v" using old [OF m] by blast
    then have "cluster_map R w k \<noteq> None" using cluster_map_iff [OF t, of k v] by auto
    moreover have "\<not> is_delete (Some v)" using t m0 by (auto simp: tidy_def)
    ultimately show ?thesis using good old [OF m] by blast
  qed
  then have tidy: "tidy hash R' w'"
    using ring' up by (fastforce simp: tidy_def cluster_ok_def)
  moreover have "cluster_map R' w' = cluster_map R w"
    by (rule same_cluster_map [OF t tidy]) (use old kept in blast)
  ultimately show ?thesis by blast
qed

text \<open>A server that was only told new metadata serves the new ring with the same pairs.\<close>

lemma updated_server:
  assumes t: "tidy hash R w" and m: "m \<in> set R"
    and w': "w' (node_at m) = map_option (update_metadata (calc_metadata hash R')) (w (node_at m))"
  shows "CHR '':'' \<notin> set (nodeHost m) \<and> nodePort m \<le> 65535 \<and>
      (\<exists>s. w' (node_at m) = Some s \<and> serving hash R' m s \<and> dataToFlush s = [])"
    and "stored_at w' m = stored_at w m"
proof -
  obtain T where T: "w (node_at m) = Some T" "serving hash R m T" "dataToFlush T = []"
    "CHR '':'' \<notin> set (nodeHost m)" "nodePort m \<le> 65535" using tidy_server [OF t m] by blast
  have "dataToFlush (update_metadata (calc_metadata hash R') T) = []" using T(3) by (simp add: update_metadata_def)
  with T(1,4,5) w' serving_update [OF T(2) ring_metadata_calc]
  show "CHR '':'' \<notin> set (nodeHost m) \<and> nodePort m \<le> 65535 \<and>
      (\<exists>s. w' (node_at m) = Some s \<and> serving hash R' m s \<and> dataToFlush s = [])" by auto
  show "stored_at w' m = stored_at w m" by (auto simp: stored_at_def w' T(1) fun_eq_iff)
qed

text \<open>Which keys a new node takes over.\<close>

lemma join_owners:
  assumes ring: "ring_ok hash nodes" and ring': "ring_ok hash (nodes @ [n])" and s: "s \<in> set nodes"
    "ring_owner (ring_hashes hash nodes) (computeHash hash (node_address n)) = computeHash hash (node_address s)"
  shows "owns hash (nodes @ [n]) n k \<and> owns hash nodes s k \<or>
    \<not> owns hash (nodes @ [n]) n k \<and> (\<forall>m \<in> set nodes. owns hash (nodes @ [n]) m k = owns hash nodes m k)"
proof -
  have ne: "nodes \<noteq> []" using s(1) by auto
  have "set (ring_hashes hash (nodes @ [n])) = insert (computeHash hash (node_address n)) (set (ring_hashes hash nodes))"
    by simp
  from ring_owner_insert [OF ring_hashes_strict [OF ring] ring_hashes_strict [OF ring'] ring_hashes_ne [OF ne] this, of "int (hash k)"]
  show ?thesis
  proof
    assume "ring_owner (ring_hashes hash (nodes @ [n])) (int (hash k)) = computeHash hash (node_address n) \<and>
      ring_owner (ring_hashes hash nodes) (int (hash k)) = ring_owner (ring_hashes hash nodes) (computeHash hash (node_address n))"
    then show ?thesis using s(2) by (simp add: owns_def)
  next
    assume same: "ring_owner (ring_hashes hash (nodes @ [n])) (int (hash k)) = ring_owner (ring_hashes hash nodes) (int (hash k))"
    moreover obtain m where "m \<in> set nodes" "ring_owner (ring_hashes hash nodes) (int (hash k)) = computeHash hash (node_address m)"
      using owner_exists [OF ring ne] by blast
    moreover have "computeHash hash (node_address n) \<noteq> computeHash hash (node_address m)" if "m \<in> set nodes" for m
      using ring' that by (auto simp: ring_ok_def computeHash_def)
    ultimately show ?thesis by (simp add: owns_def)
  qed
qed

lemma joined_at:
  assumes "ring_ok hash (nodes @ [n])" "m \<in> set nodes"
  shows "node_at m \<noteq> node_at n"
proof
  assume "node_at m = node_at n"
  then have "m = n" using node_at_inj [OF assms(1)] assms(2) by simp
  with assms show False by (auto simp: ring_ok_def)
qed

text \<open>
  The tidy cluster \<open>w\<close>, with the keys of the new node \<open>n\<close> moved from its successor \<open>s\<close>, and
  the new metadata everywhere.
\<close>

lemma tidy_after_join:
  assumes t: "tidy hash nodes w" and ring': "ring_ok hash (nodes @ [n])"
    and s: "s \<in> set nodes" "ring_owner (ring_hashes hash nodes) (computeHash hash (node_address n)) = computeHash hash (node_address s)"
    and n: "CHR '':'' \<notin> set (nodeHost n)" "nodePort n \<le> 65535"
    and good: "\<And>k. cluster_map nodes w k \<noteq> None \<Longrightarrow> good_key hash (nodes @ [n]) k"
    and S': "serving hash nodes s S'" "dataToFlush S' = []"
      "\<And>k. content S' k = (if owns hash (nodes @ [n]) n k then None else stored_at w s k)"
    and D': "serving hash (nodes @ [n]) n D'" "dataToFlush D' = []"
      "\<And>k. content D' k = (if owns hash (nodes @ [n]) n k then stored_at w s k else None)"
    and w': "w' = at_nodes (nodes @ [n]) (update_metadata (calc_metadata hash (nodes @ [n]))) (w(node_at s \<mapsto> S', node_at n \<mapsto> D'))"
  shows "tidy hash (nodes @ [n]) w' \<and> cluster_map (nodes @ [n]) w' = cluster_map nodes w"
proof -
  let ?R = "nodes @ [n]"
  let ?u = "update_metadata (calc_metadata hash ?R)"
  have ring: "ring_ok hash nodes" using t by (simp add: tidy_def cluster_ok_def)
  note new = joined_at [OF ring']
  have ne: "m \<noteq> n" if "m \<in> set nodes" for m using new [OF that] by auto
  have wn: "w' (node_at n) = Some (?u D')" by (auto simp: w' at_nodes_def)
  have ws: "w' (node_at s) = Some (?u S')" using s(1) new [OF s(1)] by (auto simp: w' at_nodes_def)
  have wm: "w' (node_at m) = map_option ?u (w (node_at m))" if "m \<in> set nodes" "m \<noteq> s" for m
    using that new [OF that(1)] node_at_inj [OF ring that(1) s(1)] by (auto simp: w' at_nodes_def)
  have st: "stored_at w' n k = (if owns hash ?R n k then stored_at w s k else None)"
    "stored_at w' s k = (if owns hash ?R n k then None else stored_at w s k)" for k
    using S'(3) D'(3) by (simp_all add: stored_at_def [of w'] wn ws)
  note others = updated_server [where w' = w', OF t _ wm]
  have sm: "stored_at w' m = stored_at w m" if "m \<in> set nodes" "m \<noteq> s" for m using others(2) that by blast
  note owners = join_owners [OF ring ring' s]
  have own: "owns hash nodes m k" if "m \<in> set nodes" "stored_at w m k = Some v" for m k v
    using t that by (auto simp: tidy_def)
  show ?thesis
  proof (rule tidy_redistributed [OF t ring' good])
    show "CHR '':'' \<notin> set (nodeHost m) \<and> nodePort m \<le> 65535 \<and> (\<exists>T. w' (node_at m) = Some T \<and> serving hash ?R m T \<and> dataToFlush T = [])"
      if m: "m \<in> set ?R" for m
    proof -
      have ready: "dataToFlush (?u D') = []" "dataToFlush (?u S') = []" using D'(2) S'(2) by (simp_all add: update_metadata_def)
      have port: "CHR '':'' \<notin> set (nodeHost s)" "nodePort s \<le> 65535" using tidy_server [OF t s(1)] by blast+
      consider "m = n" | "m = s" | "m \<in> set nodes" "m \<noteq> s" using m by auto
      then show ?thesis
        using others(1) ready port n wn ws serving_update [OF D'(1) ring_metadata_calc] serving_update [OF S'(1) ring_metadata_calc]
        by cases blast+
    qed
  next
    fix m k v assume m: "m \<in> set ?R" and v: "stored_at w' m k = Some v"
    consider "m = n" | "m = s" | "m \<in> set nodes" "m \<noteq> s" using m by auto
    then show "owns hash ?R m k \<and> (\<exists>m0 \<in> set nodes. stored_at w m0 k = Some v)"
    proof cases
      case 1
      with v st(1) s(1) show ?thesis by (auto split: if_splits)
    next
      case 2
      with v st(2) s(1) owners [of k] own show ?thesis by (auto split: if_splits)
    next
      case 3
      then have "stored_at w m k = Some v" using v sm by simp
      moreover from own [OF 3(1) this] have "owns hash nodes m k" .
      moreover from this have "\<not> owns hash nodes s k" using one_owner [OF ring s(1) 3(1)] 3(2) by blast
      ultimately show ?thesis using owners [of k] 3(1) by blast
    qed
  next
    fix m k v assume m: "m \<in> set nodes" "stored_at w m k = Some v"
    show "\<exists>m' \<in> set ?R. stored_at w' m' k = Some v"
    proof (cases "m = s")
      case True
      with m st [of k] show ?thesis by (cases "owns hash ?R n k") auto
    next
      case False
      then have "stored_at w' m k = Some v" using m(2) sm [OF m(1)] by simp
      with m(1) show ?thesis by (intro bexI [of _ m]) simp_all
    qed
  qed
qed

lemma ring_owner_self:
  "ring_ok hash nodes \<Longrightarrow> n \<in> set nodes \<Longrightarrow>
     ring_owner (ring_hashes hash nodes) (computeHash hash (node_address n)) = computeHash hash (node_address n)"
  by (rule ring_owner_unique [OF ring_hashes_strict]) (auto simp: nearer_def)

text \<open>The entry \<open>ECSClient\<close> finds for a node of the ring is that of the node itself.\<close>

lemma own_entry:
  assumes "ring_ok hash nodes" "n \<in> set nodes" "mset m = mset (calc_metadata hash nodes)" "apart hash nodes n"
  obtains i where "i < length nodes" "ring_hashes hash nodes ! i = computeHash hash (node_address n)"
    "getNodeByKey hash m (node_address n) = Inr (Some (node_address n, server_range (ring_hashes hash nodes) i))"
proof -
  have "nodes \<noteq> []" using assms(2) by auto
  from lookup_entry [OF assms(1) this assms(3,4)] obtain i s where i: "i < length nodes" "s \<in> set nodes"
    "ring_hashes hash nodes ! i = computeHash hash (node_address s)"
    "ring_owner (ring_hashes hash nodes) (computeHash hash (node_address n)) = ring_hashes hash nodes ! i"
    "getNodeByKey hash m (node_address n) = Inr (Some (node_address s, server_range (ring_hashes hash nodes) i))" by blast
  with ring_owner_self [OF assms(1,2)] have "s = n" using ring_ok_inj [OF assms(1) i(2) assms(2)] by simp
  with i that show thesis by simp
qed

text \<open>The successor moves the range of the new node to it.\<close>

lemma move_cluster:
  assumes t: "tidy hash nodes w" and ring': "ring_ok hash (nodes @ [n])" and gap: "apart hash nodes n"
    and s: "s \<in> set nodes" "ring_owner (ring_hashes hash nodes) (computeHash hash (node_address n)) = computeHash hash (node_address s)"
    and n: "CHR '':'' \<notin> set (nodeHost n)"
    and good: "\<And>k. cluster_map nodes w k \<noteq> None \<Longrightarrow> good_key hash (nodes @ [n]) k"
    and D: "serving hash (nodes @ [n]) n D" "content D = Map.empty"
    and c: "ecsMetadata c = Some (calc_metadata hash (nodes @ [n]))"
  obtains S' D' where
    "move_from_successor hash (cluster_control hash d cf ch p dir) c (Some (node_address s, rng)) n (w(node_at n \<mapsto> D)) =
       (w(node_at s \<mapsto> S', node_at n \<mapsto> D'), Inr ())"
    "serving hash nodes s S'" "dataToFlush S' = []" "\<And>k. content S' k = (if owns hash (nodes @ [n]) n k then None else stored_at w s k)"
    "serving hash (nodes @ [n]) n D'" "dataToFlush D' = dataToFlush D"
    "\<And>k. content D' k = (if owns hash (nodes @ [n]) n k then stored_at w s k else None)"
proof -
  let ?R = "nodes @ [n]"
  have ring: "ring_ok hash nodes" using t by (simp add: tidy_def cluster_ok_def)
  have nR: "n \<in> set ?R" by simp
  have "apart hash ?R n" using gap by (auto simp: apart_def)
  from own_entry [OF ring' nR _ this, of "calc_metadata hash ?R"] obtain i where
    i: "i < length ?R" "ring_hashes hash ?R ! i = computeHash hash (node_address n)"
    "getNodeByKey hash (calc_metadata hash ?R) (node_address n) = Inr (Some (node_address n, server_range (ring_hashes hash ?R) i))"
    by blast
  obtain S where S: "w (node_at s) = Some S" "serving hash nodes s S" "dataToFlush S = []" "stored_at w s = content S"
    "CHR '':'' \<notin> set (nodeHost s)" "nodePort s \<le> 65535" using tidy_server [OF t s(1)] by blast
  have stored: "good_key hash ?R k \<and> \<not> is_delete (Some v)" if "content S k = Some v" for k v
  proof -
    have k: "stored_at w s k = Some v" using that S(4) by simp
    then have "cluster_map nodes w k = Some v" using cluster_map_iff [OF t] s(1) by blast
    then show ?thesis using good [of k] t s(1) k by (auto simp: tidy_def)
  qed
  have takes: "takes_key hash D k" if "content S k \<noteq> None" "owns hash ?R n k" for k
    using that stored serving_takes_key [OF ring' nR D(1)] by blast
  have ok: "server_ok S" "server_ok D" using S(2) D(1) by (simp_all add: serving_def)
  note addr = parse_show_address [OF n, of "nodePort n"] parse_show_address [OF S(5), of "nodePort s"]
  from move_own_range [OF ring' i(1,2) ok(1) S(3) stored takes ok(2) addr(1)] obtain S' D' where
    m: "moveData hash (server_network hash) (server_range (ring_hashes hash ?R) i) (node_address n) S D = (S', D', Inr ())"
    "\<And>k. content S' k = (if owns hash ?R n k then None else content S k)"
    "\<And>k. content D' k = (if owns hash ?R n k \<and> content S k \<noteq> None then content S k else content D k)"
    "server_ok S'" "same_config (unLockWrite S) S'" "server_ok D'" "same_config D D'" by metis
  let ?w = "w(node_at n \<mapsto> D)"
  have at: "?w (node_at s) = Some S" "?w (node_at n) = Some D" "node_at s \<noteq> node_at n"
    using S(1) joined_at [OF ring' s(1)] by auto
  have "snd (node_at s) \<le> 65535" using S(6) by simp
  from open_cluster [where w = ?w, OF at(1) this] i(3) addr(2) c
    ask_cluster [OF request_move [where w = ?w, OF at addr(1) m(1)]]
  have mv: "move_from_successor hash (cluster_control hash d cf ch p dir) c (Some (node_address s, rng)) n ?w =
      (w(node_at s \<mapsto> S', node_at n \<mapsto> D'), Inr ())"
    using at(3) by (simp add: move_from_successor_def ask_successor_def get_entry_def lookup_node_def fun_upd_twist)
  have sv: "serving hash nodes s S'" "dataToFlush S' = []" "serving hash ?R n D'" "dataToFlush D' = dataToFlush D"
    using m(4-7) S(2,3) D(1) serving_unlock [OF S(2)] by (auto intro: serving_same simp: same_config_def)
  show thesis by (rule that [OF mv sv(1,2) _ sv(3,4)]) (simp_all add: m(2,3) S(4) D(2))
qed

text \<open>
  The service knows the ring it governs; a node that can join it is on the host the servers
  believe to be on, at a free address, with an empty disk, at least three away from the hashes
  of the others, and no pair is stored under a hash that would be shared.
\<close>

definition governs :: "(string \<Rightarrow> nat) \<Rightarrow> ECSNode list \<Rightarrow> ECSClient \<Rightarrow> bool" where
  "governs hash nodes c \<longleftrightarrow> activeServers c = nodes \<and> (\<exists>md. ecsMetadata c = Some md \<and> ring_metadata hash nodes md)"

definition can_join :: "(string \<Rightarrow> nat) \<Rightarrow> (string \<Rightarrow> KVStorage) \<Rightarrow> ECSNode list \<Rightarrow> cluster \<Rightarrow> ECSNode \<Rightarrow> bool" where
  "can_join hash disk nodes w n \<longleftrightarrow>
     nodeHost n = ''127.0.0.1'' \<and> nodePort n \<le> 65535 \<and> w (node_at n) = None \<and> ring_ok hash (nodes @ [n]) \<and>
     apart hash nodes n \<and> fresh_disk disk (nodeName n) \<and>
     (\<forall>k. cluster_map nodes w k \<noteq> None \<longrightarrow> good_key hash (nodes @ [n]) k)"

lemma first_joined:
  assumes t: "tidy hash [] w" and ring': "ring_ok hash [n]" and n: "CHR '':'' \<notin> set (nodeHost n)" "nodePort n \<le> 65535"
    and D: "serving hash [n] n D" "content D = Map.empty" "dataToFlush D = []"
  shows "tidy hash [n] (at_nodes [n] (update_metadata (calc_metadata hash [n])) (w(node_at n \<mapsto> D))) \<and>
    cluster_map [n] (at_nodes [n] (update_metadata (calc_metadata hash [n])) (w(node_at n \<mapsto> D))) = cluster_map [] w"
proof (rule tidy_redistributed [OF t ring'])
  let ?u = "update_metadata (calc_metadata hash [n])"
  let ?w = "at_nodes [n] ?u (w(node_at n \<mapsto> D))"
  have at: "?w (node_at n) = Some (?u D)" by (simp add: at_nodes_def)
  show "CHR '':'' \<notin> set (nodeHost m) \<and> nodePort m \<le> 65535 \<and> (\<exists>s. ?w (node_at m) = Some s \<and> serving hash [n] m s \<and> dataToFlush s = [])"
    if "m \<in> set [n]" for m
  proof -
    have "dataToFlush (?u D) = []" using D(3) by (simp add: update_metadata_def)
    with that at n serving_update [OF D(1) ring_metadata_calc] show ?thesis by auto
  qed
  show "owns hash [n] m k \<and> (\<exists>m0 \<in> set []. stored_at w m0 k = Some v)" if "m \<in> set [n]" "stored_at ?w m k = Some v" for m k v
    using that at D(2) by (simp add: stored_at_def)
qed (simp_all add: cluster_map_def)

lemma activate_cluster:
  assumes g: "governs hash nodes c" and t: "tidy hash nodes w" and r: "r < length (idleServers c)"
    and join: "can_join hash disk nodes w (idleServers c ! r)"
  defines "n \<equiv> idleServers c ! r"
  shows "\<exists>w'. activate hash (cluster_control hash disk cf ch p dir) r c w =
      (c\<lparr>idleServers := take r (idleServers c) @ drop (Suc r) (idleServers c), activeServers := nodes @ [n],
         ecsMetadata := Some (calc_metadata hash (nodes @ [n]))\<rparr>, w', Inr n) \<and>
    tidy hash (nodes @ [n]) w' \<and> cluster_map (nodes @ [n]) w' = cluster_map nodes w \<and>
    (\<forall>a. a \<notin> node_at ` set (nodes @ [n]) \<longrightarrow> w' a = w a)"
proof -
  let ?R = "nodes @ [n]" and ?md = "calc_metadata hash (nodes @ [n])" and ?E = "cluster_control hash disk cf ch p dir"
  let ?D = "setStart (initKVServer ?md (booted disk n))" and ?w = "w(node_at n \<mapsto> setStart (initKVServer ?md (booted disk n)))"
  let ?c1 = "c\<lparr>idleServers := take r (idleServers c) @ drop (Suc r) (idleServers c)\<rparr>"
  let ?c2 = "?c1\<lparr>ecsMetadata := Some ?md\<rparr>"
  let ?c3 = "?c2\<lparr>activeServers := nodes @ [n]\<rparr>"
  obtain md where md: "ecsMetadata c = Some md" "mset md = mset (calc_metadata hash nodes)" "activeServers c = nodes"
    using g by (auto simp: governs_def ring_metadata_def)
  have n: "nodeHost n = ''127.0.0.1''" "CHR '':'' \<notin> set (nodeHost n)" "nodePort n \<le> 65535" "w (node_at n) = None" "ring_ok hash ?R"
    "apart hash nodes n" "fresh_disk disk (nodeName n)"
    and good: "\<And>k. cluster_map nodes w k \<noteq> None \<Longrightarrow> good_key hash ?R k"
    using join by (auto simp: can_join_def n_def)
  have ring: "ring_ok hash nodes" using t by (simp add: tidy_def cluster_ok_def)
  note D = booted_serves [where md = ?md, OF n(7,1) ring_metadata_calc]
  have boot: "init_and_start ?E (Some ?md) n (launch_server disk (launch_command dir n) w) = ?w"
    using launch_cluster [where w = w, OF n(4,3)] init_and_start_cluster [of "w(node_at n \<mapsto> booted disk n)" n "booted disk n"] n(3) by simp
  have up_R: "up ?R w'" if "\<And>m. m \<in> set nodes \<Longrightarrow> w' (node_at m) \<noteq> None" "w' (node_at n) \<noteq> None" for w'
    using that n(3) tidy_server [OF t] by (auto simp: up_def)
  show ?thesis
  proof (cases "nodes = []")
    case True
    have "activate hash ?E r c w = (?c3, at_nodes ?R (update_metadata ?md) ?w, Inr n)"
      using boot update_cluster [OF up_R [of ?w], of hash disk cf ch p dir ?md True] md(3) True
      by (simp add: activate_def Let_def updateAllNodesMeta_def flip: n_def)
    moreover have "\<forall>a. a \<notin> node_at ` set ?R \<longrightarrow> at_nodes ?R (update_metadata ?md) ?w a = w a" by (simp add: at_nodes_def)
    ultimately show ?thesis using first_joined [of hash w n, OF _ _ n(2,3)] t n(5) D True by simp
  next
    case False
    obtain i s where s: "s \<in> set nodes"
      "ring_owner (ring_hashes hash nodes) (computeHash hash (node_address n)) = computeHash hash (node_address s)"
      "getNodeByKey hash md (node_address n) = Inr (Some (node_address s, server_range (ring_hashes hash nodes) i))"
      using lookup_entry [OF ring False md(2) n(6)] by metis
    obtain S' D' where m: "move_from_successor hash ?E ?c2 (Some (node_address s, server_range (ring_hashes hash nodes) i)) n ?w =
        (w(node_at s \<mapsto> S', node_at n \<mapsto> D'), Inr ())"
      "serving hash nodes s S'" "dataToFlush S' = []" "\<And>k. content S' k = (if owns hash ?R n k then None else stored_at w s k)"
      "serving hash ?R n D'" "dataToFlush D' = dataToFlush ?D"
      "\<And>k. content D' k = (if owns hash ?R n k then stored_at w s k else None)"
      by (rule move_cluster [where c = ?c2 and D = ?D, OF t n(5,6) s(1,2) n(2) good D(1,2)]) (assumption, simp, rule that)
    let ?w' = "w(node_at s \<mapsto> S', node_at n \<mapsto> D')"
    have "up ?R ?w'" using tidy_server [OF t] by (intro up_R) auto
    then have "activate hash ?E r c w = (?c3, at_nodes ?R (update_metadata ?md) ?w', Inr n)"
      using boot m(1) update_cluster [of ?R ?w' hash disk cf ch p dir ?md True] md(1,3) s(3) False
      by (simp add: activate_def Let_def updateAllNodesMeta_def lookup_node_def flip: n_def)
    moreover have "dataToFlush D' = []" using m(6) D(3) by simp
    with tidy_after_join [OF t n(5) s(1,2) n(2,3) good m(2-5) _ m(7) refl]
    have "tidy hash ?R (at_nodes ?R (update_metadata ?md) ?w') \<and> cluster_map ?R (at_nodes ?R (update_metadata ?md) ?w') = cluster_map nodes w"
      by blast
    moreover have "\<forall>a. a \<notin> node_at ` set ?R \<longrightarrow> at_nodes ?R (update_metadata ?md) ?w' a = w a"
      using s(1) by (auto simp: at_nodes_def)
    ultimately show ?thesis by simp
  qed
qed

end
