(* ===== verification/EcsRemove.thy ===== *)
theory EcsRemove
  imports EcsAdd
begin

text \<open>
  \<open>removeNode\<close> on a tidy cluster: the successor learns the new metadata, the server hands
  over all its pairs, the others are told, and the server is shut down.
\<close>

section \<open>Removing a server\<close>

lemma find_split:
  "find P xs = Some n \<Longrightarrow> P n \<and> n \<in> set xs"
  by (auto simp: find_Some_iff)

text \<open>
  The server of that name is gone; only when its confirmation arrives does it leave the list.
\<close>

lemma shutdown_cluster:
  assumes "w (node_at n) = Some s" "nodePort n \<le> 65535"
  shows "find (\<lambda>m. nodeName m = name) ns = Some n \<Longrightarrow>
    \<exists>b. shutdown_search (cluster_control h d cf ch p dir) name seen ns c w =
      (if cf then (c\<lparr>idleServers := idleServers c @ [n], activeServers := seen @ remove1 n ns\<rparr>, w(node_at n := None), Inr b)
       else (c, w(node_at n := None), Inl NullPointerException))"
proof (induction ns arbitrary: seen)
  case Nil
  then show ?case by simp
next
  case (Cons m ns)
  let ?E = "cluster_control h d cf ch p dir"
  show ?case
  proof (cases "nodeName m = name")
    case True
    then have m: "m = n" using Cons.prems by simp
    have "ask_node ?E n (admin_msg None SHUTDOWN None None) w =
        (w(node_at n := None), if cf then Inr (Some SHUTDOWN_SUCCESS) else Inl NullPointerException)"
      using open_cluster [where w = w, OF assms(1)] request_shutdown [where w = w, OF assms(1)] assms(2)
      by (simp add: ask_node_def ask_def)
    moreover obtain b where "await_or_false ?E (length (seen @ ns)) 20000 (w(node_at n := None)) = (w(node_at n := None), b)"
      by (metis await_cluster(2) prod.collapse)
    ultimately show ?thesis using True m by (cases cf) (simp_all add: Let_def fun_upd_def)
  next
    case False
    then have found: "find (\<lambda>m. nodeName m = name) ns = Some n" using Cons.prems by simp
    moreover have "m \<noteq> n" using False find_split [OF found] by auto
    ultimately show ?thesis using Cons.IH [of "seen @ [m]"] False by (cases cf) (simp_all add: fun_upd_def)
  qed
qed

lemma ring_ok_remove1: "ring_ok hash nodes \<Longrightarrow> ring_ok hash (remove1 n nodes)"
  unfolding ring_ok_def by (meson distinct_map distinct_remove1 inj_on_subset notin_set_remove1 set_remove1_subset)

lemma ring_ok_distinct: "ring_ok hash nodes \<Longrightarrow> distinct nodes"
  by (simp add: ring_ok_def distinct_map)

text \<open>Who owns the keys of a node that leaves.\<close>

lemma leave_owners:
  assumes ring: "ring_ok hash nodes" and n: "n \<in> set nodes" and s: "s \<in> set (remove1 n nodes)"
    "ring_owner (ring_hashes hash (remove1 n nodes)) (computeHash hash (node_address n)) = computeHash hash (node_address s)"
  shows "owns hash nodes n k \<and> owns hash (remove1 n nodes) s k \<or>
    \<not> owns hash nodes n k \<and> (\<forall>m \<in> set (remove1 n nodes). owns hash (remove1 n nodes) m k = owns hash nodes m k)"
proof -
  let ?R = "remove1 n nodes"
  have ring': "ring_ok hash ?R" using ring by (rule ring_ok_remove1)
  have ne: "?R \<noteq> []" using s(1) by auto
  have "set nodes = insert n (set ?R)" using n ring_ok_distinct [OF ring] by auto
  then have "set (ring_hashes hash nodes) = insert (computeHash hash (node_address n)) (set (ring_hashes hash ?R))"
    by simp
  from ring_owner_insert [OF ring_hashes_strict [OF ring'] ring_hashes_strict [OF ring] ring_hashes_ne [OF ne] this, of "int (hash k)"]
  show ?thesis
  proof
    assume "ring_owner (ring_hashes hash nodes) (int (hash k)) = computeHash hash (node_address n) \<and>
      ring_owner (ring_hashes hash ?R) (int (hash k)) = ring_owner (ring_hashes hash ?R) (computeHash hash (node_address n))"
    then show ?thesis using s(2) by (simp add: owns_def)
  next
    assume same: "ring_owner (ring_hashes hash nodes) (int (hash k)) = ring_owner (ring_hashes hash ?R) (int (hash k))"
    moreover obtain m where m: "m \<in> set ?R" "ring_owner (ring_hashes hash ?R) (int (hash k)) = computeHash hash (node_address m)"
      using owner_exists [OF ring' ne] by blast
    moreover have "computeHash hash (node_address n) \<noteq> computeHash hash (node_address m)"
      using ring_ok_inj [OF ring n, of m] m(1) ring_ok_distinct [OF ring] by (auto dest: notin_set_remove1)
    ultimately show ?thesis by (simp add: owns_def)
  qed
qed

lemma left_at:
  assumes "ring_ok hash nodes" "n \<in> set nodes" "m \<in> set (remove1 n nodes)"
  shows "m \<in> set nodes" "m \<noteq> n" "node_at m \<noteq> node_at n"
proof -
  show 1: "m \<in> set nodes" using assms(3) set_remove1_subset by fast
  show 2: "m \<noteq> n" using assms(3) ring_ok_distinct [OF assms(1)] by auto
  show "node_at m \<noteq> node_at n" using node_at_inj [OF assms(1) 1 assms(2)] 2 by blast
qed

text \<open>
  The tidy cluster \<open>w\<close> without the node \<open>n\<close>, whose pairs its successor \<open>s\<close> has taken over.
\<close>

lemma tidy_after_leave:
  assumes t: "tidy hash nodes w" and n: "n \<in> set nodes" and s: "s \<in> set (remove1 n nodes)"
    "ring_owner (ring_hashes hash (remove1 n nodes)) (computeHash hash (node_address n)) = computeHash hash (node_address s)"
    and S': "serving hash (remove1 n nodes) s S'" "dataToFlush S' = []"
      "\<And>k. content S' k = (if stored_at w n k \<noteq> None then stored_at w n k else stored_at w s k)"
    and w': "w' (node_at s) = Some S'" "\<And>m. m \<in> set (remove1 n nodes) \<Longrightarrow> m \<noteq> s \<Longrightarrow>
      w' (node_at m) = map_option (update_metadata (calc_metadata hash (remove1 n nodes))) (w (node_at m))"
  shows "tidy hash (remove1 n nodes) w' \<and> cluster_map (remove1 n nodes) w' = cluster_map nodes w"
proof -
  let ?R = "remove1 n nodes"
  let ?u = "update_metadata (calc_metadata hash ?R)"
  have ring: "ring_ok hash nodes" using t by (simp add: tidy_def cluster_ok_def)
  note at = left_at [OF ring n]
  note ring' = ring_ok_remove1 [OF ring, of n]
  note owners = leave_owners [OF ring n s]
  have st: "stored_at w' s k = (if stored_at w n k \<noteq> None then stored_at w n k else stored_at w s k)" for k
    using S'(3) w'(1) by (simp add: stored_at_def [of w'])
  note others = updated_server [where w' = w', OF t at(1) w'(2)]
  have sm: "stored_at w' m = stored_at w m" if "m \<in> set ?R" "m \<noteq> s" for m using others(2) that by blast
  have own: "owns hash nodes m k \<and> good_key hash nodes k" if "m \<in> set nodes" "stored_at w m k = Some v" for m k v
    using t that by (auto simp: tidy_def)
  show ?thesis
  proof (rule tidy_redistributed [OF t ring'])
    fix k assume "cluster_map nodes w k \<noteq> None"
    then obtain m v where "m \<in> set nodes" "stored_at w m k = Some v" using cluster_map_iff [OF t, of k] by auto
    with own good_key_mono [OF ring' ring] at(1) show "good_key hash ?R k" by blast
  next
    fix m assume m: "m \<in> set ?R"
    show "CHR '':'' \<notin> set (nodeHost m) \<and> nodePort m \<le> 65535 \<and> (\<exists>T. w' (node_at m) = Some T \<and> serving hash ?R m T \<and> dataToFlush T = [])"
    proof (cases "m = s")
      case True
      have "CHR '':'' \<notin> set (nodeHost s)" "nodePort s \<le> 65535" using tidy_server [OF t at(1) [OF s(1)]] by blast+
      with True w'(1) S'(1,2) show ?thesis by blast
    next
      case False
      with others(1) m show ?thesis by blast
    qed
  next
    fix m k v assume m: "m \<in> set ?R" and v: "stored_at w' m k = Some v"
    show "owns hash ?R m k \<and> (\<exists>m0 \<in> set nodes. stored_at w m0 k = Some v)"
    proof (cases "m = s")
      case True
      then consider "stored_at w n k = Some v" | "stored_at w n k = None" "stored_at w s k = Some v"
        using v st [of k] by (cases "stored_at w n k") auto
      then show ?thesis
      proof cases
        case 1
        with own [OF n 1] owners [of k] True n show ?thesis by blast
      next
        case 2
        have "owns hash nodes s k" using own [OF at(1) [OF s(1)] 2(2)] by blast
        moreover from this have "\<not> owns hash nodes n k" using one_owner [OF ring at(1) [OF s(1)] n] at(2) [OF s(1)] by blast
        ultimately show ?thesis using owners [of k] True s(1) 2(2) at(1) [OF s(1)] by blast
      qed
    next
      case False
      have v': "stored_at w m k = Some v" using v sm [OF m False] by simp
      have "owns hash nodes m k" using own [OF at(1) [OF m] v'] by blast
      moreover from this have "\<not> owns hash nodes n k" using one_owner [OF ring at(1) [OF m] n] at(2) [OF m] by blast
      ultimately show ?thesis using owners [of k] m v' at(1) [OF m] by blast
    qed
  next
    fix m k v assume m: "m \<in> set nodes" and v: "stored_at w m k = Some v"
    consider "m = n" | "m = s" "m \<noteq> n" | "m \<in> set ?R" "m \<noteq> s" using m ring_ok_distinct [OF ring] by auto
    then show "\<exists>m' \<in> set ?R. stored_at w' m' k = Some v"
    proof cases
      case 1
      then have "stored_at w' s k = Some v" using v st by simp
      with s(1) show ?thesis by blast
    next
      case 2
      have "stored_at w n k = None"
        using own [OF m v] own [OF n] one_owner [OF ring m n, of k] 2 by (cases "stored_at w n k") auto
      then have "stored_at w' s k = Some v" using v st 2(1) by simp
      with s(1) show ?thesis by blast
    next
      case 3
      then have "stored_at w' m k = Some v" using v sm by simp
      with 3(1) show ?thesis by blast
    qed
  qed
qed

text \<open>The node moves everything it has to its successor.\<close>

lemma give_cluster:
  assumes t: "tidy hash nodes w" and n: "n \<in> set nodes" and gap: "apart hash nodes n"
    and s: "s \<in> set (remove1 n nodes)"
      "ring_owner (ring_hashes hash (remove1 n nodes)) (computeHash hash (node_address n)) = computeHash hash (node_address s)"
    and i: "i < length nodes" "ring_hashes hash nodes ! i = computeHash hash (node_address n)"
    and N: "w (node_at n) = Some N" and S: "w (node_at s) = Some S"
  obtains N' S' where "moveData hash (server_network hash) (server_range (ring_hashes hash nodes) i) (node_address s) N
      (update_metadata (calc_metadata hash (remove1 n nodes)) S) = (N', S', Inr ())"
    "serving hash (remove1 n nodes) s S'" "dataToFlush S' = []"
    "\<And>k. content S' k = (if stored_at w n k \<noteq> None then stored_at w n k else stored_at w s k)"
proof -
  let ?R = "remove1 n nodes"
  let ?S = "update_metadata (calc_metadata hash ?R) S"
  have ring: "ring_ok hash nodes" using t by (simp add: tidy_def cluster_ok_def)
  note ring' = ring_ok_remove1 [OF ring, of n]
  have sR: "s \<in> set nodes" using left_at [OF ring n s(1)] by blast
  have N': "serving hash nodes n N" "dataToFlush N = []" "stored_at w n = content N"
    using tidy_server [OF t n] N by auto
  have S': "serving hash nodes s S" "dataToFlush S = []" "stored_at w s = content S" "CHR '':'' \<notin> set (nodeHost s)"
    using tidy_server [OF t sR] S by auto
  have sv: "serving hash ?R s ?S" using serving_update [OF S'(1) ring_metadata_calc] .
  have st: "good_key hash nodes k \<and> owns hash nodes n k \<and> \<not> is_delete (Some v)" if "content N k = Some v" for k v
    using that t n N'(3) by (auto simp: tidy_def)
  have takes: "takes_key hash ?S k" if "content N k \<noteq> None" "owns hash nodes n k" for k
    using that st [of k] leave_owners [OF ring n s, of k] serving_takes_key [OF ring' s(1) sv, of k]
      good_key_mono [OF ring' ring set_remove1_subset, of k] by auto
  have ok: "server_ok N" "server_ok ?S" using N'(1) sv by (simp_all add: serving_def)
  have good: "good_key hash nodes k \<and> \<not> is_delete (Some v)" if "content N k = Some v" for k v using st [OF that] by blast
  obtain N1 S1 where m: "moveData hash (server_network hash) (server_range (ring_hashes hash nodes) i) (node_address s) N ?S = (N1, S1, Inr ())"
    "\<And>k. content S1 k = (if owns hash nodes n k \<and> content N k \<noteq> None then content N k else content ?S k)"
    "server_ok S1" "same_config ?S S1"
    using move_own_range [OF ring i ok(1) N'(2) good takes ok(2) parse_show_address [OF S'(4), of "nodePort s"]] by metis
  have c: "content S1 k = (if stored_at w n k \<noteq> None then stored_at w n k else stored_at w s k)" for k
    using m(2) [of k] st [of k] N'(3) S'(3) by (cases "content N k") auto
  have f: "serving hash ?R s S1" "dataToFlush S1 = []"
    using serving_same [OF sv m(3,4)] m(4) S'(2) by (auto simp: same_config_def update_metadata_def)
  show thesis by (rule that [OF m(1) f c])
qed

lemma removeNode_cluster:
  assumes g: "governs hash nodes c" and t: "tidy hash nodes w"
    and f: "find (\<lambda>m. nodeName m = name) nodes = Some n" and gap: "apart hash nodes n" and two: "1 < length nodes"
  shows "\<exists>w'. removeNode hash (cluster_control hash d cf ch p dir) name c w =
      (if cf then c\<lparr>ecsMetadata := Some (calc_metadata hash (remove1 n nodes)), idleServers := idleServers c @ [n],
         activeServers := remove1 n nodes\<rparr> else c\<lparr>ecsMetadata := Some (calc_metadata hash (remove1 n nodes))\<rparr>, w', Inr True) \<and>
    tidy hash (remove1 n nodes) w' \<and> cluster_map (remove1 n nodes) w' = cluster_map nodes w \<and> w' (node_at n) = None"
proof -
  let ?R = "remove1 n nodes" and ?E = "cluster_control hash d cf ch p dir"
  let ?md = "calc_metadata hash ?R"
  let ?c = "c\<lparr>ecsMetadata := Some ?md\<rparr>"
  have ring: "ring_ok hash nodes" using t by (simp add: tidy_def cluster_ok_def)
  note ring' = ring_ok_remove1 [OF ring, of n]
  have n: "n \<in> set nodes" "nodeName n = name" using find_split [OF f] by simp_all
  have ne: "?R \<noteq> []" using two n(1) by (metis One_nat_def diff_is_0_eq length_remove1 list.size(3) not_less)
  obtain md where md: "ecsMetadata c = Some md" "mset md = mset (calc_metadata hash nodes)" "activeServers c = nodes"
    using g by (auto simp: governs_def ring_metadata_def)
  obtain i where i: "i < length nodes" "ring_hashes hash nodes ! i = computeHash hash (node_address n)"
    "getNodeByKey hash md (node_address n) = Inr (Some (node_address n, server_range (ring_hashes hash nodes) i))"
    using own_entry [OF ring n(1) md(2) gap] by metis
  have "apart hash ?R n" using gap set_remove1_subset [of n nodes] by (auto simp: apart_def)
  then obtain j s where s: "s \<in> set ?R"
    "ring_owner (ring_hashes hash ?R) (computeHash hash (node_address n)) = computeHash hash (node_address s)"
    "getNodeByKey hash ?md (node_address n) = Inr (Some (node_address s, server_range (ring_hashes hash ?R) j))"
    using lookup_entry [OF ring' ne refl] by metis
  note at = left_at [OF ring n(1)]
  obtain S where S: "w (node_at s) = Some S" "CHR '':'' \<notin> set (nodeHost s)" "nodePort s \<le> 65535"
    using tidy_server [OF t at(1) [OF s(1)]] by blast
  obtain N where N: "w (node_at n) = Some N" "nodePort n \<le> 65535" using tidy_server [OF t n(1)] by blast
  obtain N' S' where m: "moveData hash (server_network hash) (server_range (ring_hashes hash nodes) i) (node_address s) N
      (update_metadata ?md S) = (N', S', Inr ())" "serving hash ?R s S'" "dataToFlush S' = []"
    "\<And>k. content S' k = (if stored_at w n k \<noteq> None then stored_at w n k else stored_at w s k)"
    using give_cluster [where w = w, OF t n(1) gap s(1,2) i(1,2) N(1) S(1)] by metis
  let ?w1 = "w(node_at s \<mapsto> update_metadata ?md S)"
  let ?w2 = "?w1(node_at n \<mapsto> N', node_at s \<mapsto> S')"
  let ?w3 = "at_nodes nodes (update_metadata ?md) ?w2"
  let ?w4 = "?w3(node_at n := None)"
  have ns: "node_at n \<noteq> node_at s" using at(3) [OF s(1)] by metis
  have w1: "?w1 (node_at n) = Some N" "?w1 (node_at s) = Some (update_metadata ?md S)" using N(1) ns by auto
  have tell: "fst (ask ?E (node_at s) (admin_msg None UPDATE (Some ?md) None) w) = ?w1"
    using ask_cluster [OF request_update [where w = w, OF S(1)]] by simp
  have move: "ask_node ?E n (admin_msg (Some (node_address s)) MOVE_DATA None (Some (server_range (ring_hashes hash nodes) i))) ?w1 =
      (?w2, Inr (Some MOVE_DATA_SUCCESS))"
    by (rule ask_node_cluster [where w = ?w1, OF request_move [where w = ?w1, OF w1 ns parse_show_address [OF S(2), of "nodePort s"] m(1)] w1(1) N(2)])
  have "up nodes ?w2" using tidy_server [OF t] by (fastforce simp: up_def)
  then have upd: "update_nodes ?E (Some ?md) nodes True ?w2 = (?w3, True)" by (rule update_cluster)
  have w3: "?w3 (node_at n) = Some (update_metadata ?md N')" using n(1) ns by (auto simp: at_nodes_def)
  obtain b where shut: "shutdown_server ?E name ?c ?w3 =
      (if cf then (?c\<lparr>idleServers := idleServers c @ [n], activeServers := ?R\<rparr>, ?w4, Inr b)
       else (?c, ?w4, Inl NullPointerException))"
    using shutdown_cluster [where w = ?w3 and seen = "[]" and c = ?c and h = hash and d = d and cf = cf and ch = ch and p = p and dir = dir, OF w3 N(2) f] md(3) by (cases cf) (auto simp: shutdown_server_def)
  have open_s: "open_node ?E (node_at s) w = (w, Inr ())" using open_cluster [where w = w, OF S(1)] S(3) by simp
  have "removeNode hash ?E name c w =
      (if cf then ?c\<lparr>idleServers := idleServers c @ [n], activeServers := ?R\<rparr> else ?c, ?w4, Inr True)"
    using f md(1,3) i(3) s(3) parse_show_address [OF S(2), of "nodePort s"] n(2) open_s tell move upd shut
    by (cases cf) (simp_all add: removeNode_def get_entry_def lookup_node_def hand_over_def updateAllNodesMeta_def Let_def)
  moreover have "tidy hash ?R ?w4 \<and> cluster_map ?R ?w4 = cluster_map nodes w"
  proof (rule tidy_after_leave [OF t n(1) s(1,2)])
    show "serving hash ?R s (update_metadata ?md S')" using serving_update [OF m(2) ring_metadata_calc] .
    show "dataToFlush (update_metadata ?md S') = []" using m(3) by (simp add: update_metadata_def)
    show "?w4 (node_at s) = Some (update_metadata ?md S')" using at(1) [OF s(1)] ns by (auto simp: at_nodes_def)
    show "?w4 (node_at k) = map_option (update_metadata ?md) (w (node_at k))" if k: "k \<in> set ?R" "k \<noteq> s" for k
      using at [OF k(1)] node_at_inj [OF ring at(1) [OF k(1)] at(1) [OF s(1)]] k(2) by (auto simp: at_nodes_def)
  qed (simp add: m(4))
  ultimately show ?thesis by auto
qed

end
