(* ===== verification/EcsHistory.thy ===== *)
theory EcsHistory
  imports EcsRemove
begin

text \<open>
  Clients and the configuration service together: requests of users as operations on the map
  of the cluster, and sequences of joins, leaves and puts.
\<close>

section \<open>Clients of a ring that changes\<close>

text \<open>
  Clients that have the metadata of the ring as it once was, before nodes joined, reach the
  ring with every key: all servers they know are still there. After a leave they do with the
  keys that their metadata route to a server which is still there.
\<close>

lemma older_ring_reaches:
  assumes "ring_ok hash old" "old \<noteq> []" "ksMetadata k = Some m" "ring_metadata hash old m"
    and "\<forall>n \<in> set old. ksAddress k = nodeHost n \<and> ksPort k = int (nodePort n) \<longrightarrow> connected n k"
  shows "(\<exists>n \<in> set old - set nodes. \<exists>r. find_in_range (int (hash key)) m = Inr (Some (node_address n, r))) \<or>
    client_reaches hash nodes key k"
proof -
  obtain i n where "n \<in> set old"
    "find_in_range (int (hash key)) m = Inr (Some (node_address n, server_range (ring_hashes hash old) i))"
    using find_in_range_ring [OF assms(1,2) assms(4) [unfolded ring_metadata_def], of "int (hash key)"] by metis
  then show ?thesis using assms(3,5) unfolding client_reaches_def by blast
qed

section \<open>Requests as operations on the map of the cluster\<close>

lemma cluster_map_owner:
  assumes "tidy hash nodes w" "n \<in> set nodes" "owns hash nodes n k"
  shows "cluster_map nodes w k = stored_at w n k"
proof -
  have ring: "ring_ok hash nodes" using assms(1) by (simp add: tidy_def cluster_ok_def)
  have "stored_at w m k = Some v \<Longrightarrow> m \<in> set nodes \<Longrightarrow> m = n" for m v
    using assms one_owner [OF ring _ assms(2), of m k] by (auto simp: tidy_def)
  then have "cluster_map nodes w k = Some v \<longleftrightarrow> stored_at w n k = Some v" for v
    using cluster_map_iff [OF assms(1)] assms(2) by blast
  then show ?thesis by (metis not_Some_eq)
qed

lemma put_in_cluster:
  assumes t: "tidy hash nodes w" and k: "client_reaches hash nodes key k" and key: "good_key hash nodes key"
  shows "\<exists>k' w' reply. store_put hash (cluster_network hash) key val k w = Some (k', w', Inr reply) \<and>
    client_reaches hash nodes key k' \<and> tidy hash nodes w' \<and> cluster_map nodes w' = put_map key val (cluster_map nodes w) \<and>
    (\<forall>a. a \<notin> node_at ` set nodes \<longrightarrow> w' a = w a)"
proof -
  have ok: "cluster_ok hash nodes w" and ring: "ring_ok hash nodes" using t by (simp_all add: tidy_def cluster_ok_def)
  obtain n k' w' reply where p: "n \<in> set nodes" "owns hash nodes n key" "client_reaches hash nodes key k'" "cluster_ok hash nodes w'"
    "request hash (cluster_network hash) key (kv_msg (Some PUT) (Some key) val) k w = Some (k', w', Inr reply)"
    "spec_serve False False True PUT key val (content (the (w (node_at n)))) =
      (the (msgStatus reply), msgValue reply, content (the (w' (node_at n))))"
    "\<forall>a. a \<noteq> node_at n \<longrightarrow> w' a = w a" "\<forall>a. map_option dataToFlush (w' a) = map_option dataToFlush (w a)"
    using request_reaches [OF ok k key, of PUT val] by blast
  obtain s where s: "w (node_at n) = Some s" using tidy_server [OF t p(1)] by blast
  obtain s' where s': "w' (node_at n) = Some s'" using p(1,4) by (auto simp: cluster_ok_def)
  have "content s' = put_map key val (content s)"
    using p(6) key s s' by (auto simp: spec_serve_def put_map_def good_key_def split: if_splits)
  moreover have "stored_at w n = content s" "stored_at w' n = content s'" using s s' by (simp_all add: stored_at_def fun_eq_iff)
  ultimately have n: "stored_at w' n = put_map key val (stored_at w n)" by simp
  have m: "stored_at w' m = stored_at w m" if "m \<in> set nodes" "m \<noteq> n" for m
  proof -
    have "node_at m \<noteq> node_at n" using node_at_inj [OF ring that(1) p(1)] that(2) by blast
    then show ?thesis using p(7) by (simp add: stored_at_def fun_eq_iff)
  qed
  have "good_key hash nodes h \<and> owns hash nodes m h \<and> \<not> is_delete (Some v)"
    if "m \<in> set nodes" "stored_at w' m h = Some v" for m h v
  proof (cases "m = n \<and> h = key")
    case True
    with that(2) n key p(2) show ?thesis by (auto simp: put_map_def split: if_splits)
  next
    case False
    then have "stored_at w m h = Some v" using that n m [OF that(1)] by (cases "m = n") (auto simp: put_map_def)
    with t that(1) show ?thesis by (auto simp: tidy_def)
  qed
  moreover have "dataToFlush (the (w' (node_at m))) = []" if "m \<in> set nodes" for m
    using p(4,8) t that by (auto simp: tidy_def cluster_ok_def) (metis option.map_sel option.sel option.distinct(1))
  ultimately have t': "tidy hash nodes w'" using p(4) by (simp add: tidy_def)
  moreover have "cluster_map nodes w' = put_map key val (cluster_map nodes w)"
  proof
    fix h
    have "nodes \<noteq> []" using p(1) by auto
    with owner_exists [OF ring] obtain o' where o: "o' \<in> set nodes" "owns hash nodes o' h" unfolding owns_def by metis
    have "h = key \<Longrightarrow> o' = n" using one_owner [OF ring o(1) p(1)] o(2) p(2) by blast
    with n m [OF o(1)] show "cluster_map nodes w' h = put_map key val (cluster_map nodes w) h"
      unfolding cluster_map_owner [OF t' o] put_map_def using cluster_map_owner [OF t o]
      by (cases "o' = n") (auto simp: put_map_def)
  qed
  moreover have "\<forall>a. a \<notin> node_at ` set nodes \<longrightarrow> w' a = w a" using p(1,7) by auto
  ultimately show ?thesis using p(3,5) by (auto simp: store_put_def)
qed

lemma get_in_cluster:
  assumes t: "tidy hash nodes w" and k: "client_reaches hash nodes key k" and key: "good_key hash nodes key"
  shows "\<exists>k' w' reply. store_get hash (cluster_network hash) key k w = Some (k', w', Inr reply) \<and>
    msgValue reply = cluster_map nodes w key"
proof -
  have ok: "cluster_ok hash nodes w" using t by (simp add: tidy_def)
  obtain n k' w' reply where p: "n \<in> set nodes" "owns hash nodes n key"
    "request hash (cluster_network hash) key (kv_msg (Some GET) (Some key) (Some [])) k w = Some (k', w', Inr reply)"
    "spec_serve False False True GET key (Some []) (content (the (w (node_at n)))) =
      (the (msgStatus reply), msgValue reply, content (the (w' (node_at n))))"
    using request_reaches [OF ok k key, of GET "Some []"] by blast
  obtain s where "w (node_at n) = Some s" "stored_at w n = content s" using tidy_server [OF t p(1)] by blast
  with p cluster_map_owner [OF t p(1,2)] show ?thesis by (auto simp: store_get_def spec_serve_def)
qed

section \<open>Histories\<close>

text \<open>
  What can happen to a running cluster, one event after the other. The administrator adds a
  node or removes one; the random choice, the polls of ZooKeeper and the installation directory
  are arbitrary in every step. \<open>disk\<close> are the storage files servers find when they are
  launched; \<open>can_join\<close> asks for an empty one, and one that has left before leaves an empty one
  (\<open>exit_fresh\<close>). The confirmation of a server that leaves arrives; what happens when it does
  not is \<open>lost_confirmation\<close>. Users put pairs, through any client whose metadata name for
  the key a server that is there, or through one whose metadata name a server that is gone, in
  which case the put is lost.
\<close>

datatype cluster_event = Join | Leave string | Put string "string option" | Lost_put string "string option"

fun effect :: "cluster_event \<Rightarrow> (string \<Rightarrow> string option) \<Rightarrow> (string \<Rightarrow> string option)" where
  "effect (Put key val) m = put_map key val m"
| "effect _ m = m"

inductive happens ::
  "(string \<Rightarrow> nat) \<Rightarrow> (string \<Rightarrow> KVStorage) \<Rightarrow> ECSClient \<Rightarrow> cluster \<Rightarrow> cluster_event \<Rightarrow> ECSClient \<Rightarrow> cluster \<Rightarrow> bool"
  for hash disk where
  join: "idleServers c \<noteq> [] \<Longrightarrow>
    can_join hash disk (activeServers c) w (idleServers c ! (choice mod length (idleServers c))) \<Longrightarrow>
    addNode hash (cluster_control hash disk confirms choice polls dir) c w = (c', w', out) \<Longrightarrow>
    happens hash disk c w Join c' w'"
| leave: "find (\<lambda>m. nodeName m = name) (activeServers c) = Some n \<Longrightarrow> apart hash (activeServers c) n \<Longrightarrow>
    1 < length (activeServers c) \<Longrightarrow>
    removeNode hash (cluster_control hash disk True choice polls dir) name c w = (c', w', out) \<Longrightarrow>
    happens hash disk c w (Leave name) c' w'"
| put: "client_reaches hash (activeServers c) key k \<Longrightarrow> good_key hash (activeServers c) key \<Longrightarrow>
    store_put hash (cluster_network hash) key val k w = Some (k', w', out') \<Longrightarrow>
    happens hash disk c w (Put key val) c w'"
| lost: "client_lost hash w key k \<Longrightarrow>
    store_put hash (cluster_network hash) key val k w = Some (k', w', out') \<Longrightarrow>
    happens hash disk c w (Lost_put key val) c w'"

inductive history ::
  "(string \<Rightarrow> nat) \<Rightarrow> (string \<Rightarrow> KVStorage) \<Rightarrow> ECSClient \<Rightarrow> cluster \<Rightarrow> cluster_event list \<Rightarrow> ECSClient \<Rightarrow> cluster \<Rightarrow> bool"
  for hash disk where
  none: "history hash disk c w [] c w"
| more: "happens hash disk c w e c1 w1 \<Longrightarrow> history hash disk c1 w1 es c' w' \<Longrightarrow> history hash disk c w (e # es) c' w'"

inductive_cases historyE: "history hash disk c w (e # es) c' w'"

definition settled :: "(string \<Rightarrow> nat) \<Rightarrow> ECSClient \<Rightarrow> cluster \<Rightarrow> bool" where
  "settled hash c w \<longleftrightarrow> governs hash (activeServers c) c \<and> tidy hash (activeServers c) w"

lemma addNode_added:
  assumes "governs hash nodes c" "tidy hash nodes w" "idleServers c \<noteq> []"
    and "n = idleServers c ! (choice mod length (idleServers c))" "can_join hash disk nodes w n"
  shows "\<exists>w' idle. addNode hash (cluster_control hash disk confirms choice polls dir) c w =
      (c\<lparr>idleServers := idle, activeServers := nodes @ [n], ecsMetadata := Some (calc_metadata hash (nodes @ [n]))\<rparr>, w', Inr n) \<and>
    mset (idleServers c) = add_mset n (mset idle) \<and>
    tidy hash (nodes @ [n]) w' \<and> cluster_map (nodes @ [n]) w' = cluster_map nodes w \<and>
    (\<forall>a. a \<notin> node_at ` set (nodes @ [n]) \<longrightarrow> w' a = w a)"
proof -
  let ?r = "choice mod length (idleServers c)"
  have r: "?r < length (idleServers c)" using assms(3) by simp
  let ?i = "take ?r (idleServers c) @ drop (Suc ?r) (idleServers c)"
  have i: "mset (idleServers c) = add_mset n (mset ?i)"
    unfolding assms(4) by (subst id_take_nth_drop [OF r]) simp
  obtain w' where w': "activate hash (cluster_control hash disk confirms choice polls dir) ?r c w =
      (c\<lparr>idleServers := ?i, activeServers := nodes @ [n], ecsMetadata := Some (calc_metadata hash (nodes @ [n]))\<rparr>, w', Inr n)"
    "tidy hash (nodes @ [n]) w'" "cluster_map (nodes @ [n]) w' = cluster_map nodes w"
    "\<forall>a. a \<notin> node_at ` set (nodes @ [n]) \<longrightarrow> w' a = w a"
    using activate_cluster [OF assms(1,2) r assms(5) [unfolded assms(4)], of confirms choice polls dir] unfolding assms(4) by blast
  have "addNode hash (cluster_control hash disk confirms choice polls dir) c w =
      (c\<lparr>idleServers := ?i, activeServers := nodes @ [n], ecsMetadata := Some (calc_metadata hash (nodes @ [n]))\<rparr>, w', Inr n)"
    using assms(3) w'(1) by (simp add: addNode_def)
  with i w'(2-4) show ?thesis by blast
qed

lemma happens_effect:
  assumes "happens hash disk c w e c' w'" "settled hash c w"
  shows "settled hash c' w' \<and> cluster_map (activeServers c') w' = effect e (cluster_map (activeServers c) w)"
  using assms
proof (induction rule: happens.induct)
  case (join c w choice confirms polls dir c' w' out)
  then have "governs hash (activeServers c) c" "tidy hash (activeServers c) w" by (simp_all add: settled_def)
  from addNode_added [OF this join.hyps(1) refl join.hyps(2), of confirms polls dir] join.hyps(3)
  show ?case by (auto simp: settled_def governs_def)
next
  case (leave name c n choice polls dir w c' w' out)
  then have "governs hash (activeServers c) c" "tidy hash (activeServers c) w" by (simp_all add: settled_def)
  from removeNode_cluster [OF this leave.hyps(1-3), of disk True choice polls dir] leave.hyps(4)
  show ?case by (auto simp: settled_def governs_def)
next
  case (put c k key val w k' w' out')
  from put_in_cluster [OF _ put.hyps(1,2), of w val] put.hyps(3) put.prems
  show ?case by (auto simp: settled_def)
next
  case (lost w key k val k' w' out' c)
  have "w' = w" using request_lost [OF lost.hyps(1), of "kv_msg (Some PUT) (Some key) val"] lost.hyps(2)
    by (auto simp: store_put_def)
  with lost.prems show ?case by simp
qed

lemma history_effect:
  "history hash disk c w es c' w' \<Longrightarrow> settled hash c w \<Longrightarrow>
     settled hash c' w' \<and> cluster_map (activeServers c') w' = fold effect es (cluster_map (activeServers c) w)"
proof (induction rule: history.induct)
  case (none c w)
  then show ?case by simp
next
  case (more c w e c1 w1 es c' w')
  from happens_effect [OF more.hyps(1) more.prems] more.IH show ?case by simp
qed

lemma history_append:
  "history hash disk c w es c1 w1 \<Longrightarrow> history hash disk c1 w1 fs c' w' \<Longrightarrow> history hash disk c w (es @ fs) c' w'"
  by (induction rule: history.induct) (auto intro: history.intros)

end
