(* ===== verification/EcsLoss.thy ===== *)
theory EcsLoss
  imports EcsHistory
begin

text \<open>
  What \<open>stop\<close>, \<open>start\<close> and \<open>removeNodes\<close> do to a tidy cluster, the last of which tells the
  server it removes to move its data to itself.
\<close>

section \<open>Stopping and starting\<close>

lemma up_tidy: "tidy hash nodes w \<Longrightarrow> up nodes w"
  using tidy_server by (fastforce simp: up_def)

lemma all_stopped:
  assumes "up nodes w" "activeServers c = nodes"
  shows "stop_all (cluster_control h d cf ch p dir) c w = (c, at_nodes nodes setStop w, Inr True)"
  using assms by (simp add: stop_all_def stopped_all)

lemma all_started:
  assumes "up nodes w" "activeServers c = nodes"
  shows "start_all (cluster_control h d cf ch p dir) c w = (c, at_nodes nodes setStart w, Inr True)"
  using assms by (simp add: start_all_def started_all)

lemma start_undoes_stop:
  assumes "\<forall>n \<in> set nodes. \<exists>s. w (node_at n) = Some s \<and> \<not> stopped s"
  shows "at_nodes nodes setStart (at_nodes nodes setStop w) = w"
proof
  fix a
  show "at_nodes nodes setStart (at_nodes nodes setStop w) a = w a"
    using assms by (auto simp: at_nodes_def setStart_def setStop_def)
qed

section \<open>A server told to move its data to itself\<close>

text \<open>
  \<open>removeNodes\<close> sends a server its own address. The server is locked while it moves, refuses
  every pair, and goes on.
\<close>

lemma locked_put:
  assumes "w a = Some s" "writeLock s"
  shows "\<exists>reply. netRequest (cluster_network hash) a (put_request k v) w = (w, Inr (Some reply))"
proof -
  obtain reply where "serve hash s (Some (put_request k v)) = (s, Inr (Some reply))"
    using assms(2) by (cases "stopped s") (auto simp: serve_def serve_put_def Let_def)
  with assms(1) netRequest_cluster [where w = w and a = a, OF assms(1) this] show ?thesis by (auto simp: fun_upd_idem)
qed

lemma move_keys_locked:
  assumes "w a = Some l" "writeLock l" "parse_range rng = Inr (rs, re)"
  shows "\<exists>s'. move_keys hash (cluster_network hash) a rng ob s w = (s', w, Inr ())"
proof (induction ob arbitrary: s)
  case Nil
  then show ?case by simp
next
  case (Cons p ob)
  obtain key val where p: "p = (key, val)" by fastforce
  obtain reply where "netRequest (cluster_network hash) a (put_request key (Some val)) w = (w, Inr (Some reply))"
    using locked_put [where w = w and a = a, OF assms(1,2)] by blast
  with Cons.IH assms(3) show ?case by (simp add: p Let_def)
qed

lemma moveData_locked:
  assumes "w a = Some l" "writeLock l" "parse_address self = Inr a" "parse_range rng = Inr (rs, re)"
  shows "\<exists>s' r. moveData hash (cluster_network hash) rng self s w = (s', w, r)"
proof -
  obtain s1 where k: "move_keys hash (cluster_network hash) a rng (snd (getKVObject (srvStorage (lockWrite s))))
      ((lockWrite s)\<lparr>srvStorage := fst (getKVObject (srvStorage (lockWrite s)))\<rparr>) w = (s1, w, Inr ())"
    using move_keys_locked [where w = w and a = a, OF assms(1,2,4)] by blast
  obtain s4 r4 where "flushServer s1 = (s4, r4)" by fastforce
  then show ?thesis using k assms(1,3) by (cases r4) (simp_all add: moveData_def Let_def case_prod_beta)
qed

lemma request_move_self:
  assumes "w a = Some s" "parse_address self = Inr a" "parse_range rng = Inr (rs, re)"
  shows "\<exists>s' st. cluster_request hash cf a (admin_msg (Some self) MOVE_DATA None (Some rng)) w =
    (w(a \<mapsto> s'), Some (admin_reply (Some st)))"
proof -
  let ?w = "w(a \<mapsto> lockWrite s)"
  have l: "?w a = Some (lockWrite s)" "writeLock (lockWrite s)" by (simp_all add: lockWrite_def)
  obtain s' r where "moveData hash (cluster_network hash) rng self s ?w = (s', ?w, r)"
    using moveData_locked [where w = ?w and a = a, OF l assms(2,3)] by blast
  then show ?thesis using assms(1)
    by (cases r) (auto simp: cluster_request_def admin_msg_def peers_view_def adminServe_def)
qed

text \<open>The server confirms and is gone.\<close>

lemma move_to_self:
  assumes "w (node_at n) = Some s" "CHR '':'' \<notin> set (nodeHost n)" "nodePort n \<le> 65535" "parse_range rng = Inr (rs, re)"
  shows "move_and_shutdown (cluster_control hash d True ch p dir) n (Some (saddr, rng)) w = (w(node_at n := None), True)"
proof -
  let ?E = "cluster_control hash d True ch p dir"
  obtain s' st where mv: "cluster_request hash True (node_at n) (admin_msg (Some (node_address n)) MOVE_DATA None (Some rng)) w =
      (w(node_at n \<mapsto> s'), Some (admin_reply (Some st)))"
    using request_move_self [where w = w, OF assms(1) parse_show_address [OF assms(2), of "nodePort n"] assms(4)] by blast
  let ?w = "w(node_at n \<mapsto> s')"
  have "?w (node_at n) = Some s'" by simp
  note down = request_shutdown [where w = ?w, OF this, of hash True]
  have "open_node ?E (node_at n) w = (w, Inr ())" using open_cluster [where w = w, OF assms(1)] assms(3) by simp
  with mv down show ?thesis by (simp add: move_and_shutdown_def ask_def)
qed

lemma remove_named_others:
  "\<forall>m \<in> set ys. nodeName m \<noteq> name \<Longrightarrow>
     remove_named hash E name th seen (ys @ zs) c w = remove_named hash E name th (seen @ ys) zs c w"
  by (induction ys arbitrary: seen) simp_all

lemma tell_cluster:
  assumes "w (node_at s) = Some S" "CHR '':'' \<notin> set (nodeHost s)" "nodePort s \<le> 65535"
  shows "tell_successor (cluster_control h d cf ch p dir) (Some md) (node_address s) w = w(node_at s \<mapsto> update_metadata md S)"
proof -
  have "ask (cluster_control h d cf ch p dir) (node_at s) (admin_msg None UPDATE (Some md) None) w =
      (w(node_at s \<mapsto> update_metadata md S), Inr (Some UPDATE_SUCCESS))"
    using ask_cluster [OF request_update [where w = w, OF assms(1)]] .
  moreover have "open_node (cluster_control h d cf ch p dir) (node_at s) w = (w, Inr ())"
    using open_cluster [where w = w, OF assms(1)] assms(3) by simp
  ultimately show ?thesis using parse_show_address [OF assms(2), of "nodePort s"] by (simp add: tell_successor_def)
qed

lemma tidyI:
  assumes "ring_ok hash nodes"
    and "\<And>m. m \<in> set nodes \<Longrightarrow> CHR '':'' \<notin> set (nodeHost m) \<and> nodePort m \<le> 65535 \<and>
      (\<exists>s. w (node_at m) = Some s \<and> serving hash nodes m s \<and> dataToFlush s = [] \<and>
        (\<forall>k v. content s k = Some v \<longrightarrow> good_key hash nodes k \<and> owns hash nodes m k \<and> \<not> is_delete (Some v)))"
  shows "tidy hash nodes w"
  using assms by (fastforce simp: tidy_def cluster_ok_def stored_at_def)

text \<open>The servers that stay hold what they held, and nobody has the pairs of the other.\<close>

lemma tidy_after_loss:
  assumes t: "tidy hash nodes w" and n: "n \<in> set nodes" and ne: "remove1 n nodes \<noteq> []"
    and w': "\<And>m. m \<in> set (remove1 n nodes) \<Longrightarrow>
      w' (node_at m) = map_option (update_metadata (calc_metadata hash (remove1 n nodes))) (w (node_at m))"
  shows "tidy hash (remove1 n nodes) w' \<and>
    (\<forall>k. cluster_map (remove1 n nodes) w' k = (if owns hash nodes n k then None else cluster_map nodes w k))"
proof -
  let ?R = "remove1 n nodes"
  let ?u = "update_metadata (calc_metadata hash ?R)"
  have ring: "ring_ok hash nodes" using t by (simp add: tidy_def cluster_ok_def)
  note ring' = ring_ok_remove1 [OF ring, of n]
  note at = left_at [OF ring n]
  obtain s where s: "s \<in> set ?R"
    "ring_owner (ring_hashes hash ?R) (computeHash hash (node_address n)) = computeHash hash (node_address s)"
    using owner_exists [OF ring' ne] by metis
  have own: "owns hash nodes m k \<and> good_key hash nodes k \<and> \<not> is_delete (Some v)" if "m \<in> set nodes" "stored_at w m k = Some v" for m k v
    using t that by (auto simp: tidy_def)
  have not_n: "\<not> owns hash nodes n k" if "m \<in> set ?R" "owns hash nodes m k" for m k
    using one_owner [OF ring at(1) [OF that(1)] n that(2)] at(2) [OF that(1)] by blast
  have sm: "stored_at w' m = stored_at w m" if "m \<in> set ?R" for m
    using updated_server(2) [where w' = w', OF t at(1) w'] that by blast
  have tidy: "tidy hash ?R w'"
  proof (rule tidyI [OF ring'])
    fix m assume m: "m \<in> set ?R"
    obtain T where T: "w (node_at m) = Some T" "serving hash nodes m T" "dataToFlush T = []" "stored_at w m = content T"
      "CHR '':'' \<notin> set (nodeHost m)" "nodePort m \<le> 65535" using tidy_server [OF t at(1) [OF m]] by blast
    have "w' (node_at m) = Some (?u T)" using w' [OF m] T(1) by simp
    moreover have "dataToFlush (?u T) = []" using T(3) by (simp add: update_metadata_def)
    moreover have "good_key hash ?R k \<and> owns hash ?R m k \<and> \<not> is_delete (Some v)" if "content (?u T) k = Some v" for k v
    proof -
      have "stored_at w m k = Some v" using that T(4) by simp
      from own [OF at(1) [OF m] this] have o: "owns hash nodes m k" "good_key hash nodes k" "\<not> is_delete (Some v)" by blast+
      with leave_owners [OF ring n s, of k] not_n [OF m o(1)] m good_key_mono [OF ring' ring set_remove1_subset]
      show ?thesis by blast
    qed
    ultimately show "CHR '':'' \<notin> set (nodeHost m) \<and> nodePort m \<le> 65535 \<and>
      (\<exists>s. w' (node_at m) = Some s \<and> serving hash ?R m s \<and> dataToFlush s = [] \<and>
        (\<forall>k v. content s k = Some v \<longrightarrow> good_key hash ?R k \<and> owns hash ?R m k \<and> \<not> is_delete (Some v)))"
      using T(5,6) serving_update [OF T(2) ring_metadata_calc] by blast
  qed
  moreover have "cluster_map ?R w' k = (if owns hash nodes n k then None else cluster_map nodes w k)" for k
  proof -
    have "cluster_map ?R w' k = Some v \<longleftrightarrow> \<not> owns hash nodes n k \<and> cluster_map nodes w k = Some v" for v
    proof -
      have "(\<exists>m \<in> set ?R. stored_at w' m k = Some v) \<longleftrightarrow> \<not> owns hash nodes n k \<and> (\<exists>m \<in> set nodes. stored_at w m k = Some v)"
      proof (safe)
        fix m assume m: "m \<in> set ?R" "stored_at w' m k = Some v"
        then have st: "stored_at w m k = Some v" using sm by simp
        show "\<exists>m \<in> set nodes. stored_at w m k = Some v" using st at(1) [OF m(1)] by blast
        show False if "owns hash nodes n k" using own [OF at(1) [OF m(1)] st] not_n [OF m(1)] that by blast
      next
        fix m assume m: "\<not> owns hash nodes n k" "m \<in> set nodes" "stored_at w m k = Some v"
        then have "m \<noteq> n" using own by blast
        then have "m \<in> set ?R" using m(2) by (simp add: in_set_remove1)
        with m(3) sm show "\<exists>m \<in> set ?R. stored_at w' m k = Some v" by force
      qed
      then show ?thesis using cluster_map_iff [OF tidy] cluster_map_iff [OF t] by blast
    qed
    then show ?thesis by (metis not_None_eq)
  qed
  ultimately show ?thesis by blast
qed

end
