(* ===== verification/EcsProperties.thy ===== *)
theory EcsProperties
  imports EcsLoss
begin

text \<open>
  The properties of the configuration service and the cluster it governs, with a small
  cluster on which each of them is applied.
\<close>

section \<open>A small cluster for the witnesses\<close>

definition demo_hash :: "string \<Rightarrow> nat" where
  "demo_hash s =
     (if s = ''127.0.0.1:1'' then 100 else if s = ''127.0.0.1:2'' then 200 else if s = ''127.0.0.1:3'' then 300 else 150)"

definition demo_node :: "nat \<Rightarrow> ECSNode" where
  "demo_node i = \<lparr>nodeName = CHR ''s'' # show_base 10 i, nodeHost = ''127.0.0.1'', nodePort = i\<rparr>"

definition demo_disk :: "string \<Rightarrow> KVStorage" where
  "demo_disk name = \<lparr>kvFile = None, kvIO = IoOk, kvJson = example_json\<rparr>"

definition demo_client :: ECSClient where
  "demo_client = empty_client\<lparr>idleServers := [demo_node 1, demo_node 2], ecsMetadata := Some []\<rparr>"

definition demo_control :: "cluster control" where
  "demo_control = cluster_control demo_hash demo_disk True 0 (\<lambda>t. ([], Inr 0)) ''dir''"

lemma demo_fresh: "fresh_disk demo_disk name"
  by (auto simp: fresh_disk_def demo_disk_def storage_ok_def example_json_ok stored_def getKVObject_def)

lemma demo_rings:
  "ring_ok demo_hash [demo_node 1]" "ring_ok demo_hash [demo_node 1, demo_node 2]"
  "apart demo_hash [demo_node 1] (demo_node 2)" "apart demo_hash [demo_node 1, demo_node 2] (demo_node 2)"
  unfolding apart_def by code_simp+

lemma demo_good: "good_key demo_hash [demo_node 1] ''k''" "good_key demo_hash [demo_node 1, demo_node 2] ''k''"
  by code_simp+

lemma demo_at: "node_at (demo_node i) = (''127.0.0.1'', i)" "nodeHost (demo_node i) = ''127.0.0.1''" "nodePort (demo_node i) = i"
  by (simp_all add: demo_node_def)

lemma demo_start: "settled demo_hash demo_client Map.empty"
  by (simp add: settled_def governs_def demo_client_def empty_client_def ring_metadata_def calc_metadata_def tidy_def cluster_ok_def ring_ok_def)

text \<open>One node, and a pair put by a client.\<close>

lemma demo_one:
  obtains c w where "happens demo_hash demo_disk demo_client Map.empty Join c w" "settled demo_hash c w"
    "idleServers c = [demo_node 2]" "activeServers c = [demo_node 1]" "cluster_map [demo_node 1] w = Map.empty"
    "w (''127.0.0.1'', 2) = None"
proof -
  have s: "governs demo_hash [] demo_client" "tidy demo_hash [] Map.empty"
    using demo_start by (simp_all add: settled_def demo_client_def empty_client_def)
  have join: "can_join demo_hash demo_disk [] Map.empty (demo_node 1)"
    using demo_rings(1) demo_fresh by (simp add: can_join_def demo_at cluster_map_def apart_def)
  have i: "idleServers demo_client = [demo_node 1, demo_node 2]" by (simp add: demo_client_def)
  have n: "demo_node 1 = idleServers demo_client ! (0 mod length (idleServers demo_client))" by (simp add: i)
  obtain w idle where a: "addNode demo_hash (cluster_control demo_hash demo_disk True 0 (\<lambda>t. ([], Inr 0)) ''dir'') demo_client Map.empty =
      (demo_client\<lparr>idleServers := idle, activeServers := [] @ [demo_node 1],
        ecsMetadata := Some (calc_metadata demo_hash ([] @ [demo_node 1]))\<rparr>, w, Inr (demo_node 1))"
    "mset (idleServers demo_client) = add_mset (demo_node 1) (mset idle)" "cluster_map ([] @ [demo_node 1]) w = cluster_map [] Map.empty"
    "\<forall>a. a \<notin> node_at ` set ([] @ [demo_node 1]) \<longrightarrow> w a = None"
    using addNode_added [OF s _ n join, of True "\<lambda>t. ([], Inr 0)" "''dir''"] i by auto
  have "mset idle = {#demo_node 2#}" using a(2) i by simp
  then have idle: "idle = [demo_node 2]" by (metis mset_single_iff_right)
  let ?c = "demo_client\<lparr>idleServers := idle, activeServers := [demo_node 1], ecsMetadata := Some (calc_metadata demo_hash [demo_node 1])\<rparr>"
  have "activeServers demo_client = []" by (simp add: demo_client_def empty_client_def)
  then have h: "happens demo_hash demo_disk demo_client Map.empty Join ?c w"
    using happens.join [of demo_client demo_hash demo_disk Map.empty 0 True "\<lambda>t. ([], Inr 0)" "''dir''" ?c w "Inr (demo_node 1)"] a(1) join i
    by simp
  show thesis
    by (rule that [OF h]) (use happens_effect [OF h demo_start] idle a(3,4) in \<open>auto simp: demo_at cluster_map_def\<close>)
qed

lemma demo_put:
  assumes "settled demo_hash c w" "activeServers c = nodes" "demo_node 1 \<in> set nodes" "good_key demo_hash nodes key"
  obtains w' where "happens demo_hash demo_disk c w (Put key val) c w'" "\<forall>a. a \<notin> node_at ` set nodes \<longrightarrow> w' a = w a"
proof -
  have t: "tidy demo_hash nodes w" using assms(1,2) by (simp add: settled_def)
  then have "cluster_ok demo_hash nodes w" by (simp add: tidy_def)
  from new_client_ok [OF this assms(3)] obtain k where "client_ok demo_hash nodes k" by blast
  then have k: "client_reaches demo_hash nodes key k" by (rule client_ok_reaches)
  from put_in_cluster [OF t k assms(4), of val] obtain k' w' reply where
    p: "store_put demo_hash (cluster_network demo_hash) key val k w = Some (k', w', Inr reply)"
    "\<forall>a. a \<notin> node_at ` set nodes \<longrightarrow> w' a = w a" by blast
  show thesis by (rule that [OF happens.put [OF _ _ p(1)] p(2)]) (use assms(2,4) k in simp_all)
qed

lemma demo_stored:
  obtains c w where "history demo_hash demo_disk demo_client Map.empty [Join, Put ''k'' (Some ''v'')] c w" "settled demo_hash c w"
    "idleServers c = [demo_node 2]" "activeServers c = [demo_node 1]" "cluster_map [demo_node 1] w = [''k'' \<mapsto> ''v'']"
    "can_join demo_hash demo_disk [demo_node 1] w (demo_node 2)"
proof -
  obtain c w where 1: "happens demo_hash demo_disk demo_client Map.empty Join c w" "settled demo_hash c w"
    "idleServers c = [demo_node 2]" "activeServers c = [demo_node 1]" "cluster_map [demo_node 1] w = Map.empty"
    "w (''127.0.0.1'', 2) = None" by (rule demo_one)
  obtain w' where 2: "happens demo_hash demo_disk c w (Put ''k'' (Some ''v'')) c w'"
    "\<forall>a. a \<notin> node_at ` set [demo_node 1] \<longrightarrow> w' a = w a"
    using demo_put [OF 1(2,4) _ demo_good(1), of "Some ''v''"] by auto
  have m: "cluster_map [demo_node 1] w' = [''k'' \<mapsto> ''v'']"
    using happens_effect [OF 2(1) 1(2)] 1(4,5) by (simp add: put_map_def is_delete_def)
  have "can_join demo_hash demo_disk [demo_node 1] w' (demo_node 2)"
    using 1(6) 2(2) demo_rings demo_fresh demo_good m by (auto simp: can_join_def demo_at split: if_splits)
  moreover have "history demo_hash demo_disk demo_client Map.empty [Join, Put ''k'' (Some ''v'')] c w'"
    using 1(1) 2(1) by (blast intro: history.intros)
  moreover have "settled demo_hash c w'" using happens_effect [OF 2(1) 1(2)] by blast
  ultimately show thesis using that 1(3,4) m by blast
qed

lemma demo_two:
  obtains c w where "history demo_hash demo_disk demo_client Map.empty [Join, Put ''k'' (Some ''v''), Join] c w" "settled demo_hash c w"
    "idleServers c = []" "activeServers c = [demo_node 1, demo_node 2]" "cluster_map [demo_node 1, demo_node 2] w = [''k'' \<mapsto> ''v'']"
proof -
  obtain c w where 1: "history demo_hash demo_disk demo_client Map.empty [Join, Put ''k'' (Some ''v'')] c w" "settled demo_hash c w"
    "idleServers c = [demo_node 2]" "activeServers c = [demo_node 1]" "cluster_map [demo_node 1] w = [''k'' \<mapsto> ''v'']"
    "can_join demo_hash demo_disk [demo_node 1] w (demo_node 2)" by (rule demo_stored)
  have s: "governs demo_hash [demo_node 1] c" "tidy demo_hash [demo_node 1] w" using 1(2,4) by (simp_all add: settled_def)
  have n: "demo_node 2 = idleServers c ! (0 mod length (idleServers c))" by (simp add: 1(3))
  obtain w' idle where a: "addNode demo_hash (cluster_control demo_hash demo_disk True 0 (\<lambda>t. ([], Inr 0)) ''dir'') c w =
      (c\<lparr>idleServers := idle, activeServers := [demo_node 1] @ [demo_node 2],
        ecsMetadata := Some (calc_metadata demo_hash ([demo_node 1] @ [demo_node 2]))\<rparr>, w', Inr (demo_node 2))"
    "mset (idleServers c) = add_mset (demo_node 2) (mset idle)" "cluster_map ([demo_node 1] @ [demo_node 2]) w' = cluster_map [demo_node 1] w"
    using addNode_added [OF s _ n 1(6), of True "\<lambda>t. ([], Inr 0)" "''dir''"] 1(3) by auto
  have idle: "idle = []" using a(2) 1(3) by simp
  let ?c = "c\<lparr>idleServers := idle, activeServers := [demo_node 1, demo_node 2], ecsMetadata := Some (calc_metadata demo_hash [demo_node 1, demo_node 2])\<rparr>"
  have h: "happens demo_hash demo_disk c w Join ?c w'"
    using happens.join [of c demo_hash demo_disk w 0 True "\<lambda>t. ([], Inr 0)" "''dir''" ?c w' "Inr (demo_node 2)"] a(1) 1(3,4,6) by simp
  have "history demo_hash demo_disk c w [Join] ?c w'" using h by (blast intro: history.intros)
  then have "history demo_hash demo_disk demo_client Map.empty [Join, Put ''k'' (Some ''v''), Join] ?c w'"
    using history_append [OF 1(1)] by fastforce
  then show thesis
    by (rule that) (use happens_effect [OF h 1(2)] idle a(3) 1(5) in auto)
qed

section \<open>Properties\<close>

text \<open>
  C5. Adding a server loses nothing. In a tidy cluster governed by the service, \<open>addNode\<close> of an
  idle server that can join succeeds, whatever ZooKeeper reports meanwhile: the new ring is
  tidy, all its servers serve with the new metadata, and the cluster as a whole holds exactly
  the pairs it held before.
\<close>

theorem addNode_keeps_data:
  assumes "governs hash nodes c" and "tidy hash nodes w" and "idleServers c \<noteq> []"
    and "n = idleServers c ! (choice mod length (idleServers c))" and "can_join hash disk nodes w n"
  shows "\<exists>w' idle. addNode hash (cluster_control hash disk confirms choice polls dir) c w =
      (c\<lparr>idleServers := idle, activeServers := nodes @ [n], ecsMetadata := Some (calc_metadata hash (nodes @ [n]))\<rparr>, w', Inr n) \<and>
    mset (idleServers c) = add_mset n (mset idle) \<and>
    tidy hash (nodes @ [n]) w' \<and> cluster_map (nodes @ [n]) w' = cluster_map nodes w"
  using addNode_added [OF assms, of confirms polls dir] by blast

theorem addNode_keeps_data_witness:
  "\<exists>c w. cluster_map [demo_node 1] w ''k'' = Some ''v'' \<and>
     (\<exists>c' w'. addNode demo_hash demo_control c w = (c', w', Inr (demo_node 2)) \<and>
        activeServers c' = [demo_node 1, demo_node 2] \<and>
        cluster_map [demo_node 1, demo_node 2] w' ''k'' = Some ''v'')"
proof -
  obtain c w where 1: "settled demo_hash c w" "idleServers c = [demo_node 2]" "activeServers c = [demo_node 1]"
    "cluster_map [demo_node 1] w = [''k'' \<mapsto> ''v'']" "can_join demo_hash demo_disk [demo_node 1] w (demo_node 2)"
    by (rule demo_stored)
  have s: "governs demo_hash [demo_node 1] c" "tidy demo_hash [demo_node 1] w" using 1(1,3) by (simp_all add: settled_def)
  have n: "demo_node 2 = idleServers c ! (0 mod length (idleServers c))" by (simp add: 1(2))
  from addNode_keeps_data [OF s _ n 1(5), of True "\<lambda>t. ([], Inr 0)" "''dir''"] 1(2) obtain w' idle where
    "addNode demo_hash demo_control c w = (c\<lparr>idleServers := idle, activeServers := [demo_node 1] @ [demo_node 2],
       ecsMetadata := Some (calc_metadata demo_hash ([demo_node 1] @ [demo_node 2]))\<rparr>, w', Inr (demo_node 2))"
    "cluster_map ([demo_node 1] @ [demo_node 2]) w' = cluster_map [demo_node 1] w"
    unfolding demo_control_def by auto
  with 1(4) show ?thesis by (intro exI [of _ c] exI [of _ w]) simp
qed

text \<open>
  C6. Removing a server loses nothing. When a server of the ring is removed by its name, it hands
  all its pairs to its successor before it is shut down: \<open>removeNode\<close> answers true, the ring of
  the others is tidy and holds exactly the pairs the cluster held before.
\<close>

theorem removeNode_keeps_data:
  assumes "governs hash nodes c" and "tidy hash nodes w"
    and "find (\<lambda>m. nodeName m = name) nodes = Some n" and "apart hash nodes n" and "1 < length nodes"
  shows "\<exists>w'. removeNode hash (cluster_control hash disk True choice polls dir) name c w =
      (c\<lparr>ecsMetadata := Some (calc_metadata hash (remove1 n nodes)), idleServers := idleServers c @ [n],
         activeServers := remove1 n nodes\<rparr>, w', Inr True) \<and>
    tidy hash (remove1 n nodes) w' \<and> cluster_map (remove1 n nodes) w' = cluster_map nodes w \<and> w' (node_at n) = None"
  using removeNode_cluster [OF assms, of disk True choice polls dir] by simp

theorem removeNode_keeps_data_witness:
  "\<exists>c w. cluster_map [demo_node 1, demo_node 2] w ''k'' = Some ''v'' \<and>
     (\<exists>c' w'. removeNode demo_hash demo_control ''s2'' c w = (c', w', Inr True) \<and>
        activeServers c' = [demo_node 1] \<and> cluster_map [demo_node 1] w' ''k'' = Some ''v'')"
proof -
  obtain c w where 1: "settled demo_hash c w" "activeServers c = [demo_node 1, demo_node 2]"
    "cluster_map [demo_node 1, demo_node 2] w = [''k'' \<mapsto> ''v'']"
    by (rule demo_two)
  have s: "governs demo_hash [demo_node 1, demo_node 2] c" "tidy demo_hash [demo_node 1, demo_node 2] w"
    using 1(1,2) by (simp_all add: settled_def)
  have f: "find (\<lambda>m. nodeName m = ''s2'') [demo_node 1, demo_node 2] = Some (demo_node 2)" by code_simp
  have r: "remove1 (demo_node 2) [demo_node 1, demo_node 2] = [demo_node 1]" by (simp add: demo_node_def)
  obtain w' where
    "removeNode demo_hash demo_control ''s2'' c w = (c\<lparr>ecsMetadata := Some (calc_metadata demo_hash [demo_node 1]),
       idleServers := idleServers c @ [demo_node 2], activeServers := [demo_node 1]\<rparr>, w', Inr True)"
    "cluster_map [demo_node 1] w' = cluster_map [demo_node 1, demo_node 2] w"
    using removeNode_keeps_data [OF s f demo_rings(4), of demo_disk 0 "\<lambda>t. ([], Inr 0)" "''dir''"]
    unfolding r demo_control_def by auto
  with 1(3) show ?thesis by (intro exI [of _ c] exI [of _ w]) simp
qed

text \<open>
  C4. The cluster behaves as one map. Take any sequence, in any order, of nodes that join, nodes
  that leave and pairs that users put. A node that joins has a free address and an empty disk
  and is three away on the ring from the others, with no stored pair on the new borders
  (\<open>can_join\<close>); one that leaves is apart in the same way, is not the last, and confirms; a key
  has at most 20 bytes and is not on the border of two ranges (\<open>good_key\<close>). Then the cluster
  stays tidy and holds what a single map would hold after the same puts. A put counts when
  the metadata of the client, be they those it started with, those of the ring or those of
  an earlier one, name for the key a server that is in the ring; when the server they name is
  gone, the put fails and changes nothing. A get of a client of the first kind then returns the value of the map, and
  one of a client of the second kind ends with an exception.
\<close>

theorem history_refines_map:
  assumes "history hash disk c w es c' w'" and "settled hash c w"
  shows "settled hash c' w' \<and> cluster_map (activeServers c') w' = fold effect es (cluster_map (activeServers c) w) \<and>
    (\<forall>key k. client_reaches hash (activeServers c') key k \<and> good_key hash (activeServers c') key \<longrightarrow>
       (\<exists>k' w'' reply. store_get hash (cluster_network hash) key k w' = Some (k', w'', Inr reply) \<and>
          msgValue reply = fold effect es (cluster_map (activeServers c) w) key)) \<and>
    (\<forall>key k. client_lost hash w' key k \<longrightarrow>
       (\<exists>k' e. store_get hash (cluster_network hash) key k w' = Some (k', w', Inl e)))"
proof -
  from history_effect [OF assms] have e: "settled hash c' w'"
    "cluster_map (activeServers c') w' = fold effect es (cluster_map (activeServers c) w)" by blast+
  have t: "tidy hash (activeServers c') w'" using e(1) by (simp add: settled_def)
  have "\<exists>k' w'' reply. store_get hash (cluster_network hash) key k w' = Some (k', w'', Inr reply) \<and>
      msgValue reply = fold effect es (cluster_map (activeServers c) w) key"
    if "client_reaches hash (activeServers c') key k" "good_key hash (activeServers c') key" for key k
    using get_in_cluster [OF t that] unfolding e(2) .
  moreover have "\<exists>k' e. store_get hash (cluster_network hash) key k w' = Some (k', w', Inl e)"
    if "client_lost hash w' key k" for key k
    unfolding store_get_def using request_lost [OF that] by blast
  ultimately show ?thesis using e by blast
qed

theorem history_refines_map_witness:
  "\<exists>c' w'. history demo_hash demo_disk demo_client Map.empty [Join, Put ''k'' (Some ''v''), Join] c' w' \<and>
     activeServers c' = [demo_node 1, demo_node 2] \<and> cluster_map (activeServers c') w' = [''k'' \<mapsto> ''v'']"
proof -
  obtain c w where h: "history demo_hash demo_disk demo_client Map.empty [Join, Put ''k'' (Some ''v''), Join] c w"
    "activeServers c = [demo_node 1, demo_node 2]" by (rule demo_two)
  have "cluster_map (activeServers demo_client) Map.empty = Map.empty"
    by (auto simp: demo_client_def empty_client_def cluster_map_def)
  with history_refines_map [OF h(1) demo_start] have "cluster_map (activeServers c) w = [''k'' \<mapsto> ''v'']"
    by (simp add: put_map_def is_delete_def)
  with h show ?thesis by blast
qed

text \<open>
  C7. \<open>removeNodes\<close> loses data. It tells every server to move its data to itself; the server is
  locked by the move, refuses all pairs and erases them, and is shut down. The other servers
  keep what they had, and every pair the removed server owned is gone.
\<close>

theorem removeNodes_loses_data:
  assumes g: "governs hash nodes c" and t: "tidy hash nodes w" and names: "distinct (map nodeName nodes)"
    and n: "n \<in> set nodes" and two: "1 < length nodes"
  shows "\<exists>w'. removeNodes hash (cluster_control hash disk True choice polls dir) [nodeName n] c w =
      (c\<lparr>ecsMetadata := Some (calc_metadata hash (remove1 n nodes)), idleServers := idleServers c @ [n],
         activeServers := remove1 n nodes\<rparr>, w', Inr False) \<and>
    tidy hash (remove1 n nodes) w' \<and>
    (\<forall>k. cluster_map (remove1 n nodes) w' k = (if owns hash nodes n k then None else cluster_map nodes w k))"
proof -
  let ?R = "remove1 n nodes" and ?E = "cluster_control hash disk True choice polls dir"
  let ?md = "calc_metadata hash ?R"
  let ?c1 = "c\<lparr>ecsMetadata := Some ?md\<rparr>"
  let ?c2 = "?c1\<lparr>idleServers := idleServers c @ [n], activeServers := ?R\<rparr>"
  have ring: "ring_ok hash nodes" using t by (simp add: tidy_def cluster_ok_def)
  note ring' = ring_ok_remove1 [OF ring, of n]
  note at = left_at [OF ring n]
  have ne: "?R \<noteq> []" using two n by (metis One_nat_def diff_is_0_eq length_remove1 list.size(3) not_less)
  have act: "activeServers c = nodes" using g by (simp add: governs_def)
  obtain ys zs where yz: "nodes = ys @ n # zs" using n by (auto simp: in_set_conv_decomp)
  have "nodeName n \<notin> nodeName ` set ys \<union> nodeName ` set zs" using names unfolding yz by simp
  then have others: "\<forall>m \<in> set ys. nodeName m \<noteq> nodeName n" "\<forall>m \<in> set zs. nodeName m \<noteq> nodeName n" by (metis UnCI imageI)+
  have R: "?R = ys @ zs" using yz others(1) by (auto simp: remove1_append)
  obtain i s where s: "i < length ?R" "s \<in> set ?R"
    "find_in_range (int (hash (node_address n)) - 2) ?md = Inr (Some (node_address s, server_range (ring_hashes hash ?R) i))"
    using find_in_range_ring [OF ring' ne refl] by metis
  obtain S where S: "w (node_at s) = Some S" "CHR '':'' \<notin> set (nodeHost s)" "nodePort s \<le> 65535"
    using tidy_server [OF t at(1) [OF s(2)]] by blast
  obtain N where N: "w (node_at n) = Some N" "CHR '':'' \<notin> set (nodeHost n)" "nodePort n \<le> 65535" using tidy_server [OF t n] by blast
  have ns: "node_at n \<noteq> node_at s" using at(3) [OF s(2)] by metis
  let ?w1 = "w(node_at s \<mapsto> update_metadata ?md S)"
  have w1: "?w1 (node_at n) = Some N" using N(1) ns by auto
  let ?w3 = "?w1(node_at n := None)"
  let ?w4 = "at_nodes ?R (update_metadata ?md) ?w3"
  have gone: "move_and_shutdown ?E n (Some (node_address s, server_range (ring_hashes hash ?R) i)) ?w1 = (?w3, True)"
    using move_to_self [where w = ?w1, OF w1 N(2,3) parse_server_range [OF ring' s(1)]] .
  have "up ?R ?w3" using tidy_server [OF t at(1)] at(3) by (fastforce simp: up_def)
  then have upd: "update_nodes ?E (Some ?md) ?R True ?w3 = (?w4, True)" by (rule update_cluster)
  have "remove_named hash ?E (nodeName n) nodes ys (n # zs) c w = remove_named hash ?E (nodeName n) ?R ys zs ?c2 ?w4"
    using s(3) tell_cluster [where w = w, OF S] gone upd R yz
    by (simp add: lookup_node_def getNodeByKey_def updateAllNodesMeta_def Let_def)
  also have "\<dots> = (?c2, ?w4, Inr ?R)" using remove_named_others [OF others(2), of hash ?E ?R ys "[]"] by simp
  finally have "removeNodes hash ?E [nodeName n] c w = (?c2, ?w4, Inr False)"
    using remove_named_others [OF others(1), of hash ?E nodes "[]" "n # zs" c w] act yz
    by (simp add: removeNodes_def)
  moreover have "?w4 (node_at m) = map_option (update_metadata ?md) (w (node_at m))" if m: "m \<in> set ?R" for m
  proof (cases "m = s")
    case True
    then show ?thesis using m S(1) at(3) [OF m] by (auto simp: at_nodes_def update_metadata_def)
  next
    case False
    then have "node_at m \<noteq> node_at s" using node_at_inj [OF ring at(1) [OF m] at(1) [OF s(2)]] by blast
    then show ?thesis using m at(3) [OF m] by (auto simp: at_nodes_def)
  qed
  with tidy_after_loss [OF t n ne, of ?w4] have "tidy hash ?R ?w4 \<and>
    (\<forall>k. cluster_map ?R ?w4 k = (if owns hash nodes n k then None else cluster_map nodes w k))" by blast
  ultimately show ?thesis by auto
qed

theorem removeNodes_loses_data_witness:
  "\<exists>c w. cluster_map [demo_node 1, demo_node 2] w ''k'' = Some ''v'' \<and>
     (\<exists>c' w'. removeNodes demo_hash demo_control [''s2''] c w = (c', w', Inr False) \<and>
        cluster_map [demo_node 1] w' ''k'' = None)"
proof -
  obtain c w where 1: "settled demo_hash c w" "activeServers c = [demo_node 1, demo_node 2]"
    "cluster_map [demo_node 1, demo_node 2] w = [''k'' \<mapsto> ''v'']"
    by (rule demo_two)
  have s: "governs demo_hash [demo_node 1, demo_node 2] c" "tidy demo_hash [demo_node 1, demo_node 2] w"
    using 1(1,2) by (simp_all add: settled_def)
  have d: "distinct (map nodeName [demo_node 1, demo_node 2])" "nodeName (demo_node 2) = ''s2''" by code_simp+
  have o: "owns demo_hash [demo_node 1, demo_node 2] (demo_node 2) ''k''" by code_simp
  have r: "remove1 (demo_node 2) [demo_node 1, demo_node 2] = [demo_node 1]" by (simp add: demo_node_def)
  obtain w' where
    "removeNodes demo_hash demo_control [''s2''] c w = (c\<lparr>ecsMetadata := Some (calc_metadata demo_hash [demo_node 1]),
       idleServers := idleServers c @ [demo_node 2], activeServers := [demo_node 1]\<rparr>, w', Inr False)"
    "cluster_map [demo_node 1] w' ''k'' = None"
    using removeNodes_loses_data [OF s d(1), of "demo_node 2" demo_disk 0 "\<lambda>t. ([], Inr 0)" "''dir''"] o
    unfolding r d(2) demo_control_def by auto
  with 1(3) show ?thesis by (intro exI [of _ c] exI [of _ w]) simp
qed

text \<open>
  C8. Stopping and starting. \<open>stop\<close> reports success and leaves a cluster in which every server
  refuses every request without touching its data; \<open>start\<close> reports success and restores
  exactly the cluster as it was.
\<close>

theorem stop_then_start:
  assumes "governs hash nodes c" and "tidy hash nodes w"
  shows "\<exists>w'. stop_all (cluster_control hash disk confirms choice polls dir) c w = (c, w', Inr True) \<and>
    (\<forall>n \<in> set nodes. \<forall>r key val. netRequest (cluster_network hash) (node_at n) (kv_msg (Some r) (Some key) val) w' =
       (w', Inr (Some (kv_msg (Some SERVER_STOPPED) (Some key) None)))) \<and>
    start_all (cluster_control hash disk confirms choice polls dir) c w' = (c, w, Inr True)"
proof -
  let ?w = "at_nodes nodes setStop w"
  have a: "activeServers c = nodes" using assms(1) by (simp add: governs_def)
  note up = up_tidy [OF assms(2)]
  have "up nodes ?w" using up by (auto simp: up_def at_nodes_def)
  from all_started [OF this a] have "start_all (cluster_control hash disk confirms choice polls dir) c ?w =
      (c, at_nodes nodes setStart ?w, Inr True)" .
  moreover have "at_nodes nodes setStart ?w = w"
    by (rule start_undoes_stop) (use tidy_server [OF assms(2)] in \<open>fastforce simp: serving_def\<close>)
  moreover have "netRequest (cluster_network hash) (node_at n) (kv_msg (Some r) (Some key) val) ?w =
      (?w, Inr (Some (kv_msg (Some SERVER_STOPPED) (Some key) None)))" if n: "n \<in> set nodes" for n r key val
  proof -
    obtain s where "w (node_at n) = Some s" using tidy_server [OF assms(2) n] by blast
    then have "?w (node_at n) = Some (setStop s)" using n by (auto simp: at_nodes_def)
    then show ?thesis by (simp add: cluster_network_def serve_def setStop_def fun_upd_idem)
  qed
  ultimately show ?thesis using all_stopped [OF up a] by metis
qed

theorem stop_then_start_witness:
  "\<exists>c w w'. cluster_map [demo_node 1, demo_node 2] w ''k'' = Some ''v'' \<and>
     stop_all demo_control c w = (c, w', Inr True) \<and> start_all demo_control c w' = (c, w, Inr True)"
proof -
  obtain c w where 1: "settled demo_hash c w" "activeServers c = [demo_node 1, demo_node 2]"
    "cluster_map [demo_node 1, demo_node 2] w = [''k'' \<mapsto> ''v'']"
    by (rule demo_two)
  have s: "governs demo_hash [demo_node 1, demo_node 2] c" "tidy demo_hash [demo_node 1, demo_node 2] w"
    using 1(1,2) by (simp_all add: settled_def)
  from stop_then_start [OF s, of demo_disk True 0 "\<lambda>t. ([], Inr 0)" "''dir''"] 1(3) show ?thesis
    unfolding demo_control_def by (metis fun_upd_same)
qed

text \<open>
  A confirmation that does not arrive. The server is gone, with its pairs handed over, but it
  stays in the list of active servers, and from then on \<open>start\<close> ends with an exception.
\<close>

theorem lost_confirmation:
  assumes "governs hash nodes c" and "tidy hash nodes w"
    and "find (\<lambda>m. nodeName m = name) nodes = Some n" and "apart hash nodes n" and "1 < length nodes"
  shows "\<exists>c' w'. removeNode hash (cluster_control hash disk False choice polls dir) name c w = (c', w', Inr True) \<and>
    activeServers c' = nodes \<and> w' (node_at n) = None \<and>
    (\<exists>e. snd (snd (start_all (cluster_control hash disk False choice polls dir) c' w')) = Inl e)"
proof -
  let ?E = "cluster_control hash disk False choice polls dir"
  obtain w' where w': "removeNode hash ?E name c w = (c\<lparr>ecsMetadata := Some (calc_metadata hash (remove1 n nodes))\<rparr>, w', Inr True)"
    "w' (node_at n) = None"
    using removeNode_cluster [OF assms, of disk False choice polls dir] by auto
  have fails: "\<exists>e. snd (broadcast ?E START START_SUCCESS ns b v) = Inl e" if "n \<in> set ns" "v (node_at n) = None" for ns b v
    using that
  proof (induction ns arbitrary: b v)
    case Nil
    then show ?case by simp
  next
    case (Cons m ns)
    obtain v' r where a: "ask_node ?E m (admin_msg None START None None) v = (v', r)" by fastforce
    show ?case
    proof (cases r)
      case (Inl e)
      with a show ?thesis by simp
    next
      case (Inr st)
      have open_m: "snd (open_node ?E (node_at m) v) = (if 65535 < nodePort m then Inl IllegalArgumentException
          else if v (node_at m) = None then Inl IOException else Inr ())" by (simp add: open_node_def)
      have "v (node_at m) \<noteq> None"
        using a Inr open_m by (auto simp: ask_node_def open_node_def split: if_splits)
      then obtain s where s: "v (node_at m) = Some s" by blast
      then have "v' = v(node_at m \<mapsto> setStart s)"
        using a Inr request_start [where w = v, OF s, of hash False]
        by (auto simp: ask_node_def ask_def open_node_def split: if_splits)
      moreover have "node_at m \<noteq> node_at n" using s Cons.prems(2) by auto
      ultimately have "v' (node_at n) = None" "n \<in> set ns" using Cons.prems by auto
      then show ?thesis using Cons.IH a Inr by simp
    qed
  qed
  have "n \<in> set nodes" using find_split [OF assms(3)] by blast
  with fails [where v = w' and ns = nodes, OF this w'(2)] w' assms(1) show ?thesis by (auto simp: start_all_def governs_def)
qed

text \<open>
  Servers believe to be on \<open>127.0.0.1\<close>. A server launched on any other host does not find
  itself in the metadata it is given, so every request for a key fails with a null pointer.
\<close>

theorem foreign_host_never_serves:
  assumes "(show_address ''127.0.0.1'' (nodePort n)) \<notin> set (map fst md)" and "r = GET \<or> r = PUT"
    and "key \<noteq> []" and "utf8_size key \<le> 20"
  shows "serve hash (setStart (initKVServer md (booted disk n))) (Some (kv_msg (Some r) (Some key) val)) =
    (setStart (initKVServer md (booted disk n)), Inl NullPointerException)"
proof -
  let ?s = "setStart (initKVServer md (booted disk n))"
  have f: "\<not> stopped ?s" "\<not> writeLock ?s" "srvMetadata ?s = Some md" "srvHost ?s = ''127.0.0.1''" "srvPort ?s = nodePort n"
    by (simp_all add: setStart_def initKVServer_def booted_def setStop_def new_KVServer_def)
  have "inRange hash ?s key = Inl NullPointerException"
    using assms(1) f(3-5) by (simp add: inRange_def map_of_eq_None_iff [THEN iffD2])
  moreover have "utf8_size key \<noteq> 0" using assms(3) by (simp add: utf8_size_pos)
  ultimately show ?thesis using assms(2,4) f(1,2) by (auto simp: serve_def serve_get_def serve_put_def Let_def)
qed

end
