(* ===== verification/JsBase.thy ===== *)
theory JsBase
  imports Prelude "HOL-Library.Word"
begin

text \<open>
  The JavaScript values the message clients compute with. A string is the list of its
  UTF-16 code units, numbers below 65536 (\<open>js\<close> turns an ASCII literal into one); a byte
  buffer (\<open>Uint8Array\<close>) is a list of numbers below 256: a store reduces the
  value modulo 256 and a store outside the buffer is ignored, as typed arrays do.
  The exceptions the clients throw or provoke are the values of \<open>js_error\<close>; a
  fallible operation returns \<open>js_error + 'a\<close>, chained by \<open>bindE\<close>.
\<close>

type_synonym jsstring = "nat list"
type_synonym buffer = "nat list"

datatype js_error =
    MalformedUtf | MalformedUnicode | TypeError | RangeError | ReferenceError
  | InvalidState | InvalidType | InvalidArgument | UnsupportedOperation
  | InvalidStoredData | TooManyMessages | UnknownProperty | InvalidOption | Unsupported
  | DomException

definition js :: "string \<Rightarrow> jsstring" where
  "js s = map of_char s"

definition dec_string :: "nat \<Rightarrow> jsstring" where
  "dec_string n = js (show_base 10 n)"

fun bindE :: "'e + 'a \<Rightarrow> ('a \<Rightarrow> 'e + 'b) \<Rightarrow> 'e + 'b" where
  "bindE (Inl e) f = Inl e"
| "bindE (Inr x) f = f x"

lemma bindE_split_asm: "bindE m f = Inr y \<longleftrightarrow> (\<exists>x. m = Inr x \<and> f x = Inr y)"
  by (cases m) auto

section \<open>32-bit shifts\<close>

definition to_int32 :: "int \<Rightarrow> int" where
  "to_int32 x = (x + 0x80000000) mod 0x100000000 - 0x80000000"

definition js_shr :: "int \<Rightarrow> nat \<Rightarrow> int" where
  "js_shr x k = to_int32 x div 2 ^ k"

lemma to_int32_id: "0 \<le> x \<Longrightarrow> x < 0x80000000 \<Longrightarrow> to_int32 x = x"
  by (simp add: to_int32_def)

lemma to_int32_le: "0 \<le> x \<Longrightarrow> to_int32 x \<le> x"
proof (cases "x < 0x80000000")
  case True
  assume "0 \<le> x"
  with True show ?thesis by (simp add: to_int32_id)
next
  case False
  have "(x + 0x80000000) mod 0x100000000 < 0x100000000" by simp
  with False show ?thesis by (simp add: to_int32_def)
qed

lemma js_shr_small: "0 \<le> x \<Longrightarrow> x < 0x80000000 \<Longrightarrow> js_shr x k = x div 2 ^ k"
  by (simp add: js_shr_def to_int32_id)

lemma js_shr_less:
  assumes x: "0 < x" and k: "0 < k"
  shows "js_shr x k < x"
proof (cases "0 < to_int32 x")
  case True
  then have "to_int32 x div 2 ^ k < to_int32 x" using k by (intro int_div_less_self) auto
  with to_int32_le [of x] x show ?thesis by (simp add: js_shr_def)
next
  case False
  then have "to_int32 x div 2 ^ k \<le> 0" using zdiv_mono1 [of "to_int32 x" 0 "2 ^ k"] by simp
  with x show ?thesis by (simp add: js_shr_def)
qed

section \<open>Byte buffers\<close>

definition store_byte :: "nat \<Rightarrow> buffer \<Rightarrow> nat \<Rightarrow> buffer" where
  "store_byte v buf pos = buf[pos := v mod 256]"

fun store_seq :: "nat list \<Rightarrow> buffer \<Rightarrow> nat \<Rightarrow> buffer" where
  "store_seq [] buf pos = buf"
| "store_seq (b # bs) buf pos = store_seq bs (store_byte b buf pos) (Suc pos)"

text \<open>\<open>byteStream.set(bytes, pos)\<close>: throws when the bytes do not fit.\<close>

definition set_bytes :: "nat list \<Rightarrow> buffer \<Rightarrow> nat \<Rightarrow> js_error + buffer" where
  "set_bytes bs buf pos =
     (if pos + length bs \<le> length buf
      then Inr (take pos buf @ map (\<lambda>b. b mod 256) bs @ drop (pos + length bs) buf)
      else Inl RangeError)"

text \<open>
  \<open>written buf pos w k\<close>: the buffer starts with the bytes \<open>w\<close>, the position is just
  behind them and \<open>k\<close> bytes are left. Every write of a field moves the position on.
\<close>

definition written :: "buffer \<Rightarrow> nat \<Rightarrow> nat list \<Rightarrow> nat \<Rightarrow> bool" where
  "written buf pos w k \<longleftrightarrow> (\<exists>r. buf = w @ r \<and> length r = k \<and> pos = length w)"

lemma written_done: "written buf pos w 0 \<Longrightarrow> buf = w"
  by (auto simp: written_def)

lemma written_store:
  assumes "written buf pos w (Suc k)" "b < 256"
  shows "written (store_byte b buf pos) (Suc pos) (w @ [b]) k"
proof -
  from assms obtain r0 r where "buf = w @ r0 # r" "length r = k" "pos = length w"
    by (auto simp: written_def length_Suc_conv)
  with assms(2) show ?thesis by (auto simp: written_def store_byte_def)
qed

lemma written_store_seq:
  "written buf pos w (length bs + k) \<Longrightarrow> \<forall>b \<in> set bs. b < 256 \<Longrightarrow>
     written (store_seq bs buf pos) (pos + length bs) (w @ bs) k"
proof (induction bs arbitrary: buf pos w)
  case Nil
  then show ?case by simp
next
  case (Cons b bs)
  then have "written (store_byte b buf pos) (Suc pos) (w @ [b]) (length bs + k)"
    by (intro written_store) auto
  with Cons.IH Cons.prems show ?case by fastforce
qed

lemma store_seq_middle:
  "length mid = length bs \<Longrightarrow> \<forall>b \<in> set bs. b < 256 \<Longrightarrow>
     store_seq bs (pre @ mid @ post) (length pre) = pre @ bs @ post"
proof (induction bs arbitrary: pre mid)
  case Nil
  then show ?case by simp
next
  case (Cons b bs)
  then obtain m mid' where m: "mid = m # mid'" "length mid' = length bs"
    by (auto simp: length_Suc_conv)
  then have "store_seq bs ((pre @ [b]) @ mid' @ post) (length (pre @ [b])) = (pre @ [b]) @ bs @ post"
    using Cons.IH [of mid' "pre @ [b]"] Cons.prems(2) by simp
  with m Cons.prems show ?case by (simp add: store_byte_def)
qed

lemma written_set_bytes:
  assumes "written buf pos w (length bs + k)" "\<forall>b \<in> set bs. b < 256"
  obtains buf' where "set_bytes bs buf pos = Inr buf'" "written buf' (pos + length bs) (w @ bs) k"
proof -
  from assms obtain r where r: "buf = w @ r" "length r = length bs + k" "pos = length w"
    by (auto simp: written_def)
  have "map (\<lambda>b. b mod 256) bs = bs" using assms(2) by (simp add: map_idI)
  with r have "set_bytes bs buf pos = Inr (w @ bs @ drop (length bs) r)"
    by (simp add: set_bytes_def)
  moreover have "written (w @ bs @ drop (length bs) r) (pos + length bs) (w @ bs) k"
    using r by (auto simp: written_def)
  ultimately show thesis by (rule that)
qed

section \<open>Fields that can be read back\<close>

text \<open>
  The contract of a field of the wire format: \<open>put_field x\<close> is its bytes and
  \<open>get_field buf pos\<close> reads the value and the position behind it, whatever follows.
\<close>

locale wire_field =
  fixes put_field :: "'a \<Rightarrow> nat list"
    and get_field :: "buffer \<Rightarrow> nat \<Rightarrow> ('a \<times> nat) option"
    and valid :: "'a \<Rightarrow> bool"
  assumes get_put: "valid x \<Longrightarrow>
    get_field (pre @ put_field x @ post) (length pre) = Some (x, length pre + length (put_field x))"
begin

lemma get_put_at:
  "valid x \<Longrightarrow> pos = length pre \<Longrightarrow>
     get_field (pre @ put_field x @ post) pos = Some (x, pos + length (put_field x))"
  by (simp add: get_put)

lemma put_field_inject:
  assumes "valid x" "valid y" "put_field x @ p = put_field y @ q"
  shows "x = y"
  using get_put [OF assms(1), of "[]" p] get_put [OF assms(2), of "[]" q] assms(3) by simp

end

end
