(* ===== verification/Utf8Codec.thy ===== *)
theory Utf8Codec
  imports JsBase
begin

unbundle bit_operations_syntax

text \<open>
  The UTF-8 codec of the MQTT client, \<open>UTF8Length\<close>, \<open>stringToUTF8\<close> and
  \<open>parseUTF8\<close> of \<open>mqttws31.js\<close>, on UTF-16 code units. The decoder reads its
  buffer without checking the end: a read outside gives \<open>undefined\<close>, whose arithmetic is
  NaN (here \<open>None\<close>), and a character computed from NaN is the code unit 0.
  \<open>wf_utf16\<close> describes the strings in which every high surrogate is followed by a
  low one; on these, length, encoder and decoder agree.
\<close>

section \<open>The code\<close>

definition is_high_surrogate :: "nat \<Rightarrow> bool" where
  "is_high_surrogate c \<longleftrightarrow> 0xD800 \<le> c \<and> c \<le> 0xDBFF"

lemma high_surrogate_gt: "is_high_surrogate c \<Longrightarrow> 0x7FF < c"
  by (simp add: is_high_surrogate_def)

fun UTF8Length :: "jsstring \<Rightarrow> nat" where
  "UTF8Length [] = 0"
| "UTF8Length (c # cs) =
     (if c > 0x7FF then
        (if is_high_surrogate c then 1 + 3 + UTF8Length (drop 1 cs) else 3 + UTF8Length cs)
      else if c > 0x7F then 2 + UTF8Length cs
      else 1 + UTF8Length cs)"

text \<open>The bytes written for one code point.\<close>

definition code_point_bytes :: "nat \<Rightarrow> nat list" where
  "code_point_bytes c =
     (if c \<le> 0x7F then [c]
      else if c \<le> 0x7FF then
        [drop_bit 6 c AND 0x1F OR 0xC0, c AND 0x3F OR 0x80]
      else if c \<le> 0xFFFF then
        [drop_bit 12 c AND 0x0F OR 0xE0, drop_bit 6 c AND 0x3F OR 0x80, c AND 0x3F OR 0x80]
      else
        [drop_bit 18 c AND 0x07 OR 0xF0, drop_bit 12 c AND 0x3F OR 0x80,
         drop_bit 6 c AND 0x3F OR 0x80, c AND 0x3F OR 0x80])"

text \<open>
  The sequence of bytes the loop of \<open>stringToUTF8\<close> stores: a high surrogate takes the
  next code unit, whatever it is, and throws when there is none.
\<close>

fun utf8_bytes :: "jsstring \<Rightarrow> js_error + nat list" where
  "utf8_bytes [] = Inr []"
| "utf8_bytes (c # cs) =
     (if is_high_surrogate c then
        (case cs of
           [] \<Rightarrow> Inl MalformedUnicode
         | l # ls \<Rightarrow>
             bindE (utf8_bytes ls)
               (\<lambda>bs. Inr (code_point_bytes (push_bit 10 (c - 0xD800) + (l + 0x10000 - 0xDC00)) @ bs)))
      else bindE (utf8_bytes cs) (\<lambda>bs. Inr (code_point_bytes c @ bs)))"

definition stringToUTF8 :: "jsstring \<Rightarrow> buffer \<Rightarrow> nat \<Rightarrow> js_error + buffer" where
  "stringToUTF8 input output start =
     bindE (utf8_bytes input) (\<lambda>bs. Inr (store_seq bs output start))"

text \<open>Reading a byte: \<open>undefined\<close> outside the buffer.\<close>

definition read_byte :: "buffer \<Rightarrow> nat \<Rightarrow> nat option" where
  "read_byte input pos = (if pos < length input then Some (input ! pos) else None)"

text \<open>\<open>String.fromCharCode\<close> of a number or NaN.\<close>

definition fromCharCode :: "int option \<Rightarrow> nat" where
  "fromCharCode n = (case n of None \<Rightarrow> 0 | Some k \<Rightarrow> nat (k mod 65536))"

definition utf16_units :: "int option \<Rightarrow> jsstring" where
  "utf16_units utf16 =
     (case utf16 of
        None \<Rightarrow> [fromCharCode None]
      | Some u \<Rightarrow>
          if u > 0xFFFF then
            (let v = u - 0x10000
             in [fromCharCode (Some (0xD800 + drop_bit 10 v)), fromCharCode (Some (0xDC00 + (v AND 0x3FF)))])
          else [fromCharCode (Some u)])"

text \<open>
  One round of the loop of \<open>parseUTF8\<close> at a position: the code units appended and the
  number of continuation bytes read.
\<close>

definition continuation :: "buffer \<Rightarrow> nat \<Rightarrow> int option" where
  "continuation input pos = map_option (\<lambda>b. int b - 128) (read_byte input pos)"

definition negative :: "int option \<Rightarrow> bool" where
  "negative x = (case x of None \<Rightarrow> False | Some k \<Rightarrow> k < 0)"

definition plus_nan :: "int option \<Rightarrow> int option \<Rightarrow> int option" where
  "plus_nan x y = (case (x, y) of (Some a, Some b) \<Rightarrow> Some (a + b) | _ \<Rightarrow> None)"

definition times_nan :: "int \<Rightarrow> int option \<Rightarrow> int option" where
  "times_nan a x = map_option (\<lambda>b. a * b) x"

definition parse_char :: "buffer \<Rightarrow> nat \<Rightarrow> js_error + (jsstring \<times> nat)" where
  "parse_char input pos =
     (case read_byte input pos of
        None \<Rightarrow> Inl TypeError
      | Some byte1 \<Rightarrow>
          if byte1 < 128 then Inr (utf16_units (Some (int byte1)), 0)
          else
            (let byte2 = continuation input (pos + 1) in
             if negative byte2 then Inl MalformedUtf
             else if byte1 < 0xE0 then
               Inr (utf16_units (plus_nan (Some (64 * (int byte1 - 0xC0))) byte2), 1)
             else
               (let byte3 = continuation input (pos + 2) in
                if negative byte3 then Inl MalformedUtf
                else if byte1 < 0xF0 then
                  Inr (utf16_units (plus_nan (plus_nan (Some (4096 * (int byte1 - 0xE0)))
                         (times_nan 64 byte2)) byte3), 2)
                else
                  (let byte4 = continuation input (pos + 3) in
                   if negative byte4 then Inl MalformedUtf
                   else if byte1 < 0xF8 then
                     Inr (utf16_units (plus_nan (plus_nan (plus_nan (Some (262144 * (int byte1 - 0xF0)))
                            (times_nan 4096 byte2)) (times_nan 64 byte3)) byte4), 3)
                   else Inl MalformedUtf))))"

function parse_loop :: "buffer \<Rightarrow> nat \<Rightarrow> nat \<Rightarrow> js_error + jsstring" where
  "parse_loop input stop pos =
     (if pos < stop then
        (case parse_char input pos of
           Inl e \<Rightarrow> Inl e
         | Inr (units, extra) \<Rightarrow>
             bindE (parse_loop input stop (pos + 1 + extra)) (\<lambda>rest. Inr (units @ rest)))
      else Inr [])"
  by pat_completeness auto
termination
  by (relation "measure (\<lambda>(input, stop, pos). stop - pos)") auto

declare parse_loop.simps [simp del]

definition parseUTF8 :: "buffer \<Rightarrow> nat \<Rightarrow> nat \<Rightarrow> js_error + jsstring" where
  "parseUTF8 input offset len = parse_loop input (offset + len) offset"

section \<open>Bit masks as arithmetic\<close>

lemma and_mask_nat:
  "(c::nat) AND 7 = c mod 8" "c AND 15 = c mod 16" "c AND 31 = c mod 32" "c AND 63 = c mod 64"
proof -
  have "c AND mask n = c mod 2 ^ n" for n by (simp add: take_bit_eq_mask [symmetric] take_bit_eq_mod)
  from this [of 3] this [of 4] this [of 5] this [of 6]
  show "c AND 7 = c mod 8" "c AND 15 = c mod 16" "c AND 31 = c mod 32" "c AND 63 = c mod 64"
    by (simp_all add: mask_eq_exp_minus_1)
qed

lemma or_lead_byte:
  "(b::nat) < 64 \<Longrightarrow> b OR 128 = b + 128" "b < 32 \<Longrightarrow> b OR 192 = b + 192"
  "b < 16 \<Longrightarrow> b OR 224 = b + 224" "b < 8 \<Longrightarrow> b OR 240 = b + 240"
proof -
  have "\<forall>b \<in> set [0..<64]. b OR 128 = b + (128::nat)" by code_simp
  then show "b < 64 \<Longrightarrow> b OR 128 = b + 128" by simp
  have "\<forall>b \<in> set [0..<32]. b OR 192 = b + (192::nat)" by code_simp
  then show "b < 32 \<Longrightarrow> b OR 192 = b + 192" by simp
  have "\<forall>b \<in> set [0..<16]. b OR 224 = b + (224::nat)" by code_simp
  then show "b < 16 \<Longrightarrow> b OR 224 = b + 224" by simp
  have "\<forall>b \<in> set [0..<8]. b OR 240 = b + (240::nat)" by code_simp
  then show "b < 8 \<Longrightarrow> b OR 240 = b + 240" by simp
qed

lemma code_point_bytes_arith:
  "code_point_bytes c =
     (if c \<le> 0x7F then [c]
      else if c \<le> 0x7FF then [c div 64 mod 32 + 192, c mod 64 + 128]
      else if c \<le> 0xFFFF then [c div 4096 mod 16 + 224, c div 64 mod 64 + 128, c mod 64 + 128]
      else [c div 262144 mod 8 + 240, c div 4096 mod 64 + 128, c div 64 mod 64 + 128, c mod 64 + 128])"
  by (simp add: code_point_bytes_def and_mask_nat or_lead_byte drop_bit_eq_div)

lemma code_point_bytes_bound: "b \<in> set (code_point_bytes c) \<Longrightarrow> b < 256"
  by (auto simp: code_point_bytes_arith split: if_splits)

section \<open>Well-formed strings\<close>

fun wf_utf16 :: "jsstring \<Rightarrow> bool" where
  "wf_utf16 [] = True"
| "wf_utf16 (c # cs) =
     (if is_high_surrogate c then
        (case cs of [] \<Rightarrow> False | l # ls \<Rightarrow> 0xDC00 \<le> l \<and> l \<le> 0xDFFF \<and> wf_utf16 ls)
      else c < 65536 \<and> wf_utf16 cs)"

lemma utf8_bytes_bound: "utf8_bytes s = Inr bs \<Longrightarrow> b \<in> set bs \<Longrightarrow> b < 256"
  by (induction s arbitrary: bs rule: utf8_bytes.induct)
    (auto simp: bindE_split_asm dest: code_point_bytes_bound split: if_splits list.splits)

lemma utf8_bytes_length:
  "wf_utf16 s \<Longrightarrow> \<exists>bs. utf8_bytes s = Inr bs \<and> length bs = UTF8Length s"
proof (induction s rule: utf8_bytes.induct)
  case 1
  then show ?case by simp
next
  case (2 c cs)
  show ?case
  proof (cases "is_high_surrogate c")
    case False
    with 2 obtain bs where "utf8_bytes cs = Inr bs" "length bs = UTF8Length cs" by auto
    with 2 False show ?thesis by (auto simp: code_point_bytes_arith is_high_surrogate_def)
  next
    case True
    with 2 obtain l ls bs where "cs = l # ls" "utf8_bytes ls = Inr bs" "length bs = UTF8Length ls"
      by (auto split: list.splits)
    moreover from True have "0x7FF < c" by (simp add: is_high_surrogate_def)
    ultimately show ?thesis using 2 True
      by (auto simp: code_point_bytes_arith push_bit_eq_mult)
  qed
qed

section \<open>Decoding what was encoded\<close>

definition code_point_units :: "nat \<Rightarrow> jsstring" where
  "code_point_units c =
     (if c > 0xFFFF then [0xD800 + (c - 0x10000) div 1024, 0xDC00 + (c - 0x10000) mod 1024] else [c])"

lemma base64_digits:
  fixes c :: nat
  shows "c = 64 * (c div 64) + c mod 64"
    and "c = 4096 * (c div 4096) + 64 * (c div 64 mod 64) + c mod 64"
    and "c = 262144 * (c div 262144) + 4096 * (c div 4096 mod 64) + 64 * (c div 64 mod 64) + c mod 64"
proof -
  have 1: "c = 64 * (c div 64) + c mod 64" by simp
  have 2: "c div 64 = 64 * (c div 4096) + c div 64 mod 64"
    using mult_div_mod_eq [of 64 "c div 64"] by (simp add: div_mult2_eq [symmetric])
  have 3: "c div 4096 = 64 * (c div 262144) + c div 4096 mod 64"
    using mult_div_mod_eq [of 64 "c div 4096"] by (simp add: div_mult2_eq [symmetric])
  show "c = 64 * (c div 64) + c mod 64" by (rule 1)
  show "c = 4096 * (c div 4096) + 64 * (c div 64 mod 64) + c mod 64" using 1 2 by linarith
  show "c = 262144 * (c div 262144) + 4096 * (c div 4096 mod 64) + 64 * (c div 64 mod 64) + c mod 64"
    using 1 2 3 by linarith
qed

lemma utf16_units_code_point:
  assumes "c < 0x110000"
  shows "utf16_units (Some (int c)) = code_point_units c"
proof (cases "c > 0xFFFF")
  case False
  then show ?thesis by (simp add: utf16_units_def code_point_units_def fromCharCode_def)
next
  case True
  define v where "v = c - 0x10000"
  have c: "int c - 65536 = int v" using True by (simp add: v_def)
  have a: "int v AND 1023 = int (v mod 1024)"
    using take_bit_eq_mask [of 10 "int v"] by (simp add: take_bit_eq_mod mask_eq_exp_minus_1 zmod_int)
  have d: "drop_bit 10 (int v) = int (v div 1024)" by (simp add: drop_bit_eq_div zdiv_int)
  have "v div 1024 < 1024" using assms by (simp add: v_def)
  then show ?thesis using True
    by (simp add: utf16_units_def code_point_units_def fromCharCode_def c a d v_def [symmetric] Let_def)
      (simp add: nat_add_distrib nat_mod_distrib)
qed

lemma read_byte_at: "read_byte (pre @ bs) (length pre + i) = read_byte bs i"
  by (simp add: read_byte_def nth_append)

lemma read_byte_Cons [simp]:
  "read_byte (b # bs) 0 = Some b" "read_byte (b # bs) (Suc i) = read_byte bs i"
  by (simp_all add: read_byte_def)

lemma parse_char_code_point:
  assumes "c < 0x110000"
  shows "parse_char (pre @ code_point_bytes c @ post) (length pre) =
    Inr (code_point_units c, length (code_point_bytes c) - 1)"
proof -
  let ?bs = "code_point_bytes c @ post"
  have r: "read_byte (pre @ ?bs) (length pre) = read_byte ?bs 0"
    "continuation (pre @ ?bs) (length pre + i) = continuation ?bs i" for i
    using read_byte_at [of pre ?bs 0] by (simp_all add: continuation_def read_byte_at)
  consider "c \<le> 0x7F" | "0x7F < c" "c \<le> 0x7FF" | "0x7FF < c" "c \<le> 0xFFFF" | "0xFFFF < c"
    by linarith
  then show ?thesis
  proof cases
    case 1
    with assms show ?thesis
      unfolding parse_char_def r by (simp add: code_point_bytes_arith utf16_units_code_point)
  next
    case 2
    then have "int c = 64 * int (c div 64) + int (c mod 64)" "c div 64 < 32"
      using base64_digits(1) [of c] by linarith+
    with 2 assms show ?thesis
      unfolding parse_char_def r
      by (simp add: code_point_bytes_arith continuation_def negative_def plus_nan_def numeral_2_eq_2
          Let_def utf16_units_code_point [symmetric])
  next
    case 3
    then have "int c = 4096 * int (c div 4096) + 64 * int (c div 64 mod 64) + int (c mod 64)"
        "c div 4096 < 16"
      using base64_digits(2) [of c] by linarith+
    with 3 assms show ?thesis
      unfolding parse_char_def r
      by (simp add: code_point_bytes_arith continuation_def negative_def plus_nan_def times_nan_def
          numeral_2_eq_2 Let_def utf16_units_code_point [symmetric])
  next
    case 4
    then have "int c = 262144 * int (c div 262144) + 4096 * int (c div 4096 mod 64)
        + 64 * int (c div 64 mod 64) + int (c mod 64)" "c div 262144 < 8"
      using base64_digits(3) [of c] assms by linarith+
    with 4 assms show ?thesis
      unfolding parse_char_def r
      by (simp add: code_point_bytes_arith continuation_def negative_def plus_nan_def times_nan_def
          numeral_2_eq_2 numeral_3_eq_3 Let_def utf16_units_code_point [symmetric])
  qed
qed

lemma code_point_bytes_length: "1 \<le> length (code_point_bytes c)"
  by (simp add: code_point_bytes_def)

lemma parse_loop_step:
  assumes "c < 0x110000" "stop = length pre + length (code_point_bytes c) + n"
  shows "parse_loop (pre @ code_point_bytes c @ post) stop (length pre) =
    bindE (parse_loop (pre @ code_point_bytes c @ post) stop (length (pre @ code_point_bytes c)))
      (\<lambda>rest. Inr (code_point_units c @ rest))"
proof -
  obtain k where k: "length (code_point_bytes c) = Suc k"
    using code_point_bytes_length [of c] by (cases "length (code_point_bytes c)") auto
  with assms show ?thesis
    by (subst parse_loop.simps) (simp add: parse_char_code_point)
qed

lemma parse_loop_utf8_bytes:
  "wf_utf16 s \<Longrightarrow> utf8_bytes s = Inr bs \<Longrightarrow>
     parse_loop (pre @ bs @ post) (length pre + length bs) (length pre) = Inr s"
proof (induction s arbitrary: bs pre rule: utf8_bytes.induct)
  case 1
  then show ?case by (simp add: parse_loop.simps)
next
  case (2 c cs)
  show ?case
  proof (cases "is_high_surrogate c")
    case False
    with "2.prems" obtain bs' where bs: "utf8_bytes cs = Inr bs'" "bs = code_point_bytes c @ bs'"
        and c: "c < 65536" and wf: "wf_utf16 cs"
      by (auto simp: bindE_split_asm)
    have "parse_loop ((pre @ code_point_bytes c) @ bs' @ post)
        (length (pre @ code_point_bytes c) + length bs') (length (pre @ code_point_bytes c)) = Inr cs"
      using "2.IH"(2) [OF False wf bs(1)] .
    with parse_loop_step [of c _ pre "length bs'" "bs' @ post"] c bs(2) show ?thesis
      by (simp add: code_point_units_def add.assoc)
  next
    case True
    with "2.prems" obtain l ls bs' where cs: "cs = l # ls" and l: "0xDC00 \<le> l" "l \<le> 0xDFFF"
        and wf: "wf_utf16 ls" and bs': "utf8_bytes ls = Inr bs'"
        and bs: "bs = code_point_bytes (push_bit 10 (c - 0xD800) + (l + 0x10000 - 0xDC00)) @ bs'"
      by (auto simp: bindE_split_asm split: list.splits)
    define u where "u = push_bit 10 (c - 0xD800) + (l + 0x10000 - 0xDC00)"
    have u: "u = 1024 * (c - 0xD800) + (l - 0xDC00) + 0x10000"
      using l by (simp add: u_def push_bit_eq_mult)
    have h: "c - 0xD800 < 1024" "0xD800 \<le> c" using True by (auto simp: is_high_surrogate_def)
    have "l - 0xDC00 < 1024" using l by linarith
    then have "(u - 0x10000) div 1024 = c - 0xD800" "(u - 0x10000) mod 1024 = l - 0xDC00" "u < 0x110000"
      using u h by simp_all
    then have units: "code_point_units u = [c, l]" "u < 0x110000"
      using u h l by (simp_all add: code_point_units_def)
    have bs: "bs = code_point_bytes u @ bs'" using bs by (simp add: u_def)
    have "parse_loop ((pre @ code_point_bytes u) @ bs' @ post)
        (length (pre @ code_point_bytes u) + length bs') (length (pre @ code_point_bytes u)) = Inr ls"
      using "2.IH"(1) [OF True cs wf bs'] .
    with parse_loop_step [of u _ pre "length bs'" "bs' @ post"] units bs cs show ?thesis
      by (simp add: add.assoc)
  qed
qed

lemma parseUTF8_utf8_bytes:
  assumes "wf_utf16 s" "utf8_bytes s = Inr bs"
  shows "parseUTF8 (pre @ bs @ post) (length pre) (length bs) = Inr s"
  using parse_loop_utf8_bytes [OF assms] by (simp add: parseUTF8_def)

section \<open>Properties\<close>

text \<open>
  C37. UTF-8 round trip. For every well-formed UTF-16 string, wherever it stands in a
  buffer, \<open>stringToUTF8\<close> writes exactly \<open>UTF8Length\<close> bytes, leaves the rest of the
  buffer alone, and \<open>parseUTF8\<close> reads the same string back.
\<close>

theorem utf8_roundtrip:
  assumes "wf_utf16 s" and "length mid = UTF8Length s"
  shows "\<exists>bs. stringToUTF8 s (pre @ mid @ post) (length pre) = Inr (pre @ bs @ post) \<and>
    length bs = UTF8Length s \<and>
    parseUTF8 (pre @ bs @ post) (length pre) (UTF8Length s) = Inr s"
proof -
  obtain bs where bs: "utf8_bytes s = Inr bs" "length bs = UTF8Length s"
    using utf8_bytes_length [OF assms(1)] by blast
  have "\<forall>b \<in> set bs. b < 256" using bs(1) utf8_bytes_bound by blast
  then have "store_seq bs (pre @ mid @ post) (length pre) = pre @ bs @ post"
    using assms(2) bs(2) by (intro store_seq_middle) auto
  with bs parseUTF8_utf8_bytes [OF assms(1) bs(1), of pre post] show ?thesis
    by (auto simp: stringToUTF8_def)
qed

text \<open>
  A string that ends in an unpaired high surrogate has a UTF-8 length, so a buffer
  is allocated for it, but encoding it throws.
\<close>

theorem unpaired_surrogate_throws:
  assumes "wf_utf16 s" and "is_high_surrogate h"
  shows "stringToUTF8 (s @ [h]) buf pos = Inl MalformedUnicode \<and> UTF8Length (s @ [h]) = UTF8Length s + 4"
proof -
  have "utf8_bytes (s @ [h]) = Inl MalformedUnicode \<and> UTF8Length (s @ [h]) = UTF8Length s + 4"
    using assms(1)
  proof (induction s rule: utf8_bytes.induct)
    case 1
    from assms(2) have "0x7FF < h" by (simp add: is_high_surrogate_def)
    with assms(2) show ?case by simp
  next
    case (2 c cs)
    then show ?case by (auto split: list.splits if_splits dest: high_surrogate_gt)
  qed
  then show ?thesis by (simp add: stringToUTF8_def)
qed

lemma utf8_roundtrip_witness:
  "parseUTF8 [0xF0, 0x9F, 0x98, 0x80] 0 4 = Inr [0xD83D, 0xDE00] \<and>
   stringToUTF8 [0xD83D, 0xDE00] [0, 0, 0, 0] 0 = Inr [0xF0, 0x9F, 0x98, 0x80]"
proof -
  have w: "wf_utf16 [0xD83D, 0xDE00]" by (simp add: is_high_surrogate_def)
  have u: "UTF8Length [0xD83D, 0xDE00] = 4" by (simp add: is_high_surrogate_def)
  have e: "stringToUTF8 [0xD83D, 0xDE00] [0, 0, 0, 0] 0 = Inr [0xF0, 0x9F, 0x98, 0x80]"
    by (simp add: stringToUTF8_def is_high_surrogate_def code_point_bytes_arith push_bit_eq_mult
        store_byte_def)
  have l: "length [0, 0, 0, 0 :: nat] = UTF8Length [0xD83D, 0xDE00]" unfolding u by simp
  obtain bs where "stringToUTF8 [0xD83D, 0xDE00] [0, 0, 0, 0] 0 = Inr bs"
      "parseUTF8 bs 0 4 = Inr [0xD83D, 0xDE00]"
    using utf8_roundtrip [OF w l, of "[]" "[]"] unfolding append_Nil append_Nil2 list.size(3) u by blast
  with e show ?thesis by (metis sum.inject(2))
qed

lemma unpaired_surrogate_throws_witness:
  "stringToUTF8 [0x41, 0xD800] [] 0 = Inl MalformedUnicode"
  using unpaired_surrogate_throws [of "[0x41]" "0xD800" "[]" 0] by (simp add: is_high_surrogate_def)

end
