(* ===== verification/MqttWire.thy ===== *)
theory MqttWire
  imports Utf8Codec
begin

unbundle bit_operations_syntax

text \<open>
  The packets of the MQTT client of \<open>mqttws31.js\<close>: \<open>Messaging.Message\<close> (its
  payload and attributes), \<open>WireMessage\<close> with \<open>encode\<close>, \<open>decodeMessage\<close> and the
  integer and string fields. \<open>encode\<close> allocates a buffer of the computed length and
  writes into it at positions, as the code does; the specification \<open>packet\<close> is the
  concatenation of the fields. A property an object does not have is \<open>None\<close>.
\<close>

section \<open>Messages\<close>

text \<open>
  What the constructor of \<open>Message\<close> accepts: a string, an \<open>ArrayBuffer\<close>, a
  \<open>Uint8Array\<close>, or another integer typed array, given by its elements, the bytes of
  an element and the whole buffer underneath.
\<close>

datatype payload =
    PString jsstring
  | PArrayBuffer buffer
  | PUint8Array buffer
  | PTypedArray "int list" nat buffer

record message =
  msg_payload :: payload
  destinationName :: "jsstring option"
  qos :: nat
  retained :: bool
  duplicate :: bool

definition Message :: "payload \<Rightarrow> message" where
  "Message newPayload = \<lparr>msg_payload = newPayload, destinationName = None, qos = 0,
     retained = False, duplicate = False\<rparr>"

definition setQos :: "nat \<Rightarrow> message \<Rightarrow> js_error + message" where
  "setQos newQos m =
     (if newQos = 0 \<or> newQos = 1 \<or> newQos = 2 then Inr (m\<lparr>qos := newQos\<rparr>) else Inl InvalidArgument)"

text \<open>
  The getters. An \<open>ArrayBuffer\<close> has no \<open>length\<close>, so the loop of \<open>parseUTF8\<close> does
  not run on one; the text of an array of wider elements is not modelled (\<open>None\<close>).
\<close>

fun getPayloadString :: "payload \<Rightarrow> (js_error + jsstring) option" where
  "getPayloadString (PString s) = Some (Inr s)"
| "getPayloadString (PArrayBuffer b) = Some (Inr [])"
| "getPayloadString (PUint8Array b) = Some (parseUTF8 b 0 (length b))"
| "getPayloadString (PTypedArray es w b) = None"

fun getPayloadBytes :: "payload \<Rightarrow> js_error + payload" where
  "getPayloadBytes (PString s) =
     bindE (stringToUTF8 s (replicate (UTF8Length s) 0) 0) (\<lambda>b. Inr (PUint8Array b))"
| "getPayloadBytes p = Inr p"

fun byteLength :: "payload \<Rightarrow> nat" where
  "byteLength (PString s) = 0"
| "byteLength (PArrayBuffer b) = length b"
| "byteLength (PUint8Array b) = length b"
| "byteLength (PTypedArray es w b) = length es * w"

text \<open>The bytes \<open>encode\<close> copies: for a typed array, the buffer underneath.\<close>

fun publish_view :: "payload \<Rightarrow> buffer" where
  "publish_view (PString s) = []"
| "publish_view (PArrayBuffer b) = b"
| "publish_view (PUint8Array b) = b"
| "publish_view (PTypedArray es w b) = b"

text \<open>
  The will payload: anything but a \<open>Uint8Array\<close> is replaced by
  \<open>new Uint8Array(payloadBytes)\<close>, where \<open>payloadBytes\<close> is still undefined.
\<close>

fun will_view :: "payload \<Rightarrow> buffer" where
  "will_view (PUint8Array b) = b"
| "will_view p = []"

section \<open>Wire messages\<close>

datatype ident = Id nat | NaN

record wire =
  wire_type :: nat
  messageIdentifier :: "ident option"
  payloadMessage :: "message option"
  topics :: "jsstring list option"
  requestedQos :: "nat list option"
  clientId :: "jsstring option"
  willMessage :: "message option"
  userName :: "jsstring option"
  password :: "jsstring option"
  cleanSession :: bool
  keepAliveInterval :: nat
  topicNameCompressionResponse :: "nat option"
  returnCode :: "nat option"
  grantedQos :: "buffer option"
  pubRecReceived :: bool
  wire_sequence :: "nat option"
  wire_callback :: bool
  wire_timeOut :: "nat option"

definition WireMessage :: "nat \<Rightarrow> wire" where
  "WireMessage t = \<lparr>wire_type = t, messageIdentifier = None, payloadMessage = None, topics = None,
     requestedQos = None, clientId = None, willMessage = None, userName = None, password = None,
     cleanSession = False, keepAliveInterval = 0, topicNameCompressionResponse = None,
     returnCode = None, grantedQos = None, pubRecReceived = False, wire_sequence = None,
     wire_callback = False, wire_timeOut = None\<rparr>"

abbreviation (input) "CONNECT \<equiv> (1::nat)"
abbreviation (input) "CONNACK \<equiv> (2::nat)"
abbreviation (input) "PUBLISH \<equiv> (3::nat)"
abbreviation (input) "PUBACK \<equiv> (4::nat)"
abbreviation (input) "PUBREC \<equiv> (5::nat)"
abbreviation (input) "PUBREL \<equiv> (6::nat)"
abbreviation (input) "PUBCOMP \<equiv> (7::nat)"
abbreviation (input) "SUBSCRIBE \<equiv> (8::nat)"
abbreviation (input) "SUBACK \<equiv> (9::nat)"
abbreviation (input) "UNSUBSCRIBE \<equiv> (10::nat)"
abbreviation (input) "UNSUBACK \<equiv> (11::nat)"
abbreviation (input) "PINGREQ \<equiv> (12::nat)"
abbreviation (input) "PINGRESP \<equiv> (13::nat)"
abbreviation (input) "DISCONNECT \<equiv> (14::nat)"

definition MqttProtoIdentifier :: "nat list" where
  "MqttProtoIdentifier = [0x00, 0x06, 0x4d, 0x51, 0x49, 0x73, 0x64, 0x70, 0x03]"

section \<open>Fields\<close>

function encodeMBI_loop :: "int \<Rightarrow> nat \<Rightarrow> nat list" where
  "encodeMBI_loop number numBytes =
     (let digit = nat (number mod 128); number' = js_shr number 7;
          byte = (if number' > 0 then digit OR 0x80 else digit)
      in if number' > 0 \<and> numBytes + 1 < 4 then byte # encodeMBI_loop number' (numBytes + 1)
         else [byte])"
  by pat_completeness auto
termination by (relation "measure (\<lambda>(number, numBytes). 4 - numBytes)") auto

declare encodeMBI_loop.simps [simp del]

definition encodeMBI :: "nat \<Rightarrow> nat list" where
  "encodeMBI number = encodeMBI_loop (int number) 0"

text \<open>\<open>writeUint16\<close> and \<open>writeString\<close>; NaN is stored as two zero bytes.\<close>

definition writeUint16 :: "ident \<Rightarrow> buffer \<Rightarrow> nat \<Rightarrow> buffer \<times> nat" where
  "writeUint16 input buf offset =
     (let n = (case input of Id k \<Rightarrow> int k | NaN \<Rightarrow> 0);
          buf1 = store_byte (nat (js_shr n 8 mod 256)) buf offset;
          buf2 = store_byte (nat (n mod 256)) buf1 (offset + 1)
      in (buf2, offset + 2))"

definition writeString :: "jsstring \<Rightarrow> nat \<Rightarrow> buffer \<Rightarrow> nat \<Rightarrow> js_error + (buffer \<times> nat)" where
  "writeString input utf8Length buf offset =
     (let (buf1, offset1) = writeUint16 (Id utf8Length) buf offset
      in bindE (stringToUTF8 input buf1 offset1) (\<lambda>buf2. Inr (buf2, offset1 + utf8Length)))"

text \<open>\<open>readUint16\<close>: a position or a byte that is not there makes the result NaN.\<close>

definition readUint16 :: "buffer \<Rightarrow> nat option \<Rightarrow> nat option" where
  "readUint16 buf offset =
     (case offset of
        None \<Rightarrow> None
      | Some p \<Rightarrow>
          (case (read_byte buf p, read_byte buf (p + 1)) of
             (Some hi, Some lo) \<Rightarrow> Some (256 * hi + lo)
           | _ \<Rightarrow> None))"

section \<open>Encoding\<close>

text \<open>\<open>undefined.length\<close> throws.\<close>

definition the_prop :: "'a option \<Rightarrow> js_error + 'a" where
  "the_prop x = (case x of None \<Rightarrow> Inl TypeError | Some a \<Rightarrow> Inr a)"

definition first_byte :: "wire \<Rightarrow> nat" where
  "first_byte w =
     (let first = push_bit 4 (wire_type w AND 0x0F) in
      if wire_type w = SUBSCRIBE \<or> wire_type w = UNSUBSCRIBE then first OR 0x02
      else if wire_type w = PUBLISH then
        (case payloadMessage w of
           None \<Rightarrow> first
         | Some m \<Rightarrow>
             (let first1 = (if duplicate m then first OR 0x08 else first);
                  first2 = first1 OR push_bit 1 (qos m)
              in if retained m then first2 OR 0x01 else first2))
      else first)"

definition opt_string_length :: "jsstring option \<Rightarrow> nat" where
  "opt_string_length s = (case s of None \<Rightarrow> 0 | Some x \<Rightarrow> UTF8Length x + 2)"

text \<open>
  The first \<open>switch\<close>: the remaining length, and the payload bytes of a PUBLISH or of
  the will message.
\<close>

definition remaining_length :: "wire \<Rightarrow> js_error + (nat \<times> buffer)" where
  "remaining_length w =
     (let remLength = (if messageIdentifier w \<noteq> None then 2 else 0) in
      if wire_type w = CONNECT then
        bindE (the_prop (clientId w)) (\<lambda>cid.
        let len1 = remLength + (length MqttProtoIdentifier + 3) + (UTF8Length cid + 2);
            len3 = (\<lambda>len2. len2 + opt_string_length (userName w) + opt_string_length (password w))
        in case willMessage w of
             None \<Rightarrow> Inr (len3 len1, [])
           | Some m \<Rightarrow>
               bindE (the_prop (destinationName m)) (\<lambda>dest.
               bindE (getPayloadBytes (msg_payload m)) (\<lambda>p.
               Inr (len3 (len1 + (UTF8Length dest + 2) + (length (will_view p) + 2)), will_view p))))
      else if wire_type w = SUBSCRIBE then
        bindE (the_prop (topics w)) (\<lambda>ts.
        bindE (the_prop (requestedQos w)) (\<lambda>qs.
        Inr (remLength + sum_list (map (\<lambda>t. UTF8Length t + 2) ts) + length qs, [])))
      else if wire_type w = UNSUBSCRIBE then
        bindE (the_prop (topics w)) (\<lambda>ts.
        Inr (remLength + sum_list (map (\<lambda>t. UTF8Length t + 2) ts), []))
      else if wire_type w = PUBLISH then
        bindE (the_prop (payloadMessage w)) (\<lambda>m.
        bindE (the_prop (destinationName m)) (\<lambda>dest.
        bindE (getPayloadBytes (msg_payload m)) (\<lambda>p.
        Inr (remLength + (UTF8Length dest + 2) + byteLength p, publish_view p))))
      else Inr (remLength, []))"

definition connect_flags :: "wire \<Rightarrow> nat" where
  "connect_flags w =
     (let f0 = (if cleanSession w then 0x02 else 0);
          f1 = (case willMessage w of
                  None \<Rightarrow> f0
                | Some m \<Rightarrow> (let f = (f0 OR 0x04) OR push_bit 3 (qos m)
                           in if retained m then f OR 0x20 else f));
          f2 = (if userName w \<noteq> None then f1 OR 0x80 else f1)
      in if password w \<noteq> None then f2 OR 0x40 else f2)"

text \<open>The variable header.\<close>

definition write_header :: "wire \<Rightarrow> buffer \<Rightarrow> nat \<Rightarrow> js_error + (buffer \<times> nat)" where
  "write_header w buf pos =
     (if wire_type w = PUBLISH then
        bindE (the_prop (payloadMessage w)) (\<lambda>m.
        bindE (the_prop (destinationName m)) (\<lambda>dest.
        writeString dest (UTF8Length dest) buf pos))
      else if wire_type w = CONNECT then
        bindE (set_bytes MqttProtoIdentifier buf pos) (\<lambda>buf1.
        let pos1 = pos + length MqttProtoIdentifier;
            buf2 = store_byte (connect_flags w) buf1 pos1
        in Inr (writeUint16 (Id (keepAliveInterval w)) buf2 (pos1 + 1)))
      else Inr (buf, pos))"

definition write_identifier :: "wire \<Rightarrow> buffer \<Rightarrow> nat \<Rightarrow> buffer \<times> nat" where
  "write_identifier w buf pos =
     (case messageIdentifier w of None \<Rightarrow> (buf, pos) | Some i \<Rightarrow> writeUint16 i buf pos)"

definition write_opt_string :: "jsstring option \<Rightarrow> buffer \<Rightarrow> nat \<Rightarrow> js_error + (buffer \<times> nat)" where
  "write_opt_string s buf pos =
     (case s of None \<Rightarrow> Inr (buf, pos) | Some x \<Rightarrow> writeString x (UTF8Length x) buf pos)"

text \<open>
  The loops over the topics; \<open>requestedQos[i]\<close> past the end is undefined and stored
  as 0.
\<close>

fun write_subscriptions ::
  "jsstring list \<Rightarrow> nat list \<Rightarrow> buffer \<Rightarrow> nat \<Rightarrow> js_error + (buffer \<times> nat)" where
  "write_subscriptions [] qs buf pos = Inr (buf, pos)"
| "write_subscriptions (t # ts) qs buf pos =
     bindE (writeString t (UTF8Length t) buf pos) (\<lambda>(buf1, pos1).
     let q = (case qs of [] \<Rightarrow> 0 | x # _ \<Rightarrow> x)
     in write_subscriptions ts (drop 1 qs) (store_byte q buf1 pos1) (pos1 + 1))"

fun write_topics :: "jsstring list \<Rightarrow> buffer \<Rightarrow> nat \<Rightarrow> js_error + (buffer \<times> nat)" where
  "write_topics [] buf pos = Inr (buf, pos)"
| "write_topics (t # ts) buf pos =
     bindE (writeString t (UTF8Length t) buf pos) (\<lambda>(buf1, pos1). write_topics ts buf1 pos1)"

text \<open>The second \<open>switch\<close>: the payload.\<close>

definition write_payload :: "wire \<Rightarrow> buffer \<Rightarrow> buffer \<Rightarrow> nat \<Rightarrow> js_error + (buffer \<times> nat)" where
  "write_payload w bytes buf pos =
     (if wire_type w = CONNECT then
        bindE (the_prop (clientId w)) (\<lambda>cid.
        bindE (writeString cid (UTF8Length cid) buf pos) (\<lambda>(buf1, pos1).
        bindE (case willMessage w of
                 None \<Rightarrow> Inr (buf1, pos1)
               | Some m \<Rightarrow>
                   bindE (the_prop (destinationName m)) (\<lambda>dest.
                   bindE (writeString dest (UTF8Length dest) buf1 pos1) (\<lambda>(buf2, pos2).
                   let (buf3, pos3) = writeUint16 (Id (length bytes)) buf2 pos2
                   in bindE (set_bytes bytes buf3 pos3) (\<lambda>buf4. Inr (buf4, pos3 + length bytes)))))
          (\<lambda>(buf2, pos2).
        bindE (write_opt_string (userName w) buf2 pos2) (\<lambda>(buf3, pos3).
        write_opt_string (password w) buf3 pos3))))
      else if wire_type w = PUBLISH then
        bindE (set_bytes bytes buf pos) (\<lambda>buf1. Inr (buf1, pos))
      else if wire_type w = SUBSCRIBE then
        bindE (the_prop (topics w)) (\<lambda>ts.
        bindE (the_prop (requestedQos w)) (\<lambda>qs. write_subscriptions ts qs buf pos))
      else if wire_type w = UNSUBSCRIBE then
        bindE (the_prop (topics w)) (\<lambda>ts. write_topics ts buf pos)
      else Inr (buf, pos))"

definition encode :: "wire \<Rightarrow> js_error + buffer" where
  "encode w =
     bindE (remaining_length w) (\<lambda>(remLength, bytes).
     let mbi = encodeMBI remLength;
         pos = length mbi + 1;
         buf = store_byte (first_byte w) (replicate (remLength + pos) 0) 0
     in bindE (set_bytes mbi buf 1) (\<lambda>buf1.
        bindE (write_header w buf1 pos) (\<lambda>(buf2, pos2).
        let (buf3, pos3) = write_identifier w buf2 pos2
        in bindE (write_payload w bytes buf3 pos3) (\<lambda>(buf4, _). Inr buf4))))"

section \<open>Decoding\<close>

text \<open>
  The remaining length field: the value and the position behind it. A byte past the end
  counts as 0 and ends the field. \<open>decodeMessage\<close> does not use the value.
\<close>

function decode_mbi :: "buffer \<Rightarrow> nat \<Rightarrow> nat \<Rightarrow> nat \<Rightarrow> nat \<times> nat" where
  "decode_mbi input pos remLength multiplier =
     (case read_byte input pos of
        None \<Rightarrow> (remLength, pos + 1)
      | Some digit \<Rightarrow>
          (let remLength' = remLength + (digit AND 0x7F) * multiplier
           in if digit AND 0x80 \<noteq> 0 then decode_mbi input (pos + 1) remLength' (multiplier * 128)
              else (remLength', pos + 1)))"
  by pat_completeness auto
termination
  by (relation "measure (\<lambda>(input, pos, remLength, multiplier). length input - pos)")
    (auto simp: read_byte_def split: if_splits)

declare decode_mbi.simps [simp del]

definition ident_of :: "nat option \<Rightarrow> ident" where
  "ident_of n = (case n of None \<Rightarrow> NaN | Some k \<Rightarrow> Id k)"

definition parse_topic :: "buffer \<Rightarrow> nat \<Rightarrow> nat option \<Rightarrow> js_error + (jsstring \<times> nat option)" where
  "parse_topic input pos len =
     (case len of
        None \<Rightarrow> Inr ([], None)
      | Some n \<Rightarrow> bindE (parseUTF8 input pos n) (\<lambda>t. Inr (t, Some (pos + n))))"

definition subarray :: "buffer \<Rightarrow> nat option \<Rightarrow> buffer" where
  "subarray input pos = (case pos of None \<Rightarrow> input | Some p \<Rightarrow> drop p input)"

definition decode_publish :: "nat \<Rightarrow> buffer \<Rightarrow> nat \<Rightarrow> js_error + wire" where
  "decode_publish messageInfo input pos =
     (let q = drop_bit 1 messageInfo AND 0x03;
          len = readUint16 input (Some pos)
      in bindE (parse_topic input (pos + 2) len) (\<lambda>(topicName, pos1).
         let mid = (if q > 0 then Some (ident_of (readUint16 input pos1)) else None);
             pos2 = (if q > 0 then map_option (\<lambda>p. p + 2) pos1 else pos1);
             m0 = Message (PUint8Array (subarray input pos2));
             m1 = (if messageInfo AND 0x01 = 0x01 then m0\<lparr>retained := True\<rparr> else m0);
             m2 = (if messageInfo AND 0x08 = 0x08 then m1\<lparr>duplicate := True\<rparr> else m1)
         in bindE (setQos q m2) (\<lambda>m3.
            Inr ((WireMessage PUBLISH)\<lparr>messageIdentifier := mid,
                   payloadMessage := Some (m3\<lparr>destinationName := Some topicName\<rparr>)\<rparr>))))"

definition decodeMessage :: "buffer \<Rightarrow> js_error + wire" where
  "decodeMessage input =
     (let first = (case read_byte input 0 of None \<Rightarrow> 0 | Some b \<Rightarrow> b);
          type = drop_bit 4 first;
          messageInfo = first AND 0x0F;
          pos = snd (decode_mbi input 1 0 1)
      in if type = CONNACK then
           Inr ((WireMessage type)\<lparr>topicNameCompressionResponse := read_byte input pos,
                  returnCode := read_byte input (pos + 1)\<rparr>)
         else if type = PUBLISH then decode_publish messageInfo input pos
         else if type \<in> {PUBACK, PUBREC, PUBREL, PUBCOMP, UNSUBACK} then
           Inr ((WireMessage type)\<lparr>messageIdentifier := Some (ident_of (readUint16 input (Some pos)))\<rparr>)
         else if type = SUBACK then
           Inr ((WireMessage type)\<lparr>messageIdentifier := Some (ident_of (readUint16 input (Some pos))),
                  grantedQos := Some (subarray input (Some (pos + 2)))\<rparr>)
         else Inr (WireMessage type))"

section \<open>Fields read back\<close>

fun mbi_bytes :: "nat \<Rightarrow> nat list" where
  "mbi_bytes n = (if n < 128 then [n] else (n mod 128 + 128) # mbi_bytes (n div 128))"

declare mbi_bytes.simps [simp del]

lemma or_0x80: "d < 128 \<Longrightarrow> d OR 128 = d + (128::nat)"
proof -
  assume d: "d < 128"
  then have "\<not> bit d 7" by (simp add: bit_iff_odd)
  then have "d AND 128 = 0" using and_exp_eq_0_iff_not_bit [of d 7] by simp
  then show "d OR 128 = d + 128" by (simp add: disjunctive_add_eq_or)
qed

lemma mbi_digit: "nat (int n mod 128) = n mod 128"
  by (simp add: nat_mod_distrib)

lemma encodeMBI_loop_digits:
  "n < 128 ^ (4 - k) \<Longrightarrow> k < 4 \<Longrightarrow> n < 2 ^ 31 \<Longrightarrow> encodeMBI_loop (int n) k = mbi_bytes n"
proof (induction n arbitrary: k rule: mbi_bytes.induct)
  case (1 n)
  have shr: "js_shr (int n) 7 = int (n div 128)" using "1.prems"(3) by (simp add: js_shr_small zdiv_int)
  show ?case
  proof (cases "n < 128")
    case True
    then have "js_shr (int n) 7 = 0" by (simp add: shr)
    with True show ?thesis
      by (subst encodeMBI_loop.simps, subst mbi_bytes.simps) (simp add: mbi_digit)
  next
    case False
    have k: "k + 1 < 4"
    proof (rule ccontr)
      assume "\<not> k + 1 < 4"
      with "1.prems"(2) have "4 - k = 1" by simp
      with "1.prems"(1) False show False by simp
    qed
    then have "(128::nat) ^ (4 - k) = 128 * 128 ^ (4 - (k + 1))"
      by (metis Suc_diff_Suc Suc_eq_plus1 add_lessD1 power_Suc)
    with "1.prems"(1) have "n div 128 < 128 ^ (4 - (k + 1))"
      by (simp add: less_mult_imp_div_less mult.commute)
    with "1.IH" [OF False, of "k + 1"] k "1.prems"(3)
    have "encodeMBI_loop (int (n div 128)) (k + 1) = mbi_bytes (n div 128)" by simp
    moreover have "js_shr (int n) 7 > 0" using False shr by simp
    ultimately show ?thesis using False k
      by (subst encodeMBI_loop.simps, subst mbi_bytes.simps) (simp add: mbi_digit or_0x80 shr Let_def)
  qed
qed

lemma encodeMBI_digits: "n < 268435456 \<Longrightarrow> encodeMBI n = mbi_bytes n"
  using encodeMBI_loop_digits [of n 0] by (simp add: encodeMBI_def)

lemma encodeMBI_bound: "b \<in> set (encodeMBI n) \<Longrightarrow> b < 256"
proof -
  have "b \<in> set (encodeMBI_loop x k) \<Longrightarrow> b < 256" for x k
  proof (induction x k rule: encodeMBI_loop.induct)
    case (1 x k)
    have "nat (x mod 128) < 128" by (simp add: nat_less_iff)
    with 1 show ?case
      by (subst (asm) (2) encodeMBI_loop.simps) (auto simp: or_0x80 Let_def split: if_splits)
  qed
  then show "b \<in> set (encodeMBI n) \<Longrightarrow> b < 256" by (simp add: encodeMBI_def)
qed

lemma encodeMBI_length: "length (encodeMBI n) \<le> 4"
proof -
  have "k < 4 \<Longrightarrow> length (encodeMBI_loop x k) \<le> 4 - k" for x k
    by (induction x k rule: encodeMBI_loop.induct)
      (subst encodeMBI_loop.simps, fastforce simp: Let_def)
  from this [of 0 "int n"] show ?thesis by (simp add: encodeMBI_def)
qed

lemma and_0x7f: "d AND 127 = (d::nat) mod 128"
  using take_bit_eq_mask [of 7 d] by (simp add: take_bit_eq_mod mask_eq_exp_minus_1)

lemma and_0x80: "d AND 128 = (0::nat) \<longleftrightarrow> even (d div 128)"
  using and_exp_eq_0_iff_not_bit [of d 7] by (simp add: bit_iff_odd)

lemma decode_mbi_bytes:
  "decode_mbi (pre @ mbi_bytes n @ post) (length pre) r m = (r + n * m, length pre + length (mbi_bytes n))"
proof (induction n arbitrary: pre r m rule: mbi_bytes.induct)
  case (1 n)
  show ?case
  proof (cases "n < 128")
    case True
    then show ?thesis
      by (subst decode_mbi.simps, subst (1 2 3) mbi_bytes.simps)
        (simp add: read_byte_def and_0x7f and_0x80 Let_def)
  next
    case False
    have odd: "(n mod 128 + 128) div 128 = 1" by simp
    have "r + t * m + q * (m * 128) = r + (128 * q + t) * m" for q t
      by (simp add: algebra_simps)
    from this [of "n mod 128" "n div 128"]
    have n: "r + n mod 128 * m + (n div 128) * (m * 128) = r + n * m" by simp
    have "decode_mbi ((pre @ [n mod 128 + 128]) @ mbi_bytes (n div 128) @ post)
        (length (pre @ [n mod 128 + 128])) (r + n mod 128 * m) (m * 128) =
        (r + n * m, length pre + 1 + length (mbi_bytes (n div 128)))"
      unfolding "1.IH" [OF False] n by simp
    with False show ?thesis
      by (subst decode_mbi.simps, subst (1 2 3) mbi_bytes.simps)
        (simp add: read_byte_def and_0x7f and_0x80 odd Let_def)
  qed
qed

definition uint16_bytes :: "nat \<Rightarrow> nat list" where
  "uint16_bytes n = [n div 256 mod 256, n mod 256]"

definition string_bytes :: "jsstring \<Rightarrow> nat list" where
  "string_bytes s = uint16_bytes (UTF8Length s) @ (case utf8_bytes s of Inl e \<Rightarrow> [] | Inr bs \<Rightarrow> bs)"

lemma readUint16_bytes:
  "n < 65536 \<Longrightarrow> readUint16 (pre @ uint16_bytes n @ post) (Some (length pre)) = Some n"
  by (simp add: readUint16_def uint16_bytes_def read_byte_def nth_append)

lemma parse_topic_string:
  assumes "wf_utf16 s"
  shows "parse_topic (pre @ uint16_bytes n @ (case utf8_bytes s of Inl e \<Rightarrow> [] | Inr bs \<Rightarrow> bs) @ post)
    (length pre + 2) (Some (UTF8Length s)) = Inr (s, Some (length pre + 2 + UTF8Length s))"
proof -
  obtain bs where bs: "utf8_bytes s = Inr bs" "length bs = UTF8Length s"
    using utf8_bytes_length [OF assms] by blast
  with parseUTF8_utf8_bytes [OF assms bs(1), of "pre @ uint16_bytes n" post] show ?thesis
    by (simp add: parse_topic_def uint16_bytes_def)
qed

lemma string_bytes_length: "wf_utf16 s \<Longrightarrow> length (string_bytes s) = UTF8Length s + 2"
  using utf8_bytes_length [of s] by (auto simp: string_bytes_def uint16_bytes_def)

text \<open>The reader of a string field, as \<open>decodeMessage\<close> reads a topic.\<close>

definition readString :: "buffer \<Rightarrow> nat \<Rightarrow> (jsstring \<times> nat) option" where
  "readString input pos =
     (case parse_topic input (pos + 2) (readUint16 input (Some pos)) of
        Inr (s, Some p) \<Rightarrow> Some (s, p)
      | _ \<Rightarrow> None)"

interpretation mbi_field: wire_field encodeMBI "\<lambda>buf pos. Some (decode_mbi buf pos 0 1)" "\<lambda>n. n < 268435456"
  by unfold_locales (simp add: encodeMBI_digits decode_mbi_bytes)

interpretation uint16_field: wire_field uint16_bytes
    "\<lambda>buf pos. map_option (\<lambda>n. (n, pos + 2)) (readUint16 buf (Some pos))" "\<lambda>n. n < 65536"
  by unfold_locales (simp_all add: readUint16_bytes, simp add: uint16_bytes_def)

interpretation string_field: wire_field string_bytes readString "\<lambda>s. wf_utf16 s \<and> UTF8Length s < 65536"
proof
  fix x pre post
  assume x: "wf_utf16 x \<and> UTF8Length x < 65536"
  then have "readUint16 (pre @ string_bytes x @ post) (Some (length pre)) = Some (UTF8Length x)"
    by (simp add: string_bytes_def readUint16_bytes)
  moreover have "parse_topic (pre @ string_bytes x @ post) (length pre + 2) (Some (UTF8Length x)) =
      Inr (x, Some (length pre + 2 + UTF8Length x))"
    using parse_topic_string [of x pre "UTF8Length x" post] x by (simp add: string_bytes_def)
  ultimately show "readString (pre @ string_bytes x @ post) (length pre) =
      Some (x, length pre + length (string_bytes x))"
    using x by (simp add: readString_def string_bytes_length)
qed

end
