(* ===== verification/JsValue.thy ===== *)
theory JsValue
  imports MqttWire
begin

text \<open>
  The values an application hands to the public interface of \<open>mqttws31.js\<close>, with the
  parts of JavaScript that interface uses on them: \<open>typeof\<close>, truth values, own
  properties in enumeration order, conversion to text. A number is a whole number, one of
  the three values that are not finite, or a fraction, of which only the integer part
  below it and its text are kept. A function is its number of parameters and its text.
\<close>

lemma js_eq_iff: "js s = js t \<longleftrightarrow> s = t"
  by (auto simp: js_def inj_def)

datatype jsnum = Whole int | Fraction int jsstring | NotANumber | PosInfinity | NegInfinity

datatype jsval =
    Undefined | Null | Boolean bool | Number jsnum | String jsstring
  | Function nat jsstring
  | Object "(jsstring \<times> jsval) list"
  | Array "jsval list"
  | BufferObj payload
  | MessageObj message

fun typeof :: "jsval \<Rightarrow> jsstring" where
  "typeof Undefined = js ''undefined''"
| "typeof (Boolean b) = js ''boolean''"
| "typeof (Number n) = js ''number''"
| "typeof (String s) = js ''string''"
| "typeof (Function n t) = js ''function''"
| "typeof v = js ''object''"

fun truthy :: "jsval \<Rightarrow> bool" where
  "truthy Undefined = False"
| "truthy Null = False"
| "truthy (Boolean b) = b"
| "truthy (Number n) = (n \<noteq> Whole 0 \<and> n \<noteq> NotANumber)"
| "truthy (String s) = (s \<noteq> [])"
| "truthy v = True"

fun num_negative :: "jsnum \<Rightarrow> bool" where
  "num_negative (Whole n) = (n < 0)"
| "num_negative (Fraction n t) = (n < 0)"
| "num_negative NegInfinity = True"
| "num_negative n = False"

fun num_positive :: "jsnum \<Rightarrow> bool" where
  "num_positive (Whole n) = (n > 0)"
| "num_positive (Fraction n t) = (n \<ge> 0)"
| "num_positive PosInfinity = True"
| "num_positive n = False"

definition int_text :: "int \<Rightarrow> jsstring" where
  "int_text n = (if n < 0 then js ''-'' @ dec_string (nat (- n)) else dec_string (nat n))"

fun num_text :: "jsnum \<Rightarrow> jsstring" where
  "num_text (Whole n) = int_text n"
| "num_text (Fraction n t) = t"
| "num_text NotANumber = js ''NaN''"
| "num_text PosInfinity = js ''Infinity''"
| "num_text NegInfinity = js ''-Infinity''"

fun join_with :: "jsstring \<Rightarrow> jsstring list \<Rightarrow> jsstring" where
  "join_with sep [] = []"
| "join_with sep [x] = x"
| "join_with sep (x # y # xs) = x @ sep @ join_with sep (y # xs)"

fun value_text :: "jsval \<Rightarrow> jsstring" where
  "value_text Undefined = js ''undefined''"
| "value_text Null = js ''null''"
| "value_text (Boolean b) = (if b then js ''true'' else js ''false'')"
| "value_text (Number n) = num_text n"
| "value_text (String s) = s"
| "value_text (Function n t) = t"
| "value_text (Object ps) = js ''[object Object]''"
| "value_text (Array vs) =
     join_with (js '','') (map (\<lambda>v. if v = Undefined \<or> v = Null then [] else value_text v) vs)"
| "value_text (BufferObj (PUint8Array b)) = join_with (js '','') (map dec_string b)"
| "value_text (BufferObj (PTypedArray es w b)) = join_with (js '','') (map int_text es)"
| "value_text (BufferObj p) = js ''[object ArrayBuffer]''"
| "value_text (MessageObj m) = js ''[object Object]''"

definition indexed :: "jsval list \<Rightarrow> (jsstring \<times> jsval) list" where
  "indexed vs = zip (map dec_string [0..<length vs]) vs"

definition message_methods :: "(jsstring \<times> jsval) list" where
  "message_methods = map (\<lambda>s. (js s, Function 0 []))
     [''_getPayloadString'', ''_getPayloadBytes'', ''_getDestinationName'', ''_setDestinationName'',
      ''_getQos'', ''_setQos'', ''_getRetained'', ''_setRetained'', ''_getDuplicate'', ''_setDuplicate'']"

text \<open>The enumerable own properties, in the order of \<open>for (key in obj)\<close>.\<close>

fun own_props :: "jsval \<Rightarrow> (jsstring \<times> jsval) list" where
  "own_props (Object ps) = ps"
| "own_props (Array vs) = indexed vs"
| "own_props (String s) = indexed (map (\<lambda>c. String [c]) s)"
| "own_props (BufferObj (PUint8Array b)) = indexed (map (\<lambda>n. Number (Whole (int n))) b)"
| "own_props (BufferObj (PTypedArray es w b)) = indexed (map (\<lambda>n. Number (Whole n)) es)"
| "own_props (MessageObj m) = message_methods"
| "own_props v = []"

definition get_prop :: "jsval \<Rightarrow> jsstring \<Rightarrow> jsval" where
  "get_prop v k = (case map_of (own_props v) k of None \<Rightarrow> Undefined | Some x \<Rightarrow> x)"

text \<open>
  Setting a property: ignored on a primitive value. A function, array or buffer is kept as
  the object of its properties from then on, which is all the interface reads of it.
\<close>

fun is_primitive :: "jsval \<Rightarrow> bool" where
  "is_primitive (Object ps) = False"
| "is_primitive (Array vs) = False"
| "is_primitive (Function n t) = False"
| "is_primitive (BufferObj p) = False"
| "is_primitive (MessageObj m) = False"
| "is_primitive v = True"

definition set_prop :: "jsval \<Rightarrow> jsstring \<Rightarrow> jsval \<Rightarrow> jsval" where
  "set_prop v k x = (if is_primitive v then v else Object (AList.update k x (own_props v)))"

lemma own_props_set_prop:
  "\<not> is_primitive v \<Longrightarrow> own_props (set_prop v k x) = AList.update k x (own_props v)"
  by (simp add: set_prop_def)

lemma get_set_prop:
  "\<not> is_primitive v \<Longrightarrow> get_prop (set_prop v k x) l = (if l = k then x else get_prop v l)"
  by (simp add: get_prop_def own_props_set_prop map_of_update)

lemma is_primitive_set_prop [simp]: "is_primitive (set_prop v k x) = is_primitive v"
  by (simp add: set_prop_def)

end
