(* ===== verification/MqttPacket.thy ===== *)
theory MqttPacket
  imports MqttWire
begin

text \<open>
  What the packets of the MQTT client look like and how they are read back. \<open>packet\<close> is
  the concatenation of the fields of a packet, the specification of \<open>encode\<close>. A
  writer is described by \<open>writes f bs\<close>: it stores the bytes \<open>bs\<close> at the position
  and moves behind them; writers compose. The properties: \<open>encode\<close> yields exactly
  \<open>packet\<close>, and \<open>decodeMessage\<close> reads publications and acknowledgements back.
\<close>

unbundle bit_operations_syntax

section \<open>The layout of a packet\<close>

definition ident_bytes :: "ident option \<Rightarrow> nat list" where
  "ident_bytes i =
     (case i of None \<Rightarrow> [] | Some (Id n) \<Rightarrow> uint16_bytes n | Some NaN \<Rightarrow> [0, 0])"

definition opt_string_bytes :: "jsstring option \<Rightarrow> nat list" where
  "opt_string_bytes s = (case s of None \<Rightarrow> [] | Some x \<Rightarrow> string_bytes x)"

definition payload_bytes :: "payload \<Rightarrow> nat list" where
  "payload_bytes p =
     (case p of
        PString s \<Rightarrow> (case utf8_bytes s of Inl e \<Rightarrow> [] | Inr bs \<Rightarrow> bs)
      | _ \<Rightarrow> publish_view p)"

definition will_bytes :: "message option \<Rightarrow> nat list" where
  "will_bytes m =
     (case m of
        None \<Rightarrow> []
      | Some m \<Rightarrow>
          (let v = (case getPayloadBytes (msg_payload m) of Inl e \<Rightarrow> [] | Inr p \<Rightarrow> will_view p)
           in opt_string_bytes (destinationName m) @ uint16_bytes (length v) @ v))"

definition packet_body :: "wire \<Rightarrow> nat list" where
  "packet_body w =
     (if wire_type w = CONNECT then
        MqttProtoIdentifier @ [connect_flags w] @ uint16_bytes (keepAliveInterval w)
        @ ident_bytes (messageIdentifier w)
        @ opt_string_bytes (clientId w) @ will_bytes (willMessage w)
        @ opt_string_bytes (userName w) @ opt_string_bytes (password w)
      else if wire_type w = PUBLISH then
        (case payloadMessage w of
           None \<Rightarrow> []
         | Some m \<Rightarrow> opt_string_bytes (destinationName m) @ ident_bytes (messageIdentifier w)
                     @ payload_bytes (msg_payload m))
      else
        ident_bytes (messageIdentifier w) @
        (if wire_type w = SUBSCRIBE then
           concat (map2 (\<lambda>t q. string_bytes t @ [q]) (the (topics w)) (the (requestedQos w)))
         else if wire_type w = UNSUBSCRIBE then concat (map string_bytes (the (topics w)))
         else []))"

definition packet :: "wire \<Rightarrow> nat list" where
  "packet w = first_byte w # encodeMBI (length (packet_body w)) @ packet_body w"

text \<open>What the client's own messages satisfy.\<close>

definition wf_bytes :: "nat list \<Rightarrow> bool" where
  "wf_bytes bs \<longleftrightarrow> (\<forall>b \<in> set bs. b < 256)"

fun wf_payload :: "payload \<Rightarrow> bool" where
  "wf_payload (PString s) = wf_utf16 s"
| "wf_payload (PArrayBuffer b) = wf_bytes b"
| "wf_payload (PUint8Array b) = wf_bytes b"
| "wf_payload (PTypedArray es n b) = (wf_bytes b \<and> length es * n = length b)"

definition wf_string :: "jsstring \<Rightarrow> bool" where
  "wf_string s \<longleftrightarrow> wf_utf16 s \<and> UTF8Length s < 2 ^ 31"

definition wf_message :: "message \<Rightarrow> bool" where
  "wf_message m \<longleftrightarrow> (\<exists>d. destinationName m = Some d \<and> wf_string d) \<and> wf_payload (msg_payload m)
     \<and> qos m < 3"

definition wf_opt_string :: "jsstring option \<Rightarrow> bool" where
  "wf_opt_string s \<longleftrightarrow> (case s of None \<Rightarrow> True | Some x \<Rightarrow> wf_string x)"

definition wf_ident :: "ident option \<Rightarrow> bool" where
  "wf_ident i \<longleftrightarrow> (\<forall>n. i = Some (Id n) \<longrightarrow> n < 2 ^ 31)"

definition wf_wire :: "wire \<Rightarrow> bool" where
  "wf_wire w \<longleftrightarrow> wf_ident (messageIdentifier w) \<and>
     (wire_type w = CONNECT \<longrightarrow> (\<exists>c. clientId w = Some c \<and> wf_string c)
        \<and> wf_opt_string (userName w) \<and> wf_opt_string (password w) \<and> keepAliveInterval w < 2 ^ 31
        \<and> (\<forall>m. willMessage w = Some m \<longrightarrow> wf_message m \<and>
             length (will_bytes (willMessage w)) < 2 ^ 31)) \<and>
     (wire_type w = PUBLISH \<longrightarrow> (\<exists>m. payloadMessage w = Some m \<and> wf_message m)) \<and>
     (wire_type w = SUBSCRIBE \<longrightarrow> (\<exists>ts qs. topics w = Some ts \<and> requestedQos w = Some qs \<and>
        length qs = length ts \<and> (\<forall>t \<in> set ts. wf_string t) \<and> wf_bytes qs)) \<and>
     (wire_type w = UNSUBSCRIBE \<longrightarrow> (\<exists>ts. topics w = Some ts \<and> (\<forall>t \<in> set ts. wf_string t)))"

text \<open>A writer that adds the bytes \<open>bs\<close>.\<close>

definition writes :: "(buffer \<Rightarrow> nat \<Rightarrow> js_error + (buffer \<times> nat)) \<Rightarrow> nat list \<Rightarrow> bool" where
  "writes f bs \<longleftrightarrow> (\<forall>buf pos w k. written buf pos w (length bs + k) \<longrightarrow>
     (\<exists>buf' pos'. f buf pos = Inr (buf', pos') \<and> written buf' pos' (w @ bs) k))"

lemma writesD:
  assumes "writes f bs" "written buf pos w (length bs + k)"
  obtains buf' pos' where "f buf pos = Inr (buf', pos')" "written buf' pos' (w @ bs) k"
  using assms by (force simp: writes_def)

lemma writes_nil: "writes (\<lambda>buf pos. Inr (buf, pos)) []"
  by (simp add: writes_def)

lemma writes_bind:
  assumes "writes f bs" "writes g cs"
  shows "writes (\<lambda>buf pos. bindE (f buf pos) (\<lambda>(buf1, pos1). g buf1 pos1)) (bs @ cs)"
  unfolding writes_def
proof (intro allI impI)
  fix buf pos w k
  assume "written buf pos w (length (bs @ cs) + k)"
  then have "written buf pos w (length bs + (length cs + k))" by (simp add: add.assoc)
  with assms(1) obtain buf1 pos1 where 1: "f buf pos = Inr (buf1, pos1)"
      "written buf1 pos1 (w @ bs) (length cs + k)" by (rule writesD)
  from assms(2) 1(2) obtain buf2 pos2 where "g buf1 pos1 = Inr (buf2, pos2)"
      "written buf2 pos2 ((w @ bs) @ cs) k" by (rule writesD)
  with 1 show "\<exists>buf' pos'. bindE (f buf pos) (\<lambda>(buf1, pos1). g buf1 pos1) = Inr (buf', pos') \<and>
      written buf' pos' (w @ bs @ cs) k" by simp
qed

lemma writes_store_byte: "b < 256 \<Longrightarrow> writes (\<lambda>buf pos. Inr (store_byte b buf pos, pos + 1)) [b]"
  by (simp add: writes_def written_store)

lemma writes_set_bytes:
  "wf_bytes bs \<Longrightarrow> writes (\<lambda>buf pos. bindE (set_bytes bs buf pos) (\<lambda>buf1. Inr (buf1, pos + length bs))) bs"
  unfolding writes_def
proof (intro allI impI)
  fix buf pos w k
  assume "wf_bytes bs" "written buf pos w (length bs + k)"
  then obtain buf' where "set_bytes bs buf pos = Inr buf'" "written buf' (pos + length bs) (w @ bs) k"
    by (auto simp: wf_bytes_def elim: written_set_bytes)
  then show "\<exists>buf' pos'. bindE (set_bytes bs buf pos) (\<lambda>buf1. Inr (buf1, pos + length bs)) =
      Inr (buf', pos') \<and> written buf' pos' (w @ bs) k" by simp
qed

definition uint16_of :: "ident \<Rightarrow> nat list" where
  "uint16_of i = (case i of Id n \<Rightarrow> uint16_bytes n | NaN \<Rightarrow> [0, 0])"

lemma writes_uint16:
  assumes "\<And>n. i = Id n \<Longrightarrow> n < 2 ^ 31"
  shows "writes (\<lambda>buf pos. Inr (writeUint16 i buf pos)) (uint16_of i)"
proof -
  have shr: "nat (js_shr (int n) 8 mod 256) = n div 256 mod 256" if "n < 2 ^ 31" for n
  proof -
    have "js_shr (int n) 8 mod 256 = int (n div 256 mod 256)"
      using that by (simp add: js_shr_small zdiv_int zmod_int)
    then show ?thesis by simp
  qed
  have hi: "nat (js_shr (case i of Id k \<Rightarrow> int k | NaN \<Rightarrow> 0) 8 mod 256) = uint16_of i ! 0"
    and lo: "nat ((case i of Id k \<Rightarrow> int k | NaN \<Rightarrow> 0) mod 256) = uint16_of i ! 1"
  proof -
    show "nat (js_shr (case i of Id k \<Rightarrow> int k | NaN \<Rightarrow> 0) 8 mod 256) = uint16_of i ! 0"
    proof (cases i)
      case (Id n)
      with assms shr [of n] show ?thesis by (simp add: uint16_of_def uint16_bytes_def)
    qed (simp add: uint16_of_def js_shr_small)
    show "nat ((case i of Id k \<Rightarrow> int k | NaN \<Rightarrow> 0) mod 256) = uint16_of i ! 1"
      by (cases i) (simp_all add: uint16_of_def uint16_bytes_def nat_mod_distrib)
  qed
  have bs: "uint16_of i = [uint16_of i ! 0] @ [uint16_of i ! 1]"
    by (cases i) (simp_all add: uint16_of_def uint16_bytes_def)
  have lt: "uint16_of i ! 0 < 256" "uint16_of i ! 1 < 256"
    by (cases i; simp add: uint16_of_def uint16_bytes_def)+
  have "writes (\<lambda>buf pos. bindE (Inr (store_byte (uint16_of i ! 0) buf pos, pos + 1))
      (\<lambda>(buf1, pos1). Inr (store_byte (uint16_of i ! 1) buf1 pos1, pos1 + 1)))
      ([uint16_of i ! 0] @ [uint16_of i ! 1])"
    by (intro writes_bind writes_store_byte lt)
  then show ?thesis
    unfolding bs [symmetric] writeUint16_def Let_def hi lo by simp
qed

lemma writes_string:
  assumes "wf_string s"
  shows "writes (writeString s (UTF8Length s)) (string_bytes s)"
proof -
  obtain bs where bs: "utf8_bytes s = Inr bs" "length bs = UTF8Length s"
    using utf8_bytes_length [of s] assms by (auto simp: wf_string_def)
  have seq: "writes (\<lambda>buf pos. bindE (stringToUTF8 s buf pos) (\<lambda>buf2. Inr (buf2, pos + UTF8Length s))) bs"
    using bs utf8_bytes_bound [OF bs(1)]
    by (simp add: writes_def stringToUTF8_def bs(2) [symmetric] written_store_seq)
  have "writes (\<lambda>buf pos. bindE (Inr (writeUint16 (Id (UTF8Length s)) buf pos))
      (\<lambda>(buf1, pos1). bindE (stringToUTF8 s buf1 pos1) (\<lambda>buf2. Inr (buf2, pos1 + UTF8Length s))))
      (uint16_of (Id (UTF8Length s)) @ bs)"
    by (intro writes_bind writes_uint16 seq) (use assms in \<open>simp_all add: wf_string_def\<close>)
  moreover have "writeString s (UTF8Length s) = (\<lambda>buf pos.
      bindE (Inr (writeUint16 (Id (UTF8Length s)) buf pos)) (\<lambda>(buf1, pos1).
      bindE (stringToUTF8 s buf1 pos1) (\<lambda>buf2. Inr (buf2, pos1 + UTF8Length s))))"
    by (simp add: fun_eq_iff writeString_def Let_def)
  ultimately show ?thesis
    by (simp add: string_bytes_def bs(1) uint16_of_def)
qed


lemma writes_opt_string: "wf_opt_string s \<Longrightarrow> writes (write_opt_string s) (opt_string_bytes s)"
proof (cases s)
  case None
  then have "write_opt_string s = (\<lambda>buf pos. Inr (buf, pos))" "opt_string_bytes s = []"
    by (simp_all add: fun_eq_iff write_opt_string_def opt_string_bytes_def)
  then show ?thesis by (simp add: writes_nil)
next
  case (Some x)
  then have "write_opt_string s = writeString x (UTF8Length x)" "opt_string_bytes s = string_bytes x"
    by (simp_all add: fun_eq_iff write_opt_string_def opt_string_bytes_def)
  moreover assume "wf_opt_string s"
  ultimately show ?thesis using Some by (simp add: writes_string wf_opt_string_def)
qed

lemma writes_identifier:
  "wf_ident i \<Longrightarrow> messageIdentifier w = i \<Longrightarrow>
     writes (\<lambda>buf pos. Inr (write_identifier w buf pos)) (ident_bytes i)"
proof (cases i)
  case (Some j)
  assume "wf_ident i" "messageIdentifier w = i"
  with Some writes_uint16 [of j] show ?thesis
    by (simp add: write_identifier_def ident_bytes_def wf_ident_def uint16_of_def)
qed (simp add: write_identifier_def ident_bytes_def writes_nil)

lemma writes_topics: "\<forall>t \<in> set ts. wf_string t \<Longrightarrow> writes (write_topics ts) (concat (map string_bytes ts))"
proof (induction ts)
  case (Cons t ts)
  then have "writes (\<lambda>buf pos. bindE (writeString t (UTF8Length t) buf pos)
      (\<lambda>(buf1, pos1). write_topics ts buf1 pos1)) (string_bytes t @ concat (map string_bytes ts))"
    by (intro writes_bind writes_string) auto
  moreover have "write_topics (t # ts) = (\<lambda>buf pos. bindE (writeString t (UTF8Length t) buf pos)
      (\<lambda>(buf1, pos1). write_topics ts buf1 pos1))" by (simp add: fun_eq_iff)
  ultimately show ?case by simp
qed (simp add: writes_def)

lemma writes_subscriptions:
  "length qs = length ts \<Longrightarrow> \<forall>t \<in> set ts. wf_string t \<Longrightarrow> wf_bytes qs \<Longrightarrow>
     writes (write_subscriptions ts qs) (concat (map2 (\<lambda>t q. string_bytes t @ [q]) ts qs))"
proof (induction ts qs rule: list_induct2')
  case (4 t ts q qs)
  let ?rest = "concat (map2 (\<lambda>t q. string_bytes t @ [q]) ts qs)"
  have "writes (\<lambda>buf pos. bindE (writeString t (UTF8Length t) buf pos) (\<lambda>(buf1, pos1).
      bindE (Inr (store_byte q buf1 pos1, pos1 + 1)) (\<lambda>(buf2, pos2). write_subscriptions ts qs buf2 pos2)))
      (string_bytes t @ [q] @ ?rest)"
    using 4 by (intro writes_bind writes_string writes_store_byte) (auto simp: wf_bytes_def)
  moreover have "write_subscriptions (t # ts) (q # qs) = (\<lambda>buf pos.
      bindE (writeString t (UTF8Length t) buf pos) (\<lambda>(buf1, pos1).
      bindE (Inr (store_byte q buf1 pos1, pos1 + 1)) (\<lambda>(buf2, pos2). write_subscriptions ts qs buf2 pos2)))"
    by (simp add: fun_eq_iff)
  ultimately show ?case by simp
qed (simp_all add: writes_def)

lemma getPayloadBytes_view:
  assumes "wf_payload p"
  obtains v where "getPayloadBytes p = Inr v" "publish_view v = payload_bytes p"
    "byteLength v = length (payload_bytes p)" "wf_bytes (payload_bytes p)" "wf_bytes (will_view v)"
proof (cases p)
  case (PString s)
  with assms obtain bs where bs: "utf8_bytes s = Inr bs" "length bs = UTF8Length s"
    using utf8_bytes_length [of s] by auto
  then have w: "wf_bytes bs" using utf8_bytes_bound by (auto simp: wf_bytes_def)
  then have "store_seq bs (replicate (UTF8Length s) 0) 0 = bs"
    using store_seq_middle [of "replicate (UTF8Length s) 0" bs "[]" "[]"] bs(2) by (simp add: wf_bytes_def)
  with PString bs w show thesis
    by (intro that [of "PUint8Array bs"]) (simp_all add: stringToUTF8_def payload_bytes_def)
qed (use assms that in \<open>auto simp: payload_bytes_def wf_bytes_def\<close>)


section \<open>Encoding is the concatenation of the fields\<close>

definition finishes :: "(buffer \<Rightarrow> nat \<Rightarrow> js_error + (buffer \<times> nat)) \<Rightarrow> nat list \<Rightarrow> bool" where
  "finishes f bs \<longleftrightarrow> (\<forall>buf pos w. written buf pos w (length bs) \<longrightarrow>
     (\<exists>pos'. f buf pos = Inr (w @ bs, pos')))"

lemma writes_finishes: "writes f bs \<Longrightarrow> finishes f bs"
  unfolding finishes_def
proof (intro allI impI)
  fix buf pos w
  assume f: "writes f bs" and "written buf pos w (length bs)"
  then have "written buf pos w (length bs + 0)" by simp
  with f obtain buf' pos' where "f buf pos = Inr (buf', pos')" "written buf' pos' (w @ bs) 0"
    by (rule writesD)
  then show "\<exists>pos'. f buf pos = Inr (w @ bs, pos')" by (auto dest: written_done)
qed

definition written_by :: "wire \<Rightarrow> buffer \<Rightarrow> nat list \<Rightarrow> nat list \<Rightarrow> bool" where
  "written_by w bytes h p \<longleftrightarrow>
     remaining_length w = Inr (length (packet_body w), bytes) \<and>
     packet_body w = h @ ident_bytes (messageIdentifier w) @ p \<and>
     writes (write_header w) h \<and> finishes (write_payload w bytes) p"

lemma ident_bytes_length: "length (ident_bytes i) = (if i = None then 0 else 2)"
  by (auto simp: ident_bytes_def uint16_bytes_def split: option.split ident.split)

lemma wf_string_length: "wf_string s \<Longrightarrow> length (string_bytes s) = UTF8Length s + 2"
  by (simp add: wf_string_def string_bytes_length)

lemma opt_string_bytes_length: "wf_opt_string s \<Longrightarrow> length (opt_string_bytes s) = opt_string_length s"
  by (cases s) (simp_all add: wf_opt_string_def opt_string_bytes_def opt_string_length_def wf_string_length)

lemma write_header_nil: "wire_type w \<noteq> PUBLISH \<Longrightarrow> wire_type w \<noteq> CONNECT \<Longrightarrow> writes (write_header w) []"
proof -
  assume "wire_type w \<noteq> PUBLISH" "wire_type w \<noteq> CONNECT"
  then have "write_header w = (\<lambda>buf pos. Inr (buf, pos))" by (simp add: fun_eq_iff write_header_def)
  then show ?thesis by (simp add: writes_nil)
qed

lemma written_by_publish:
  assumes "wf_wire w" "wire_type w = PUBLISH"
  shows "\<exists>bytes h p. written_by w bytes h p"
proof -
  from assms obtain m d where m: "payloadMessage w = Some m" and d: "destinationName m = Some d"
      "wf_string d" and p: "wf_payload (msg_payload m)"
    by (auto simp: wf_wire_def wf_message_def)
  let ?p = "payload_bytes (msg_payload m)"
  from p obtain v where v: "getPayloadBytes (msg_payload m) = Inr v" "publish_view v = ?p"
    "byteLength v = length ?p" "wf_bytes ?p" by (rule getPayloadBytes_view)
  have header: "write_header w = writeString d (UTF8Length d)"
    using assms(2) m d by (simp add: fun_eq_iff write_header_def the_prop_def)
  have "finishes (write_payload w ?p) ?p"
    unfolding finishes_def
  proof (intro allI impI)
    fix buf pos wr
    assume "written buf pos wr (length ?p)"
    then have "written buf pos wr (length ?p + 0)" by simp
    with v(4) obtain buf' where "set_bytes ?p buf pos = Inr buf'" "written buf' (pos + length ?p) (wr @ ?p) 0"
      unfolding wf_bytes_def by (elim written_set_bytes)
    with assms(2) show "\<exists>pos'. write_payload w ?p buf pos = Inr (wr @ ?p, pos')"
      by (auto simp: write_payload_def dest: written_done)
  qed
  with assms m d v header show ?thesis
    by (intro exI [of _ ?p] exI [of _ "string_bytes d"])
      (simp add: written_by_def remaining_length_def the_prop_def packet_body_def opt_string_bytes_def
        ident_bytes_length wf_string_length writes_string)
qed

lemma concat_length_strings:
  "\<forall>t \<in> set ts. wf_string t \<Longrightarrow>
     length (concat (map string_bytes ts)) = sum_list (map (\<lambda>t. UTF8Length t + 2) ts)"
  by (induction ts) (auto simp: wf_string_length)

lemma concat_length_subscriptions:
  "length qs = length ts \<Longrightarrow> \<forall>t \<in> set ts. wf_string t \<Longrightarrow>
     length (concat (map2 (\<lambda>t q. string_bytes t @ [q]) ts qs)) =
     sum_list (map (\<lambda>t. UTF8Length t + 2) ts) + length qs"
  by (induction ts qs rule: list_induct2') (auto simp: wf_string_length)

lemma written_by_topics:
  assumes "wf_wire w" "wire_type w = SUBSCRIBE \<or> wire_type w = UNSUBSCRIBE"
  shows "\<exists>bytes h p. written_by w bytes h p"
proof (cases "wire_type w = SUBSCRIBE")
  case True
  with assms obtain ts qs where ts: "topics w = Some ts" "requestedQos w = Some qs" "length qs = length ts"
      "\<forall>t \<in> set ts. wf_string t" "wf_bytes qs" by (auto simp: wf_wire_def)
  from True ts(1,2) have "write_payload w [] = write_subscriptions ts qs"
    by (simp add: fun_eq_iff write_payload_def the_prop_def)
  with True ts show ?thesis
    by (intro exI [of _ "[]"] exI [of _ "concat (map2 (\<lambda>t q. string_bytes t @ [q]) ts qs)"])
      (simp add: written_by_def remaining_length_def the_prop_def packet_body_def ident_bytes_length
        concat_length_subscriptions write_header_nil writes_finishes writes_subscriptions)
next
  case False
  with assms obtain ts where w: "wire_type w = UNSUBSCRIBE" and ts: "topics w = Some ts"
      "\<forall>t \<in> set ts. wf_string t" by (auto simp: wf_wire_def)
  from w ts(1) have "write_payload w [] = write_topics ts"
    by (simp add: fun_eq_iff write_payload_def the_prop_def)
  with w ts show ?thesis
    by (intro exI [of _ "[]"] exI [of _ "concat (map string_bytes ts)"])
      (simp add: written_by_def remaining_length_def the_prop_def packet_body_def ident_bytes_length
        concat_length_strings write_header_nil writes_finishes writes_topics)
qed

lemma written_by_other:
  assumes "wire_type w \<notin> {CONNECT, PUBLISH, SUBSCRIBE, UNSUBSCRIBE}"
  shows "\<exists>bytes h p. written_by w bytes h p"
proof -
  have "write_payload w [] = (\<lambda>buf pos. Inr (buf, pos))"
    using assms by (simp add: fun_eq_iff write_payload_def)
  then have "finishes (write_payload w []) []" by (simp add: writes_finishes writes_nil)
  with assms show ?thesis
    by (intro exI [of _ "[]"]) (simp add: written_by_def remaining_length_def packet_body_def
        ident_bytes_length write_header_nil)
qed


lemma connect_flags_bound:
  assumes "\<And>m. willMessage w = Some m \<Longrightarrow> qos m < 3"
  shows "connect_flags w < 256"
proof (cases "willMessage w")
  case None
  then show ?thesis by (simp add: connect_flags_def Let_def)
next
  case (Some m)
  with assms have "qos m = 0 \<or> qos m = 1 \<or> qos m = 2" by (auto simp: less_Suc_eq numeral_3_eq_3)
  with Some show ?thesis by (auto simp: connect_flags_def Let_def)
qed

lemma first_byte_publish:
  assumes "wire_type w = PUBLISH" "payloadMessage w = Some m" "qos m < 3"
  shows "first_byte w =
    48 + (if duplicate m then 8 else 0) + 2 * qos m + (if retained m then 1 else 0)"
proof -
  have type: "push_bit 4 (PUBLISH AND 15) = (48::nat)" by code_simp
  from assms(3) have "qos m = 0 \<or> qos m = 1 \<or> qos m = 2" by (auto simp: less_Suc_eq numeral_3_eq_3)
  then show ?thesis
    unfolding first_byte_def assms(1) type Let_def by (auto simp: assms(2))
qed

lemma first_byte_bound:
  assumes "\<And>m. wire_type w = PUBLISH \<Longrightarrow> payloadMessage w = Some m \<Longrightarrow> qos m < 3"
  shows "first_byte w < 256"
proof (cases "wire_type w = PUBLISH \<and> payloadMessage w \<noteq> None")
  case True
  with assms show ?thesis by (auto simp: first_byte_publish)
next
  case False
  have "wire_type w AND 15 < 16" by (simp add: and_mask_nat)
  then have "push_bit 4 (wire_type w AND 15) < 256" by (simp add: push_bit_eq_mult)
  with False show ?thesis by (auto simp: first_byte_def Let_def)
qed

lemma will_step:
  assumes "willMessage w = Some m" "wf_message m" "length (will_bytes (willMessage w)) < 2 ^ 31"
  obtains d v where "destinationName m = Some d" "getPayloadBytes (msg_payload m) = Inr v"
    "length (will_bytes (willMessage w)) = UTF8Length d + 2 + (length (will_view v) + 2)"
    "writes (\<lambda>buf pos. bindE (writeString d (UTF8Length d) buf pos) (\<lambda>(buf2, pos2).
       let (buf3, pos3) = writeUint16 (Id (length (will_view v))) buf2 pos2
       in bindE (set_bytes (will_view v) buf3 pos3) (\<lambda>buf4. Inr (buf4, pos3 + length (will_view v)))))
     (will_bytes (willMessage w))"
proof -
  from assms(2) obtain d where d: "destinationName m = Some d" "wf_string d" and p: "wf_payload (msg_payload m)"
    by (auto simp: wf_message_def)
  from p obtain v where v: "getPayloadBytes (msg_payload m) = Inr v" "wf_bytes (will_view v)"
    by (rule getPayloadBytes_view)
  have bytes: "will_bytes (willMessage w) = string_bytes d @ uint16_of (Id (length (will_view v))) @ will_view v"
    using assms(1) d v(1) by (simp add: will_bytes_def opt_string_bytes_def uint16_of_def Let_def)
  then have len: "length (will_bytes (willMessage w)) = UTF8Length d + 2 + (length (will_view v) + 2)"
    using d(2) by (simp add: wf_string_length uint16_of_def uint16_bytes_def)
  have "writes (\<lambda>buf pos. bindE (writeString d (UTF8Length d) buf pos) (\<lambda>(buf2, pos2).
      bindE (Inr (writeUint16 (Id (length (will_view v))) buf2 pos2)) (\<lambda>(buf3, pos3).
      bindE (set_bytes (will_view v) buf3 pos3) (\<lambda>buf4. Inr (buf4, pos3 + length (will_view v))))))
      (string_bytes d @ uint16_of (Id (length (will_view v))) @ will_view v)"
    using assms(3) len
    by (intro writes_bind writes_string writes_uint16 writes_set_bytes d(2) v(2)) simp
  then show thesis
    by (intro that [OF d(1) v(1) len]) (simp add: bytes)
qed

lemma written_by_connect:
  assumes wf: "wf_wire w" and t: "wire_type w = CONNECT"
  shows "\<exists>bytes h p. written_by w bytes h p"
proof -
  from assms obtain c where c: "clientId w = Some c" "wf_string c"
    and u: "wf_opt_string (userName w)" and pw: "wf_opt_string (password w)"
    and ka: "keepAliveInterval w < 2 ^ 31"
    and will: "\<And>m. willMessage w = Some m \<Longrightarrow> wf_message m \<and> length (will_bytes (willMessage w)) < 2 ^ 31"
    by (auto simp: wf_wire_def)
  let ?h = "MqttProtoIdentifier @ [connect_flags w] @ uint16_of (Id (keepAliveInterval w))"
  let ?wp = "\<lambda>bytes buf1 pos1. case willMessage w of
      None \<Rightarrow> Inr (buf1, pos1)
    | Some m \<Rightarrow>
        bindE (the_prop (destinationName m)) (\<lambda>dest.
        bindE (writeString dest (UTF8Length dest) buf1 pos1) (\<lambda>(buf2, pos2).
        let (buf3, pos3) = writeUint16 (Id (length bytes)) buf2 pos2
        in bindE (set_bytes bytes buf3 pos3) (\<lambda>buf4. Inr (buf4, pos3 + length bytes))))"
  have flags: "connect_flags w < 256" using will by (intro connect_flags_bound) (auto simp: wf_message_def)
  have "writes (\<lambda>buf pos. bindE (bindE (set_bytes MqttProtoIdentifier buf pos)
        (\<lambda>buf1. Inr (buf1, pos + length MqttProtoIdentifier))) (\<lambda>(buf1, pos1).
      bindE (Inr (store_byte (connect_flags w) buf1 pos1, pos1 + 1)) (\<lambda>(buf2, pos2).
      Inr (writeUint16 (Id (keepAliveInterval w)) buf2 pos2)))) ?h"
    using ka by (intro writes_bind writes_set_bytes writes_store_byte writes_uint16 flags)
      (simp_all add: wf_bytes_def MqttProtoIdentifier_def)
  moreover have "write_header w = (\<lambda>buf pos. bindE (bindE (set_bytes MqttProtoIdentifier buf pos)
        (\<lambda>buf1. Inr (buf1, pos + length MqttProtoIdentifier))) (\<lambda>(buf1, pos1).
      bindE (Inr (store_byte (connect_flags w) buf1 pos1, pos1 + 1)) (\<lambda>(buf2, pos2).
      Inr (writeUint16 (Id (keepAliveInterval w)) buf2 pos2))))"
    using t by (auto simp: fun_eq_iff write_header_def Let_def set_bytes_def)
  ultimately have h: "writes (write_header w) ?h" by simp
  have cid: "length (opt_string_bytes (Some c)) = UTF8Length c + 2"
    using c by (simp add: opt_string_bytes_def wf_string_length)
  obtain bytes where len: "remaining_length w = Inr (length (packet_body w), bytes)"
    and wp: "writes (?wp bytes) (will_bytes (willMessage w))"
  proof (cases "willMessage w")
    case None
    with t c have "remaining_length w = Inr (length (packet_body w), [])"
      using u pw
      by (simp add: remaining_length_def the_prop_def packet_body_def opt_string_bytes_length
          will_bytes_def ident_bytes_length cid Let_def uint16_bytes_def)
    moreover have "writes (?wp []) (will_bytes (willMessage w))"
      using None by (simp add: will_bytes_def writes_nil)
    ultimately show thesis by (rule that)
  next
    case (Some m)
    with will obtain d v where d: "destinationName m = Some d" "getPayloadBytes (msg_payload m) = Inr v"
        "length (will_bytes (willMessage w)) = UTF8Length d + 2 + (length (will_view v) + 2)"
        "writes (\<lambda>buf pos. bindE (writeString d (UTF8Length d) buf pos) (\<lambda>(buf2, pos2).
           let (buf3, pos3) = writeUint16 (Id (length (will_view v))) buf2 pos2
           in bindE (set_bytes (will_view v) buf3 pos3) (\<lambda>buf4. Inr (buf4, pos3 + length (will_view v)))))
         (will_bytes (willMessage w))"
      using will_step [OF Some] by blast
    with Some have "writes (?wp (will_view v)) (will_bytes (willMessage w))"
      by (simp add: the_prop_def)
    moreover have "remaining_length w = Inr (length (packet_body w), will_view v)"
      using t c Some d(1,2) u pw
      by (simp add: remaining_length_def the_prop_def packet_body_def opt_string_bytes_length
          d(3) [unfolded Some] ident_bytes_length cid Let_def uint16_bytes_def)
    ultimately show thesis by (intro that)
  qed
  have "writes (\<lambda>buf pos. bindE (writeString c (UTF8Length c) buf pos) (\<lambda>(buf1, pos1).
      bindE (?wp bytes buf1 pos1) (\<lambda>(buf2, pos2).
      bindE (write_opt_string (userName w) buf2 pos2) (\<lambda>(buf3, pos3).
      write_opt_string (password w) buf3 pos3))))
      (string_bytes c @ will_bytes (willMessage w) @ opt_string_bytes (userName w) @ opt_string_bytes (password w))"
    by (intro writes_bind writes_string writes_opt_string wp c u pw)
  moreover have "write_payload w bytes = (\<lambda>buf pos. bindE (writeString c (UTF8Length c) buf pos)
      (\<lambda>(buf1, pos1). bindE (?wp bytes buf1 pos1) (\<lambda>(buf2, pos2).
      bindE (write_opt_string (userName w) buf2 pos2) (\<lambda>(buf3, pos3).
      write_opt_string (password w) buf3 pos3))))"
    using t c by (simp add: fun_eq_iff write_payload_def the_prop_def)
  ultimately have p: "writes (write_payload w bytes)
      (string_bytes c @ will_bytes (willMessage w) @ opt_string_bytes (userName w) @ opt_string_bytes (password w))"
    by simp
  have "packet_body w = ?h @ ident_bytes (messageIdentifier w) @
      (string_bytes c @ will_bytes (willMessage w) @ opt_string_bytes (userName w) @ opt_string_bytes (password w))"
    using t c by (simp add: packet_body_def opt_string_bytes_def uint16_of_def)
  with len h writes_finishes [OF p] show ?thesis unfolding written_by_def by blast
qed

lemma wf_wire_written: "wf_wire w \<Longrightarrow> \<exists>bytes h p. written_by w bytes h p"
  using written_by_connect written_by_publish written_by_topics written_by_other by blast

lemma wf_wire_first_byte: "wf_wire w \<Longrightarrow> first_byte w < 256"
  by (rule first_byte_bound) (auto simp: wf_wire_def wf_message_def)

lemma encode_packet:
  assumes "wf_wire w"
  shows "encode w = Inr (packet w)"
proof -
  obtain bytes h p where len: "remaining_length w = Inr (length (packet_body w), bytes)"
    and body: "packet_body w = h @ ident_bytes (messageIdentifier w) @ p"
    and h: "writes (write_header w) h" and p: "finishes (write_payload w bytes) p"
    using wf_wire_written [OF assms] by (auto simp: written_by_def)
  let ?n = "length (packet_body w)"
  let ?mbi = "encodeMBI ?n"
  let ?buf0 = "replicate (?n + (length ?mbi + 1)) (0::nat)"
  have "written ?buf0 0 [] (Suc (length ?mbi + ?n))" by (simp add: written_def)
  then have "written (store_byte (first_byte w) ?buf0 0) (Suc 0) ([] @ [first_byte w]) (length ?mbi + ?n)"
    using wf_wire_first_byte [OF assms] by (rule written_store)
  then obtain buf1 where buf1: "set_bytes ?mbi (store_byte (first_byte w) ?buf0 0) 1 = Inr buf1"
      "written buf1 (1 + length ?mbi) ([first_byte w] @ ?mbi) ?n"
    using encodeMBI_bound by (auto elim: written_set_bytes)
  from buf1(2) have "written buf1 (length ?mbi + 1) ([first_byte w] @ ?mbi)
      (length h + (length (ident_bytes (messageIdentifier w)) + length p))" by (simp add: body)
  with h obtain buf2 pos2 where buf2: "write_header w buf1 (length ?mbi + 1) = Inr (buf2, pos2)"
      "written buf2 pos2 (([first_byte w] @ ?mbi) @ h) (length (ident_bytes (messageIdentifier w)) + length p)"
    by (rule writesD)
  have "wf_ident (messageIdentifier w)" using assms by (simp add: wf_wire_def)
  from writes_identifier [OF this refl] buf2(2) obtain buf3 pos3 where
      buf3: "Inr (write_identifier w buf2 pos2) = (Inr (buf3, pos3) :: js_error + _)"
      "written buf3 pos3 ((([first_byte w] @ ?mbi) @ h) @ ident_bytes (messageIdentifier w)) (length p)"
    by (rule writesD)
  with p obtain pos4 where "write_payload w bytes buf3 pos3 =
      Inr (((([first_byte w] @ ?mbi) @ h) @ ident_bytes (messageIdentifier w)) @ p, pos4)"
    unfolding finishes_def by blast
  with len buf1(1) buf2(1) buf3(1) show ?thesis
    by (simp add: encode_def packet_def body Let_def)
qed


section \<open>Reading packets back\<close>

lemma first_byte_info:
  assumes "wire_type w = PUBLISH" "payloadMessage w = Some m" "qos m < 3"
  defines "i \<equiv> first_byte w AND 0x0F"
  shows "drop_bit 4 (first_byte w) = 3"
    "drop_bit 1 i AND 0x03 = qos m" "i AND 0x01 = 0x01 \<longleftrightarrow> retained m" "i AND 0x08 = 0x08 \<longleftrightarrow> duplicate m"
proof -
  let ?i = "(if duplicate m then 8 else 0) + 2 * qos m + (if retained m then 1 else 0)"
  from assms(3) have q: "qos m = 0 \<or> qos m = 1 \<or> qos m = 2" by (auto simp: less_Suc_eq numeral_3_eq_3)
  have f: "first_byte w = 48 + ?i" using first_byte_publish [OF assms(1-3)] by simp
  then show "drop_bit 4 (first_byte w) = 3" using q by (auto simp: drop_bit_eq_div)
  have i: "i = ?i" using q by (auto simp: i_def f and_mask_nat)
  show "drop_bit 1 i AND 0x03 = qos m" "i AND 0x01 = 0x01 \<longleftrightarrow> retained m" "i AND 0x08 = 0x08 \<longleftrightarrow> duplicate m"
    unfolding i using q by (cases "duplicate m"; cases "retained m"; auto)+
qed

lemma decodeMessage_frame:
  assumes "length body < 268435456"
  shows "snd (decode_mbi (f # encodeMBI (length body) @ body) 1 0 1) = length (f # encodeMBI (length body))"
  using mbi_field.get_put [of "length body" "[f]" body] assms by simp

lemma readUint16_at:
  "n < 65536 \<Longrightarrow> p = length pre \<Longrightarrow> readUint16 (pre @ uint16_bytes n @ post) (Some p) = Some n"
  using readUint16_bytes by simp

lemma uint16_bytes_length [simp]: "length (uint16_bytes n) = 2"
  by (simp add: uint16_bytes_def)

lemma decode_publish_body:
  assumes m: "qos m < 3" "wf_utf16 t" "UTF8Length t < 65536"
    and n: "0 < qos m \<Longrightarrow> n < 65536"
    and i: "drop_bit 1 i AND 0x03 = qos m" "i AND 0x01 = 0x01 \<longleftrightarrow> retained m" "i AND 0x08 = 0x08 \<longleftrightarrow> duplicate m"
    and t: "destinationName m = Some t"
  defines "mid \<equiv> if 0 < qos m then Some (Id n) else None"
  shows "decode_publish i (pre @ string_bytes t @ ident_bytes mid @ bs) (length pre) =
    Inr ((WireMessage PUBLISH)\<lparr>messageIdentifier := mid,
           payloadMessage := Some (m\<lparr>msg_payload := PUint8Array bs\<rparr>)\<rparr>)"
proof -
  let ?u = "case utf8_bytes t of Inl e \<Rightarrow> [] | Inr bs \<Rightarrow> bs"
  let ?buf = "pre @ uint16_bytes (UTF8Length t) @ ?u @ ident_bytes mid @ bs"
  have u: "length ?u = UTF8Length t"
    using utf8_bytes_length [OF m(2)] by auto
  have buf: "pre @ string_bytes t @ ident_bytes mid @ bs = ?buf" by (simp add: string_bytes_def)
  have len: "readUint16 ?buf (Some (length pre)) = Some (UTF8Length t)"
    using m(3) by (simp add: readUint16_bytes)
  have topic: "parse_topic ?buf (length pre + 2) (Some (UTF8Length t)) =
      Inr (t, Some (length pre + 2 + UTF8Length t))"
    using parse_topic_string [OF m(2), of pre "UTF8Length t" "ident_bytes mid @ bs"] by simp
  have drop: "drop (length pre + 2 + UTF8Length t) ?buf = ident_bytes mid @ bs"
    using u by simp
  have ident: "readUint16 ?buf (Some (length pre + 2 + UTF8Length t)) = Some n" if "0 < qos m"
  proof -
    have "?buf = (pre @ uint16_bytes (UTF8Length t) @ ?u) @ uint16_bytes n @ bs"
      using that by (simp add: mid_def ident_bytes_def)
    moreover have "length pre + 2 + UTF8Length t = length (pre @ uint16_bytes (UTF8Length t) @ ?u)"
      using u by simp
    ultimately show ?thesis using readUint16_at n that by metis
  qed
  have payload: "drop (length pre + 2 + UTF8Length t + (if 0 < qos m then 2 else 0)) ?buf = bs"
  proof -
    have "drop (k + j) (B :: nat list) = drop j (drop k B)" for k j B
      by (simp add: drop_drop add.commute)
    from this [of "length pre + 2 + UTF8Length t" _ ?buf]
    have "drop (length pre + 2 + UTF8Length t + j) ?buf = drop j (ident_bytes mid @ bs)" for j
      unfolding drop .
    then show ?thesis by (cases "0 < qos m") (simp_all only: mid_def ident_bytes_def if_True if_False
          option.case ident.case, simp_all)
  qed
  have q: "setQos (qos m) x = Inr (x\<lparr>qos := qos m\<rparr>)" for x
    using m(1) by (auto simp: setQos_def)
  have step: "decode_publish i B (length pre) = Inr ((WireMessage PUBLISH)\<lparr>messageIdentifier := mid,
      payloadMessage := Some (m\<lparr>msg_payload := PUint8Array bs\<rparr>)\<rparr>)"
    if B: "readUint16 B (Some (length pre)) = Some (UTF8Length t)"
      "parse_topic B (length pre + 2) (Some (UTF8Length t)) = Inr (t, Some (length pre + 2 + UTF8Length t))"
      "0 < qos m \<Longrightarrow> readUint16 B (Some (length pre + 2 + UTF8Length t)) = Some n"
      "drop (length pre + 2 + UTF8Length t + (if 0 < qos m then 2 else 0)) B = bs" for B
    unfolding decode_publish_def Let_def i B(1,2) bindE.simps split q
    using B(3,4) t
    by (cases m; cases "0 < qos m") (simp_all add: mid_def subarray_def ident_of_def Message_def)
  show ?thesis
    unfolding buf using len topic ident payload by (intro step)
qed

lemma decode_packet_publish:
  assumes w: "wire_type w = PUBLISH" "payloadMessage w = Some m" "wf_message m"
    and t: "destinationName m = Some t" "UTF8Length t < 65536"
    and id: "messageIdentifier w = (if 0 < qos m then Some (Id n) else None)" "n < 65536"
    and len: "length (packet_body w) < 268435456"
  shows "decodeMessage (packet w) =
    Inr ((WireMessage PUBLISH)\<lparr>messageIdentifier := messageIdentifier w,
           payloadMessage := Some (m\<lparr>msg_payload := PUint8Array (payload_bytes (msg_payload m))\<rparr>)\<rparr>)"
proof -
  have m: "qos m < 3" "wf_utf16 t" using w(3) t(1) by (auto simp: wf_message_def wf_string_def)
  let ?pre = "first_byte w # encodeMBI (length (packet_body w))"
  have body: "packet_body w = string_bytes t @ ident_bytes (messageIdentifier w) @ payload_bytes (msg_payload m)"
    using w t by (simp add: packet_body_def opt_string_bytes_def)
  have "packet w = ?pre @ packet_body w" by (simp add: packet_def)
  then have p: "packet w =
      ?pre @ string_bytes t @ ident_bytes (messageIdentifier w) @ payload_bytes (msg_payload m)"
    by (simp only: body)
  note info = first_byte_info [OF w(1,2) m(1)]
  have pos: "snd (decode_mbi (packet w) 1 0 1) = length ?pre"
    using decodeMessage_frame [OF len, of "first_byte w"] by (simp add: packet_def)
  have first: "read_byte (packet w) 0 = Some (first_byte w)" by (simp add: packet_def)
  have "decodeMessage (packet w) = decode_publish (first_byte w AND 0x0F) (packet w) (length ?pre)"
    unfolding decodeMessage_def first pos option.case Let_def info(1) by simp
  also have "\<dots> = decode_publish (first_byte w AND 0x0F)
      (?pre @ string_bytes t @ ident_bytes (messageIdentifier w) @ payload_bytes (msg_payload m)) (length ?pre)"
    by (simp only: p)
  also have "\<dots> = Inr ((WireMessage PUBLISH)\<lparr>messageIdentifier := messageIdentifier w,
      payloadMessage := Some (m\<lparr>msg_payload := PUint8Array (payload_bytes (msg_payload m))\<rparr>)\<rparr>)"
    unfolding id(1) by (rule decode_publish_body [OF m t(2) id(2) info(2-4) t(1)])
  finally show ?thesis .
qed

lemma packet_ack:
  assumes "t \<in> {PUBACK, PUBREC, PUBREL, PUBCOMP, UNSUBACK}" "n < 65536"
  shows "packet ((WireMessage t)\<lparr>messageIdentifier := Some (Id n)\<rparr>) = [16 * t, 2] @ uint16_bytes n"
proof -
  have "encodeMBI 2 = [2]" by (simp add: encodeMBI_digits mbi_bytes.simps)
  moreover have "push_bit 4 (t AND 15) = 16 * t"
    using assms(1) by (auto simp: push_bit_eq_mult)
  ultimately show ?thesis
    using assms(1) by (auto simp: packet_def packet_body_def WireMessage_def ident_bytes_def
        first_byte_def Let_def push_bit_eq_mult)
qed

lemma decode_packet_ack:
  assumes "t \<in> {PUBACK, PUBREC, PUBREL, PUBCOMP, UNSUBACK}" "n < 65536"
  shows "decodeMessage ([16 * t, 2] @ uint16_bytes n) =
    Inr ((WireMessage t)\<lparr>messageIdentifier := Some (Id n)\<rparr>)"
proof -
  have d: "drop_bit 4 (16 * t) = t" by (simp add: drop_bit_eq_div)
  have pos: "snd (decode_mbi ([16 * t, 2] @ uint16_bytes n) 1 0 1) = 2"
    using mbi_field.get_put [of 2 "[16 * t]" "uint16_bytes n"]
    by (simp add: encodeMBI_digits mbi_bytes.simps)
  have r: "readUint16 ([16 * t, 2] @ uint16_bytes n) (Some 2) = Some n"
    using readUint16_at [OF assms(2), of 2 "[16 * t, 2]" "[]"] by simp
  have f: "read_byte ([16 * t, 2] @ uint16_bytes n) 0 = Some (16 * t)" by simp
  show ?thesis
    unfolding decodeMessage_def f pos option.case Let_def d r using assms(1) by (auto simp: ident_of_def)
qed


section \<open>Properties\<close>

text \<open>
  The layout of a packet. For every well-formed message of any type, \<open>encode\<close>
  returns the fixed header, the remaining length (at most four bytes) and then the
  fields in order, each in its place and nothing else: the length computed beforehand is
  exactly the number of bytes the writers store.
\<close>

theorem encode_layout:
  assumes "wf_wire w"
  shows "encode w = Inr (first_byte w # encodeMBI (length (packet_body w)) @ packet_body w) \<and>
    length (encodeMBI (length (packet_body w))) \<le> 4"
  using encode_packet [OF assms] encodeMBI_length by (simp add: packet_def)

text \<open>
  C36. Publications survive the wire. A well-formed message with a topic below 64 KiB, a
  packet below 256 MiB and an identifier exactly when its quality of service asks for
  one is encoded, and \<open>decodeMessage\<close> returns it with the payload as bytes.
\<close>

theorem publish_roundtrip:
  assumes "wire_type w = PUBLISH" "payloadMessage w = Some m" "wf_message m"
    and "destinationName m = Some t" "UTF8Length t < 65536"
    and "messageIdentifier w = (if 0 < qos m then Some (Id n) else None)" "n < 65536"
    and "length (packet_body w) < 268435456"
  shows "\<exists>b. encode w = Inr b \<and>
    decodeMessage b =
      Inr ((WireMessage PUBLISH)\<lparr>messageIdentifier := messageIdentifier w,
             payloadMessage := Some (m\<lparr>msg_payload := PUint8Array (payload_bytes (msg_payload m))\<rparr>)\<rparr>)"
proof -
  have "wf_wire w" using assms by (auto simp: wf_wire_def wf_ident_def)
  then show ?thesis using encode_packet decode_packet_publish [OF assms] by auto
qed

text \<open>The text of a message is the text its receiver reads.\<close>

theorem payload_text_roundtrip:
  assumes "wf_utf16 s"
  shows "getPayloadString (PUint8Array (payload_bytes (PString s))) = Some (Inr s)"
proof -
  obtain bs where bs: "utf8_bytes s = Inr bs" using utf8_bytes_length [OF assms] by blast
  then show ?thesis using parseUTF8_utf8_bytes [OF assms bs, of "[]" "[]"]
    by (simp add: payload_bytes_def)
qed

text \<open>
  Acknowledgements survive the wire, and \<open>PUBREL\<close> goes out with quality of service
  0 in its header.
\<close>

theorem ack_roundtrip:
  assumes "t \<in> {PUBACK, PUBREC, PUBREL, PUBCOMP, UNSUBACK}" "n < 65536"
  shows "encode ((WireMessage t)\<lparr>messageIdentifier := Some (Id n)\<rparr>) =
      Inr [16 * t, 2, n div 256, n mod 256] \<and>
    decodeMessage [16 * t, 2, n div 256, n mod 256] =
      Inr ((WireMessage t)\<lparr>messageIdentifier := Some (Id n)\<rparr>)"
proof -
  have "wf_wire ((WireMessage t)\<lparr>messageIdentifier := Some (Id n)\<rparr>)"
    using assms by (auto simp: wf_wire_def wf_ident_def WireMessage_def)
  from encode_packet [OF this] packet_ack [OF assms] decode_packet_ack [OF assms] assms(2)
  show ?thesis by (simp add: uint16_bytes_def)
qed

text \<open>
  The remaining length. Below 256 MiB it is written in at most four bytes and read
  back, wherever it stands.
\<close>

theorem remaining_length_roundtrip:
  assumes "n < 268435456"
  shows "decode_mbi (pre @ encodeMBI n @ post) (length pre) 0 1 =
      (n, length pre + length (encodeMBI n)) \<and> length (encodeMBI n) \<le> 4 \<and>
    (\<forall>b \<in> set (encodeMBI n). b < 256)"
  using mbi_field.get_put [OF assms, of pre post] encodeMBI_length encodeMBI_bound by auto

text \<open>
  A will message whose payload is an \<open>ArrayBuffer\<close> is announced with an empty
  payload: the bytes of the application are lost.
\<close>

theorem will_array_buffer_lost:
  assumes "wire_type w = CONNECT"
  shows "encode (w\<lparr>willMessage := Some (m\<lparr>msg_payload := PArrayBuffer b\<rparr>)\<rparr>) =
    encode (w\<lparr>willMessage := Some (m\<lparr>msg_payload := PUint8Array []\<rparr>)\<rparr>)"
  using assms
  by (simp add: encode_def remaining_length_def write_header_def write_payload_def connect_flags_def
      first_byte_def write_identifier_def)

lemma publish_roundtrip_witness:
  "\<exists>b. encode ((WireMessage PUBLISH)\<lparr>messageIdentifier := Some (Id 258),
        payloadMessage := Some \<lparr>msg_payload = PString [0x68, 0x69], destinationName = Some [0x74],
          qos = 2, retained = True, duplicate = False\<rparr>\<rparr>) = Inr b \<and>
    decodeMessage b =
      Inr ((WireMessage PUBLISH)\<lparr>messageIdentifier := Some (Id 258),
        payloadMessage := Some \<lparr>msg_payload = PUint8Array [0x68, 0x69], destinationName = Some [0x74],
          qos = 2, retained = True, duplicate = False\<rparr>\<rparr>)"
proof -
  define m where "m = \<lparr>msg_payload = PString [0x68, 0x69], destinationName = Some [0x74],
    qos = 2, retained = True, duplicate = False\<rparr>"
  define w where "w = (WireMessage PUBLISH)\<lparr>messageIdentifier := Some (Id 258), payloadMessage := Some m\<rparr>"
  have h: "\<not> is_high_surrogate 0x68" "\<not> is_high_surrogate 0x69" "\<not> is_high_surrogate 0x74"
    by (simp_all add: is_high_surrogate_def)
  have bytes: "payload_bytes (PString [0x68, 0x69]) = [0x68, 0x69]"
    by (simp add: payload_bytes_def h code_point_bytes_def)
  have 1: "wire_type w = PUBLISH" "payloadMessage w = Some m"
    "messageIdentifier w = (if 0 < qos m then Some (Id 258) else None)"
    by (simp_all add: w_def m_def WireMessage_def)
  have 2: "wf_message m" "destinationName m = Some [0x74]" "UTF8Length [0x74] < 65536"
    by (simp_all add: m_def wf_message_def wf_string_def h)
  have 3: "length (packet_body w) < 268435456"
    by (simp add: packet_body_def 1(1,2) 2(2))
      (simp add: w_def m_def WireMessage_def opt_string_bytes_def string_bytes_def uint16_bytes_def h
        code_point_bytes_def ident_bytes_def bytes)
  from publish_roundtrip [OF 1(1,2) 2 1(3) _ 3] show ?thesis
    by (simp add: bytes 1(3)) (simp add: w_def m_def bytes)
qed

lemma encode_layout_witness:
  "encode ((WireMessage SUBSCRIBE)\<lparr>messageIdentifier := Some (Id 1), topics := Some [[0x74]],
     requestedQos := Some [1]\<rparr>) = Inr [0x82, 6, 0, 1, 0, 1, 0x74, 1]"
proof -
  let ?w = "(WireMessage SUBSCRIBE)\<lparr>messageIdentifier := Some (Id 1), topics := Some [[0x74]],
     requestedQos := Some [1]\<rparr>"
  have h: "\<not> is_high_surrogate 0x74" by (simp add: is_high_surrogate_def)
  have body: "packet_body ?w = [0, 1, 0, 1, 0x74, 1]"
    by (simp add: packet_body_def WireMessage_def ident_bytes_def string_bytes_def h code_point_bytes_def
        uint16_bytes_def)
  have first: "first_byte ?w = 0x82" by (simp add: WireMessage_def) code_simp
  have mbi: "encodeMBI (length [0, 1, 0, 1, 0x74, 1 :: nat]) = [6]"
    by (simp add: encodeMBI_digits mbi_bytes.simps)
  have "wf_wire ?w" by (simp add: wf_wire_def WireMessage_def wf_ident_def wf_string_def h wf_bytes_def)
  from encode_layout [OF this] show ?thesis unfolding body first mbi by simp
qed

lemma payload_text_roundtrip_witness:
  "getPayloadString (PUint8Array [0xC3, 0xA9]) = Some (Inr [0xE9])"
proof -
  have h: "\<not> is_high_surrogate 0xE9" by (simp add: is_high_surrogate_def)
  then have "payload_bytes (PString [0xE9]) = [0xC3, 0xA9]"
    by (simp add: payload_bytes_def code_point_bytes_arith)
  then show ?thesis using payload_text_roundtrip [of "[0xE9]"] h by simp
qed

lemma ack_roundtrip_witness:
  "encode ((WireMessage PUBREL)\<lparr>messageIdentifier := Some (Id 513)\<rparr>) = Inr [96, 2, 2, 1]"
  using ack_roundtrip [of PUBREL 513] by simp

lemma remaining_length_roundtrip_witness:
  "decode_mbi (encodeMBI 321) 0 0 1 = (321, 2)"
proof -
  have "encodeMBI 321 = [193, 2]" by (simp add: encodeMBI_digits mbi_bytes.simps)
  then show ?thesis using remaining_length_roundtrip [of 321 "[]" "[]"] by simp
qed

lemma will_array_buffer_lost_witness:
  "encode ((WireMessage CONNECT)\<lparr>clientId := Some [0x63], willMessage :=
       Some ((Message (PArrayBuffer [1, 2, 3]))\<lparr>destinationName := Some [0x74]\<rparr>)\<rparr>) =
   encode ((WireMessage CONNECT)\<lparr>clientId := Some [0x63], willMessage :=
       Some ((Message (PUint8Array []))\<lparr>destinationName := Some [0x74]\<rparr>)\<rparr>)"
  using will_array_buffer_lost [of "(WireMessage CONNECT)\<lparr>clientId := Some [0x63]\<rparr>" "[1, 2, 3]"
      "(Message (PUint8Array []))\<lparr>destinationName := Some [0x74]\<rparr>"]
  by (simp add: WireMessage_def Message_def)

end
