(* ===== verification/MqttState.thy ===== *)
theory MqttState
  imports MqttPacket
begin

text \<open>
  The state of \<open>ClientImpl\<close> in \<open>mqttws31.js\<close> and its copy in the browser's
  \<open>localStorage\<close>: the constructor, \<open>store\<close> and \<open>restore\<close>. JavaScript objects used
  as maps (\<open>_sentMessages\<close>, \<open>_receivedMessages\<close>, \<open>localStorage\<close>) are association
  lists in insertion order. A stored value is the object that is serialised to JSON; the
  browser's serialiser is taken to return it unchanged, except that an identifier NaN
  becomes null (\<open>None\<close>). The log lists what the client does to its surroundings: packets
  sent, sockets opened and closed, and calls of the application's callbacks, which are
  taken to return nothing and not to call the client back. Tracing is off, as it is
  unless \<open>startTrace\<close> is called.
\<close>

section \<open>State\<close>

record stored_message =
  stored_type :: nat
  stored_id :: "nat option"
  stored_pubRec :: bool
  stored_hex :: jsstring
  stored_qos :: nat
  stored_destination :: "jsstring option"
  stored_duplicate :: bool
  stored_retained :: bool
  stored_sequence :: "nat option"

datatype ready_state = Connecting | Open | Closed

text \<open>
  A \<open>Pinger\<close>: its interval in milliseconds, whether it was reset since it last fired,
  and whether its timer runs.
\<close>

record pinger =
  pinger_interval :: nat
  isReset :: bool
  pinger_armed :: bool

record connect_options =
  opt_timeout :: nat
  opt_userName :: "jsstring option"
  opt_password :: "jsstring option"
  opt_willMessage :: "message option"
  opt_keepAliveInterval :: nat
  opt_cleanSession :: bool
  opt_useSSL :: bool
  opt_onSuccess :: bool
  opt_onFailure :: bool
  opt_hosts :: "jsstring list option"
  opt_ports :: "nat list"

datatype event =
    Sent buffer
  | SocketOpened jsstring
  | SocketClosed
  | Delivered "message option"
  | Arrived "message option"
  | ConnectSucceeded
  | ConnectFailed nat
  | ConnectionLost nat
  | SubscribeSucceeded
  | SubscribeTimedOut nat

type_synonym messages = "(ident option \<times> wire) list"

record client =
  cl_host :: jsstring
  cl_port :: nat
  cl_clientId :: jsstring
  msg_queue :: "wire list"
  sentMessages :: messages
  receivedMessages :: messages
  notify_msg_sent :: bool
  message_identifier :: nat
  cl_sequence :: nat
  connected :: bool
  socket :: "ready_state option"
  connectOptions :: "connect_options option"
  hostIndex :: nat
  has_onConnectionLost :: bool
  has_onMessageDelivered :: bool
  has_onMessageArrived :: bool
  sendPinger :: "pinger option"
  receivePinger :: "pinger option"
  connectTimeout :: "bool option"
  request_timers :: "nat list"
  next_timer :: nat
  localStorage :: "(jsstring \<times> stored_message) list"
  log :: "event list"

definition emit :: "event \<Rightarrow> client \<Rightarrow> client" where
  "emit e c = c\<lparr>log := log c @ [e]\<rparr>"

text \<open>An operation ends with the state it leaves and, when it throws, the exception.\<close>

type_synonym outcome = "client \<times> js_error option"

fun thenDo :: "outcome \<Rightarrow> (client \<Rightarrow> outcome) \<Rightarrow> outcome" where
  "thenDo (c, None) f = f c"
| "thenDo (c, Some e) f = (c, Some e)"

section \<open>Keys of the local storage\<close>

definition localKey :: "client \<Rightarrow> jsstring" where
  "localKey c = cl_host c @ js '':'' @ dec_string (cl_port c) @ js '':'' @ cl_clientId c @ js '':''"

fun ident_string :: "ident option \<Rightarrow> jsstring" where
  "ident_string None = js ''undefined''"
| "ident_string (Some NaN) = js ''NaN''"
| "ident_string (Some (Id n)) = dec_string n"

abbreviation "sent_prefix \<equiv> js ''Sent:''"
abbreviation "received_prefix \<equiv> js ''Received:''"

definition storage_key :: "jsstring \<Rightarrow> client \<Rightarrow> ident option \<Rightarrow> jsstring" where
  "storage_key pre c i = pre @ localKey c @ ident_string i"

definition starts_with :: "jsstring \<Rightarrow> jsstring \<Rightarrow> bool" where
  "starts_with s pre \<longleftrightarrow> take (length pre) s = pre"

definition removeItem :: "jsstring \<Rightarrow> client \<Rightarrow> client" where
  "removeItem k c = c\<lparr>localStorage := AList.delete k (localStorage c)\<rparr>"

section \<open>Payloads as hexadecimal text\<close>

definition hex_int :: "int \<Rightarrow> jsstring" where
  "hex_int x = (if x < 0 then js ''-'' @ js (show_base 16 (nat (- x))) else js (show_base 16 (nat x)))"

definition element_hex :: "int \<Rightarrow> jsstring" where
  "element_hex x = (if x \<le> 0xF then js ''0'' @ hex_int x else hex_int x)"

text \<open>The elements the loop of \<open>store\<close> sees: an \<open>ArrayBuffer\<close> has no \<open>length\<close>.\<close>

fun payload_elements :: "payload \<Rightarrow> int list" where
  "payload_elements (PUint8Array b) = map int b"
| "payload_elements (PTypedArray es w b) = es"
| "payload_elements (PArrayBuffer b) = []"
| "payload_elements (PString s) = []"

definition payload_hex :: "payload \<Rightarrow> jsstring" where
  "payload_hex p = concat (map element_hex (payload_elements p))"

definition hex_digit :: "nat \<Rightarrow> nat option" where
  "hex_digit u =
     (if 48 \<le> u \<and> u \<le> 57 then Some (u - 48)
      else if 97 \<le> u \<and> u \<le> 102 then Some (u - 87)
      else if 65 \<le> u \<and> u \<le> 70 then Some (u - 55)
      else None)"

text \<open>\<open>parseInt\<close> of two characters in base 16, stored in a byte; 45 is the minus sign.\<close>

definition hex_pair :: "nat \<Rightarrow> nat \<Rightarrow> nat" where
  "hex_pair a b =
     (case (hex_digit a, hex_digit b) of
        (Some x, Some y) \<Rightarrow> 16 * x + y
      | (Some x, None) \<Rightarrow> x
      | (None, Some y) \<Rightarrow> if a = 45 then (256 - y) mod 256 else 0
      | (None, None) \<Rightarrow> 0)"

fun parse_hex :: "jsstring \<Rightarrow> buffer" where
  "parse_hex (a # b # rest) = hex_pair a b # parse_hex rest"
| "parse_hex _ = []"

section \<open>Store and restore\<close>

definition json_id :: "ident option \<Rightarrow> nat option" where
  "json_id i = (case i of Some (Id n) \<Rightarrow> Some n | _ \<Rightarrow> None)"

text \<open>
  \<open>store\<close>: also returns the message, which gets a sequence number when it is stored as
  sent for the first time. The payload is read first, and may throw.
\<close>

definition store :: "jsstring \<Rightarrow> wire \<Rightarrow> client \<Rightarrow> client \<times> (js_error + wire)" where
  "store pre w c =
     (if wire_type w \<noteq> PUBLISH then (c, Inl InvalidStoredData)
      else case payloadMessage w of
        None \<Rightarrow> (c, Inl TypeError)
      | Some m \<Rightarrow>
          (case getPayloadBytes (msg_payload m) of
             Inl e \<Rightarrow> (c, Inl e)
           | Inr bytes \<Rightarrow>
               (let sent = starts_with pre sent_prefix;
                    (c1, w1) =
                      (if sent \<and> wire_sequence w = None
                       then (c\<lparr>cl_sequence := cl_sequence c + 1\<rparr>,
                             w\<lparr>wire_sequence := Some (cl_sequence c + 1)\<rparr>)
                       else (c, w));
                    stored = \<lparr>stored_type = PUBLISH, stored_id = json_id (messageIdentifier w),
                      stored_pubRec = pubRecReceived w, stored_hex = payload_hex bytes,
                      stored_qos = qos m, stored_destination = destinationName m,
                      stored_duplicate = duplicate m, stored_retained = retained m,
                      stored_sequence = (if sent then wire_sequence w1 else None)\<rparr>
                in (c1\<lparr>localStorage :=
                      AList.update (storage_key pre c (messageIdentifier w)) stored (localStorage c)\<rparr>,
                    Inr w1))))"

text \<open>The wire message of a stored value.\<close>

definition restored_message :: "stored_message \<Rightarrow> js_error + message" where
  "restored_message s =
     bindE (setQos (stored_qos s) (Message (PUint8Array (parse_hex (stored_hex s))))) (\<lambda>m.
     case stored_destination s of
       None \<Rightarrow> Inl InvalidArgument
     | Some d \<Rightarrow> Inr (m\<lparr>destinationName := Some d, duplicate := stored_duplicate s,
                        retained := stored_retained s\<rparr>))"

definition restored_wire :: "stored_message \<Rightarrow> js_error + wire" where
  "restored_wire s =
     (if stored_type s \<noteq> PUBLISH then Inl InvalidStoredData
      else bindE (restored_message s) (\<lambda>m.
        Inr ((WireMessage PUBLISH)\<lparr>messageIdentifier := map_option Id (stored_id s),
               pubRecReceived := stored_pubRec s, wire_sequence := stored_sequence s,
               payloadMessage := Some m\<rparr>)))"

definition restore :: "jsstring \<Rightarrow> stored_message \<Rightarrow> client \<Rightarrow> js_error + client" where
  "restore key v c =
     bindE (restored_wire v) (\<lambda>w.
     if starts_with key (sent_prefix @ localKey c) then
       Inr (c\<lparr>sentMessages := AList.update (messageIdentifier w) w (sentMessages c)\<rparr>)
     else if starts_with key (received_prefix @ localKey c) then
       Inr (c\<lparr>receivedMessages := AList.update (messageIdentifier w) w (receivedMessages c)\<rparr>)
     else Inr c)"

fun restore_all :: "(jsstring \<times> stored_message) list \<Rightarrow> client \<Rightarrow> js_error + client" where
  "restore_all [] c = Inr c"
| "restore_all ((key, v) # items) c =
     (if starts_with key (sent_prefix @ localKey c) \<or> starts_with key (received_prefix @ localKey c)
      then bindE (restore key v c) (restore_all items)
      else restore_all items c)"

text \<open>What the browser offers, and the constructor.\<close>

record browser =
  has_WebSocket :: bool
  has_localStorage :: bool
  has_ArrayBuffer :: bool

definition fresh_client ::
  "jsstring \<Rightarrow> nat \<Rightarrow> jsstring \<Rightarrow> (jsstring \<times> stored_message) list \<Rightarrow> client" where
  "fresh_client h p cid storage =
     \<lparr>cl_host = h, cl_port = p, cl_clientId = cid, msg_queue = [], sentMessages = [],
      receivedMessages = [], notify_msg_sent = False, message_identifier = 1, cl_sequence = 0,
      connected = False, socket = None, connectOptions = None, hostIndex = 0,
      has_onConnectionLost = False, has_onMessageDelivered = False, has_onMessageArrived = False,
      sendPinger = None, receivePinger = None, connectTimeout = None, request_timers = [],
      next_timer = 0, localStorage = storage, log = []\<rparr>"

definition ClientImpl ::
  "browser \<Rightarrow> jsstring \<Rightarrow> nat \<Rightarrow> jsstring \<Rightarrow> (jsstring \<times> stored_message) list \<Rightarrow> js_error + client"
where
  "ClientImpl br h p cid storage =
     (if \<not> has_WebSocket br \<or> \<not> has_localStorage br \<or> \<not> has_ArrayBuffer br then Inl Unsupported
      else restore_all storage (fresh_client h p cid storage))"

end
