(* ===== verification/MqttClient.thy ===== *)
theory MqttClient
  imports MqttState
begin

text \<open>
  The operations and event handlers of \<open>ClientImpl\<close> in \<open>mqttws31.js\<close>, in the
  order of the code, with \<open>Pinger\<close> and \<open>Timeout\<close>. Every handler returns the state it
  leaves together with the exception it throws, if any: what was done before the
  exception stays done. An object that is both queued and in flight is copied; the queue
  only encodes its copy, and \<open>encode\<close> reads none of the properties changed later.
\<close>

section \<open>Pinger and Timeout\<close>

definition Pinger :: "nat \<Rightarrow> pinger" where
  "Pinger interval = \<lparr>pinger_interval = interval * 1000, isReset = False, pinger_armed = False\<rparr>"

definition pinger_reset :: "pinger \<Rightarrow> pinger" where
  "pinger_reset p = p\<lparr>isReset := True, pinger_armed := (pinger_interval p > 0)\<rparr>"

definition pinger_cancel :: "pinger \<Rightarrow> pinger" where
  "pinger_cancel p = p\<lparr>pinger_armed := False\<rparr>"

section \<open>Connecting and disconnecting\<close>

definition doConnect :: "jsstring \<Rightarrow> nat \<Rightarrow> client \<Rightarrow> outcome" where
  "doConnect h p c =
     (case connectOptions c of
        None \<Rightarrow> (c, Some TypeError)
      | Some opts \<Rightarrow>
          (let wsurl = (if opt_useSSL opts then js ''wss://'' else js ''ws://'')
                 @ h @ js '':'' @ dec_string p @ js ''/mqtt'';
               pinger = Pinger (opt_keepAliveInterval opts)
           in (emit (SocketOpened wsurl)
                 (c\<lparr>connected := False, socket := Some Connecting, sendPinger := Some pinger,
                    receivePinger := Some pinger, connectTimeout := Some True\<rparr>), None)))"

definition connect :: "connect_options \<Rightarrow> client \<Rightarrow> outcome" where
  "connect opts c =
     (if connected c then (c, Some InvalidState)
      else if socket c \<noteq> None then (c, Some InvalidState)
      else
        (let c1 = c\<lparr>connectOptions := Some opts\<rparr>
         in case opt_hosts opts of
              Some hs \<Rightarrow> doConnect (hs ! 0) (opt_ports opts ! 0) (c1\<lparr>hostIndex := 0\<rparr>)
            | None \<Rightarrow> doConnect (cl_host c) (cl_port c) c1))"

abbreviation (input) "CODE_OK \<equiv> (0::nat)"
abbreviation (input) "CODE_CONNECT_TIMEOUT \<equiv> (1::nat)"
abbreviation (input) "CODE_PING_TIMEOUT \<equiv> (4::nat)"
abbreviation (input) "CODE_INTERNAL_ERROR \<equiv> (5::nat)"
abbreviation (input) "CODE_CONNACK_RETURNCODE \<equiv> (6::nat)"
abbreviation (input) "CODE_SOCKET_ERROR \<equiv> (7::nat)"
abbreviation (input) "CODE_SOCKET_CLOSE \<equiv> (8::nat)"
abbreviation (input) "CODE_INVALID_MQTT_MESSAGE_TYPE \<equiv> (16::nat)"

text \<open>
  \<open>_disconnected\<close>, in two parts: dropping what belongs to the connection, then the next
  host or the callbacks. Only an open socket is closed.
\<close>

definition drop_connection :: "client \<Rightarrow> outcome" where
  "drop_connection c =
     (case (sendPinger c, receivePinger c) of
        (Some sp, Some rp) \<Rightarrow>
          (let c1 = c\<lparr>sendPinger := Some (pinger_cancel sp), receivePinger := Some (pinger_cancel rp),
                  connectTimeout := map_option (\<lambda>_. False) (connectTimeout c),
                  msg_queue := [], notify_msg_sent := False\<rparr>;
               c2 = (if socket c1 = Some Open then emit SocketClosed c1 else c1)
           in (c2\<lparr>socket := None\<rparr>, None))
      | _ \<Rightarrow> (c, Some TypeError))"

definition disconnected :: "nat option \<Rightarrow> client \<Rightarrow> outcome" where
  "disconnected errorCode c =
     thenDo (drop_connection c) (\<lambda>c1.
     case connectOptions c1 of
       None \<Rightarrow> (c1, Some TypeError)
     | Some opts \<Rightarrow>
         (let code = (case errorCode of None \<Rightarrow> CODE_OK | Some e \<Rightarrow> e);
              report = (if connected c1 then
                  (let c2 = c1\<lparr>connected := False\<rparr>
                   in (if has_onConnectionLost c2 then emit (ConnectionLost code) c2 else c2, None))
                else (if opt_onFailure opts then emit (ConnectFailed code) c1 else c1, None))
          in case opt_hosts opts of
               Some hs \<Rightarrow>
                 if hostIndex c1 < length hs - 1 then
                   doConnect (hs ! (hostIndex c1 + 1)) (opt_ports opts ! (hostIndex c1 + 1))
                     (c1\<lparr>hostIndex := hostIndex c1 + 1\<rparr>)
                 else report
             | None \<Rightarrow> report))"

section \<open>Sending\<close>

text \<open>
  \<open>_socket_send\<close>. The browser's socket throws while it is connecting and silently
  drops data once it is closed.
\<close>

definition socket_send :: "wire \<Rightarrow> client \<Rightarrow> outcome" where
  "socket_send w c =
     (case socket c of
        None \<Rightarrow> (c, Some TypeError)
      | Some state \<Rightarrow>
          (case encode w of
             Inl e \<Rightarrow> (c, Some e)
           | Inr b \<Rightarrow>
               if state = Connecting then (c, Some DomException)
               else
                 (let c1 = (if state = Open then emit (Sent b) c else c)
                  in case sendPinger c1 of
                       None \<Rightarrow> (c1, Some TypeError)
                     | Some p \<Rightarrow> (c1\<lparr>sendPinger := Some (pinger_reset p)\<rparr>, None))))"

text \<open>
  The loop of \<open>_process_queue\<close>. The queue is reversed in place and popped from its end,
  so while the array is still the client's queue (\<open>attached\<close>) it holds the messages that
  are left in reverse order; \<open>_disconnected\<close> installs another array.
\<close>

fun process_loop :: "wire list \<Rightarrow> bool \<Rightarrow> client \<Rightarrow> outcome" where
  "process_loop [] attached c = (c, None)"
| "process_loop (m # ms) attached c =
     thenDo (socket_send m (if attached then c\<lparr>msg_queue := rev ms\<rparr> else c)) (\<lambda>c1.
     if notify_msg_sent c1 then
       thenDo (disconnected None c1) (\<lambda>c2. process_loop ms False (c2\<lparr>notify_msg_sent := False\<rparr>))
     else process_loop ms attached c1)"

definition process_queue :: "client \<Rightarrow> outcome" where
  "process_queue c = process_loop (msg_queue c) True c"

definition schedule_message :: "wire \<Rightarrow> client \<Rightarrow> outcome" where
  "schedule_message m c =
     (let c1 = c\<lparr>msg_queue := msg_queue c @ [m]\<rparr>
      in if connected c1 then process_queue c1 else (c1, None))"

text \<open>\<open>_requires_ack\<close>: the search for an identifier that is not in flight.\<close>

definition maxMessageIdentifier :: nat where
  "maxMessageIdentifier = 65536"

definition used_ids :: "messages \<Rightarrow> nat set" where
  "used_ids ms = {n. Some (Id n) \<in> fst ` set ms}"

lemma finite_used_ids [simp]: "finite (used_ids ms)"
proof -
  have "used_ids ms \<subseteq> (\<lambda>i. case i of Some (Id n) \<Rightarrow> n | _ \<Rightarrow> 0) ` fst ` set ms"
    by (force simp: used_ids_def)
  then show ?thesis by (rule finite_subset) simp
qed

function free_identifier :: "messages \<Rightarrow> nat \<Rightarrow> nat" where
  "free_identifier ms n =
     (if map_of ms (Some (Id n)) \<noteq> None then free_identifier ms (n + 1) else n)"
  by pat_completeness auto
termination
proof (relation "measure (\<lambda>(ms, n). card {k \<in> used_ids ms. n \<le> k})")
  fix ms :: messages and n
  assume "map_of ms (Some (Id n)) \<noteq> None"
  then have "n \<in> used_ids ms" by (simp add: used_ids_def map_of_eq_None_iff)
  then have "n \<in> {k \<in> used_ids ms. n \<le> k} - {k \<in> used_ids ms. n + 1 \<le> k}" by simp
  moreover have "{k \<in> used_ids ms. n + 1 \<le> k} \<subseteq> {k \<in> used_ids ms. n \<le> k}"
    by (intro Collect_mono) linarith
  ultimately have "{k \<in> used_ids ms. n + 1 \<le> k} \<subset> {k \<in> used_ids ms. n \<le> k}" by blast
  then have "card {k \<in> used_ids ms. n + 1 \<le> k} < card {k \<in> used_ids ms. n \<le> k}"
    by (intro psubset_card_mono) auto
  then show "((ms, n + 1), ms, n) \<in> measure (\<lambda>(ms, n). card {k \<in> used_ids ms. n \<le> k})"
    by (simp only: in_measure prod.case)
qed simp

declare free_identifier.simps [simp del]

definition requires_ack :: "wire \<Rightarrow> client \<Rightarrow> client \<times> (js_error + wire)" where
  "requires_ack w c =
     (if length (sentMessages c) > maxMessageIdentifier then (c, Inl TooManyMessages)
      else
        (let i = free_identifier (sentMessages c) (message_identifier c);
             w1 = w\<lparr>messageIdentifier := Some (Id i)\<rparr>;
             c1 = c\<lparr>message_identifier := i,
                    sentMessages := AList.update (Some (Id i)) w1 (sentMessages c)\<rparr>
         in if wire_type w1 = PUBLISH then
              (case store sent_prefix w1 c1 of
                 (c2, Inl e) \<Rightarrow> (c2, Inl e)
               | (c2, Inr w2) \<Rightarrow>
                   (c2\<lparr>sentMessages := AList.update (Some (Id i)) w2 (sentMessages c2)\<rparr>, Inr w2))
            else (c1, Inr w1)))"

definition acknowledged :: "wire \<Rightarrow> client \<Rightarrow> outcome" where
  "acknowledged w c =
     (case requires_ack w c of
        (c1, Inl e) \<Rightarrow> (c1, Some e)
      | (c1, Inr w1) \<Rightarrow> schedule_message w1 c1)"

definition send :: "message \<Rightarrow> client \<Rightarrow> outcome" where
  "send m c =
     (if \<not> connected c then (c, Some InvalidState)
      else
        (let w = (WireMessage PUBLISH)\<lparr>payloadMessage := Some m\<rparr>
         in if qos m > 0 then acknowledged w c
            else
              (let c1 = (if has_onMessageDelivered c
                    then (emit (Delivered (Some m)) c)\<lparr>notify_msg_sent := False\<rparr> else c)
               in schedule_message w c1)))"

text \<open>
  \<open>subscribe\<close> and \<open>unsubscribe\<close>: with a timeout, a timer is started before the message
  gets its identifier.
\<close>

record request_options =
  req_qos :: "nat option"
  req_onSuccess :: bool
  req_timeout :: nat

definition request :: "wire \<Rightarrow> request_options \<Rightarrow> client \<Rightarrow> outcome" where
  "request w opts c =
     (let w1 = w\<lparr>wire_callback := req_onSuccess opts\<rparr>
      in if req_timeout opts > 0 then
           acknowledged (w1\<lparr>wire_timeOut := Some (next_timer c)\<rparr>)
             (c\<lparr>request_timers := request_timers c @ [next_timer c], next_timer := next_timer c + 1\<rparr>)
         else acknowledged w1 c)"

definition subscribe :: "jsstring \<Rightarrow> request_options \<Rightarrow> client \<Rightarrow> outcome" where
  "subscribe topicFilter opts c =
     (if \<not> connected c then (c, Some InvalidState)
      else request ((WireMessage SUBSCRIBE)\<lparr>topics := Some [topicFilter],
             requestedQos := Some [case req_qos opts of None \<Rightarrow> 0 | Some q \<Rightarrow> q]\<rparr>) opts c)"

definition unsubscribe :: "jsstring \<Rightarrow> request_options \<Rightarrow> client \<Rightarrow> outcome" where
  "unsubscribe topicFilter opts c =
     (if \<not> connected c then (c, Some InvalidState)
      else request ((WireMessage UNSUBSCRIBE)\<lparr>topics := Some [topicFilter]\<rparr>) opts c)"

definition disconnect :: "client \<Rightarrow> outcome" where
  "disconnect c =
     (if socket c = None then (c, Some InvalidState)
      else schedule_message (WireMessage DISCONNECT) (c\<lparr>notify_msg_sent := True\<rparr>))"

section \<open>The events of the socket\<close>

definition connect_message :: "connect_options \<Rightarrow> jsstring \<Rightarrow> wire" where
  "connect_message opts cid =
     (WireMessage CONNECT)\<lparr>userName := opt_userName opts, password := opt_password opts,
       willMessage := opt_willMessage opts, keepAliveInterval := opt_keepAliveInterval opts,
       cleanSession := opt_cleanSession opts, clientId := Some cid\<rparr>"

definition on_socket_open :: "client \<Rightarrow> outcome" where
  "on_socket_open c =
     (case connectOptions c of
        None \<Rightarrow> (c, Some TypeError)
      | Some opts \<Rightarrow> socket_send (connect_message opts (cl_clientId c)) c)"

definition receiveMessage :: "wire \<Rightarrow> client \<Rightarrow> client" where
  "receiveMessage w c = (if has_onMessageArrived c then emit (Arrived (payloadMessage w)) c else c)"

definition reply :: "nat \<Rightarrow> ident option \<Rightarrow> wire" where
  "reply t i = (WireMessage t)\<lparr>messageIdentifier := i\<rparr>"

definition receivePublish :: "wire \<Rightarrow> client \<Rightarrow> outcome" where
  "receivePublish w c =
     (case payloadMessage w of
        None \<Rightarrow> (c, Some TypeError)
      | Some m \<Rightarrow>
          if qos m = 0 then (receiveMessage w c, None)
          else if qos m = 1 then
            thenDo (schedule_message (reply PUBACK (messageIdentifier w)) c)
              (\<lambda>c1. (receiveMessage w c1, None))
          else if qos m = 2 then
            (let c1 = c\<lparr>receivedMessages := AList.update (messageIdentifier w) w (receivedMessages c)\<rparr>
             in case store received_prefix w c1 of
                  (c2, Inl e) \<Rightarrow> (c2, Some e)
                | (c2, Inr _) \<Rightarrow> schedule_message (reply PUBREC (messageIdentifier w)) c2)
          else (c, Some ReferenceError))"

text \<open>
  The enumeration of an object's properties: identifiers in ascending order, then the
  other names. \<open>sort\<close> with the comparator of \<open>sequence\<close>; a missing number makes the
  difference NaN, which counts as equal.
\<close>

definition id_of :: "ident option \<times> wire \<Rightarrow> nat" where
  "id_of e = (case fst e of Some (Id n) \<Rightarrow> n | _ \<Rightarrow> 0)"

definition is_id :: "ident option \<times> wire \<Rightarrow> bool" where
  "is_id e \<longleftrightarrow> (case fst e of Some (Id n) \<Rightarrow> True | _ \<Rightarrow> False)"

definition enumerate_wires :: "messages \<Rightarrow> wire list" where
  "enumerate_wires ms = map snd (sort_key id_of (filter is_id ms) @ filter (\<lambda>e. \<not> is_id e) ms)"

definition seq_less :: "wire \<Rightarrow> wire \<Rightarrow> bool" where
  "seq_less a b = (case (wire_sequence a, wire_sequence b) of (Some i, Some j) \<Rightarrow> i < j | _ \<Rightarrow> False)"

fun insert_by_seq :: "wire \<Rightarrow> wire list \<Rightarrow> wire list" where
  "insert_by_seq x [] = [x]"
| "insert_by_seq x (y # ys) = (if seq_less x y then x # y # ys else y # insert_by_seq x ys)"

definition sort_by_seq :: "wire list \<Rightarrow> wire list" where
  "sort_by_seq ws = foldl (\<lambda>acc x. insert_by_seq x acc) [] ws"

definition resend_message :: "wire \<Rightarrow> wire" where
  "resend_message w =
     (if wire_type w = PUBLISH \<and> pubRecReceived w then reply PUBREL (messageIdentifier w) else w)"

fun schedule_all :: "wire list \<Rightarrow> client \<Rightarrow> outcome" where
  "schedule_all [] c = (c, None)"
| "schedule_all (w # ws) c = thenDo (schedule_message w c) (schedule_all ws)"

fun remove_copies :: "jsstring \<Rightarrow> messages \<Rightarrow> client \<Rightarrow> client" where
  "remove_copies pre [] c = c"
| "remove_copies pre ((k, w) # ms) c =
     remove_copies pre ms (removeItem (storage_key pre c (messageIdentifier w)) c)"

definition clear_session :: "client \<Rightarrow> client" where
  "clear_session c =
     (let c1 = (remove_copies sent_prefix (sentMessages c) c)\<lparr>sentMessages := []\<rparr>
      in (remove_copies received_prefix (receivedMessages c1) c1)\<lparr>receivedMessages := []\<rparr>)"

text \<open>\<open>CONNACK\<close>, up to the callback of the application, and as a whole.\<close>

definition connack_session :: "connect_options \<Rightarrow> client \<Rightarrow> client" where
  "connack_session opts c =
     (let c1 = c\<lparr>connectTimeout := Some False\<rparr>
      in if opt_cleanSession opts then clear_session c1 else c1)"

definition connack_resume :: "connect_options \<Rightarrow> client \<Rightarrow> outcome" where
  "connack_resume opts c =
     (let c1 = c\<lparr>connected := True,
            hostIndex := (case opt_hosts opts of None \<Rightarrow> hostIndex c | Some hs \<Rightarrow> length hs)\<rparr>
      in schedule_all (map resend_message (sort_by_seq (enumerate_wires (sentMessages c1)))) c1)"

definition on_connack :: "wire \<Rightarrow> client \<Rightarrow> outcome" where
  "on_connack w c =
     (if connectTimeout c = None then (c, Some TypeError)
      else case connectOptions c of
        None \<Rightarrow> (c\<lparr>connectTimeout := Some False\<rparr>, Some TypeError)
      | Some opts \<Rightarrow>
          if returnCode w = Some 0 then
            thenDo (connack_resume opts (connack_session opts c))
              (\<lambda>c1. process_queue (if opt_onSuccess opts then emit ConnectSucceeded c1 else c1))
          else disconnected (Some CODE_CONNACK_RETURNCODE) (connack_session opts c))"

definition on_puback :: "wire \<Rightarrow> client \<Rightarrow> outcome" where
  "on_puback w c =
     (case map_of (sentMessages c) (messageIdentifier w) of
        None \<Rightarrow> (c, None)
      | Some s \<Rightarrow>
          (let c1 = removeItem (storage_key sent_prefix c (messageIdentifier w))
                 (c\<lparr>sentMessages := AList.delete (messageIdentifier w) (sentMessages c)\<rparr>)
           in (if has_onMessageDelivered c1 then emit (Delivered (payloadMessage s)) c1 else c1, None)))"

definition on_pubrec :: "wire \<Rightarrow> client \<Rightarrow> outcome" where
  "on_pubrec w c =
     (case map_of (sentMessages c) (messageIdentifier w) of
        None \<Rightarrow> (c, None)
      | Some s \<Rightarrow>
          (let s1 = s\<lparr>pubRecReceived := True\<rparr>;
               c1 = c\<lparr>sentMessages := AList.update (messageIdentifier w) s1 (sentMessages c)\<rparr>
           in case store sent_prefix s1 c1 of
                (c2, Inl e) \<Rightarrow> (c2, Some e)
              | (c2, Inr s2) \<Rightarrow>
                  schedule_message (reply PUBREL (messageIdentifier w))
                    (c2\<lparr>sentMessages := AList.update (messageIdentifier w) s2 (sentMessages c2)\<rparr>)))"

definition on_pubrel :: "wire \<Rightarrow> client \<Rightarrow> outcome" where
  "on_pubrel w c =
     (let c1 = removeItem (storage_key received_prefix c (messageIdentifier w)) c;
          c2 = (case map_of (receivedMessages c) (messageIdentifier w) of
                  None \<Rightarrow> c1
                | Some r \<Rightarrow>
                    (receiveMessage r c1)\<lparr>receivedMessages :=
                       AList.delete (messageIdentifier w) (receivedMessages c)\<rparr>)
      in schedule_message (reply PUBCOMP (messageIdentifier w)) c2)"

definition on_pubcomp :: "wire \<Rightarrow> client \<Rightarrow> outcome" where
  "on_pubcomp w c =
     (let c1 = removeItem (storage_key sent_prefix c (messageIdentifier w))
            (c\<lparr>sentMessages := AList.delete (messageIdentifier w) (sentMessages c)\<rparr>)
      in if has_onMessageDelivered c1 then
           (case map_of (sentMessages c) (messageIdentifier w) of
              None \<Rightarrow> (c1, Some TypeError)
            | Some s \<Rightarrow> (emit (Delivered (payloadMessage s)) c1, None))
         else (c1, None))"

text \<open>\<open>SUBACK\<close> and \<open>UNSUBACK\<close>.\<close>

definition on_suback :: "wire \<Rightarrow> client \<Rightarrow> outcome" where
  "on_suback w c =
     (case map_of (sentMessages c) (messageIdentifier w) of
        None \<Rightarrow> (c, None)
      | Some s \<Rightarrow>
          (let c1 = (case wire_timeOut s of
                 None \<Rightarrow> c
               | Some t \<Rightarrow> c\<lparr>request_timers := filter (\<lambda>x. x \<noteq> t) (request_timers c)\<rparr>);
               c2 = (if wire_callback s then emit SubscribeSucceeded c1 else c1)
           in (c2\<lparr>sentMessages := AList.delete (messageIdentifier w) (sentMessages c2)\<rparr>, None)))"

definition on_wire :: "wire \<Rightarrow> client \<Rightarrow> outcome" where
  "on_wire w c =
     (let t = wire_type w in
      if t = CONNACK then on_connack w c
      else if t = PUBLISH then receivePublish w c
      else if t = PUBACK then on_puback w c
      else if t = PUBREC then on_pubrec w c
      else if t = PUBREL then on_pubrel w c
      else if t = PUBCOMP then on_pubcomp w c
      else if t = SUBACK \<or> t = UNSUBACK then on_suback w c
      else if t = PINGRESP then
        (case sendPinger c of
           None \<Rightarrow> (c, Some TypeError)
         | Some p \<Rightarrow> (c\<lparr>sendPinger := Some (pinger_reset p)\<rparr>, None))
      else disconnected (Some CODE_INVALID_MQTT_MESSAGE_TYPE) c)"

definition on_socket_message :: "buffer \<Rightarrow> client \<Rightarrow> outcome" where
  "on_socket_message data c =
     (case receivePinger c of
        None \<Rightarrow> (c, Some TypeError)
      | Some p \<Rightarrow>
          (let c1 = c\<lparr>receivePinger := Some (pinger_reset p)\<rparr>
           in case decodeMessage data of
                Inl e \<Rightarrow> disconnected (Some CODE_INTERNAL_ERROR) c1
              | Inr w \<Rightarrow> on_wire w c1))"

definition on_socket_error :: "client \<Rightarrow> outcome" where
  "on_socket_error c = disconnected (Some CODE_SOCKET_ERROR) c"

definition on_socket_close :: "client \<Rightarrow> outcome" where
  "on_socket_close c = disconnected (Some CODE_SOCKET_CLOSE) c"

section \<open>Timers\<close>

text \<open>
  \<open>doPing\<close>, when the timer of a pinger fires. \<open>get_p\<close> and \<open>put_p\<close> select the send
  or the receive pinger. The ping does not reset the send pinger.
\<close>

definition doPing ::
  "(client \<Rightarrow> pinger option) \<Rightarrow> (pinger \<Rightarrow> client \<Rightarrow> client) \<Rightarrow> client \<Rightarrow> outcome" where
  "doPing get_p put_p c =
     (case get_p c of
        None \<Rightarrow> (c, Some TypeError)
      | Some p \<Rightarrow>
          (let c0 = put_p (p\<lparr>pinger_armed := False\<rparr>) c
           in if \<not> isReset p then disconnected (Some CODE_PING_TIMEOUT) c0
              else
                (let c1 = put_p (p\<lparr>isReset := False, pinger_armed := False\<rparr>) c0
                 in case socket c1 of
                      None \<Rightarrow> (c1, Some TypeError)
                    | Some state \<Rightarrow>
                        if state = Connecting then (c1, Some DomException)
                        else
                          (put_p (p\<lparr>isReset := False, pinger_armed := True\<rparr>)
                             (if state = Open then
                                (case encode (WireMessage PINGREQ) of Inl e \<Rightarrow> c1 | Inr b \<Rightarrow> emit (Sent b) c1)
                              else c1), None))))"

definition put_send_pinger :: "pinger \<Rightarrow> client \<Rightarrow> client" where
  "put_send_pinger p c = c\<lparr>sendPinger := Some p\<rparr>"

definition put_receive_pinger :: "pinger \<Rightarrow> client \<Rightarrow> client" where
  "put_receive_pinger p c = c\<lparr>receivePinger := Some p\<rparr>"

definition connect_timed_out :: "client \<Rightarrow> outcome" where
  "connect_timed_out c =
     disconnected (Some CODE_CONNECT_TIMEOUT) (c\<lparr>connectTimeout := Some False\<rparr>)"

definition request_timed_out :: "nat \<Rightarrow> client \<Rightarrow> client" where
  "request_timed_out t c =
     emit (SubscribeTimedOut t) (c\<lparr>request_timers := filter (\<lambda>x. x \<noteq> t) (request_timers c)\<rparr>)"

end
