(* ===== verification/MqttSafety.thy ===== *)
theory MqttSafety
  imports MqttClient
begin

text \<open>
  Invariants of the MQTT client: the connection state is consistent (\<open>conn_ok\<close>) and
  every in-flight publication has its copy in the local storage (\<open>store_ok\<close>). Most
  operations only move the connection; the locale \<open>kept_by_connection\<close> proves once that
  a predicate the small steps keep is kept by sending, queueing and disconnecting.
\<close>

section \<open>What moving the connection keeps\<close>

locale kept_by_connection =
  fixes P :: "client \<Rightarrow> bool"
  assumes disconnected_keeps: "P c \<Longrightarrow> P (fst (disconnected code c))"
    and emit_keeps: "P c \<Longrightarrow> P (emit e c)"
    and queue_keeps: "P c \<Longrightarrow> P (c\<lparr>msg_queue := q\<rparr>)"
    and notify_keeps: "P c \<Longrightarrow> P (c\<lparr>notify_msg_sent := b\<rparr>)"
    and pinger_keeps: "P c \<Longrightarrow> P (c\<lparr>sendPinger := Some sp\<rparr>)"
begin

lemma then_keeps: "P (fst r) \<Longrightarrow> (\<And>c. P c \<Longrightarrow> P (fst (f c))) \<Longrightarrow> P (fst (thenDo r f))"
  by (cases r; cases "snd r") auto

lemma socket_send_keeps: "P c \<Longrightarrow> P (fst (socket_send w c))"
  by (auto simp: socket_send_def Let_def emit_keeps pinger_keeps split: option.splits sum.splits)

lemma process_loop_keeps: "P c \<Longrightarrow> P (fst (process_loop ms attached c))"
proof (induction ms arbitrary: attached c)
  case Nil
  then show ?case by simp
next
  case (Cons m ms)
  let ?c0 = "if attached then c\<lparr>msg_queue := rev ms\<rparr> else c"
  have "P ?c0" using Cons.prems by (simp add: queue_keeps)
  then have sent: "P (fst (socket_send m ?c0))" by (rule socket_send_keeps)
  show ?case
    unfolding process_loop.simps
  proof (rule then_keeps [OF sent])
    fix c1
    assume c1: "P c1"
    have "P (fst (thenDo (disconnected None c1)
        (\<lambda>c2. process_loop ms False (c2\<lparr>notify_msg_sent := False\<rparr>))))"
      by (rule then_keeps [OF disconnected_keeps [OF c1]]) (rule Cons.IH, erule notify_keeps)
    then show "P (fst (if notify_msg_sent c1
        then thenDo (disconnected None c1) (\<lambda>c2. process_loop ms False (c2\<lparr>notify_msg_sent := False\<rparr>))
        else process_loop ms attached c1))"
      using Cons.IH [OF c1] by simp
  qed
qed

lemma process_queue_keeps: "P c \<Longrightarrow> P (fst (process_queue c))"
  by (simp add: process_queue_def process_loop_keeps)

lemma schedule_message_keeps: "P c \<Longrightarrow> P (fst (schedule_message w c))"
  by (simp add: schedule_message_def Let_def process_queue_keeps queue_keeps)

lemma schedule_all_keeps: "P c \<Longrightarrow> P (fst (schedule_all ws c))"
proof (induction ws arbitrary: c)
  case (Cons w ws)
  then show ?case unfolding schedule_all.simps
    by (intro then_keeps schedule_message_keeps)
qed simp

lemma disconnect_keeps: "P c \<Longrightarrow> P (fst (disconnect c))"
  by (simp add: disconnect_def schedule_message_keeps notify_keeps)

lemma receiveMessage_keeps: "P c \<Longrightarrow> P (receiveMessage w c)"
  by (simp add: receiveMessage_def emit_keeps)

end

section \<open>The connection\<close>

definition conn_ok :: "client \<Rightarrow> bool" where
  "conn_ok c \<longleftrightarrow>
     (socket c \<noteq> None \<longrightarrow> sendPinger c \<noteq> None \<and> receivePinger c \<noteq> None \<and>
        connectTimeout c \<noteq> None \<and> connectOptions c \<noteq> None) \<and>
     (connected c \<longrightarrow> socket c = Some Open \<or> socket c = Some Closed)"

lemma conn_ok_pingers: "conn_ok c \<Longrightarrow> socket c \<noteq> None \<Longrightarrow> sendPinger c \<noteq> None \<and> receivePinger c \<noteq> None"
  by (simp add: conn_ok_def)

interpretation conn: kept_by_connection conn_ok
proof
  fix c code
  assume "conn_ok c"
  then show "conn_ok (fst (disconnected code c))"
    by (auto simp: conn_ok_def disconnected_def drop_connection_def doConnect_def emit_def Let_def
        split: option.splits)
qed (simp_all add: conn_ok_def emit_def)

text \<open>What the invariant on messages depends on, none of which the connection changes.\<close>

definition message_fields :: "client \<Rightarrow> _" where
  "message_fields c = (cl_host c, cl_port c, cl_clientId c, sentMessages c, receivedMessages c,
     localStorage c, cl_sequence c, message_identifier c)"

interpretation frame: kept_by_connection "\<lambda>c. message_fields c = x" for x
proof
  fix c code
  assume "message_fields c = x"
  then show "message_fields (fst (disconnected code c)) = x"
    by (auto simp: message_fields_def disconnected_def drop_connection_def doConnect_def emit_def
        Let_def split: option.splits)
qed (simp_all add: message_fields_def emit_def)

section \<open>Storage keys\<close>

lemma js_inject: "js a = js b \<Longrightarrow> a = b"
  unfolding js_def by (rule map_injective) (auto intro: injI)

lemma dec_string_inject: "dec_string m = dec_string n \<Longrightarrow> m = n"
  unfolding dec_string_def by (drule js_inject) (simp add: show_base_inject)

lemma dec_string_digits: "u \<in> set (dec_string n) \<Longrightarrow> 48 \<le> u \<and> u \<le> 57"
proof -
  assume "u \<in> set (dec_string n)"
  then obtain d where "d \<in> set (digits_base 10 n)" "u = of_char (digit_char d)"
    by (auto simp: dec_string_def js_def show_base_def)
  moreover from this have "d < 10" using digits_base_bound [of 10 d n] by simp
  ultimately show ?thesis by (simp add: digit_char_def of_char_of)
qed

lemma ident_string_names:
  "78 \<in> set (ident_string (Some NaN))" "117 \<in> set (ident_string None)"
  "117 \<notin> set (ident_string (Some NaN))"
  by (simp_all add: js_def)

lemma ident_string_inject: "ident_string i = ident_string j \<longleftrightarrow> i = j"
proof
  assume e: "ident_string i = ident_string j"
  have d: "u \<notin> set (ident_string (Some (Id n)))" if "u = 78 \<or> u = 117" for u n
    using dec_string_digits [of u n] that by auto
  have 1: "ident_string (Some NaN) \<noteq> ident_string (Some (Id n))" for n
    using ident_string_names(1) d by metis
  have 2: "ident_string None \<noteq> ident_string (Some (Id n))" for n
    using ident_string_names(2) d by metis
  have 3: "ident_string None \<noteq> ident_string (Some NaN)" using ident_string_names by metis
  have 4: "ident_string (Some (Id m)) = ident_string (Some (Id n)) \<Longrightarrow> m = n" for m n
    by (simp add: dec_string_inject)
  show "i = j"
    by (rule ident_string.cases [of i]; rule ident_string.cases [of j])
      (use e 1 2 3 4 in metis)+
qed simp

lemma storage_key_inject: "storage_key p c i = storage_key p c j \<longleftrightarrow> i = j"
  by (simp add: storage_key_def ident_string_inject)

lemma storage_key_prefix: "storage_key sent_prefix c i \<noteq> storage_key received_prefix c j"
  by (simp add: storage_key_def js_def)

lemma storage_key_cong:
  "cl_host c = cl_host d \<Longrightarrow> cl_port c = cl_port d \<Longrightarrow> cl_clientId c = cl_clientId d \<Longrightarrow>
     storage_key p c i = storage_key p d i"
  by (simp add: storage_key_def localKey_def)

lemmas storage_keys = storage_key_inject storage_key_prefix storage_key_prefix [symmetric]

section \<open>In-flight messages and their copies\<close>

text \<open>The value \<open>store\<close> writes for a message with the payload bytes \<open>b\<close>.\<close>

definition stored_form :: "bool \<Rightarrow> wire \<Rightarrow> message \<Rightarrow> payload \<Rightarrow> stored_message" where
  "stored_form sent w m b =
     \<lparr>stored_type = PUBLISH, stored_id = json_id (messageIdentifier w), stored_pubRec = pubRecReceived w,
      stored_hex = payload_hex b, stored_qos = qos m, stored_destination = destinationName m,
      stored_duplicate = duplicate m, stored_retained = retained m,
      stored_sequence = (if sent then wire_sequence w else None)\<rparr>"

definition durable :: "bool \<Rightarrow> jsstring \<Rightarrow> client \<Rightarrow> messages \<Rightarrow> bool" where
  "durable sent p c ms \<longleftrightarrow>
     (\<forall>k w m b. map_of ms k = Some w \<longrightarrow> wire_type w = PUBLISH \<longrightarrow> payloadMessage w = Some m \<longrightarrow>
        getPayloadBytes (msg_payload m) = Inr b \<longrightarrow>
        map_of (localStorage c) (storage_key p c k) = Some (stored_form sent w m b))"

definition keyed :: "messages \<Rightarrow> bool" where
  "keyed ms \<longleftrightarrow> distinct (map fst ms) \<and> (\<forall>k w. map_of ms k = Some w \<longrightarrow> messageIdentifier w = k)"

definition store_ok :: "client \<Rightarrow> bool" where
  "store_ok c \<longleftrightarrow> keyed (sentMessages c) \<and> keyed (receivedMessages c) \<and>
     durable True sent_prefix c (sentMessages c) \<and> durable False received_prefix c (receivedMessages c)"

lemma store_ok_fields: "message_fields c = message_fields d \<Longrightarrow> store_ok c = store_ok d"
  by (simp add: message_fields_def store_ok_def durable_def storage_key_def localKey_def)

text \<open>So what only moves the connection keeps \<open>store_ok\<close>.\<close>

lemma store_ok_frame: "store_ok c \<Longrightarrow> message_fields d = message_fields c \<Longrightarrow> store_ok d"
  using store_ok_fields by blast

interpretation msgs: kept_by_connection store_ok
  by unfold_locales
    (auto elim!: store_ok_frame intro: frame.disconnected_keeps frame.emit_keeps frame.queue_keeps
      frame.notify_keeps frame.pinger_keeps)

lemma keyed_update: "keyed ms \<Longrightarrow> messageIdentifier w = k \<Longrightarrow> keyed (AList.update k w ms)"
  by (auto simp: keyed_def map_laws distinct_update_keys)

lemma keyed_delete: "keyed ms \<Longrightarrow> keyed (AList.delete k ms)"
  by (auto simp: keyed_def map_laws distinct_delete_keys)

lemma keyed_nil: "keyed []"
  by (simp add: keyed_def)

lemma durable_nil: "durable s p c []"
  by (simp add: durable_def)

lemma durable_delete: "durable s p c ms \<Longrightarrow> durable s p c (AList.delete k ms)"
  by (auto simp: durable_def map_laws)

definition is_stored :: "wire \<Rightarrow> bool" where
  "is_stored w \<longleftrightarrow> (\<exists>m b. wire_type w = PUBLISH \<and> payloadMessage w = Some m \<and>
     getPayloadBytes (msg_payload m) = Inr b)"

text \<open>What \<open>store\<close> does.\<close>

lemma starts_with_prefix: "starts_with sent_prefix sent_prefix" "\<not> starts_with received_prefix sent_prefix"
  by (simp_all add: starts_with_def js_def)

lemma store_fails: "store p w c = (c1, Inl e) \<Longrightarrow> c1 = c \<and> \<not> is_stored w"
  by (auto simp: store_def is_stored_def Let_def split: if_splits option.splits sum.splits)

lemma store_writes:
  assumes "store p w c = (c1, Inr w1)"
  obtains m b q n where "is_stored w" "payloadMessage w = Some m" "getPayloadBytes (msg_payload m) = Inr b"
    "w1 = w\<lparr>wire_sequence := q\<rparr>"
    "c1 = c\<lparr>cl_sequence := n, localStorage := AList.update (storage_key p c (messageIdentifier w))
       (stored_form (starts_with p sent_prefix) w1 m b) (localStorage c)\<rparr>"
    "(q, n) = (if starts_with p sent_prefix \<and> wire_sequence w = None
       then (Some (cl_sequence c + 1), cl_sequence c + 1) else (wire_sequence w, cl_sequence c))"
proof -
  from assms obtain m b where t: "wire_type w = PUBLISH" and m: "payloadMessage w = Some m"
      and b: "getPayloadBytes (msg_payload m) = Inr b"
    by (auto simp: store_def split: if_splits option.splits sum.splits)
  have stored: "is_stored w" using t m b by (simp add: is_stored_def)
  show thesis
  proof (cases "starts_with p sent_prefix \<and> wire_sequence w = None")
    case True
    with assms t m b stored show thesis
      by (intro that [of m b "Some (cl_sequence c + 1)" "cl_sequence c + 1"])
        (auto simp: store_def Let_def stored_form_def)
  next
    case False
    with assms t m b stored show thesis
      by (intro that [of m b "wire_sequence w" "cl_sequence c"]) (auto simp: store_def Let_def stored_form_def)
  qed
qed

lemma store_succeeds:
  assumes "is_stored w"
  shows "\<exists>c1 w1. store p w c = (c1, Inr w1)"
  using assms store_fails [of p w c] by (cases "store p w c"; cases "snd (store p w c)") auto

definition same_key :: "client \<Rightarrow> client \<Rightarrow> bool" where
  "same_key c d \<longleftrightarrow> cl_host c = cl_host d \<and> cl_port c = cl_port d \<and> cl_clientId c = cl_clientId d"

lemma durable_cong:
  "same_key c d \<Longrightarrow> localStorage c = localStorage d \<Longrightarrow> durable s p c ms = durable s p d ms"
  by (simp add: durable_def same_key_def storage_key_def localKey_def)

lemma durable_update:
  assumes "durable s p c ms" "same_key c1 c"
    and "localStorage c1 = AList.update (storage_key p c k) v (localStorage c)"
    and "\<And>m b. wire_type w = PUBLISH \<Longrightarrow> payloadMessage w = Some m \<Longrightarrow>
      getPayloadBytes (msg_payload m) = Inr b \<Longrightarrow> v = stored_form s w m b"
  shows "durable s p c1 (AList.update k w ms)"
proof -
  have "storage_key p c1 i = storage_key p c i" for i
    using assms(2) by (simp add: same_key_def storage_key_def localKey_def)
  with assms show ?thesis
    by (auto simp: durable_def map_laws storage_key_inject)
qed

lemma durable_update_not_stored:
  "durable s p c ms \<Longrightarrow> \<not> is_stored w \<Longrightarrow> durable s p c (AList.update k w ms)"
  by (auto simp: durable_def map_laws is_stored_def)

lemma durable_other_update:
  assumes "durable s p c ms" "same_key c1 c" "localStorage c1 = AList.update x v (localStorage c)"
    and "\<And>i. storage_key p c i \<noteq> x"
  shows "durable s p c1 ms"
proof -
  have "storage_key p c1 i = storage_key p c i" for i
    using assms(2) by (simp add: same_key_def storage_key_def localKey_def)
  with assms(1,3,4) show ?thesis
    unfolding durable_def by (auto simp: map_laws)
qed

lemma durable_other_delete:
  assumes "durable s p c ms" "same_key c1 c" "localStorage c1 = AList.delete x (localStorage c)"
    and "\<And>i. storage_key p c i \<noteq> x"
  shows "durable s p c1 ms"
proof -
  have "storage_key p c1 i = storage_key p c i" for i
    using assms(2) by (simp add: same_key_def storage_key_def localKey_def)
  with assms(1,3,4) show ?thesis
    unfolding durable_def by (auto simp: map_laws)
qed

lemma durable_remove:
  assumes "durable s p c ms" "same_key c1 c" "localStorage c1 = AList.delete (storage_key p c k) (localStorage c)"
  shows "durable s p c1 (AList.delete k ms)"
proof -
  have "storage_key p c1 i = storage_key p c i" for i
    using assms(2) by (simp add: same_key_def storage_key_def localKey_def)
  with assms show ?thesis
    by (auto simp: durable_def map_laws storage_key_inject)
qed

text \<open>The operations on messages.\<close>

lemma store_sent_ok:
  assumes ok: "store_ok c" and w: "messageIdentifier w = k"
    and st: "store sent_prefix w (c\<lparr>message_identifier := i, sentMessages := AList.update k w (sentMessages c)\<rparr>) = (c1, r)"
  shows "store_ok (case r of Inl e \<Rightarrow> c1 | Inr w1 \<Rightarrow> c1\<lparr>sentMessages := AList.update k w1 (sentMessages c1)\<rparr>)"
proof (cases r)
  case (Inl e)
  with st have c1: "c1 = c\<lparr>message_identifier := i, sentMessages := AList.update k w (sentMessages c)\<rparr>"
    and "\<not> is_stored w" by (auto dest: store_fails)
  then have "durable True sent_prefix c (AList.update k w (sentMessages c))"
    using ok by (simp add: store_ok_def durable_update_not_stored)
  then have "durable True sent_prefix c1 (sentMessages c1)" "durable False received_prefix c1 (receivedMessages c)"
    using ok by (simp_all add: c1 store_ok_def durable_def storage_key_def localKey_def)
  with ok w Inl show ?thesis by (simp add: store_ok_def c1 keyed_update)
next
  case (Inr w1)
  let ?c = "c\<lparr>message_identifier := i, sentMessages := AList.update k w (sentMessages c)\<rparr>"
  obtain m b q n where s0: "is_stored w" and
      s: "payloadMessage w = Some m" "getPayloadBytes (msg_payload m) = Inr b" "w1 = w\<lparr>wire_sequence := q\<rparr>"
      "c1 = ?c\<lparr>cl_sequence := n, localStorage := AList.update (storage_key sent_prefix ?c (messageIdentifier w))
         (stored_form (starts_with sent_prefix sent_prefix) w1 m b) (localStorage ?c)\<rparr>"
    by (rule store_writes [OF st [unfolded Inr]])
  note c1 = s(4) [unfolded w starts_with_prefix(1) [THEN eqTrueI]]
  have same: "same_key (c1\<lparr>sentMessages := x\<rparr>) c" for x by (simp add: c1 same_key_def)
  have key: "storage_key sent_prefix ?c k = storage_key sent_prefix c k"
    by (simp add: storage_key_def localKey_def)
  have ls: "localStorage (c1\<lparr>sentMessages := x\<rparr>) =
      AList.update (storage_key sent_prefix c k) (stored_form True w1 m b) (localStorage c)" for x
    by (simp add: c1 key)
  have msgs: "sentMessages c1 = AList.update k w (sentMessages c)" "receivedMessages c1 = receivedMessages c"
    by (simp_all add: c1)
  have w1: "messageIdentifier w1 = k" "payloadMessage w1 = Some m"
    using w s(1,3) by simp_all
  have dc: "durable True sent_prefix c (sentMessages c)" "durable False received_prefix c (receivedMessages c)"
    using ok by (simp_all add: store_ok_def)
  let ?d = "c1\<lparr>sentMessages := AList.update k w1 (sentMessages c1)\<rparr>"
  have "durable True sent_prefix ?d (AList.update k w1 (sentMessages c))"
    by (rule durable_update [OF dc(1) same ls]) (use s(2) w1(2) in simp)
  moreover have "durable False received_prefix ?d (receivedMessages c)"
    by (rule durable_other_update [OF dc(2) same ls]) (simp add: storage_keys)
  ultimately show ?thesis
    using ok w1(1) Inr by (simp add: store_ok_def msgs alist_update_twice keyed_update)
qed

lemma store_received_ok:
  assumes ok: "store_ok c" and w: "messageIdentifier w = k"
    and st: "store received_prefix w (c\<lparr>receivedMessages := AList.update k w (receivedMessages c)\<rparr>) = (c1, r)"
  shows "store_ok c1"
proof -
  let ?c = "c\<lparr>receivedMessages := AList.update k w (receivedMessages c)\<rparr>"
  have dc: "durable True sent_prefix c (sentMessages c)" "durable False received_prefix c (receivedMessages c)"
    and kc: "keyed (sentMessages c)" "keyed (AList.update k w (receivedMessages c))"
    using ok w by (simp_all add: store_ok_def keyed_update)
  show ?thesis
  proof (cases r)
    case (Inl e)
    with st have c1: "c1 = ?c" and "\<not> is_stored w" by (auto dest: store_fails)
    have "durable False received_prefix c (AList.update k w (receivedMessages c))"
      using dc(2) \<open>\<not> is_stored w\<close> by (rule durable_update_not_stored)
    moreover have "same_key ?c c" "localStorage ?c = localStorage c" by (simp_all add: same_key_def)
    ultimately show ?thesis
      using dc(1) kc durable_cong [of ?c c] by (simp add: store_ok_def c1)
  next
    case (Inr w1)
    obtain m b q n where "is_stored w" and
      s: "payloadMessage w = Some m" "getPayloadBytes (msg_payload m) = Inr b" "w1 = w\<lparr>wire_sequence := q\<rparr>"
      "c1 = ?c\<lparr>cl_sequence := n, localStorage := AList.update (storage_key received_prefix ?c (messageIdentifier w))
         (stored_form (starts_with received_prefix sent_prefix) w1 m b) (localStorage ?c)\<rparr>"
      by (rule store_writes [OF st [unfolded Inr]])
    note c1 = s(4) [unfolded w starts_with_prefix(2) [THEN Eq_FalseI]]
    have same: "same_key c1 c" by (simp add: c1 same_key_def)
    have form: "stored_form False w1 m b = stored_form False w m b"
      by (simp add: s(3) stored_form_def)
    have ls: "localStorage c1 =
        AList.update (storage_key received_prefix c k) (stored_form False w m b) (localStorage c)"
      by (simp add: c1 form storage_key_def localKey_def)
    have "durable False received_prefix c1 (AList.update k w (receivedMessages c))"
      by (rule durable_update [OF dc(2) same ls]) (use s(1,2) in simp)
    moreover have "durable True sent_prefix c1 (sentMessages c)"
      by (rule durable_other_update [OF dc(1) same ls]) (simp add: storage_keys)
    ultimately show ?thesis using kc by (simp add: store_ok_def c1)
  qed
qed

lemma store_ok_delete_sent:
  assumes "store_ok c"
  shows "store_ok (c\<lparr>sentMessages := AList.delete k (sentMessages c)\<rparr>)"
    and "store_ok (removeItem (storage_key sent_prefix c k) (c\<lparr>sentMessages := AList.delete k (sentMessages c)\<rparr>))"
proof -
  have dc: "durable True sent_prefix c (sentMessages c)" "durable False received_prefix c (receivedMessages c)"
    and kc: "keyed (AList.delete k (sentMessages c))" "keyed (receivedMessages c)"
    using assms by (simp_all add: store_ok_def keyed_delete)
  let ?c = "c\<lparr>sentMessages := AList.delete k (sentMessages c)\<rparr>"
  have "same_key ?c c" "localStorage ?c = localStorage c" by (simp_all add: same_key_def)
  then show "store_ok ?c"
    using dc durable_delete [OF dc(1)] kc durable_cong [of ?c c] by (simp add: store_ok_def)
  let ?d = "removeItem (storage_key sent_prefix c k) ?c"
  have same: "same_key ?d c" and ls: "localStorage ?d = AList.delete (storage_key sent_prefix c k) (localStorage c)"
    by (simp_all add: same_key_def removeItem_def)
  have "durable True sent_prefix ?d (AList.delete k (sentMessages c))"
    by (rule durable_remove [OF dc(1) same ls])
  moreover have "durable False received_prefix ?d (receivedMessages c)"
    by (rule durable_other_delete [OF dc(2) same ls]) (simp add: storage_keys)
  ultimately show "store_ok ?d" using kc by (simp add: store_ok_def removeItem_def)
qed

lemma store_ok_delete_received:
  assumes "store_ok c"
  shows "store_ok ((removeItem (storage_key received_prefix c k) c)
    \<lparr>receivedMessages := AList.delete k (receivedMessages c)\<rparr>)"
    (is "store_ok ?d")
proof -
  have dc: "durable True sent_prefix c (sentMessages c)" "durable False received_prefix c (receivedMessages c)"
    and kc: "keyed (sentMessages c)" "keyed (AList.delete k (receivedMessages c))"
    using assms by (simp_all add: store_ok_def keyed_delete)
  have same: "same_key ?d c" and ls: "localStorage ?d = AList.delete (storage_key received_prefix c k) (localStorage c)"
    by (simp_all add: same_key_def removeItem_def)
  have "durable False received_prefix ?d (AList.delete k (receivedMessages c))"
    by (rule durable_remove [OF dc(2) same ls])
  moreover have "durable True sent_prefix ?d (sentMessages c)"
    by (rule durable_other_delete [OF dc(1) same ls]) (simp add: storage_keys)
  ultimately show ?thesis using kc by (simp add: store_ok_def removeItem_def)
qed

text \<open>A message that is not received has nothing to delete.\<close>

lemma delete_absent: "map_of al k = None \<Longrightarrow> AList.delete k al = al"
  by (simp add: delete_id map_of_eq_None_iff)


section \<open>Every operation keeps the invariants\<close>

definition client_ok :: "client \<Rightarrow> bool" where
  "client_ok c \<longleftrightarrow> conn_ok c \<and> store_ok c"

interpretation ok: kept_by_connection client_ok
  by unfold_locales (auto simp: client_ok_def intro: conn.disconnected_keeps msgs.disconnected_keeps
      conn.emit_keeps msgs.emit_keeps conn.queue_keeps msgs.queue_keeps conn.notify_keeps
      msgs.notify_keeps conn.pinger_keeps msgs.pinger_keeps)

lemma store_keeps_conn: "conn_ok (fst (store p w c)) = conn_ok c"
  by (auto simp: store_def conn_ok_def Let_def split: option.split sum.split)

lemma conn_ok_messages [simp]:
  "conn_ok (c\<lparr>sentMessages := ms\<rparr>) = conn_ok c" "conn_ok (c\<lparr>receivedMessages := ms\<rparr>) = conn_ok c"
  "conn_ok (c\<lparr>message_identifier := i\<rparr>) = conn_ok c" "conn_ok (removeItem x c) = conn_ok c"
  "conn_ok (c\<lparr>request_timers := ts\<rparr>) = conn_ok c" "conn_ok (c\<lparr>next_timer := n\<rparr>) = conn_ok c"
  by (simp_all add: conn_ok_def removeItem_def)

lemma store_ok_connection [simp]:
  "store_ok (c\<lparr>request_timers := ts\<rparr>) = store_ok c" "store_ok (c\<lparr>next_timer := n\<rparr>) = store_ok c"
  "store_ok (c\<lparr>connected := b\<rparr>) = store_ok c" "store_ok (c\<lparr>hostIndex := h\<rparr>) = store_ok c"
  "store_ok (c\<lparr>connectTimeout := t\<rparr>) = store_ok c" "store_ok (c\<lparr>socket := s\<rparr>) = store_ok c"
  "store_ok (c\<lparr>receivePinger := r\<rparr>) = store_ok c" "store_ok (c\<lparr>sendPinger := r\<rparr>) = store_ok c"
  "store_ok (c\<lparr>connectOptions := opts\<rparr>) = store_ok c" "store_ok (emit e c) = store_ok c"
  by (rule store_ok_fields, simp add: message_fields_def emit_def)+

lemma client_ok_timers [simp]:
  "client_ok (c\<lparr>request_timers := ts\<rparr>) = client_ok c" "client_ok (c\<lparr>next_timer := n\<rparr>) = client_ok c"
  by (simp_all add: client_ok_def)

lemma requires_ack_ok: "client_ok c \<Longrightarrow> client_ok (fst (requires_ack w c))"
proof -
  assume ok: "client_ok c"
  let ?i = "free_identifier (sentMessages c) (message_identifier c)"
  let ?w = "w\<lparr>messageIdentifier := Some (Id ?i)\<rparr>"
  let ?c = "c\<lparr>message_identifier := ?i, sentMessages := AList.update (Some (Id ?i)) ?w (sentMessages c)\<rparr>"
  show ?thesis
  proof (cases "length (sentMessages c) > maxMessageIdentifier")
    case True
    with ok show ?thesis by (simp add: requires_ack_def)
  next
    case False
    show ?thesis
    proof (cases "wire_type w = PUBLISH")
      case True
      obtain c1 r where st: "store sent_prefix ?w ?c = (c1, r)" by (cases "store sent_prefix ?w ?c")
      have "fst (requires_ack w c) =
          (case r of Inl e \<Rightarrow> c1 | Inr w1 \<Rightarrow> c1\<lparr>sentMessages := AList.update (Some (Id ?i)) w1 (sentMessages c1)\<rparr>)"
        using False True st by (auto simp: requires_ack_def Let_def split: sum.split)
      moreover have "store_ok \<dots>" using ok by (intro store_sent_ok [OF _ _ st]) (simp_all add: client_ok_def)
      moreover have "conn_ok c1" using store_keeps_conn [of sent_prefix ?w ?c] st ok
        by (simp add: client_ok_def)
      ultimately show ?thesis by (auto simp: client_ok_def split: sum.splits)
    next
      case not_publish: False
      then have "\<not> is_stored ?w" by (simp add: is_stored_def)
      then have "durable True sent_prefix c (AList.update (Some (Id ?i)) ?w (sentMessages c))"
        using ok by (simp add: client_ok_def store_ok_def durable_update_not_stored)
      then have "durable True sent_prefix ?c (sentMessages ?c)" "durable False received_prefix ?c (receivedMessages ?c)"
        using ok by (simp_all add: client_ok_def store_ok_def durable_def storage_key_def localKey_def)
      moreover have "keyed (sentMessages ?c)" using ok by (simp add: client_ok_def store_ok_def keyed_update)
      ultimately have "store_ok ?c" using ok by (simp add: client_ok_def store_ok_def)
      then show ?thesis using False not_publish ok
        by (simp add: requires_ack_def Let_def client_ok_def)
    qed
  qed
qed

lemma acknowledged_ok: "client_ok c \<Longrightarrow> client_ok (fst (acknowledged w c))"
  using requires_ack_ok [of c w]
  by (auto simp: acknowledged_def split: prod.split sum.split intro: ok.schedule_message_keeps)

lemma send_ok: "client_ok c \<Longrightarrow> client_ok (fst (send m c))"
  by (simp add: send_def Let_def acknowledged_ok ok.schedule_message_keeps ok.emit_keeps ok.notify_keeps)

lemma request_ok: "client_ok c \<Longrightarrow> client_ok (fst (request w opts c))"
  by (simp add: request_def Let_def acknowledged_ok)

lemma subscribe_ok: "client_ok c \<Longrightarrow> client_ok (fst (subscribe f opts c))"
  by (simp add: subscribe_def request_ok)

lemma unsubscribe_ok: "client_ok c \<Longrightarrow> client_ok (fst (unsubscribe f opts c))"
  by (simp add: unsubscribe_def request_ok)

lemma connect_ok: "client_ok c \<Longrightarrow> client_ok (fst (connect opts c))"
proof -
  assume ok: "client_ok c"
  have "message_fields (fst (connect opts c)) = message_fields c"
    by (auto simp: connect_def doConnect_def message_fields_def emit_def Let_def split: option.split)
  then have "store_ok (fst (connect opts c)) = store_ok c" by (rule store_ok_fields)
  then have "store_ok (fst (connect opts c))" using ok by (simp add: client_ok_def)
  moreover have "conn_ok (fst (connect opts c))"
    using ok by (auto simp: client_ok_def connect_def doConnect_def conn_ok_def emit_def Let_def
        split: option.splits)
  ultimately show ?thesis by (simp add: client_ok_def)
qed

lemma receivePublish_ok:
  assumes ok: "client_ok c"
  shows "client_ok (fst (receivePublish w c))"
proof -
  let ?k = "messageIdentifier w"
  let ?c = "c\<lparr>receivedMessages := AList.update ?k w (receivedMessages c)\<rparr>"
  obtain c1 r where st: "store received_prefix w ?c = (c1, r)" by (cases "store received_prefix w ?c")
  have "store_ok c1" by (rule store_received_ok [OF _ refl st]) (use ok in \<open>simp add: client_ok_def\<close>)
  moreover have "conn_ok c1" using store_keeps_conn [of received_prefix w ?c] st ok by (simp add: client_ok_def)
  ultimately have c1: "client_ok c1" by (simp add: client_ok_def)
  have "client_ok (fst (thenDo (schedule_message (reply PUBACK ?k) c) (\<lambda>c1. (receiveMessage w c1, None))))"
    by (rule ok.then_keeps) (simp_all add: ok.schedule_message_keeps ok ok.receiveMessage_keeps)
  with c1 ok st show ?thesis
    by (auto simp: receivePublish_def Let_def ok.receiveMessage_keeps ok.schedule_message_keeps
        split: option.split sum.split)
qed

lemma remove_copies_fields [simp]:
  "sentMessages (remove_copies p ms c) = sentMessages c"
  "receivedMessages (remove_copies p ms c) = receivedMessages c"
  "socket (remove_copies p ms c) = socket c"
  "conn_ok (remove_copies p ms c) = conn_ok c"
  by (induction p ms c rule: remove_copies.induct) (simp_all add: removeItem_def conn_ok_def)

lemma clear_session_ok: "client_ok c \<Longrightarrow> client_ok (clear_session c)"
  by (simp add: client_ok_def store_ok_def clear_session_def Let_def keyed_nil durable_nil)

lemma on_connack_ok:
  assumes ok: "client_ok c" and open_socket: "socket c = Some Open"
  shows "client_ok (fst (on_connack w c))"
proof -
  from ok open_socket obtain t opts where t: "connectTimeout c = Some t" and opts: "connectOptions c = Some opts"
    by (auto simp: client_ok_def conn_ok_def)
  let ?c1 = "c\<lparr>connectTimeout := Some False\<rparr>"
  let ?c2 = "if opt_cleanSession opts then clear_session ?c1 else ?c1"
  have c1: "client_ok ?c1" using ok by (simp add: client_ok_def conn_ok_def)
  then have c2: "client_ok ?c2" by (simp add: clear_session_ok)
  have "socket (clear_session ?c1) = socket c" by (simp add: clear_session_def Let_def)
  then have s2: "socket ?c2 = Some Open" using open_socket by simp
  let ?c3 = "?c2\<lparr>connected := True,
      hostIndex := (case opt_hosts opts of None \<Rightarrow> hostIndex ?c2 | Some hs \<Rightarrow> length hs)\<rparr>"
  have c3: "client_ok ?c3"
    using c2 s2 by (simp only: client_ok_def store_ok_connection) (simp add: conn_ok_def)
  have "client_ok (fst (thenDo (schedule_all ws ?c3) (\<lambda>c4.
      process_queue (if opt_onSuccess opts then emit ConnectSucceeded c4 else c4))))" for ws
    by (rule ok.then_keeps [OF ok.schedule_all_keeps [OF c3]])
      (simp add: ok.process_queue_keeps ok.emit_keeps)
  then show ?thesis
    using ok.disconnected_keeps [OF c2] t opts by (simp add: on_connack_def connack_session_def connack_resume_def Let_def)
qed

lemma on_puback_ok: "client_ok c \<Longrightarrow> client_ok (fst (on_puback w c))"
  using store_ok_delete_sent(2) [of c "messageIdentifier w"]
  by (auto simp: on_puback_def Let_def client_ok_def split: option.split intro: conn.emit_keeps)

lemma on_pubrec_ok:
  assumes ok: "client_ok c"
  shows "client_ok (fst (on_pubrec w c))"
proof (cases "map_of (sentMessages c) (messageIdentifier w)")
  case None
  with ok show ?thesis by (simp add: on_pubrec_def)
next
  case (Some s)
  let ?k = "messageIdentifier w" and ?s = "s\<lparr>pubRecReceived := True\<rparr>"
  let ?c = "c\<lparr>sentMessages := AList.update ?k ?s (sentMessages c)\<rparr>"
  have k: "messageIdentifier ?s = ?k" using ok Some by (auto simp: client_ok_def store_ok_def keyed_def)
  have c: "?c = c\<lparr>message_identifier := message_identifier c, sentMessages := AList.update ?k ?s (sentMessages c)\<rparr>"
    by simp
  obtain c1 r where st: "store sent_prefix ?s ?c = (c1, r)" by (cases "store sent_prefix ?s ?c")
  have "store_ok (case r of Inl e \<Rightarrow> c1 | Inr w1 \<Rightarrow> c1\<lparr>sentMessages := AList.update ?k w1 (sentMessages c1)\<rparr>)"
    by (rule store_sent_ok [OF _ k st [unfolded c]]) (use ok in \<open>simp add: client_ok_def\<close>)
  moreover have "conn_ok c1" using store_keeps_conn [of sent_prefix ?s ?c] st ok by (simp add: client_ok_def)
  ultimately show ?thesis using Some st
    by (auto simp: on_pubrec_def Let_def client_ok_def split: sum.split
        intro: conn.schedule_message_keeps msgs.schedule_message_keeps)
qed

lemma on_pubrel_ok:
  assumes ok: "client_ok c"
  shows "client_ok (fst (on_pubrel w c))"
proof -
  let ?k = "messageIdentifier w"
  let ?c1 = "removeItem (storage_key received_prefix c ?k) c"
  have "store_ok (?c1\<lparr>receivedMessages := AList.delete ?k (receivedMessages c)\<rparr>)"
    using ok by (simp add: client_ok_def store_ok_delete_received)
  then have del: "client_ok (?c1\<lparr>receivedMessages := AList.delete ?k (receivedMessages c)\<rparr>)"
    using ok by (simp add: client_ok_def)
  show ?thesis
  proof (cases "map_of (receivedMessages c) ?k")
    case None
    then have "?c1\<lparr>receivedMessages := AList.delete ?k (receivedMessages c)\<rparr> = ?c1"
      by (simp add: delete_absent removeItem_def)
    with del None show ?thesis by (simp add: on_pubrel_def Let_def ok.schedule_message_keeps)
  next
    case (Some r)
    have "(receiveMessage r ?c1)\<lparr>receivedMessages := AList.delete ?k (receivedMessages c)\<rparr> =
        receiveMessage r (?c1\<lparr>receivedMessages := AList.delete ?k (receivedMessages c)\<rparr>)"
      by (simp add: receiveMessage_def emit_def)
    with ok.receiveMessage_keeps [OF del, of r] Some show ?thesis
      by (simp add: on_pubrel_def Let_def ok.schedule_message_keeps)
  qed
qed

lemma on_pubcomp_ok: "client_ok c \<Longrightarrow> client_ok (fst (on_pubcomp w c))"
  using store_ok_delete_sent(2) [of c "messageIdentifier w"]
  by (auto simp: on_pubcomp_def Let_def client_ok_def split: option.split intro: conn.emit_keeps)

lemma on_suback_ok:
  assumes "client_ok c"
  shows "client_ok (fst (on_suback w c))"
proof -
  have del: "client_ok (d\<lparr>sentMessages := AList.delete k (sentMessages d)\<rparr>)" if "client_ok d" for d k
    using that store_ok_delete_sent(1) by (simp add: client_ok_def)
  show ?thesis
  proof (cases "map_of (sentMessages c) (messageIdentifier w)")
    case None
    with assms show ?thesis by (simp add: on_suback_def)
  next
    case (Some s)
    let ?c1 = "case wire_timeOut s of None \<Rightarrow> c
      | Some t \<Rightarrow> c\<lparr>request_timers := filter (\<lambda>x. x \<noteq> t) (request_timers c)\<rparr>"
    have "client_ok ?c1" using assms by (simp split: option.split)
    then have "client_ok (if wire_callback s then emit SubscribeSucceeded ?c1 else ?c1)"
      by (simp add: ok.emit_keeps)
    from del [OF this, of "messageIdentifier w"] Some show ?thesis
      by (simp only: on_suback_def Let_def option.case fst_conv)
  qed
qed

lemma on_wire_ok: "client_ok c \<Longrightarrow> socket c = Some Open \<Longrightarrow> client_ok (fst (on_wire w c))"
  by (simp add: on_wire_def Let_def on_connack_ok receivePublish_ok on_puback_ok on_pubrec_ok on_pubrel_ok
      on_pubcomp_ok on_suback_ok ok.disconnected_keeps ok.pinger_keeps split: option.split)

lemma on_socket_message_ok:
  assumes "client_ok c" "socket c = Some Open"
  shows "client_ok (fst (on_socket_message data c))"
proof -
  have "client_ok (c\<lparr>receivePinger := Some p\<rparr>)" for p
    using assms(1) by (simp only: client_ok_def store_ok_connection) (simp add: conn_ok_def)
  then show ?thesis using assms(2)
    by (simp add: on_socket_message_def Let_def on_wire_ok ok.disconnected_keeps split: option.split sum.split)
      (use assms(1) in blast)
qed

lemma doPing_ok:
  assumes "client_ok c" and "\<And>p d. client_ok d \<Longrightarrow> client_ok (put_p p d)"
  shows "client_ok (fst (doPing get_p put_p c))"
  using assms(1)
  by (auto simp: doPing_def Let_def split: option.split sum.split
      intro!: ok.disconnected_keeps ok.emit_keeps assms(2))

lemma put_pinger_ok: "client_ok d \<Longrightarrow> client_ok (put_send_pinger p d)"
  "client_ok d \<Longrightarrow> client_ok (put_receive_pinger p d)"
  by (simp_all only: client_ok_def put_send_pinger_def put_receive_pinger_def store_ok_connection)
    (simp_all add: conn_ok_def)

section \<open>Steps\<close>

text \<open>
  What can happen to a client: the application's calls, the events of the socket
  (only the client's current socket reports, the callbacks of an old one are removed)
  and its timers.
\<close>

inductive client_step :: "client \<Rightarrow> client \<Rightarrow> bool" where
  connect: "client_step c (fst (connect opts c))"
| subscribe: "client_step c (fst (subscribe f ropts c))"
| unsubscribe: "client_step c (fst (unsubscribe f ropts c))"
| send: "client_step c (fst (send m c))"
| disconnect: "client_step c (fst (disconnect c))"
| set_callbacks: "client_step c (c\<lparr>has_onConnectionLost := l, has_onMessageDelivered := d,
    has_onMessageArrived := a\<rparr>)"
| opened: "socket c = Some Connecting \<Longrightarrow> client_step c (fst (on_socket_open (c\<lparr>socket := Some Open\<rparr>)))"
| message: "socket c = Some Open \<Longrightarrow> client_step c (fst (on_socket_message data c))"
| error: "socket c \<noteq> None \<Longrightarrow> client_step c (fst (on_socket_error c))"
| closing: "socket c = Some Open \<Longrightarrow> client_step c (c\<lparr>socket := Some Closed\<rparr>)"
| closed: "socket c \<noteq> None \<Longrightarrow> client_step c (fst (on_socket_close (c\<lparr>socket := Some Closed\<rparr>)))"
| send_ping: "sendPinger c = Some p \<Longrightarrow> pinger_armed p \<Longrightarrow>
    client_step c (fst (doPing sendPinger put_send_pinger c))"
| receive_ping: "receivePinger c = Some p \<Longrightarrow> pinger_armed p \<Longrightarrow>
    client_step c (fst (doPing receivePinger put_receive_pinger c))"
| connect_timeout: "connectTimeout c = Some True \<Longrightarrow> client_step c (fst (connect_timed_out c))"
| request_timeout: "t \<in> set (request_timers c) \<Longrightarrow> client_step c (request_timed_out t c)"

lemma socket_change_ok:
  "client_ok c \<Longrightarrow> socket c \<noteq> None \<Longrightarrow> s \<noteq> Connecting \<Longrightarrow> client_ok (c\<lparr>socket := Some s\<rparr>)"
  by (cases s; simp only: client_ok_def store_ok_connection) (auto simp: conn_ok_def)

lemma callbacks_ok [simp]:
  "client_ok (c\<lparr>has_onConnectionLost := l, has_onMessageDelivered := d, has_onMessageArrived := a\<rparr>) = client_ok c"
  (is "client_ok ?c = _")
proof -
  have "store_ok ?c = store_ok c" by (rule store_ok_fields) (simp add: message_fields_def)
  then show ?thesis by (simp add: client_ok_def conn_ok_def)
qed

lemma client_step_ok: "client_step c d \<Longrightarrow> client_ok c \<Longrightarrow> client_ok d"
proof (induction rule: client_step.induct)
  case (opened c)
  then have "client_ok (c\<lparr>socket := Some Open\<rparr>)" by (intro socket_change_ok) auto
  then show ?case by (auto simp: on_socket_open_def split: option.split intro: ok.socket_send_keeps)
next
  case (closed c)
  then have "client_ok (c\<lparr>socket := Some Closed\<rparr>)" by (intro socket_change_ok) auto
  then show ?case by (simp add: on_socket_close_def ok.disconnected_keeps)
next
  case (connect_timeout c)
  then have "client_ok (c\<lparr>connectTimeout := Some False\<rparr>)"
    by (simp only: client_ok_def store_ok_connection) (simp add: conn_ok_def)
  then show ?case by (simp add: connect_timed_out_def ok.disconnected_keeps)
qed (auto simp: connect_ok subscribe_ok unsubscribe_ok send_ok ok.disconnect_keeps on_socket_message_ok
    on_socket_error_def ok.disconnected_keeps request_timed_out_def intro: socket_change_ok doPing_ok
    put_pinger_ok ok.emit_keeps)

definition reachable :: "client \<Rightarrow> client \<Rightarrow> bool" where
  "reachable = rtranclp client_step"

lemma reachable_ok: "reachable c d \<Longrightarrow> client_ok c \<Longrightarrow> client_ok d"
  unfolding reachable_def by (induction rule: rtranclp_induct) (auto intro: client_step_ok)

section \<open>The constructor\<close>

text \<open>Payloads read back from their hexadecimal text.\<close>

lemma hex_digit_char:
  assumes "d < 16"
  shows "hex_digit (of_char (digit_char d)) = Some d"
  using assms by (auto simp: hex_digit_def digit_char_code)

lemma js_append: "js (a @ b) = js a @ js b"
  by (simp add: js_def)

lemma element_hex_byte:
  assumes "b < 256"
  shows "element_hex (int b) = [of_char (digit_char (b div 16)), of_char (digit_char (b mod 16))]"
proof (cases "b < 16")
  case True
  have "js ''0'' = [of_char (digit_char 0)]" by (simp add: js_def digit_char_code)
  moreover have "show_base 16 b = [digit_char b]" using True by (simp add: show_base_def digits_base.simps)
  ultimately show ?thesis using True by (simp add: element_hex_def hex_int_def js_def)
next
  case False
  have "digits_base 16 b = digits_base 16 (b div 16) @ [b mod 16]"
    using False by (subst digits_base.simps) simp
  moreover have "digits_base 16 (b div 16) = [b div 16]"
    using assms by (subst digits_base.simps) auto
  ultimately show ?thesis using False by (simp add: element_hex_def hex_int_def js_def show_base_def)
qed

lemma parse_payload_hex: "wf_bytes b \<Longrightarrow> parse_hex (payload_hex (PUint8Array b)) = b"
proof (induction b)
  case Nil
  then show ?case by (simp add: payload_hex_def)
next
  case (Cons x b)
  then have "x < 256" by (simp add: wf_bytes_def)
  then have "hex_pair (of_char (digit_char (x div 16))) (of_char (digit_char (x mod 16))) = x"
    by (simp add: hex_pair_def hex_digit_char)
  with Cons \<open>x < 256\<close> show ?case
    by (simp add: payload_hex_def element_hex_byte wf_bytes_def)
qed

lemma fresh_client_ok: "client_ok (fresh_client h p cid storage)"
  by (simp add: client_ok_def conn_ok_def store_ok_def keyed_nil durable_nil fresh_client_def)

lemma starts_with_key: "starts_with (storage_key p c i) (p @ localKey c)"
  by (simp add: starts_with_def storage_key_def)

lemma starts_with_other:
  "\<not> starts_with (storage_key sent_prefix c i) (received_prefix @ localKey d)"
  "\<not> starts_with (storage_key received_prefix c i) (sent_prefix @ localKey d)"
  by (simp_all add: starts_with_def storage_key_def js_def)

text \<open>
  A storage as clients leave it. Under the prefixes of this client every item is the copy of a
  publication with a payload of bytes, under the key of its own identifier. Other items are
  arbitrary.
\<close>

definition kept_item :: "client \<Rightarrow> jsstring \<Rightarrow> stored_message \<Rightarrow> bool" where
  "kept_item c key v \<longleftrightarrow>
     stored_type v = PUBLISH \<and> stored_qos v < 3 \<and> stored_destination v \<noteq> None \<and>
     (\<exists>b. wf_bytes b \<and> stored_hex v = payload_hex (PUint8Array b)) \<and>
     (\<exists>n. stored_id v = Some n \<and>
        (key = storage_key sent_prefix c (Some (Id n)) \<or>
         key = storage_key received_prefix c (Some (Id n)) \<and> stored_sequence v = None))"

definition storage_kept :: "client \<Rightarrow> bool" where
  "storage_kept c \<longleftrightarrow>
     distinct (map fst (localStorage c)) \<and>
     (\<forall>(key, v) \<in> set (localStorage c).
        starts_with key (sent_prefix @ localKey c) \<or> starts_with key (received_prefix @ localKey c) \<longrightarrow> kept_item c key v)"

lemma restored_wire_kept:
  assumes "kept_item c key v" "stored_id v = Some n"
  shows "\<exists>w m b. restored_wire v = Inr w \<and> messageIdentifier w = Some (Id n) \<and> payloadMessage w = Some m \<and>
    getPayloadBytes (msg_payload m) = Inr b \<and> stored_form True w m b = v \<and>
    (stored_sequence v = None \<longrightarrow> stored_form False w m b = v)"
proof -
  obtain d b where v: "stored_type v = PUBLISH" "stored_qos v < 3" "stored_destination v = Some d"
    "wf_bytes b" "stored_hex v = payload_hex (PUint8Array b)" using assms(1) by (auto simp: kept_item_def)
  have "setQos (stored_qos v) x = Inr (x\<lparr>qos := stored_qos v\<rparr>)" for x using v(2) by (auto simp: setQos_def)
  with v assms(2) show ?thesis
    by (cases v) (simp add: restored_wire_def restored_message_def stored_form_def parse_payload_hex Message_def
        json_id_def WireMessage_def)
qed

lemma durable_found:
  assumes "durable s p c ms" "\<And>m b. payloadMessage w = Some m \<Longrightarrow> getPayloadBytes (msg_payload m) = Inr b \<Longrightarrow>
      map_of (localStorage c) (storage_key p c k) = Some (stored_form s w m b)"
  shows "durable s p c (AList.update k w ms)"
  using assms by (auto simp: durable_def map_laws)

text \<open>Restoring one item of such a storage, and all of them.\<close>

lemma restore_keeps:
  assumes ok: "client_ok c" and item: "kept_item c key v" "map_of (localStorage c) key = Some v"
  shows "\<exists>d. restore key v c = Inr d \<and> client_ok d \<and> same_key d c \<and> localStorage d = localStorage c"
proof -
  obtain n where n: "stored_id v = Some n" "key = storage_key sent_prefix c (Some (Id n)) \<or>
      key = storage_key received_prefix c (Some (Id n)) \<and> stored_sequence v = None"
    using item(1) by (auto simp: kept_item_def)
  obtain w m b where w: "restored_wire v = Inr w" "messageIdentifier w = Some (Id n)" "payloadMessage w = Some m"
    "getPayloadBytes (msg_payload m) = Inr b" "stored_form True w m b = v"
    "stored_sequence v = None \<longrightarrow> stored_form False w m b = v"
    using restored_wire_kept [OF item(1) n(1)] by (elim exE conjE) (rule that)
  have dc: "durable True sent_prefix c (sentMessages c)" "durable False received_prefix c (receivedMessages c)"
    and kc: "keyed (sentMessages c)" "keyed (receivedMessages c)" and conn: "conn_ok c"
    using ok by (simp_all add: client_ok_def store_ok_def)
  from n(2) show ?thesis
  proof
    assume key: "key = storage_key sent_prefix c (Some (Id n))"
    let ?d = "c\<lparr>sentMessages := AList.update (Some (Id n)) w (sentMessages c)\<rparr>"
    have same: "same_key ?d c" "localStorage ?d = localStorage c" by (simp_all add: same_key_def)
    have "durable True sent_prefix c (AList.update (Some (Id n)) w (sentMessages c))"
      by (rule durable_found [OF dc(1)]) (use key item(2) w(3-5) in auto)
    then have "client_ok ?d"
      using conn kc(2) keyed_update [OF kc(1) w(2)] dc(2) durable_cong [OF same] by (simp add: client_ok_def store_ok_def)
    then show ?thesis using same starts_with_key [of sent_prefix c] by (simp add: restore_def w(1,2) key)
  next
    assume key: "key = storage_key received_prefix c (Some (Id n)) \<and> stored_sequence v = None"
    let ?d = "c\<lparr>receivedMessages := AList.update (Some (Id n)) w (receivedMessages c)\<rparr>"
    have same: "same_key ?d c" "localStorage ?d = localStorage c" by (simp_all add: same_key_def)
    have "durable False received_prefix c (AList.update (Some (Id n)) w (receivedMessages c))"
      by (rule durable_found [OF dc(2)]) (use key item(2) w(3-6) in auto)
    then have "client_ok ?d"
      using conn kc(1) keyed_update [OF kc(2) w(2)] dc(1) durable_cong [OF same] by (simp add: client_ok_def store_ok_def)
    then show ?thesis using same key starts_with_key [of received_prefix c] starts_with_other(2)
      by (simp add: restore_def w(1,2))
  qed
qed

lemma kept_item_same: "same_key d c \<Longrightarrow> kept_item d key v = kept_item c key v \<and> localKey d = localKey c"
  by (simp add: same_key_def kept_item_def storage_key_def localKey_def)

lemma restore_all_keeps:
  assumes "client_ok c" "\<forall>(key, v) \<in> set items. map_of (localStorage c) key = Some v \<and>
      (starts_with key (sent_prefix @ localKey c) \<or> starts_with key (received_prefix @ localKey c) \<longrightarrow> kept_item c key v)"
  shows "\<exists>d. restore_all items c = Inr d \<and> client_ok d"
  using assms
proof (induction items arbitrary: c)
  case Nil
  then show ?case by simp
next
  case (Cons i items)
  obtain key v where i: "i = (key, v)" by (cases i)
  show ?case
  proof (cases "starts_with key (sent_prefix @ localKey c) \<or> starts_with key (received_prefix @ localKey c)")
    case True
    with Cons.prems(2) have "kept_item c key v" "map_of (localStorage c) key = Some v" by (auto simp: i)
    from restore_keeps [OF Cons.prems(1) this] obtain d where
      d: "restore key v c = Inr d" "client_ok d" "same_key d c" "localStorage d = localStorage c" by blast
    have "\<forall>(key, v) \<in> set items. map_of (localStorage d) key = Some v \<and>
      (starts_with key (sent_prefix @ localKey d) \<or> starts_with key (received_prefix @ localKey d) \<longrightarrow> kept_item d key v)"
      using Cons.prems(2) kept_item_same [OF d(3)] d(4) by simp
    from Cons.IH [OF d(2) this] show ?thesis using True d(1) by (simp add: i)
  next
    case False
    have "\<forall>(key, v) \<in> set items. map_of (localStorage c) key = Some v \<and>
      (starts_with key (sent_prefix @ localKey c) \<or> starts_with key (received_prefix @ localKey c) \<longrightarrow> kept_item c key v)"
      using Cons.prems(2) by simp
    from Cons.IH [OF Cons.prems(1) this] show ?thesis using False by (simp add: i)
  qed
qed

lemma ClientImpl_ok:
  assumes "ClientImpl br h p cid storage = Inr c" "storage_kept (fresh_client h p cid storage)"
  shows "client_ok c"
proof -
  let ?c = "fresh_client h p cid storage"
  have ls: "localStorage ?c = storage" by (simp add: fresh_client_def)
  have "\<forall>(key, v) \<in> set storage. map_of (localStorage ?c) key = Some v \<and>
      (starts_with key (sent_prefix @ localKey ?c) \<or> starts_with key (received_prefix @ localKey ?c) \<longrightarrow> kept_item ?c key v)"
    using assms(2) by (auto simp: storage_kept_def ls)
  from restore_all_keeps [OF fresh_client_ok this] assms(1) show ?thesis by (auto simp: ClientImpl_def split: if_splits)
qed

text \<open>What the constructor restores does not touch the connection, nor do the operations on messages.\<close>

lemma restore_all_conn: "restore_all items c = Inr d \<Longrightarrow> conn_ok c \<Longrightarrow> conn_ok d"
  by (induction items c rule: restore_all.induct) (auto simp: restore_def bindE_split_asm split: if_splits)

lemma ClientImpl_conn: "ClientImpl br h p cid storage = Inr c \<Longrightarrow> conn_ok c"
  using restore_all_conn fresh_client_ok by (auto simp: ClientImpl_def client_ok_def split: if_splits)

lemma store_result_conn: "store p w c = (c1, r) \<Longrightarrow> conn_ok c1 = conn_ok c"
  using store_keeps_conn [of p w c] by simp

lemma acknowledged_conn: "conn_ok c \<Longrightarrow> conn_ok (fst (acknowledged w c))"
  by (auto simp: acknowledged_def requires_ack_def Let_def dest!: store_result_conn intro!: conn.schedule_message_keeps
      split: prod.split sum.split if_splits)

lemma request_conn: "conn_ok c \<Longrightarrow> conn_ok (fst (request w opts c))"
  by (simp add: request_def Let_def acknowledged_conn)

lemma send_conn: "conn_ok c \<Longrightarrow> conn_ok (fst (send m c))"
  by (simp add: send_def Let_def acknowledged_conn conn.schedule_message_keeps conn.emit_keeps conn.notify_keeps)

lemma connect_conn: "conn_ok c \<Longrightarrow> conn_ok (fst (connect opts c))"
  by (auto simp: connect_def doConnect_def conn_ok_def emit_def Let_def split: option.splits)

lemma on_connack_conn:
  assumes "conn_ok c" "socket c = Some Open"
  shows "conn_ok (fst (on_connack w c))"
proof -
  have s: "conn_ok (connack_session opts c) \<and> socket (connack_session opts c) = Some Open" for opts
  proof -
    have "conn_ok (c\<lparr>connectTimeout := Some False\<rparr>)" using assms by (simp add: conn_ok_def)
    then show ?thesis using assms(2) by (simp add: connack_session_def clear_session_def Let_def)
  qed
  then have "conn_ok (fst (connack_resume opts (connack_session opts c)))" for opts
    unfolding connack_resume_def Let_def by (intro conn.schedule_all_keeps) (auto simp: conn_ok_def)
  with s have "conn_ok (fst (thenDo (connack_resume opts (connack_session opts c))
      (\<lambda>c1. process_queue (if opt_onSuccess opts then emit ConnectSucceeded c1 else c1))))"
    "conn_ok (fst (disconnected (Some CODE_CONNACK_RETURNCODE) (connack_session opts c)))" for opts
    by (auto intro!: conn.then_keeps conn.process_queue_keeps conn.emit_keeps conn.disconnected_keeps)
  moreover obtain t opts where "connectTimeout c = Some t" "connectOptions c = Some opts"
    using assms by (auto simp: conn_ok_def)
  ultimately show ?thesis by (simp add: on_connack_def)
qed

lemma on_wire_conn:
  assumes "conn_ok c" "socket c = Some Open"
  shows "conn_ok (fst (on_wire w c))"
proof -
  have "conn_ok (fst (receivePublish w c))"
    using assms(1) by (auto simp: receivePublish_def Let_def dest!: store_result_conn
        intro!: conn.then_keeps conn.schedule_message_keeps conn.receiveMessage_keeps split: option.split prod.split sum.split)
  moreover have "conn_ok (fst (on_pubrec w c))"
    using assms(1) by (auto simp: on_pubrec_def Let_def dest!: store_result_conn
        intro!: conn.schedule_message_keeps split: option.split prod.split sum.split)
  moreover have "conn_ok (fst (on_pubrel w c))"
    using assms(1) by (auto simp: on_pubrel_def Let_def intro!: conn.schedule_message_keeps conn.receiveMessage_keeps split: option.split)
  moreover have "conn_ok (fst (on_puback w c))" "conn_ok (fst (on_pubcomp w c))" "conn_ok (fst (on_suback w c))"
    using assms(1) by (auto simp: on_puback_def on_pubcomp_def on_suback_def Let_def intro!: conn.emit_keeps split: option.split)
  ultimately show ?thesis using assms
    by (simp add: on_wire_def Let_def on_connack_conn conn.disconnected_keeps conn.pinger_keeps split: option.split)
qed

lemma on_socket_message_conn:
  assumes "conn_ok c" "socket c = Some Open"
  shows "conn_ok (fst (on_socket_message data c))"
proof -
  have "conn_ok (c\<lparr>receivePinger := Some p\<rparr>)" for p using assms(1) by (simp add: conn_ok_def)
  with assms show ?thesis
    by (simp add: on_socket_message_def Let_def on_wire_conn conn.disconnected_keeps split: option.split sum.split)
qed

lemma put_pinger_conn: "conn_ok d \<Longrightarrow> conn_ok (put_send_pinger p d)" "conn_ok d \<Longrightarrow> conn_ok (put_receive_pinger p d)"
  by (simp_all add: put_send_pinger_def put_receive_pinger_def conn_ok_def)

lemma doPing_conn:
  assumes "conn_ok c" and "\<And>p d. conn_ok d \<Longrightarrow> conn_ok (put_p p d)"
  shows "conn_ok (fst (doPing get_p put_p c))"
  using assms(1)
  by (auto simp: doPing_def Let_def split: option.split sum.split
      intro!: conn.disconnected_keeps conn.emit_keeps assms(2))

lemma client_step_conn: "client_step c d \<Longrightarrow> conn_ok c \<Longrightarrow> conn_ok d"
proof (induction rule: client_step.induct)
  case (opened c)
  then have "conn_ok (c\<lparr>socket := Some Open\<rparr>)" by (simp add: conn_ok_def)
  then show ?case by (auto simp: on_socket_open_def split: option.split intro: conn.socket_send_keeps)
next
  case (closed c)
  then have "conn_ok (c\<lparr>socket := Some Closed\<rparr>)" by (auto simp: conn_ok_def)
  then show ?case by (simp add: on_socket_close_def conn.disconnected_keeps)
next
  case (connect_timeout c)
  then have "conn_ok (c\<lparr>connectTimeout := Some False\<rparr>)" by (simp add: conn_ok_def)
  then show ?case by (simp add: connect_timed_out_def conn.disconnected_keeps)
next
  case (closing c)
  then show ?case by (auto simp: conn_ok_def)
next
  case (set_callbacks c l d a)
  then show ?case by (simp add: conn_ok_def)
qed (auto simp: connect_conn subscribe_def unsubscribe_def request_conn send_conn conn.disconnect_keeps
    on_socket_message_conn on_socket_error_def conn.disconnected_keeps request_timed_out_def
    intro: doPing_conn put_pinger_conn conn.emit_keeps)

lemma reachable_conn: "reachable c d \<Longrightarrow> conn_ok c \<Longrightarrow> conn_ok d"
  unfolding reachable_def by (induction rule: rtranclp_induct) (auto intro: client_step_conn)

section \<open>Properties\<close>

text \<open>
  C10. In-flight messages survive the page. The constructor starts from a storage in which the
  items of this client are copies that such a client left (\<open>storage_kept\<close>: publications with
  a payload of bytes, each under the key of its own identifier) and restores them. Whatever
  the application, the server and the timers do from then on, every publication the client waits to
  have acknowledged is in the local storage, under the key of its own identifier and as it
  stands now, and so is every publication it received and has not yet released.
\<close>

theorem in_flight_durable:
  assumes "ClientImpl br h p cid storage = Inr c0" "storage_kept (fresh_client h p cid storage)"
    and "reachable c0 c"
    and "payloadMessage w = Some m" "wire_type w = PUBLISH" "getPayloadBytes (msg_payload m) = Inr b"
  shows "(map_of (sentMessages c) k = Some w \<longrightarrow> messageIdentifier w = k \<and>
      map_of (localStorage c) (storage_key sent_prefix c k) = Some (stored_form True w m b)) \<and>
    (map_of (receivedMessages c) k = Some w \<longrightarrow> messageIdentifier w = k \<and>
      map_of (localStorage c) (storage_key received_prefix c k) = Some (stored_form False w m b))"
  using reachable_ok [OF assms(3) ClientImpl_ok [OF assms(1,2)]] assms(4-6)
  by (auto simp: client_ok_def store_ok_def durable_def keyed_def)

text \<open>
  C39. The connection is consistent: in every state reachable from the one the constructor
  leaves, over any storage, a connected client has a socket that has been opened, and a client with a socket has its two pingers, its
  connect timer and its options, so the handlers that use them cannot fail on them.
\<close>

theorem connection_consistent:
  assumes "ClientImpl br h p cid storage = Inr c0" "reachable c0 c"
  shows "(connected c \<longrightarrow> socket c = Some Open \<or> socket c = Some Closed) \<and>
    (socket c \<noteq> None \<longrightarrow> sendPinger c \<noteq> None \<and> receivePinger c \<noteq> None \<and>
       connectTimeout c \<noteq> None \<and> connectOptions c \<noteq> None)"
  using reachable_conn [OF assms(2) ClientImpl_conn [OF assms(1)]] by (auto simp: conn_ok_def)

section \<open>A run\<close>

definition example_options :: connect_options where
  "example_options = \<lparr>opt_timeout = 0, opt_userName = None, opt_password = None, opt_willMessage = None,
     opt_keepAliveInterval = 0, opt_cleanSession = True, opt_useSSL = False, opt_onSuccess = False,
     opt_onFailure = False, opt_hosts = None, opt_ports = []\<rparr>"

definition example_message :: message where
  "example_message = (Message (PUint8Array [7]))\<lparr>destinationName := Some [0x74], qos := 1\<rparr>"

lemma example_not_surrogate: "\<not> is_high_surrogate 0x74" "\<not> is_high_surrogate 0x63"
  by (simp_all add: is_high_surrogate_def)

lemma encode_connect_example:
  "\<exists>b. encode (connect_message example_options [0x63]) = Inr b"
proof -
  have "wf_wire (connect_message example_options [0x63])"
    by (simp add: wf_wire_def connect_message_def example_options_def WireMessage_def wf_ident_def
        wf_string_def wf_opt_string_def example_not_surrogate)
  then show ?thesis using encode_packet by blast
qed

lemma decode_connack: "decodeMessage [0x20, 2, 0, 0] =
    Inr ((WireMessage CONNACK)\<lparr>topicNameCompressionResponse := Some 0, returnCode := Some 0\<rparr>)"
proof -
  have pos: "snd (decode_mbi [0x20, 2, 0, 0] 1 0 1) = 2"
    using mbi_field.get_put [of 2 "[0x20]" "[0, 0]"] by (simp add: encodeMBI_digits mbi_bytes.simps)
  have d: "drop_bit 4 (32::nat) = 2" by (simp add: drop_bit_eq_div)
  show ?thesis unfolding decodeMessage_def Let_def pos by (simp add: d numeral_2_eq_2)
qed

text \<open>A client that connects and publishes one message.\<close>

definition example_connected :: client where
  "example_connected = (let
     c1 = fst (connect example_options (fresh_client [0x68] 1 [0x63] []));
     c2 = fst (on_socket_open (c1\<lparr>socket := Some Open\<rparr>))
   in fst (on_socket_message [0x20, 2, 0, 0] c2))"

lemma example_connected_state:
  obtains l where "example_connected =
    (fresh_client [0x68] 1 [0x63] [])\<lparr>connected := True, socket := Some Open,
      connectOptions := Some example_options,
      sendPinger := Some \<lparr>pinger_interval = 0, isReset = True, pinger_armed = False\<rparr>,
      receivePinger := Some \<lparr>pinger_interval = 0, isReset = True, pinger_armed = False\<rparr>,
      connectTimeout := Some False, log := l\<rparr>"
proof -
  obtain b where b: "encode (connect_message example_options [0x63]) = Inr b"
    using encode_connect_example by blast
  let ?l = "[SocketOpened (js ''ws://'' @ [0x68] @ js '':'' @ dec_string 1 @ js ''/mqtt''), Sent b]"
  let ?p0 = "\<lparr>pinger_interval = 0, isReset = False, pinger_armed = False\<rparr>"
  let ?p1 = "\<lparr>pinger_interval = 0, isReset = True, pinger_armed = False\<rparr>"
  let ?c0 = "fresh_client [0x68] 1 [0x63] []"
  have 1: "fst (connect example_options ?c0) = ?c0\<lparr>connected := False, socket := Some Connecting,
      connectOptions := Some example_options, sendPinger := Some ?p0, receivePinger := Some ?p0,
      connectTimeout := Some True, log := [hd ?l]\<rparr>"
    by (simp add: connect_def doConnect_def fresh_client_def example_options_def emit_def Pinger_def Let_def)
  let ?c2 = "?c0\<lparr>connected := False, socket := Some Open,
      connectOptions := Some example_options, sendPinger := Some ?p1, receivePinger := Some ?p0,
      connectTimeout := Some True, log := ?l\<rparr>"
  have 2: "fst (on_socket_open ((?c0\<lparr>connected := False, socket := Some Connecting,
      connectOptions := Some example_options, sendPinger := Some ?p0, receivePinger := Some ?p0,
      connectTimeout := Some True, log := [hd ?l]\<rparr>)\<lparr>socket := Some Open\<rparr>)) = ?c2"
    using b by (simp add: on_socket_open_def socket_send_def emit_def fresh_client_def pinger_reset_def Let_def)
  have 3: "fst (on_socket_message [0x20, 2, 0, 0] ?c2) = ?c0\<lparr>connected := True, socket := Some Open,
      connectOptions := Some example_options, sendPinger := Some ?p1, receivePinger := Some ?p1,
      connectTimeout := Some False, log := ?l\<rparr>"
    by (simp add: on_socket_message_def decode_connack on_wire_def WireMessage_def on_connack_def connack_session_def connack_resume_def
        fresh_client_def example_options_def clear_session_def Let_def pinger_reset_def sort_by_seq_def
        enumerate_wires_def process_queue_def)
  show thesis
    by (rule that [of ?l]) (simp only: example_connected_def Let_def 1 2 3)
qed

lemma example_connected_reachable: "reachable (fresh_client [0x68] 1 [0x63] []) example_connected"
proof -
  let ?c0 = "fresh_client [0x68] 1 [0x63] []"
  let ?c1 = "fst (connect example_options ?c0)"
  let ?c2 = "fst (on_socket_open (?c1\<lparr>socket := Some Open\<rparr>))"
  have 1: "client_step ?c0 ?c1" by (rule client_step.connect)
  have "socket ?c1 = Some Connecting"
    by (simp add: connect_def doConnect_def fresh_client_def example_options_def emit_def Let_def)
  then have 2: "client_step ?c1 ?c2" by (rule client_step.opened)
  obtain b where b: "encode (connect_message example_options [0x63]) = Inr b"
    using encode_connect_example by blast
  then have "socket ?c2 = Some Open"
    by (simp add: connect_def doConnect_def fresh_client_def example_options_def [abs_def] emit_def
        on_socket_open_def socket_send_def Let_def split: sum.split option.split)
  then have 3: "client_step ?c2 (fst (on_socket_message [0x20, 2, 0, 0] ?c2))"
    by (rule client_step.message)
  from 1 2 3 show ?thesis
    unfolding reachable_def example_connected_def Let_def by (meson rtranclp.rtrancl_into_rtrancl rtranclp.rtrancl_refl)
qed


text \<open>The constructor over an empty storage, and over one with a publication in flight.\<close>

definition example_browser :: browser where
  "example_browser = \<lparr>has_WebSocket = True, has_localStorage = True, has_ArrayBuffer = True\<rparr>"

lemma example_constructed:
  "ClientImpl example_browser [0x68] 1 [0x63] [] = Inr (fresh_client [0x68] 1 [0x63] [])"
  "storage_kept (fresh_client [0x68] 1 [0x63] [])"
  by (simp_all add: ClientImpl_def example_browser_def storage_kept_def) (simp add: fresh_client_def)

definition example_storage :: "(jsstring \<times> stored_message) list" where
  "example_storage =
     [(storage_key sent_prefix (fresh_client [0x68] 1 [0x63] []) (Some (Id 3)),
       \<lparr>stored_type = PUBLISH, stored_id = Some 3, stored_pubRec = False, stored_hex = payload_hex (PUint8Array [7]),
        stored_qos = 1, stored_destination = Some [0x74], stored_duplicate = False, stored_retained = False,
        stored_sequence = Some 4\<rparr>)]"

lemma example_storage_kept: "storage_kept (fresh_client [0x68] 1 [0x63] example_storage)"
proof -
  have "wf_bytes [7]" by (simp add: wf_bytes_def)
  moreover have "storage_key p (fresh_client h q c s) i = storage_key p (fresh_client h q c t) i" for p h q c s t i
    by (simp add: storage_key_def localKey_def fresh_client_def)
  moreover have "localStorage (fresh_client h q c s) = s" for h q c s by (simp add: fresh_client_def)
  ultimately show ?thesis unfolding storage_kept_def kept_item_def by (auto simp: example_storage_def)
qed

lemma example_restored:
  obtains c w m b where "ClientImpl example_browser [0x68] 1 [0x63] example_storage = Inr c"
    "map_of (sentMessages c) (Some (Id 3)) = Some w" "payloadMessage w = Some m" "wire_type w = PUBLISH"
    "getPayloadBytes (msg_payload m) = Inr b"
proof -
  let ?c = "fresh_client [0x68] 1 [0x63] example_storage"
  have key: "localKey ?c = localKey (fresh_client [0x68] 1 [0x63] [])" by (simp add: localKey_def fresh_client_def)
  let ?w = "(WireMessage PUBLISH)\<lparr>messageIdentifier := Some (Id 3), wire_sequence := Some 4,
    payloadMessage := Some ((Message (PUint8Array [7]))\<lparr>destinationName := Some [0x74], qos := 1\<rparr>)\<rparr>"
  have "parse_hex (payload_hex (PUint8Array [7])) = [7]" by (rule parse_payload_hex) (simp add: wf_bytes_def)
  then have w: "restored_wire (snd (hd example_storage)) = Inr ?w"
    by (simp add: example_storage_def restored_wire_def restored_message_def setQos_def Message_def WireMessage_def)
  have "ClientImpl example_browser [0x68] 1 [0x63] example_storage = Inr (?c\<lparr>sentMessages := [(Some (Id 3), ?w)]\<rparr>)"
    using w starts_with_key [of sent_prefix "fresh_client [0x68] 1 [0x63] []" "Some (Id 3)"] key
    by (simp add: ClientImpl_def example_browser_def example_storage_def restore_def) (simp add: fresh_client_def WireMessage_def)
  then show thesis
    by (rule that [of _ ?w "(Message (PUint8Array [7]))\<lparr>destinationName := Some [0x74], qos := 1\<rparr>" "PUint8Array [7]"])
      (simp_all add: WireMessage_def Message_def)
qed

lemma in_flight_durable_witness:
  "(\<exists>c w. reachable (fresh_client [0x68] 1 [0x63] []) c \<and>
     map_of (sentMessages c) (Some (Id 1)) = Some w \<and>
     map_of (localStorage c) (storage_key sent_prefix c (Some (Id 1))) =
       Some (stored_form True w example_message (PUint8Array [7]))) \<and>
   (\<exists>c w m b. ClientImpl example_browser [0x68] 1 [0x63] example_storage = Inr c \<and>
     map_of (sentMessages c) (Some (Id 3)) = Some w \<and>
     map_of (localStorage c) (storage_key sent_prefix c (Some (Id 3))) = Some (stored_form True w m b))"
proof -
  let ?c = "fst (send example_message example_connected)"
  obtain l where st: "example_connected =
      (fresh_client [0x68] 1 [0x63] [])\<lparr>connected := True, socket := Some Open,
        connectOptions := Some example_options,
        sendPinger := Some \<lparr>pinger_interval = 0, isReset = True, pinger_armed = False\<rparr>,
        receivePinger := Some \<lparr>pinger_interval = 0, isReset = True, pinger_armed = False\<rparr>,
        connectTimeout := Some False, log := l\<rparr>"
    by (rule example_connected_state)
  have f: "free_identifier [] 1 = 1" by (simp add: free_identifier.simps)
  let ?w = "(WireMessage PUBLISH)\<lparr>payloadMessage := Some example_message,
      messageIdentifier := Some (Id 1), wire_sequence := Some 1\<rparr>"
  have "snd (requires_ack ((WireMessage PUBLISH)\<lparr>payloadMessage := Some example_message\<rparr>) example_connected) = Inr ?w \<and>
      sentMessages (fst (requires_ack ((WireMessage PUBLISH)\<lparr>payloadMessage := Some example_message\<rparr>)
        example_connected)) = [(Some (Id 1), ?w)]"
    using f by (simp add: st fresh_client_def requires_ack_def Let_def store_def WireMessage_def
        example_message_def Message_def starts_with_prefix maxMessageIdentifier_def)
  moreover have "?c = fst (acknowledged ((WireMessage PUBLISH)\<lparr>payloadMessage := Some example_message\<rparr>) example_connected)"
    by (simp add: send_def Let_def st example_message_def Message_def)
  ultimately have "message_fields ?c = message_fields (fst (requires_ack
        ((WireMessage PUBLISH)\<lparr>payloadMessage := Some example_message\<rparr>) example_connected))"
    by (auto simp: acknowledged_def split: prod.split sum.splits intro: frame.schedule_message_keeps)
  moreover note \<open>_ \<and> sentMessages _ = _\<close>
  ultimately have w: "map_of (sentMessages ?c) (Some (Id 1)) = Some ?w"
    by (simp add: message_fields_def)
  have "client_step example_connected ?c" by (rule client_step.send)
  then have r: "reachable (fresh_client [0x68] 1 [0x63] []) ?c"
    using example_connected_reachable unfolding reachable_def by (rule rtranclp.rtrancl_into_rtrancl [rotated])
  have "payloadMessage ?w = Some example_message" "wire_type ?w = PUBLISH"
      "getPayloadBytes (msg_payload example_message) = Inr (PUint8Array [7])"
    by (simp_all add: WireMessage_def example_message_def Message_def)
  from in_flight_durable [OF example_constructed r this, of "Some (Id 1)"] w r
  have 1: "\<exists>c w. reachable (fresh_client [0x68] 1 [0x63] []) c \<and> map_of (sentMessages c) (Some (Id 1)) = Some w \<and>
      map_of (localStorage c) (storage_key sent_prefix c (Some (Id 1))) =
        Some (stored_form True w example_message (PUint8Array [7]))" by blast
  obtain c w m b where c: "ClientImpl example_browser [0x68] 1 [0x63] example_storage = Inr c"
      "map_of (sentMessages c) (Some (Id 3)) = Some w" "payloadMessage w = Some m" "wire_type w = PUBLISH"
      "getPayloadBytes (msg_payload m) = Inr b" by (rule example_restored)
  have "reachable c c" by (simp add: reachable_def)
  from in_flight_durable [OF c(1) example_storage_kept this c(3-5), of "Some (Id 3)"] c(1,2)
  have "\<exists>c w m b. ClientImpl example_browser [0x68] 1 [0x63] example_storage = Inr c \<and>
     map_of (sentMessages c) (Some (Id 3)) = Some w \<and>
     map_of (localStorage c) (storage_key sent_prefix c (Some (Id 3))) = Some (stored_form True w m b)" by blast
  with 1 show ?thesis by blast
qed

lemma connection_consistent_witness:
  "connected example_connected \<and> sendPinger example_connected \<noteq> None"
proof -
  obtain l where st: "example_connected =
      (fresh_client [0x68] 1 [0x63] [])\<lparr>connected := True, socket := Some Open,
        connectOptions := Some example_options,
        sendPinger := Some \<lparr>pinger_interval = 0, isReset = True, pinger_armed = False\<rparr>,
        receivePinger := Some \<lparr>pinger_interval = 0, isReset = True, pinger_armed = False\<rparr>,
        connectTimeout := Some False, log := l\<rparr>"
    by (rule example_connected_state)
  have "connected example_connected" unfolding st by simp
  with connection_consistent [OF example_constructed(1) example_connected_reachable] show ?thesis by auto
qed

end
