(* ===== verification/MqttDelivery.thy ===== *)
theory MqttDelivery
  imports MqttSafety
begin

text \<open>
  What the MQTT client delivers: the quality-of-service protocols, the queue, resending
  after a reconnect, identifiers, and the copy in the local storage. \<open>idle\<close> describes
  a connected client that has sent all it had to send; scheduling a message then sends
  it at once. The inbound protocol of quality of service 2 is refined to an abstract
  receiver that only keeps the messages not yet released.
\<close>

section \<open>A connected client with an empty queue\<close>

definition idle :: "client \<Rightarrow> bool" where
  "idle c \<longleftrightarrow> connected c \<and> socket c = Some Open \<and> msg_queue c = [] \<and> \<not> notify_msg_sent c
     \<and> sendPinger c \<noteq> None \<and> receivePinger c \<noteq> None"

definition sent_one :: "buffer \<Rightarrow> client \<Rightarrow> client" where
  "sent_one b c = c\<lparr>log := log c @ [Sent b], sendPinger := map_option pinger_reset (sendPinger c)\<rparr>"

lemma idle_sent_one [simp]: "idle (sent_one b c) = idle c"
  by (auto simp: idle_def sent_one_def)

lemma sent_one_fields [simp]:
  "sentMessages (sent_one b c) = sentMessages c" "receivedMessages (sent_one b c) = receivedMessages c"
  "localStorage (sent_one b c) = localStorage c" "log (sent_one b c) = log c @ [Sent b]"
  "has_onMessageArrived (sent_one b c) = has_onMessageArrived c"
  "has_onMessageDelivered (sent_one b c) = has_onMessageDelivered c"
  by (simp_all add: sent_one_def)

lemma socket_send_open:
  assumes "socket c = Some Open" "sendPinger c \<noteq> None" "encode w = Inr b"
  shows "socket_send w c = (sent_one b c, None)"
  using assms by (auto simp: socket_send_def sent_one_def emit_def)

text \<open>A run of the queue: every message is encoded and sent, in order.\<close>

fun sent_all :: "buffer list \<Rightarrow> client \<Rightarrow> client" where
  "sent_all [] c = c"
| "sent_all (b # bs) c = sent_all bs (sent_one b c)"

lemma process_loop_sends:
  assumes "socket c = Some Open" "sendPinger c \<noteq> None" "\<not> notify_msg_sent c"
    and "list_all2 (\<lambda>w b. encode w = Inr b) ws bs"
  shows "process_loop ws True c = ((sent_all bs c)\<lparr>msg_queue := if ws = [] then msg_queue c else []\<rparr>, None)"
  using assms(4,1-3)
proof (induction ws bs arbitrary: c rule: list_all2_induct)
  case Nil
  then show ?case by simp
next
  case (Cons w ws b bs)
  let ?c = "c\<lparr>msg_queue := rev ws\<rparr>"
  have s: "socket_send w ?c = (sent_one b ?c, None)"
    using Cons by (intro socket_send_open) auto
  have "process_loop (w # ws) True c = process_loop ws True (sent_one b ?c)"
    using Cons.prems s by (simp add: sent_one_def)
  also have "\<dots> = ((sent_all bs (sent_one b ?c))\<lparr>msg_queue := if ws = [] then msg_queue (sent_one b ?c) else []\<rparr>, None)"
    using Cons.prems by (intro Cons.IH) (auto simp: sent_one_def)
  also have "\<dots> = ((sent_all (b # bs) c)\<lparr>msg_queue := []\<rparr>, None)"
  proof -
    have comm: "sent_one b (d\<lparr>msg_queue := x\<rparr>) = (sent_one b d)\<lparr>msg_queue := x\<rparr>" for b d x
      by (simp add: sent_one_def)
    have q: "(sent_all bs (d\<lparr>msg_queue := x\<rparr>))\<lparr>msg_queue := y\<rparr> = (sent_all bs d)\<lparr>msg_queue := y\<rparr>" for d x y
      by (induction bs arbitrary: d) (simp_all add: comm)
    have "ws = [] \<Longrightarrow> bs = []" using Cons.hyps(2) by simp
    then show ?thesis by (auto simp: q comm)
  qed
  finally show ?case by simp
qed

lemma schedule_idle:
  assumes "idle c" "encode w = Inr b"
  shows "schedule_message w c = (sent_one b c, None)"
proof -
  have "process_loop [w] True (c\<lparr>msg_queue := [w]\<rparr>) = ((sent_all [b] (c\<lparr>msg_queue := [w]\<rparr>))\<lparr>msg_queue := []\<rparr>, None)"
    using assms by (subst process_loop_sends) (auto simp: idle_def)
  moreover have "(sent_all [b] (c\<lparr>msg_queue := [w]\<rparr>))\<lparr>msg_queue := []\<rparr> = sent_one b c"
    using assms(1) by (simp add: sent_one_def idle_def)
  ultimately show ?thesis using assms(1) by (simp add: schedule_message_def process_queue_def idle_def)
qed

section \<open>Receiving with quality of service 2\<close>

definition ack_bytes :: "nat \<Rightarrow> nat \<Rightarrow> buffer" where
  "ack_bytes t n = [16 * t, 2, n div 256, n mod 256]"

lemma encode_reply:
  assumes "t \<in> {PUBACK, PUBREC, PUBREL, PUBCOMP}" "n < 65536"
  shows "encode (reply t (Some (Id n))) = Inr (ack_bytes t n)"
proof -
  have "wf_wire (reply t (Some (Id n)))"
    using assms by (auto simp: wf_wire_def wf_ident_def WireMessage_def reply_def)
  moreover have "packet (reply t (Some (Id n))) = ack_bytes t n"
    unfolding reply_def using assms
    by (subst packet_ack) (auto simp: ack_bytes_def uint16_bytes_def)
  ultimately show ?thesis by (simp add: encode_packet)
qed

lemma decode_reply:
  assumes "t \<in> {PUBACK, PUBREC, PUBREL, PUBCOMP}" "n < 65536"
  shows "decodeMessage (ack_bytes t n) = Inr (reply t (Some (Id n)))"
proof -
  have "t \<in> {PUBACK, PUBREC, PUBREL, PUBCOMP, UNSUBACK}" using assms(1) by auto
  from decode_packet_ack [OF this assms(2)] assms(2) show ?thesis
    by (simp add: reply_def ack_bytes_def uint16_bytes_def)
qed

text \<open>What the server sends in this protocol, and an abstract receiver.\<close>

datatype inbound = Publication nat message | Release nat

type_synonym pending = "nat \<Rightarrow> message option"

fun receiver_step :: "inbound \<Rightarrow> pending \<Rightarrow> pending \<times> event list" where
  "receiver_step (Publication n m) p = (p(n \<mapsto> m), [Sent (ack_bytes PUBREC n)])"
| "receiver_step (Release n) p =
     (p(n := None),
      (case p n of None \<Rightarrow> [] | Some m \<Rightarrow> [Arrived (Some m)]) @ [Sent (ack_bytes PUBCOMP n)])"

fun receiver_run :: "inbound list \<Rightarrow> pending \<Rightarrow> pending \<times> event list" where
  "receiver_run [] p = (p, [])"
| "receiver_run (i # is) p =
     (let (p1, es) = receiver_step i p; (p2, es') = receiver_run is p1 in (p2, es @ es'))"

text \<open>Packets that carry them, as bytes that decode to the message.\<close>

definition carries :: "buffer \<Rightarrow> inbound \<Rightarrow> bool" where
  "carries data i \<longleftrightarrow>
     (case i of
        Publication n m \<Rightarrow> n < 65536 \<and> qos m = 2 \<and> (\<exists>b. msg_payload m = PUint8Array b) \<and>
          decodeMessage data = Inr ((WireMessage PUBLISH)\<lparr>messageIdentifier := Some (Id n),
            payloadMessage := Some m\<rparr>)
      | Release n \<Rightarrow> n < 65536 \<and> data = ack_bytes PUBREL n)"

fun client_run :: "buffer list \<Rightarrow> client \<Rightarrow> outcome" where
  "client_run [] c = (c, None)"
| "client_run (data # ds) c = thenDo (on_socket_message data c) (client_run ds)"

definition pending_of :: "client \<Rightarrow> pending" where
  "pending_of c n = (case map_of (receivedMessages c) (Some (Id n)) of None \<Rightarrow> None | Some w \<Rightarrow> payloadMessage w)"

definition has_payloads :: "client \<Rightarrow> bool" where
  "has_payloads c \<longleftrightarrow> (\<forall>k w. map_of (receivedMessages c) k = Some w \<longrightarrow> payloadMessage w \<noteq> None)"

lemma receive_publication:
  assumes c: "idle c" "has_onMessageArrived c" "has_payloads c" and i: "carries data (Publication n m)"
  shows "\<exists>c'. on_socket_message data c = (c', None) \<and> idle c' \<and> has_onMessageArrived c' \<and> has_payloads c' \<and>
    pending_of c' = (pending_of c)(n \<mapsto> m) \<and> log c' = log c @ [Sent (ack_bytes PUBREC n)]"
proof -
  let ?w = "(WireMessage PUBLISH)\<lparr>messageIdentifier := Some (Id n), payloadMessage := Some m\<rparr>"
  from i obtain b where n: "n < 65536" and m: "qos m = 2" "msg_payload m = PUint8Array b"
    and d: "decodeMessage data = Inr ?w" by (auto simp: carries_def)
  from c(1) obtain p where p: "receivePinger c = Some p" by (auto simp: idle_def)
  let ?c1 = "c\<lparr>receivePinger := Some (pinger_reset p), receivedMessages := AList.update (Some (Id n)) ?w (receivedMessages c)\<rparr>"
  have w: "wire_type ?w = PUBLISH" "messageIdentifier ?w = Some (Id n)" "payloadMessage ?w = Some m"
    by (simp_all add: WireMessage_def)
  have "is_stored ?w" using w m by (auto simp: is_stored_def)
  then obtain c2 w2 where st: "store received_prefix ?w ?c1 = (c2, Inr w2)" using store_succeeds by blast
  obtain q s where c2: "c2 = ?c1\<lparr>cl_sequence := q, localStorage := s\<rparr>"
    using store_writes [OF st] by metis
  have idle2: "idle c2" using c(1) by (simp add: c2 idle_def)
  have sched: "schedule_message (reply PUBREC (Some (Id n))) c2 = (sent_one (ack_bytes PUBREC n) c2, None)"
    using schedule_idle [OF idle2] encode_reply [of PUBREC n] n by simp
  have "on_socket_message data c = receivePublish ?w (c\<lparr>receivePinger := Some (pinger_reset p)\<rparr>)"
    by (simp add: on_socket_message_def p d on_wire_def w Let_def)
  also have "\<dots> = (sent_one (ack_bytes PUBREC n) c2, None)"
    using st sched m(1) by (simp add: receivePublish_def w Let_def)
  finally have r: "on_socket_message data c = (sent_one (ack_bytes PUBREC n) c2, None)" .
  have "pending_of (sent_one (ack_bytes PUBREC n) c2) = (pending_of c)(n \<mapsto> m)"
    by (auto simp: pending_of_def c2 map_laws fun_eq_iff w(3))
  moreover have "has_payloads (sent_one (ack_bytes PUBREC n) c2)"
    using c(3) by (auto simp: has_payloads_def c2 map_laws w(3))
  ultimately show ?thesis using r idle2 c(2) by (auto simp: c2)
qed

lemma receive_release:
  assumes c: "idle c" "has_onMessageArrived c" "has_payloads c" and i: "carries data (Release n)"
  shows "\<exists>c'. on_socket_message data c = (c', None) \<and> idle c' \<and> has_onMessageArrived c' \<and> has_payloads c' \<and>
    pending_of c' = (pending_of c)(n := None) \<and>
    log c' = log c @ (case pending_of c n of None \<Rightarrow> [] | Some m \<Rightarrow> [Arrived (Some m)])
      @ [Sent (ack_bytes PUBCOMP n)]"
proof -
  let ?w = "reply PUBREL (Some (Id n))"
  from i have n: "n < 65536" and d: "decodeMessage data = Inr ?w"
    by (simp_all add: carries_def decode_reply)
  from c(1) obtain p where p: "receivePinger c = Some p" by (auto simp: idle_def)
  let ?c0 = "c\<lparr>receivePinger := Some (pinger_reset p)\<rparr>"
  have w: "wire_type ?w = PUBREL" "messageIdentifier ?w = Some (Id n)" by (simp_all add: reply_def WireMessage_def)
  have step: "on_socket_message data c = on_pubrel ?w ?c0"
    by (simp add: on_socket_message_def p d on_wire_def w Let_def)
  have sched: "schedule_message (reply PUBCOMP (Some (Id n))) d = (sent_one (ack_bytes PUBCOMP n) d, None)"
    if "idle d" for d
    using schedule_idle [OF that] encode_reply [of PUBCOMP n] n by simp
  show ?thesis
  proof (cases "map_of (receivedMessages c) (Some (Id n))")
    case None
    let ?c1 = "removeItem (storage_key received_prefix ?c0 (Some (Id n))) ?c0"
    have "idle ?c1" using c(1) by (simp add: idle_def removeItem_def)
    then have r: "on_socket_message data c = (sent_one (ack_bytes PUBCOMP n) ?c1, None)"
      using sched None by (simp add: step on_pubrel_def w Let_def)
    have "pending_of ?c1 = pending_of c" "pending_of c n = None"
      using None by (simp_all add: pending_of_def fun_eq_iff removeItem_def)
    then have "pending_of (sent_one (ack_bytes PUBCOMP n) ?c1) = (pending_of c)(n := None)"
      by (auto simp: pending_of_def fun_eq_iff)
    with r \<open>idle ?c1\<close> c(2,3) \<open>pending_of c n = None\<close> show ?thesis
      by (auto simp: removeItem_def has_payloads_def)
  next
    case (Some r)
    with c(3) obtain m where m: "payloadMessage r = Some m" by (auto simp: has_payloads_def)
    let ?c1 = "(receiveMessage r (removeItem (storage_key received_prefix ?c0 (Some (Id n))) ?c0))
      \<lparr>receivedMessages := AList.delete (Some (Id n)) (receivedMessages c)\<rparr>"
    have "idle ?c1" using c(1) by (simp add: idle_def removeItem_def receiveMessage_def emit_def)
    then have r: "on_socket_message data c = (sent_one (ack_bytes PUBCOMP n) ?c1, None)"
      using sched Some by (simp add: step on_pubrel_def w Let_def)
    have "pending_of (sent_one (ack_bytes PUBCOMP n) ?c1) = (pending_of c)(n := None)"
      by (auto simp: pending_of_def fun_eq_iff map_laws)
    moreover have "pending_of c n = Some m" using Some m by (simp add: pending_of_def)
    moreover have "has_payloads (sent_one (ack_bytes PUBCOMP n) ?c1)"
      using c(3) by (auto simp: has_payloads_def map_laws)
    ultimately show ?thesis using r \<open>idle ?c1\<close> c(2) m
      by (simp add: removeItem_def receiveMessage_def emit_def)
  qed
qed

lemma client_run_refines:
  assumes "list_all2 carries ds is" "idle c" "has_onMessageArrived c" "has_payloads c"
  shows "\<exists>c'. client_run ds c = (c', None) \<and> idle c' \<and> pending_of c' = fst (receiver_run is (pending_of c)) \<and>
    log c' = log c @ snd (receiver_run is (pending_of c))"
  using assms
proof (induction ds "is" arbitrary: c rule: list_all2_induct)
  case Nil
  then show ?case by simp
next
  case (Cons d ds i "is")
  obtain c1 where c1: "on_socket_message d c = (c1, None)" "idle c1" "has_onMessageArrived c1" "has_payloads c1"
      "pending_of c1 = fst (receiver_step i (pending_of c))"
      "log c1 = log c @ snd (receiver_step i (pending_of c))"
  proof (cases i)
    case (Publication n m)
    with receive_publication [OF Cons.prems, of d n m] Cons.hyps(1) that show thesis by auto
  next
    case (Release n)
    with receive_release [OF Cons.prems, of d n] Cons.hyps(1) that show thesis by auto
  qed
  from Cons.IH [OF c1(2-4)] c1 show ?case
    by (auto simp: Let_def split: prod.split)
qed

section \<open>Sending with quality of service 2\<close>

lemma free_identifier_unused: "map_of ms (Some (Id (free_identifier ms n))) = None"
  by (induction ms n rule: free_identifier.induct) (subst free_identifier.simps, simp)

lemma free_identifier_ge: "n \<le> free_identifier ms n"
  by (induction ms n rule: free_identifier.induct) (subst free_identifier.simps, auto)

lemma free_identifier_skips:
  "n \<le> k \<Longrightarrow> k < free_identifier ms n \<Longrightarrow> map_of ms (Some (Id k)) \<noteq> None"
proof (induction ms n rule: free_identifier.induct)
  case (1 ms n)
  show ?case
  proof (cases "map_of ms (Some (Id n)) = None")
    case True
    then have "free_identifier ms n = n" by (subst free_identifier.simps) simp
    with "1.prems" show ?thesis by simp
  next
    case False
    then have f: "free_identifier ms n = free_identifier ms (n + 1)" by (subst free_identifier.simps) simp
    show ?thesis
    proof (cases "k = n")
      case True
      with False show ?thesis by simp
    next
      case not_n: False
      with "1.prems" f have "n + 1 \<le> k" "k < free_identifier ms (n + 1)" by simp_all
      then show ?thesis by (rule "1.IH" [OF False])
    qed
  qed
qed

lemma free_identifier_bound: "free_identifier ms n \<le> n + length ms"
proof -
  let ?f = "free_identifier ms n"
  have "(\<lambda>k. Some (Id k)) ` {n..<?f} \<subseteq> fst ` set ms"
    using free_identifier_skips [of n _ ms] by (auto simp: map_of_eq_None_iff)
  then have "card ((\<lambda>k. Some (Id k)) ` {n..<?f}) \<le> card (fst ` set ms)"
    by (intro card_mono) auto
  moreover have "card ((\<lambda>k. Some (Id k)) ` {n..<?f}) = ?f - n"
    by (subst card_image) (auto intro: inj_onI)
  moreover have "card (fst ` set ms) \<le> length ms"
    using card_length [of "map fst ms"] by simp
  ultimately show ?thesis by linarith
qed

text \<open>\<open>requires_ack\<close> on a publication that can be stored.\<close>

lemma requires_ack_publish:
  assumes "length (sentMessages c) \<le> maxMessageIdentifier"
    and w: "is_stored w" "wire_sequence w = None"
  defines "i \<equiv> free_identifier (sentMessages c) (message_identifier c)"
  shows "\<exists>s. requires_ack w c =
    (c\<lparr>message_identifier := i, cl_sequence := cl_sequence c + 1, localStorage := AList.update
         (storage_key sent_prefix c (Some (Id i))) s (localStorage c),
       sentMessages := AList.update (Some (Id i)) (w\<lparr>messageIdentifier := Some (Id i),
         wire_sequence := Some (cl_sequence c + 1)\<rparr>) (sentMessages c)\<rparr>,
     Inr (w\<lparr>messageIdentifier := Some (Id i), wire_sequence := Some (cl_sequence c + 1)\<rparr>))"
proof -
  let ?w = "w\<lparr>messageIdentifier := Some (Id i)\<rparr>"
  let ?c = "c\<lparr>message_identifier := i, sentMessages := AList.update (Some (Id i)) ?w (sentMessages c)\<rparr>"
  have pub: "wire_type w = PUBLISH" and st: "is_stored ?w" using w(1) by (auto simp: is_stored_def)
  then obtain c1 w1 where c1: "store sent_prefix ?w ?c = (c1, Inr w1)" using store_succeeds by blast
  obtain m b q n where "is_stored ?w" "payloadMessage ?w = Some m" "getPayloadBytes (msg_payload m) = Inr b"
    and s: "w1 = ?w\<lparr>wire_sequence := q\<rparr>"
      "c1 = ?c\<lparr>cl_sequence := n, localStorage := AList.update (storage_key sent_prefix ?c (messageIdentifier ?w))
         (stored_form (starts_with sent_prefix sent_prefix) w1 m b) (localStorage ?c)\<rparr>"
    and q: "(q, n) = (if starts_with sent_prefix sent_prefix \<and> wire_sequence ?w = None
       then (Some (cl_sequence ?c + 1), cl_sequence ?c + 1) else (wire_sequence ?w, cl_sequence ?c))"
    by (rule store_writes [OF c1])
  have qn: "q = Some (cl_sequence c + 1)" "n = cl_sequence c + 1"
    using q w(2) starts_with_prefix by simp_all
  have key: "storage_key sent_prefix ?c k = storage_key sent_prefix c k" for k
    by (rule storage_key_cong) simp_all
  have "requires_ack w c = (c1\<lparr>sentMessages := AList.update (Some (Id i)) w1 (sentMessages c1)\<rparr>, Inr w1)"
    using assms(1) pub c1 by (simp add: requires_ack_def i_def [symmetric] Let_def)
  then show ?thesis
    by (intro exI [of _ "stored_form (starts_with sent_prefix sent_prefix) w1 m b"])
      (simp add: s qn alist_update_twice key)
qed

lemma send_qos:
  assumes c: "idle c" "length (sentMessages c) \<le> maxMessageIdentifier"
    and m: "wf_message m" "0 < qos m"
  defines "i \<equiv> free_identifier (sentMessages c) (message_identifier c)"
  defines "w \<equiv> (WireMessage PUBLISH)\<lparr>payloadMessage := Some m, messageIdentifier := Some (Id i),
    wire_sequence := Some (cl_sequence c + 1)\<rparr>"
  assumes i: "i < 65536"
  shows "\<exists>c' b s. send m c = (c', None) \<and> encode w = Inr b \<and> log c' = log c @ [Sent b] \<and> idle c' \<and>
    sentMessages c' = AList.update (Some (Id i)) w (sentMessages c) \<and>
    localStorage c' = AList.update (storage_key sent_prefix c (Some (Id i))) s (localStorage c) \<and>
    same_key c' c \<and> has_onMessageDelivered c' = has_onMessageDelivered c"
proof -
  let ?w0 = "(WireMessage PUBLISH)\<lparr>payloadMessage := Some m\<rparr>"
  from m(1) obtain v where "getPayloadBytes (msg_payload m) = Inr v"
    unfolding wf_message_def using getPayloadBytes_view by blast
  then have w0: "is_stored ?w0" "wire_sequence ?w0 = None" by (simp_all add: is_stored_def WireMessage_def)
  obtain s c1 where c1: "c1 = c\<lparr>message_identifier := i, cl_sequence := cl_sequence c + 1,
      localStorage := AList.update (storage_key sent_prefix c (Some (Id i))) s (localStorage c),
      sentMessages := AList.update (Some (Id i)) w (sentMessages c)\<rparr>"
    and ra: "requires_ack ?w0 c = (c1, Inr w)"
    using requires_ack_publish [OF c(2) w0] unfolding i_def [symmetric] by (auto simp: w_def)
  have "wf_wire w" using m(1) i by (simp add: w_def wf_wire_def wf_ident_def WireMessage_def)
  then obtain b where b: "encode w = Inr b" using encode_packet by blast
  have idle1: "idle c1" using c(1) by (simp add: c1 idle_def)
  have "send m c = (sent_one b c1, None)"
    using c(1) m(2) ra schedule_idle [OF idle1 b] by (simp add: send_def idle_def acknowledged_def)
  with b idle1 show ?thesis
    by (intro exI [of _ "sent_one b c1"] exI [of _ b] exI [of _ s])
      (simp add: c1 same_key_def sent_one_def idle_def)
qed

lemma on_pubrec_sent:
  assumes c: "idle c" "map_of (sentMessages c) (Some (Id n)) = Some w" "n < 65536"
    and w: "is_stored w" "messageIdentifier w = Some (Id n)"
  shows "\<exists>c' w' s. on_socket_message (ack_bytes PUBREC n) c = (c', None) \<and> idle c' \<and> same_key c' c \<and>
    log c' = log c @ [Sent (ack_bytes PUBREL n)] \<and> payloadMessage w' = payloadMessage w \<and> pubRecReceived w' \<and>
    sentMessages c' = AList.update (Some (Id n)) w' (sentMessages c) \<and>
    localStorage c' = AList.update (storage_key sent_prefix c (Some (Id n))) s (localStorage c) \<and>
    has_onMessageDelivered c' = has_onMessageDelivered c"
proof -
  from c(1) obtain p where p: "receivePinger c = Some p" by (auto simp: idle_def)
  let ?r = "reply PUBREC (Some (Id n))"
  have d: "decodeMessage (ack_bytes PUBREC n) = Inr ?r" using c(3) by (simp add: decode_reply)
  have r: "wire_type ?r = PUBREC" "messageIdentifier ?r = Some (Id n)" by (simp_all add: reply_def WireMessage_def)
  let ?s = "w\<lparr>pubRecReceived := True\<rparr>"
  let ?c1 = "c\<lparr>receivePinger := Some (pinger_reset p),
    sentMessages := AList.update (Some (Id n)) ?s (sentMessages c)\<rparr>"
  have "is_stored ?s" using w(1) by (simp add: is_stored_def)
  then obtain c2 w2 where st: "store sent_prefix ?s ?c1 = (c2, Inr w2)" using store_succeeds by blast
  obtain q k x where w2: "w2 = ?s\<lparr>wire_sequence := q\<rparr>" and c2: "c2 = ?c1\<lparr>cl_sequence := k,
      localStorage := AList.update (storage_key sent_prefix ?c1 (messageIdentifier ?s)) x (localStorage ?c1)\<rparr>"
    using store_writes [OF st] by metis
  have key: "storage_key sent_prefix ?c1 i = storage_key sent_prefix c i" for i
    by (rule storage_key_cong) simp_all
  let ?c3 = "c2\<lparr>sentMessages := AList.update (Some (Id n)) w2 (sentMessages c2)\<rparr>"
  have idle3: "idle ?c3" using c(1) by (simp add: c2 idle_def)
  have "on_socket_message (ack_bytes PUBREC n) c = on_pubrec ?r (c\<lparr>receivePinger := Some (pinger_reset p)\<rparr>)"
    by (simp add: on_socket_message_def p d on_wire_def r Let_def)
  also have "\<dots> = schedule_message (reply PUBREL (Some (Id n))) ?c3"
    using st c(2) by (simp add: on_pubrec_def r Let_def)
  also have "\<dots> = (sent_one (ack_bytes PUBREL n) ?c3, None)"
    using schedule_idle [OF idle3] encode_reply [of PUBREL n] c(3) by simp
  finally show ?thesis using idle3
    by (intro exI [of _ "sent_one (ack_bytes PUBREL n) ?c3"] exI [of _ w2] exI [of _ x])
      (simp add: c2 w2 same_key_def sent_one_def w(2) key alist_update_twice idle_def)
qed

lemma on_pubcomp_done:
  assumes c: "idle c" "has_onMessageDelivered c" "map_of (sentMessages c) (Some (Id n)) = Some w" "n < 65536"
  shows "\<exists>c'. on_socket_message (ack_bytes PUBCOMP n) c = (c', None) \<and> idle c' \<and>
    log c' = log c @ [Delivered (payloadMessage w)] \<and>
    sentMessages c' = AList.delete (Some (Id n)) (sentMessages c) \<and>
    localStorage c' = AList.delete (storage_key sent_prefix c (Some (Id n))) (localStorage c)"
proof -
  from c(1) obtain p where p: "receivePinger c = Some p" by (auto simp: idle_def)
  let ?r = "reply PUBCOMP (Some (Id n))"
  have d: "decodeMessage (ack_bytes PUBCOMP n) = Inr ?r" using c(4) by (simp add: decode_reply)
  have r: "wire_type ?r = PUBCOMP" "messageIdentifier ?r = Some (Id n)" by (simp_all add: reply_def WireMessage_def)
  have key: "storage_key sent_prefix (c\<lparr>receivePinger := x\<rparr>) i = storage_key sent_prefix c i" for x i
    by (rule storage_key_cong) simp_all
  show ?thesis
    using c by (simp add: on_socket_message_def p d on_wire_def r Let_def on_pubcomp_def removeItem_def
        emit_def idle_def key)
qed

section \<open>Resending and restoring\<close>

definition seq_lt :: "wire \<Rightarrow> wire \<Rightarrow> bool" where
  "seq_lt x y \<longleftrightarrow> (\<exists>i j. wire_sequence x = Some i \<and> wire_sequence y = Some j \<and> i < j)"

lemma insert_by_seq_sorted:
  assumes "sorted_wrt seq_lt ys" "\<forall>y \<in> set (x # ys). wire_sequence y \<noteq> None"
    and "wire_sequence x \<notin> wire_sequence ` set ys"
  shows "sorted_wrt seq_lt (insert_by_seq x ys) \<and> mset (insert_by_seq x ys) = add_mset x (mset ys)"
  using assms
proof (induction ys)
  case Nil
  then show ?case by simp
next
  case (Cons y ys)
  from Cons.prems obtain i j where ij: "wire_sequence x = Some i" "wire_sequence y = Some j" "i \<noteq> j" by auto
  show ?case
  proof (cases "i < j")
    case True
    with ij have "seq_less x y" "seq_lt x y" by (simp_all add: seq_less_def seq_lt_def)
    moreover from this(2) have "seq_lt x z" if "seq_lt y z" for z using that by (auto simp: seq_lt_def)
    ultimately show ?thesis using Cons.prems(1) by auto
  next
    case False
    with ij have "seq_lt y x" "\<not> seq_less x y" by (auto simp: seq_less_def seq_lt_def)
    moreover from Cons have IH: "sorted_wrt seq_lt (insert_by_seq x ys)"
        "mset (insert_by_seq x ys) = add_mset x (mset ys)" by auto
    moreover from IH(2) have "set (insert_by_seq x ys) = insert x (set ys)"
      by (metis set_mset_mset set_mset_add_mset_insert)
    ultimately show ?thesis using Cons.prems(1) by auto
  qed
qed

lemma sort_by_seq_sorted:
  assumes "\<forall>w \<in> set ws. wire_sequence w \<noteq> None" "distinct (map wire_sequence ws)"
  shows "sorted_wrt seq_lt (sort_by_seq ws) \<and> mset (sort_by_seq ws) = mset ws"
proof -
  have "sorted_wrt seq_lt acc \<Longrightarrow> \<forall>w \<in> set acc \<union> set ws. wire_sequence w \<noteq> None \<Longrightarrow>
      distinct (map wire_sequence (acc @ ws)) \<Longrightarrow>
      sorted_wrt seq_lt (foldl (\<lambda>acc x. insert_by_seq x acc) acc ws) \<and>
      mset (foldl (\<lambda>acc x. insert_by_seq x acc) acc ws) = mset acc + mset ws" for acc
  proof (induction ws arbitrary: acc)
    case Nil
    then show ?case by simp
  next
    case (Cons x ws)
    have "\<forall>y \<in> set (x # acc). wire_sequence y \<noteq> None" using Cons.prems(2) by simp
    moreover have "wire_sequence x \<notin> wire_sequence ` set acc" using Cons.prems(3) by auto
    ultimately have i: "sorted_wrt seq_lt (insert_by_seq x acc)" "mset (insert_by_seq x acc) = add_mset x (mset acc)"
      using insert_by_seq_sorted [OF Cons.prems(1)] by blast+
    then have s: "set (insert_by_seq x acc) = insert x (set acc)"
      by (metis set_mset_mset set_mset_add_mset_insert)
    have "mset (map wire_sequence (insert_by_seq x acc @ ws)) = mset (map wire_sequence (acc @ x # ws))"
      by (simp add: i(2))
    then have "distinct (map wire_sequence (insert_by_seq x acc @ ws))"
      using Cons.prems(3) mset_eq_imp_distinct_iff by blast
    moreover have "\<forall>w \<in> set (insert_by_seq x acc) \<union> set ws. wire_sequence w \<noteq> None"
      using Cons.prems(2) s by auto
    ultimately show ?case using Cons.IH [OF i(1)] i(2) by simp
  qed
  from this [of "[]"] assms show ?thesis by (simp add: sort_by_seq_def)
qed

lemma enumerate_wires_mset: "mset (enumerate_wires ms) = mset (map snd ms)"
proof -
  have "mset (sort_key id_of (filter is_id ms) @ filter (\<lambda>e. \<not> is_id e) ms) = mset ms"
    by (simp add: mset_filter multiset_partition [symmetric])
  then show ?thesis unfolding enumerate_wires_def mset_map by simp
qed

lemma schedule_all_idle:
  assumes "idle c" "list_all2 (\<lambda>w b. encode w = Inr b) ws bs"
  shows "schedule_all ws c = (sent_all bs c, None)"
  using assms(2,1)
proof (induction ws bs arbitrary: c rule: list_all2_induct)
  case (Cons w ws b bs)
  then show ?case using schedule_idle by simp
qed simp

lemma sent_all_fields:
  "log (sent_all bs c) = log c @ map Sent bs" "idle (sent_all bs c) = idle c"
  "sentMessages (sent_all bs c) = sentMessages c" "msg_queue (sent_all bs c) = msg_queue c"
proof (induction bs arbitrary: c)
  case (Cons b bs)
  { case 1 show ?case using Cons by simp }
  { case 2 show ?case using Cons by simp }
  { case 3 show ?case using Cons by simp }
  { case 4 show ?case using Cons by (simp add: sent_one_def) }
qed simp_all

lemma reconnect_resends:
  assumes c: "socket c = Some Open" "msg_queue c = []" "\<not> notify_msg_sent c" "sendPinger c \<noteq> None"
      "receivePinger c \<noteq> None" "connectTimeout c \<noteq> None" "connectOptions c = Some opts"
      "\<not> opt_cleanSession opts" "\<not> opt_onSuccess opts"
    and w: "wire_type w = CONNACK" "returnCode w = Some 0"
    and seq: "\<forall>s \<in> snd ` set (sentMessages c). wire_sequence s \<noteq> None"
      "distinct (map (wire_sequence \<circ> snd) (sentMessages c))"
    and enc: "\<forall>s \<in> snd ` set (sentMessages c). \<exists>b. encode (resend_message s) = Inr b"
  shows "\<exists>c' ws bs. on_wire w c = (c', None) \<and> connected c' \<and>
    mset ws = mset (map snd (sentMessages c)) \<and> sorted_wrt seq_lt ws \<and>
    list_all2 (\<lambda>s b. encode (resend_message s) = Inr b) ws bs \<and> log c' = log c @ map Sent bs \<and>
    sentMessages c' = sentMessages c"
proof -
  let ?ws = "sort_by_seq (enumerate_wires (sentMessages c))"
  have en: "mset (enumerate_wires (sentMessages c)) = mset (map snd (sentMessages c))"
    by (rule enumerate_wires_mset)
  then have set: "set (enumerate_wires (sentMessages c)) = snd ` set (sentMessages c)"
    by (metis list.set_map set_mset_mset)
  have "mset (map wire_sequence (enumerate_wires (sentMessages c))) = mset (map (wire_sequence \<circ> snd) (sentMessages c))"
    using en by (simp add: multiset.map_comp)
  then have "distinct (map wire_sequence (enumerate_wires (sentMessages c)))"
    using seq(2) mset_eq_imp_distinct_iff by blast
  with sort_by_seq_sorted [of "enumerate_wires (sentMessages c)"] seq(1) set
  have ws: "sorted_wrt seq_lt ?ws" "mset ?ws = mset (map snd (sentMessages c))"
    using en by auto
  then have "set ?ws = snd ` set (sentMessages c)" by (metis list.set_map set_mset_mset)
  with enc have "\<forall>s \<in> set ?ws. \<exists>b. encode (resend_message s) = Inr b" by simp
  then obtain bs where bs: "list_all2 (\<lambda>s b. encode (resend_message s) = Inr b) ?ws bs"
    using list_all2_choice [of ?ws "\<lambda>s b. encode (resend_message s) = Inr b"] by blast
  let ?h = "case opt_hosts opts of None \<Rightarrow> hostIndex c | Some hs \<Rightarrow> length hs"
  let ?c3 = "c\<lparr>connectTimeout := Some False, connected := True, hostIndex := ?h\<rparr>"
  have idle: "idle ?c3" using c by (simp add: idle_def)
  have sched: "schedule_all (map resend_message ?ws) ?c3 = (sent_all bs ?c3, None)"
    using bs by (intro schedule_all_idle idle) (simp add: list_all2_map1)
  have q: "process_queue (sent_all bs ?c3) = (sent_all bs ?c3, None)"
    using c(2) by (simp add: process_queue_def sent_all_fields)
  have "on_wire w c = (sent_all bs ?c3, None)"
    using c w sched q by (simp add: on_wire_def on_connack_def connack_session_def connack_resume_def Let_def cong: option.case_cong)
  moreover have "connected (sent_all bs ?c3)" using idle by (metis idle_def sent_all_fields(2))
  ultimately show ?thesis
    using ws bs by (intro exI [of _ "sent_all bs ?c3"] exI [of _ ?ws] exI [of _ bs]) (simp add: sent_all_fields)
qed

section \<open>Restoring\<close>

text \<open>What a message looks like after a reload: the payload as bytes, and no callbacks.\<close>

definition reloaded :: "wire \<Rightarrow> message \<Rightarrow> buffer \<Rightarrow> wire" where
  "reloaded w m b = (WireMessage PUBLISH)\<lparr>messageIdentifier := messageIdentifier w,
     pubRecReceived := pubRecReceived w, wire_sequence := wire_sequence w,
     payloadMessage := Some (m\<lparr>msg_payload := PUint8Array b\<rparr>)\<rparr>"

lemma restored_wire_stored:
  assumes "wf_message m" "wf_bytes b" "messageIdentifier w = Some (Id n)"
  shows "restored_wire (stored_form True w m (PUint8Array b)) = Inr (reloaded w m b)"
proof -
  from assms(1) obtain d where d: "destinationName m = Some d" and q: "qos m < 3" by (auto simp: wf_message_def)
  have "setQos (qos m) x = Inr (x\<lparr>qos := qos m\<rparr>)" for x using q by (auto simp: setQos_def)
  with d assms(2,3) show ?thesis
    by (cases m) (simp add: restored_wire_def restored_message_def stored_form_def parse_payload_hex
        Message_def reloaded_def json_id_def)
qed

definition saved :: "client \<Rightarrow> (nat \<times> wire \<times> message \<times> buffer) list \<Rightarrow> (jsstring \<times> stored_message) list" where
  "saved c items = map (\<lambda>(n, w, m, b). (storage_key sent_prefix c (Some (Id n)),
     stored_form True w m (PUint8Array b))) items"

lemma restore_all_saved:
  assumes "\<forall>(n, w, m, b) \<in> set items. wf_message m \<and> wf_bytes b \<and> messageIdentifier w = Some (Id n)"
    and "same_key d c"
  shows "restore_all (saved c items) d =
    Inr (d\<lparr>sentMessages := fold (\<lambda>(n, w, m, b) ms. AList.update (Some (Id n)) (reloaded w m b) ms) items (sentMessages d)\<rparr>)"
  using assms
proof (induction items arbitrary: d)
  case Nil
  then show ?case by (simp add: saved_def)
next
  case (Cons i items)
  obtain n w m b where i: "i = (n, w, m, b)" by (cases i)
  with Cons.prems have w: "wf_message m" "wf_bytes b" "messageIdentifier w = Some (Id n)" by auto
  have key: "localKey d = localKey c" using Cons.prems(2) by (simp add: localKey_def same_key_def)
  let ?d = "d\<lparr>sentMessages := AList.update (Some (Id n)) (reloaded w m b) (sentMessages d)\<rparr>"
  have "restore (storage_key sent_prefix c (Some (Id n))) (stored_form True w m (PUint8Array b)) d = Inr ?d"
    using w starts_with_key [of sent_prefix c "Some (Id n)"]
    by (simp add: restore_def restored_wire_stored key reloaded_def)
  then have "restore_all (saved c (i # items)) d = restore_all (saved c items) ?d"
    using starts_with_key [of sent_prefix c "Some (Id n)"] by (simp add: saved_def i key)
  also have "\<dots> = Inr (?d\<lparr>sentMessages := fold (\<lambda>(n, w, m, b) ms. AList.update (Some (Id n)) (reloaded w m b) ms)
      items (sentMessages ?d)\<rparr>)"
    using Cons.prems by (intro Cons.IH) (auto simp: same_key_def)
  finally show ?case by (simp add: i)
qed

lemma map_of_fold_items:
  "distinct (map fst items) \<Longrightarrow> (n, w, m, b) \<in> set items \<Longrightarrow>
     map_of (fold (\<lambda>(n, w, m, b) ms. AList.update (Some (Id n)) (reloaded w m b) ms) items ms) (Some (Id n)) =
       Some (reloaded w m b)"
proof (induction items arbitrary: ms)
  case Nil
  then show ?case by simp
next
  case (Cons i items)
  have other: "n \<notin> fst ` set items \<Longrightarrow>
      map_of (fold (\<lambda>(n, w, m, b) ms. AList.update (Some (Id n)) (reloaded w m b) ms) items ms) (Some (Id n)) =
      map_of ms (Some (Id n))" for ms
    by (induction items arbitrary: ms) (auto simp: map_laws)
  show ?case
  proof (cases "i = (n, w, m, b)")
    case True
    with Cons.prems other show ?thesis by (simp add: map_laws)
  next
    case False
    with Cons.prems have "(n, w, m, b) \<in> set items" "distinct (map fst items)" by auto
    then show ?thesis using Cons.IH by (cases i) simp
  qed
qed

section \<open>Properties\<close>

text \<open>
  C11. Inbound quality of service 2 is refined to the abstract receiver. Whatever
  publications and releases the server sends, in any order, repeated or not, an idle
  client performs exactly the replies and deliveries of the receiver and ends with its
  pending messages.
\<close>

theorem qos2_inbound_refines:
  assumes "list_all2 carries ds is" "idle c" "has_onMessageArrived c" "has_payloads c"
  shows "\<exists>c'. client_run ds c = (c', None) \<and> idle c' \<and> pending_of c' = fst (receiver_run is (pending_of c)) \<and>
    log c' = log c @ snd (receiver_run is (pending_of c))"
  by (rule client_run_refines [OF assms])

definition arrivals :: "event list \<Rightarrow> event list" where
  "arrivals es = filter (\<lambda>e. case e of Arrived m \<Rightarrow> True | _ \<Rightarrow> False) es"

lemma receiver_run_append:
  "receiver_run (xs @ ys) p =
     (let (p1, e1) = receiver_run xs p; (p2, e2) = receiver_run ys p1 in (p2, e1 @ e2))"
  by (induction xs arbitrary: p) (auto simp: Let_def split: prod.split)

lemma receiver_publications:
  "receiver_run (replicate i (Publication n m)) p =
     (if i = 0 then p else p(n \<mapsto> m), replicate i (Sent (ack_bytes PUBREC n)))"
  by (induction i arbitrary: p) (auto simp: Let_def)

lemma receiver_releases:
  "p n = None \<Longrightarrow> receiver_run (replicate j (Release n)) p = (p, replicate j (Sent (ack_bytes PUBCOMP n)))"
  by (induction j) (auto simp: Let_def fun_upd_idem)

text \<open>
  C12. Exactly once. However often the server repeats the publication and its release,
  the application receives the message exactly once.
\<close>

theorem qos2_exactly_once:
  assumes "idle c" "has_onMessageArrived c" "has_payloads c"
    and "carries pub (Publication n m)" "carries rel (Release n)"
  shows "\<exists>c'. client_run (replicate (Suc i) pub @ replicate (Suc j) rel) c = (c', None) \<and> idle c' \<and>
    arrivals (log c') = arrivals (log c) @ [Arrived (Some m)] \<and> pending_of c' n = None"
proof -
  let ?is = "replicate (Suc i) (Publication n m) @ replicate (Suc j) (Release n)"
  have "list_all2 carries (replicate (Suc i) pub @ replicate (Suc j) rel) ?is"
    using assms(4,5) by (intro list_all2_appendI) (simp_all add: list_all2_conv_all_nth del: replicate_Suc)
  from client_run_refines [OF this assms(1-3)] obtain c' where
      c': "client_run (replicate (Suc i) pub @ replicate (Suc j) rel) c = (c', None)" "idle c'"
      "pending_of c' = fst (receiver_run ?is (pending_of c))"
      "log c' = log c @ snd (receiver_run ?is (pending_of c))" by blast
  have rel: "receiver_run (replicate (Suc j) (Release n)) p = (p(n := None),
      [Arrived (Some m)] @ replicate (Suc j) (Sent (ack_bytes PUBCOMP n)))" if "p n = Some m" for p
    using that receiver_releases [of "p(n := None)" n j] by (simp add: Let_def)
  have run: "receiver_run ?is (pending_of c) = ((pending_of c)(n := None),
      replicate (Suc i) (Sent (ack_bytes PUBREC n)) @ [Arrived (Some m)] @ replicate (Suc j) (Sent (ack_bytes PUBCOMP n)))"
    unfolding receiver_run_append receiver_publications by (simp add: rel del: replicate_Suc)
  have no: "arrivals (replicate k (Sent b)) = []" for k b by (induction k) (simp_all add: arrivals_def)
  have app: "arrivals (xs @ ys) = arrivals xs @ arrivals ys" for xs ys by (simp add: arrivals_def)
  have "arrivals (log c') = arrivals (log c) @ [Arrived (Some m)]"
    unfolding c'(4) run snd_conv app no by (simp add: arrivals_def)
  moreover have "pending_of c' n = None" unfolding c'(3) run by simp
  ultimately show ?thesis using c'(1,2) by blast
qed

text \<open>
  C13. Outbound quality of service 2. A message an idle client sends goes out once, is
  stored before, is answered with a release when the server acknowledges it, and is
  reported delivered, and forgotten by the client and its storage, when the server
  completes the exchange, and not earlier.
\<close>

theorem qos2_outbound:
  assumes "idle c" "has_onMessageDelivered c" "length (sentMessages c) \<le> maxMessageIdentifier"
    and "wf_message m" "qos m = 2"
    and "i = free_identifier (sentMessages c) (message_identifier c)" "i < 65536"
  shows "\<exists>b c1 c2 c3. send m c = (c1, None) \<and> log c1 = log c @ [Sent b] \<and>
    map_of (localStorage c1) (storage_key sent_prefix c (Some (Id i))) \<noteq> None \<and>
    on_socket_message (ack_bytes PUBREC i) c1 = (c2, None) \<and> log c2 = log c1 @ [Sent (ack_bytes PUBREL i)] \<and>
    on_socket_message (ack_bytes PUBCOMP i) c2 = (c3, None) \<and> log c3 = log c2 @ [Delivered (Some m)] \<and>
    idle c3 \<and> map_of (sentMessages c3) = (map_of (sentMessages c))(Some (Id i) := None) \<and>
    map_of (localStorage c3) = (map_of (localStorage c))(storage_key sent_prefix c (Some (Id i)) := None)"
proof -
  let ?w = "(WireMessage PUBLISH)\<lparr>payloadMessage := Some m, messageIdentifier := Some (Id i),
    wire_sequence := Some (cl_sequence c + 1)\<rparr>"
  let ?k = "storage_key sent_prefix c (Some (Id i))"
  obtain c1 b s where c1: "send m c = (c1, None)" "log c1 = log c @ [Sent b]" "idle c1" "same_key c1 c"
      "sentMessages c1 = AList.update (Some (Id i)) ?w (sentMessages c)"
      "localStorage c1 = AList.update ?k s (localStorage c)" "has_onMessageDelivered c1 = has_onMessageDelivered c"
    using send_qos [of c m] assms by auto
  have k1: "storage_key sent_prefix c1 (Some (Id i)) = ?k"
    using c1(4) by (intro storage_key_cong) (simp_all add: same_key_def)
  from assms(4) obtain v where "getPayloadBytes (msg_payload m) = Inr v"
    unfolding wf_message_def using getPayloadBytes_view by blast
  then have st: "is_stored ?w" "messageIdentifier ?w = Some (Id i)" by (simp_all add: is_stored_def WireMessage_def)
  have w1: "map_of (sentMessages c1) (Some (Id i)) = Some ?w" by (simp add: c1(5) map_laws)
  obtain c2 w2 s2 where c2: "on_socket_message (ack_bytes PUBREC i) c1 = (c2, None)" "idle c2" "same_key c2 c1"
      "log c2 = log c1 @ [Sent (ack_bytes PUBREL i)]" "payloadMessage w2 = payloadMessage ?w"
      "sentMessages c2 = AList.update (Some (Id i)) w2 (sentMessages c1)"
      "localStorage c2 = AList.update (storage_key sent_prefix c1 (Some (Id i))) s2 (localStorage c1)"
      "has_onMessageDelivered c2 = has_onMessageDelivered c1"
    using on_pubrec_sent [OF c1(3) w1 assms(7) st] by auto
  have k2: "storage_key sent_prefix c2 (Some (Id i)) = ?k"
    using c2(3) k1 by (subst storage_key_cong [of c2 c1]) (simp_all add: same_key_def)
  have w2: "map_of (sentMessages c2) (Some (Id i)) = Some w2" by (simp add: c2(6) map_laws)
  have "has_onMessageDelivered c2" using c1(7) c2(8) assms(2) by simp
  from on_pubcomp_done [OF c2(2) this w2 assms(7)] obtain c3 where
      c3: "on_socket_message (ack_bytes PUBCOMP i) c2 = (c3, None)" "idle c3"
      "log c3 = log c2 @ [Delivered (payloadMessage w2)]"
      "sentMessages c3 = AList.delete (Some (Id i)) (sentMessages c2)"
      "localStorage c3 = AList.delete (storage_key sent_prefix c2 (Some (Id i))) (localStorage c2)" by blast
  have "payloadMessage w2 = Some m" using c2(5) by simp
  moreover have "map_of (localStorage c1) ?k \<noteq> None" by (simp add: c1(6) map_laws)
  moreover have "map_of (sentMessages c3) = (map_of (sentMessages c))(Some (Id i) := None)"
    by (simp add: c3(4) c2(6) c1(5) map_laws)
  moreover have "map_of (localStorage c3) = (map_of (localStorage c))(?k := None)"
    by (simp add: c3(5) c2(7) c1(6) map_laws k1 k2)
  ultimately show ?thesis using c1(1,2) c2(1,4) c3(1-3)
    by (intro exI [of _ b] exI [of _ c1] exI [of _ c2] exI [of _ c3]) simp
qed

text \<open>
  C16. The search for an identifier ends: it returns the first one at or after the
  counter that is not in flight, at most as many steps away as messages are in flight.
\<close>

theorem identifier_search:
  "map_of ms (Some (Id (free_identifier ms n))) = None \<and> n \<le> free_identifier ms n \<and>
   free_identifier ms n \<le> n + length ms \<and>
   (\<forall>k. n \<le> k \<and> k < free_identifier ms n \<longrightarrow> map_of ms (Some (Id k)) \<noteq> None)"
  using free_identifier_unused free_identifier_ge free_identifier_bound free_identifier_skips by blast

text \<open>
  The identifier counter does not wrap: once the identifiers up to 65535 are in
  flight, the next message gets 65536, which is written on the wire as 0.
\<close>

theorem identifier_overflows:
  assumes "message_identifier c = 1" "\<forall>k. 1 \<le> k \<and> k < 65536 \<longrightarrow> map_of (sentMessages c) (Some (Id k)) \<noteq> None"
    and "map_of (sentMessages c) (Some (Id 65536)) = None" "length (sentMessages c) \<le> 65536"
    and "requires_ack w c = (c', Inr w')"
  shows "messageIdentifier w' = Some (Id 65536) \<and>
    writeUint16 (Id 65536) buf pos = writeUint16 (Id 0) buf pos"
proof -
  let ?f = "free_identifier (sentMessages c) 1"
  have "65536 \<le> ?f"
  proof (rule ccontr)
    assume "\<not> 65536 \<le> ?f"
    then have "?f < 65536" by (rule not_le_imp_less)
    then have "1 \<le> ?f \<and> ?f < 65536" by (intro conjI free_identifier_ge)
    moreover from assms(2) have "1 \<le> ?f \<and> ?f < 65536 \<longrightarrow> map_of (sentMessages c) (Some (Id ?f)) \<noteq> None"
      by (rule spec)
    ultimately have "map_of (sentMessages c) (Some (Id ?f)) \<noteq> None" by (rule mp [rotated])
    from this free_identifier_unused show False by (rule notE)
  qed
  moreover have "\<not> 65536 < ?f" using free_identifier_skips [of 1 65536 "sentMessages c"] assms(3) by auto
  ultimately have f: "?f = 65536" by simp
  have "messageIdentifier w' = Some (Id 65536)"
  proof (cases "wire_type w = PUBLISH")
    case False
    with assms(1,4,5) f show ?thesis by (auto simp: requires_ack_def Let_def maxMessageIdentifier_def)
  next
    case True
    let ?w = "w\<lparr>messageIdentifier := Some (Id 65536)\<rparr>"
    let ?c = "c\<lparr>message_identifier := 65536,
        sentMessages := AList.update (Some (Id 65536)) ?w (sentMessages c)\<rparr>"
    from True assms(1,4,5) f obtain c1 where "store sent_prefix ?w ?c = (c1, Inr w')"
      by (auto simp: requires_ack_def Let_def maxMessageIdentifier_def split: prod.splits sum.splits)
    from store_writes [OF this] obtain q where "w' = ?w\<lparr>wire_sequence := q\<rparr>" by metis
    then show ?thesis by simp
  qed
  then show ?thesis by (simp add: writeUint16_def js_shr_small)
qed

text \<open>
  A message that cannot be encoded leaves the queue reversed: the messages before
  it are sent, the exception reaches the caller, and those behind it stay queued in the
  opposite order.
\<close>

theorem queue_reversed_on_error:
  assumes "socket c = Some Open" "sendPinger c \<noteq> None" "\<not> notify_msg_sent c"
    and "msg_queue c = ws1 @ w # ws2" "list_all2 (\<lambda>w b. encode w = Inr b) ws1 bs" "encode w = Inl e"
  shows "\<exists>c'. process_queue c = (c', Some e) \<and> log c' = log c @ map Sent bs \<and> msg_queue c' = rev ws2"
proof -
  have "\<exists>c'. process_loop (ws1 @ w # ws2) True c = (c', Some e) \<and> log c' = log c @ map Sent bs \<and>
      msg_queue c' = rev ws2"
    using assms(5,1-3)
  proof (induction ws1 bs arbitrary: c rule: list_all2_induct)
    case Nil
    have "process_loop (w # ws2) True c = (c\<lparr>msg_queue := rev ws2\<rparr>, Some e)"
      using Nil assms(6) by (simp add: socket_send_def)
    then show ?case by simp
  next
    case (Cons x ws1 b bs)
    let ?c = "c\<lparr>msg_queue := rev (ws1 @ w # ws2)\<rparr>"
    have "socket_send x ?c = (sent_one b ?c, None)"
      using Cons by (intro socket_send_open) auto
    then have step: "process_loop ((x # ws1) @ w # ws2) True c = process_loop (ws1 @ w # ws2) True (sent_one b ?c)"
      using Cons.prems by (simp add: sent_one_def)
    have "\<exists>c'. process_loop (ws1 @ w # ws2) True (sent_one b ?c) = (c', Some e) \<and>
        log c' = log (sent_one b ?c) @ map Sent bs \<and> msg_queue c' = rev ws2"
      using Cons.prems by (intro Cons.IH) (auto simp: sent_one_def)
    with step show ?case by simp
  qed
  then show ?thesis by (simp add: process_queue_def assms(4))
qed

text \<open>
  C14. Resending. The server accepts a connection that keeps the session, nothing is queued and
  no success callback is set, and the messages in flight are publications with distinct
  sequence numbers that can be encoded. Then the client sends again exactly these
  messages, each once, in the order of their sequence numbers, a release in place of a
  publication already acknowledged. The sequence numbers count the publications since the page
  was loaded (\<open>requires_ack_publish\<close>), so among those of one page the order is that in
  which they were first sent; they restart with the page, and a restored message may come after
  a later one (\<open>reload_restarts_sequence\<close>).
\<close>

theorem reconnect_resends_in_order:
  assumes "socket c = Some Open" "msg_queue c = []" "\<not> notify_msg_sent c" "sendPinger c \<noteq> None"
      "receivePinger c \<noteq> None" "connectTimeout c \<noteq> None" "connectOptions c = Some opts"
      "\<not> opt_cleanSession opts" "\<not> opt_onSuccess opts"
    and "wire_type w = CONNACK" "returnCode w = Some 0"
    and "\<forall>s \<in> snd ` set (sentMessages c). wire_sequence s \<noteq> None"
      "distinct (map (wire_sequence \<circ> snd) (sentMessages c))"
    and "\<forall>s \<in> snd ` set (sentMessages c). \<exists>b. encode (resend_message s) = Inr b"
  shows "\<exists>c' ws bs. on_wire w c = (c', None) \<and> connected c' \<and>
    mset ws = mset (map snd (sentMessages c)) \<and> sorted_wrt seq_lt ws \<and>
    list_all2 (\<lambda>s b. encode (resend_message s) = Inr b) ws bs \<and> log c' = log c @ map Sent bs \<and>
    sentMessages c' = sentMessages c"
  by (rule reconnect_resends [OF assms])

text \<open>
  C15. A page reload restores what was in flight: from a storage with the copies of
  publications with byte payloads and distinct identifiers, the constructor makes a
  client with exactly those messages in flight, each as it was.
\<close>

theorem reload_restores:
  assumes "\<forall>(n, w, m, b) \<in> set items. wf_message m \<and> wf_bytes b \<and> messageIdentifier w = Some (Id n)"
    and "distinct (map fst items)" "cl_host c = h" "cl_port c = p" "cl_clientId c = cid"
    and "has_WebSocket br" "has_localStorage br" "has_ArrayBuffer br"
  shows "\<exists>d. ClientImpl br h p cid (saved c items) = Inr d \<and>
    (\<forall>(n, w, m, b) \<in> set items. map_of (sentMessages d) (Some (Id n)) = Some (reloaded w m b)) \<and>
    receivedMessages d = [] \<and> \<not> connected d"
proof -
  let ?d = "fresh_client h p cid (saved c items)"
  have "same_key ?d c" using assms(3-5) by (simp add: same_key_def fresh_client_def)
  from restore_all_saved [OF assms(1) this] assms(6-8)
  have "ClientImpl br h p cid (saved c items) = Inr (?d\<lparr>sentMessages :=
      fold (\<lambda>(n, w, m, b) ms. AList.update (Some (Id n)) (reloaded w m b) ms) items (sentMessages ?d)\<rparr>)"
    by (simp add: ClientImpl_def)
  then show ?thesis
    using map_of_fold_items [OF assms(2)] by (auto simp: fresh_client_def)
qed

lemma restore_sequence: "restore_all items c = Inr d \<Longrightarrow> cl_sequence d = cl_sequence c \<and> message_identifier d = message_identifier c"
proof (induction items c rule: restore_all.induct)
  case (2 key v items c)
  then show ?case
    by (auto simp: restore_def bindE_split_asm split: if_splits)
qed simp

text \<open>
  The sequence numbers restart with the page: the first message sent after a reload
  gets number 1, so when the session is resumed it is resent before a restored message
  that was sent earlier.
\<close>

theorem reload_restarts_sequence:
  assumes "ClientImpl br h p cid storage = Inr c" "is_stored w" "wire_sequence w = None"
    and "length (sentMessages c) \<le> maxMessageIdentifier"
    and "map_of (sentMessages c) k = Some old" "wire_sequence old = Some s" "1 < s"
  shows "\<exists>c' w'. requires_ack w c = (c', Inr w') \<and> wire_sequence w' = Some 1 \<and>
    sort_by_seq [old, w'] = [w', old]"
proof -
  have "cl_sequence c = 0"
    using assms(1) restore_sequence [of storage "fresh_client h p cid storage" c]
    by (simp add: ClientImpl_def fresh_client_def split: if_splits)
  with requires_ack_publish [OF assms(4,2,3)] obtain c' i where
      "requires_ack w c = (c', Inr (w\<lparr>messageIdentifier := i, wire_sequence := Some 1\<rparr>))" by auto
  with assms(6,7) show ?thesis
    by (intro exI [of _ c'] exI [of _ "w\<lparr>messageIdentifier := i, wire_sequence := Some 1\<rparr>"])
      (simp add: sort_by_seq_def seq_less_def)
qed

text \<open>
  Clients share storage keys: the messages of a client whose identifier continues
  that of another with a colon are restored, and later resent, by the other.
\<close>

theorem storage_key_collision:
  assumes "wf_message m" "wf_bytes b" "messageIdentifier w = Some (Id n)"
    and "cl_host d = h" "cl_port d = p" "cl_clientId d = cid @ js '':'' @ x"
    and "has_WebSocket br" "has_localStorage br" "has_ArrayBuffer br"
  shows "\<exists>c. ClientImpl br h p cid [(storage_key sent_prefix d (Some (Id n)), stored_form True w m (PUint8Array b))]
      = Inr c \<and> map_of (sentMessages c) (Some (Id n)) = Some (reloaded w m b)"
proof -
  let ?storage = "[(storage_key sent_prefix d (Some (Id n)), stored_form True w m (PUint8Array b))]"
  have "starts_with (storage_key sent_prefix d (Some (Id n))) (sent_prefix @ localKey (fresh_client h p cid ?storage))"
    using assms(4-6) by (simp add: starts_with_def storage_key_def localKey_def fresh_client_def)
  with assms show ?thesis
    by (simp add: ClientImpl_def restore_def restored_wire_stored) (simp add: reloaded_def map_laws)
qed

text \<open>
  A completion for a message that is not in flight, such as a repeated
  \<open>PUBCOMP\<close>, throws when the application listens to deliveries.
\<close>

theorem repeated_pubcomp_throws:
  assumes "receivePinger c \<noteq> None" "has_onMessageDelivered c" "n < 65536"
    and "map_of (sentMessages c) (Some (Id n)) = None"
  shows "snd (on_socket_message (ack_bytes PUBCOMP n) c) = Some TypeError"
proof -
  have r: "wire_type (reply PUBCOMP i) = PUBCOMP" "messageIdentifier (reply PUBCOMP i) = i" for i
    by (simp_all add: reply_def WireMessage_def)
  show ?thesis
    using assms by (auto simp: on_socket_message_def decode_reply on_wire_def r on_pubcomp_def removeItem_def Let_def)
qed

fun failures :: "nat \<Rightarrow> client \<Rightarrow> outcome" where
  "failures 0 c = (c, None)"
| "failures (Suc n) c = thenDo (on_socket_error c) (failures n)"

definition socket_url :: "connect_options \<Rightarrow> nat \<Rightarrow> jsstring" where
  "socket_url opts i = (if opt_useSSL opts then js ''wss://'' else js ''ws://'')
     @ (the (opt_hosts opts) ! i) @ js '':'' @ dec_string (opt_ports opts ! i) @ js ''/mqtt''"

lemma failure_next_host:
  assumes "socket c = Some Connecting" "conn_ok c" "connectOptions c = Some opts" "opt_hosts opts = Some hs"
    and "hostIndex c + 1 < length hs"
  shows "\<exists>c'. on_socket_error c = (c', None) \<and> socket c' = Some Connecting \<and> conn_ok c' \<and>
    connectOptions c' = Some opts \<and> hostIndex c' = hostIndex c + 1 \<and>
    log c' = log c @ [SocketOpened (socket_url opts (hostIndex c + 1))]"
proof -
  from assms(1,2) obtain sp rp where "sendPinger c = Some sp" "receivePinger c = Some rp" by (auto simp: conn_ok_def)
  with assms show ?thesis
    by (auto simp: on_socket_error_def disconnected_def drop_connection_def doConnect_def Let_def emit_def
        conn_ok_def socket_url_def)
qed

lemma failure_last_host:
  assumes "socket c = Some Connecting" "conn_ok c" "connectOptions c = Some opts" "opt_hosts opts = Some hs"
    and "hostIndex c + 1 = length hs" "opt_onFailure opts"
  shows "\<exists>c'. on_socket_error c = (c', None) \<and> socket c' = None \<and>
    log c' = log c @ [ConnectFailed CODE_SOCKET_ERROR]"
proof -
  from assms(1,2) obtain sp rp where "sendPinger c = Some sp" "receivePinger c = Some rp" "\<not> connected c"
    by (auto simp: conn_ok_def)
  with assms show ?thesis
    by (auto simp: on_socket_error_def disconnected_def drop_connection_def Let_def emit_def)
qed

text \<open>
  C35. Hosts are tried in order. When every attempt fails, a client with \<open>k\<close> hosts
  opens a socket to each of the others once and then reports the failure once: after
  \<open>k\<close> failures it has given up.
\<close>

theorem hosts_tried_in_order:
  assumes "socket c = Some Connecting" "conn_ok c" "connectOptions c = Some opts" "opt_hosts opts = Some hs"
    and "hostIndex c < length hs" "opt_onFailure opts"
  shows "\<exists>c'. failures (length hs - hostIndex c) c = (c', None) \<and> socket c' = None \<and>
    log c' = log c @ map (\<lambda>i. SocketOpened (socket_url opts i)) [hostIndex c + 1..<length hs]
      @ [ConnectFailed CODE_SOCKET_ERROR]"
  using assms
proof (induction "length hs - hostIndex c - 1" arbitrary: c)
  case 0
  then have last: "hostIndex c + 1 = length hs" "length hs - hostIndex c = Suc 0" by simp_all
  from failure_last_host [OF "0.prems"(1-4) last(1) "0.prems"(6)] last show ?case by auto
next
  case (Suc k)
  then have more: "hostIndex c + 1 < length hs" by linarith
  from failure_next_host [OF Suc.prems(1-4) this] obtain c1 where
      c1: "on_socket_error c = (c1, None)" "socket c1 = Some Connecting" "conn_ok c1" "connectOptions c1 = Some opts"
        "hostIndex c1 = hostIndex c + 1" "log c1 = log c @ [SocketOpened (socket_url opts (hostIndex c + 1))]" by blast
  have "k = length hs - hostIndex c1 - 1" using Suc.hyps(2) c1(5) by simp
  from Suc.hyps(1) [OF this c1(2-4) Suc.prems(4) _ Suc.prems(6)] c1(5) more obtain c2 where
      c2: "failures (length hs - hostIndex c1) c1 = (c2, None)" "socket c2 = None"
        "log c2 = log c1 @ map (\<lambda>i. SocketOpened (socket_url opts i)) [hostIndex c1 + 1..<length hs]
          @ [ConnectFailed CODE_SOCKET_ERROR]" by auto
  have "failures (length hs - hostIndex c) c = failures (Suc (length hs - hostIndex c1)) c"
    using c1(5) more by (simp add: Suc_diff_Suc)
  also have "\<dots> = (c2, None)" using c1(1) c2(1) by simp
  finally have f: "failures (length hs - hostIndex c) c = (c2, None)" .
  have "[hostIndex c + 1..<length hs] = (hostIndex c + 1) # [hostIndex c1 + 1..<length hs]"
    using more c1(5) upt_conv_Cons by simp
  with f c2(2,3) c1(6) show ?case by simp
qed

text \<open>
  A silent server is noticed: when the ping timer of a connected client without
  further hosts fires twice and nothing was received in between, the client sends one
  ping, then closes the socket and reports the connection lost.
\<close>

theorem silent_server_detected:
  assumes "idle c" "conn_ok c" "receivePinger c = Some p" "isReset p" "connectOptions c = Some opts"
      "opt_hosts opts = None" "has_onConnectionLost c"
  shows "\<exists>c1 c2 b. doPing receivePinger put_receive_pinger c = (c1, None) \<and>
    encode (WireMessage PINGREQ) = Inr b \<and> log c1 = log c @ [Sent b] \<and>
    doPing receivePinger put_receive_pinger c1 = (c2, None) \<and>
    log c2 = log c1 @ [SocketClosed, ConnectionLost CODE_PING_TIMEOUT] \<and> \<not> connected c2 \<and> socket c2 = None"
proof -
  have "wf_wire (WireMessage PINGREQ)" by (simp add: wf_wire_def WireMessage_def wf_ident_def)
  then obtain b where b: "encode (WireMessage PINGREQ) = Inr b" using encode_packet by blast
  let ?c1 = "(emit (Sent b) c)\<lparr>receivePinger := Some (p\<lparr>isReset := False, pinger_armed := True\<rparr>)\<rparr>"
  have 1: "doPing receivePinger put_receive_pinger c = (?c1, None)"
    using assms b by (simp add: doPing_def put_receive_pinger_def idle_def Let_def emit_def)
  from assms(1) obtain sp where "sendPinger c = Some sp" by (auto simp: idle_def)
  then have "\<exists>c2. doPing receivePinger put_receive_pinger ?c1 = (c2, None) \<and>
      log c2 = log ?c1 @ [SocketClosed, ConnectionLost CODE_PING_TIMEOUT] \<and> \<not> connected c2 \<and> socket c2 = None"
    using assms by (auto simp: doPing_def put_receive_pinger_def disconnected_def drop_connection_def Let_def
        emit_def idle_def)
  with 1 b show ?thesis by (auto simp: emit_def)
qed

section \<open>Witnesses\<close>

definition example_idle :: client where
  "example_idle = example_connected\<lparr>has_onMessageArrived := True, has_onMessageDelivered := True,
     has_onConnectionLost := True\<rparr>"

definition example_qos2 :: message where
  "example_qos2 = (Message (PUint8Array [7]))\<lparr>destinationName := Some [0x74], qos := 2\<rparr>"

lemma example_idle_fields:
  "idle example_idle" "has_onMessageArrived example_idle" "has_onMessageDelivered example_idle"
  "has_onConnectionLost example_idle"
  "has_payloads example_idle" "sentMessages example_idle = []" "receivedMessages example_idle = []"
  "localStorage example_idle = []" "message_identifier example_idle = 1" "conn_ok example_idle"
  "receivePinger example_idle = Some \<lparr>pinger_interval = 0, isReset = True, pinger_armed = False\<rparr>"
  "connectOptions example_idle = Some example_options" "connectTimeout example_idle = Some False"
proof -
  obtain l where st: "example_connected =
      (fresh_client [0x68] 1 [0x63] [])\<lparr>connected := True, socket := Some Open,
        connectOptions := Some example_options,
        sendPinger := Some \<lparr>pinger_interval = 0, isReset = True, pinger_armed = False\<rparr>,
        receivePinger := Some \<lparr>pinger_interval = 0, isReset = True, pinger_armed = False\<rparr>,
        connectTimeout := Some False, log := l\<rparr>"
    by (rule example_connected_state)
  show "idle example_idle" "has_onMessageArrived example_idle" "has_onMessageDelivered example_idle"
    "has_onConnectionLost example_idle"
    "has_payloads example_idle" "sentMessages example_idle = []" "receivedMessages example_idle = []"
    "localStorage example_idle = []" "message_identifier example_idle = 1" "conn_ok example_idle"
    "receivePinger example_idle = Some \<lparr>pinger_interval = 0, isReset = True, pinger_armed = False\<rparr>"
    "connectOptions example_idle = Some example_options" "connectTimeout example_idle = Some False"
    unfolding example_idle_def st by (simp_all add: idle_def fresh_client_def has_payloads_def conn_ok_def)
qed

lemma example_qos2_wf: "wf_message example_qos2" "qos example_qos2 = 2"
  by (simp_all add: example_qos2_def Message_def wf_message_def wf_string_def example_not_surrogate wf_bytes_def)

lemma example_carries:
  "\<exists>pub. carries pub (Publication 5 example_qos2)" "carries (ack_bytes PUBREL 5) (Release 5)"
proof -
  let ?w = "(WireMessage PUBLISH)\<lparr>messageIdentifier := Some (Id 5), payloadMessage := Some example_qos2\<rparr>"
  have w: "wire_type ?w = PUBLISH" "payloadMessage ?w = Some example_qos2"
    "messageIdentifier ?w = (if 0 < qos example_qos2 then Some (Id 5) else None)"
    by (simp_all add: WireMessage_def example_qos2_wf)
  have d: "destinationName example_qos2 = Some [0x74]" "UTF8Length [0x74] < 65536"
    by (simp_all add: example_qos2_def example_not_surrogate)
  have "packet_body ?w = string_bytes [0x74] @ uint16_bytes 5 @ [7]"
    using w d by (simp add: packet_body_def opt_string_bytes_def ident_bytes_def example_qos2_def
        Message_def payload_bytes_def)
  then have len: "length (packet_body ?w) < 268435456"
    by (simp add: string_bytes_length example_not_surrogate)
  have "wf_wire ?w" using w example_qos2_wf by (simp add: wf_wire_def wf_ident_def)
  have dec: "decodeMessage (packet ?w) = Inr ((WireMessage PUBLISH)\<lparr>messageIdentifier := messageIdentifier ?w,
      payloadMessage := Some (example_qos2\<lparr>msg_payload := PUint8Array (payload_bytes (msg_payload example_qos2))\<rparr>)\<rparr>)"
    by (rule decode_packet_publish [OF w(1,2) example_qos2_wf(1) d w(3) _ len]) simp
  have "example_qos2\<lparr>msg_payload := PUint8Array (payload_bytes (msg_payload example_qos2))\<rparr> = example_qos2"
    by (simp add: example_qos2_def Message_def payload_bytes_def)
  with dec have "carries (packet ?w) (Publication 5 example_qos2)"
    using w(3) by (simp add: carries_def example_qos2_wf(2)) (simp add: example_qos2_def Message_def)
  then show "\<exists>pub. carries pub (Publication 5 example_qos2)" by blast
  show "carries (ack_bytes PUBREL 5) (Release 5)" by (simp add: carries_def)
qed

lemma qos2_inbound_refines_witness:
  "\<exists>pub c'. client_run [pub, ack_bytes PUBREL 5, ack_bytes PUBREL 5] example_idle = (c', None) \<and>
     log c' = log example_idle @ [Sent (ack_bytes PUBREC 5), Arrived (Some example_qos2),
       Sent (ack_bytes PUBCOMP 5), Sent (ack_bytes PUBCOMP 5)]"
proof -
  obtain pub where p: "carries pub (Publication 5 example_qos2)" using example_carries(1) by blast
  have "list_all2 carries [pub, ack_bytes PUBREL 5, ack_bytes PUBREL 5]
      [Publication 5 example_qos2, Release 5, Release 5]" using p example_carries(2) by simp
  from qos2_inbound_refines [OF this example_idle_fields(1,2,5)] show ?thesis
    by (auto simp: Let_def)
qed

lemma qos2_exactly_once_witness:
  "\<exists>pub c'. client_run (replicate 3 pub @ replicate 2 (ack_bytes PUBREL 5)) example_idle = (c', None) \<and>
     arrivals (log c') = arrivals (log example_idle) @ [Arrived (Some example_qos2)]"
proof -
  obtain pub where p: "carries pub (Publication 5 example_qos2)" using example_carries(1) by blast
  from qos2_exactly_once [OF example_idle_fields(1,2,5) p example_carries(2), of 2 1]
  show ?thesis by (auto simp: numeral_3_eq_3 numeral_2_eq_2)
qed

lemma qos2_outbound_witness:
  "\<exists>b c1. send example_qos2 example_idle = (c1, None) \<and> log c1 = log example_idle @ [Sent b] \<and>
     map_of (localStorage c1) (storage_key sent_prefix example_idle (Some (Id 1))) \<noteq> None"
proof -
  have len: "length (sentMessages example_idle) \<le> maxMessageIdentifier" by (simp add: example_idle_fields)
  have f: "1 = free_identifier (sentMessages example_idle) (message_identifier example_idle)"
    by (simp add: example_idle_fields free_identifier.simps)
  have one: "(1::nat) < 65536" by simp
  from qos2_outbound [OF example_idle_fields(1,3) len example_qos2_wf f one] show ?thesis by blast
qed

definition busy :: "nat \<Rightarrow> messages" where
  "busy n = map (\<lambda>k. (Some (Id k), WireMessage SUBSCRIBE)) [1..<n]"

lemma busy_lookup: "map_of (busy n) (Some (Id k)) \<noteq> None \<longleftrightarrow> 1 \<le> k \<and> k < n"
  by (auto simp: busy_def map_of_eq_None_iff image_iff)

lemma busy_length: "length (busy n) = n - 1"
  by (simp add: busy_def)

lemma identifier_search_witness: "free_identifier (busy 3) 1 = 3"
proof -
  let ?f = "free_identifier (busy 3) 1"
  have "map_of (busy 3) (Some (Id ?f)) = None" "1 \<le> ?f" "?f \<le> 1 + length (busy 3)"
    using identifier_search [of "busy 3" 1] by blast+
  then show ?thesis using busy_lookup [of 3 ?f] by (simp add: busy_length)
qed

lemma identifier_overflows_witness:
  "\<exists>c' w'. requires_ack (WireMessage SUBSCRIBE) (example_idle\<lparr>sentMessages := busy 65536\<rparr>) = (c', Inr w') \<and>
     messageIdentifier w' = Some (Id 65536)"
proof -
  let ?c = "example_idle\<lparr>sentMessages := busy 65536\<rparr>"
  have s: "sentMessages ?c = busy 65536" by simp
  have 1: "message_identifier ?c = 1" using example_idle_fields(9) by simp
  have 2: "\<forall>k. 1 \<le> k \<and> k < 65536 \<longrightarrow> map_of (sentMessages ?c) (Some (Id k)) \<noteq> None"
    unfolding s busy_lookup by blast
  have 3: "map_of (sentMessages ?c) (Some (Id 65536)) = None"
    unfolding s using busy_lookup [of 65536 65536] by simp
  have 4: "length (sentMessages ?c) \<le> 65536" unfolding s busy_length by simp
  obtain c' w' where r: "requires_ack (WireMessage SUBSCRIBE) ?c = (c', Inr w')"
    using 4 unfolding requires_ack_def maxMessageIdentifier_def Let_def by (simp add: WireMessage_def)
  with identifier_overflows [OF 1 2 3 4 r] show ?thesis by blast
qed

lemma queue_reversed_on_error_witness:
  "\<exists>c'. process_queue (example_idle\<lparr>msg_queue := [reply PUBACK (Some (Id 1)), WireMessage PUBLISH,
       reply PUBACK (Some (Id 2)), reply PUBACK (Some (Id 3))]\<rparr>) = (c', Some TypeError) \<and>
     msg_queue c' = [reply PUBACK (Some (Id 3)), reply PUBACK (Some (Id 2))]"
proof -
  let ?c = "example_idle\<lparr>msg_queue := [reply PUBACK (Some (Id 1)), WireMessage PUBLISH,
       reply PUBACK (Some (Id 2)), reply PUBACK (Some (Id 3))]\<rparr>"
  have c: "socket ?c = Some Open" "sendPinger ?c \<noteq> None" "\<not> notify_msg_sent ?c"
    using example_idle_fields(1) by (auto simp: idle_def)
  have q: "msg_queue ?c = [reply PUBACK (Some (Id 1))] @ WireMessage PUBLISH #
      [reply PUBACK (Some (Id 2)), reply PUBACK (Some (Id 3))]" by simp
  have e: "list_all2 (\<lambda>w b. encode w = Inr b) [reply PUBACK (Some (Id 1))] [ack_bytes PUBACK 1]"
    using encode_reply [of PUBACK 1] by simp
  have bad: "encode (WireMessage PUBLISH) = Inl TypeError"
    by (simp add: encode_def remaining_length_def WireMessage_def the_prop_def)
  from queue_reversed_on_error [OF c q e bad] show ?thesis by auto
qed

definition example_in_flight :: messages where
  "example_in_flight =
     [(Some (Id 1), (reply PUBLISH (Some (Id 1)))\<lparr>wire_sequence := Some 2, pubRecReceived := True\<rparr>),
      (Some (Id 2), (reply PUBLISH (Some (Id 2)))\<lparr>wire_sequence := Some 1, pubRecReceived := True\<rparr>)]"

lemma reconnect_resends_in_order_witness:
  "\<exists>c' ws. on_wire ((WireMessage CONNACK)\<lparr>returnCode := Some 0\<rparr>)
       (example_idle\<lparr>connectOptions := Some (example_options\<lparr>opt_cleanSession := False\<rparr>),
         sentMessages := example_in_flight\<rparr>) = (c', None) \<and>
     sorted_wrt seq_lt ws \<and> mset ws = mset (map snd example_in_flight)"
proof -
  let ?c = "example_idle\<lparr>connectOptions := Some (example_options\<lparr>opt_cleanSession := False\<rparr>),
         sentMessages := example_in_flight\<rparr>"
  let ?w = "(WireMessage CONNACK)\<lparr>returnCode := Some 0\<rparr>"
  have c: "socket ?c = Some Open" "msg_queue ?c = []" "\<not> notify_msg_sent ?c" "sendPinger ?c \<noteq> None"
      "receivePinger ?c \<noteq> None" "connectTimeout ?c \<noteq> None"
      "connectOptions ?c = Some (example_options\<lparr>opt_cleanSession := False\<rparr>)"
    using example_idle_fields(1,13) by (auto simp: idle_def)
  have o: "\<not> opt_cleanSession (example_options\<lparr>opt_cleanSession := False\<rparr>)"
    "\<not> opt_onSuccess (example_options\<lparr>opt_cleanSession := False\<rparr>)" by (simp_all add: example_options_def)
  have w: "wire_type ?w = CONNACK" "returnCode ?w = Some 0" by (simp_all add: WireMessage_def)
  have s: "\<forall>s \<in> snd ` set (sentMessages ?c). wire_sequence s \<noteq> None"
    "distinct (map (wire_sequence \<circ> snd) (sentMessages ?c))"
    by (simp_all add: example_in_flight_def)
  have e: "\<forall>s \<in> snd ` set (sentMessages ?c). \<exists>b. encode (resend_message s) = Inr b"
    using encode_reply [of PUBREL 1] encode_reply [of PUBREL 2]
    by (simp add: example_in_flight_def resend_message_def reply_def WireMessage_def)
  from reconnect_resends_in_order [OF c o w s e] show ?thesis by auto
qed

definition example_wire :: wire where
  "example_wire = (WireMessage PUBLISH)\<lparr>messageIdentifier := Some (Id 3), wire_sequence := Some 4,
     payloadMessage := Some example_qos2\<rparr>"

lemma reload_restores_witness:
  "\<exists>d. ClientImpl example_browser [0x68] 1 [0x63]
       (saved (fresh_client [0x68] 1 [0x63] []) [(3, example_wire, example_qos2, [7])]) = Inr d \<and>
     map_of (sentMessages d) (Some (Id 3)) = Some (reloaded example_wire example_qos2 [7])"
proof -
  let ?items = "[(3, example_wire, example_qos2, [7])]"
  have 1: "\<forall>(n, w, m, b) \<in> set ?items. wf_message m \<and> wf_bytes b \<and> messageIdentifier w = Some (Id n)"
    by (simp add: example_qos2_wf wf_bytes_def example_wire_def)
  have 2: "distinct (map fst ?items)" by simp
  from reload_restores [OF 1 2, of "fresh_client [0x68] 1 [0x63] []" "[0x68]" 1 "[0x63]" example_browser]
  show ?thesis by (auto simp: fresh_client_def example_browser_def)
qed

lemma reload_restarts_sequence_witness:
  "\<exists>c c' w'. ClientImpl example_browser [0x68] 1 [0x63]
       (saved (fresh_client [0x68] 1 [0x63] []) [(3, example_wire, example_qos2, [7])]) = Inr c \<and>
     requires_ack ((WireMessage PUBLISH)\<lparr>payloadMessage := Some example_qos2\<rparr>) c = (c', Inr w') \<and>
     sort_by_seq [reloaded example_wire example_qos2 [7], w'] = [w', reloaded example_wire example_qos2 [7]]"
proof -
  let ?items = "[(3, example_wire, example_qos2, [7])]"
  let ?f = "fresh_client [0x68] 1 [0x63] []"
  let ?d = "fresh_client [0x68] 1 [0x63] (saved ?f ?items)"
  have ok: "\<forall>(n, w, m, b) \<in> set ?items. wf_message m \<and> wf_bytes b \<and> messageIdentifier w = Some (Id n)"
    by (simp add: example_qos2_wf wf_bytes_def example_wire_def)
  have "same_key ?d ?f" by (simp add: same_key_def fresh_client_def)
  from restore_all_saved [OF ok this]
  have c: "ClientImpl example_browser [0x68] 1 [0x63] (saved ?f ?items) = Inr
      (?d\<lparr>sentMessages := [(Some (Id 3), reloaded example_wire example_qos2 [7])]\<rparr>)"
    by (simp add: ClientImpl_def example_browser_def) (simp add: fresh_client_def)
  let ?w = "(WireMessage PUBLISH)\<lparr>payloadMessage := Some example_qos2\<rparr>"
  have w: "is_stored ?w" "wire_sequence ?w = None"
    by (simp_all add: is_stored_def WireMessage_def example_qos2_def Message_def)
  have old: "wire_sequence (reloaded example_wire example_qos2 [7]) = Some 4"
    by (simp add: reloaded_def example_wire_def)
  have len: "length (sentMessages (?d\<lparr>sentMessages := [(Some (Id 3), reloaded example_wire example_qos2 [7])]\<rparr>))
      \<le> maxMessageIdentifier" by (simp add: maxMessageIdentifier_def)
  have look: "map_of (sentMessages (?d\<lparr>sentMessages := [(Some (Id 3), reloaded example_wire example_qos2 [7])]\<rparr>))
      (Some (Id 3)) = Some (reloaded example_wire example_qos2 [7])" by simp
  have four: "(1::nat) < 4" by simp
  from reload_restarts_sequence [OF c w len look old four] c show ?thesis by blast
qed

lemma storage_key_collision_witness:
  "\<exists>c. ClientImpl example_browser [0x68] 1 [0x63]
       [(storage_key sent_prefix (fresh_client [0x68] 1 ([0x63] @ js '':'' @ [0x64]) []) (Some (Id 3)),
         stored_form True example_wire example_qos2 (PUint8Array [7]))] = Inr c \<and>
     map_of (sentMessages c) (Some (Id 3)) = Some (reloaded example_wire example_qos2 [7])"
proof -
  let ?d = "fresh_client [0x68] 1 ([0x63] @ js '':'' @ [0x64]) []"
  have d: "cl_host ?d = [0x68]" "cl_port ?d = 1" "cl_clientId ?d = [0x63] @ js '':'' @ [0x64]"
    by (simp_all add: fresh_client_def)
  have b: "has_WebSocket example_browser" "has_localStorage example_browser" "has_ArrayBuffer example_browser"
    by (simp_all add: example_browser_def)
  have w: "wf_bytes [7]" "messageIdentifier example_wire = Some (Id 3)"
    by (simp_all add: wf_bytes_def example_wire_def)
  show ?thesis by (rule storage_key_collision [OF example_qos2_wf(1) w d b])
qed

lemma repeated_pubcomp_throws_witness:
  "snd (on_socket_message (ack_bytes PUBCOMP 9) example_idle) = Some TypeError"
  using repeated_pubcomp_throws [of example_idle 9] example_idle_fields by simp

definition example_hosts :: connect_options where
  "example_hosts = example_options\<lparr>opt_hosts := Some [[0x61], [0x62], [0x63]], opt_ports := [1, 2, 3],
     opt_onFailure := True\<rparr>"

lemma hosts_tried_in_order_witness:
  "\<exists>c'. failures 3 (fst (connect example_hosts (fresh_client [0x68] 1 [0x63] []))) = (c', None) \<and>
     log c' = map (\<lambda>i. SocketOpened (socket_url example_hosts i)) [0, 1, 2] @ [ConnectFailed 7]"
proof -
  let ?c = "fst (connect example_hosts (fresh_client [0x68] 1 [0x63] []))"
  have c: "socket ?c = Some Connecting" "conn_ok ?c" "connectOptions ?c = Some example_hosts"
    "opt_hosts example_hosts = Some [[0x61], [0x62], [0x63]]"
    "hostIndex ?c < length [[0x61], [0x62], [0x63 :: nat]]" "opt_onFailure example_hosts"
    and i: "hostIndex ?c = 0" "log ?c = [SocketOpened (socket_url example_hosts 0)]"
    by (simp_all add: connect_def doConnect_def fresh_client_def example_hosts_def example_options_def
        emit_def Let_def conn_ok_def socket_url_def)
  have "[Suc 0..<3] = [1, 2]" by (simp add: upt_rec)
  with hosts_tried_in_order [OF c] i show ?thesis by (auto simp: numeral_3_eq_3 numeral_2_eq_2)
qed

lemma silent_server_detected_witness:
  "\<exists>c1 c2. doPing receivePinger put_receive_pinger example_idle = (c1, None) \<and>
     doPing receivePinger put_receive_pinger c1 = (c2, None) \<and> \<not> connected c2"
proof -
  have o: "isReset \<lparr>pinger_interval = 0, isReset = True, pinger_armed = False\<rparr>" "opt_hosts example_options = None"
    by (simp_all add: example_options_def)
  from silent_server_detected [OF example_idle_fields(1,10,11) o(1) example_idle_fields(12) o(2) example_idle_fields(4)]
  show ?thesis by blast
qed

end
