(* ===== verification/MqttApi.thy ===== *)
theory MqttApi
  imports JsValue MqttDelivery
begin

text \<open>
  The public interface of \<open>mqttws31.js\<close>: \<open>ERROR\<close>, \<open>format\<close>, \<open>validate\<close>, the
  tracing of \<open>ClientImpl\<close>, and the objects \<open>Client\<close> and \<open>Message\<close> an application
  works with. An operation checks the values it is given and calls the operation of
  \<open>ClientImpl\<close>; options with numbers the state of \<open>ClientImpl\<close> does not hold
  (negative, fractional or not finite) are accepted by the checks, and what the client
  does with them is not modelled (\<open>None\<close>). The trace buffer holds the values traced; the
  entries of the operations of \<open>ClientImpl\<close> are left out.
\<close>

section \<open>Errors\<close>

datatype error_kind =
    OK | CONNECT_TIMEOUT | SUBSCRIBE_TIMEOUT | UNSUBSCRIBE_TIMEOUT | PING_TIMEOUT
  | INTERNAL_ERROR | CONNACK_RETURNCODE | SOCKET_ERROR | SOCKET_CLOSE | MALFORMED_UTF
  | UNSUPPORTED | INVALID_STATE | INVALID_TYPE | INVALID_ARGUMENT | UNSUPPORTED_OPERATION
  | INVALID_STORED_DATA | INVALID_MQTT_MESSAGE_TYPE | MALFORMED_UNICODE

fun ERROR :: "error_kind \<Rightarrow> nat \<times> jsstring" where
  "ERROR OK = (0, js ''AMQJSC0000I OK.'')"
| "ERROR CONNECT_TIMEOUT = (1, js ''AMQJSC0001E Connect timed out.'')"
| "ERROR SUBSCRIBE_TIMEOUT = (2, js ''AMQJS0002E Subscribe timed out.'')"
| "ERROR UNSUBSCRIBE_TIMEOUT = (3, js ''AMQJS0003E Unsubscribe timed out.'')"
| "ERROR PING_TIMEOUT = (4, js ''AMQJS0004E Ping timed out.'')"
| "ERROR INTERNAL_ERROR = (5, js ''AMQJS0005E Internal error.'')"
| "ERROR CONNACK_RETURNCODE = (6, js ''AMQJS0006E Bad Connack return code:{0} {1}.'')"
| "ERROR SOCKET_ERROR = (7, js ''AMQJS0007E Socket error:{0}.'')"
| "ERROR SOCKET_CLOSE = (8, js ''AMQJS0008I Socket closed.'')"
| "ERROR MALFORMED_UTF = (9, js ''AMQJS0009E Malformed UTF data:{0} {1} {2}.'')"
| "ERROR UNSUPPORTED = (10, js ''AMQJS0010E {0} is not supported by this browser.'')"
| "ERROR INVALID_STATE = (11, js ''AMQJS0011E Invalid state {0}.'')"
| "ERROR INVALID_TYPE = (12, js ''AMQJS0012E Invalid type {0} for {1}.'')"
| "ERROR INVALID_ARGUMENT = (13, js ''AMQJS0013E Invalid argument {0} for {1}.'')"
| "ERROR UNSUPPORTED_OPERATION = (14, js ''AMQJS0014E Unsupported operation.'')"
| "ERROR INVALID_STORED_DATA = (15, js ''AMQJS0015E Invalid data in local storage key={0} value={1}.'')"
| "ERROR INVALID_MQTT_MESSAGE_TYPE = (16, js ''AMQJS0016E Invalid MQTT message type {0}.'')"
| "ERROR MALFORMED_UNICODE = (17, js ''AMQJS0017E Malformed Unicode string:{0} {1}.'')"

fun CONNACK_RC :: "nat \<Rightarrow> jsstring option" where
  "CONNACK_RC n = (if n = 0 then Some (js ''Connection Accepted'')
     else if n = 1 then Some (js ''Connection Refused: unacceptable protocol version'')
     else if n = 2 then Some (js ''Connection Refused: identifier rejected'')
     else if n = 3 then Some (js ''Connection Refused: server unavailable'')
     else if n = 4 then Some (js ''Connection Refused: bad user name or password'')
     else if n = 5 then Some (js ''Connection Refused: not authorized'')
     else None)"

text \<open>\<open>text.indexOf(field)\<close>.\<close>

fun indexOf :: "jsstring \<Rightarrow> jsstring \<Rightarrow> nat option" where
  "indexOf [] f = (if f = [] then Some 0 else None)"
| "indexOf (c # s) f = (if starts_with (c # s) f then Some 0 else map_option Suc (indexOf s f))"

definition field_text :: "nat \<Rightarrow> jsstring" where
  "field_text i = js ''{'' @ dec_string i @ js ''}''"

definition format_field :: "nat \<Rightarrow> jsstring \<Rightarrow> jsstring \<Rightarrow> jsstring" where
  "format_field i sub text =
     (case indexOf text (field_text i) of
        None \<Rightarrow> text
      | Some start \<Rightarrow>
          if start > 0 then take start text @ sub @ drop (start + length (field_text i)) text
          else text)"

fun format_loop :: "nat \<Rightarrow> jsval list \<Rightarrow> jsstring \<Rightarrow> jsstring" where
  "format_loop i [] text = text"
| "format_loop i (v # vs) text = format_loop (Suc i) vs (format_field i (value_text v) text)"

definition format :: "error_kind \<Rightarrow> jsval list \<Rightarrow> jsstring" where
  "format error substitutions = format_loop 0 substitutions (snd (ERROR error))"

text \<open>
  What the interface throws: an error with a text made by \<open>format\<close>, the same text as a
  bare string, an error with a literal text, or the exception of an operation below.
\<close>

datatype api_error =
    FormatError error_kind "jsval list"
  | FormatString error_kind "jsval list"
  | PlainError jsstring
  | CoreError js_error

definition typed_string :: "string \<Rightarrow> jsval" where
  "typed_string s = String (js s)"

section \<open>validate\<close>

fun known_properties :: "(jsstring \<times> jsstring) list \<Rightarrow> jsstring" where
  "known_properties [] = []"
| "known_properties ((k, t) # ks) = js '' '' @ k @ known_properties ks"

fun validate :: "(jsstring \<times> jsval) list \<Rightarrow> (jsstring \<times> jsstring) list \<Rightarrow> api_error option" where
  "validate [] keys = None"
| "validate ((key, v) # obj) keys =
     (case map_of keys key of
        Some t \<Rightarrow>
          if typeof v \<noteq> t then Some (FormatError INVALID_TYPE [String (typeof v), String key])
          else validate obj keys
      | None \<Rightarrow>
          Some (PlainError (js ''Unknown property, '' @ key @ js ''. Valid properties are:''
                  @ known_properties keys)))"

section \<open>Constructing a client\<close>

fun client_id_length :: "jsstring \<Rightarrow> nat" where
  "client_id_length [] = 0"
| "client_id_length (c # s) = Suc (client_id_length (if is_high_surrogate c then tl s else s))"

text \<open>
  The loop over \<open>clientId\<close> runs before its type is checked: reading the length of
  undefined or null throws, and so does \<open>charCodeAt\<close> on anything else with a positive
  length.
\<close>

fun length_positive :: "jsval \<Rightarrow> bool" where
  "length_positive (Array vs) = (vs \<noteq> [])"
| "length_positive (Function n t) = (n > 0)"
| "length_positive (BufferObj (PUint8Array b)) = (b \<noteq> [])"
| "length_positive (BufferObj (PTypedArray es w b)) = (es \<noteq> [])"
| "length_positive (Object ps) =
     (case map_of ps (js ''length'') of Some (Number n) \<Rightarrow> num_positive n | _ \<Rightarrow> False)"
| "length_positive v = False"

definition check_client_id :: "jsval \<Rightarrow> api_error + jsstring" where
  "check_client_id newClientId =
     (case newClientId of
        Undefined \<Rightarrow> Inl (CoreError TypeError)
      | Null \<Rightarrow> Inl (CoreError TypeError)
      | String s \<Rightarrow>
          if client_id_length s < 1 \<or> client_id_length s > 23
          then Inl (FormatError INVALID_ARGUMENT [newClientId, typed_string ''clientId'']) else Inr s
      | _ \<Rightarrow>
          if length_positive newClientId then Inl (CoreError TypeError)
          else Inl (FormatError INVALID_ARGUMENT [newClientId, typed_string ''clientId'']))"

definition check_client :: "jsval \<Rightarrow> jsval \<Rightarrow> jsval \<Rightarrow> api_error + (jsstring \<times> jsnum \<times> jsstring)" where
  "check_client host port newClientId =
     (case host of
        String h \<Rightarrow>
          (case port of
             Number p \<Rightarrow>
               if num_negative p then
                 Inl (FormatError INVALID_TYPE [String (typeof port), typed_string ''port''])
               else bindE (check_client_id newClientId) (\<lambda>cid. Inr (h, p, cid))
           | _ \<Rightarrow> Inl (FormatError INVALID_TYPE [String (typeof port), typed_string ''port'']))
      | _ \<Rightarrow> Inl (FormatError INVALID_TYPE [String (typeof host), typed_string ''host'']))"

datatype trace_value =
    TText jsstring | TDate nat | TNumber nat | TUndefined | TIdent "ident option" | TWire wire

record api_client =
  api_core :: client
  api_onConnectionLost :: jsval
  api_onMessageDelivered :: jsval
  api_onMessageArrived :: jsval
  api_trace :: "trace_value list option"

definition Client ::
  "browser \<Rightarrow> (jsstring \<times> stored_message) list \<Rightarrow> jsval \<Rightarrow> jsval \<Rightarrow> jsval
     \<Rightarrow> (api_error + api_client) option"
where
  "Client br storage host port newClientId =
     (case check_client host port newClientId of
        Inl e \<Rightarrow> Some (Inl e)
      | Inr (h, Whole p, cid) \<Rightarrow>
          Some (case ClientImpl br h (nat p) cid storage of
                  Inl e \<Rightarrow> Inl (CoreError e)
                | Inr c \<Rightarrow> Inr \<lparr>api_core = c, api_onConnectionLost = Undefined,
                    api_onMessageDelivered = Undefined, api_onMessageArrived = Undefined,
                    api_trace = None\<rparr>)
      | Inr _ \<Rightarrow> None)"

type_synonym api_outcome = "api_client \<times> api_error option"

section \<open>Properties of a client\<close>

datatype client_prop =
  PropHost | PropPort | PropClientId | PropOnConnectionLost | PropOnMessageDelivered
  | PropOnMessageArrived

fun client_get :: "client_prop \<Rightarrow> api_client \<Rightarrow> jsval" where
  "client_get PropHost a = String (cl_host (api_core a))"
| "client_get PropPort a = Number (Whole (int (cl_port (api_core a))))"
| "client_get PropClientId a = String (cl_clientId (api_core a))"
| "client_get PropOnConnectionLost a = api_onConnectionLost a"
| "client_get PropOnMessageDelivered a = api_onMessageDelivered a"
| "client_get PropOnMessageArrived a = api_onMessageArrived a"

fun is_function :: "jsval \<Rightarrow> bool" where
  "is_function (Function n t) = True"
| "is_function v = False"

fun client_set :: "client_prop \<Rightarrow> jsval \<Rightarrow> api_client \<Rightarrow> api_outcome" where
  "client_set PropOnConnectionLost v a =
     (if is_function v then
        (a\<lparr>api_onConnectionLost := v, api_core := (api_core a)\<lparr>has_onConnectionLost := True\<rparr>\<rparr>, None)
      else (a, Some (FormatError INVALID_TYPE [String (typeof v), typed_string ''onConnectionLost''])))"
| "client_set PropOnMessageDelivered v a =
     (if is_function v then
        (a\<lparr>api_onMessageDelivered := v, api_core := (api_core a)\<lparr>has_onMessageDelivered := True\<rparr>\<rparr>, None)
      else (a, Some (FormatError INVALID_TYPE [String (typeof v), typed_string ''onMessageDelivered''])))"
| "client_set PropOnMessageArrived v a =
     (if is_function v then
        (a\<lparr>api_onMessageArrived := v, api_core := (api_core a)\<lparr>has_onMessageArrived := True\<rparr>\<rparr>, None)
      else (a, Some (FormatError INVALID_TYPE [String (typeof v), typed_string ''onMessageArrived''])))"
| "client_set prop v a = (a, Some (FormatError UNSUPPORTED_OPERATION []))"

section \<open>Client.connect\<close>

definition connect_keys :: "(jsstring \<times> jsstring) list" where
  "connect_keys = map (map_prod js js)
     [(''timeout'', ''number''), (''userName'', ''string''), (''password'', ''string''),
      (''willMessage'', ''object''), (''keepAliveInterval'', ''number''),
      (''cleanSession'', ''boolean''), (''useSSL'', ''boolean''),
      (''invocationContext'', ''object''), (''onSuccess'', ''function''),
      (''onFailure'', ''function''), (''hosts'', ''object''), (''ports'', ''object'')]"

text \<open>
  The will message: the getter that is read to provoke an exception, \<open>stringPayload\<close>,
  is no property of a \<open>Message\<close>, so nothing happens.
\<close>

definition check_will :: "jsval \<Rightarrow> api_error option" where
  "check_will will =
     (if truthy will then
        (case will of
           MessageObj m \<Rightarrow>
             (case destinationName m of
                None \<Rightarrow> Some (FormatError INVALID_TYPE
                  [typed_string ''undefined'', typed_string ''connectOptions.willMessage.destinationName''])
              | Some d \<Rightarrow> None)
         | _ \<Rightarrow> Some (FormatError INVALID_TYPE [will, typed_string ''connectOptions.willMessage'']))
      else None)"

definition item_name :: "string \<Rightarrow> nat \<Rightarrow> jsval" where
  "item_name s i = String (js s @ js ''['' @ dec_string i @ js '']'')"

fun is_string :: "jsval \<Rightarrow> bool" where
  "is_string (String s) = True"
| "is_string v = False"

fun is_port :: "jsval \<Rightarrow> bool" where
  "is_port (Number n) = (\<not> num_negative n)"
| "is_port v = False"

fun check_pairs :: "nat \<Rightarrow> (jsval \<times> jsval) list \<Rightarrow> api_error option" where
  "check_pairs i [] = None"
| "check_pairs i ((h, p) # hps) =
     (if \<not> is_string h then
        Some (FormatError INVALID_TYPE [String (typeof h), item_name ''connectOptions.hosts'' i])
      else if \<not> is_port p then
        Some (FormatError INVALID_TYPE [String (typeof p), item_name ''connectOptions.ports'' i])
      else check_pairs (Suc i) hps)"

definition hosts_error :: "jsval \<Rightarrow> string \<Rightarrow> api_error option" where
  "hosts_error v s = Some (FormatError INVALID_ARGUMENT [v, typed_string s])"

definition check_hosts :: "jsval \<Rightarrow> jsval \<Rightarrow> api_error option" where
  "check_hosts hosts ports =
     (if \<not> truthy hosts then None
      else if \<not> truthy ports then hosts_error ports ''connectOptions.ports''
      else case hosts of
        Array hs \<Rightarrow>
          (case ports of
             Array ps \<Rightarrow>
               if length hs < 1 then hosts_error hosts ''connectOptions.hosts''
               else if length hs \<noteq> length ps then hosts_error ports ''connectOptions.ports''
               else check_pairs 0 (zip hs ps)
           | _ \<Rightarrow> hosts_error ports ''connectOptions.ports'')
      | _ \<Rightarrow> hosts_error hosts ''connectOptions.hosts'')"

definition default_prop :: "string \<Rightarrow> jsval \<Rightarrow> jsval \<Rightarrow> jsval" where
  "default_prop k x v = (if get_prop v (js k) = Undefined then set_prop v (js k) x else v)"

definition or_empty :: "jsval \<Rightarrow> jsval" where
  "or_empty v = (if truthy v then v else Object [])"

definition orElse :: "api_error option \<Rightarrow> api_error + 'a \<Rightarrow> api_error + 'a" where
  "orElse e r = (case e of Some x \<Rightarrow> Inl x | None \<Rightarrow> r)"

definition check_connect :: "jsval \<Rightarrow> api_error + jsval" where
  "check_connect options =
     (let o0 = or_empty options
      in orElse (validate (own_props o0) connect_keys)
        (let o1 = default_prop ''keepAliveInterval'' (Number (Whole 60)) o0
         in orElse (check_will (get_prop o1 (js ''willMessage'')))
           (let o2 = default_prop ''cleanSession'' (Boolean True) o1
            in orElse (check_hosts (get_prop o2 (js ''hosts'')) (get_prop o2 (js ''ports'')))
              (Inr o2))))"

text \<open>The options as \<open>ClientImpl\<close> reads them, when its state can hold their numbers.\<close>

fun nat_number :: "jsval \<Rightarrow> nat option" where
  "nat_number Undefined = Some 0"
| "nat_number (Number (Whole n)) = (if n < 0 then None else Some (nat n))"
| "nat_number v = None"

fun string_value :: "jsval \<Rightarrow> jsstring option" where
  "string_value (String s) = Some s"
| "string_value v = None"

fun will_value :: "jsval \<Rightarrow> message option" where
  "will_value (MessageObj m) = Some m"
| "will_value v = None"

fun array_items :: "jsval \<Rightarrow> jsval list" where
  "array_items (Array vs) = vs"
| "array_items v = []"

fun all_some :: "'a option list \<Rightarrow> 'a list option" where
  "all_some [] = Some []"
| "all_some (x # xs) =
     (case x of None \<Rightarrow> None | Some y \<Rightarrow> map_option (Cons y) (all_some xs))"

definition host_values :: "jsval \<Rightarrow> jsstring list option" where
  "host_values v = (if truthy v then Some (map value_text (array_items v)) else None)"

definition to_options :: "jsval \<Rightarrow> connect_options option" where
  "to_options v =
     (let prop = (\<lambda>k. get_prop v (js k))
      in case (nat_number (prop ''timeout''), nat_number (prop ''keepAliveInterval''),
               all_some (map nat_number (array_items (prop ''ports'')))) of
           (Some t, Some k, Some ps) \<Rightarrow>
             Some \<lparr>opt_timeout = t, opt_userName = string_value (prop ''userName''),
               opt_password = string_value (prop ''password''),
               opt_willMessage = will_value (prop ''willMessage''), opt_keepAliveInterval = k,
               opt_cleanSession = truthy (prop ''cleanSession''),
               opt_useSSL = truthy (prop ''useSSL''), opt_onSuccess = truthy (prop ''onSuccess''),
               opt_onFailure = truthy (prop ''onFailure''), opt_hosts = host_values (prop ''hosts''),
               opt_ports = ps\<rparr>
         | _ \<Rightarrow> None)"

definition run_core :: "(client \<Rightarrow> outcome) \<Rightarrow> api_client \<Rightarrow> api_outcome" where
  "run_core f a = (case f (api_core a) of (c, e) \<Rightarrow> (a\<lparr>api_core := c\<rparr>, map_option CoreError e))"

definition Client_connect :: "jsval \<Rightarrow> api_client \<Rightarrow> api_outcome option" where
  "Client_connect options a =
     (case check_connect options of
        Inl e \<Rightarrow> Some (a, Some e)
      | Inr v \<Rightarrow> map_option (\<lambda>opts. run_core (connect opts) a) (to_options v))"

section \<open>Client.subscribe, unsubscribe, send, disconnect\<close>

definition unsubscribe_keys :: "(jsstring \<times> jsstring) list" where
  "unsubscribe_keys = map (map_prod js js)
     [(''invocationContext'', ''object''), (''onSuccess'', ''function''),
      (''onFailure'', ''function''), (''timeout'', ''number'')]"

definition subscribe_keys :: "(jsstring \<times> jsstring) list" where
  "subscribe_keys = map (map_prod js js)
     [(''qos'', ''number''), (''invocationContext'', ''object''), (''onSuccess'', ''function''),
      (''onFailure'', ''function''), (''timeout'', ''number'')]"

definition check_timeout :: "string \<Rightarrow> jsval \<Rightarrow> api_error option" where
  "check_timeout name v =
     (if truthy (get_prop v (js ''timeout'')) \<and> \<not> truthy (get_prop v (js ''onFailure''))
      then Some (PlainError (js name @ js ''.timeout specified with no onFailure callback.''))
      else None)"

fun qos_value :: "jsval \<Rightarrow> nat option" where
  "qos_value (Number (Whole n)) = (if n = 0 \<or> n = 1 \<or> n = 2 then Some (nat n) else None)"
| "qos_value v = None"

definition check_qos :: "jsval \<Rightarrow> api_error option" where
  "check_qos v =
     (if v \<noteq> Undefined \<and> qos_value v = None
      then Some (FormatError INVALID_ARGUMENT [v, typed_string ''subscribeOptions.qos'']) else None)"

definition check_filter :: "jsval \<Rightarrow> api_error + jsstring" where
  "check_filter v =
     (case v of String s \<Rightarrow> Inr s | _ \<Rightarrow> Inl (PlainError (js ''Invalid argument:'' @ value_text v)))"

definition check_subscribe :: "jsval \<Rightarrow> jsval \<Rightarrow> api_error + (jsstring \<times> jsval)" where
  "check_subscribe topicFilter options =
     bindE (check_filter topicFilter) (\<lambda>f.
     let v = or_empty options
     in orElse (validate (own_props v) subscribe_keys)
       (orElse (check_timeout ''subscribeOptions'' v)
         (orElse (check_qos (get_prop v (js ''qos''))) (Inr (f, v)))))"

definition check_unsubscribe :: "jsval \<Rightarrow> jsval \<Rightarrow> api_error + (jsstring \<times> jsval)" where
  "check_unsubscribe topicFilter options =
     bindE (check_filter topicFilter) (\<lambda>f.
     let v = or_empty options
     in orElse (validate (own_props v) unsubscribe_keys)
       (orElse (check_timeout ''unsubscribeOptions'' v) (Inr (f, v))))"

definition to_request :: "jsval \<Rightarrow> request_options option" where
  "to_request v =
     map_option (\<lambda>t. \<lparr>req_qos = qos_value (get_prop v (js ''qos'')),
         req_onSuccess = truthy (get_prop v (js ''onSuccess'')), req_timeout = t\<rparr>)
       (nat_number (get_prop v (js ''timeout'')))"

definition Client_subscribe :: "jsval \<Rightarrow> jsval \<Rightarrow> api_client \<Rightarrow> api_outcome option" where
  "Client_subscribe topicFilter options a =
     (case check_subscribe topicFilter options of
        Inl e \<Rightarrow> Some (a, Some e)
      | Inr (f, v) \<Rightarrow> map_option (\<lambda>r. run_core (subscribe f r) a) (to_request v))"

definition Client_unsubscribe :: "jsval \<Rightarrow> jsval \<Rightarrow> api_client \<Rightarrow> api_outcome option" where
  "Client_unsubscribe topicFilter options a =
     (case check_unsubscribe topicFilter options of
        Inl e \<Rightarrow> Some (a, Some e)
      | Inr (f, v) \<Rightarrow> map_option (\<lambda>r. run_core (unsubscribe f r) a) (to_request v))"

definition Client_send :: "jsval \<Rightarrow> api_client \<Rightarrow> api_outcome" where
  "Client_send v a =
     (case v of
        MessageObj m \<Rightarrow>
          (case destinationName m of
             None \<Rightarrow> (a, Some (PlainError (js ''Invalid parameter Message.destinationName:undefined'')))
           | Some d \<Rightarrow> run_core (send m) a)
      | _ \<Rightarrow> (a, Some (PlainError (js ''Invalid argument:'' @ typeof v))))"

definition Client_disconnect :: "api_client \<Rightarrow> api_outcome" where
  "Client_disconnect a = run_core disconnect a"

section \<open>Tracing\<close>

abbreviation (input) "MAX_TRACE_ENTRIES \<equiv> (100::nat)"

fun trace_push :: "trace_value list \<Rightarrow> trace_value list \<Rightarrow> trace_value list" where
  "trace_push [] buf = buf"
| "trace_push (x # xs) buf =
     trace_push xs ((if length buf = MAX_TRACE_ENTRIES then tl buf else buf) @ [x])"

definition trace :: "trace_value list \<Rightarrow> api_client \<Rightarrow> api_client" where
  "trace args a = a\<lparr>api_trace := map_option (trace_push args) (api_trace a)\<rparr>"

definition traceMask :: "(jsstring \<times> jsval) list \<Rightarrow> jsstring \<Rightarrow> (jsstring \<times> jsval) list" where
  "traceMask obj masked = map (\<lambda>(k, v). (k, if k = masked then String (js ''******'') else v)) obj"

definition startTrace :: "nat \<Rightarrow> api_client \<Rightarrow> api_client" where
  "startTrace now a =
     trace [TText (js ''Client.startTrace''), TDate now, TText (js ''0.0.0.0'')]
       (if api_trace a = None then a\<lparr>api_trace := Some []\<rparr> else a)"

definition stopTrace :: "api_client \<Rightarrow> api_client" where
  "stopTrace a = a\<lparr>api_trace := None\<rparr>"

definition wire_entries :: "string \<Rightarrow> messages \<Rightarrow> trace_value list list" where
  "wire_entries name ms =
     map (\<lambda>(i, w). [TText (js name), TIdent i, TWire w])
       (sort_key id_of (filter is_id ms) @ filter (\<lambda>e. \<not> is_id e) ms)"

text \<open>
  \<open>getTraceLog\<close> traces the number of messages in flight as \<open>length\<close> of an object
  that has none.
\<close>

definition getTraceLog :: "nat \<Rightarrow> api_client \<Rightarrow> api_client \<times> trace_value list option" where
  "getTraceLog now a =
     (if api_trace a = None then (a, None)
      else
        (let a1 = foldl (\<lambda>b args. trace args b) a
               ([[TText (js ''Client.getTraceLog''), TDate now],
                 [TText (js ''Client.getTraceLog in flight messages''), TUndefined]]
                @ wire_entries ''_sentMessages '' (sentMessages (api_core a))
                @ wire_entries ''_receivedMessages '' (receivedMessages (api_core a)))
         in (a1, api_trace a1)))"

section \<open>Messages\<close>

definition newMessage :: "jsval \<Rightarrow> api_error + message" where
  "newMessage v =
     (case v of
        String s \<Rightarrow> Inr (Message (PString s))
      | BufferObj p \<Rightarrow> Inr (Message p)
      | _ \<Rightarrow> Inl (FormatString INVALID_ARGUMENT [v, typed_string ''newPayload'']))"

datatype message_prop =
  PayloadString | PayloadBytes | DestinationName | Qos | Retained | Duplicate

text \<open>The truth value is all that is kept of \<open>duplicate\<close>, whose setter takes anything.\<close>

fun message_set :: "message_prop \<Rightarrow> jsval \<Rightarrow> message \<Rightarrow> message \<times> api_error option" where
  "message_set DestinationName v m =
     (case v of
        String s \<Rightarrow> (m\<lparr>destinationName := Some s\<rparr>, None)
      | _ \<Rightarrow> (m, Some (FormatError INVALID_ARGUMENT [v, typed_string ''newDestinationName''])))"
| "message_set Qos v m =
     (case qos_value v of
        Some q \<Rightarrow> (m\<lparr>qos := q\<rparr>, None)
      | None \<Rightarrow> (m, Some (PlainError (js ''Invalid argument:'' @ value_text v))))"
| "message_set Retained v m =
     (case v of
        Boolean b \<Rightarrow> (m\<lparr>retained := b\<rparr>, None)
      | _ \<Rightarrow> (m, Some (FormatError INVALID_ARGUMENT [v, typed_string ''newRetained''])))"
| "message_set Duplicate v m = (m\<lparr>duplicate := truthy v\<rparr>, None)"
| "message_set prop v m = (m, None)"

definition string_or_undefined :: "jsstring option \<Rightarrow> jsval" where
  "string_or_undefined s = (case s of None \<Rightarrow> Undefined | Some x \<Rightarrow> String x)"

fun message_get :: "message_prop \<Rightarrow> message \<Rightarrow> (js_error + jsval) option" where
  "message_get PayloadString m =
     map_option (\<lambda>r. bindE r (\<lambda>s. Inr (String s))) (getPayloadString (msg_payload m))"
| "message_get PayloadBytes m =
     Some (bindE (getPayloadBytes (msg_payload m)) (\<lambda>p. Inr (BufferObj p)))"
| "message_get DestinationName m = Some (Inr (string_or_undefined (destinationName m)))"
| "message_get Qos m = Some (Inr (Number (Whole (int (qos m)))))"
| "message_get Retained m = Some (Inr (Boolean (retained m)))"
| "message_get Duplicate m = Some (Inr (Boolean (duplicate m)))"

section \<open>What format does\<close>

text \<open>
  A template: its first literal part and, behind each numbered field, the next part.
\<close>

abbreviation (input) "brace \<equiv> (123::nat)"

fun template :: "nat \<Rightarrow> jsstring \<Rightarrow> jsstring list \<Rightarrow> jsstring" where
  "template i p [] = p"
| "template i p (q # qs) = p @ field_text i @ template (Suc i) q qs"

fun filled :: "jsstring \<Rightarrow> jsstring list \<Rightarrow> jsstring list \<Rightarrow> jsstring" where
  "filled p (q # qs) (v # vs) = p @ v @ filled q qs vs"
| "filled p qs vs = p"

lemma field_text_Cons: "\<exists>t. field_text i = brace # t"
  by (simp add: field_text_def js_def)

lemma template_append: "template i (x @ p) qs = x @ template i p qs"
  by (cases qs) auto

lemma starts_with_append [simp]: "starts_with (f @ t) f"
  by (simp add: starts_with_def)

lemma indexOf_skip:
  "brace \<notin> set p \<Longrightarrow> indexOf (p @ field_text i @ t) (field_text i) = Some (length p)"
proof (induction p)
  case Nil
  obtain u where u: "field_text i = brace # u" using field_text_Cons by blast
  then show ?case using starts_with_append [of "field_text i" t] by simp
next
  case (Cons c p)
  obtain u where u: "field_text i = brace # u" using field_text_Cons by blast
  with Cons show ?case by (auto simp: starts_with_def)
qed

lemma format_field_template:
  assumes "brace \<notin> set p" "p \<noteq> []"
  shows "format_field i v (template i p (q # qs)) = template (Suc i) (p @ v @ q) qs"
  using indexOf_skip [OF assms(1), of i "template (Suc i) q qs"] assms(2)
  by (simp add: format_field_def template_append)

lemma format_loop_template:
  "length qs = length vs \<Longrightarrow> p \<noteq> [] \<Longrightarrow> brace \<notin> set p \<Longrightarrow> \<forall>q \<in> set qs. brace \<notin> set q \<Longrightarrow>
     \<forall>v \<in> set vs. brace \<notin> set (value_text v) \<Longrightarrow>
     format_loop i vs (template i p qs) = filled p qs (map value_text vs)"
proof (induction qs vs arbitrary: i p rule: list_induct2)
  case Nil
  then show ?case by simp
next
  case (Cons q qs v vs)
  have "filled (x @ p) qs ws = x @ filled p qs ws" for x p ws
    by (cases qs; cases ws) auto
  with Cons show ?case
    using Cons.IH [of "p @ value_text v @ q" "Suc i"]
    by (simp add: format_field_template del: template.simps)
qed

section \<open>Checked options\<close>

definition well_typed :: "(jsstring \<times> jsval) list \<Rightarrow> (jsstring \<times> jsstring) list \<Rightarrow> bool" where
  "well_typed obj keys \<longleftrightarrow> (\<forall>(k, v) \<in> set obj. map_of keys k = Some (typeof v))"

lemma validate_None: "validate obj keys = None \<longleftrightarrow> well_typed obj keys"
  by (induction obj keys rule: validate.induct) (auto simp: well_typed_def split: option.split)

definition wf_will :: "jsval \<Rightarrow> bool" where
  "wf_will v \<longleftrightarrow> \<not> truthy v \<or> (\<exists>m d. v = MessageObj m \<and> destinationName m = Some d)"

lemma check_will_None: "check_will v = None \<longleftrightarrow> wf_will v"
  by (auto simp: check_will_def wf_will_def split: jsval.split option.split)

definition wf_hosts :: "jsval \<Rightarrow> jsval \<Rightarrow> bool" where
  "wf_hosts hosts ports \<longleftrightarrow> \<not> truthy hosts \<or>
     (\<exists>hs ps. hosts = Array hs \<and> ports = Array ps \<and> hs \<noteq> [] \<and> length hs = length ps \<and>
        list_all is_string hs \<and> list_all is_port ps)"

lemma check_pairs_None:
  "check_pairs i hps = None \<longleftrightarrow> (\<forall>(h, p) \<in> set hps. is_string h \<and> is_port p)"
  by (induction i hps rule: check_pairs.induct) auto

lemma all_pairs: "length hs = length ps \<Longrightarrow>
    (\<forall>(h, p) \<in> set (zip hs ps). P h \<and> Q p) = (list_all P hs \<and> list_all Q ps)"
  by (induction hs ps rule: list_induct2) auto

lemma check_hosts_None: "check_hosts hosts ports = None \<longleftrightarrow> wf_hosts hosts ports"
proof -
  have "length hs < 1 \<longleftrightarrow> hs = []" for hs :: "jsval list" by (cases hs) auto
  then show ?thesis
    by (cases hosts; cases ports) (auto simp: check_hosts_def wf_hosts_def hosts_error_def
        check_pairs_None all_pairs simp del: One_nat_def)
qed

lemma orElse_Inr: "orElse e r = Inr x \<longleftrightarrow> e = None \<and> r = Inr x"
  by (simp add: orElse_def split: option.split)

definition connect_accepts :: "jsval \<Rightarrow> bool" where
  "connect_accepts v \<longleftrightarrow> well_typed (own_props v) connect_keys \<and>
     wf_will (get_prop v (js ''willMessage'')) \<and>
     wf_hosts (get_prop v (js ''hosts'')) (get_prop v (js ''ports''))"

definition connect_defaults :: "jsval \<Rightarrow> jsval" where
  "connect_defaults v =
     default_prop ''cleanSession'' (Boolean True)
       (default_prop ''keepAliveInterval'' (Number (Whole 60)) v)"

lemma get_default_prop:
  "l \<noteq> js k \<Longrightarrow> get_prop (default_prop k x v) l = get_prop v l"
  by (cases "is_primitive v") (simp_all add: default_prop_def get_set_prop, simp add: set_prop_def)

text \<open>
  C22. \<open>connect\<close> passes its checks exactly with options all of whose properties are known
  and of the declared types, whose will message is a message with a destination and whose
  hosts and ports are arrays of equal positive length of strings and numbers that are not
  negative; what it hands to the client is these options with the two defaults set.
\<close>

theorem connect_checks:
  "check_connect v = Inr o' \<longleftrightarrow>
     connect_accepts (or_empty v) \<and> o' = connect_defaults (or_empty v)"
  by (auto simp: check_connect_def Let_def orElse_Inr validate_None check_will_None
      check_hosts_None get_default_prop js_eq_iff connect_accepts_def connect_defaults_def)

lemma template_INVALID_TYPE:
  "snd (ERROR INVALID_TYPE) =
     template 0 (js ''AMQJS0012E Invalid type '') [js '' for '', js ''.'']"
  by (simp add: field_text_def js_def dec_string_def show_base_def digit_char_def digits_base.simps)

lemma format_INVALID_TYPE:
  assumes "brace \<notin> set t" "brace \<notin> set n"
  shows "format INVALID_TYPE [String t, String n] =
    js ''AMQJS0012E Invalid type '' @ t @ js '' for '' @ n @ js ''.''"
proof -
  have "format INVALID_TYPE [String t, String n] =
      filled (js ''AMQJS0012E Invalid type '') [js '' for '', js ''.''] (map value_text [String t, String n])"
    unfolding format_def template_INVALID_TYPE using assms
    by (intro format_loop_template) (auto simp: js_def)
  then show ?thesis by simp
qed

section \<open>The client identifier\<close>

definition scalar :: "nat \<Rightarrow> bool" where
  "scalar cp \<longleftrightarrow> cp < 0xD800 \<or> 0xDFFF < cp \<and> cp < 0x110000"

lemma client_id_length_units:
  "\<forall>cp \<in> set cps. scalar cp \<Longrightarrow> client_id_length (concat (map code_point_units cps)) = length cps"
proof (induction cps)
  case Nil
  then show ?case by simp
next
  case (Cons cp cps)
  show ?case
  proof (cases "cp > 0xFFFF")
    case False
    with Cons show ?thesis by (auto simp: code_point_units_def scalar_def is_high_surrogate_def)
  next
    case True
    then have "(cp - 0x10000) div 1024 < 1024" using Cons.prems by (auto simp: scalar_def)
    then have "is_high_surrogate (0xD800 + (cp - 0x10000) div 1024)"
      by (simp add: is_high_surrogate_def)
    with True Cons show ?thesis by (simp add: code_point_units_def)
  qed
qed

text \<open>
  The constructor of \<open>Client\<close> accepts an identifier exactly when it has between 1
  and 23 characters, a character beyond the basic plane, two code units, counting once.
\<close>

theorem client_id_characters:
  assumes "\<forall>cp \<in> set cps. scalar cp"
  defines "s \<equiv> concat (map code_point_units cps)"
  shows "check_client_id (String s) = Inr s \<longleftrightarrow> 1 \<le> length cps \<and> length cps \<le> 23"
  using client_id_length_units [OF assms(1)] by (cases cps) (auto simp: check_client_id_def s_def)

theorem client_id_characters_witness:
  "check_client_id (String [0xD83D, 0xDE00]) = Inr [0xD83D, 0xDE00]"
  using client_id_characters [of "[0x1F600]"] by (simp add: scalar_def code_point_units_def)

section \<open>Connecting\<close>

text \<open>
  The payload of a will message is not checked: \<open>connect\<close> accepts any will message
  with a destination, also one whose payload is no text, because it reads a property that
  does not exist instead of the getter that would throw.
\<close>

theorem will_payload_not_checked:
  assumes "destinationName m = Some d"
  shows "\<exists>o'. check_connect (Object [(js ''willMessage'', MessageObj m)]) = Inr o'"
proof -
  have "connect_accepts (Object [(js ''willMessage'', MessageObj m)])"
    using assms by (simp add: connect_accepts_def well_typed_def connect_keys_def js_eq_iff
        get_prop_def wf_will_def wf_hosts_def)
  then show ?thesis by (simp add: connect_checks or_empty_def)
qed

theorem will_payload_not_checked_witness:
  "\<exists>m o'. getPayloadString (msg_payload m) = Some (Inl MalformedUtf) \<and>
     check_connect (Object [(js ''willMessage'', MessageObj m)]) = Inr o'"
proof -
  define m where "m = (Message (PUint8Array [0xC3, 0x28]))\<lparr>destinationName := Some (js ''t'')\<rparr>"
  have "getPayloadString (msg_payload m) = Some (Inl MalformedUtf)"
    unfolding m_def by code_simp
  moreover have "\<exists>o'. check_connect (Object [(js ''willMessage'', MessageObj m)]) = Inr o'"
    by (rule will_payload_not_checked [of m "js ''t''"]) (simp add: m_def)
  ultimately show ?thesis by blast
qed

lemma to_options_first_host:
  assumes "to_options v = Some opts"
    and "get_prop v (js ''hosts'') = Array (String h # hs)"
    and "get_prop v (js ''ports'') = Array (Number (Whole p) # ps)"
  shows "opt_hosts opts = Some (h # map value_text hs)" "opt_ports opts ! 0 = nat p"
    "opt_useSSL opts = truthy (get_prop v (js ''useSSL''))"
proof -
  from assms obtain t k qs where
    "all_some (map nat_number (Number (Whole p) # ps)) = Some qs"
    and o: "opts = \<lparr>opt_timeout = t, opt_userName = string_value (get_prop v (js ''userName'')),
               opt_password = string_value (get_prop v (js ''password'')),
               opt_willMessage = will_value (get_prop v (js ''willMessage'')), opt_keepAliveInterval = k,
               opt_cleanSession = truthy (get_prop v (js ''cleanSession'')),
               opt_useSSL = truthy (get_prop v (js ''useSSL'')),
               opt_onSuccess = truthy (get_prop v (js ''onSuccess'')),
               opt_onFailure = truthy (get_prop v (js ''onFailure'')),
               opt_hosts = host_values (get_prop v (js ''hosts'')), opt_ports = qs\<rparr>"
    unfolding to_options_def by (auto simp: Let_def split: option.splits)
  moreover from this have "qs ! 0 = nat p" by (auto split: if_splits)
  ultimately show "opt_hosts opts = Some (h # map value_text hs)" "opt_ports opts ! 0 = nat p"
    "opt_useSSL opts = truthy (get_prop v (js ''useSSL''))"
    using assms by (auto simp: host_values_def)
qed

text \<open>
  Options that pass the checks and name hosts and ports make an idle client open a
  socket to the first of them and nothing else, with the protocol \<open>useSSL\<close> selects; the
  options with their defaults become those of the client.
\<close>

theorem connect_opens_first_host:
  assumes acc: "connect_accepts v" and tr: "truthy v"
    and hosts: "get_prop v (js ''hosts'') = Array (String h # hs)"
    and ports: "get_prop v (js ''ports'') = Array (Number (Whole p) # ps)"
    and opts: "to_options (connect_defaults v) = Some opts"
    and idle: "\<not> connected (api_core a)" "socket (api_core a) = None"
  shows "\<exists>a'. Client_connect v a = Some (a', None) \<and>
    log (api_core a') = log (api_core a) @
      [SocketOpened ((if truthy (get_prop v (js ''useSSL'')) then js ''wss://'' else js ''ws://'')
         @ h @ js '':'' @ dec_string (nat p) @ js ''/mqtt'')] \<and>
    socket (api_core a') = Some Connecting \<and> connectOptions (api_core a') = Some opts"
proof -
  have d: "get_prop (connect_defaults v) (js s) = get_prop v (js s)"
    if "s \<noteq> ''cleanSession''" "s \<noteq> ''keepAliveInterval''" for s
    using that by (simp add: connect_defaults_def get_default_prop js_eq_iff)
  have "check_connect v = Inr (connect_defaults v)"
    using acc tr by (simp add: connect_checks or_empty_def)
  moreover have "opt_hosts opts = Some (h # map value_text hs)" "opt_ports opts ! 0 = nat p"
    "opt_useSSL opts = truthy (get_prop v (js ''useSSL''))"
    using to_options_first_host [OF opts] hosts ports by (simp_all add: d)
  ultimately show ?thesis using opts idle
    by (simp add: Client_connect_def run_core_def connect_def doConnect_def Let_def emit_def)
qed

definition example_options :: jsval where
  "example_options = Object [(js ''useSSL'', Boolean True), (js ''hosts'', Array [String (js ''b'')]),
     (js ''ports'', Array [Number (Whole 61614)])]"

lemma example_options_props:
  "get_prop example_options (js k) =
     (if k = ''useSSL'' then Boolean True else if k = ''hosts'' then Array [String (js ''b'')]
      else if k = ''ports'' then Array [Number (Whole 61614)] else Undefined)"
  by (simp add: example_options_def get_prop_def js_eq_iff)

lemma default_prop_props:
  "\<not> is_primitive v \<Longrightarrow> get_prop (default_prop k x v) (js l) =
     (if l = k \<and> get_prop v (js k) = Undefined then x else get_prop v (js l))"
  by (simp add: default_prop_def get_set_prop js_eq_iff)

lemma is_primitive_default_prop [simp]: "is_primitive (default_prop k x v) = is_primitive v"
  by (simp add: default_prop_def)

theorem connect_opens_first_host_witness:
  "\<exists>a'. Client_connect example_options \<lparr>api_core = fresh_client (js ''h'') 1 (js ''c'') [],
      api_onConnectionLost = Undefined, api_onMessageDelivered = Undefined,
      api_onMessageArrived = Undefined, api_trace = None\<rparr> = Some (a', None) \<and>
     socket (api_core a') = Some Connecting"
proof -
  have np: "\<not> is_primitive example_options" by (simp add: example_options_def)
  have "connect_accepts example_options"
    by (simp add: connect_accepts_def example_options_props wf_will_def wf_hosts_def)
      (simp add: well_typed_def example_options_def connect_keys_def js_eq_iff)
  moreover have "truthy example_options" by (simp add: example_options_def)
  moreover obtain opts where "to_options (connect_defaults example_options) = Some opts"
    by (simp add: to_options_def connect_defaults_def default_prop_props np example_options_props Let_def)
  ultimately show ?thesis
    using connect_opens_first_host [of example_options "js ''b''" "[]" 61614 "[]" opts
        "\<lparr>api_core = fresh_client (js ''h'') 1 (js ''c'') [], api_onConnectionLost = Undefined,
          api_onMessageDelivered = Undefined, api_onMessageArrived = Undefined, api_trace = None\<rparr>"]
    by (auto simp: example_options_props fresh_client_def)
qed

section \<open>Tracing\<close>

lemma trace_push_latest:
  "length buf \<le> MAX_TRACE_ENTRIES \<Longrightarrow>
     trace_push args buf = drop (length buf + length args - MAX_TRACE_ENTRIES) (buf @ args)"
proof (induction args arbitrary: buf)
  case Nil
  then show ?case by simp
next
  case (Cons x args)
  show ?case
  proof (cases "length buf = MAX_TRACE_ENTRIES")
    case True
    then have "trace_push (x # args) buf = trace_push args (tl buf @ [x])" by simp
    also have "\<dots> = drop (length args) (tl buf @ x # args)" using True by (subst Cons.IH) auto
    also have "\<dots> = drop (Suc (length args)) (buf @ x # args)" using True by (cases buf) auto
    finally show ?thesis using True by simp
  next
    case False
    with Cons.prems show ?thesis using Cons.IH [of "buf @ [x]"] by simp
  qed
qed

text \<open>
  The trace buffer holds exactly the latest hundred values traced, in their order,
  however many there were.
\<close>

theorem trace_keeps_latest:
  "trace_push args [] = drop (length args - MAX_TRACE_ENTRIES) args"
  using trace_push_latest [of "[]" args] by simp

end
