(* ===== verification/MqttPages.thy ===== *)
theory MqttPages
  imports MqttApi
begin

text \<open>
  The chat page over the MQTT client (\<open>mqtt/chat.js\<close> of the demos). The page may have
  created several clients; its callbacks use the variable \<open>client\<close>, the one created last.
  The clients of a page share the local storage of the browser. A callback runs where the
  client calls it: the one of a successful connection before the queue of the client is
  processed, an arriving message of quality of service 2 before its release is answered.
  A submit handler that throws does not return false, so the browser submits the form.
\<close>

section \<open>The state of the page\<close>

text \<open>
  \<open>connect_port\<close> is what \<open>Number\<close> makes of the text of its field. A failure to connect is
  shown with a text that depends on its code.
\<close>

datatype debug_line = Line jsstring | FailureText nat

record mqtt_page =
  connect_host :: jsstring
  connect_port :: jsnum
  connect_clientId :: jsstring
  destination_field :: jsstring
  send_field :: jsstring
  page_destination :: jsval
  page_clients :: "api_client list"
  page_storage :: "(jsstring \<times> stored_message) list"
  connect_panel :: bool
  disconnect_panel :: bool
  send_disabled :: bool
  debug_panel :: "debug_line list"
  message_list :: "jsstring list"

datatype form_result = Prevented | Threw api_error

definition current_client :: "mqtt_page \<Rightarrow> nat option" where
  "current_client p = (if page_clients p = [] then None else Some (length (page_clients p) - 1))"

definition with_storage :: "(jsstring \<times> stored_message) list \<Rightarrow> api_client \<Rightarrow> api_client" where
  "with_storage s a = a\<lparr>api_core := (api_core a)\<lparr>localStorage := s\<rparr>\<rparr>"

definition keep_client :: "nat \<Rightarrow> api_client \<Rightarrow> mqtt_page \<Rightarrow> mqtt_page" where
  "keep_client i a p =
     (let s = localStorage (api_core a)
      in p\<lparr>page_clients := map (with_storage s) ((page_clients p)[i := a]), page_storage := s\<rparr>)"

definition page_debug :: "debug_line list \<Rightarrow> mqtt_page \<Rightarrow> mqtt_page" where
  "page_debug ls p = p\<lparr>debug_panel := debug_panel p @ ls\<rparr>"

section \<open>The callbacks\<close>

text \<open>The options of \<open>subscribe\<close> are undefined, which its checks turn into none (\<open>joins\<close> below).\<close>

definition page_onConnect :: "mqtt_page \<Rightarrow> mqtt_page \<times> api_error option" where
  "page_onConnect p =
     (let p1 = (page_debug [Line (js ''connected to MQTT'')] p)
            \<lparr>connect_panel := False, disconnect_panel := True, send_disabled := False\<rparr>
      in case current_client p of
           None \<Rightarrow> (p1, Some (CoreError TypeError))
         | Some i \<Rightarrow>
             (case Client_subscribe (page_destination p) Undefined (page_clients p ! i) of
                None \<Rightarrow> (p1, None)
              | Some (a, e) \<Rightarrow> (keep_client i a p1, e)))"

definition page_onFailure :: "nat \<Rightarrow> mqtt_page \<Rightarrow> mqtt_page" where
  "page_onFailure code = page_debug [Line (js ''failure''), FailureText code]"

definition page_onMessageArrived :: "message option \<Rightarrow> mqtt_page \<Rightarrow> mqtt_page \<times> api_error option" where
  "page_onMessageArrived m p =
     (case m of
        None \<Rightarrow> (p, Some (CoreError TypeError))
      | Some msg \<Rightarrow>
          (case message_get PayloadString msg of
             None \<Rightarrow> (p, None)
           | Some (Inl e) \<Rightarrow> (p, Some (CoreError e))
           | Some (Inr v) \<Rightarrow> (p\<lparr>message_list := message_list p @ [value_text v]\<rparr>, None)))"

definition page_onConnectionLost :: "nat \<Rightarrow> mqtt_page \<Rightarrow> mqtt_page \<times> api_error option" where
  "page_onConnectionLost code p =
     (if code = 0 then (p, None)
      else case current_client p of
        None \<Rightarrow> (p, Some (CoreError TypeError))
      | Some i \<Rightarrow>
          (page_debug [Line (value_text (client_get PropClientId (page_clients p ! i)) @ js '': '' @ dec_string code @ [10])] p, None))"

fun page_event :: "event \<Rightarrow> mqtt_page \<Rightarrow> mqtt_page \<times> api_error option" where
  "page_event (Arrived m) p = page_onMessageArrived m p"
| "page_event (ConnectionLost code) p = page_onConnectionLost code p"
| "page_event (ConnectFailed code) p = (page_onFailure code p, None)"
| "page_event ev p = (p, None)"

fun page_events :: "event list \<Rightarrow> mqtt_page \<Rightarrow> mqtt_page \<times> api_error option" where
  "page_events [] p = (p, None)"
| "page_events (ev # evs) p =
     (case page_event ev p of (p1, None) \<Rightarrow> page_events evs p1 | (p1, Some e) \<Rightarrow> (p1, Some e))"

text \<open>An operation of a client and the callbacks it calls last.\<close>

definition page_run :: "nat \<Rightarrow> (api_client \<Rightarrow> api_outcome) \<Rightarrow> mqtt_page \<Rightarrow> mqtt_page \<times> api_error option" where
  "page_run i f p =
     (case f (page_clients p ! i) of
        (a, e) \<Rightarrow>
          (case page_events (drop (length (log (api_core (page_clients p ! i)))) (log (api_core a))) (keep_client i a p) of
             (p1, None) \<Rightarrow> (p1, e)
           | (p1, Some x) \<Rightarrow> (p1, Some x)))"

abbreviation page_core :: "nat \<Rightarrow> (client \<Rightarrow> outcome) \<Rightarrow> mqtt_page \<Rightarrow> mqtt_page \<times> api_error option" where
  "page_core i f \<equiv> page_run i (run_core f)"

section \<open>The events of a socket\<close>

definition keep_core :: "nat \<Rightarrow> client \<Rightarrow> mqtt_page \<Rightarrow> mqtt_page" where
  "keep_core i c p = keep_client i ((page_clients p ! i)\<lparr>api_core := c\<rparr>) p"

definition page_connack :: "nat \<Rightarrow> wire \<Rightarrow> mqtt_page \<Rightarrow> mqtt_page \<times> api_error option" where
  "page_connack i w p =
     (let c = api_core (page_clients p ! i)
      in case (connectTimeout c, connectOptions c) of
           (Some t, Some opts) \<Rightarrow>
             if returnCode w = Some 0 \<and> opt_onSuccess opts then
               (case connack_resume opts (connack_session opts c) of
                  (c1, Some e) \<Rightarrow> (keep_core i c1 p, Some (CoreError e))
                | (c1, None) \<Rightarrow>
                    (case page_onConnect (keep_core i (emit ConnectSucceeded c1) p) of
                       (p1, Some e) \<Rightarrow> (p1, Some e)
                     | (p1, None) \<Rightarrow> page_core i process_queue p1))
             else page_core i (on_connack w) p
         | _ \<Rightarrow> page_core i (on_connack w) p)"

definition page_pubrel :: "nat \<Rightarrow> wire \<Rightarrow> mqtt_page \<Rightarrow> mqtt_page \<times> api_error option" where
  "page_pubrel i w p =
     (let c = api_core (page_clients p ! i)
      in case map_of (receivedMessages c) (messageIdentifier w) of
           None \<Rightarrow> page_core i (on_pubrel w) p
         | Some r \<Rightarrow>
             (case page_onMessageArrived (payloadMessage r) p of
                (_, None) \<Rightarrow> page_core i (on_pubrel w) p
              | (_, Some e) \<Rightarrow>
                  if has_onMessageArrived c then
                    (keep_core i (receiveMessage r (removeItem (storage_key received_prefix c (messageIdentifier w)) c)) p, Some e)
                  else page_core i (on_pubrel w) p))"

definition page_message :: "nat \<Rightarrow> buffer \<Rightarrow> mqtt_page \<Rightarrow> mqtt_page \<times> api_error option" where
  "page_message i data p =
     (let c = api_core (page_clients p ! i)
      in case (receivePinger c, decodeMessage data) of
           (Some r, Inr w) \<Rightarrow>
             (let p1 = keep_core i (c\<lparr>receivePinger := Some (pinger_reset r)\<rparr>) p
              in if wire_type w = CONNACK then page_connack i w p1
                 else if wire_type w = PUBREL then page_pubrel i w p1
                 else page_core i (on_wire w) p1)
         | _ \<Rightarrow> page_core i (on_socket_message data) p)"

definition page_open :: "nat \<Rightarrow> mqtt_page \<Rightarrow> mqtt_page \<times> api_error option" where
  "page_open i = page_core i (\<lambda>c. on_socket_open (c\<lparr>socket := Some Open\<rparr>))"

definition page_error :: "nat \<Rightarrow> mqtt_page \<Rightarrow> mqtt_page \<times> api_error option" where
  "page_error i = page_core i on_socket_error"

definition page_close :: "nat \<Rightarrow> mqtt_page \<Rightarrow> mqtt_page \<times> api_error option" where
  "page_close i = page_core i on_socket_close"

section \<open>The forms\<close>

fun form_outcome :: "mqtt_page \<times> api_error option \<Rightarrow> mqtt_page \<times> form_result" where
  "form_outcome (p, None) = (p, Prevented)"
| "form_outcome (p, Some e) = (p, Threw e)"

text \<open>The text of a callback is never read; its number of parameters is 1.\<close>

abbreviation (input) "a_callback \<equiv> Function 1 []"

definition page_client :: "api_client \<Rightarrow> api_client" where
  "page_client a = fst (client_set PropOnConnectionLost a_callback (fst (client_set PropOnMessageArrived a_callback a)))"

definition connect_options_of_page :: jsval where
  "connect_options_of_page = Object [(js ''onSuccess'', a_callback), (js ''onFailure'', a_callback)]"

definition connect_form :: "browser \<Rightarrow> mqtt_page \<Rightarrow> (mqtt_page \<times> form_result) option" where
  "connect_form br p =
     (let p1 = p\<lparr>page_destination := String (destination_field p)\<rparr>
      in case Client br (page_storage p) (String (connect_host p)) (Number (connect_port p)) (String (connect_clientId p)) of
           None \<Rightarrow> None
         | Some (Inl e) \<Rightarrow> Some (p1, Threw e)
         | Some (Inr a) \<Rightarrow>
             map_option (\<lambda>(a1, e). form_outcome (keep_client (length (page_clients p)) a1
                 (p1\<lparr>page_clients := page_clients p @ [page_client a]\<rparr>), e))
               (Client_connect connect_options_of_page (page_client a)))"

text \<open>jQuery has no \<open>addAttr\<close>: the handler throws at its last statement.\<close>

definition disconnect_form :: "mqtt_page \<Rightarrow> mqtt_page \<times> form_result" where
  "disconnect_form p =
     (case current_client p of
        None \<Rightarrow> (p, Threw (CoreError TypeError))
      | Some i \<Rightarrow>
          (case page_run i Client_disconnect p of
             (p1, Some e) \<Rightarrow> (p1, Threw e)
           | (p1, None) \<Rightarrow> (p1\<lparr>disconnect_panel := False, connect_panel := True\<rparr>, Threw (CoreError TypeError))))"

definition send_form :: "mqtt_page \<Rightarrow> mqtt_page \<times> form_result" where
  "send_form p =
     (if send_field p = [] then (p, Prevented)
      else case newMessage (String (send_field p)) of
        Inl e \<Rightarrow> (p, Threw e)
      | Inr m \<Rightarrow>
          (case message_set DestinationName (page_destination p) m of
             (_, Some e) \<Rightarrow> (p, Threw e)
           | (m1, None) \<Rightarrow>
               (case current_client p of
                  None \<Rightarrow> (p, Threw (CoreError TypeError))
                | Some i \<Rightarrow>
                    (case page_run i (Client_send (MessageObj m1)) p of
                       (p1, Some e) \<Rightarrow> (p1, Threw e)
                     | (p1, None) \<Rightarrow> (p1\<lparr>send_field := []\<rparr>, Prevented)))))"

section \<open>What is typed in one page is shown in another\<close>

lemma with_own_storage [simp]: "with_storage (localStorage (api_core a)) a = a"
  by (simp add: with_storage_def)

lemma current_client_less: "current_client p = Some i \<Longrightarrow> i < length (page_clients p)"
  by (auto simp: current_client_def split: if_splits)

lemma keep_client_nth [simp]: "i < length (page_clients p) \<Longrightarrow> page_clients (keep_client i a p) ! i = a"
  by (simp add: keep_client_def Let_def)

lemma keep_client_fields [simp]:
  "message_list (keep_client i a p) = message_list p" "page_destination (keep_client i a p) = page_destination p"
  "length (page_clients (keep_client i a p)) = length (page_clients p)"
  "current_client (keep_client i a p) = current_client p" "debug_panel (keep_client i a p) = debug_panel p"
  "connect_panel (keep_client i a p) = connect_panel p" "disconnect_panel (keep_client i a p) = disconnect_panel p"
  "send_disabled (keep_client i a p) = send_disabled p" "send_field (keep_client i a p) = send_field p"
  by (simp_all add: keep_client_def current_client_def Let_def)

text \<open>An operation that only sends.\<close>

lemma page_events_sent: "page_events (map Sent bs) p = (p, None)"
  by (induction bs) simp_all

lemma page_core_sends:
  assumes "f (api_core (page_clients p ! i)) = (c, e)" "log c = log (api_core (page_clients p ! i)) @ map Sent bs"
  shows "page_core i f p = (keep_core i c p, map_option CoreError e)"
  using assms by (simp add: page_run_def run_core_def keep_core_def page_events_sent)

definition text_publication :: "jsstring \<Rightarrow> jsstring \<Rightarrow> message" where
  "text_publication d t = (Message (PString t))\<lparr>destinationName := Some d\<rparr>"

lemma send_text_idle:
  assumes "idle c" "\<not> has_onMessageDelivered c" "encode ((WireMessage PUBLISH)\<lparr>payloadMessage := Some (text_publication d t)\<rparr>) = Inr b"
  shows "send (text_publication d t) c = (sent_one b c, None)"
  using assms schedule_idle [OF assms(1,3)]
  by (simp add: send_def text_publication_def Message_def idle_def)

definition text_sizes :: "jsstring \<Rightarrow> jsstring \<Rightarrow> bool" where
  "text_sizes d t \<longleftrightarrow> wf_utf16 d \<and> wf_utf16 t \<and> UTF8Length d < 65536 \<and> UTF8Length d + UTF8Length t + 2 < 268435456"

lemma payload_bytes_length: "wf_utf16 t \<Longrightarrow> length (payload_bytes (PString t)) = UTF8Length t"
  using utf8_bytes_length [of t] by (auto simp: payload_bytes_def)

lemma text_publication_travels:
  assumes "text_sizes d t"
  shows "\<exists>b. encode ((WireMessage PUBLISH)\<lparr>payloadMessage := Some (text_publication d t)\<rparr>) = Inr b \<and>
    decodeMessage b = Inr ((WireMessage PUBLISH)\<lparr>payloadMessage :=
      Some ((text_publication d t)\<lparr>msg_payload := PUint8Array (payload_bytes (PString t))\<rparr>)\<rparr>)"
proof -
  let ?m = "text_publication d t"
  let ?w = "(WireMessage PUBLISH)\<lparr>payloadMessage := Some ?m\<rparr>"
  have d: "wf_string d" "wf_utf16 t" "UTF8Length d < 65536" and n: "UTF8Length d + UTF8Length t + 2 < 268435456"
    using assms by (simp_all add: text_sizes_def wf_string_def)
  have w: "wire_type ?w = PUBLISH" "payloadMessage ?w = Some ?m" "wf_message ?m" "destinationName ?m = Some d"
    using d by (simp_all add: WireMessage_def text_publication_def wf_message_def Message_def)
  have i: "messageIdentifier ?w = (if 0 < qos ?m then Some (Id 0) else None)"
    by (simp add: WireMessage_def text_publication_def Message_def)
  have len: "length (packet_body ?w) < 268435456"
    using n wf_string_length [OF d(1)] payload_bytes_length [OF d(2)]
    by (simp add: packet_body_def WireMessage_def text_publication_def Message_def opt_string_bytes_def ident_bytes_def)
  have "wf_wire ?w" using w i by (auto simp: wf_wire_def wf_ident_def)
  from encode_packet [OF this] decode_packet_publish [OF w(1-3) w(4) d(3) i _ len] i
  show ?thesis by (simp add: text_publication_def Message_def WireMessage_def)
qed

lemma message_shown:
  assumes "j < length (page_clients q)" "idle (api_core (page_clients q ! j))" "has_onMessageArrived (api_core (page_clients q ! j))"
    and "decodeMessage b = Inr ((WireMessage PUBLISH)\<lparr>payloadMessage := Some m\<rparr>)" "qos m = 0"
    and "getPayloadString (msg_payload m) = Some (Inr t)"
  shows "\<exists>q'. page_message j b q = (q', None) \<and> message_list q' = message_list q @ [t]"
proof -
  let ?c = "api_core (page_clients q ! j)"
  obtain r where r: "receivePinger ?c = Some r" using assms(2) by (auto simp: idle_def)
  let ?w = "(WireMessage PUBLISH)\<lparr>payloadMessage := Some m\<rparr>"
  let ?q = "keep_core j (?c\<lparr>receivePinger := Some (pinger_reset r)\<rparr>) q"
  have w: "wire_type ?w = PUBLISH" "payloadMessage ?w = Some m" by (simp_all add: WireMessage_def)
  have c: "api_core (page_clients ?q ! j) = ?c\<lparr>receivePinger := Some (pinger_reset r)\<rparr>"
    using assms(1) by (simp add: keep_core_def)
  have "page_message j b q = page_core j (on_wire ?w) ?q"
    using r assms(4) w(1) by (simp add: page_message_def Let_def)
  moreover have "on_wire ?w (api_core (page_clients ?q ! j)) = (emit (Arrived (Some m)) (api_core (page_clients ?q ! j)), None)"
    using assms(3,5) c by (simp add: on_wire_def w receivePublish_def receiveMessage_def Let_def)
  ultimately show ?thesis using assms(6)
    by (simp add: page_run_def run_core_def emit_def page_onMessageArrived_def keep_core_def)
qed

text \<open>
  C25. What is typed is shown. A text typed in the chat page of one user, connected with an
  empty queue, is sent as one publication and its field emptied; the page of another user
  whose client receives that packet shows the text as it was typed, for every well-formed
  text and topic within the limits of the protocol.
\<close>

theorem typed_text_is_shown:
  assumes "current_client p = Some i" "idle (api_core (page_clients p ! i))" "\<not> has_onMessageDelivered (api_core (page_clients p ! i))"
    and "page_destination p = String d" "send_field p \<noteq> []" "text_sizes d (send_field p)"
    and "j < length (page_clients q)" "idle (api_core (page_clients q ! j))" "has_onMessageArrived (api_core (page_clients q ! j))"
  shows "\<exists>p' b q'. send_form p = (p', Prevented) \<and> send_field p' = [] \<and>
    log (api_core (page_clients p' ! i)) = log (api_core (page_clients p ! i)) @ [Sent b] \<and>
    page_message j b q = (q', None) \<and> message_list q' = message_list q @ [send_field p]"
proof -
  let ?t = "send_field p" and ?c = "api_core (page_clients p ! i)"
  have i: "i < length (page_clients p)" using assms(1) by (rule current_client_less)
  from text_publication_travels [OF assms(6)] obtain b where
    b: "encode ((WireMessage PUBLISH)\<lparr>payloadMessage := Some (text_publication d ?t)\<rparr>) = Inr b"
    "decodeMessage b = Inr ((WireMessage PUBLISH)\<lparr>payloadMessage :=
      Some ((text_publication d ?t)\<lparr>msg_payload := PUint8Array (payload_bytes (PString ?t))\<rparr>)\<rparr>)" by blast
  have "page_core i (send (text_publication d ?t)) p = (keep_core i (sent_one b ?c) p, map_option CoreError None)"
    using send_text_idle [OF assms(2,3) b(1)] by (rule page_core_sends [where bs = "[b]"]) simp
  moreover have "Client_send (MessageObj (text_publication d ?t)) = run_core (send (text_publication d ?t))"
    by (simp add: Client_send_def text_publication_def Message_def fun_eq_iff)
  moreover have "message_set DestinationName (page_destination p) (Message (PString ?t)) = (text_publication d ?t, None)"
    using assms(4) by (simp add: text_publication_def)
  ultimately have s: "send_form p = ((keep_core i (sent_one b ?c) p)\<lparr>send_field := []\<rparr>, Prevented)"
    using assms(1,5) by (simp add: send_form_def newMessage_def)
  have "log (api_core (page_clients (keep_core i (sent_one b ?c) p) ! i)) = log ?c @ [Sent b]"
    using i by (simp add: keep_core_def)
  moreover have "getPayloadString (PUint8Array (payload_bytes (PString ?t))) = Some (Inr ?t)"
    using assms(6) by (intro payload_text_roundtrip) (simp add: text_sizes_def)
  then obtain q' where "page_message j b q = (q', None)" "message_list q' = message_list q @ [?t]"
    using message_shown [OF assms(7-9) b(2)] by (auto simp: text_publication_def Message_def)
  ultimately show ?thesis using s by auto
qed

section \<open>Joining\<close>

definition topic_subscription :: "nat \<Rightarrow> jsstring \<Rightarrow> wire" where
  "topic_subscription n d =
     (WireMessage SUBSCRIBE)\<lparr>messageIdentifier := Some (Id n), topics := Some [d], requestedQos := Some [0]\<rparr>"

lemma encode_topic_subscription:
  assumes "wf_string d" "n < 65536"
  shows "encode (topic_subscription n d) = Inr (packet (topic_subscription n d))"
  using assms by (intro encode_packet) (simp add: wf_wire_def wf_ident_def topic_subscription_def WireMessage_def wf_bytes_def)

lemma Client_subscribe_plain:
  "Client_subscribe (String d) Undefined a =
     Some (run_core (subscribe d \<lparr>req_qos = None, req_onSuccess = False, req_timeout = 0\<rparr>) a)"
  by (simp add: Client_subscribe_def check_subscribe_def check_filter_def or_empty_def orElse_def check_timeout_def
      check_qos_def get_prop_def to_request_def)

lemma subscribe_idle:
  assumes "idle c" "sentMessages c = []" "wf_string d" "message_identifier c < 65536"
  shows "subscribe d \<lparr>req_qos = None, req_onSuccess = False, req_timeout = 0\<rparr> c =
    (sent_one (packet (topic_subscription (message_identifier c) d))
       (c\<lparr>sentMessages := [(Some (Id (message_identifier c)), topic_subscription (message_identifier c) d)]\<rparr>), None)"
proof -
  let ?n = "message_identifier c"
  let ?w = "topic_subscription ?n d"
  have "requires_ack ((WireMessage SUBSCRIBE)\<lparr>topics := Some [d], requestedQos := Some [0]\<rparr>) c =
      (c\<lparr>sentMessages := [(Some (Id ?n), ?w)]\<rparr>, Inr ?w)"
    using assms(2) by (simp add: requires_ack_def free_identifier.simps topic_subscription_def WireMessage_def Let_def)
  moreover have "idle (c\<lparr>sentMessages := [(Some (Id ?n), ?w)]\<rparr>)" using assms(1) by (simp add: idle_def)
  from schedule_idle [OF this encode_topic_subscription [OF assms(3,4)]]
  have "schedule_message ?w (c\<lparr>sentMessages := [(Some (Id ?n), ?w)]\<rparr>) =
    (sent_one (packet ?w) (c\<lparr>sentMessages := [(Some (Id ?n), ?w)]\<rparr>), None)" .
  ultimately show ?thesis
    using assms(1) by (simp add: subscribe_def request_def acknowledged_def idle_def WireMessage_def)
qed

text \<open>A client that has sent its \<open>CONNECT\<close> and waits for the answer.\<close>

definition awaiting :: "connect_options \<Rightarrow> client \<Rightarrow> bool" where
  "awaiting opts c \<longleftrightarrow> connectOptions c = Some opts \<and> connectTimeout c = Some True \<and> socket c = Some Open \<and> msg_queue c = [] \<and>
     \<not> notify_msg_sent c \<and> sendPinger c \<noteq> None \<and> receivePinger c \<noteq> None"

lemma clear_session_keeps [simp]:
  "message_identifier (clear_session c) = message_identifier c" "sentMessages (clear_session c) = []"
  "log (clear_session c) = log c" "msg_queue (clear_session c) = msg_queue c" "socket (clear_session c) = socket c"
  "notify_msg_sent (clear_session c) = notify_msg_sent c" "sendPinger (clear_session c) = sendPinger c"
  "receivePinger (clear_session c) = receivePinger c"
proof -
  have "message_identifier (remove_copies p ms c) = message_identifier c \<and> log (remove_copies p ms c) = log c \<and>
    msg_queue (remove_copies p ms c) = msg_queue c \<and> socket (remove_copies p ms c) = socket c \<and>
    notify_msg_sent (remove_copies p ms c) = notify_msg_sent c \<and> sendPinger (remove_copies p ms c) = sendPinger c \<and>
    receivePinger (remove_copies p ms c) = receivePinger c" for p ms and c :: client
    by (induction p ms c rule: remove_copies.induct) (simp_all add: removeItem_def)
  then show "message_identifier (clear_session c) = message_identifier c" "sentMessages (clear_session c) = []"
  "log (clear_session c) = log c" "msg_queue (clear_session c) = msg_queue c" "socket (clear_session c) = socket c"
  "notify_msg_sent (clear_session c) = notify_msg_sent c" "sendPinger (clear_session c) = sendPinger c"
  "receivePinger (clear_session c) = receivePinger c"
    by (simp_all add: clear_session_def Let_def)
qed

text \<open>The state in which the callback of a clean connection runs.\<close>

lemma connack_clean:
  assumes "awaiting opts c" "opt_cleanSession opts"
  obtains c1 where "connack_resume opts (connack_session opts c) = (c1, None)" "idle c1" "sentMessages c1 = []"
    "message_identifier c1 = message_identifier c" "log c1 = log c"
proof -
  let ?c = "(connack_session opts c)\<lparr>connected := True,
    hostIndex := (case opt_hosts opts of None \<Rightarrow> hostIndex (connack_session opts c) | Some hs \<Rightarrow> length hs)\<rparr>"
  have "sentMessages (connack_session opts c) = []" using assms(2) by (simp add: connack_session_def Let_def)
  then have "connack_resume opts (connack_session opts c) = (?c, None)"
    by (simp add: connack_resume_def enumerate_wires_def sort_by_seq_def)
  moreover have "idle ?c" using assms by (simp add: idle_def awaiting_def connack_session_def)
  ultimately show ?thesis using assms by (intro that [of ?c]) (simp_all add: connack_session_def Let_def)
qed

definition accepting :: wire where
  "accepting = (WireMessage CONNACK)\<lparr>topicNameCompressionResponse := Some 0, returnCode := Some 0\<rparr>"

lemma page_message_connack:
  assumes "i < length (page_clients p)" "receivePinger (api_core (page_clients p ! i)) = Some r"
  shows "page_message i [0x20, 2, 0, 0] p =
    page_connack i accepting (keep_core i ((api_core (page_clients p ! i))\<lparr>receivePinger := Some (pinger_reset r)\<rparr>) p)"
  using assms by (simp add: page_message_def decode_connack accepting_def Let_def WireMessage_def)

text \<open>
  C26. Joining a chat. When the server accepts the connection of the current client of the
  page, the client is connected and sends a subscription to the destination with
  quality of service 0, and the page shows the form for messages, enabled.
\<close>

theorem accepted_page_joins:
  assumes "current_client p = Some i" "awaiting opts (api_core (page_clients p ! i))" "opt_cleanSession opts" "opt_onSuccess opts"
    and "page_destination p = String d" "wf_string d" "message_identifier (api_core (page_clients p ! i)) = n" "n < 65536"
  shows "\<exists>p'. page_message i [0x20, 2, 0, 0] p = (p', None) \<and> idle (api_core (page_clients p' ! i)) \<and>
    log (api_core (page_clients p' ! i)) =
      log (api_core (page_clients p ! i)) @ [ConnectSucceeded, Sent (packet (topic_subscription n d))] \<and>
    \<not> connect_panel p' \<and> disconnect_panel p' \<and> \<not> send_disabled p'"
proof -
  let ?c = "api_core (page_clients p ! i)"
  have i: "i < length (page_clients p)" using assms(1) by (rule current_client_less)
  obtain r where r: "receivePinger ?c = Some r" using assms(2) by (auto simp: awaiting_def)
  let ?c0 = "?c\<lparr>receivePinger := Some (pinger_reset r)\<rparr>"
  let ?p0 = "keep_core i ?c0 p"
  have p0: "api_core (page_clients ?p0 ! i) = ?c0" using i by (simp add: keep_core_def)
  have wait: "awaiting opts ?c0" using assms(2) by (simp add: awaiting_def)
  obtain c1 where c1: "connack_resume opts (connack_session opts ?c0) = (c1, None)" "idle c1" "sentMessages c1 = []"
    "message_identifier c1 = n" "log c1 = log ?c"
    using connack_clean [OF wait assms(3)] assms(7) by auto
  let ?c2 = "emit ConnectSucceeded c1"
  let ?p1 = "keep_core i ?c2 ?p0"
  have c2: "idle ?c2" "sentMessages ?c2 = []" "message_identifier ?c2 < 65536" "message_identifier ?c2 = n"
    using c1 assms(8) by (simp_all add: emit_def idle_def)
  let ?c3 = "sent_one (packet (topic_subscription n d)) (?c2\<lparr>sentMessages := [(Some (Id n), topic_subscription n d)]\<rparr>)"
  let ?p2 = "keep_core i ?c3 ((page_debug [Line (js ''connected to MQTT'')] ?p1)
    \<lparr>connect_panel := False, disconnect_panel := True, send_disabled := False\<rparr>)"
  have p1: "current_client ?p1 = Some i" "api_core (page_clients ?p1 ! i) = ?c2" "page_destination ?p1 = String d"
    using assms(1,5) i by (simp_all add: keep_core_def)
  have "page_onConnect ?p1 = (?p2, None)"
    using subscribe_idle [OF c2(1,2) assms(6) c2(3)] p1 c2(4)
    by (simp add: page_onConnect_def Client_subscribe_plain run_core_def keep_core_def page_debug_def Let_def)
  moreover have p2: "api_core (page_clients ?p2 ! i) = ?c3" using i by (simp add: keep_core_def page_debug_def)
  have idle3: "idle ?c3" using c2(1) by (simp only: idle_sent_one) (simp add: idle_def)
  then have "process_queue ?c3 = (?c3, None)" by (simp add: process_queue_def idle_def)
  then have "page_core i process_queue ?p2 = (keep_core i ?c3 ?p2, map_option CoreError None)"
    using p2 by (intro page_core_sends [where bs = "[]"]) simp_all
  moreover have "connectTimeout ?c0 = Some True" "connectOptions ?c0 = Some opts" using wait by (simp_all add: awaiting_def)
  ultimately have "page_message i [0x20, 2, 0, 0] p = (keep_core i ?c3 ?p2, None)"
    unfolding page_message_connack [where i = i and p = p, OF i r] page_connack_def p0 Let_def
    using c1(1) assms(4) by (simp add: accepting_def WireMessage_def)
  then show ?thesis using idle3 c1(5) i
    by (simp add: keep_core_def page_debug_def emit_def)
qed

section \<open>Errors of the page\<close>

text \<open>
  A second connect before the first connection is up. The callback of the first client
  subscribes on the second one, which is not connected, and throws; the page shows the
  form for messages all the same.
\<close>

theorem second_connect_breaks_join:
  assumes "i < length (page_clients p)" "i \<noteq> k" "awaiting opts (api_core (page_clients p ! i))" "opt_cleanSession opts" "opt_onSuccess opts"
    and "current_client p = Some k" "\<not> connected (api_core (page_clients p ! k))" "page_destination p = String d"
  shows "\<exists>p'. page_message i [0x20, 2, 0, 0] p = (p', Some (CoreError InvalidState)) \<and> disconnect_panel p' \<and> \<not> send_disabled p'"
proof -
  let ?c = "api_core (page_clients p ! i)"
  obtain r where r: "receivePinger ?c = Some r" using assms(3) by (auto simp: awaiting_def)
  let ?c0 = "?c\<lparr>receivePinger := Some (pinger_reset r)\<rparr>"
  let ?p0 = "keep_core i ?c0 p"
  have p0: "api_core (page_clients ?p0 ! i) = ?c0" using assms(1) by (simp add: keep_core_def)
  have wait: "awaiting opts ?c0" using assms(3) by (simp add: awaiting_def)
  obtain c1 where c1: "connack_resume opts (connack_session opts ?c0) = (c1, None)"
    using connack_clean [OF wait assms(4)] by metis
  let ?p1 = "keep_core i (emit ConnectSucceeded c1) ?p0"
  have k: "k < length (page_clients p)" using assms(6) by (rule current_client_less)
  have other: "connected (api_core (page_clients (keep_client i a q) ! k)) = connected (api_core (page_clients q ! k))"
    if "k < length (page_clients q)" for a q
    using that assms(2) by (simp add: keep_client_def with_storage_def Let_def)
  have "\<not> connected (api_core (page_clients ?p1 ! k))" using assms(7) k by (simp add: keep_core_def other)
  moreover have "current_client ?p1 = Some k" "page_destination ?p1 = String d" using assms(6,8) by (simp_all add: keep_core_def)
  ultimately have "\<exists>p'. page_onConnect ?p1 = (p', Some (CoreError InvalidState)) \<and> disconnect_panel p' \<and> \<not> send_disabled p'"
    by (simp add: page_onConnect_def Client_subscribe_plain run_core_def subscribe_def page_debug_def Let_def)
  moreover have "connectTimeout ?c0 = Some True" "connectOptions ?c0 = Some opts" using wait by (simp_all add: awaiting_def)
  ultimately show ?thesis
    unfolding page_message_connack [where i = i and p = p, OF assms(1) r] page_connack_def p0 Let_def
    using c1 assms(5) by (auto simp: accepting_def WireMessage_def)
qed

text \<open>
  A client identifier of the wrong length. The form throws, so the browser submits it;
  the destination has been replaced, the client has not.
\<close>

theorem rejected_connect_keeps_client:
  assumes "\<not> num_negative (connect_port p)" "client_id_length (connect_clientId p) < 1 \<or> client_id_length (connect_clientId p) > 23"
  shows "connect_form br p = Some (p\<lparr>page_destination := String (destination_field p)\<rparr>,
    Threw (FormatError INVALID_ARGUMENT [String (connect_clientId p), typed_string ''clientId'']))"
  using assms by (auto simp: connect_form_def Client_def check_client_def check_client_id_def)

text \<open>The form to disconnect always throws: at best at its last statement.\<close>

theorem disconnect_form_always_throws: "\<exists>p' e. disconnect_form p = (p', Threw e)"
  by (simp add: disconnect_form_def split: option.split prod.split)

section \<open>Examples\<close>

text \<open>The options of the page, with the defaults of \<open>connect\<close>: a clean session and a ping every minute.\<close>

definition page_options :: connect_options where
  "page_options = \<lparr>opt_timeout = 0, opt_userName = None, opt_password = None, opt_willMessage = None,
     opt_keepAliveInterval = 60, opt_cleanSession = True, opt_useSSL = False, opt_onSuccess = True,
     opt_onFailure = True, opt_hosts = None, opt_ports = []\<rparr>"

lemma page_connects: "Client_connect connect_options_of_page a = Some (run_core (connect page_options) a)"
proof -
  have "case_sum (\<lambda>e. None) to_options (check_connect connect_options_of_page) = Some page_options" by code_simp
  then obtain v where "check_connect connect_options_of_page = Inr v" "to_options v = Some page_options"
    by (auto split: sum.splits)
  then show ?thesis by (simp add: Client_connect_def)
qed

definition example_page :: "client \<Rightarrow> mqtt_page" where
  "example_page c =
     \<lparr>connect_host = js ''h'', connect_port = Whole 1, connect_clientId = js ''a'', destination_field = js ''t'',
      send_field = js ''hi'', page_destination = String (js ''t''),
      page_clients = [\<lparr>api_core = c, api_onConnectionLost = Undefined, api_onMessageDelivered = Undefined,
        api_onMessageArrived = Undefined, api_trace = None\<rparr>],
      page_storage = [], connect_panel = True, disconnect_panel = False, send_disabled = True, debug_panel = [], message_list = []\<rparr>"

definition example_chatting :: client where
  "example_chatting = (fresh_client (js ''h'') 1 (js ''a'') [])\<lparr>connected := True, socket := Some Open,
     sendPinger := Some (Pinger 60), receivePinger := Some (Pinger 60), has_onMessageArrived := True\<rparr>"

definition example_awaiting :: client where
  "example_awaiting = (fresh_client (js ''h'') 1 (js ''a'') [])\<lparr>connectOptions := Some page_options, connectTimeout := Some True,
     socket := Some Open, sendPinger := Some (Pinger 60), receivePinger := Some (Pinger 60)\<rparr>"

lemma example_pages:
  "current_client (example_page c) = Some 0" "api_core (page_clients (example_page c) ! 0) = c"
  "page_destination (example_page c) = String (js ''t'')" "page_clients (example_page c) \<noteq> []"
  "send_field (example_page c) = js ''hi''" "message_list (example_page c) = []"
  by (simp_all add: example_page_def current_client_def)

theorem typed_text_is_shown_witness:
  "\<exists>p' b q'. send_form (example_page example_chatting) = (p', Prevented) \<and>
     log (api_core (page_clients p' ! 0)) = [Sent b] \<and>
     page_message 0 b (example_page example_chatting) = (q', None) \<and> message_list q' = [js ''hi'']"
proof -
  have c: "idle example_chatting" "\<not> has_onMessageDelivered example_chatting" "has_onMessageArrived example_chatting" "log example_chatting = []"
    by (simp_all add: example_chatting_def idle_def fresh_client_def)
  have "text_sizes (js ''t'') (js ''hi'')" by (simp add: text_sizes_def js_def is_high_surrogate_def)
  moreover have "js ''hi'' \<noteq> []" by (simp add: js_def)
  ultimately show ?thesis
    using typed_text_is_shown [of "example_page example_chatting" 0 "js ''t''" 0 "example_page example_chatting"] c
    by (auto simp: example_pages)
qed

theorem accepted_page_joins_witness:
  "\<exists>p'. page_message 0 [0x20, 2, 0, 0] (example_page example_awaiting) = (p', None) \<and>
     log (api_core (page_clients p' ! 0)) = [ConnectSucceeded, Sent (packet (topic_subscription 1 (js ''t'')))]"
proof -
  have c: "awaiting page_options example_awaiting" "opt_cleanSession page_options" "opt_onSuccess page_options"
    "message_identifier example_awaiting = 1" "log example_awaiting = []"
    by (simp_all add: example_awaiting_def awaiting_def page_options_def fresh_client_def)
  have "wf_string (js ''t'')" by (simp add: wf_string_def js_def is_high_surrogate_def)
  then show ?thesis
    using accepted_page_joins [of "example_page example_awaiting" 0 page_options "js ''t''" 1] c by (auto simp: example_pages)
qed

end
