(* ===== verification/StompFrame.thy ===== *)
theory StompFrame
  imports JsValue
begin

text \<open>
  Frames of the STOMP client of \<open>stomp.js\<close>: \<open>Frame\<close>, \<open>toString\<close>, \<open>marshall\<close>,
  \<open>unmarshall\<close>. The headers are the properties of an object in enumeration order; their
  values and the body are any values, turned to text as JavaScript does. The regular
  expressions are written out: \<open>\s\<close> is \<open>is_space\<close>, the separator of frames a NUL with
  the line feeds behind it.
\<close>

abbreviation (input) "LF \<equiv> (10::nat)"
abbreviation (input) "NUL \<equiv> (0::nat)"
abbreviation (input) "COLON \<equiv> (58::nat)"

section \<open>Strings\<close>

definition is_space :: "nat \<Rightarrow> bool" where
  "is_space c \<longleftrightarrow> 9 \<le> c \<and> c \<le> 13 \<or> c = 32 \<or> c = 0xA0 \<or> c = 0x1680 \<or> c = 0xFEFF
     \<or> 0x2000 \<le> c \<and> c \<le> 0x200A \<or> c = 0x2028 \<or> c = 0x2029 \<or> c = 0x202F \<or> c = 0x205F \<or> c = 0x3000"

definition trim :: "jsstring \<Rightarrow> jsstring" where
  "trim s = rev (dropWhile is_space (rev (dropWhile is_space s)))"

text \<open>\<open>substring\<close>: negative bounds and NaN (\<open>None\<close>) count as 0, and swapped bounds are put in order.\<close>

fun clamp :: "int option \<Rightarrow> nat \<Rightarrow> nat" where
  "clamp None n = 0"
| "clamp (Some i) n = min (nat i) n"

definition substring :: "jsstring \<Rightarrow> int option \<Rightarrow> int option \<Rightarrow> jsstring" where
  "substring s i j =
     (let a = clamp i (length s); b = clamp j (length s)
      in drop (min a b) (take (max a b) s))"

text \<open>\<open>indexOf\<close> and \<open>search\<close>: -1 when there is no match.\<close>

fun index_of :: "nat \<Rightarrow> jsstring \<Rightarrow> int" where
  "index_of c [] = -1"
| "index_of c (x # s) =
     (if x = c then 0 else let i = index_of c s in if i < 0 then -1 else i + 1)"

fun search_divider :: "jsstring \<Rightarrow> int" where
  "search_divider (x # y # s) =
     (if x = LF \<and> y = LF then 0
      else let i = search_divider (y # s) in if i < 0 then -1 else i + 1)"
| "search_divider s = -1"

text \<open>\<open>parseInt\<close>: white space, a sign, \<open>0x\<close> for base 16, then the longest prefix of digits.\<close>

definition digit_of :: "nat \<Rightarrow> nat option" where
  "digit_of c =
     (if 48 \<le> c \<and> c \<le> 57 then Some (c - 48)
      else if 97 \<le> c \<and> c \<le> 102 then Some (c - 87)
      else if 65 \<le> c \<and> c \<le> 70 then Some (c - 55) else None)"

definition is_digit :: "nat \<Rightarrow> nat \<Rightarrow> bool" where
  "is_digit base c \<longleftrightarrow> (case digit_of c of None \<Rightarrow> False | Some d \<Rightarrow> d < base)"

definition digits_value :: "nat \<Rightarrow> jsstring \<Rightarrow> nat" where
  "digits_value base ds = foldl (\<lambda>acc c. acc * base + the (digit_of c)) 0 ds"

definition parse_unsigned :: "jsstring \<Rightarrow> nat option" where
  "parse_unsigned s =
     (let hex = (take 2 s = js ''0x'' \<or> take 2 s = js ''0X'');
          base = (if hex then 16 else 10);
          ds = takeWhile (is_digit base) (if hex then drop 2 s else s)
      in if ds = [] then None else Some (digits_value base ds))"

definition parseInt :: "jsstring \<Rightarrow> int option" where
  "parseInt s =
     (case dropWhile is_space s of
        [] \<Rightarrow> None
      | c # t \<Rightarrow>
          if c = 45 then map_option (\<lambda>n. - int n) (parse_unsigned t)
          else if c = 43 then map_option int (parse_unsigned t)
          else map_option int (parse_unsigned (c # t)))"

section \<open>Frames\<close>

type_synonym headers = "(jsstring \<times> jsval) list"

record frame =
  command :: jsstring
  headers :: headers
  body :: jsval

definition nullish :: "jsval \<Rightarrow> bool" where
  "nullish v \<longleftrightarrow> v = Undefined \<or> v = Null"

definition Frame :: "jsstring \<Rightarrow> headers option \<Rightarrow> jsval \<Rightarrow> frame" where
  "Frame c h b = \<lparr>command = c, headers = (case h of None \<Rightarrow> [] | Some hs \<Rightarrow> hs),
     body = (if nullish b then String [] else b)\<rparr>"

definition header_line :: "jsstring \<times> jsval \<Rightarrow> jsstring" where
  "header_line h = fst h @ [COLON] @ value_text (snd h)"

definition frame_toString :: "frame \<Rightarrow> jsstring" where
  "frame_toString f =
     join_with [LF]
       ([command f] @ map header_line (headers f)
        @ (if truthy (body f)
           then [js ''content-length:'' @ dec_string (length (value_text (body f)))] else [])
        @ [LF # value_text (body f)])"

definition marshall :: "jsstring \<Rightarrow> headers option \<Rightarrow> jsval \<Rightarrow> jsstring" where
  "marshall c h b = frame_toString (Frame c h b) @ [NUL]"

text \<open>A value assigned to \<open>__proto__\<close> is lost, as it is a string.\<close>

definition set_header :: "jsstring \<Rightarrow> jsstring \<Rightarrow> headers \<Rightarrow> headers" where
  "set_header k v hs = (if k = js ''__proto__'' then hs else AList.update k (String v) hs)"

definition parse_header :: "jsstring \<Rightarrow> headers \<Rightarrow> headers" where
  "parse_header line hs =
     (let idx = index_of COLON line
      in set_header (trim (substring line (Some 0) (Some idx)))
           (trim (substring line (Some (idx + 1)) (Some (int (length line))))) hs)"

definition header :: "headers \<Rightarrow> string \<Rightarrow> jsval" where
  "header hs k = (case map_of hs (js k) of None \<Rightarrow> Undefined | Some v \<Rightarrow> v)"

definition parse_body :: "jsstring \<Rightarrow> int \<Rightarrow> headers \<Rightarrow> jsstring" where
  "parse_body data start hs =
     (if truthy (header hs ''content-length'') then
        substring data (Some start)
          (map_option (\<lambda>n. start + n) (parseInt (value_text (header hs ''content-length''))))
      else takeWhile (\<lambda>c. c \<noteq> NUL) (drop (nat start) data))"

definition unmarshallSingle :: "jsstring \<Rightarrow> frame" where
  "unmarshallSingle data =
     (let divider = search_divider data;
          headerLines = split_on LF (substring data (Some 0) (Some divider));
          hs = foldl (\<lambda>hs line. parse_header line hs) [] (tl headerLines)
      in Frame (hd headerLines) (Some hs) (String (parse_body data (divider + 2) hs)))"

function split_frames :: "jsstring \<Rightarrow> jsstring list" where
  "split_frames [] = [[]]"
| "split_frames (c # s) =
     (if c = NUL then [] # split_frames (dropWhile (\<lambda>x. x = LF) s)
      else (case split_frames s of [] \<Rightarrow> [[c]] | p # ps \<Rightarrow> (c # p) # ps))"
  by pat_completeness auto
termination
  by (relation "measure length") (auto simp: le_imp_less_Suc length_dropWhile_le)

definition unmarshall :: "jsstring \<Rightarrow> frame list" where
  "unmarshall datas = map unmarshallSingle (filter (\<lambda>d. length d > 0) (split_frames datas))"

section \<open>Splitting a stream of frames\<close>

lemma split_frames_step:
  "NUL \<notin> set p \<Longrightarrow> split_frames (p @ NUL # s) = p # split_frames (dropWhile (\<lambda>x. x = LF) s)"
  by (induction p) auto

lemma dropWhile_keepalive:
  "(s = [] \<or> hd s \<noteq> LF) \<Longrightarrow> dropWhile (\<lambda>x. x = LF) (replicate n LF @ s) = s"
  by (induction n) (cases s; auto)+

section \<open>Lines\<close>

lemma join_with_snoc:
  "xs \<noteq> [] \<Longrightarrow> join_with sep (xs @ [x]) = join_with sep xs @ sep @ x"
  by (induction sep xs rule: join_with.induct) auto

lemma split_on_join:
  "xs \<noteq> [] \<Longrightarrow> \<forall>x \<in> set xs. c \<notin> set x \<Longrightarrow> split_on c (join_with [c] xs) = xs"
  by (induction "[c]" xs rule: join_with.induct) (auto simp: split_on_no_sep split_on_append)

lemma search_divider_skip:
  "LF \<notin> set l \<Longrightarrow> search_divider (l @ t) =
     (if search_divider t < 0 then -1 else search_divider t + int (length l))"
proof (induction l)
  case Nil
  have "search_divider t < 0 \<Longrightarrow> search_divider t = -1"
    by (induction t rule: search_divider.induct) (auto simp: Let_def split: if_splits)
  then show ?case by simp
next
  case (Cons x l)
  then show ?case
    by (cases "l @ t") (auto simp: Let_def)
qed

lemma search_divider_join:
  "xs \<noteq> [] \<Longrightarrow> \<forall>x \<in> set xs. x \<noteq> [] \<and> LF \<notin> set x \<Longrightarrow>
     search_divider (join_with [LF] xs @ LF # LF # b) = int (length (join_with [LF] xs))"
proof (induction "[LF]" xs rule: join_with.induct)
  case 1
  then show ?case by simp
next
  case (2 x)
  then show ?case by (simp add: search_divider_skip)
next
  case (3 x y xs)
  then obtain z zs where y: "y = z # zs" "z \<noteq> LF" by (cases y) auto
  obtain w where w: "join_with [LF] (y # xs) @ LF # LF # b = z # w"
    using y by (cases xs) auto
  have "search_divider (z # w) = int (length (join_with [LF] (y # xs)))"
    using 3 w by simp
  then have "search_divider (LF # z # w) = int (length (join_with [LF] (y # xs))) + 1"
    using y by (simp add: Let_def)
  with w have "search_divider (LF # join_with [LF] (y # xs) @ LF # LF # b) =
      int (length (join_with [LF] (y # xs))) + 1" by simp
  with 3 search_divider_skip [of x "LF # join_with [LF] (y # xs) @ LF # LF # b"]
  show ?case by simp
qed

section \<open>Numbers\<close>

lemma dec_string_base10:
  "dec_string n = map (\<lambda>d. 48 + d) (digits_base 10 n)"
proof -
  have "of_char (digit_char d) = 48 + d" if "d \<in> set (digits_base 10 n)" for d
    using digits_base_bound [OF _ that] by (simp add: digit_char_def)
  then show ?thesis by (simp add: dec_string_def js_def show_base_def)
qed

lemma foldl_digits:
  "2 \<le> b \<Longrightarrow> foldl (\<lambda>acc d. acc * b + d) 0 (digits_base b n) = n"
  by (induction b n rule: digits_base.induct) (subst digits_base.simps, auto)

lemma foldl_digit_of:
  "\<forall>d \<in> set ds. d < 10 \<Longrightarrow>
     foldl (\<lambda>acc c. acc * base + the (digit_of c)) a (map (\<lambda>d. 48 + d) ds)
       = foldl (\<lambda>acc d. acc * base + d) a ds"
  by (induction ds arbitrary: a) (auto simp: digit_of_def)

lemma dec_string_set: "c \<in> set (dec_string n) \<Longrightarrow> 48 \<le> c \<and> c < 58"
  using digits_base_bound [of 10 _ n] by (fastforce simp: dec_string_base10)

lemma digits_value_dec: "digits_value 10 (dec_string n) = n"
  using digits_base_bound [of 10 _ n]
  by (simp add: digits_value_def dec_string_base10 foldl_digit_of foldl_digits)

lemma dec_string_nonempty [simp]: "dec_string n \<noteq> []"
  by (simp add: dec_string_base10)

lemma parse_unsigned_dec: "parse_unsigned (dec_string n) = Some n"
proof -
  have "take 2 (dec_string n) \<noteq> js ''0x''" "take 2 (dec_string n) \<noteq> js ''0X''"
    using dec_string_set [of _ n] set_take_subset [of 2 "dec_string n"] by (force simp: js_def)+
  moreover have all: "is_digit 10 c" if "c \<in> set (dec_string n)" for c
    using dec_string_set [OF that] by (auto simp: is_digit_def digit_of_def)
  have digits: "takeWhile (is_digit 10) (dec_string n) = dec_string n"
    using all by (simp add: takeWhile_eq_all_conv)
  ultimately show ?thesis by (simp add: parse_unsigned_def Let_def digits_value_dec digits)
qed

lemma parseInt_dec: "parseInt (dec_string n) = Some (int n)"
proof -
  obtain c t where ct: "dec_string n = c # t" by (cases "dec_string n") auto
  then have "48 \<le> c" "c < 58" using dec_string_set [of c n] by auto
  then show ?thesis using ct parse_unsigned_dec [of n]
    by (simp add: parseInt_def is_space_def)
qed

section \<open>Headers\<close>

definition trimmed :: "jsstring \<Rightarrow> bool" where
  "trimmed s \<longleftrightarrow> s = [] \<or> \<not> is_space (hd s) \<and> \<not> is_space (last s)"

lemma trim_trimmed: "trimmed s \<Longrightarrow> trim s = s"
proof (cases "s = []")
  case False
  assume "trimmed s"
  with False have "\<not> is_space (hd s)" "\<not> is_space (last s)" by (auto simp: trimmed_def)
  moreover have "dropWhile P xs = xs" if "xs \<noteq> []" "\<not> P (hd xs)" for P and xs :: jsstring
    using that by (cases xs) auto
  ultimately show ?thesis using False by (simp add: trim_def hd_rev)
qed (simp add: trim_def)

definition line_text :: "jsstring \<Rightarrow> bool" where
  "line_text s \<longleftrightarrow> LF \<notin> set s \<and> NUL \<notin> set s \<and> trimmed s"

text \<open>A header that survives the trip: one line, trimmed, no colon in its name.\<close>

fun wf_header :: "jsstring \<times> jsval \<Rightarrow> bool" where
  "wf_header (k, String v) =
     (line_text k \<and> line_text v \<and> COLON \<notin> set k \<and> k \<noteq> js ''__proto__'' \<and> k \<noteq> js ''content-length'')"
| "wf_header h = False"

definition wf_headers :: "headers \<Rightarrow> bool" where
  "wf_headers hs \<longleftrightarrow> (\<forall>h \<in> set hs. wf_header h) \<and> distinct (map fst hs)"

definition length_header :: "jsstring \<Rightarrow> headers" where
  "length_header b =
     (if b = [] then [] else [(js ''content-length'', String (dec_string (length b)))])"

lemma index_of_append: "c \<notin> set k \<Longrightarrow> index_of c (k @ c # s) = int (length k)"
  by (induction k) (auto simp: Let_def)

lemma parse_header_line:
  assumes "COLON \<notin> set k" "trimmed k" "trimmed v" "k \<noteq> js ''__proto__''"
  shows "parse_header (header_line (k, String v)) hs = AList.update k (String v) hs"
proof -
  have "substring (k @ COLON # v) (Some 0) (Some (int (length k))) = k"
    by (simp add: substring_def Let_def)
  moreover have "substring (k @ COLON # v) (Some (int (length k) + 1))
      (Some (int (length (k @ COLON # v)))) = v"
    by (simp add: substring_def Let_def nat_add_distrib)
  ultimately show ?thesis using assms
    by (simp add: parse_header_def header_line_def Let_def index_of_append set_header_def trim_trimmed
        del: length_append)
qed

lemma update_new: "k \<notin> fst ` set al \<Longrightarrow> AList.update k v al = al @ [(k, v)]"
  by (induction al) auto

lemma parse_headers:
  "\<forall>h \<in> set hs. \<exists>k v. h = (k, String v) \<and> COLON \<notin> set k \<and> trimmed k \<and> trimmed v
        \<and> k \<noteq> js ''__proto__'' \<Longrightarrow> distinct (map fst (acc @ hs)) \<Longrightarrow>
     foldl (\<lambda>hs line. parse_header line hs) acc (map header_line hs) = acc @ hs"
proof (induction hs arbitrary: acc)
  case Nil
  then show ?case by simp
next
  case (Cons h hs)
  then obtain k v where h: "h = (k, String v)" "COLON \<notin> set k" "trimmed k" "trimmed v"
    "k \<noteq> js ''__proto__''" by auto
  with Cons.prems have "k \<notin> fst ` set acc" by auto
  with h have "parse_header (header_line h) acc = acc @ [h]"
    by (simp add: parse_header_line update_new)
  with Cons.IH [of "acc @ [h]"] Cons.prems show ?case by simp
qed

section \<open>One frame\<close>

definition head_lines :: "jsstring \<Rightarrow> headers \<Rightarrow> jsstring list" where
  "head_lines c hs = c # map header_line hs"

definition frame_text :: "jsstring \<Rightarrow> headers \<Rightarrow> jsstring \<Rightarrow> jsstring" where
  "frame_text c hs b = join_with [LF] (head_lines c hs) @ LF # LF # b"

lemma dec_string_line: "line_text (dec_string n)"
proof -
  have "\<not> is_space c \<and> c \<noteq> LF \<and> c \<noteq> NUL" if "c \<in> set (dec_string n)" for c
    using dec_string_set [OF that] by (auto simp: is_space_def)
  then show ?thesis by (auto simp: line_text_def trimmed_def)
qed

lemma toString_text:
  "frame_toString (Frame c (Some hs) (String b)) = frame_text c (hs @ length_header b) b"
proof -
  have "join_with [LF] ((c # map header_line (hs @ length_header b)) @ [LF # b])
      = frame_text c (hs @ length_header b) b"
    unfolding frame_text_def head_lines_def by (subst join_with_snoc) auto
  moreover have "js ''content-length:'' @ d = header_line (js ''content-length'', String d)" for d
    by (simp add: js_def header_line_def)
  ultimately show ?thesis
    by (cases "b = []") (simp_all add: frame_toString_def Frame_def nullish_def length_header_def)
qed

lemma header_line_text:
  assumes "wf_headers hs"
  shows "\<forall>l \<in> set (map header_line (hs @ length_header b)). l \<noteq> [] \<and> LF \<notin> set l \<and> NUL \<notin> set l"
proof -
  have "header_line h \<noteq> [] \<and> LF \<notin> set (header_line h) \<and> NUL \<notin> set (header_line h)"
    if "wf_header h" for h
    using that by (cases h rule: wf_header.cases) (auto simp: header_line_def line_text_def)
  moreover have "header_line (js ''content-length'', String (dec_string n)) \<noteq> []
      \<and> LF \<notin> set (header_line (js ''content-length'', String (dec_string n)))
      \<and> NUL \<notin> set (header_line (js ''content-length'', String (dec_string n)))" for n
    using dec_string_line [of n] by (simp add: header_line_def line_text_def js_def)
  ultimately show ?thesis using assms by (auto simp: wf_headers_def length_header_def)
qed

lemma parsed_headers:
  assumes "wf_headers hs"
  shows "foldl (\<lambda>hs line. parse_header line hs) [] (map header_line (hs @ length_header b))
    = hs @ length_header b"
proof -
  have "\<exists>k v. h = (k, String v) \<and> COLON \<notin> set k \<and> trimmed k \<and> trimmed v \<and> k \<noteq> js ''__proto__''"
    if "wf_header h" for h
    using that by (cases h rule: wf_header.cases) (auto simp: line_text_def)
  moreover have "COLON \<notin> set (js ''content-length'')" "trimmed (js ''content-length'')"
    "js ''content-length'' \<noteq> js ''__proto__''"
    by (simp_all add: js_def trimmed_def is_space_def)
  ultimately have 1: "\<forall>h \<in> set (hs @ length_header b). \<exists>k v. h = (k, String v) \<and> COLON \<notin> set k \<and> trimmed k
      \<and> trimmed v \<and> k \<noteq> js ''__proto__''"
    using assms dec_string_line by (auto simp: wf_headers_def length_header_def line_text_def)
  have "js ''content-length'' \<notin> fst ` set hs"
  proof
    assume "js ''content-length'' \<in> fst ` set hs"
    then obtain h where "h \<in> set hs" "fst h = js ''content-length''" by auto
    with assms show False
      by (cases h rule: wf_header.cases) (auto simp: wf_headers_def)
  qed
  with assms have "distinct (map fst ([] @ hs @ length_header b))"
    by (auto simp: wf_headers_def length_header_def)
  from parse_headers [OF 1 this] show ?thesis by simp
qed

text \<open>
  What \<open>unmarshallSingle\<close> makes of a frame whose content length is \<open>n\<close> and whose
  body is cut off at \<open>b\<close>.
\<close>

lemma header_content_length:
  assumes "wf_headers hs"
  shows "header (hs @ length_header b) ''content-length'' =
    (if b = [] then Undefined else String (dec_string (length b)))"
proof -
  have "wf_header h \<Longrightarrow> fst h \<noteq> js ''content-length''" for h
    by (cases h rule: wf_header.cases) auto
  with assms have "map_of hs (js ''content-length'') = None"
    unfolding map_of_eq_None_iff wf_headers_def by fastforce
  then show ?thesis by (simp add: header_def map_add_def length_header_def)
qed

lemma unmarshallSingle_text:
  assumes "wf_headers hs" "c \<noteq> []" "LF \<notin> set c" "take (length b) full = b" "NUL \<notin> set b"
  shows "unmarshallSingle (frame_text c (hs @ length_header full) b)
    = \<lparr>command = c, headers = hs @ length_header full, body = String b\<rparr>"
proof -
  let ?lines = "head_lines c (hs @ length_header full)"
  let ?head = "join_with [LF] ?lines" and ?data = "frame_text c (hs @ length_header full) b"
  have lines: "\<forall>l \<in> set ?lines. l \<noteq> [] \<and> LF \<notin> set l"
    using header_line_text [OF assms(1), of full] assms(2,3) by (auto simp: head_lines_def)
  then have div: "search_divider ?data = int (length ?head)"
    unfolding frame_text_def by (intro search_divider_join) (auto simp: head_lines_def)
  have "substring ?data (Some 0) (Some (int (length ?head))) = ?head"
    by (simp add: substring_def Let_def frame_text_def)
  then have split: "split_on LF (substring ?data (Some 0) (Some (int (length ?head)))) = ?lines"
    using lines by (simp add: split_on_join head_lines_def)
  have body: "parse_body ?data (int (length ?head) + 2) (hs @ length_header full) = b"
  proof (cases "full = []")
    case True
    with assms(4) have "b = []" by simp
    with True show ?thesis
      by (simp add: parse_body_def header_content_length [OF assms(1)] frame_text_def nat_add_distrib)
  next
    case False
    have "length b \<le> length full" using assms(4) by (metis length_take min.cobounded1)
    then have "drop (length ?head + 2) (take (min (length ?head + 2 + length full) (length ?data)) ?data) = b"
      by (simp add: frame_text_def)
    with False \<open>length b \<le> length full\<close> show ?thesis
      by (simp add: parse_body_def header_content_length [OF assms(1)] parseInt_dec substring_def
          frame_text_def Let_def nat_add_distrib min_def max_def)
  qed
  show ?thesis
    using parsed_headers [OF assms(1), of full]
    by (simp add: unmarshallSingle_def Let_def div split body)
      (use body in \<open>simp add: head_lines_def Frame_def nullish_def\<close>)
qed

section \<open>Streams of frames\<close>

definition wf_frame :: "frame \<Rightarrow> bool" where
  "wf_frame f \<longleftrightarrow> command f \<noteq> [] \<and> LF \<notin> set (command f) \<and> NUL \<notin> set (command f)
     \<and> wf_headers (headers f) \<and> (\<exists>b. body f = String b \<and> NUL \<notin> set b)"

definition received :: "frame \<Rightarrow> frame" where
  "received f = f\<lparr>headers := headers f @ length_header (value_text (body f))\<rparr>"

definition marshall_frame :: "frame \<Rightarrow> jsstring" where
  "marshall_frame f = marshall (command f) (Some (headers f)) (body f)"

lemma join_with_set: "set (join_with sep xs) \<subseteq> set sep \<union> \<Union> (set ` set xs)"
  by (induction sep xs rule: join_with.induct) auto

lemma join_with_prefix: "\<exists>t. join_with sep (x # xs) = x @ t"
  by (cases xs) auto

lemma frame_text_no_NUL:
  assumes "wf_headers hs" "NUL \<notin> set c" "NUL \<notin> set b"
  shows "NUL \<notin> set (frame_text c (hs @ length_header full) b)"
  using join_with_set [of "[LF]" "head_lines c (hs @ length_header full)"]
    header_line_text [OF assms(1), of full] assms(2,3)
  by (fastforce simp: frame_text_def head_lines_def)

lemma frame_text_start: "c \<noteq> [] \<Longrightarrow> \<exists>t. frame_text c hs b = hd c # t"
  using join_with_prefix [of "[LF]" c "map header_line hs"]
  by (cases c) (auto simp: frame_text_def head_lines_def)

lemma split_frames_text:
  assumes "wf_headers hs" "NUL \<notin> set c" "NUL \<notin> set b"
  shows "split_frames (frame_text c (hs @ length_header full) b @ NUL # s)
    = frame_text c (hs @ length_header full) b # split_frames (dropWhile (\<lambda>x. x = LF) s)"
  using frame_text_no_NUL [OF assms] by (rule split_frames_step)

lemma marshall_text:
  "body f = String b \<Longrightarrow>
     marshall_frame f = frame_text (command f) (headers f @ length_header b) b @ [NUL]"
  by (simp add: marshall_frame_def marshall_def toString_text)

lemma unmarshall_step:
  assumes "wf_frame f" "s = [] \<or> hd s \<noteq> LF"
  shows "unmarshall (marshall_frame f @ replicate n LF @ s) = received f # unmarshall s"
proof -
  from assms(1) obtain b where b: "body f = String b" "NUL \<notin> set b"
    and c: "command f \<noteq> []" "LF \<notin> set (command f)" "NUL \<notin> set (command f)"
    and h: "wf_headers (headers f)" by (auto simp: wf_frame_def)
  obtain x where x: "frame_text (command f) (headers f @ length_header b) b = hd (command f) # x"
    using frame_text_start [OF c(1)] by blast
  have "split_frames (marshall_frame f @ replicate n LF @ s) =
      frame_text (command f) (headers f @ length_header b) b # split_frames s"
    using split_frames_text [OF h c(3) b(2), of b "replicate n LF @ s"]
    by (simp add: marshall_text [OF b(1)] dropWhile_keepalive assms(2))
  moreover have "unmarshallSingle (frame_text (command f) (headers f @ length_header b) b) = received f"
    using unmarshallSingle_text [OF h c(1,2) _ b(2), of b] b(1) by (simp add: received_def)
  ultimately show ?thesis by (simp add: unmarshall_def) (simp add: x)
qed

text \<open>
  C17. Any sequence of well-formed frames, marshalled one behind another with any number
  of line feeds in between, is unmarshalled into the same frames in the same order, each
  with the length of its body as an additional header.
\<close>

theorem stream_roundtrip:
  "\<forall>(f, n) \<in> set fs. wf_frame f \<Longrightarrow>
     unmarshall (concat (map (\<lambda>(f, n). marshall_frame f @ replicate n LF) fs)) = map (received \<circ> fst) fs"
proof (induction fs)
  case Nil
  then show ?case by (simp add: unmarshall_def)
next
  case (Cons x fs)
  obtain f n where x: "x = (f, n)" by (cases x)
  let ?s = "concat (map (\<lambda>(f, n). marshall_frame f @ replicate n LF) fs)"
  have "?s = [] \<or> hd ?s \<noteq> LF"
  proof (cases fs)
    case (Cons y ys)
    obtain g m where y: "y = (g, m)" by (cases y)
    from Cons.prems Cons y have "wf_frame g" by auto
    then obtain b where b: "body g = String b" "command g \<noteq> []" "LF \<notin> set (command g)"
      by (auto simp: wf_frame_def)
    from frame_text_start [OF b(2)] obtain t where
      "frame_text (command g) (headers g @ length_header b) b = hd (command g) # t" by blast
    with b Cons y show ?thesis by (auto simp: marshall_text [OF b(1)] dest: hd_in_set)
  qed simp
  with Cons x show ?case using unmarshall_step [of f ?s n] by simp
qed

section \<open>Frames of a broker\<close>

text \<open>
  Frames as the protocol defines them: the lines of the command and the headers, each ended by
  a line feed, an empty line, the body and a NUL, with line feeds between the frames. The
  headers are in any order, with a content length among them or not; it counts octets, so it is
  at least the number of UTF-16 code units. Beyond that the client needs distinct names, names
  and values without white space at their ends, and a body without a NUL.
\<close>

fun plain_header :: "jsstring \<times> jsval \<Rightarrow> bool" where
  "plain_header (k, String v) = (line_text k \<and> line_text v \<and> COLON \<notin> set k \<and> k \<noteq> js ''__proto__'')"
| "plain_header h = False"

definition broker_frame :: "frame \<Rightarrow> bool" where
  "broker_frame f \<longleftrightarrow> command f \<noteq> [] \<and> LF \<notin> set (command f) \<and> NUL \<notin> set (command f)
     \<and> (\<forall>h \<in> set (headers f). plain_header h) \<and> distinct (map fst (headers f))
     \<and> (\<exists>b. body f = String b \<and> NUL \<notin> set b \<and>
          (map_of (headers f) (js ''content-length'') = None \<or>
           (\<exists>octets \<ge> length b. map_of (headers f) (js ''content-length'') = Some (String (dec_string octets)))))"

definition broker_text :: "frame \<Rightarrow> jsstring" where
  "broker_text f = frame_text (command f) (headers f) (value_text (body f)) @ [NUL]"

lemma plain_header_line:
  "plain_header h \<Longrightarrow> header_line h \<noteq> [] \<and> LF \<notin> set (header_line h) \<and> NUL \<notin> set (header_line h)"
  by (cases h rule: plain_header.cases) (auto simp: header_line_def line_text_def)

lemma unmarshallSingle_broker:
  assumes f: "broker_frame f"
  shows "unmarshallSingle (frame_text (command f) (headers f) (value_text (body f))) = f"
proof -
  obtain b where b: "body f = String b" "map_of (headers f) (js ''content-length'') = None \<or>
      (\<exists>octets \<ge> length b. map_of (headers f) (js ''content-length'') = Some (String (dec_string octets)))" "NUL \<notin> set b"
    using f unfolding broker_frame_def by blast
  let ?lines = "head_lines (command f) (headers f)"
  let ?head = "join_with [LF] ?lines" and ?data = "frame_text (command f) (headers f) b"
  have lines: "\<forall>l \<in> set ?lines. l \<noteq> [] \<and> LF \<notin> set l"
    using f plain_header_line by (auto simp: head_lines_def broker_frame_def)
  then have div: "search_divider ?data = int (length ?head)"
    unfolding frame_text_def by (intro search_divider_join) (auto simp: head_lines_def)
  have "substring ?data (Some 0) (Some (int (length ?head))) = ?head"
    by (simp add: substring_def Let_def frame_text_def)
  then have split: "split_on LF (substring ?data (Some 0) (Some (int (length ?head)))) = ?lines"
    using lines by (simp add: split_on_join head_lines_def)
  have "\<exists>k v. h = (k, String v) \<and> COLON \<notin> set k \<and> trimmed k \<and> trimmed v \<and> k \<noteq> js ''__proto__''"
    if "plain_header h" for h
    using that by (cases h rule: plain_header.cases) (auto simp: line_text_def)
  then have hs: "foldl (\<lambda>hs line. parse_header line hs) [] (map header_line (headers f)) = headers f"
    using parse_headers [of "headers f" "[]"] f by (simp add: broker_frame_def)
  have body: "parse_body ?data (int (length ?head) + 2) (headers f) = b"
    using b(2)
  proof
    assume "map_of (headers f) (js ''content-length'') = None"
    moreover have "takeWhile (\<lambda>c. c \<noteq> NUL) b = b"
      by (rule takeWhile_eq_all_conv [THEN iffD2]) (use b(3) in \<open>auto intro: gr0I\<close>)
    ultimately show ?thesis by (simp add: parse_body_def header_def frame_text_def nat_add_distrib)
  next
    assume "\<exists>octets \<ge> length b. map_of (headers f) (js ''content-length'') = Some (String (dec_string octets))"
    then obtain n where n: "length b \<le> n" "header (headers f) ''content-length'' = String (dec_string n)"
      by (auto simp: header_def)
    have "drop (length ?head + 2) (take (min (length ?head + 2 + n) (length ?data)) ?data) = b"
      using n(1) by (simp add: frame_text_def)
    with n show ?thesis
      by (simp add: parse_body_def parseInt_dec substring_def frame_text_def Let_def nat_add_distrib min_def max_def)
  qed
  have t: "value_text (body f) = b" and l: "hd ?lines = command f" "tl ?lines = map header_line (headers f)"
    by (simp_all add: b(1) head_lines_def)
  have "unmarshallSingle ?data = Frame (command f) (Some (headers f)) (String b)"
    unfolding unmarshallSingle_def Let_def div split l hs body ..
  then show ?thesis unfolding t using b(1) by (simp add: Frame_def nullish_def)
qed

lemma unmarshall_broker:
  "\<forall>(f, n) \<in> set fs. broker_frame f \<Longrightarrow>
     unmarshall (concat (map (\<lambda>(f, n). broker_text f @ replicate n LF) fs)) = map fst fs"
proof (induction fs)
  case Nil
  then show ?case by (simp add: unmarshall_def)
next
  case (Cons x fs)
  obtain f n where x: "x = (f, n)" by (cases x)
  let ?s = "concat (map (\<lambda>(f, n). broker_text f @ replicate n LF) fs)"
  let ?t = "frame_text (command f) (headers f) (value_text (body f))"
  have start: "\<exists>t. frame_text (command g) (headers g) b = hd (command g) # t \<and> hd (command g) \<noteq> LF"
    if "broker_frame g" for g b
    using that frame_text_start [of "command g" "headers g" b]
    by (auto simp: broker_frame_def dest: hd_in_set)
  have f: "broker_frame f" using Cons.prems by (simp add: x)
  have s: "?s = [] \<or> hd ?s \<noteq> LF"
  proof (cases fs)
    case (Cons y ys)
    obtain g m where y: "y = (g, m)" by (cases y)
    with Cons.prems Cons have "broker_frame g" by auto
    from start [OF this, of "value_text (body g)"] Cons y show ?thesis by (auto simp: broker_text_def)
  qed simp
  obtain b where b: "body f = String b" "NUL \<notin> set b" using f by (auto simp: broker_frame_def)
  have "\<forall>l \<in> set (head_lines (command f) (headers f)). NUL \<notin> set l"
    using f plain_header_line by (auto simp: head_lines_def broker_frame_def)
  then have "NUL \<notin> set ?t" using join_with_set [of "[LF]" "head_lines (command f) (headers f)"] b
    by (fastforce simp: frame_text_def)
  from split_frames_step [OF this, of "replicate n LF @ ?s"]
  have "split_frames (broker_text f @ replicate n LF @ ?s) = ?t # split_frames ?s"
    unfolding dropWhile_keepalive [OF s] by (simp add: broker_text_def)
  moreover have "?t \<noteq> []" using start [OF f] by (metis list.distinct(1))
  ultimately show ?case using Cons.IH Cons.prems unmarshallSingle_broker [OF f] by (simp add: x unmarshall_def)
qed

section \<open>A body with a NUL\<close>

text \<open>
  The content length does not protect a body that contains a NUL: the frame is cut
  off there although its header announces the whole body.
\<close>

theorem nul_cuts_body:
  assumes "c \<noteq> []" "LF \<notin> set c" "NUL \<notin> set c" "wf_headers hs" "NUL \<notin> set b"
  shows "\<exists>fs. unmarshall (marshall c (Some hs) (String (b @ NUL # rest))) =
    \<lparr>command = c, headers = hs @ length_header (b @ NUL # rest), body = String b\<rparr> # fs"
proof -
  let ?full = "b @ NUL # rest"
  have m: "marshall c (Some hs) (String ?full) =
      frame_text c (hs @ length_header ?full) b @ NUL # rest @ [NUL]"
    by (simp add: marshall_def toString_text) (simp add: frame_text_def)
  from frame_text_start [OF assms(1)] obtain t where
    t: "frame_text c (hs @ length_header ?full) b = hd c # t" by blast
  have "unmarshallSingle (frame_text c (hs @ length_header ?full) b) =
      \<lparr>command = c, headers = hs @ length_header ?full, body = String b\<rparr>"
    using unmarshallSingle_text [OF assms(4,1,2) _ assms(5), of ?full] by simp
  with t show ?thesis
    unfolding m unmarshall_def split_frames_text [OF assms(4,3,5)] by simp
qed

definition example_frame :: frame where
  "example_frame = \<lparr>command = js ''MESSAGE'', headers = [(js ''subscription'', String (js ''sub-0''))],
     body = String (js ''hi'')\<rparr>"

lemma wf_example_frame: "wf_frame example_frame"
  by (auto simp: example_frame_def wf_frame_def wf_headers_def line_text_def trimmed_def is_space_def js_def)

lemma broker_example_frame: "broker_frame example_frame" "broker_frame (received example_frame)"
proof -
  have "js ''subscription'' \<noteq> js ''content-length''" "js ''content-length'' \<noteq> js ''__proto__''"
    "js ''subscription'' \<noteq> js ''__proto__''" "js ''hi'' \<noteq> []"
    by (simp_all add: js_def)
  moreover have "line_text (js ''subscription'')" "line_text (js ''content-length'')" "line_text (js ''sub-0'')"
    "COLON \<notin> set (js ''subscription'')" "COLON \<notin> set (js ''content-length'')" "NUL \<notin> set (js ''hi'')"
    "js ''MESSAGE'' \<noteq> []" "LF \<notin> set (js ''MESSAGE'')" "NUL \<notin> set (js ''MESSAGE'')"
    by (simp_all add: line_text_def trimmed_def is_space_def js_def)
  moreover have "\<exists>octets \<ge> length (js ''hi''). dec_string (length (js ''hi'')) = dec_string octets" by blast
  ultimately show "broker_frame example_frame" "broker_frame (received example_frame)"
    using dec_string_line by (simp_all add: broker_frame_def example_frame_def received_def length_header_def)
qed

theorem stream_roundtrip_witness:
  "unmarshall (marshall_frame example_frame @ [LF, LF] @ marshall_frame example_frame)
     = [received example_frame, received example_frame]"
  using stream_roundtrip [of "[(example_frame, 2), (example_frame, 0)]"]
  by (simp add: wf_example_frame eval_nat_numeral)

theorem nul_cuts_body_witness:
  "body (hd (unmarshall (marshall (js ''SEND'') (Some []) (String [65, NUL, 66])))) = String [65]"
  using nul_cuts_body [of "js ''SEND''" "[]" "[65]" "[66]"]
  by (auto simp: wf_headers_def js_def)

end
