(* ===== verification/StompClient.thy ===== *)
theory StompClient
  imports StompFrame MqttState
begin

text \<open>
  The client of \<open>stomp.js\<close>: its state, its operations and the handlers it installs on a
  web socket. A callback is a number, or \<open>None\<close> where the value given is no function; a
  call of one is an event of the log, and the application is taken not to call the client
  back. Interval timers are numbered; \<open>tick\<close> is one firing. The time \<open>Date.now()\<close> is
  an argument. A web socket throws when it is used while connecting and drops what is
  sent once it is closed; the page is a browser's, so \<open>window\<close> exists.
\<close>

section \<open>State\<close>

datatype stomp_event =
    StompSent jsstring
  | StompClosed
  | CalledConnect nat frame
  | CalledMessage nat frame
  | CalledReceipt nat frame
  | CalledError nat frame
  | CalledLost nat jsstring
  | CalledDisconnect nat

datatype stomp_timer = PingTimer | PongTimer "int option"

record stomp =
  ws_url :: jsstring
  ws_state :: ready_state
  counter :: nat
  st_connected :: bool
  hb_outgoing :: int
  hb_incoming :: int
  subscriptions :: "(jsstring \<times> nat option) list"
  connectCallback :: "nat option"
  errorCallback :: "nat option"
  onreceipt :: "nat option"
  st_login :: jsval
  st_passcode :: jsval
  st_vhost :: jsval
  handlers_set :: bool
  onclose_set :: bool
  timers :: "(nat \<times> stomp_timer) list"
  next_interval :: nat
  st_pinger :: "nat option"
  st_ponger :: "nat option"
  serverActivity :: "int option"
  debug :: bool
  debug_log :: "jsstring list"
  st_log :: "stomp_event list"

type_synonym st_outcome = "stomp \<times> js_error option"

definition StompClient :: "jsstring \<Rightarrow> ready_state \<Rightarrow> stomp" where
  "StompClient url state =
     \<lparr>ws_url = url, ws_state = state, counter = 0, st_connected = False, hb_outgoing = 10000,
      hb_incoming = 10000, subscriptions = [], connectCallback = None, errorCallback = None,
      onreceipt = None, st_login = Undefined, st_passcode = Undefined, st_vhost = Undefined,
      handlers_set = False, onclose_set = False, timers = [], next_interval = 1, st_pinger = None,
      st_ponger = None, serverActivity = None, debug = False, debug_log = [], st_log = []\<rparr>"

definition st_emit :: "stomp_event \<Rightarrow> stomp \<Rightarrow> stomp" where
  "st_emit e c = c\<lparr>st_log := st_log c @ [e]\<rparr>"

definition st_debug :: "jsstring \<Rightarrow> stomp \<Rightarrow> stomp" where
  "st_debug t c = (if debug c then c\<lparr>debug_log := debug_log c @ [t]\<rparr> else c)"

fun st_then :: "st_outcome \<Rightarrow> (stomp \<Rightarrow> st_outcome) \<Rightarrow> st_outcome" where
  "st_then (c, None) f = f c"
| "st_then (c, Some e) f = (c, Some e)"

section \<open>Sending\<close>

definition ws_send :: "jsstring \<Rightarrow> stomp \<Rightarrow> st_outcome" where
  "ws_send out c =
     (case ws_state c of
        Connecting \<Rightarrow> (c, Some DomException)
      | Open \<Rightarrow> (st_emit (StompSent out) c, None)
      | Closed \<Rightarrow> (c, None))"

definition transmit :: "string \<Rightarrow> headers option \<Rightarrow> jsval \<Rightarrow> stomp \<Rightarrow> st_outcome" where
  "transmit cmd hs b c =
     (let out = marshall (js cmd) hs b
      in ws_send out (st_debug (js ''>>> '' @ out) c))"

section \<open>Heart beats\<close>

definition nth_value :: "int option list \<Rightarrow> nat \<Rightarrow> int option" where
  "nth_value vs i = (if i < length vs then vs ! i else None)"

definition ttl_text :: "int option \<Rightarrow> jsstring" where
  "ttl_text t = (case t of None \<Rightarrow> js ''NaN'' | Some n \<Rightarrow> int_text n)"

definition start_timer :: "stomp_timer \<Rightarrow> stomp \<Rightarrow> stomp" where
  "start_timer t c =
     c\<lparr>timers := timers c @ [(next_interval c, t)], next_interval := next_interval c + 1\<rparr>"

definition setupPinger :: "int option \<Rightarrow> stomp \<Rightarrow> stomp" where
  "setupPinger serverIncoming c =
     (if hb_outgoing c = 0 \<or> serverIncoming = Some 0 then c
      else
        (let ttl = map_option (max (hb_outgoing c)) serverIncoming
         in (start_timer PingTimer (st_debug (js ''send PING every '' @ ttl_text ttl @ js ''ms'') c))
              \<lparr>st_pinger := Some (next_interval c)\<rparr>))"

definition setupPonger :: "int option \<Rightarrow> stomp \<Rightarrow> stomp" where
  "setupPonger serverOutgoing c =
     (if hb_incoming c = 0 \<or> serverOutgoing = Some 0 then c
      else
        (let ttl = map_option (max (hb_incoming c)) serverOutgoing
         in (start_timer (PongTimer ttl) (st_debug (js ''check PONG every '' @ ttl_text ttl @ js ''ms'') c))
              \<lparr>st_ponger := Some (next_interval c)\<rparr>))"

definition setupHeartbeat :: "headers \<Rightarrow> stomp \<Rightarrow> st_outcome" where
  "setupHeartbeat hs c =
     (if header hs ''version'' \<noteq> String (js ''1.1'') \<and> header hs ''version'' \<noteq> String (js ''1.2'')
      then (c, None)
      else case header hs ''heart-beat'' of
        String s \<Rightarrow>
          (let vs = map parseInt (split_on 44 s)
           in (setupPonger (nth_value vs 0) (setupPinger (nth_value vs 1) c), None))
      | _ \<Rightarrow> (c, Some TypeError))"

definition cleanUp :: "stomp \<Rightarrow> stomp" where
  "cleanUp c =
     (let c1 = (if ws_state c = Closed then c else st_emit StompClosed c)\<lparr>ws_state := Closed, st_connected := False\<rparr>;
          c2 = (case st_pinger c1 of None \<Rightarrow> c1 | Some i \<Rightarrow> c1\<lparr>timers := AList.delete i (timers c1)\<rparr>)
      in case st_ponger c2 of None \<Rightarrow> c2 | Some i \<Rightarrow> c2\<lparr>timers := AList.delete i (timers c2)\<rparr>)"

definition stomp_tick :: "nat \<Rightarrow> int \<Rightarrow> stomp \<Rightarrow> st_outcome" where
  "stomp_tick i now c =
     (case map_of (timers c) i of
        None \<Rightarrow> (c, None)
      | Some PingTimer \<Rightarrow> st_then (ws_send [LF] c) (\<lambda>c1. (st_debug (js ''>>> PING'') c1, None))
      | Some (PongTimer ttl) \<Rightarrow>
          (case (ttl, serverActivity c) of
             (Some t, Some a) \<Rightarrow>
               if now - a > t * 2 then
                 (cleanUp (st_debug (js ''did not receive server activity for the last ''
                    @ int_text (now - a) @ js ''ms'') c), None)
               else (c, None)
           | _ \<Rightarrow> (c, None)))"

section \<open>Receiving\<close>

definition call_opt :: "nat option \<Rightarrow> (nat \<Rightarrow> stomp_event) \<Rightarrow> stomp \<Rightarrow> stomp" where
  "call_opt cb e c = (case cb of None \<Rightarrow> c | Some k \<Rightarrow> st_emit (e k) c)"

definition dispatch :: "frame \<Rightarrow> stomp \<Rightarrow> st_outcome" where
  "dispatch f c =
     (if command f = js ''CONNECTED'' then
        (let c1 = st_debug (js ''connected to server '' @ value_text (header (headers f) ''server'')) c
         in st_then (setupHeartbeat (headers f) (c1\<lparr>st_connected := True\<rparr>))
              (\<lambda>c2. (call_opt (connectCallback c2) (\<lambda>k. CalledConnect k f) c2, None)))
      else if command f = js ''MESSAGE'' then
        (case map_of (subscriptions c) (value_text (header (headers f) ''subscription'')) of
           None \<Rightarrow> (c, None)
         | Some cb \<Rightarrow> (call_opt cb (\<lambda>k. CalledMessage k f) c, None))
      else if command f = js ''RECEIPT'' then
        (call_opt (onreceipt c) (\<lambda>k. CalledReceipt k f) c, None)
      else if command f = js ''ERROR'' then
        (call_opt (errorCallback c) (\<lambda>k. CalledError k f) c, None)
      else (st_debug (js ''Unhandled frame: '' @ frame_toString f) c, None))"

fun dispatch_all :: "frame list \<Rightarrow> stomp \<Rightarrow> st_outcome" where
  "dispatch_all [] c = (c, None)"
| "dispatch_all (f # fs) c = st_then (dispatch f c) (dispatch_all fs)"

datatype ws_data = TextData jsstring | BinaryData buffer

text \<open>The bytes of a binary message become one character each.\<close>

text \<open>The frames a transmission carries, none for a heart beat, and the state they meet.\<close>

definition accept_data :: "ws_data \<Rightarrow> int \<Rightarrow> stomp \<Rightarrow> stomp \<times> frame list" where
  "accept_data evt now c =
     (let c0 = (case evt of TextData s \<Rightarrow> c
                | BinaryData b \<Rightarrow> st_debug (js ''--- got data length: '' @ dec_string (length b)) c);
          data = (case evt of TextData s \<Rightarrow> s | BinaryData b \<Rightarrow> b);
          c1 = c0\<lparr>serverActivity := Some now\<rparr>
      in if data = [LF] then (st_debug (js ''<<< PONG'') c1, [])
         else (st_debug (js ''<<< '' @ data) c1, unmarshall data))"

definition on_message :: "ws_data \<Rightarrow> int \<Rightarrow> stomp \<Rightarrow> st_outcome" where
  "on_message evt now c =
     (if \<not> handlers_set c then (c, None)
      else case accept_data evt now c of (c1, fs) \<Rightarrow> dispatch_all fs c1)"

definition on_close :: "stomp \<Rightarrow> stomp" where
  "on_close c =
     (let c0 = c\<lparr>ws_state := Closed\<rparr>; msg = js ''Whoops! Lost connection to '' @ ws_url c
      in if onclose_set c0 then call_opt (errorCallback c0) (\<lambda>k. CalledLost k msg) (st_debug msg c0)
         else c0)"

definition optional_header :: "string \<Rightarrow> jsval \<Rightarrow> headers" where
  "optional_header k v = (if truthy v then [(js k, v)] else [])"

definition on_open :: "stomp \<Rightarrow> st_outcome" where
  "on_open c =
     (let c0 = c\<lparr>ws_state := Open\<rparr>
      in if \<not> handlers_set c0 then (c0, None)
         else transmit ''CONNECT''
           (Some ([(js ''accept-version'', String (js ''1.1,1.0'')),
                   (js ''heart-beat'', String (int_text (hb_outgoing c) @ js '','' @ int_text (hb_incoming c)))]
                  @ optional_header ''host'' (st_vhost c) @ optional_header ''login'' (st_login c)
                  @ optional_header ''passcode'' (st_passcode c)))
           Undefined (st_debug (js ''Web Socket Opened...'') c0))"

section \<open>Operations\<close>

definition stomp_connect ::
  "jsval \<Rightarrow> jsval \<Rightarrow> nat option \<Rightarrow> nat option \<Rightarrow> jsval \<Rightarrow> stomp \<Rightarrow> stomp" where
  "stomp_connect login passcode cb ecb vhost c =
     (st_debug (js ''Opening Web Socket...'') (c\<lparr>connectCallback := cb\<rparr>))
       \<lparr>errorCallback := ecb, st_login := login, st_passcode := passcode, st_vhost := vhost,
        handlers_set := True, onclose_set := True\<rparr>"

definition stomp_disconnect :: "nat option \<Rightarrow> stomp \<Rightarrow> st_outcome" where
  "stomp_disconnect cb c =
     st_then (transmit ''DISCONNECT'' None Undefined c) (\<lambda>c1.
       (call_opt cb CalledDisconnect (cleanUp (c1\<lparr>onclose_set := False\<rparr>)), None))"

text \<open>
  The headers an operation is given are an object of the caller, to which it adds its own;
  \<open>subscribe\<close> returns the object as it leaves it, and the identifier.
\<close>

definition the_headers :: "headers option \<Rightarrow> headers" where
  "the_headers hs = (case hs of None \<Rightarrow> [] | Some h \<Rightarrow> h)"

definition stomp_send :: "jsval \<Rightarrow> headers option \<Rightarrow> jsval \<Rightarrow> stomp \<Rightarrow> st_outcome" where
  "stomp_send destination hs b c =
     transmit ''SEND'' (Some (AList.update (js ''destination'') destination (the_headers hs)))
       (if nullish b then String [] else b) c"

definition subscription_headers :: "jsval \<Rightarrow> headers option \<Rightarrow> stomp \<Rightarrow> headers" where
  "subscription_headers destination hs c =
     (let h0 = the_headers hs;
          h1 = (if truthy (header h0 ''id'') then h0
                else AList.update (js ''id'') (String (js ''sub-'' @ dec_string (counter c))) h0)
      in AList.update (js ''destination'') destination h1)"

definition stomp_subscribe ::
  "jsval \<Rightarrow> nat option \<Rightarrow> headers option \<Rightarrow> stomp \<Rightarrow> st_outcome \<times> headers \<times> jsval" where
  "stomp_subscribe destination cb hs c =
     (let h = subscription_headers destination hs c;
          c1 = (if truthy (header (the_headers hs) ''id'') then c else c\<lparr>counter := counter c + 1\<rparr>);
          c2 = c1\<lparr>subscriptions := AList.update (value_text (header h ''id'')) cb (subscriptions c1)\<rparr>
      in (transmit ''SUBSCRIBE'' (Some h) Undefined c2, h, header h ''id''))"

definition stomp_unsubscribe :: "jsval \<Rightarrow> stomp \<Rightarrow> st_outcome" where
  "stomp_unsubscribe sid c =
     transmit ''UNSUBSCRIBE'' (Some [(js ''id'', sid)]) Undefined
       (c\<lparr>subscriptions := AList.delete (value_text sid) (subscriptions c)\<rparr>)"

definition stomp_begin :: "jsval \<Rightarrow> stomp \<Rightarrow> st_outcome" where
  "stomp_begin transaction = transmit ''BEGIN'' (Some [(js ''transaction'', transaction)]) Undefined"

definition stomp_commit :: "jsval \<Rightarrow> stomp \<Rightarrow> st_outcome" where
  "stomp_commit transaction = transmit ''COMMIT'' (Some [(js ''transaction'', transaction)]) Undefined"

definition stomp_abort :: "jsval \<Rightarrow> stomp \<Rightarrow> st_outcome" where
  "stomp_abort transaction = transmit ''ABORT'' (Some [(js ''transaction'', transaction)]) Undefined"

definition ack_headers :: "jsval \<Rightarrow> jsval \<Rightarrow> headers option \<Rightarrow> headers" where
  "ack_headers messageID subscription hs =
     AList.update (js ''subscription'') subscription
       (AList.update (js ''message-id'') messageID (the_headers hs))"

definition stomp_ack :: "jsval \<Rightarrow> jsval \<Rightarrow> headers option \<Rightarrow> stomp \<Rightarrow> st_outcome" where
  "stomp_ack messageID subscription hs =
     transmit ''ACK'' (Some (ack_headers messageID subscription hs)) Undefined"

definition stomp_nack :: "jsval \<Rightarrow> jsval \<Rightarrow> headers option \<Rightarrow> stomp \<Rightarrow> st_outcome" where
  "stomp_nack messageID subscription hs =
     transmit ''NACK'' (Some (ack_headers messageID subscription hs)) Undefined"

lemmas st_defs = st_emit_def st_debug_def ws_send_def transmit_def call_opt_def start_timer_def

section \<open>Messages reach their subscriptions\<close>

definition handler_events :: "stomp \<Rightarrow> frame \<Rightarrow> stomp_event list" where
  "handler_events c f =
     (case map_of (subscriptions c) (value_text (header (headers f) ''subscription'')) of
        Some (Some k) \<Rightarrow> [CalledMessage k f] | _ \<Rightarrow> [])"

lemma dispatch_message:
  "command f = js ''MESSAGE'' \<Longrightarrow>
     dispatch f c = (c\<lparr>st_log := st_log c @ handler_events c f\<rparr>, None)"
  by (simp add: dispatch_def js_eq_iff handler_events_def call_opt_def st_emit_def
      split: option.split)

lemma dispatch_messages:
  "\<forall>f \<in> set fs. command f = js ''MESSAGE'' \<Longrightarrow>
     dispatch_all fs c = (c\<lparr>st_log := st_log c @ concat (map (handler_events c) fs)\<rparr>, None)"
proof (induction fs arbitrary: c)
  case Nil
  then show ?case by simp
next
  case (Cons f fs)
  have "handler_events (c\<lparr>st_log := l\<rparr>) = handler_events c" for l
    by (rule ext) (simp add: handler_events_def)
  with Cons show ?case by (simp add: dispatch_message)
qed

lemma header_received: "k \<noteq> ''content-length'' \<Longrightarrow> header (headers (received f)) k = header (headers f) k"
  by (simp add: header_def received_def length_header_def map_add_def js_eq_iff split: option.split)

lemma accept_frames:
  assumes "\<forall>f \<in> set fs. wf_frame f"
  shows "accept_data (TextData (concat (map marshall_frame fs))) now c =
    (st_debug (js ''<<< '' @ concat (map marshall_frame fs)) (c\<lparr>serverActivity := Some now\<rparr>), map received fs)"
proof -
  let ?data = "concat (map marshall_frame fs)"
  have "unmarshall ?data = map received fs"
    using stream_roundtrip [of "map (\<lambda>f. (f, 0)) fs"] assms by (simp add: comp_def)
  moreover have "?data \<noteq> [LF]"
  proof
    assume eq: "?data = [LF]"
    then obtain f where "f \<in> set fs" by (cases fs) auto
    moreover have "NUL \<in> set (marshall_frame f)" for f
      by (simp add: marshall_frame_def marshall_def)
    ultimately have "NUL \<in> set ?data" by auto
    with eq show False by simp
  qed
  ultimately show ?thesis by (simp add: accept_data_def Let_def)
qed

lemma accept_broker:
  assumes "\<forall>(f, n) \<in> set fs. broker_frame f"
  shows "accept_data (TextData (concat (map (\<lambda>(f, n). broker_text f @ replicate n LF) fs))) now c =
    (st_debug (js ''<<< '' @ concat (map (\<lambda>(f, n). broker_text f @ replicate n LF) fs)) (c\<lparr>serverActivity := Some now\<rparr>), map fst fs)"
proof -
  let ?data = "concat (map (\<lambda>(f, n). broker_text f @ replicate n LF) fs)"
  have "?data \<noteq> [LF]"
  proof
    assume eq: "?data = [LF]"
    then obtain f n where "(f, n) \<in> set fs" by (cases fs) auto
    then have "NUL \<in> set ?data" by (force simp: broker_text_def)
    with eq show False by simp
  qed
  with unmarshall_broker [OF assms] show ?thesis by (simp add: accept_data_def Let_def)
qed

text \<open>
  C18. The messages a broker writes into one transmission are handed over one by one, in
  order, each exactly once to the callback of the subscription it names, with the headers and
  the body the broker wrote; a message of no subscription reaches nobody. The frames are in
  the form of the protocol (\<open>broker_frame\<close>), with line feeds between them: header names are
  distinct, names and values have no white space at their ends, and the bodies contain no NUL;
  the callbacks are taken to return.
  A body with a NUL is cut whatever its content length (\<open>nul_cuts_body\<close>).
\<close>

theorem messages_delivered:
  assumes h: "handlers_set c"
    and fs: "\<forall>(f, n) \<in> set fs. broker_frame f \<and> command f = js ''MESSAGE''"
  shows "\<exists>c'. on_message (TextData (concat (map (\<lambda>(f, n). broker_text f @ replicate n LF) fs))) now c = (c', None) \<and>
     st_log c' = st_log c @ concat (map (\<lambda>(f, n).
       case map_of (subscriptions c) (value_text (header (headers f) ''subscription'')) of
         Some (Some k) \<Rightarrow> [CalledMessage k f] | _ \<Rightarrow> []) fs)"
proof -
  let ?data = "concat (map (\<lambda>(f, n). broker_text f @ replicate n LF) fs)"
  let ?c = "st_debug (js ''<<< '' @ ?data) (c\<lparr>serverActivity := Some now\<rparr>)"
  have "\<forall>(f, n) \<in> set fs. broker_frame f" using fs by auto
  then have "accept_data (TextData ?data) now c = (?c, map fst fs)" by (rule accept_broker)
  moreover have "\<forall>f \<in> set (map fst fs). command f = js ''MESSAGE''" using fs by auto
  ultimately have "on_message (TextData ?data) now c =
      (?c\<lparr>st_log := st_log ?c @ concat (map (handler_events ?c) (map fst fs))\<rparr>, None)"
    using h dispatch_messages [of "map fst fs" ?c] by (simp add: on_message_def)
  moreover have "st_log ?c = st_log c" "subscriptions ?c = subscriptions c"
    by (simp_all add: st_debug_def)
  ultimately show ?thesis
    by (simp add: handler_events_def comp_def split_def)
qed

section \<open>Identifiers of subscriptions\<close>

definition auto_id :: "nat \<Rightarrow> jsstring" where
  "auto_id n = js ''sub-'' @ dec_string n"

lemma auto_id_inject: "auto_id m = auto_id n \<longleftrightarrow> m = n"
  by (simp add: auto_id_def dec_string_def js_eq_iff show_base_inject)

definition ids_below :: "stomp \<Rightarrow> bool" where
  "ids_below c \<longleftrightarrow> (\<forall>n. map_of (subscriptions c) (auto_id n) \<noteq> None \<longrightarrow> n < counter c)"

text \<open>What the operations and events other than subscribing leave alone.\<close>

definition keeps_subs :: "stomp \<Rightarrow> stomp \<Rightarrow> bool" where
  "keeps_subs c c' \<longleftrightarrow> subscriptions c' = subscriptions c \<and> counter c' = counter c"

lemma keeps_subs_trans: "keeps_subs a b \<Longrightarrow> keeps_subs b c \<Longrightarrow> keeps_subs a c"
  by (simp add: keeps_subs_def)

lemma keeps_st_then:
  "keeps_subs c (fst r) \<Longrightarrow> (\<And>c1. keeps_subs c1 (fst (f c1))) \<Longrightarrow> keeps_subs c (fst (st_then r f))"
  by (cases "(r, f)" rule: st_then.cases) (auto intro: keeps_subs_trans)

lemma keeps_basic:
  "keeps_subs c (st_emit e c)" "keeps_subs c (st_debug t c)" "keeps_subs c (start_timer tm c)"
  "keeps_subs c (call_opt cb ev c)" "keeps_subs c (fst (ws_send out c))"
  "keeps_subs c (fst (transmit cmd hs b c))" "keeps_subs c (cleanUp c)"
  "keeps_subs c (setupPinger v c)" "keeps_subs c (setupPonger v c)"
  by (simp_all add: keeps_subs_def st_defs cleanUp_def setupPinger_def setupPonger_def Let_def
      split: ready_state.split option.split)

lemmas keeps_simps [simp] =
  keeps_basic [unfolded keeps_subs_def, THEN conjunct1]
  keeps_basic [unfolded keeps_subs_def, THEN conjunct2]

lemma keeps_setupHeartbeat: "keeps_subs c (fst (setupHeartbeat hs c))"
  by (auto simp: setupHeartbeat_def Let_def keeps_subs_def split: jsval.split)

lemma keeps_dispatch: "keeps_subs c (fst (dispatch f c))"
proof -
  have "keeps_subs c (fst (st_then (setupHeartbeat hs (st_debug t c\<lparr>st_connected := True\<rparr>)) g))"
    if "\<And>c1. keeps_subs c1 (fst (g c1))" for hs t g
    using keeps_setupHeartbeat [of "st_debug t c\<lparr>st_connected := True\<rparr>" hs] that
    by (intro keeps_st_then) (simp_all add: keeps_subs_def)
  then show ?thesis
    by (simp add: dispatch_def Let_def keeps_subs_def split: option.split)
qed

lemma keeps_dispatch_all: "keeps_subs c (fst (dispatch_all fs c))"
proof (induction fs arbitrary: c)
  case Nil
  show ?case by (simp add: keeps_subs_def)
next
  case (Cons f fs)
  show ?case unfolding dispatch_all.simps by (rule keeps_st_then [OF keeps_dispatch Cons])
qed

lemma keeps_on_message: "keeps_subs c (fst (on_message evt now c))"
proof -
  define c0 where "c0 = (case evt of TextData s \<Rightarrow> c
     | BinaryData b \<Rightarrow> st_debug (js ''--- got data length: '' @ dec_string (length b)) c)"
  have 0: "keeps_subs c (c0\<lparr>serverActivity := Some now\<rparr>)"
    by (simp add: c0_def keeps_subs_def split: ws_data.split)
  have "keeps_subs c (fst (dispatch_all fs (st_debug t (c0\<lparr>serverActivity := Some now\<rparr>))))" for fs t
    using keeps_subs_trans [OF 0 keeps_subs_trans [OF keeps_basic(2) keeps_dispatch_all]] .
  then show ?thesis using 0
    by (simp add: on_message_def accept_data_def Let_def keeps_subs_def flip: c0_def)
qed

lemma keeps_tick: "keeps_subs c (fst (stomp_tick i now c))"
proof -
  have "keeps_subs c (fst (st_then (ws_send s c) (\<lambda>c1. (st_debug t c1, None))))" for s t
    by (rule keeps_st_then) (simp_all add: keeps_basic)
  then show ?thesis
    by (auto simp: stomp_tick_def keeps_subs_def split: option.split stomp_timer.split)
qed

lemma keeps_open_close:
  "keeps_subs c (fst (on_open c))" "keeps_subs c (on_close c)"
  by (simp_all add: on_open_def on_close_def Let_def keeps_subs_def)

lemma keeps_connect: "keeps_subs c (stomp_connect l p cb ecb v c)"
  by (simp add: stomp_connect_def keeps_subs_def)

lemma keeps_disconnect: "keeps_subs c (fst (stomp_disconnect cb c))"
  unfolding stomp_disconnect_def
  by (rule keeps_st_then) (simp_all add: keeps_basic, simp add: keeps_subs_def)

text \<open>
  The operations and events of a client. An application may name a subscription itself,
  but not by a name the client makes up.
\<close>

inductive stomp_step :: "stomp \<Rightarrow> stomp \<Rightarrow> bool" where
  step_connect: "stomp_step c (stomp_connect login passcode cb ecb vhost c)"
| step_subscribe:
    "\<forall>n. truthy (header (the_headers hs) ''id'') \<longrightarrow>
       auto_id n \<noteq> value_text (header (the_headers hs) ''id'') \<Longrightarrow>
     stomp_step c (fst (fst (stomp_subscribe d cb hs c)))"
| step_unsubscribe: "stomp_step c (fst (stomp_unsubscribe sid c))"
| step_transmit: "stomp_step c (fst (transmit cmd hs b c))"
| step_disconnect: "stomp_step c (fst (stomp_disconnect cb c))"
| step_message: "stomp_step c (fst (on_message evt now c))"
| step_open: "stomp_step c (fst (on_open c))"
| step_close: "stomp_step c (on_close c)"
| step_tick: "stomp_step c (fst (stomp_tick i now c))"

definition stomp_reachable :: "stomp \<Rightarrow> bool" where
  "stomp_reachable c \<longleftrightarrow> (\<exists>url state. stomp_step\<^sup>*\<^sup>* (StompClient url state) c)"

lemma ids_below_keeps: "keeps_subs c c' \<Longrightarrow> ids_below c \<Longrightarrow> ids_below c'"
  by (simp add: keeps_subs_def ids_below_def)

lemma header_update: "header (AList.update (js k) v hs) l = (if l = k then v else header hs l)"
  by (simp add: header_def map_of_update js_eq_iff)

lemma subscription_id:
  "header (subscription_headers d hs c) ''id'' =
     (if truthy (header (the_headers hs) ''id'') then header (the_headers hs) ''id''
      else String (auto_id (counter c)))"
  by (simp add: subscription_headers_def Let_def header_update auto_id_def)

lemma subscribe_state:
  "subscriptions (fst (fst (stomp_subscribe d cb hs c))) =
     AList.update (value_text (header (subscription_headers d hs c) ''id'')) cb (subscriptions c)"
  "counter (fst (fst (stomp_subscribe d cb hs c))) =
     (if truthy (header (the_headers hs) ''id'') then counter c else counter c + 1)"
  by (simp_all add: stomp_subscribe_def Let_def)

lemma ids_below_step: "stomp_step c c' \<Longrightarrow> ids_below c \<Longrightarrow> ids_below c'"
proof (induction rule: stomp_step.induct)
  case (step_subscribe hs c d cb)
  then show ?case
    by (auto simp: ids_below_def subscribe_state subscription_id map_of_update auto_id_inject
        less_Suc_eq split: if_splits)
next
  case (step_unsubscribe c sid)
  then show ?case
    by (auto simp: ids_below_def stomp_unsubscribe_def map_of_delete split: if_splits)
qed (blast intro: ids_below_keeps keeps_connect keeps_basic keeps_disconnect keeps_on_message
    keeps_open_close keeps_tick)+

lemma reachable_ids_below: "stomp_reachable c \<Longrightarrow> ids_below c"
proof -
  have "stomp_step\<^sup>*\<^sup>* a b \<Longrightarrow> ids_below a \<Longrightarrow> ids_below b" for a b
    by (induction rule: rtranclp_induct) (auto intro: ids_below_step)
  moreover have "ids_below (StompClient url state)" for url state
    by (simp add: ids_below_def StompClient_def)
  ultimately show "stomp_reachable c \<Longrightarrow> ids_below c" unfolding stomp_reachable_def by blast
qed

lemma alist_update_new: "map_of al k = None \<Longrightarrow> AList.update k v al = al @ [(k, v)]"
  by (induction al) (auto split: if_splits)

text \<open>
  In every reachable state a subscription that is given no identifier gets one
  that no subscription has: it is added and replaces none.
\<close>

theorem subscription_is_new:
  assumes "stomp_reachable c" and "\<not> truthy (header (the_headers hs) ''id'')"
  shows "subscriptions (fst (fst (stomp_subscribe d cb hs c))) =
      subscriptions c @ [(auto_id (counter c), cb)]
    \<and> snd (snd (stomp_subscribe d cb hs c)) = String (auto_id (counter c))"
proof -
  have "map_of (subscriptions c) (auto_id (counter c)) = None"
    using reachable_ids_below [OF assms(1)] unfolding ids_below_def by blast
  with assms(2) show ?thesis
    by (simp add: subscribe_state subscription_id alist_update_new stomp_subscribe_def Let_def)
qed

section \<open>Heart beats\<close>

lemma split_heart_beat:
  "split_on 44 (dec_string a @ 44 # dec_string b) = [dec_string a, dec_string b]"
proof -
  have "44 \<notin> set (dec_string n)" for n using dec_string_set [of 44 n] by auto
  then show ?thesis by (simp add: split_on_append split_on_no_sep)
qed

text \<open>The timers a client has when it has just been connected.\<close>

definition watched :: "int \<Rightarrow> nat \<Rightarrow> stomp \<Rightarrow> bool" where
  "watched T i c \<longleftrightarrow> st_ponger c = Some i \<and> map_of (timers c) i = Some (PongTimer (Some T))
     \<and> fst ` set (timers c) \<subseteq> {i} \<union> set_option (st_pinger c)"

lemma setupPinger_timers:
  "timers c = [] \<Longrightarrow> st_pinger c = None \<Longrightarrow>
     fst ` set (timers (setupPinger v c)) \<subseteq> set_option (st_pinger (setupPinger v c))
     \<and> (\<forall>j \<in> fst ` set (timers (setupPinger v c)). j < next_interval (setupPinger v c))
     \<and> hb_incoming (setupPinger v c) = hb_incoming c"
  by (simp add: setupPinger_def st_defs Let_def)

lemma setupPonger_watched:
  assumes "fst ` set (timers c) \<subseteq> set_option (st_pinger c)"
    and "\<forall>j \<in> fst ` set (timers c). j < next_interval c" and "0 < hb_incoming c" "0 < s"
  shows "watched (max (hb_incoming c) s) (next_interval c) (setupPonger (Some s) c)"
proof -
  have "map_of (timers c) (next_interval c) = None"
    using assms(2) by (auto simp: map_of_eq_None_iff)
  with assms show ?thesis
    by (auto simp: watched_def setupPonger_def st_defs Let_def map_add_def)
qed

lemma cleanUp_watched: "watched T i c \<Longrightarrow> timers (cleanUp c) = []"
proof -
  assume "watched T i c"
  then have p: "st_ponger c = Some i" and s: "fst ` set (timers c) \<subseteq> {i} \<union> set_option (st_pinger c)"
    by (auto simp: watched_def)
  then show ?thesis using p
    by (cases "st_pinger c")
      (force simp: cleanUp_def Let_def st_emit_def AList.delete_eq filter_empty_conv)+
qed

text \<open>
  C23. When the broker promises heart beats, the client watches it from the moment it is
  connected: a firing of its timer more than twice the agreed interval after the last
  message closes the socket and stops both timers, an earlier one changes nothing.
\<close>

theorem silent_broker_detected:
  assumes "header hs ''version'' = String (js ''1.1'')"
    and "header hs ''heart-beat'' = String (dec_string sx @ 44 # dec_string sy)"
    and "0 < sx" "0 < hb_incoming c" "timers c = []" "st_pinger c = None"
  shows "\<exists>c' i. setupHeartbeat hs c = (c', None) \<and>
    (\<forall>a now. let d = c'\<lparr>serverActivity := Some a\<rparr>; r = stomp_tick i now d in
       if now - a > 2 * max (hb_incoming c) (int sx)
       then snd r = None \<and> ws_state (fst r) = Closed \<and> timers (fst r) = [] \<and> \<not> st_connected (fst r)
       else r = (d, None))"
proof -
  define c1 where "c1 = setupPinger (Some (int sy)) c"
  define c' where "c' = setupPonger (Some (int sx)) c1"
  define i where "i = next_interval c1"
  define T where "T = max (hb_incoming c) (int sx)"
  have h: "setupHeartbeat hs c = (c', None)"
    by (simp add: setupHeartbeat_def assms(1,2) Let_def split_heart_beat parseInt_dec nth_value_def
        c1_def c'_def js_eq_iff)
  have w: "watched T i c'"
    using setupPonger_watched [of c1 "int sx"] setupPinger_timers [OF assms(5,6), of "Some (int sy)"]
      assms(3,4) by (simp add: T_def i_def c'_def c1_def)
  have tick: "stomp_tick i now (c'\<lparr>serverActivity := Some a\<rparr>) =
      (if now - a > 2 * T then (cleanUp (st_debug (js ''did not receive server activity for the last ''
           @ int_text (now - a) @ js ''ms'') (c'\<lparr>serverActivity := Some a\<rparr>)), None)
       else (c'\<lparr>serverActivity := Some a\<rparr>, None))" for a now
    using w by (simp add: watched_def stomp_tick_def mult.commute)
  have "watched T i (st_debug t (c'\<lparr>serverActivity := Some a\<rparr>))" for t a
    using w by (simp add: watched_def st_debug_def)
  note clean = cleanUp_watched [OF this]
  have closed: "ws_state (cleanUp d) = Closed" "\<not> st_connected (cleanUp d)" for d
    by (simp_all add: cleanUp_def Let_def split: option.split)
  show ?thesis
    by (intro exI [of _ c'] exI [of _ i] conjI allI, rule h)
      (simp add: tick clean closed Let_def flip: T_def)
qed

theorem silent_broker_detected_witness:
  "\<exists>c' i. setupHeartbeat [(js ''version'', String (js ''1.1'')),
       (js ''heart-beat'', String (dec_string 5000 @ 44 # dec_string 0))] (StompClient [] Open) = (c', None) \<and>
     ws_state (fst (stomp_tick i 30001 (c'\<lparr>serverActivity := Some 10000\<rparr>))) = Closed"
proof -
  let ?hs = "[(js ''version'', String (js ''1.1'')),
       (js ''heart-beat'', String (dec_string 5000 @ 44 # dec_string 0))]"
  have "\<exists>c' i. setupHeartbeat ?hs (StompClient [] Open) = (c', None) \<and>
    (\<forall>a now. let d = c'\<lparr>serverActivity := Some a\<rparr>; r = stomp_tick i now d in
       if now - a > 2 * max (hb_incoming (StompClient [] Open)) (int 5000)
       then snd r = None \<and> ws_state (fst r) = Closed \<and> timers (fst r) = [] \<and> \<not> st_connected (fst r)
       else r = (d, None))"
    by (rule silent_broker_detected [of _ _ 0]) (simp_all add: header_def js_eq_iff StompClient_def)
  then obtain c' i where 1: "setupHeartbeat ?hs (StompClient [] Open) = (c', None)"
    and 2: "\<forall>a now. let d = c'\<lparr>serverActivity := Some a\<rparr>; r = stomp_tick i now d in
       if now - a > 2 * max (hb_incoming (StompClient [] Open)) (int 5000)
       then snd r = None \<and> ws_state (fst r) = Closed \<and> timers (fst r) = [] \<and> \<not> st_connected (fst r)
       else r = (d, None)" by blast
  from spec [OF spec [OF 2, of 10000], of 30001]
  have "ws_state (fst (stomp_tick i 30001 (c'\<lparr>serverActivity := Some 10000\<rparr>))) = Closed"
    by (simp add: Let_def StompClient_def)
  with 1 show ?thesis by blast
qed

section \<open>Headers that surprise the client\<close>

text \<open>
  A broker of version 1.1 that sends no heart-beat header, as it may, makes the
  client throw: the application is never told that it is connected, no timer is started,
  and the frames that came with this one are lost.
\<close>

theorem missing_heart_beat_throws:
  assumes "command f = js ''CONNECTED''" "header (headers f) ''version'' = String (js ''1.1'')"
    and "header (headers f) ''heart-beat'' = Undefined"
  shows "\<exists>c'. dispatch_all (f # fs) c = (c', Some TypeError) \<and> st_log c' = st_log c \<and> timers c' = timers c"
  using assms by (simp add: dispatch_def js_eq_iff setupHeartbeat_def Let_def st_debug_def)

theorem missing_heart_beat_throws_witness:
  "\<exists>c'. dispatch_all [\<lparr>command = js ''CONNECTED'', headers = [(js ''version'', String (js ''1.1''))],
       body = String []\<rparr>] ((StompClient [] Open)\<lparr>connectCallback := Some 1\<rparr>) = (c', Some TypeError)
     \<and> st_log c' = [] \<and> timers c' = []"
  using missing_heart_beat_throws [of "\<lparr>command = js ''CONNECTED'',
      headers = [(js ''version'', String (js ''1.1''))], body = String []\<rparr>" "[]"
      "(StompClient [] Open)\<lparr>connectCallback := Some 1\<rparr>"]
  by (simp add: header_def js_eq_iff StompClient_def)

text \<open>
  \<open>subscribe\<close> writes the identifier into the headers it is given: an application
  that passes the same object again gets the identifier again, and the second subscription
  takes the place of the first.
\<close>

theorem reused_headers_replace:
  fixes c :: stomp and d1 d2 :: jsval and k1 k2 :: nat
  assumes "\<not> truthy (header (the_headers hs) ''id'')"
  defines "r1 \<equiv> stomp_subscribe d1 (Some k1) hs c"
  defines "r2 \<equiv> stomp_subscribe d2 (Some k2) (Some (fst (snd r1))) (fst (fst r1))"
  shows "snd (snd r2) = snd (snd r1) \<and>
    subscriptions (fst (fst r2)) = AList.update (auto_id (counter c)) (Some k2) (subscriptions c)"
proof -
  have h: "header (fst (snd r1)) ''id'' = String (auto_id (counter c))"
    using assms(1) by (simp add: r1_def stomp_subscribe_def Let_def subscription_id)
  then have t: "truthy (header (the_headers (Some (fst (snd r1)))) ''id'')"
    by (simp add: the_headers_def auto_id_def js_def)
  have 1: "snd (snd r1) = String (auto_id (counter c))"
    "subscriptions (fst (fst r1)) = AList.update (auto_id (counter c)) (Some k1) (subscriptions c)"
    using assms(1) by (simp_all add: r1_def subscribe_state subscription_id)
      (simp add: stomp_subscribe_def Let_def subscription_id)
  have 2: "snd (snd r2) = String (auto_id (counter c))"
    using t h by (simp add: r2_def stomp_subscribe_def Let_def subscription_id the_headers_def)
  have "subscriptions (fst (fst r2)) =
      AList.update (auto_id (counter c)) (Some k2) (subscriptions (fst (fst r1)))"
    using t h by (simp add: r2_def subscribe_state subscription_id the_headers_def)
  with 1 2 show ?thesis by (simp add: alist_update_twice)
qed

theorem reused_headers_replace_witness:
  "subscriptions (fst (fst (stomp_subscribe Null (Some 2)
      (Some (fst (snd (stomp_subscribe Null (Some 1) (Some []) (StompClient [] Open)))))
      (fst (fst (stomp_subscribe Null (Some 1) (Some []) (StompClient [] Open)))))))
    = [(auto_id 0, Some 2)]"
  using reused_headers_replace [where hs = "Some []" and ?d1.0 = Null and ?k1.0 = 1 and c = "StompClient [] Open"
    and ?d2.0 = Null and ?k2.0 = 2]
  by (simp add: the_headers_def header_def StompClient_def)

theorem messages_delivered_witness:
  "\<exists>c'. on_message (TextData (broker_text (received example_frame) @ [LF] @ broker_text example_frame)) 7
       ((StompClient [] Open)\<lparr>handlers_set := True, subscriptions := [(js ''sub-0'', Some 3)]\<rparr>) = (c', None)
     \<and> st_log c' = [CalledMessage 3 (received example_frame), CalledMessage 3 example_frame]"
proof -
  have "value_text (header (headers example_frame) ''subscription'') = js ''sub-0''"
    "value_text (header (headers (received example_frame)) ''subscription'') = js ''sub-0''"
    "command example_frame = js ''MESSAGE''" "command (received example_frame) = js ''MESSAGE''"
    by (simp_all add: example_frame_def received_def header_def)
  then show ?thesis
    using messages_delivered [of "(StompClient [] Open)\<lparr>handlers_set := True,
      subscriptions := [(js ''sub-0'', Some 3)]\<rparr>" "[(received example_frame, 1), (example_frame, 0)]" 7]
    by (simp add: broker_example_frame) (simp add: StompClient_def)
qed

theorem subscription_is_new_witness:
  "subscriptions (fst (fst (stomp_subscribe Null (Some 1) None (StompClient [] Open)))) = [(auto_id 0, Some 1)]"
proof -
  have "stomp_reachable (StompClient [] Open)" unfolding stomp_reachable_def by blast
  from subscription_is_new [OF this, of None Null "Some 1"] show ?thesis
    by (simp add: the_headers_def header_def) (simp add: StompClient_def)
qed

end
