(* ===== verification/StompPages.thy ===== *)
theory StompPages
  imports StompClient
begin

text \<open>
  Two uses of the STOMP client: the transmission in pieces of the copy of \<open>stomp.js\<close> in
  \<open>examples/stomp/websocket/js\<close>, the only operation in which the copies differ, and the
  chat page of \<open>websocket/chat.js\<close>. The page keeps every client it has created: their
  sockets stay open and their callbacks work on the client created last. An event of a
  socket names its client by its position. A submitted form is either kept from the
  browser (the handler returns false) or the handler throws.
\<close>

section \<open>Transmission in pieces\<close>

abbreviation (input) "MAX_FRAME_SIZE \<equiv> (16 * 1024 :: nat)"

function frame_pieces :: "jsstring \<Rightarrow> jsstring list" where
  "frame_pieces out =
     (if length out > MAX_FRAME_SIZE
      then take MAX_FRAME_SIZE out # frame_pieces (drop MAX_FRAME_SIZE out) else [out])"
  by pat_completeness auto
termination by (relation "measure length") auto

declare frame_pieces.simps [simp del]

fun ws_send_all :: "jsstring list \<Rightarrow> stomp \<Rightarrow> st_outcome" where
  "ws_send_all [] c = (c, None)"
| "ws_send_all (t # ts) c = st_then (ws_send t c) (ws_send_all ts)"

definition transmit_pieces :: "string \<Rightarrow> headers option \<Rightarrow> jsval \<Rightarrow> stomp \<Rightarrow> st_outcome" where
  "transmit_pieces cmd hs b c =
     (let out = marshall (js cmd) hs b
      in ws_send_all (frame_pieces out) (st_debug (js ''>>> '' @ out) c))"

lemma concat_frame_pieces: "concat (frame_pieces out) = out"
  by (induction out rule: frame_pieces.induct) (subst frame_pieces.simps, simp)

lemma frame_pieces_bound: "t \<in> set (frame_pieces out) \<Longrightarrow> length t \<le> MAX_FRAME_SIZE"
proof (induction out rule: frame_pieces.induct)
  case (1 out)
  then show ?case by (subst (asm) (2) frame_pieces.simps) (auto split: if_splits)
qed

lemma ws_send_all_open:
  "ws_state c = Open \<Longrightarrow> ws_send_all ts c = (c\<lparr>st_log := st_log c @ map StompSent ts\<rparr>, None)"
  by (induction ts arbitrary: c) (simp_all add: ws_send_def st_emit_def)

lemma st_debug_fields [simp]:
  "ws_state (st_debug t c) = ws_state c" "st_log (st_debug t c) = st_log c"
  "subscriptions (st_debug t c) = subscriptions c" "counter (st_debug t c) = counter c"
  "connectCallback (st_debug t c) = connectCallback c" "handlers_set (st_debug t c) = handlers_set c"
  by (simp_all add: st_debug_def)

theorem pieces_carry_frame:
  assumes "ws_state c = Open"
  shows "\<exists>c' ts. transmit_pieces cmd hs b c = (c', None) \<and> st_log c' = st_log c @ map StompSent ts \<and>
    concat ts = marshall (js cmd) hs b \<and> (\<forall>t \<in> set ts. length t \<le> MAX_FRAME_SIZE)"
proof -
  let ?ts = "frame_pieces (marshall (js cmd) hs b)"
  have "transmit_pieces cmd hs b c =
      ((st_debug (js ''>>> '' @ marshall (js cmd) hs b) c)\<lparr>st_log := st_log c @ map StompSent ?ts\<rparr>, None)"
    using ws_send_all_open [of "st_debug (js ''>>> '' @ marshall (js cmd) hs b) c" ?ts] assms
    by (simp add: transmit_pieces_def Let_def)
  then show ?thesis using concat_frame_pieces frame_pieces_bound by auto
qed

theorem pieces_carry_frame_witness:
  "\<exists>c' ts. transmit_pieces ''SEND'' None (String (replicate 40000 97)) (StompClient [] Open) = (c', None) \<and>
     st_log c' = map StompSent ts \<and> (\<forall>t \<in> set ts. length t \<le> MAX_FRAME_SIZE)"
proof -
  have "ws_state (StompClient [] Open) = Open" "st_log (StompClient [] Open) = []"
    by (simp_all add: StompClient_def)
  then show ?thesis
    using pieces_carry_frame [of "StompClient [] Open" "''SEND''" None "String (replicate 40000 97)"]
    by (metis append_Nil)
qed

section \<open>The chat page\<close>

record stomp_page =
  connect_url :: jsstring
  connect_login :: jsstring
  connect_passcode :: jsstring
  destination_value :: jsstring
  send_text :: jsstring
  destination :: jsval
  clients :: "stomp list"
  connect_shown :: bool
  disconnect_shown :: bool
  input_disabled :: bool
  debug_area :: "jsstring list"
  messages_shown :: "jsstring list"

datatype submit_result = Prevented | Threw js_error

text \<open>
  The clients of the page write what they log to its debug area, one line each; a client
  without \<open>debug\<close> would not.
\<close>

definition put_client :: "nat \<Rightarrow> stomp \<Rightarrow> stomp_page \<Rightarrow> stomp_page" where
  "put_client i c p =
     p\<lparr>clients := (clients p)[i := c\<lparr>debug_log := []\<rparr>],
       debug_area := debug_area p @ map (\<lambda>t. t @ [LF]) (debug_log c)\<rparr>"

text \<open>The variable \<open>client\<close>: the client created last.\<close>

definition current :: "stomp_page \<Rightarrow> nat option" where
  "current p = (if clients p = [] then None else Some (length (clients p) - 1))"

text \<open>The callbacks: 0 is \<open>onconnect\<close>, 1 shows a message, 2 is run by \<open>disconnect\<close>.\<close>

definition page_connected :: "stomp_page \<Rightarrow> stomp_page \<times> js_error option" where
  "page_connected p =
     (let p1 = p\<lparr>debug_area := debug_area p @ [js ''connected to Stomp'' @ [LF]], connect_shown := False,
           disconnect_shown := True, input_disabled := False\<rparr>
      in case current p of
           None \<Rightarrow> (p, Some TypeError)
         | Some i \<Rightarrow>
             (case fst (stomp_subscribe (destination p) (Some 1) None (clients p ! i)) of
                (c, e) \<Rightarrow> (put_client i c p1, e)))"

definition page_show :: "frame \<Rightarrow> stomp_page \<Rightarrow> stomp_page" where
  "page_show f p = p\<lparr>messages_shown := messages_shown p @ [value_text (body f)]\<rparr>"

text \<open>jQuery has no \<open>addAttr\<close>: the callback of \<open>disconnect\<close> throws at its last line.\<close>

definition page_disconnected :: "stomp_page \<Rightarrow> stomp_page \<times> js_error option" where
  "page_disconnected p = (p\<lparr>disconnect_shown := False, connect_shown := True\<rparr>, Some TypeError)"

fun page_callback :: "stomp_event \<Rightarrow> stomp_page \<Rightarrow> stomp_page \<times> js_error option" where
  "page_callback (CalledConnect k f) p = page_connected p"
| "page_callback (CalledMessage k f) p = (page_show f p, None)"
| "page_callback (CalledDisconnect k) p = page_disconnected p"
| "page_callback e p = (p, None)"

fun page_callbacks :: "stomp_event list \<Rightarrow> stomp_page \<Rightarrow> stomp_page \<times> js_error option" where
  "page_callbacks [] p = (p, None)"
| "page_callbacks (e # es) p =
     (case page_callback e p of (p1, None) \<Rightarrow> page_callbacks es p1 | (p1, Some x) \<Rightarrow> (p1, Some x))"

text \<open>An operation of client \<open>i\<close>, then the callbacks it called.\<close>

definition page_run :: "nat \<Rightarrow> (stomp \<Rightarrow> st_outcome) \<Rightarrow> stomp_page \<Rightarrow> stomp_page \<times> js_error option" where
  "page_run i f p =
     (case f (clients p ! i) of
        (c, e) \<Rightarrow>
          (case page_callbacks (drop (length (st_log (clients p ! i))) (st_log c)) (put_client i c p) of
             (p1, None) \<Rightarrow> (p1, e)
           | (p1, Some x) \<Rightarrow> (p1, Some x)))"

fun page_dispatch :: "nat \<Rightarrow> frame list \<Rightarrow> stomp_page \<Rightarrow> stomp_page \<times> js_error option" where
  "page_dispatch i [] p = (p, None)"
| "page_dispatch i (f # fs) p =
     (case page_run i (dispatch f) p of
        (p1, None) \<Rightarrow> page_dispatch i fs p1 | (p1, Some x) \<Rightarrow> (p1, Some x))"

definition page_message :: "nat \<Rightarrow> ws_data \<Rightarrow> int \<Rightarrow> stomp_page \<Rightarrow> stomp_page \<times> js_error option" where
  "page_message i evt now p =
     (if \<not> handlers_set (clients p ! i) then (p, None)
      else case accept_data evt now (clients p ! i) of (c, fs) \<Rightarrow> page_dispatch i fs (put_client i c p))"

definition page_open :: "nat \<Rightarrow> stomp_page \<Rightarrow> stomp_page \<times> js_error option" where
  "page_open i = page_run i on_open"

definition page_close :: "nat \<Rightarrow> stomp_page \<Rightarrow> stomp_page \<times> js_error option" where
  "page_close i = page_run i (\<lambda>c. (on_close c, None))"

text \<open>The forms. \<open>Stomp.client\<close> opens a socket and returns at once.\<close>

definition Stomp_client :: "jsstring \<Rightarrow> stomp" where
  "Stomp_client url = StompClient url Connecting"

definition connect_submit :: "stomp_page \<Rightarrow> stomp_page \<times> submit_result" where
  "connect_submit p =
     (let c = stomp_connect (String (connect_login p)) (String (connect_passcode p)) (Some 0) None Undefined
           ((Stomp_client (connect_url p))\<lparr>debug := True\<rparr>);
          i = length (clients p)
      in (put_client i c (p\<lparr>destination := String (destination_value p), clients := clients p @ [c]\<rparr>),
          Prevented))"

fun submitted :: "stomp_page \<times> js_error option \<Rightarrow> stomp_page \<times> submit_result" where
  "submitted (p, None) = (p, Prevented)"
| "submitted (p, Some e) = (p, Threw e)"

definition disconnect_submit :: "stomp_page \<Rightarrow> stomp_page \<times> submit_result" where
  "disconnect_submit p =
     (case current p of
        None \<Rightarrow> (p, Threw TypeError)
      | Some i \<Rightarrow> submitted (page_run i (stomp_disconnect (Some 2)) p))"


section \<open>What is typed is sent\<close>


lemma current_nth: "current p = Some i \<Longrightarrow> i < length (clients p)"
  by (auto simp: current_def split: if_splits)

lemma put_client_fields [simp]:
  "i < length (clients p) \<Longrightarrow> clients (put_client i c p) ! i = c\<lparr>debug_log := []\<rparr>"
  "messages_shown (put_client i c p) = messages_shown p"
  "length (clients (put_client i c p)) = length (clients p)"
  "current (put_client i c p) = current p" "destination (put_client i c p) = destination p"
  "connect_shown (put_client i c p) = connect_shown p"
  "disconnect_shown (put_client i c p) = disconnect_shown p"
  "input_disabled (put_client i c p) = input_disabled p"
  "send_text (put_client i c p) = send_text p"
  by (auto simp: put_client_def current_def)

text \<open>An operation that writes one frame and calls nothing back.\<close>

lemma page_run_sends:
  assumes "f (clients p ! i) = (c, None)" "st_log c = st_log (clients p ! i) @ [StompSent out]"
  shows "page_run i f p = (put_client i c p, None)"
  using assms by (simp add: page_run_def)

lemma transmit_open:
  "ws_state c = Open \<Longrightarrow> \<exists>c'. transmit cmd hs b c = (c', None) \<and> ws_state c' = Open \<and>
     st_log c' = st_log c @ [StompSent (marshall (js cmd) hs b)] \<and>
     subscriptions c' = subscriptions c \<and> counter c' = counter c \<and>
     connectCallback c' = connectCallback c \<and> handlers_set c' = handlers_set c"
  by (simp add: transmit_def Let_def ws_send_def st_emit_def)




section \<open>What arrives is shown\<close>

lemma line_texts:
  "line_text (js ''subscription'')" "line_text (js ''foo'')" "js ''MESSAGE'' \<noteq> []"
  "LF \<notin> set (js ''MESSAGE'')" "NUL \<notin> set (js ''MESSAGE'')" "COLON \<notin> set (js ''subscription'')"
  "LF \<notin> set (js ''CONNECTED'')" "NUL \<notin> set (js ''CONNECTED'')" "js ''CONNECTED'' \<noteq> []"
  by (simp_all add: line_text_def trimmed_def is_space_def js_def)




section \<open>Connecting\<close>

text \<open>The answer of a broker that speaks version 1.0: no heart beats.\<close>

definition connected_frame :: frame where
  "connected_frame = \<lparr>command = js ''CONNECTED'', headers = [], body = String []\<rparr>"

lemma wf_connected: "wf_frame connected_frame"
  by (simp add: wf_frame_def connected_frame_def wf_headers_def line_texts)

lemma connected_message:
  assumes "i < length (clients p)" "handlers_set (clients p ! i)"
  shows "\<exists>c. page_message i (TextData (marshall_frame connected_frame)) now p =
      page_dispatch i [received connected_frame] (put_client i c p) \<and>
    c = st_debug (js ''<<< '' @ marshall_frame connected_frame) ((clients p ! i)\<lparr>serverActivity := Some now\<rparr>)"
  using accept_frames [of "[connected_frame]"] wf_connected assms by (simp add: page_message_def)

lemma dispatch_connected:
  assumes "connectCallback c = Some 0"
  shows "\<exists>d. dispatch (received connected_frame) c =
      (d\<lparr>st_connected := True, st_log := st_log c @ [CalledConnect 0 (received connected_frame)]\<rparr>, None) \<and>
    d = st_debug (js ''connected to server '' @ js ''undefined'') c"
  using assms
  by (simp add: dispatch_def received_def connected_frame_def length_header_def header_def Let_def
      setupHeartbeat_def js_eq_iff call_opt_def st_emit_def st_debug_def)




lemma subscribe_fresh:
  assumes "subscriptions c = []" "counter c = 0"
  shows "fst (stomp_subscribe d cb None c) =
    transmit ''SUBSCRIBE'' (Some (subscription_headers d None c)) Undefined
      (c\<lparr>counter := 1, subscriptions := [(auto_id 0, cb)]\<rparr>)"
  using assms
  by (simp add: stomp_subscribe_def Let_def the_headers_def header_def subscription_headers_def
      js_eq_iff auto_id_def)

lemma page_connected_open:
  assumes "current p = Some i" "ws_state (clients p ! i) = Open" "subscriptions (clients p ! i) = []"
    and "counter (clients p ! i) = 0"
  shows "\<exists>p'. page_connected p = (p', None) \<and>
    subscriptions (clients p' ! i) = [(auto_id 0, Some 1)] \<and> ws_state (clients p' ! i) = Open \<and>
    st_log (clients p' ! i) = st_log (clients p ! i) @
      [StompSent (marshall (js ''SUBSCRIBE'') (Some (subscription_headers (destination p) None (clients p ! i))) Undefined)] \<and>
    current p' = Some i \<and> destination p' = destination p \<and>
    \<not> connect_shown p' \<and> disconnect_shown p' \<and> \<not> input_disabled p'"
proof -
  let ?c = "(clients p ! i)\<lparr>counter := 1, subscriptions := [(auto_id 0, Some 1)]\<rparr>"
  have "ws_state ?c = Open" using assms(2) by simp
  then obtain c' where c': "transmit ''SUBSCRIBE'' (Some (subscription_headers (destination p) None (clients p ! i))) Undefined ?c = (c', None)"
    "ws_state c' = Open" "subscriptions c' = [(auto_id 0, Some 1)]"
    "st_log c' = st_log (clients p ! i) @
      [StompSent (marshall (js ''SUBSCRIBE'') (Some (subscription_headers (destination p) None (clients p ! i))) Undefined)]"
    using transmit_open [of ?c "''SUBSCRIBE''"] by fastforce
  have "current (p\<lparr>debug_area := a, connect_shown := b, disconnect_shown := d, input_disabled := e\<rparr>) = Some i"
    for a b d e using assms(1) by (simp add: current_def split: if_splits)
  then show ?thesis
    using assms(1) c' current_nth [OF assms(1)]
    by (simp add: page_connected_def Let_def subscribe_fresh [OF assms(3,4)])
qed

lemma put_client_other: "i \<noteq> j \<Longrightarrow> clients (put_client i c p) ! j = clients p ! j"
  by (simp add: put_client_def)

text \<open>The answer of the broker runs \<open>onconnect\<close> with the client connected.\<close>

lemma connected_runs_callback:
  assumes i: "i < length (clients p)" and cb: "connectCallback (clients p ! i) = Some 0"
    and h: "handlers_set (clients p ! i)"
  shows "\<exists>r. page_message i (TextData (marshall_frame connected_frame)) now p = page_connected r \<and>
    current r = current p \<and> destination r = destination p \<and> length (clients r) = length (clients p) \<and>
    (\<forall>j. i \<noteq> j \<longrightarrow> clients r ! j = clients p ! j) \<and> st_connected (clients r ! i) \<and>
    ws_state (clients r ! i) = ws_state (clients p ! i) \<and>
    subscriptions (clients r ! i) = subscriptions (clients p ! i) \<and>
    counter (clients r ! i) = counter (clients p ! i) \<and>
    st_log (clients r ! i) = st_log (clients p ! i) @ [CalledConnect 0 (received connected_frame)]"
proof -
  obtain c where c: "page_message i (TextData (marshall_frame connected_frame)) now p =
      page_dispatch i [received connected_frame] (put_client i c p)"
    "c = st_debug (js ''<<< '' @ marshall_frame connected_frame) ((clients p ! i)\<lparr>serverActivity := Some now\<rparr>)"
    using connected_message [OF i h] by blast
  let ?q = "put_client i c p"
  have "connectCallback (clients ?q ! i) = Some 0" using cb i by (simp add: c(2))
  from dispatch_connected [OF this] obtain d where
    d: "dispatch (received connected_frame) (clients ?q ! i) =
      (d\<lparr>st_connected := True, st_log := st_log (clients ?q ! i) @ [CalledConnect 0 (received connected_frame)]\<rparr>, None)"
    "d = st_debug (js ''connected to server '' @ js ''undefined'') (clients ?q ! i)" by blast
  let ?r = "put_client i (d\<lparr>st_connected := True,
    st_log := st_log (clients ?q ! i) @ [CalledConnect 0 (received connected_frame)]\<rparr>) ?q"
  have fields: "st_log (clients ?q ! i) = st_log (clients p ! i)" using i by (simp add: c(2))
  obtain p' e where r: "page_connected ?r = (p', e)" by (cases "page_connected ?r")
  have "page_dispatch i [received connected_frame] ?q = page_connected ?r"
    using r by (cases e) (simp_all add: page_run_def d(1) fields)
  with c(1) have "page_message i (TextData (marshall_frame connected_frame)) now p = page_connected ?r" by simp
  then show ?thesis using i by (intro exI [of _ ?r]) (simp add: put_client_other c(2) d(2))
qed

lemma connected_page:
  assumes "current p = Some i" "connectCallback (clients p ! i) = Some 0" "handlers_set (clients p ! i)"
    and "ws_state (clients p ! i) = Open" "subscriptions (clients p ! i) = []" "counter (clients p ! i) = 0"
  shows "\<exists>p'. page_message i (TextData (marshall_frame connected_frame)) now p = (p', None) \<and>
    subscriptions (clients p' ! i) = [(auto_id 0, Some 1)] \<and> ws_state (clients p' ! i) = Open \<and>
    st_log (clients p' ! i) = st_log (clients p ! i) @ [CalledConnect 0 (received connected_frame),
      StompSent (marshall (js ''SUBSCRIBE'') (Some (subscription_headers (destination p) None (StompClient [] Open))) Undefined)] \<and>
    current p' = Some i \<and> destination p' = destination p \<and>
    \<not> connect_shown p' \<and> disconnect_shown p' \<and> \<not> input_disabled p'"
proof -
  obtain r where r: "page_message i (TextData (marshall_frame connected_frame)) now p = page_connected r"
    "current r = Some i" "destination r = destination p" "ws_state (clients r ! i) = Open"
    "subscriptions (clients r ! i) = []" "counter (clients r ! i) = 0"
    "st_log (clients r ! i) = st_log (clients p ! i) @ [CalledConnect 0 (received connected_frame)]"
    using connected_runs_callback [OF current_nth [OF assms(1)] assms(2,3), of now] assms by metis
  have h: "subscription_headers x None (clients r ! i) = subscription_headers x None (StompClient [] Open)" for x
  proof -
    have "counter (StompClient [] Open) = 0" by (simp add: StompClient_def)
    then show ?thesis by (simp only: subscription_headers_def r(6))
  qed
  from page_connected_open [OF r(2,4-6)] show ?thesis by (simp add: r(1,3,7) h)
qed

lemma on_open_sends:
  assumes "handlers_set c"
  shows "\<exists>c' m. on_open c = (c', None) \<and> ws_state c' = Open \<and> st_log c' = st_log c @ [StompSent m] \<and>
    subscriptions c' = subscriptions c \<and> counter c' = counter c \<and>
    connectCallback c' = connectCallback c \<and> handlers_set c'"
proof -
  let ?c = "st_debug (js ''Web Socket Opened...'') (c\<lparr>ws_state := Open\<rparr>)"
  have "ws_state ?c = Open" by simp
  from transmit_open [OF this, of "''CONNECT''"] show ?thesis
    using assms by (fastforce simp: on_open_def Let_def)
qed

text \<open>
  From the submission of the form to the subscription: the client asks for a connection
  when its socket opens, and subscribes to the destination of the form when the broker has
  accepted it; only then the page takes text.
\<close>

theorem connecting_subscribes:
  fixes p :: stomp_page
  defines "i \<equiv> length (clients p)"
  shows "\<exists>p1 p2 p3 m. connect_submit p = (p1, Prevented) \<and> page_open i p1 = (p2, None) \<and>
    page_message i (TextData (marshall_frame connected_frame)) now p2 = (p3, None) \<and>
    st_log (clients p3 ! i) = [StompSent m, CalledConnect 0 (received connected_frame),
      StompSent (marshall (js ''SUBSCRIBE'')
        (Some (subscription_headers (String (destination_value p)) None (StompClient [] Open))) Undefined)] \<and>
    current p3 = Some i \<and> destination p3 = String (destination_value p) \<and>
    ws_state (clients p3 ! i) = Open \<and> subscriptions (clients p3 ! i) = [(auto_id 0, Some 1)] \<and>
    \<not> connect_shown p3 \<and> disconnect_shown p3 \<and> \<not> input_disabled p3"
proof -
  define p1 where "p1 = fst (connect_submit p)"
  have p1: "connect_submit p = (p1, Prevented)" by (simp add: p1_def connect_submit_def Let_def)
  have c1: "current p1 = Some i" "i < length (clients p1)" "connectCallback (clients p1 ! i) = Some 0"
    "handlers_set (clients p1 ! i)" "subscriptions (clients p1 ! i) = []" "counter (clients p1 ! i) = 0"
    "st_log (clients p1 ! i) = []" "destination p1 = String (destination_value p)"
    by (simp_all add: p1_def connect_submit_def Let_def i_def put_client_def current_def stomp_connect_def
        Stomp_client_def StompClient_def st_debug_def)
  from on_open_sends [OF c1(4)] obtain c m where c: "on_open (clients p1 ! i) = (c, None)" "ws_state c = Open"
    "subscriptions c = []" "counter c = 0" "connectCallback c = Some 0" "handlers_set c"
    and m: "st_log c = [StompSent m]" using c1 by auto
  define p2 where "p2 = put_client i c p1"
  have p2: "page_open i p1 = (p2, None)"
    using page_run_sends [where f = on_open and i = i and p = p1] c(1) m c1(7)
    by (simp add: page_open_def p2_def)
  have "current p2 = Some i" "connectCallback (clients p2 ! i) = Some 0" "handlers_set (clients p2 ! i)"
    "ws_state (clients p2 ! i) = Open" "subscriptions (clients p2 ! i) = []" "counter (clients p2 ! i) = 0"
    "st_log (clients p2 ! i) = [StompSent m]" "destination p2 = String (destination_value p)"
    using c c1 m by (simp_all add: p2_def)
  with connected_page [of p2 i now] p1 p2 show ?thesis by (metis append_Cons append_Nil)
qed

section \<open>Two connections at once\<close>

lemma transmit_connecting:
  "ws_state c = Connecting \<Longrightarrow> \<exists>c'. transmit cmd hs b c = (c', Some DomException) \<and> st_log c' = st_log c"
  by (simp add: transmit_def Let_def ws_send_def)

lemma subscribe_connecting:
  assumes "ws_state c = Connecting"
  shows "\<exists>c'. fst (stomp_subscribe d cb hs c) = (c', Some DomException) \<and> st_log c' = st_log c"
proof -
  let ?c = "(if truthy (header (the_headers hs) ''id'') then c else c\<lparr>counter := counter c + 1\<rparr>)"
  have "ws_state (?c\<lparr>subscriptions := x\<rparr>) = Connecting" "st_log (?c\<lparr>subscriptions := x\<rparr>) = st_log c" for x
    using assms by simp_all
  then show ?thesis unfolding stomp_subscribe_def Let_def fst_conv by (metis transmit_connecting)
qed

text \<open>
  When the form is submitted again before the first socket is connected, the callback of
  the first client works on the second: it subscribes there while that socket is still
  connecting, which throws. The first client stays connected and never subscribes, and the
  page already takes text.
\<close>

theorem second_connect_breaks_first:
  assumes "current p = Some j" "i < j" "ws_state (clients p ! j) = Connecting"
    and "connectCallback (clients p ! i) = Some 0" "handlers_set (clients p ! i)"
  shows "\<exists>p'. page_message i (TextData (marshall_frame connected_frame)) now p = (p', Some DomException) \<and>
    subscriptions (clients p' ! i) = subscriptions (clients p ! i) \<and>
    st_log (clients p' ! i) = st_log (clients p ! i) @ [CalledConnect 0 (received connected_frame)] \<and>
    st_log (clients p' ! j) = st_log (clients p ! j) \<and> st_connected (clients p' ! i) \<and> \<not> input_disabled p'"
proof -
  have j: "j < length (clients p)" using assms(1) by (rule current_nth)
  with assms(2) have i: "i < length (clients p)" by simp
  obtain r where r: "page_message i (TextData (marshall_frame connected_frame)) now p = page_connected r"
    "current r = Some j" "clients r ! j = clients p ! j" "j < length (clients r)" "st_connected (clients r ! i)"
    "subscriptions (clients r ! i) = subscriptions (clients p ! i)"
    "st_log (clients r ! i) = st_log (clients p ! i) @ [CalledConnect 0 (received connected_frame)]"
    using connected_runs_callback [OF i assms(4,5), of now] assms(1,2) j by (metis nat_neq_iff)
  have "ws_state (clients r ! j) = Connecting" using assms(3) r(3) by simp
  from subscribe_connecting [OF this] obtain c2 where
    c2: "fst (stomp_subscribe (destination r) (Some 1) None (clients r ! j)) = (c2, Some DomException)"
    "st_log c2 = st_log (clients p ! j)" unfolding r(3) by blast
  define p' where "p' = put_client j c2 (r\<lparr>debug_area := debug_area r @ [js ''connected to Stomp'' @ [LF]],
    connect_shown := False, disconnect_shown := True, input_disabled := False\<rparr>)"
  have "page_connected r = (p', Some DomException)"
    using r(2) c2(1) by (simp add: page_connected_def Let_def p'_def)
  moreover have "clients p' ! i = clients r ! i" "st_log (clients p' ! j) = st_log (clients p ! j)"
    "\<not> input_disabled p'"
    using r(4) c2(2) assms(2) by (simp_all add: p'_def put_client_other)
  ultimately show ?thesis using r by simp
qed

text \<open>
  Disconnecting always throws, after the client has been cleaned up, and the browser then
  submits the form itself.
\<close>

theorem disconnect_form_throws:
  assumes "current p = Some i" "ws_state (clients p ! i) = Open"
  shows "\<exists>p'. disconnect_submit p = (p', Threw TypeError) \<and> ws_state (clients p' ! i) = Closed \<and>
    connect_shown p' \<and> \<not> disconnect_shown p' \<and> input_disabled p' = input_disabled p"
proof -
  have i: "i < length (clients p)" using assms(1) by (rule current_nth)
  obtain c1 m where c1: "transmit ''DISCONNECT'' None Undefined (clients p ! i) = (c1, None)"
    "ws_state c1 = Open" "st_log c1 = st_log (clients p ! i) @ [StompSent m]"
    using transmit_open [OF assms(2)] by metis
  let ?c = "st_emit (CalledDisconnect 2) (cleanUp (c1\<lparr>onclose_set := False\<rparr>))"
  have c: "stomp_disconnect (Some 2) (clients p ! i) = (?c, None)"
    by (simp add: stomp_disconnect_def c1(1) call_opt_def)
  have clean: "ws_state ?c = Closed" "st_log ?c = st_log (clients p ! i) @ [StompSent m, StompClosed, CalledDisconnect 2]"
    using c1(2,3) by (simp_all add: cleanUp_def Let_def st_emit_def split: option.splits)
  have "page_run i (stomp_disconnect (Some 2)) p =
      ((put_client i ?c p)\<lparr>disconnect_shown := False, connect_shown := True\<rparr>, Some TypeError)"
    by (simp add: page_run_def page_disconnected_def c clean(2))
  with assms(1) clean(1) i show ?thesis by (simp add: disconnect_submit_def)
qed

section \<open>Witnesses\<close>

definition open_client :: stomp where
  "open_client = (StompClient [] Open)\<lparr>handlers_set := True, connectCallback := Some 0,
     subscriptions := [(js ''sub-0'', Some 1)]\<rparr>"

definition example_page :: "stomp list \<Rightarrow> stomp_page" where
  "example_page cs = \<lparr>connect_url = [], connect_login = [], connect_passcode = [], destination_value = [],
     send_text = js ''hi'', destination = String (js ''/topic/chat''), clients = cs, connect_shown = True,
     disconnect_shown = False, input_disabled = True, debug_area = [], messages_shown = []\<rparr>"

lemma open_client_fields:
  "ws_state open_client = Open" "handlers_set open_client" "connectCallback open_client = Some 0"
  "subscriptions open_client = [(js ''sub-0'', Some 1)]" "st_log open_client = []"
  by (simp_all add: open_client_def StompClient_def)





theorem second_connect_breaks_first_witness:
  "\<exists>p'. page_message 0 (TextData (marshall_frame connected_frame)) 5
     (example_page [open_client, StompClient [] Connecting]) = (p', Some DomException)"
proof -
  let ?p = "example_page [open_client, StompClient [] Connecting]"
  have "current ?p = Some 1" "(0::nat) < 1" "ws_state (clients ?p ! 1) = Connecting"
    "connectCallback (clients ?p ! 0) = Some 0" "handlers_set (clients ?p ! 0)"
    by (simp_all add: current_def example_page_def open_client_fields) (simp add: StompClient_def)
  from second_connect_breaks_first [OF this, of 5] show ?thesis by blast
qed

theorem disconnect_form_throws_witness:
  "\<exists>p'. disconnect_submit (example_page [open_client]) = (p', Threw TypeError)"
proof -
  have "current (example_page [open_client]) = Some 0" "ws_state (clients (example_page [open_client]) ! 0) = Open"
    by (simp_all add: current_def example_page_def open_client_fields)
  from disconnect_form_throws [OF this] show ?thesis by blast
qed

end
