(* ===== verification/AmqAjax.thy ===== *)
theory AmqAjax
  imports JsValue "HOL-Library.Multiset"
begin

text \<open>
  The AJAX client of \<open>amq.js\<close>: the queue of messages that wait while a POST is under
  way, the poll that is sent again whenever its answer has been handled, and the
  dispatch of an answer to the listeners. The application is a parameter, \<open>react\<close>: what its
  listeners, its \<open>connectStatusHandler\<close> and its \<open>sessionInitializedCallback\<close> do, each of
  which may change the state of the application, call the client, and throw. So is the AJAX
  library below the adapter, as to what it makes of a callback that throws. The
  state counts the requests under way; their answers are events. The time and the random
  number in a query are arguments; the log of a listener's exception is kept without the
  text of the answer.
\<close>

section \<open>Documents\<close>

datatype xml = XText jsstring | XElem jsstring "(jsstring \<times> jsstring) list" "xml list"

fun by_tag :: "jsstring \<Rightarrow> xml \<Rightarrow> xml list" where
  "by_tag name (XText t) = []"
| "by_tag name (XElem tag attrs kids) =
     (if tag = name then [XElem tag attrs kids] else []) @ concat (map (by_tag name) kids)"

fun getAttribute :: "xml \<Rightarrow> string \<Rightarrow> jsstring option" where
  "getAttribute (XElem tag attrs kids) k = map_of attrs (js k)"
| "getAttribute (XText t) k = None"

fun childNodes :: "xml \<Rightarrow> xml list" where
  "childNodes (XElem tag attrs kids) = kids"
| "childNodes (XText t) = []"

fun is_element :: "xml \<Rightarrow> bool" where
  "is_element (XElem tag attrs kids) = True"
| "is_element (XText t) = False"

section \<open>State\<close>

record jms =
  destination :: jsstring
  jms_message :: jsstring
  messageType :: jsstring

text \<open>A message of the queue has the selector it sets as a header, if any.\<close>

type_synonym queued = "jms \<times> jsstring option"

datatype amq_event =
    Post "jms list" jsstring "jsstring option" jsstring
  | Get jsstring jsstring
  | ConnectStatus bool
  | Logged jsstring
  | SessionInitialized

record amq =
  uri :: jsstring
  amq_timeout :: int
  pollDelay :: int
  logging :: bool
  sessionInitialized :: bool
  has_sessionInitializedCallback :: bool
  amq_clientId :: jsval
  messageHandlers :: "(jsstring \<times> nat option) list"
  batchInProgress :: bool
  messageQueue :: "queued list"
  posts :: nat
  polls :: "bool list"
  poll_timers :: "int list"
  amq_log :: "amq_event list"

definition Amq :: amq where
  "Amq = \<lparr>uri = [], amq_timeout = 25, pollDelay = 0, logging = False, sessionInitialized = False,
     has_sessionInitializedCallback = False, amq_clientId = Null, messageHandlers = [],
     batchInProgress = False, messageQueue = [], posts = 0, polls = [], poll_timers = [], amq_log = []\<rparr>"

definition amq_emit :: "amq_event \<Rightarrow> amq \<Rightarrow> amq" where
  "amq_emit e s = s\<lparr>amq_log := amq_log s @ [e]\<rparr>"

definition log_text :: "string \<Rightarrow> jsstring \<Rightarrow> amq \<Rightarrow> amq" where
  "log_text t x s = (if logging s then amq_emit (Logged (js t @ x)) s else s)"

section \<open>Requests\<close>

definition param_name :: "string \<Rightarrow> string \<Rightarrow> nat \<Rightarrow> jsstring" where
  "param_name first later i = (if i = 0 then js first else js later @ dec_string i)"

definition message_params :: "nat \<Rightarrow> jms \<Rightarrow> jsstring" where
  "message_params i m =
     param_name ''destination'' ''d'' i @ js ''='' @ destination m
     @ param_name ''&message'' ''&m'' i @ js ''='' @ jms_message m
     @ param_name ''&type'' ''&t'' i @ js ''='' @ messageType m"

definition buildParams :: "jms list \<Rightarrow> jsstring" where
  "buildParams msgs =
     concat (map (\<lambda>i. (if i = 0 then [] else js ''&'') @ message_params i (msgs ! i)) [0..<length msgs])"

definition addClientId :: "jsstring \<Rightarrow> amq \<Rightarrow> jsstring" where
  "addClientId data s =
     (if truthy (amq_clientId s)
      then data @ (if length data > 0 then js ''&'' else []) @ js ''clientId='' @ value_text (amq_clientId s)
      else data)"

definition ajax_post :: "jms list \<Rightarrow> jsstring option \<Rightarrow> amq \<Rightarrow> amq" where
  "ajax_post msgs hdr s =
     amq_emit (Post msgs (uri s) hdr (addClientId (buildParams msgs) s)) (s\<lparr>posts := posts s + 1\<rparr>)"

definition startBatch :: "amq \<Rightarrow> amq" where
  "startBatch s = s\<lparr>batchInProgress := True\<rparr>"

definition sendJmsMessage ::
  "jsstring \<Rightarrow> jsstring \<Rightarrow> string \<Rightarrow> jsstring option \<Rightarrow> amq \<Rightarrow> amq" where
  "sendJmsMessage dest msg type hdr s =
     (let m = \<lparr>destination = dest, jms_message = msg, messageType = js type\<rparr>
      in if batchInProgress s then s\<lparr>messageQueue := messageQueue s @ [(m, hdr)]\<rparr>
         else ajax_post [m] hdr (startBatch s))"

text \<open>
  The loop of \<open>endBatch\<close>: messages to send, messages left in the queue, the headers.
\<close>

fun select_batch ::
  "queued list \<Rightarrow> jms list \<Rightarrow> queued list \<Rightarrow> jsstring option \<Rightarrow> jms list \<times> queued list \<times> jsstring option"
where
  "select_batch [] out que hdr = (out, que, hdr)"
| "select_batch ((m, h) # q) out que hdr =
     (if h \<noteq> None \<and> out = [] then select_batch q [m] que h
      else if h = None \<and> hdr = None then select_batch q (out @ [m]) que hdr
      else select_batch q out (que @ [(m, h)]) hdr)"

definition endBatch :: "amq \<Rightarrow> amq" where
  "endBatch s =
     (if messageQueue s \<noteq> [] then
        (case select_batch (messageQueue s) [] [] None of
           (out, que, hdr) \<Rightarrow> ajax_post out hdr (startBatch (s\<lparr>messageQueue := que\<rparr>)))
      else s\<lparr>batchInProgress := False\<rparr>)"

definition sendMessage :: "jsstring \<Rightarrow> jsstring \<Rightarrow> amq \<Rightarrow> amq" where
  "sendMessage dest msg s = sendJmsMessage dest msg ''send'' None s"

definition addListener ::
  "jsstring \<Rightarrow> jsstring \<Rightarrow> nat option \<Rightarrow> jsstring option \<Rightarrow> amq \<Rightarrow> amq" where
  "addListener lid dest handler selector s =
     sendJmsMessage dest lid ''listen'' (if selector = Some [] then None else selector)
       (s\<lparr>messageHandlers := AList.update lid handler (messageHandlers s)\<rparr>)"

definition removeListener :: "jsstring \<Rightarrow> jsstring \<Rightarrow> amq \<Rightarrow> amq" where
  "removeListener lid dest s =
     sendJmsMessage dest lid ''unlisten'' None
       (s\<lparr>messageHandlers := AList.update lid None (messageHandlers s)\<rparr>)"

text \<open>The answer to a POST.\<close>

definition post_succeeded :: "amq \<Rightarrow> amq" where
  "post_succeeded s = (if posts s = 0 then s else endBatch (s\<lparr>posts := posts s - 1\<rparr>))"

section \<open>Polling\<close>

definition sendPoll :: "nat \<Rightarrow> jsstring \<Rightarrow> amq \<Rightarrow> amq" where
  "sendPoll now random s =
     (let ms = (if sessionInitialized s then amq_timeout s * 1000 else 1);
          data = js ''timeout='' @ int_text ms @ js ''&d='' @ dec_string now @ js ''&r='' @ random
      in amq_emit (Get (uri s) (addClientId data s)) (s\<lparr>polls := polls s @ [sessionInitialized s]\<rparr>))"

definition poll_later :: "int \<Rightarrow> amq \<Rightarrow> amq" where
  "poll_later ms s = s\<lparr>poll_timers := poll_timers s @ [ms]\<rparr>"

definition poll_timer_fires :: "nat \<Rightarrow> nat \<Rightarrow> jsstring \<Rightarrow> amq \<Rightarrow> amq" where
  "poll_timer_fires i now random s =
     (if i < length (poll_timers s)
      then sendPoll now random
             (s\<lparr>poll_timers := take i (poll_timers s) @ drop (Suc i) (poll_timers s)\<rparr>)
      else s)"

section \<open>The application and the AJAX library\<close>

text \<open>
  The callbacks of the application: a listener for a message, \<open>connectStatusHandler\<close>, which
  does nothing when none is given, and \<open>sessionInitializedCallback\<close>. \<open>react cb (a, s)\<close> is
  the effect of a call on the application and the client, and whether it throws.
\<close>

datatype callback = Listener nat xml | StatusHandler bool | SessionCallback

type_synonym 'a world = "'a \<times> amq"
type_synonym 'a react = "callback \<Rightarrow> 'a world \<Rightarrow> 'a world \<times> bool"

text \<open>
  What a library does with an exception of the success callback and of the error callback:
  let it go, or call the error callback with it, and then with which status of the request and
  which status text. jQuery lets both go; Dojo's \<open>Deferred\<close> reports the first, Prototype's
  adapter, which gives the error callback as \<open>onException\<close> too, reports both.
\<close>

record ajax_library =
  success_reported :: bool
  failure_reported :: bool
  reported_xhr_status :: jsval
  reported_status :: jsval

definition jquery_library :: ajax_library where
  "jquery_library = \<lparr>success_reported = False, failure_reported = False,
     reported_xhr_status = Undefined, reported_status = Undefined\<rparr>"

definition dojo_library :: "int \<Rightarrow> ajax_library" where
  "dojo_library http_status = \<lparr>success_reported = True, failure_reported = False,
     reported_xhr_status = Number (Whole http_status), reported_status = Number (Whole http_status)\<rparr>"

definition prototype_library :: "jsval \<Rightarrow> ajax_library" where
  "prototype_library exception = \<lparr>success_reported = True, failure_reported = True,
     reported_xhr_status = Undefined, reported_status = exception\<rparr>"

fun on_client :: "(amq \<Rightarrow> amq) \<Rightarrow> 'a world \<Rightarrow> 'a world" where
  "on_client f (a, s) = (a, f s)"

definition call_status :: "'a react \<Rightarrow> bool \<Rightarrow> 'a world \<Rightarrow> 'a world \<times> bool" where
  "call_status react b w = react (StatusHandler b) (on_client (amq_emit (ConnectStatus b)) w)"

text \<open>The error callbacks of a POST and of a poll: nothing more is done when the status handler throws.\<close>

definition errorHandler :: "'a react \<Rightarrow> jsval \<Rightarrow> jsval \<Rightarrow> 'a world \<Rightarrow> 'a world \<times> bool" where
  "errorHandler react xhr_status status w =
     (case call_status react False w of
        (w1, True) \<Rightarrow> (w1, True)
      | (w1, False) \<Rightarrow>
          (on_client (log_text ''Error occurred in ajax call. HTTP result: ''
             (value_text xhr_status @ js '', status: '' @ value_text status)) w1, False))"

definition pollErrorHandler :: "'a react \<Rightarrow> jsval \<Rightarrow> jsval \<Rightarrow> 'a world \<Rightarrow> 'a world \<times> bool" where
  "pollErrorHandler react xhr_status status w =
     (case call_status react False w of
        (w1, True) \<Rightarrow> (w1, True)
      | (w1, False) \<Rightarrow>
          (on_client (\<lambda>s. poll_later 5000
             (if status = String (js ''error'') \<and> xhr_status = Number (Whole 0)
              then log_text ''Server connection dropped.'' [] s
              else log_text ''Error occurred in poll. HTTP result: ''
                     (value_text xhr_status @ js '', status: '' @ value_text status) s)) w1, False))"

text \<open>A request failed: the error callback, once more when it throws and the library reports that.\<close>

definition report_failure ::
  "ajax_library \<Rightarrow> (jsval \<Rightarrow> jsval \<Rightarrow> 'a world \<Rightarrow> 'a world \<times> bool) \<Rightarrow> jsval \<Rightarrow> jsval \<Rightarrow> 'a world \<Rightarrow> 'a world \<times> bool"
where
  "report_failure lib on_error xhr_status status w =
     (case on_error xhr_status status w of
        (w1, True) \<Rightarrow>
          if failure_reported lib then on_error (reported_xhr_status lib) (reported_status lib) w1 else (w1, True)
      | (w1, False) \<Rightarrow> (w1, False))"

definition post_failed :: "'a react \<Rightarrow> ajax_library \<Rightarrow> jsval \<Rightarrow> jsval \<Rightarrow> 'a world \<Rightarrow> 'a world \<times> bool" where
  "post_failed react lib xhr_status status w =
     (if posts (snd w) = 0 then (w, False)
      else report_failure lib (errorHandler react) xhr_status status (on_client (\<lambda>s. s\<lparr>posts := posts s - 1\<rparr>) w))"

fun call_handler :: "'a react \<Rightarrow> nat option \<Rightarrow> xml list \<Rightarrow> 'a world \<Rightarrow> 'a world \<times> bool" where
  "call_handler react h [] w = (w, False)"
| "call_handler react h (node # nodes) w =
     (case h of
        None \<Rightarrow> (w, True)
      | Some k \<Rightarrow>
          (case react (Listener k node) w of
             (w1, True) \<Rightarrow> (w1, True)
           | (w1, False) \<Rightarrow> call_handler react h nodes w1))"

definition id_text :: "jsstring option \<Rightarrow> jsstring" where
  "id_text i = (case i of None \<Rightarrow> js ''null'' | Some x \<Rightarrow> x)"

definition find_handler :: "jsstring \<Rightarrow> amq \<Rightarrow> nat option" where
  "find_handler i s = (case map_of (messageHandlers s) i of None \<Rightarrow> None | Some h \<Rightarrow> h)"

fun handle_responses :: "'a react \<Rightarrow> xml list \<Rightarrow> 'a world \<Rightarrow> 'a world \<times> bool" where
  "handle_responses react [] w = (w, False)"
| "handle_responses react (r # rs) w =
     (if \<not> is_element r then handle_responses react rs w
      else
        (let i = id_text (getAttribute r ''id''); h = find_handler i (snd w)
         in if logging (snd w) \<and> h = None then
              handle_responses react rs
                (on_client (log_text ''No handler found to match message with id = '' i) w)
            else (case call_handler react h (childNodes r) w of
                    (w1, True) \<Rightarrow> (w1, True)
                  | (w1, False) \<Rightarrow> handle_responses react rs w1)))"

text \<open>
  \<open>messageHandler\<close>: the answer is a document, or (\<open>None\<close>) something without
  \<open>getElementsByTagName\<close>, which makes it throw.
\<close>

definition messageHandler :: "'a react \<Rightarrow> xml option \<Rightarrow> 'a world \<Rightarrow> 'a world \<times> bool" where
  "messageHandler react data w =
     (case data of
        None \<Rightarrow> (w, True)
      | Some doc \<Rightarrow>
          (case by_tag (js ''ajax-response'') doc of
             [r] \<Rightarrow>
               (case call_status react True w of
                  (w1, True) \<Rightarrow> (w1, True)
                | (w1, False) \<Rightarrow> handle_responses react (childNodes r) w1)
           | _ \<Rightarrow> (w, False)))"

definition pollHandler :: "'a react \<Rightarrow> xml option \<Rightarrow> 'a world \<Rightarrow> 'a world \<times> bool" where
  "pollHandler react data w =
     (case messageHandler react data w of
        (w1, raised) \<Rightarrow>
          (on_client (\<lambda>s. poll_later (pollDelay s)
             (if raised then log_text ''Exception in the poll handler'' [] s else s)) w1, raised))"

definition initHandler :: "'a react \<Rightarrow> xml option \<Rightarrow> 'a world \<Rightarrow> 'a world \<times> bool" where
  "initHandler react data w =
     (let w1 = on_client (\<lambda>s. s\<lparr>sessionInitialized := True\<rparr>) w
      in case (if has_sessionInitializedCallback (snd w1)
               then react SessionCallback (on_client (amq_emit SessionInitialized) w1) else (w1, False)) of
           (w2, True) \<Rightarrow> (w2, True)
         | (w2, False) \<Rightarrow> pollHandler react data w2)"

text \<open>
  The answer to the \<open>i\<close>-th poll under way; a poll remembers which handler it was given. A
  library that reports the exception of this handler runs the error handler as well.
\<close>

definition end_poll :: "nat \<Rightarrow> amq \<Rightarrow> amq" where
  "end_poll i s = s\<lparr>polls := take i (polls s) @ drop (Suc i) (polls s)\<rparr>"

definition poll_answered ::
  "'a react \<Rightarrow> ajax_library \<Rightarrow> nat \<Rightarrow> xml option \<Rightarrow> 'a world \<Rightarrow> 'a world \<times> bool" where
  "poll_answered react lib i data w =
     (if i < length (polls (snd w)) then
        (case (if polls (snd w) ! i then pollHandler else initHandler) react data (on_client (end_poll i) w) of
           (w1, True) \<Rightarrow>
             if success_reported lib
             then pollErrorHandler react (reported_xhr_status lib) (reported_status lib) w1 else (w1, True)
         | (w1, False) \<Rightarrow> (w1, False))
      else (w, False))"

definition poll_failed ::
  "'a react \<Rightarrow> ajax_library \<Rightarrow> nat \<Rightarrow> jsval \<Rightarrow> jsval \<Rightarrow> 'a world \<Rightarrow> 'a world \<times> bool" where
  "poll_failed react lib i xhr_status status w =
     (if i < length (polls (snd w))
      then report_failure lib (pollErrorHandler react) xhr_status status (on_client (end_poll i) w)
      else (w, False))"

section \<open>init\<close>

record amq_options =
  o_uri :: jsval
  o_pollDelay :: jsval
  o_timeout :: jsval
  o_logging :: jsval
  o_sessionInitializedCallback :: jsval
  o_clientId :: jsval

text \<open>A number option that is no whole number is not modelled (\<open>None\<close>).\<close>

fun number_option :: "jsval \<Rightarrow> int \<Rightarrow> int option" where
  "number_option (Number (Whole n)) d = Some n"
| "number_option (Number n) d = None"
| "number_option v d = Some d"

definition amq_init :: "amq_options \<Rightarrow> nat \<Rightarrow> jsstring \<Rightarrow> amq \<Rightarrow> amq option" where
  "amq_init opts now random s =
     (case (number_option (o_pollDelay opts) 0, number_option (o_timeout opts) 25) of
        (Some d, Some t) \<Rightarrow>
          Some (sendPoll now random
            (s\<lparr>uri := (if truthy (o_uri opts) then value_text (o_uri opts) else js ''/amq''),
               pollDelay := d, amq_timeout := t, logging := truthy (o_logging opts),
               has_sessionInitializedCallback := truthy (o_sessionInitializedCallback opts),
               amq_clientId := o_clientId opts\<rparr>))
      | _ \<Rightarrow> None)"

section \<open>What goes out\<close>

fun event_posts :: "amq_event \<Rightarrow> jms list" where
  "event_posts (Post ms u h b) = ms"
| "event_posts e = []"

definition posted :: "amq \<Rightarrow> jms list" where
  "posted s = concat (map event_posts (amq_log s))"

definition waiting :: "amq \<Rightarrow> jms list" where
  "waiting s = map fst (messageQueue s)"

fun event_isolated :: "amq_event \<Rightarrow> bool" where
  "event_isolated (Post ms u h b) = (h = None \<or> length ms = 1)"
| "event_isolated e = True"

lemma select_batch_mset:
  "select_batch q out que hdr = (out', que', hdr') \<Longrightarrow>
     mset out' + mset (map fst que') = mset out + mset (map fst que) + mset (map fst q)"
  by (induction q out que hdr rule: select_batch.induct) (auto split: if_splits)

lemma select_batch_isolated:
  "select_batch q out que hdr = (out', que', hdr') \<Longrightarrow> (hdr \<noteq> None \<longrightarrow> length out = 1) \<Longrightarrow>
     hdr' \<noteq> None \<longrightarrow> length out' = 1"
  by (induction q out que hdr rule: select_batch.induct) (auto split: if_splits)

lemma select_batch_plain:
  "\<forall>(m, h) \<in> set q. h = None \<Longrightarrow> select_batch q out que None = (out @ map fst q, que, None)"
  by (induction q arbitrary: out) auto

lemma select_batch_progress:
  "select_batch q out que hdr = (out', que', hdr') \<Longrightarrow>
     out \<noteq> [] \<or> hdr = None \<and> q \<noteq> [] \<Longrightarrow> out' \<noteq> []"
  by (induction q out que hdr rule: select_batch.induct) (auto split: if_splits)

section \<open>Operations of the application\<close>

inductive client_ops :: "amq \<Rightarrow> queued list \<Rightarrow> amq \<Rightarrow> bool" where
  ops_none: "client_ops s [] s"
| ops_send: "client_ops s ms s1 \<Longrightarrow>
    client_ops s (ms @ [(\<lparr>destination = d, jms_message = m, messageType = js ''send''\<rparr>, None)])
      (sendMessage d m s1)"
| ops_listen: "client_ops s ms s1 \<Longrightarrow>
    client_ops s (ms @ [(\<lparr>destination = d, jms_message = lid, messageType = js ''listen''\<rparr>,
        if sel = Some [] then None else sel)])
      (addListener lid d h sel s1)"
| ops_unlisten: "client_ops s ms s1 \<Longrightarrow>
    client_ops s (ms @ [(\<lparr>destination = d, jms_message = lid, messageType = js ''unlisten''\<rparr>, None)])
      (removeListener lid d s1)"

text \<open>
  An application: whatever its callbacks do, what they do to the client is a sequence of
  these operations.
\<close>

locale amq_application =
  fixes react :: "'a react"
  assumes reacts: "react cb w = (w', raised) \<Longrightarrow> \<exists>ms. client_ops (snd w) ms (snd w')"

lemma client_ops_trans: "client_ops b ns c \<Longrightarrow> client_ops a ms b \<Longrightarrow> client_ops a (ms @ ns) c"
proof (induction rule: client_ops.induct)
  case (ops_none s)
  then show ?case by simp
next
  case (ops_send s ns s1 d m)
  then show ?case using client_ops.ops_send [of a "ms @ ns" s1 d m] by simp
next
  case (ops_listen s ns s1 d lid sel h)
  then show ?case using client_ops.ops_listen [of a "ms @ ns" s1 d lid sel h] by simp
next
  case (ops_unlisten s ns s1 d lid)
  then show ?case using client_ops.ops_unlisten [of a "ms @ ns" s1 d lid] by simp
qed

text \<open>
  What the dispatch of an answer does to the client: operations and entries of the log
  that post nothing.
\<close>

inductive dispatched :: "amq \<Rightarrow> queued list \<Rightarrow> amq \<Rightarrow> bool" where
  dispatched_none: "dispatched s [] s"
| dispatched_ops: "dispatched s ms s1 \<Longrightarrow> client_ops s1 ns s2 \<Longrightarrow> dispatched s (ms @ ns) s2"
| dispatched_emit: "dispatched s ms s1 \<Longrightarrow> event_posts e = [] \<Longrightarrow> event_isolated e \<Longrightarrow>
    dispatched s ms (amq_emit e s1)"

lemma dispatched_trans: "dispatched b ns c \<Longrightarrow> dispatched a ms b \<Longrightarrow> dispatched a (ms @ ns) c"
proof (induction rule: dispatched.induct)
  case (dispatched_ops s ns s1 ks s2)
  then show ?case using dispatched.dispatched_ops [of a "ms @ ns" s1 ks s2] by simp
qed (auto intro: dispatched.intros)

lemma dispatched_log_text: "dispatched s [] (log_text t x s)"
  using dispatched_emit [OF dispatched_none, of "Logged (js t @ x)" s]
  by (simp add: log_text_def dispatched_none)

lemma snd_on_client [simp]: "snd (on_client f w) = f (snd w)"
  by (cases w) simp

context amq_application
begin

lemma callback_dispatched:
  assumes "react cb w = (w', r)"
  shows "\<exists>ms. dispatched (snd w) ms (snd w')"
proof -
  obtain ms where "client_ops (snd w) ms (snd w')" using reacts [OF assms] ..
  from dispatched_ops [OF dispatched_none this] show ?thesis by auto
qed

lemma emitted_callback:
  assumes "react cb (on_client (amq_emit e) w) = (w', r)" "event_posts e = []" "event_isolated e"
  shows "\<exists>ms. dispatched (snd w) ms (snd w')"
proof -
  from callback_dispatched [OF assms(1)] obtain ms where "dispatched (amq_emit e (snd w)) ms (snd w')" by auto
  moreover have "dispatched (snd w) [] (amq_emit e (snd w))"
    by (rule dispatched_emit [OF dispatched_none assms(2,3)])
  ultimately show ?thesis by (blast intro: dispatched_trans)
qed

lemma call_status_dispatched: "call_status react b w = (w', r) \<Longrightarrow> \<exists>ms. dispatched (snd w) ms (snd w')"
  unfolding call_status_def by (erule emitted_callback) simp_all

lemma errorHandler_dispatched:
  assumes "errorHandler react x st w = (w', r)"
  shows "\<exists>ms. dispatched (snd w) ms (snd w')"
proof -
  obtain w1 raised where 1: "call_status react False w = (w1, raised)" by (cases "call_status react False w")
  then obtain ms where "dispatched (snd w) ms (snd w1)" using call_status_dispatched by blast
  moreover have "dispatched (snd w1) [] (snd w')"
    using assms 1 by (cases raised) (auto simp: errorHandler_def dispatched_log_text dispatched_none)
  ultimately show ?thesis by (blast intro: dispatched_trans)
qed

lemma pollErrorHandler_dispatched:
  assumes "pollErrorHandler react x st w = (w', r)"
  obtains ms where "r" "dispatched (snd w) ms (snd w')"
  | ms s1 where "\<not> r" "dispatched (snd w) ms s1" "snd w' = poll_later 5000 s1"
proof -
  obtain w1 raised where 1: "call_status react False w = (w1, raised)" by (cases "call_status react False w")
  then obtain ms where d: "dispatched (snd w) ms (snd w1)" using call_status_dispatched by blast
  show thesis
  proof (cases raised)
    case True
    with assms 1 d that(1) show thesis by (simp add: pollErrorHandler_def)
  next
    case False
    let ?s1 = "if st = String (js ''error'') \<and> x = Number (Whole 0) then log_text ''Server connection dropped.'' [] (snd w1)
      else log_text ''Error occurred in poll. HTTP result: '' (value_text x @ js '', status: '' @ value_text st) (snd w1)"
    have "dispatched (snd w1) [] ?s1" by (simp add: dispatched_log_text)
    from dispatched_trans [OF this d] have "dispatched (snd w) (ms @ []) ?s1" .
    moreover have "snd w' = poll_later 5000 ?s1" "\<not> r" using assms 1 False by (auto simp: pollErrorHandler_def)
    ultimately show thesis using that(2) by blast
  qed
qed

lemma call_handler_dispatched:
  "call_handler react h nodes w = (w', r) \<Longrightarrow> \<exists>ms. dispatched (snd w) ms (snd w')"
proof (induction nodes arbitrary: w)
  case Nil
  then show ?case by (auto intro: dispatched_none)
next
  case (Cons node nodes)
  show ?case
  proof (cases h)
    case None
    with Cons.prems show ?thesis by (auto intro: dispatched_none)
  next
    case (Some k)
    obtain w1 raised where 1: "react (Listener k node) w = (w1, raised)" by (cases "react (Listener k node) w")
    from reacts [OF this] obtain ms where "client_ops (snd w) ms (snd w1)" by blast
    then have d: "dispatched (snd w) ms (snd w1)"
      using dispatched_ops [OF dispatched_none] by fastforce
    show ?thesis
    proof (cases raised)
      case True
      with 1 Some Cons.prems d show ?thesis by auto
    next
      case False
      with 1 Some Cons.prems obtain ns where "dispatched (snd w1) ns (snd w')"
        using Cons.IH [of w1] by auto
      with d show ?thesis by (blast intro: dispatched_trans)
    qed
  qed
qed

lemma handle_responses_dispatched:
  "handle_responses react rs w = (w', r) \<Longrightarrow> \<exists>ms. dispatched (snd w) ms (snd w')"
proof (induction rs arbitrary: w)
  case Nil
  then show ?case by (auto intro: dispatched_none)
next
  case (Cons x rs)
  obtain a s where w: "w = (a, s)" by (cases w)
  define i where "i = id_text (getAttribute x ''id'')"
  define h where "h = find_handler i s"
  show ?case
  proof (cases "is_element x")
    case False
    with Cons show ?thesis by auto
  next
    case True
    show ?thesis
    proof (cases "logging s \<and> h = None")
      case True
      let ?s1 = "log_text ''No handler found to match message with id = '' i s"
      have "handle_responses react rs (a, ?s1) = (w', r)"
        using Cons.prems True \<open>is_element x\<close> by (simp add: w i_def h_def)
      from Cons.IH [OF this] obtain ms where "dispatched ?s1 ms (snd w')" by auto
      then show ?thesis using dispatched_trans [OF _ dispatched_log_text] w by fastforce
    next
      case False
      obtain w1 raised where 1: "call_handler react h (childNodes x) w = (w1, raised)"
        by (cases "call_handler react h (childNodes x) w")
      from call_handler_dispatched [OF this] obtain ms where d: "dispatched (snd w) ms (snd w1)" by blast
      have e: "handle_responses react (x # rs) w =
          (if raised then (w1, True) else handle_responses react rs w1)"
        using False \<open>is_element x\<close> 1 by (auto simp: w Let_def i_def h_def)
      show ?thesis
      proof (cases raised)
        case True
        with e Cons.prems d show ?thesis by auto
      next
        case False
        with e Cons.prems Cons.IH [of w1] obtain ns where "dispatched (snd w1) ns (snd w')" by auto
        with d show ?thesis by (blast intro: dispatched_trans)
      qed
    qed
  qed
qed

lemma messageHandler_dispatched:
  assumes "messageHandler react data w = (w', r)"
  shows "\<exists>ms. dispatched (snd w) ms (snd w')"
proof -
  obtain w1 raised where 1: "call_status react True w = (w1, raised)" by (cases "call_status react True w")
  then obtain ms where d: "dispatched (snd w) ms (snd w1)" using call_status_dispatched by blast
  consider "w' = w" | "w' = w1" | rs where "handle_responses react rs w1 = (w', r)"
    using assms 1 unfolding messageHandler_def by (cases raised) (auto split: option.splits list.splits)
  then show ?thesis
  proof cases
    case 1
    then show ?thesis by (auto intro: dispatched_none)
  next
    case 2
    with d show ?thesis by blast
  next
    case 3
    from handle_responses_dispatched [OF 3] d show ?thesis by (blast intro: dispatched_trans)
  qed
qed

lemma pollHandler_dispatched:
  assumes "pollHandler react data w = (w', r)"
  obtains ms s1 where "dispatched (snd w) ms s1" "snd w' = poll_later (pollDelay s1) s1"
proof -
  obtain w1 raised where 1: "messageHandler react data w = (w1, raised)"
    by (cases "messageHandler react data w")
  obtain a1 s1 where w1: "w1 = (a1, s1)" by (cases w1)
  from messageHandler_dispatched [OF 1] w1 obtain ms where d: "dispatched (snd w) ms s1" by auto
  let ?s2 = "if raised then log_text ''Exception in the poll handler'' [] s1 else s1"
  have "dispatched s1 [] ?s2" by (simp add: dispatched_log_text dispatched_none)
  from dispatched_trans [OF this d] have "dispatched (snd w) ms ?s2" by simp
  moreover have "snd w' = poll_later (pollDelay ?s2) ?s2"
    using assms 1 w1 by (auto simp: pollHandler_def log_text_def amq_emit_def)
  ultimately show thesis by (rule that)
qed

end

section \<open>The queue of messages\<close>

text \<open>
  A run of the client: operations, answers to its POSTs, and whatever polling changes. It
  is labelled with the messages submitted, each with its selector. A POST that fails ends
  without \<open>endBatch\<close>; what the status handler then submits are further operations. Every
  event of a page with any application is such a run (\<open>amq_step_queue_run\<close>).
\<close>

inductive queue_run :: "amq \<Rightarrow> queued list \<Rightarrow> amq \<Rightarrow> bool" where
  run_none: "queue_run s [] s"
| run_ops: "queue_run s ms s1 \<Longrightarrow> client_ops s1 ns s2 \<Longrightarrow> queue_run s (ms @ ns) s2"
| run_succeeded: "queue_run s ms s1 \<Longrightarrow> queue_run s ms (post_succeeded s1)"
| run_failed: "queue_run s ms s1 \<Longrightarrow> queue_run s ms (s1\<lparr>posts := posts s1 - 1\<rparr>)"
| run_emit: "queue_run s ms s1 \<Longrightarrow> event_posts e = [] \<Longrightarrow> event_isolated e \<Longrightarrow>
    queue_run s ms (amq_emit e s1)"
| run_polls: "queue_run s ms s1 \<Longrightarrow>
    queue_run s ms (s1\<lparr>polls := ps, poll_timers := ts, sessionInitialized := b\<rparr>)"

lemmas out_defs = posted_def waiting_def amq_emit_def ajax_post_def startBatch_def

lemma posted_emit [simp]: "posted (amq_emit e s) = posted s @ event_posts e"
  by (simp add: posted_def amq_emit_def)

lemma submit_outbox:
  assumes "batchInProgress s \<or> messageQueue s = []"
  shows "posted (sendJmsMessage d m t h s) @ waiting (sendJmsMessage d m t h s) =
      posted s @ waiting s @ [\<lparr>destination = d, jms_message = m, messageType = js t\<rparr>]"
    "batchInProgress (sendJmsMessage d m t h s)"
    "messageQueue (sendJmsMessage d m t h s) = messageQueue s \<or>
     messageQueue (sendJmsMessage d m t h s) =
       messageQueue s @ [(\<lparr>destination = d, jms_message = m, messageType = js t\<rparr>, h)]"
  using assms by (auto simp: sendJmsMessage_def Let_def out_defs)

definition idle_empty :: "amq \<Rightarrow> bool" where
  "idle_empty s \<longleftrightarrow> batchInProgress s \<or> messageQueue s = []"

definition outbox :: "amq \<Rightarrow> jms list" where
  "outbox s = posted s @ waiting s"

lemma listener_frame:
  "posted (s\<lparr>messageHandlers := hs\<rparr>) = posted s" "waiting (s\<lparr>messageHandlers := hs\<rparr>) = waiting s"
  "idle_empty (s\<lparr>messageHandlers := hs\<rparr>) = idle_empty s"
  by (simp_all add: posted_def waiting_def idle_empty_def)

lemma client_ops_outbox:
  "client_ops s ms s' \<Longrightarrow> idle_empty s \<Longrightarrow>
     idle_empty s' \<and> outbox s' = outbox s @ map fst ms \<and>
     set (messageQueue s') \<subseteq> set (messageQueue s) \<union> set ms"
proof (induction rule: client_ops.induct)
  case (ops_none s)
  then show ?case by simp
next
  case (ops_send s ms s1 d m)
  then have "idle_empty s1" by simp
  with ops_send show ?case
    using submit_outbox [of s1 d m "''send''" None] by (auto simp: sendMessage_def outbox_def idle_empty_def)
next
  case (ops_listen s ms s1 d lid sel h)
  let ?s = "s1\<lparr>messageHandlers := AList.update lid h (messageHandlers s1)\<rparr>"
  have "idle_empty ?s" using ops_listen by (simp add: listener_frame)
  with ops_listen show ?case
    using submit_outbox [of ?s d lid "''listen''" "if sel = Some [] then None else sel"]
    by (auto simp: addListener_def outbox_def idle_empty_def listener_frame)
next
  case (ops_unlisten s ms s1 d lid)
  let ?s = "s1\<lparr>messageHandlers := AList.update lid None (messageHandlers s1)\<rparr>"
  have "idle_empty ?s" using ops_unlisten by (simp add: listener_frame)
  with ops_unlisten show ?case
    using submit_outbox [of ?s d lid "''unlisten''" None]
    by (auto simp: removeListener_def outbox_def idle_empty_def listener_frame)
qed

lemma endBatch_outbox:
  "mset (outbox (endBatch s)) = mset (outbox s)" "idle_empty (endBatch s)"
  "\<forall>(m, h) \<in> set (messageQueue s). h = None \<Longrightarrow> outbox (endBatch s) = outbox s"
  "set (messageQueue (endBatch s)) \<subseteq> set (messageQueue s)"
proof -
  obtain out que hdr where q: "select_batch (messageQueue s) [] [] None = (out, que, hdr)"
    by (cases "select_batch (messageQueue s) [] [] None") auto
  show "mset (outbox (endBatch s)) = mset (outbox s)"
    using select_batch_mset [OF q] by (simp add: endBatch_def q out_defs outbox_def)
  show "idle_empty (endBatch s)" by (simp add: endBatch_def q idle_empty_def out_defs)
  show "outbox (endBatch s) = outbox s" if "\<forall>(m, h) \<in> set (messageQueue s). h = None"
    using select_batch_plain [OF that, of "[]" "[]"] q
    by (auto simp: endBatch_def out_defs outbox_def)
  have "select_batch q o1 q1 h1 = (o2, q2, h2) \<Longrightarrow> set q2 \<subseteq> set q1 \<union> set q" for q o1 q1 h1 o2 q2 h2
    by (induction q o1 q1 h1 rule: select_batch.induct) (auto split: if_splits)
  from this [OF q] show "set (messageQueue (endBatch s)) \<subseteq> set (messageQueue s)"
    by (simp add: endBatch_def q out_defs)
qed

lemma post_answers_outbox:
  "outbox (s\<lparr>posts := n\<rparr>) = outbox s" "idle_empty (s\<lparr>posts := n\<rparr>) = idle_empty s"
  by (simp_all add: outbox_def posted_def waiting_def idle_empty_def)

lemma poll_frame:
  "outbox (s\<lparr>polls := ps, poll_timers := ts, sessionInitialized := b\<rparr>) = outbox s"
  "idle_empty (s\<lparr>polls := ps, poll_timers := ts, sessionInitialized := b\<rparr>) = idle_empty s"
  by (simp_all add: outbox_def posted_def waiting_def idle_empty_def)

lemma emit_frame:
  "event_posts e = [] \<Longrightarrow> outbox (amq_emit e s) = outbox s"
  "idle_empty (amq_emit e s) = idle_empty s" "messageQueue (amq_emit e s) = messageQueue s"
  by (simp_all add: outbox_def posted_def waiting_def idle_empty_def amq_emit_def)

lemma post_succeeded_outbox:
  "mset (outbox (post_succeeded s)) = mset (outbox s)" "idle_empty s \<Longrightarrow> idle_empty (post_succeeded s)"
  "\<forall>(m, h) \<in> set (messageQueue s). h = None \<Longrightarrow> outbox (post_succeeded s) = outbox s"
  "set (messageQueue (post_succeeded s)) \<subseteq> set (messageQueue s)"
  using endBatch_outbox [of "s\<lparr>posts := posts s - 1\<rparr>"]
  by (auto simp: post_succeeded_def post_answers_outbox)

lemma queue_run_mset:
  "queue_run s ms s' \<Longrightarrow> idle_empty s \<Longrightarrow>
     idle_empty s' \<and> mset (outbox s') = mset (outbox s) + mset (map fst ms)"
proof (induction rule: queue_run.induct)
  case (run_ops s ms s1 ns s2)
  then show ?case using client_ops_outbox [OF run_ops.hyps(2)] by simp
qed (simp_all add: post_succeeded_outbox post_answers_outbox emit_frame poll_frame)

lemma queue_run_fifo:
  "queue_run s ms s' \<Longrightarrow> idle_empty s \<Longrightarrow> \<forall>(m, h) \<in> set (messageQueue s @ ms). h = None \<Longrightarrow>
     outbox s' = outbox s @ map fst ms \<and> (\<forall>(m, h) \<in> set (messageQueue s'). h = None)"
proof (induction rule: queue_run.induct)
  case (run_ops s ms s1 ns s2)
  then have "idle_empty s1" using queue_run_mset [OF run_ops.hyps(1)] by simp
  with run_ops show ?case using client_ops_outbox [OF run_ops.hyps(2)] by fastforce
next
  case (run_succeeded s ms s1)
  then show ?case using post_succeeded_outbox(3,4) [of s1] by fastforce
qed (auto simp: post_answers_outbox emit_frame poll_frame)

text \<open>
  C20. Whatever the application submits and however its POSTs are answered, every message
  submitted is posted or waiting, none twice; without selectors they are posted in the
  order in which they were submitted.
\<close>

theorem messages_kept_in_order:
  assumes "queue_run s ms s'" and "idle_empty s" "outbox s = []"
  shows "mset (posted s' @ waiting s') = mset (map fst ms) \<and>
    ((\<forall>(m, h) \<in> set ms. h = None) \<longrightarrow> posted s' @ waiting s' = map fst ms)"
proof -
  have "messageQueue s = []" using assms(3) by (simp add: outbox_def waiting_def)
  then show ?thesis
    using queue_run_mset [OF assms(1,2)] queue_run_fifo [OF assms(1,2)] assms(3)
    by (simp add: outbox_def)
qed

section \<open>Selectors\<close>

lemma log_isolated_post:
  "list_all event_isolated (amq_log s) \<Longrightarrow> hdr = None \<or> length ms = 1 \<Longrightarrow>
     list_all event_isolated (amq_log (ajax_post ms hdr s))"
  by (simp add: ajax_post_def amq_emit_def)

lemma log_isolated_submit:
  "list_all event_isolated (amq_log s) \<Longrightarrow>
     list_all event_isolated (amq_log (sendJmsMessage d m t h s))"
  by (simp add: sendJmsMessage_def Let_def log_isolated_post startBatch_def)

lemma log_isolated_ops:
  "client_ops s ms s' \<Longrightarrow> list_all event_isolated (amq_log s) \<Longrightarrow> list_all event_isolated (amq_log s')"
  by (induction rule: client_ops.induct)
    (simp_all add: log_isolated_submit sendMessage_def addListener_def removeListener_def)

lemma log_isolated_endBatch:
  "list_all event_isolated (amq_log s) \<Longrightarrow> list_all event_isolated (amq_log (endBatch s))"
proof -
  assume s: "list_all event_isolated (amq_log s)"
  obtain out que hdr where q: "select_batch (messageQueue s) [] [] None = (out, que, hdr)"
    by (cases "select_batch (messageQueue s) [] [] None") auto
  from select_batch_isolated [OF q] have "hdr = None \<or> length out = 1" by auto
  with s show ?thesis by (simp add: endBatch_def q log_isolated_post startBatch_def)
qed

text \<open>
  A selector applies to one message only: every POST with a selector carries exactly
  one message.
\<close>

theorem selector_posted_alone:
  "queue_run s ms s' \<Longrightarrow> list_all event_isolated (amq_log s) \<Longrightarrow>
     Post out u (Some sel) b \<in> set (amq_log s') \<Longrightarrow> length out = 1"
proof -
  assume run: "queue_run s ms s'" and s: "list_all event_isolated (amq_log s)"
    and p: "Post out u (Some sel) b \<in> set (amq_log s')"
  have "list_all event_isolated (amq_log s')" using run s
    by (induction rule: queue_run.induct)
      (auto simp: log_isolated_ops post_succeeded_def log_isolated_endBatch amq_emit_def)
  with p show "length out = 1" by (force simp: list_all_iff)
qed

section \<open>Draining the queue\<close>

lemma endBatch_length:
  "messageQueue s \<noteq> [] \<Longrightarrow> length (messageQueue (endBatch s)) < length (messageQueue s)"
proof -
  assume ne: "messageQueue s \<noteq> []"
  obtain out que hdr where q: "select_batch (messageQueue s) [] [] None = (out, que, hdr)"
    by (cases "select_batch (messageQueue s) [] [] None") auto
  have "out \<noteq> []" using select_batch_progress [OF q] ne by simp
  moreover have "length out + length que = length (messageQueue s)"
    using arg_cong [OF select_batch_mset [OF q], of size] by simp
  ultimately show ?thesis using ne by (simp add: endBatch_def q ajax_post_def amq_emit_def startBatch_def)
    (cases out; simp)
qed

lemma endBatch_posts:
  "posts (endBatch s) = (if messageQueue s = [] then posts s else posts s + 1)"
  "batchInProgress (endBatch s) \<longleftrightarrow> messageQueue s \<noteq> []"
  by (simp_all add: endBatch_def ajax_post_def amq_emit_def startBatch_def split: prod.split)

text \<open>
  When every POST succeeds, at most one more POST than there are waiting messages
  empties the queue: every message is out and the client is idle again.
\<close>

theorem answered_posts_drain:
  "posts s = 1 \<Longrightarrow> \<exists>n \<le> length (messageQueue s) + 1.
     messageQueue ((post_succeeded ^^ n) s) = [] \<and> \<not> batchInProgress ((post_succeeded ^^ n) s)
     \<and> mset (posted ((post_succeeded ^^ n) s)) = mset (outbox s)"
proof (induction "length (messageQueue s)" arbitrary: s rule: less_induct)
  case less
  let ?s = "post_succeeded s"
  have e: "?s = endBatch (s\<lparr>posts := 0\<rparr>)" using less.prems by (simp add: post_succeeded_def)
  show ?case
  proof (cases "messageQueue s = []")
    case True
    then have "messageQueue ?s = []" "\<not> batchInProgress ?s" "posted ?s = posted s"
      by (simp_all add: e endBatch_def posted_def)
    with True show ?thesis by (intro exI [of _ 1]) (simp add: outbox_def waiting_def)
  next
    case False
    then have "length (messageQueue ?s) < length (messageQueue s)"
      using endBatch_length [of "s\<lparr>posts := 0\<rparr>"] by (simp add: e)
    moreover have "posts ?s = 1" using False by (simp add: e endBatch_posts)
    ultimately obtain n where n: "n \<le> length (messageQueue ?s) + 1"
      "messageQueue ((post_succeeded ^^ n) ?s) = []" "\<not> batchInProgress ((post_succeeded ^^ n) ?s)"
      "mset (posted ((post_succeeded ^^ n) ?s)) = mset (outbox ?s)"
      using less.hyps by blast
    have "mset (outbox ?s) = mset (outbox s)" by (rule post_succeeded_outbox)
    with n \<open>length (messageQueue ?s) < length (messageQueue s)\<close> show ?thesis
      by (intro exI [of _ "Suc n"]) (simp add: funpow_swap1)
  qed
qed

section \<open>A POST that fails\<close>

definition blocked :: "amq \<Rightarrow> bool" where
  "blocked s \<longleftrightarrow> batchInProgress s \<and> posts s = 0"

lemma blocked_ops:
  "client_ops s ms s' \<Longrightarrow> blocked s \<Longrightarrow> blocked s' \<and> posted s' = posted s"
  by (induction rule: client_ops.induct)
    (simp_all add: blocked_def sendMessage_def addListener_def removeListener_def sendJmsMessage_def
      posted_def Let_def)

lemma blocked_run:
  "queue_run s ms s' \<Longrightarrow> blocked s \<Longrightarrow> blocked s' \<and> posted s' = posted s"
proof (induction rule: queue_run.induct)
  case (run_ops s ms s1 ns s2)
  then show ?case using blocked_ops [OF run_ops.hyps(2)] by simp
next
  case (run_succeeded s ms s1)
  then show ?case by (simp add: blocked_def post_succeeded_def)
next
  case (run_failed s ms s1)
  then show ?case by (simp add: blocked_def) (simp add: posted_def)
next
  case (run_emit s ms s1 e)
  then show ?case by (simp add: blocked_def) (simp add: amq_emit_def)
next
  case (run_polls s ms s1 ps ts b)
  then show ?case by (simp add: blocked_def posted_def)
qed simp

section \<open>Orders that change\<close>

text \<open>
  The order of submission is not kept with a selector: a listener added and removed
  while a POST is under way is unsubscribed before it is subscribed, and stays subscribed.
\<close>

theorem unlisten_overtakes_listen:
  fixes m d d0 lid :: jsstring and h :: "nat option"
  assumes "batchInProgress s" "posts s = 1" "messageQueue s = []" "sel \<noteq> []" "posted s = []"
  defines "s' \<equiv> post_succeeded (removeListener lid d (addListener lid d h (Some sel) (sendMessage d0 m s)))"
  shows "map jms_message (posted s') = [m, lid] \<and>
    map messageType (posted s') = [js ''send'', js ''unlisten''] \<and>
    map messageType (waiting s') = [js ''listen'']"
proof -
  let ?m1 = "\<lparr>destination = d0, jms_message = m, messageType = js ''send''\<rparr>"
  let ?m2 = "\<lparr>destination = d, jms_message = lid, messageType = js ''listen''\<rparr>"
  let ?m3 = "\<lparr>destination = d, jms_message = lid, messageType = js ''unlisten''\<rparr>"
  let ?s = "removeListener lid d (addListener lid d h (Some sel) (sendMessage d0 m s))"
  have "messageQueue ?s = [(?m1, None), (?m2, Some sel), (?m3, None)]" "posts ?s = 1"
    "amq_log ?s = amq_log s"
    using assms(1-4) by (simp_all add: removeListener_def addListener_def sendMessage_def
        sendJmsMessage_def Let_def)
  then have "posted s' = [?m1, ?m3]" "waiting s' = [?m2]"
    using assms(5) by (simp_all add: s'_def post_succeeded_def endBatch_def out_defs)
  then show ?thesis by simp
qed

section \<open>A message for a listener that is gone\<close>

text \<open>
  Without logging, a message for a listener that has been removed makes the dispatch
  throw, and the rest of the answer is lost.
\<close>

theorem late_message_throws:
  assumes "\<not> logging (snd w)" "find_handler i (snd w) = None" "childNodes r \<noteq> []"
    and "is_element r" "getAttribute r ''id'' = Some i"
  shows "handle_responses react (r # rs) w = (w, True)"
  using assms by (cases "childNodes r") (auto simp: id_text_def Let_def)

section \<open>The chain of polls\<close>

definition poll_count :: "amq \<Rightarrow> nat" where
  "poll_count s = length (polls s) + length (poll_timers s)"

definition same_polls :: "amq \<Rightarrow> amq \<Rightarrow> bool" where
  "same_polls s s' \<longleftrightarrow> polls s' = polls s \<and> poll_timers s' = poll_timers s"

lemma same_polls_basic [simp]:
  "same_polls s s" "same_polls s (amq_emit e s1) = same_polls s s1"
  "same_polls s (ajax_post ms h s1) = same_polls s s1" "same_polls s (startBatch s1) = same_polls s s1"
  "same_polls s (log_text t x s1) = same_polls s s1"
  "same_polls s (s1\<lparr>messageHandlers := hs\<rparr>) = same_polls s s1"
  "same_polls s (s1\<lparr>posts := n\<rparr>) = same_polls s s1"
  "same_polls s (s1\<lparr>messageQueue := q\<rparr>) = same_polls s s1"
  "same_polls s (s1\<lparr>batchInProgress := b\<rparr>) = same_polls s s1"
  by (auto simp: same_polls_def amq_emit_def ajax_post_def startBatch_def log_text_def)

lemma same_polls_submit [simp]:
  "same_polls s (sendJmsMessage d m t h s1) = same_polls s s1"
  by (simp add: sendJmsMessage_def Let_def)

lemma same_polls_ops: "client_ops s ms s' \<Longrightarrow> same_polls s s'"
  by (induction rule: client_ops.induct)
    (simp_all add: sendMessage_def addListener_def removeListener_def)

lemma same_polls_dispatched: "dispatched s ms s' \<Longrightarrow> same_polls s s'"
proof (induction rule: dispatched.induct)
  case (dispatched_ops s ms s1 ns s2)
  then show ?case using same_polls_ops [OF dispatched_ops.hyps(2)] by (simp add: same_polls_def)
qed simp_all

lemma same_polls_succeeded: "same_polls s (post_succeeded s)"
  by (simp add: post_succeeded_def endBatch_def split: prod.split)

lemma same_polls_count: "same_polls s s' \<Longrightarrow> poll_count s' = poll_count s"
  by (simp add: same_polls_def poll_count_def)

lemma count_removed: "i < length xs \<Longrightarrow> length (take i xs @ drop (Suc i) xs) + 1 = length xs"
  by simp

lemma poll_later_count: "poll_count (poll_later ms s) = poll_count s + 1"
  by (simp add: poll_later_def poll_count_def)

lemma poll_timer_count: "poll_count (poll_timer_fires i now random s) = poll_count s"
proof (cases "i < length (poll_timers s)")
  case True
  then show ?thesis using count_removed [of i "poll_timers s"]
    by (simp add: poll_timer_fires_def sendPoll_def Let_def poll_count_def amq_emit_def)
qed (simp add: poll_timer_fires_def)

text \<open>
  Everything that can happen to a page: its code calls the client or changes the
  application's state, a request is answered or fails, a timer fires.
\<close>

inductive amq_step :: "'a react \<Rightarrow> ajax_library \<Rightarrow> 'a world \<Rightarrow> 'a world \<Rightarrow> bool" for react lib where
  step_ops: "client_ops s ms s' \<Longrightarrow> amq_step react lib (a, s) (a', s')"
| step_post_succeeded: "amq_step react lib (a, s) (a, post_succeeded s)"
| step_post_failed: "post_failed react lib x status w = (w', raised) \<Longrightarrow> amq_step react lib w w'"
| step_timer: "amq_step react lib (a, s) (a, poll_timer_fires i now random s)"
| step_poll_failed: "poll_failed react lib i x status w = (w', raised) \<Longrightarrow> amq_step react lib w w'"
| step_poll: "poll_answered react lib i data w = (w', raised) \<Longrightarrow> amq_step react lib w w'"

inductive_cases amq_stepE: "amq_step react lib (a, s) w'"

lemma end_poll_count: "i < length (polls s) \<Longrightarrow> poll_count (end_poll i s) + 1 = poll_count s"
  by (simp add: end_poll_def poll_count_def)

lemma session_count [simp]: "poll_count (s\<lparr>sessionInitialized := b\<rparr>) = poll_count s"
  "poll_count (amq_emit e s) = poll_count s" "poll_count (s\<lparr>posts := n\<rparr>) = poll_count s"
  by (simp_all add: poll_count_def amq_emit_def)

text \<open>The error handler of a poll throws when the status handler does.\<close>

lemma pollErrorHandler_raises:
  "snd (pollErrorHandler react x st w) = snd (react (StatusHandler False) (on_client (amq_emit (ConnectStatus False)) w))"
  by (simp add: pollErrorHandler_def call_status_def split: prod.split bool.split)

context amq_application
begin

lemma dispatched_count: "dispatched s ms s' \<Longrightarrow> poll_count s' = poll_count s"
  by (rule same_polls_count) (rule same_polls_dispatched)

text \<open>Each handler schedules one poll, unless the callback that runs before it throws.\<close>

lemma pollErrorHandler_count:
  assumes "pollErrorHandler react x st w = (w', r)"
  shows "poll_count (snd w') = poll_count (snd w) + (if r then 0 else 1)"
  using assms by (cases rule: pollErrorHandler_dispatched) (auto dest: dispatched_count simp: poll_later_count)

lemma pollHandler_count:
  assumes "pollHandler react data w = (w', r)"
  shows "poll_count (snd w') = poll_count (snd w) + 1"
  using assms by (rule pollHandler_dispatched) (auto dest: dispatched_count simp: poll_later_count)

lemma initHandler_count:
  assumes "initHandler react data w = (w', r)" "\<forall>w. \<not> snd (react SessionCallback w)"
  shows "poll_count (snd w') = poll_count (snd w) + 1"
proof -
  let ?w1 = "on_client (\<lambda>s. s\<lparr>sessionInitialized := True\<rparr>) w"
  obtain w2 raised where 2: "(if has_sessionInitializedCallback (snd ?w1)
      then react SessionCallback (on_client (amq_emit SessionInitialized) ?w1) else (?w1, False)) = (w2, raised)"
    by fastforce
  have "poll_count (snd w2) = poll_count (snd w)"
  proof (cases "has_sessionInitializedCallback (snd ?w1)")
    case True
    with 2 have "react SessionCallback (on_client (amq_emit SessionInitialized) ?w1) = (w2, raised)" by simp
    from emitted_callback [OF this] obtain ms where "dispatched (snd ?w1) ms (snd w2)" by auto
    from dispatched_count [OF this] show ?thesis by simp
  next
    case False
    with 2 have "w2 = ?w1" by simp
    then show ?thesis by simp
  qed
  moreover have "\<not> raised" using 2 assms(2) by (metis snd_conv)
  then have "pollHandler react data w2 = (w', r)"
    using assms(1) 2 unfolding initHandler_def Let_def by simp
  ultimately show ?thesis using pollHandler_count by metis
qed

lemma report_failure_count:
  assumes "report_failure lib (pollErrorHandler react) x st w = (w', r)" "\<forall>w. \<not> snd (react (StatusHandler False) w)"
  shows "poll_count (snd w') = poll_count (snd w) + 1"
proof -
  obtain w1 r1 where 1: "pollErrorHandler react x st w = (w1, r1)" by fastforce
  then have "\<not> r1" using pollErrorHandler_raises [of react x st w] assms(2) by (metis snd_conv)
  then show ?thesis using assms(1) 1 pollErrorHandler_count [OF 1] by (simp add: report_failure_def)
qed

lemma report_failure_dispatched:
  assumes "report_failure lib (errorHandler react) x st w = (w', r)"
  shows "\<exists>ms. dispatched (snd w) ms (snd w')"
proof -
  obtain w1 r1 where 1: "errorHandler react x st w = (w1, r1)" by fastforce
  then obtain ms where "dispatched (snd w) ms (snd w1)" using errorHandler_dispatched by blast
  moreover have "w' = w1 \<or> errorHandler react (reported_xhr_status lib) (reported_status lib) w1 = (w', r)"
    using assms 1 by (auto simp: report_failure_def split: bool.splits if_splits)
  then have "\<exists>ns. dispatched (snd w1) ns (snd w')"
    using errorHandler_dispatched dispatched_none by metis
  ultimately show ?thesis using dispatched_trans by metis
qed

lemma step_poll_count:
  assumes "amq_step react lib w w'" "\<forall>w. \<not> snd (react (StatusHandler False) w)" "\<forall>w. \<not> snd (react SessionCallback w)"
  shows "poll_count (snd w) \<le> poll_count (snd w') \<and> (\<not> success_reported lib \<longrightarrow> poll_count (snd w') = poll_count (snd w))"
  using assms(1)
proof (cases rule: amq_step.cases)
  case (step_ops s ms s' a a')
  then show ?thesis using same_polls_count [OF same_polls_ops] by simp
next
  case (step_post_failed x status raised)
  show ?thesis
  proof (cases "posts (snd w) = 0")
    case True
    with step_post_failed show ?thesis by (simp add: post_failed_def)
  next
    case False
    with step_post_failed obtain ms where "dispatched ((snd w)\<lparr>posts := posts (snd w) - 1\<rparr>) ms (snd w')"
      using report_failure_dispatched unfolding post_failed_def by fastforce
    from dispatched_count [OF this] show ?thesis by simp
  qed
next
  case (step_poll_failed i x status raised)
  show ?thesis
  proof (cases "i < length (polls (snd w))")
    case True
    with step_poll_failed have "report_failure lib (pollErrorHandler react) x status (on_client (end_poll i) w) = (w', raised)"
      by (simp add: poll_failed_def)
    from report_failure_count [OF this assms(2)] end_poll_count [OF True] show ?thesis by simp
  next
    case False
    with step_poll_failed show ?thesis by (simp add: poll_failed_def)
  qed
next
  case (step_poll i data raised)
  show ?thesis
  proof (cases "i < length (polls (snd w))")
    case True
    obtain w1 r1 where 1: "(if polls (snd w) ! i then pollHandler else initHandler) react data (on_client (end_poll i) w) = (w1, r1)"
      by fastforce
    then have "poll_count (snd w1) = poll_count (snd (on_client (end_poll i) w)) + 1"
    proof (cases "polls (snd w) ! i")
      case True
      with 1 have "pollHandler react data (on_client (end_poll i) w) = (w1, r1)" by simp
      then show ?thesis by (rule pollHandler_count)
    next
      case False
      with 1 have "initHandler react data (on_client (end_poll i) w) = (w1, r1)" by simp
      then show ?thesis using assms(3) by (rule initHandler_count)
    qed
    then have c: "poll_count (snd w1) = poll_count (snd w)" using end_poll_count [OF True] by simp
    have "w' = w1 \<or> success_reported lib \<and>
        pollErrorHandler react (reported_xhr_status lib) (reported_status lib) w1 = (w', raised)"
      using step_poll True 1 by (auto simp: poll_answered_def split: bool.splits if_splits)
    then show ?thesis
    proof
      assume "success_reported lib \<and> pollErrorHandler react (reported_xhr_status lib) (reported_status lib) w1 = (w', raised)"
      then show ?thesis using c pollErrorHandler_count [of "reported_xhr_status lib" "reported_status lib" w1 w' raised] by simp
    qed (simp add: c)
  next
    case False
    with step_poll show ?thesis by (simp add: poll_answered_def)
  qed
qed (simp_all add: same_polls_count [OF same_polls_succeeded] poll_timer_count)

lemma steps_poll_count:
  assumes "(amq_step react lib)\<^sup>*\<^sup>* w w'" "\<forall>w. \<not> snd (react (StatusHandler False) w)" "\<forall>w. \<not> snd (react SessionCallback w)"
  shows "poll_count (snd w) \<le> poll_count (snd w') \<and> (\<not> success_reported lib \<longrightarrow> poll_count (snd w') = poll_count (snd w))"
  using assms(1)
proof (induction rule: rtranclp_induct)
  case (step y z)
  from step_poll_count [OF step.hyps(2) assms(2,3)] step.IH show ?case by auto
qed simp

text \<open>Every event of a page is a run of the queue.\<close>

lemma dispatched_queue_run: "dispatched s1 ns s2 \<Longrightarrow> queue_run s ms s1 \<Longrightarrow> queue_run s (ms @ ns) s2"
proof (induction arbitrary: ms rule: dispatched.induct)
  case (dispatched_ops s1 ks s2 ns s3)
  then show ?case using run_ops [of s "ms @ ks" s2 ns s3] by simp
qed (auto intro: queue_run.intros)

lemma run_poll_later: "queue_run s ms s1 \<Longrightarrow> queue_run s ms (poll_later n s1)"
  using run_polls [where s = s and ?s1.0 = s1 and ps = "polls s1" and ts = "poll_timers s1 @ [n]" and b = "sessionInitialized s1"] by (simp add: poll_later_def)

lemma pollErrorHandler_run:
  assumes "pollErrorHandler react x st w = (w', r)" "queue_run s ms (snd w)"
  shows "\<exists>ns. queue_run s ns (snd w')"
  using assms(1)
  by (rule pollErrorHandler_dispatched) (use dispatched_queue_run [OF _ assms(2)] run_poll_later in \<open>fastforce+\<close>)

lemma pollHandler_run:
  assumes "pollHandler react data w = (w', r)" "queue_run s ms (snd w)"
  shows "\<exists>ns. queue_run s ns (snd w')"
  using assms(1)
  by (rule pollHandler_dispatched) (use dispatched_queue_run [OF _ assms(2)] run_poll_later in \<open>fastforce+\<close>)

lemma initHandler_run:
  assumes "initHandler react data w = (w', r)" "queue_run s ms (snd w)"
  shows "\<exists>ns. queue_run s ns (snd w')"
proof -
  let ?w1 = "on_client (\<lambda>s. s\<lparr>sessionInitialized := True\<rparr>) w"
  obtain w2 raised where 2: "(if has_sessionInitializedCallback (snd ?w1)
      then react SessionCallback (on_client (amq_emit SessionInitialized) ?w1) else (?w1, False)) = (w2, raised)"
    by fastforce
  have "\<exists>ns. dispatched (snd ?w1) ns (snd w2)"
  proof (cases "has_sessionInitializedCallback (snd ?w1)")
    case True
    with 2 have "react SessionCallback (on_client (amq_emit SessionInitialized) ?w1) = (w2, raised)" by simp
    then show ?thesis by (rule emitted_callback) simp_all
  next
    case False
    with 2 have "w2 = ?w1" by simp
    then show ?thesis using dispatched_none by blast
  qed
  moreover have "queue_run s ms (snd ?w1)"
    using run_polls [OF assms(2), where ps = "polls (snd w)" and ts = "poll_timers (snd w)" and b = True] by simp
  ultimately obtain ns where "queue_run s ns (snd w2)" using dispatched_queue_run by blast
  moreover have "w' = w2 \<or> pollHandler react data w2 = (w', r)"
    using assms(1) 2 unfolding initHandler_def Let_def by (auto split: bool.splits)
  ultimately show ?thesis using pollHandler_run by blast
qed

lemma post_failed_run:
  assumes "post_failed react lib x st w = (w', r)"
  shows "\<exists>ns. queue_run (snd w) ns (snd w')"
proof (cases "posts (snd w) = 0")
  case True
  with assms show ?thesis by (auto simp: post_failed_def intro: run_none)
next
  case False
  let ?s = "(snd w)\<lparr>posts := posts (snd w) - 1\<rparr>"
  from False assms obtain ns where "dispatched ?s ns (snd w')"
    using report_failure_dispatched unfolding post_failed_def by fastforce
  moreover have "queue_run (snd w) [] ?s" by (intro queue_run.intros)
  ultimately show ?thesis using dispatched_queue_run by blast
qed

lemma end_poll_run: "queue_run s [] (end_poll i s)"
  using run_polls [OF run_none, where s = s and ps = "take i (polls s) @ drop (Suc i) (polls s)" and ts = "poll_timers s" and b = "sessionInitialized s"]
  by (simp add: end_poll_def)

lemma poll_timer_run: "\<exists>ms. queue_run s ms (poll_timer_fires i now random s)"
proof -
  have emit: "queue_run s [] (amq_emit e (s\<lparr>poll_timers := ts, polls := polls s @ [sessionInitialized s]\<rparr>))"
    if "event_posts e = []" "event_isolated e" for e ts
  proof -
    have "s\<lparr>polls := ps, poll_timers := ts, sessionInitialized := sessionInitialized s\<rparr> = s\<lparr>poll_timers := ts, polls := ps\<rparr>" for ps
      by simp
    with run_emit [OF run_polls [OF run_none, where s = s and ps = "polls s @ [sessionInitialized s]" and ts = ts
      and b = "sessionInitialized s"] that] show ?thesis by metis
  qed
  have "queue_run s [] (sendPoll now random (s\<lparr>poll_timers := ts\<rparr>))" for ts
    unfolding sendPoll_def Let_def using emit [of "Get _ _" ts] by (simp split del: if_split)
  then show ?thesis by (auto simp: poll_timer_fires_def intro: run_none)
qed

lemma amq_step_queue_run: "amq_step react lib w w' \<Longrightarrow> \<exists>ms. queue_run (snd w) ms (snd w')"
proof (induction rule: amq_step.induct)
  case (step_ops s ms s' a a')
  then show ?case using run_ops [OF run_none] by fastforce
next
  case (step_post_succeeded a s)
  then show ?case using run_succeeded [OF run_none] by fastforce
next
  case (step_post_failed x status w w' raised)
  then show ?case by (rule post_failed_run)
next
  case (step_timer a s i now random)
  then show ?case using poll_timer_run by simp
next
  case (step_poll_failed i x status w w' raised)
  obtain w1 r1 where 1: "pollErrorHandler react x status (on_client (end_poll i) w) = (w1, r1)" by fastforce
  have 0: "queue_run (snd w) [] (snd (on_client (end_poll i) w))" by (simp add: end_poll_run)
  have "w' = w \<or> w' = w1 \<or> pollErrorHandler react (reported_xhr_status lib) (reported_status lib) w1 = (w', raised)"
    using step_poll_failed 1 by (auto simp: poll_failed_def report_failure_def split: bool.splits if_splits)
  with pollErrorHandler_run [OF 1 0] show ?case using pollErrorHandler_run run_none by blast
next
  case (step_poll i data w w' raised)
  obtain w1 r1 where 1: "(if polls (snd w) ! i then pollHandler else initHandler) react data (on_client (end_poll i) w) = (w1, r1)"
    by fastforce
  have 0: "queue_run (snd w) [] (snd (on_client (end_poll i) w))" by (simp add: end_poll_run)
  have "w' = w \<or> w' = w1 \<or> pollErrorHandler react (reported_xhr_status lib) (reported_status lib) w1 = (w', raised)"
    using step_poll 1 by (auto simp: poll_answered_def split: bool.splits if_splits)
  moreover have "\<exists>ns. queue_run (snd w) ns (snd w1)"
  proof (cases "polls (snd w) ! i")
    case True
    then show ?thesis using 1 pollHandler_run [OF _ 0] by simp
  next
    case False
    then show ?thesis using 1 initHandler_run [OF _ 0] by simp
  qed
  ultimately show ?case using pollErrorHandler_run run_none by blast
qed

text \<open>What a POST that fails leaves is blocked for good.\<close>

lemma failed_post_run:
  assumes "post_failed react lib x st w = (w', r)" "batchInProgress (snd w)" "posts (snd w) = 1"
  shows "blocked (snd w') \<and> posted (snd w') = posted (snd w)"
proof -
  let ?s = "(snd w)\<lparr>posts := 0\<rparr>"
  have "blocked ?s" "posted ?s = posted (snd w)" using assms(2) by (simp_all add: blocked_def posted_def)
  moreover obtain ns where "dispatched ?s ns (snd w')"
    using assms(1,3) report_failure_dispatched unfolding post_failed_def by fastforce
  ultimately show ?thesis using blocked_run [OF dispatched_queue_run [OF _ run_none]] by metis
qed

end

text \<open>
  After a POST has failed the client never posts again: whatever the application
  submits, in its status handler or later, and whatever happens to its polls, messages are
  only queued.
\<close>

theorem failed_post_blocks:
  assumes "amq_application react" and "post_failed react lib x status (a, s) = ((a1, s1), raised)"
    and "queue_run s1 ms s'" and "batchInProgress s" "posts s = 1"
  shows "posted s' = posted s \<and> batchInProgress s' \<and> posts s' = 0"
proof -
  have "blocked s1 \<and> posted s1 = posted s"
    using amq_application.failed_post_run [OF assms(1,2)] assms(4,5) by simp
  with blocked_run [OF assms(3)] show ?thesis by (simp add: blocked_def)
qed

text \<open>
  C19. The client never stops polling. From \<open>init\<close> on there is always a poll under way or
  scheduled, whatever the listeners do or throw, however requests end and whatever is
  submitted, provided that \<open>connectStatusHandler\<close> does not throw when it is told of a failure
  and \<open>sessionInitializedCallback\<close> never does. There is exactly one over a library
  that lets an exception of the success callback go, as jQuery does. The other cases go wrong:
  see the three theorems behind this one.
\<close>

theorem polling_never_stops:
  assumes "amq_application react" and "amq_init opts now random Amq = Some s"
    and "\<forall>w. \<not> snd (react (StatusHandler False) w)" "\<forall>w. \<not> snd (react SessionCallback w)"
    and "(amq_step react lib)\<^sup>*\<^sup>* (a, s) (a', s')"
  shows "1 \<le> length (polls s') + length (poll_timers s') \<and>
    (\<not> success_reported lib \<longrightarrow> length (polls s') + length (poll_timers s') = 1)"
proof -
  have "poll_count s = 1"
    using assms(2) by (auto simp: amq_init_def sendPoll_def Let_def poll_count_def amq_emit_def Amq_def
        split: option.splits)
  with amq_application.steps_poll_count [OF assms(1,5,3,4)] show ?thesis by (simp add: poll_count_def)
qed

text \<open>
  A status handler that throws when a poll fails ends polling for good over jQuery, as no next poll
  is scheduled; so does a session callback that throws on the first answer.
\<close>

theorem status_exception_stops_polling:
  assumes "amq_application react" "\<forall>w. snd (react (StatusHandler False) w)"
    and "polls (snd w) = [p]" "poll_timers (snd w) = []"
  shows "\<exists>w'. poll_failed react jquery_library 0 x status w = (w', True) \<and> polls (snd w') = [] \<and> poll_timers (snd w') = []"
proof -
  let ?w = "on_client (end_poll 0) w"
  obtain w1 r1 where 1: "pollErrorHandler react x status ?w = (w1, r1)" by fastforce
  have r1: r1 using 1 assms(2) pollErrorHandler_raises [of react x status ?w] by (metis snd_conv)
  from amq_application.pollErrorHandler_count [OF assms(1) 1] r1 assms(3,4)
  have "poll_count (snd w1) = 0" by (simp add: poll_count_def end_poll_def)
  then show ?thesis using 1 r1 assms(3)
    by (simp add: poll_failed_def report_failure_def jquery_library_def poll_count_def)
qed

theorem session_exception_stops_polling:
  assumes "amq_application react" "\<forall>w. snd (react SessionCallback w)" "has_sessionInitializedCallback (snd w)"
    and "polls (snd w) = [False]" "poll_timers (snd w) = []"
  shows "\<exists>w'. poll_answered react jquery_library 0 data w = (w', True) \<and> polls (snd w') = [] \<and> poll_timers (snd w') = []"
proof -
  let ?w = "on_client (\<lambda>s. s\<lparr>sessionInitialized := True\<rparr>) (on_client (end_poll 0) w)"
  obtain w1 r1 where 1: "react SessionCallback (on_client (amq_emit SessionInitialized) ?w) = (w1, r1)" by fastforce
  have r1: r1 using 1 assms(2) by (metis snd_conv)
  from amq_application.emitted_callback [OF assms(1) 1] obtain ms where "dispatched (snd ?w) ms (snd w1)" by auto
  from amq_application.dispatched_count [OF assms(1) this] assms(4,5)
  have "poll_count (snd w1) = 0" by (simp add: poll_count_def end_poll_def)
  moreover have "initHandler react data (on_client (end_poll 0) w) = (w1, True)"
    using 1 r1 assms(3) by (simp add: initHandler_def end_poll_def)
  ultimately show ?thesis using assms(4) by (simp add: poll_answered_def jquery_library_def poll_count_def)
qed

text \<open>
  Over Prototype and Dojo a listener that throws starts a second poll, as does, over
  Prototype, any answer that is no document: the exception is reported to the error handler,
  which schedules a poll of its own.
\<close>

theorem reported_exception_doubles_polling:
  assumes "amq_application react" "success_reported lib" "\<forall>w. \<not> snd (react (StatusHandler False) w)"
    and "polls (snd w) = [True]" "poll_timers (snd w) = []"
    and "snd (pollHandler react data (on_client (end_poll 0) w))"
  shows "\<exists>w'. poll_answered react lib 0 data w = (w', False) \<and> length (polls (snd w')) + length (poll_timers (snd w')) = 2"
proof -
  let ?w = "on_client (end_poll 0) w"
  obtain w1 where 1: "pollHandler react data ?w = (w1, True)" using assms(6) by (metis prod.collapse)
  obtain w2 r2 where 2: "pollErrorHandler react (reported_xhr_status lib) (reported_status lib) w1 = (w2, r2)" by fastforce
  then have r2: "\<not> r2"
    using pollErrorHandler_raises [of react "reported_xhr_status lib" "reported_status lib" w1] assms(3) by (metis snd_conv)
  have "poll_count (snd w1) = 1"
    using amq_application.pollHandler_count [OF assms(1) 1] assms(4,5) by (simp add: poll_count_def end_poll_def)
  then have "poll_count (snd w2) = 2" using amq_application.pollErrorHandler_count [OF assms(1) 2] r2 by simp
  then show ?thesis using 1 2 r2 assms(2,4) by (simp add: poll_answered_def poll_count_def)
qed

end
