(* ===== verification/AmqChat.thy ===== *)
theory AmqChat
  imports AmqAjax
begin

text \<open>
  The chat page of \<open>js/chat.js\<close> on the AJAX client: what it shows, its listener and what
  its buttons and keys do; and what the three adapters hand to their AJAX libraries. The
  page's elements are texts: the content of the chat and member areas, the classes of the
  two forms, the input fields. The listener is the only one of the page.
\<close>

section \<open>The adapters\<close>

record ajax_options =
  ao_post :: bool
  ao_data :: jsstring
  ao_headers :: "(jsstring \<times> jsstring) list option"

text \<open>What \<open>jQuery.ajax\<close> is given; the headers are set before the request is sent.\<close>

record jquery_request =
  jq_url :: jsstring
  jq_data :: jsstring
  jq_type :: jsstring
  jq_dataType :: "jsstring option"
  jq_headers :: "(jsstring \<times> jsstring) list"

definition jquery_ajax :: "jsstring \<Rightarrow> ajax_options \<Rightarrow> jquery_request" where
  "jquery_ajax u opts =
     (let hs = (case ao_headers opts of None \<Rightarrow> [] | Some h \<Rightarrow> h)
      in if ao_post opts then
           \<lparr>jq_url = u, jq_data = ao_data opts, jq_type = js ''POST'', jq_dataType = None,
            jq_headers = AList.update (js ''Connection'') (js ''close'') hs\<rparr>
         else \<lparr>jq_url = u, jq_data = ao_data opts, jq_type = js ''GET'',
            jq_dataType = Some (js ''xml''), jq_headers = hs\<rparr>)"

datatype dojo_request =
    XhrPost jsstring jsstring "(jsstring \<times> jsstring) list option"
  | XhrGet jsstring "(jsstring \<times> jsstring) list option"

definition dojo_ajax :: "jsstring \<Rightarrow> ajax_options \<Rightarrow> dojo_request" where
  "dojo_ajax u opts =
     (if ao_post opts then XhrPost u (ao_data opts) (ao_headers opts)
      else XhrGet (if ao_data opts \<noteq> [] then u @ js ''?'' @ ao_data opts else u) (ao_headers opts))"

record prototype_request =
  pr_url :: jsstring
  pr_method :: "jsstring option"
  pr_postBody :: "jsstring option"
  pr_parameters :: "jsstring option"
  pr_requestHeaders :: "(jsstring \<times> jsstring) list option"

definition prototype_ajax :: "jsstring \<Rightarrow> ajax_options \<Rightarrow> prototype_request" where
  "prototype_ajax u opts =
     (if ao_post opts then
        \<lparr>pr_url = u, pr_method = None, pr_postBody = Some (ao_data opts), pr_parameters = None,
         pr_requestHeaders = ao_headers opts\<rparr>
      else
        \<lparr>pr_url = u, pr_method = Some (js ''get''), pr_postBody = None,
         pr_parameters = Some (ao_data opts), pr_requestHeaders = ao_headers opts\<rparr>)"

text \<open>
  The answer as Prototype's adapter passes it on: the document only when the content type
  mentions xml.
\<close>

fun contains :: "jsstring \<Rightarrow> jsstring \<Rightarrow> bool" where
  "contains [] t = (t = [])"
| "contains (c # s) t = (take (length t) (c # s) = t \<or> contains s t)"

definition prototype_data :: "jsstring option \<Rightarrow> xml \<Rightarrow> xml option" where
  "prototype_data contentType doc =
     (case contentType of
        None \<Rightarrow> None
      | Some ct \<Rightarrow> if ct \<noteq> [] \<and> contains ct (js ''xml'') then Some doc else None)"

section \<open>The page\<close>

datatype field = JoinForm | JoinedForm | UsernameField | PhraseField

record chat =
  last_from :: "jsstring option"
  chat_user :: "jsstring option"
  chat_html :: jsstring
  members_html :: jsstring
  join_class :: jsstring
  joined_class :: jsstring
  username_value :: jsstring
  phrase_value :: jsstring
  focused :: "field option"
  alerts :: nat

abbreviation (input) "chatTopic \<equiv> js ''topic://CHAT.DEMO''"
abbreviation (input) "quote \<equiv> [34::nat]"

definition message_tag :: "string \<Rightarrow> jsstring option \<Rightarrow> jsstring" where
  "message_tag type u =
     js ''<message type='' @ quote @ js type @ quote @ js '' from='' @ quote @ id_text u @ quote"

definition simple_message :: "string \<Rightarrow> jsstring option \<Rightarrow> jsstring" where
  "simple_message type u = message_tag type u @ js ''/>''"

definition chat_line :: "jsstring \<Rightarrow> jsstring \<Rightarrow> jsstring" where
  "chat_line from text =
     js ''<span class='' @ [39] @ js ''from'' @ [39] @ js ''>'' @ from @ js ''&nbsp;</span><span class=''
     @ [39] @ js ''text'' @ [39] @ js ''>'' @ text @ js ''</span><br/>''"

definition member_line :: "jsstring \<Rightarrow> jsstring" where
  "member_line from =
     js ''<span class='' @ quote @ js ''member'' @ quote @ js ''>'' @ from @ js ''</span><br/>''"

definition alert_line :: "jsstring \<Rightarrow> string \<Rightarrow> jsstring" where
  "alert_line from what =
     js ''<span class='' @ quote @ js ''alert'' @ quote @ js ''><span class='' @ quote @ js ''from'' @ quote
     @ js ''>'' @ from @ js ''&nbsp;</span><span class='' @ quote @ js ''text'' @ quote @ js ''>''
     @ js what @ js ''</span></span><br/>''"

definition send_ping :: "chat world \<Rightarrow> chat world" where
  "send_ping w =
     (case w of (p, s) \<Rightarrow>
        if chat_user p \<noteq> None then (p, sendMessage chatTopic (simple_message ''ping'' (chat_user p)) s)
        else (p, s))"

text \<open>The character data of a node; an element has none.\<close>

fun node_data :: "xml \<Rightarrow> jsstring" where
  "node_data (XText t) = t"
| "node_data (XElem tag attrs kids) = js ''undefined''"

definition on_chat :: "xml \<Rightarrow> chat \<Rightarrow> chat option" where
  "on_chat message p =
     (case childNodes message of
        [] \<Rightarrow> None
      | node # nodes \<Rightarrow>
          (let from = getAttribute message ''from'';
               shown = (if from = last_from p then js ''...'' else id_text from @ js '':'')
           in Some (p\<lparr>last_from := from, chat_html := chat_html p @ chat_line shown (node_data node)\<rparr>)))"

definition on_join :: "xml \<Rightarrow> chat world \<Rightarrow> chat world" where
  "on_join message w =
     (case send_ping (case w of (p, s) \<Rightarrow> (p\<lparr>members_html := []\<rparr>, s)) of
        (p, s) \<Rightarrow> (p\<lparr>chat_html := chat_html p
                    @ alert_line (id_text (getAttribute message ''from'')) ''has joined the room!''\<rparr>, s))"

definition on_leave :: "xml \<Rightarrow> chat world \<Rightarrow> chat world" where
  "on_leave message w =
     (case w of (p, s) \<Rightarrow>
        (let from = getAttribute message ''from'';
             p1 = p\<lparr>members_html := [], chat_html := chat_html p @ alert_line (id_text from) ''has left the room!''\<rparr>
         in send_ping
              (if from = chat_user p1 then
                 (p1\<lparr>join_class := [], joined_class := js ''hidden'', focused := Some UsernameField,
                     chat_user := None\<rparr>, removeListener (js ''chat'') chatTopic s)
               else (p1, s))))"

text \<open>
  \<open>chatHandler\<close>: reading an attribute of a text node throws, and so does reading the
  text of a chat message that has none.
\<close>

fun chatHandler :: "nat \<Rightarrow> xml \<Rightarrow> chat world \<Rightarrow> chat world \<times> bool" where
  "chatHandler k (XText t) w = (w, True)"
| "chatHandler k (XElem tag attrs kids) (p, s) =
     (let message = XElem tag attrs kids; type = getAttribute message ''type''
      in if type = Some (js ''chat'') then
           (case on_chat message p of None \<Rightarrow> ((p, s), True) | Some p1 \<Rightarrow> ((p1, s), False))
         else if type = Some (js ''ping'') then
           ((p\<lparr>members_html := members_html p
                 @ member_line (id_text (getAttribute message ''from''))\<rparr>, s), False)
         else if type = Some (js ''join'') then (on_join message (p, s), False)
         else if type = Some (js ''leave'') then (on_leave message (p, s), False)
         else ((p, s), False))"

text \<open>
  The page as an application: its listener, and neither a \<open>connectStatusHandler\<close> nor a
  \<open>sessionInitializedCallback\<close>.
\<close>

fun chat_react :: "chat react" where
  "chat_react (Listener k node) w = chatHandler k node w"
| "chat_react cb w = (w, False)"

section \<open>Buttons and keys\<close>

abbreviation (input) "chat_listener \<equiv> (0::nat)"

definition chat_join :: "chat world \<Rightarrow> chat world" where
  "chat_join w =
     (case w of (p, s) \<Rightarrow>
        if username_value p = [] then (p\<lparr>alerts := alerts p + 1\<rparr>, s)
        else
          (let u = Some (username_value p)
           in (p\<lparr>chat_user := u, join_class := js ''hidden'', joined_class := [],
                  focused := Some PhraseField\<rparr>,
               sendMessage chatTopic (simple_message ''join'' u)
                 (addListener (js ''chat'') chatTopic (Some chat_listener) None s))))"

definition chat_leave :: "chat world \<Rightarrow> chat world" where
  "chat_leave w =
     (case w of (p, s) \<Rightarrow> (p, sendMessage chatTopic (simple_message ''leave'' (chat_user p)) s))"

text \<open>\<open>text.replace(c, r)\<close> with a string: the first occurrence only.\<close>

fun replace_first :: "nat \<Rightarrow> jsstring \<Rightarrow> jsstring \<Rightarrow> jsstring" where
  "replace_first c r [] = []"
| "replace_first c r (x # s) = (if x = c then r @ s else x # replace_first c r s)"

definition escape_text :: "jsstring \<Rightarrow> jsstring" where
  "escape_text t = replace_first 62 (js ''&gt;'') (replace_first 60 (js ''&lt;'') t)"

definition chat_chat :: "jsstring \<Rightarrow> chat world \<Rightarrow> chat world" where
  "chat_chat text w =
     (case w of (p, s) \<Rightarrow>
        if text \<noteq> [] then
          (p, sendMessage chatTopic
                (message_tag ''chat'' (chat_user p) @ js ''>'' @ escape_text text @ js ''</message>'') s)
        else (p, s))"

definition is_enter :: "nat \<Rightarrow> bool" where
  "is_enter keyc \<longleftrightarrow> keyc = 13 \<or> keyc = 10"

definition username_keyup :: "nat \<Rightarrow> chat world \<Rightarrow> chat world \<times> bool" where
  "username_keyup keyc w = (if is_enter keyc then (chat_join w, False) else (w, True))"

definition send_phrase :: "chat world \<Rightarrow> chat world" where
  "send_phrase w = (case w of (p, s) \<Rightarrow> chat_chat (phrase_value p) (p\<lparr>phrase_value := []\<rparr>, s))"

definition phrase_keyup :: "nat \<Rightarrow> chat world \<Rightarrow> chat world \<times> bool" where
  "phrase_keyup keyc w = (if is_enter keyc then (send_phrase w, False) else (w, True))"

definition chat_init :: "chat \<Rightarrow> chat" where
  "chat_init p =
     (if join_class p = js ''hidden'' \<and> joined_class p = js ''hidden''
      then p\<lparr>join_class := [], joined_class := js ''hidden'', focused := Some UsernameField\<rparr> else p)"

section \<open>The chat as an application of the client\<close>

lemma ops_send1: "\<exists>ms. client_ops s ms (sendMessage d m s)"
  using ops_send [OF ops_none] by blast

lemma send_ping_ops: "\<exists>ms. client_ops (snd w) ms (snd (send_ping w))"
  by (cases w) (auto simp: send_ping_def intro: ops_send1 ops_none)

lemma on_join_ops: "\<exists>ms. client_ops (snd w) ms (snd (on_join message w))"
proof -
  obtain p s where w: "w = (p, s)" by (cases w)
  show ?thesis using send_ping_ops [of "(p\<lparr>members_html := []\<rparr>, s)"]
    by (auto simp: on_join_def w split: prod.split)
qed

lemma on_leave_ops: "\<exists>ms. client_ops (snd w) ms (snd (on_leave message w))"
proof -
  obtain p s where w: "w = (p, s)" by (cases w)
  have r: "\<exists>ms. client_ops s ms (snd (send_ping (q, removeListener lid d s)))" for q lid d
    using send_ping_ops [of "(q, removeListener lid d s)"] client_ops_trans [OF _ ops_unlisten [OF ops_none]]
    by fastforce
  have k: "\<exists>ms. client_ops s ms (snd (send_ping (q, s)))" for q
    using send_ping_ops [of "(q, s)"] by simp
  show ?thesis unfolding on_leave_def w by (simp add: Let_def r k)
qed

lemma chatHandler_ops:
  assumes h: "chatHandler k node w = (w', raised)"
  shows "\<exists>ms. client_ops (snd w) ms (snd w')"
proof (cases node)
  case (XText t)
  with h show ?thesis by (auto intro: ops_none)
next
  case (XElem tag attrs kids)
  obtain p s where w: "w = (p, s)" by (cases w)
  have "snd w' = s \<or> w' = on_join node w \<or> w' = on_leave node w"
    using h by (auto simp: XElem w Let_def split: if_splits option.splits)
  then show ?thesis
  proof (elim disjE)
    assume "snd w' = s"
    then show ?thesis using w by (auto intro: ops_none)
  qed (use on_join_ops on_leave_ops in auto)
qed

interpretation chat: amq_application chat_react
proof unfold_locales
  fix cb and w w' :: "chat world" and raised
  assume "chat_react cb w = (w', raised)"
  then show "\<exists>ms. client_ops (snd w) ms (snd w')"
    by (cases cb) (auto intro: ops_none chatHandler_ops)
qed

section \<open>Witnesses for the client\<close>

definition example_amq_options :: amq_options where
  "example_amq_options = \<lparr>o_uri = Undefined, o_pollDelay = Undefined, o_timeout = Number (Whole 20),
     o_logging = Undefined, o_sessionInitializedCallback = Undefined, o_clientId = Undefined\<rparr>"

definition example_chat :: chat where
  "example_chat = \<lparr>last_from = Some [], chat_user = Some (js ''ann''), chat_html = [], members_html = [],
     join_class = js ''hidden'', joined_class = [], username_value = js ''ann'', phrase_value = [],
     focused = None, alerts = 0\<rparr>"

theorem polling_never_stops_witness:
  "\<exists>s a1 s1. amq_init example_amq_options 0 [48] Amq = Some s \<and>
     poll_answered chat_react jquery_library 0 None (example_chat, s) = ((a1, s1), True) \<and>
     length (polls (poll_timer_fires 0 1 [49] s1)) + length (poll_timers (poll_timer_fires 0 1 [49] s1)) = 1"
proof -
  obtain s where s: "amq_init example_amq_options 0 [48] Amq = Some s"
    by (simp add: amq_init_def example_amq_options_def)
  have f: "polls s = [False]" "\<not> has_sessionInitializedCallback s"
    using s by (auto simp: amq_init_def example_amq_options_def sendPoll_def Let_def amq_emit_def Amq_def)
  obtain a1 s1 where 1: "poll_answered chat_react jquery_library 0 None (example_chat, s) = ((a1, s1), True)"
    by (simp add: poll_answered_def f initHandler_def pollHandler_def messageHandler_def jquery_library_def
        end_poll_def Let_def)
  have "(amq_step chat_react jquery_library)\<^sup>*\<^sup>* (example_chat, s) (a1, poll_timer_fires 0 1 [49] s1)"
    using step_poll [OF 1] step_timer by (meson rtranclp.rtrancl_into_rtrancl rtranclp.rtrancl_refl)
  from polling_never_stops [OF chat.amq_application_axioms s _ _ this]
  have "length (polls (poll_timer_fires 0 1 [49] s1)) + length (poll_timers (poll_timer_fires 0 1 [49] s1)) = 1"
    by (simp add: jquery_library_def)
  with s 1 show ?thesis by blast
qed

text \<open>Over Prototype, an answer that is no document starts a second poll.\<close>

theorem reported_exception_doubles_polling_witness:
  "\<exists>w'. poll_answered chat_react (prototype_library (String (js ''TypeError''))) 0 None
       (example_chat, Amq\<lparr>polls := [True]\<rparr>) = (w', False) \<and>
     length (polls (snd w')) + length (poll_timers (snd w')) = 2"
  by (rule reported_exception_doubles_polling [OF chat.amq_application_axioms])
    (simp_all add: prototype_library_def Amq_def pollHandler_def messageHandler_def end_poll_def)

theorem messages_kept_in_order_witness:
  "posted (post_succeeded (sendMessage [2] [7] (sendMessage [1] [5] Amq))) =
     [\<lparr>destination = [1], jms_message = [5], messageType = js ''send''\<rparr>,
      \<lparr>destination = [2], jms_message = [7], messageType = js ''send''\<rparr>]"
proof -
  let ?s = "post_succeeded (sendMessage [2] [7] (sendMessage [1] [5] Amq))"
  let ?ms = "[(\<lparr>destination = [1::nat], jms_message = [5::nat], messageType = js ''send''\<rparr>, None :: jsstring option),
      (\<lparr>destination = [2], jms_message = [7], messageType = js ''send''\<rparr>, None)]"
  have "client_ops Amq ?ms (sendMessage [2] [7] (sendMessage [1] [5] Amq))"
    using ops_send [OF ops_send [OF ops_none, of Amq "[1]" "[5]"], of "[2]" "[7]"] by simp
  then have "queue_run Amq ?ms ?s"
    using run_succeeded [OF run_ops [OF run_none]] by fastforce
  moreover have "idle_empty Amq" "outbox Amq = []"
    by (simp_all add: Amq_def idle_empty_def outbox_def posted_def waiting_def)
  ultimately have "posted ?s @ waiting ?s = map fst ?ms"
    using messages_kept_in_order [of Amq ?ms ?s] by simp
  moreover have "waiting ?s = []"
    by (simp add: waiting_def sendMessage_def sendJmsMessage_def Let_def Amq_def out_defs
        post_succeeded_def endBatch_def)
  ultimately show ?thesis by simp
qed

definition busy_amq :: amq where
  "busy_amq = Amq\<lparr>batchInProgress := True, posts := 1\<rparr>"

theorem failed_post_blocks_witness:
  "\<exists>a1 s1. post_failed chat_react jquery_library (Number (Whole 500)) (String (js ''error'')) (example_chat, busy_amq) =
       ((a1, s1), False) \<and> posted (sendMessage [1] [5] s1) = []"
proof -
  obtain a1 s1 where 1: "post_failed chat_react jquery_library (Number (Whole 500)) (String (js ''error'')) (example_chat, busy_amq) =
      ((a1, s1), False)"
    by (simp add: post_failed_def report_failure_def errorHandler_def call_status_def busy_amq_def)
  have "queue_run s1 [(\<lparr>destination = [1], jms_message = [5], messageType = js ''send''\<rparr>, None)] (sendMessage [1] [5] s1)"
    using run_ops [OF run_none ops_send [OF ops_none]] by fastforce
  from failed_post_blocks [OF chat.amq_application_axioms 1 this] 1 show ?thesis
    by (simp add: busy_amq_def Amq_def posted_def)
qed

theorem answered_posts_drain_witness:
  "\<exists>n \<le> 1. \<not> batchInProgress ((post_succeeded ^^ n) busy_amq)"
  using answered_posts_drain [of busy_amq] by (auto simp: busy_amq_def Amq_def)

theorem unlisten_overtakes_listen_witness:
  "map messageType (posted (post_succeeded (removeListener [9] [2]
      (addListener [9] [2] (Some 0) (Some [65]) (sendMessage [1] [5] busy_amq)))))
    = [js ''send'', js ''unlisten'']"
  using unlisten_overtakes_listen [where s = busy_amq and sel = "[65]" and m = "[5]" and ?d0.0 = "[1]"
    and lid = "[9]" and d = "[2]" and h = "Some 0"]
  by (simp add: busy_amq_def Amq_def posted_def)

theorem selector_posted_alone_witness:
  "\<exists>out u b. Post out u (Some [65]) b \<in> set (amq_log (addListener [9] [2] (Some 0) (Some [65]) Amq)) \<and>
     length out = 1"
proof -
  let ?s = "addListener [9] [2] (Some 0) (Some [65]) Amq"
  let ?out = "[\<lparr>destination = [2::nat], jms_message = [9::nat], messageType = js ''listen''\<rparr>]"
  have "queue_run Amq [(hd ?out, Some [65])] ?s"
    using run_ops [OF run_none ops_listen [OF ops_none, of Amq "[2]" "[9]" "Some [65]" "Some 0"]] by simp
  moreover have "list_all event_isolated (amq_log Amq)" by (simp add: Amq_def)
  moreover obtain u b where p: "Post ?out u (Some [65]) b \<in> set (amq_log ?s)"
    by (simp add: addListener_def sendJmsMessage_def Let_def Amq_def out_defs)
  ultimately have "length ?out = 1" by (rule selector_posted_alone)
  with p show ?thesis by blast
qed

section \<open>The chat\<close>

lemma replace_first_keeps: "60 \<in> set s \<Longrightarrow> 60 \<in> set (replace_first 62 r s)"
  by (induction s) auto

text \<open>
  Only the first \<open><\<close> of a phrase is escaped: a phrase with two of them puts markup
  into the message that is sent to everybody.
\<close>

theorem second_markup_not_escaped: "60 \<in> set (escape_text (x @ 60 # y @ 60 # z))"
proof -
  have "60 \<in> set (replace_first 60 r (x @ 60 # y @ 60 # z))" for r
    by (induction x) auto
  then show ?thesis unfolding escape_text_def by (rule replace_first_keeps)
qed

text \<open>
  The message of the user's own departure ends the session: the listener is gone, the
  input form is back, one unlisten is submitted and no ping; anybody else's departure is
  answered with exactly one ping.
\<close>

theorem leave_message:
  assumes "getAttribute (XElem tag attrs kids) ''type'' = Some (js ''leave'')"
    and "getAttribute (XElem tag attrs kids) ''from'' = Some who" and "chat_user p = Some me"
    and "idle_empty s"
  shows "\<exists>p' s'. chatHandler k (XElem tag attrs kids) (p, s) = ((p', s'), False) \<and> members_html p' = [] \<and>
    (if who = me then
       chat_user p' = None \<and> find_handler (js ''chat'') s' = None \<and> join_class p' = [] \<and>
       outbox s' = outbox s @ [\<lparr>destination = chatTopic, jms_message = js ''chat'', messageType = js ''unlisten''\<rparr>]
     else
       chat_user p' = Some me \<and> messageHandlers s' = messageHandlers s \<and>
       outbox s' = outbox s @ [\<lparr>destination = chatTopic, jms_message = simple_message ''ping'' (Some me),
         messageType = js ''send''\<rparr>])"
proof (cases "who = me")
  case True
  let ?s = "s\<lparr>messageHandlers := AList.update (js ''chat'') None (messageHandlers s)\<rparr>"
  have "outbox (removeListener (js ''chat'') chatTopic s) = outbox s @
      [\<lparr>destination = chatTopic, jms_message = js ''chat'', messageType = js ''unlisten''\<rparr>]"
    using submit_outbox(1) [of ?s chatTopic "js ''chat''" "''unlisten''" None] assms(4)
    by (simp add: removeListener_def outbox_def listener_frame flip: idle_empty_def)
  moreover have "find_handler (js ''chat'') (removeListener (js ''chat'') chatTopic s) = None"
    by (simp add: find_handler_def removeListener_def sendJmsMessage_def Let_def out_defs map_of_update)
  ultimately show ?thesis using assms(1-3) True
    by (simp add: js_eq_iff on_leave_def Let_def send_ping_def)
next
  case False
  have "outbox (sendMessage chatTopic (simple_message ''ping'' (Some me)) s) = outbox s @
      [\<lparr>destination = chatTopic, jms_message = simple_message ''ping'' (Some me), messageType = js ''send''\<rparr>]"
    using submit_outbox(1) [of s] assms(4) by (simp add: sendMessage_def outbox_def flip: idle_empty_def)
  moreover have "messageHandlers (sendMessage chatTopic (simple_message ''ping'' (Some me)) s) = messageHandlers s"
    by (simp add: sendMessage_def sendJmsMessage_def Let_def out_defs)
  ultimately show ?thesis using assms(1-3) False
    by (simp add: js_eq_iff on_leave_def Let_def send_ping_def)
qed

theorem leave_message_witness:
  "find_handler (js ''chat'') (snd (fst (chatHandler 0 (XElem (js ''message'')
      [(js ''type'', js ''leave''), (js ''from'', js ''ann'')] []) (example_chat, Amq)))) = None"
  using leave_message [of "js ''message''" "[(js ''type'', js ''leave''), (js ''from'', js ''ann'')]" "[]"
      "js ''ann''" example_chat "js ''ann''" Amq 0]
  by (auto simp: js_eq_iff example_chat_def idle_empty_def Amq_def)

theorem late_message_throws_witness:
  "handle_responses chat_react [XElem (js ''response'') [(js ''id'', js ''chat'')] [XText (js ''hi'')]]
     (example_chat, Amq) = ((example_chat, Amq), True)"
  using late_message_throws [of "(example_chat, Amq)" "js ''chat''"
      "XElem (js ''response'') [(js ''id'', js ''chat'')] [XText (js ''hi'')]" chat_react "[]"]
  by (simp add: Amq_def find_handler_def)

section \<open>The adapters agree\<close>

text \<open>
  The request each library makes, as it documents: jQuery and Prototype append the data of
  a GET to the address.
\<close>

type_synonym http = "bool \<times> jsstring \<times> jsstring"

definition get_url :: "jsstring \<Rightarrow> jsstring \<Rightarrow> jsstring" where
  "get_url u d = (if d = [] then u else u @ js ''?'' @ d)"

definition jquery_http :: "jquery_request \<Rightarrow> http" where
  "jquery_http r =
     (if jq_type r = js ''POST'' then (True, jq_url r, jq_data r)
      else (False, get_url (jq_url r) (jq_data r), []))"

fun dojo_http :: "dojo_request \<Rightarrow> http" where
  "dojo_http (XhrPost u d h) = (True, u, d)"
| "dojo_http (XhrGet u h) = (False, u, [])"

definition prototype_http :: "prototype_request \<Rightarrow> http" where
  "prototype_http r =
     (case pr_postBody r of
        Some b \<Rightarrow> (True, pr_url r, b)
      | None \<Rightarrow> (False, get_url (pr_url r) (case pr_parameters r of None \<Rightarrow> [] | Some d \<Rightarrow> d), []))"

text \<open>
  The three adapters issue the same request, as far as all three libraries determine it.
\<close>

theorem adapters_agree:
  "jquery_http (jquery_ajax u opts) = dojo_http (dojo_ajax u opts) \<and>
   dojo_http (dojo_ajax u opts) = prototype_http (prototype_ajax u opts)"
  by (simp add: jquery_http_def jquery_ajax_def dojo_ajax_def prototype_http_def prototype_ajax_def
      get_url_def Let_def js_eq_iff)

end
