(* ===== verification/JsNumber.thy ===== *)
theory JsNumber
  imports Complex_Main "HOL-Library.Log_Nat"
begin

text \<open>
  The numbers of JavaScript: a finite double is the rational it denotes, and every
  arithmetic operation rounds the exact result to 53 significant bits, ties to even. The
  scripts are modelled over the rounding \<open>fl\<close> as a parameter: with \<open>double\<close> they are the
  code, with the identity their idealisation in exact arithmetic. The exponent of a double
  is not bounded here (no overflow, no subnormal numbers), and -0 is 0. The locale
  \<open>rounding\<close> states what the proofs use of a rounding.
\<close>

section \<open>Rounding to 53 bits\<close>

definition exponent :: "rat \<Rightarrow> int" where
  "exponent x =
     (case quotient_of x of (p, q) \<Rightarrow>
        let e = bitlen p - bitlen q in if 2 powi e \<le> x then e else e - 1)"

definition round_even :: "rat \<Rightarrow> int" where
  "round_even x =
     (let n = \<lfloor>x\<rfloor>; r = x - of_int n
      in if r < 1 / 2 then n else if r > 1 / 2 then n + 1 else if even n then n else n + 1)"

definition double :: "rat \<Rightarrow> rat" where
  "double x =
     (if x = 0 then 0
      else let u = 2 powi (exponent \<bar>x\<bar> - 52) in of_int (round_even (x / u)) * u)"

lemma exponent_bounds:
  assumes "0 < x"
  shows "2 powi exponent x \<le> x" "x < 2 powi (exponent x + 1)"
proof -
  obtain p q where pq: "quotient_of x = (p, q)" by (cases "quotient_of x")
  then have x: "x = of_int p / of_int q" "0 < q" by (auto simp: quotient_of_div quotient_of_denom_pos)
  with assms have "0 < p" by (simp add: zero_less_divide_iff)
  define e where "e = bitlen p - bitlen q"
  have b: "2 powi (bitlen n - 1) \<le> (of_int n :: rat) \<and> (of_int n :: rat) < 2 powi bitlen n" if "0 < n" for n
  proof -
    have "1 \<le> bitlen n" using that bitlen_eq_zero_iff [of n] bitlen_nonneg [of n] by linarith
    then show ?thesis using bitlen_bounds [OF that]
      by (simp add: power_int_def flip: of_int_power_le_of_int_cancel_iff)
  qed
  have pow: "(2::rat) powi (a - b) = 2 powi a / 2 powi b" for a b :: int
    by (rule power_int_diff) simp
  have "(of_int p :: rat) < 2 powi bitlen p" "2 powi (bitlen q - 1) \<le> (of_int q :: rat)"
    "2 powi (bitlen p - 1) \<le> (of_int p :: rat)" "of_int q < (2 powi bitlen q :: rat)"
    using b [OF \<open>0 < p\<close>] b [OF x(2)] by simp_all
  then have "x < 2 powi bitlen p / 2 powi (bitlen q - 1)" "2 powi (bitlen p - 1) / 2 powi bitlen q < x"
    unfolding x(1) using x(2) \<open>0 < p\<close> frac_less [of "of_int p :: rat" "2 powi bitlen p" "2 powi (bitlen q - 1)" "of_int q"]
      frac_less2 [of "2 powi (bitlen p - 1)" "of_int p :: rat" "of_int q" "2 powi bitlen q"]
    by (simp_all add: zero_less_power_int)
  then have u: "x < 2 powi (e + 1)" and l: "2 powi (e - 1) < x"
    unfolding e_def pow [symmetric] by (simp_all add: algebra_simps)
  have "exponent x = (if 2 powi e \<le> x then e else e - 1)"
    by (simp add: exponent_def pq Let_def e_def)
  then show "2 powi exponent x \<le> x" "x < 2 powi (exponent x + 1)" using u l by auto
qed


lemma exponent_unique:
  assumes "0 < x" "2 powi e \<le> x" "x < 2 powi (e + 1)"
  shows "exponent x = e"
proof -
  have "2 powi exponent x < (2::rat) powi (e + 1)" "2 powi e < (2::rat) powi (exponent x + 1)"
    using exponent_bounds [OF assms(1)] assms(2,3) by linarith+
  then have "exponent x < e + 1" "e < exponent x + 1"
    using power_int_increasing [of "e + 1" "exponent x" "2::rat"]
      power_int_increasing [of "exponent x + 1" e "2::rat"] by fastforce+
  then show ?thesis by simp
qed

lemma exponent_mono: "0 < x \<Longrightarrow> x \<le> y \<Longrightarrow> exponent x \<le> exponent y"
proof (rule ccontr)
  assume a: "0 < x" "x \<le> y" "\<not> exponent x \<le> exponent y"
  have "y < 2 powi (exponent y + 1)" using exponent_bounds(2) a by auto
  also have "\<dots> \<le> 2 powi exponent x" using a(3) by (intro power_int_increasing) auto
  also have "\<dots> \<le> x" using exponent_bounds(1) [OF a(1)] .
  finally show False using a(2) by simp
qed

lemma round_even_near: "\<bar>of_int (round_even x) - x\<bar> \<le> 1 / 2"
proof -
  have "of_int \<lfloor>x\<rfloor> \<le> x" "x < of_int \<lfloor>x\<rfloor> + 1" by linarith+
  then show ?thesis unfolding round_even_def Let_def by (auto simp: abs_if field_simps split: if_splits) linarith
qed

lemma round_even_int [simp]: "round_even (of_int n) = n"
  by (simp add: round_even_def)

lemma round_even_mono: "x \<le> y \<Longrightarrow> round_even x \<le> round_even y"
proof -
  assume le: "x \<le> y"
  show ?thesis
  proof (cases "\<lfloor>x\<rfloor> = \<lfloor>y\<rfloor>")
    case True
    with le show ?thesis unfolding round_even_def Let_def by auto
  next
    case False
    then have "\<lfloor>x\<rfloor> + 1 \<le> \<lfloor>y\<rfloor>" using floor_mono [OF le] by simp
    moreover have "round_even x \<le> \<lfloor>x\<rfloor> + 1" "\<lfloor>y\<rfloor> \<le> round_even y"
      by (simp_all add: round_even_def Let_def)
    ultimately show ?thesis by simp
  qed
qed

lemma round_even_bounds: "of_int m \<le> x \<Longrightarrow> m \<le> round_even x" "x \<le> of_int n \<Longrightarrow> round_even x \<le> n"
  using round_even_mono [of "of_int m" x] round_even_mono [of x "of_int n"] by simp_all

lemma round_even_minus: "round_even (- x) = - round_even x"
proof (cases "x = of_int \<lfloor>x\<rfloor>")
  case True
  then show ?thesis by (metis of_int_minus round_even_int)
next
  case False
  then have f: "\<lfloor>- x\<rfloor> = - \<lfloor>x\<rfloor> - 1" by linarith
  show ?thesis unfolding round_even_def Let_def f by (auto simp: algebra_simps)
qed


lemma pow2_shift: "(2::rat) powi e = 2 ^ k * 2 powi (e - int k)"
  using power_int_add [of "2::rat" "e - int k" "int k"] by simp

lemma double_0 [simp]: "double 0 = 0"
  by (simp add: double_def)

lemma double_minus: "double (- x) = - double x"
  by (simp add: double_def Let_def round_even_minus)

lemma double_pos: "0 < x \<Longrightarrow> double x =
    of_int (round_even (x / 2 powi (exponent x - 52))) * 2 powi (exponent x - 52)"
  by (simp add: double_def Let_def)

text \<open>A rounded number stays between the powers of two around it.\<close>

lemma double_range:
  assumes "0 < x"
  shows "2 powi exponent x \<le> double x" "double x \<le> 2 powi (exponent x + 1)"
proof -
  define u :: rat where "u = 2 powi (exponent x - 52)"
  have u: "0 < u" by (simp add: u_def zero_less_power_int)
  have e: "2 powi exponent x = 2 ^ 52 * u" "2 powi (exponent x + 1) = 2 ^ 53 * u"
    using pow2_shift [of "exponent x" 52] pow2_shift [of "exponent x + 1" 53] by (simp_all add: u_def)
  have "of_int (2 ^ 52) \<le> x / u" "x / u \<le> of_int (2 ^ 53)"
    using exponent_bounds [OF assms, unfolded e] u by (simp_all add: field_simps)
  then have "2 ^ 52 \<le> round_even (x / u) \<and> round_even (x / u) \<le> 2 ^ 53"
    by (intro conjI round_even_bounds)
  then have "(of_int (2 ^ 52) :: rat) \<le> of_int (round_even (x / u))" "of_int (round_even (x / u)) \<le> (of_int (2 ^ 53) :: rat)"
    by (simp_all only: of_int_le_iff)
  then show "2 powi exponent x \<le> double x" "double x \<le> 2 powi (exponent x + 1)"
    using u by (simp_all add: double_pos [OF assms] e flip: u_def)
qed

lemma double_mono_pos:
  assumes "0 < x" "x \<le> y"
  shows "double x \<le> double y"
proof (cases "exponent x = exponent y")
  case True
  have "0 < (2 :: rat) powi (exponent x - 52)" by (simp add: zero_less_power_int)
  then have "round_even (x / 2 powi (exponent x - 52)) \<le> round_even (y / 2 powi (exponent x - 52))"
    using assms(2) by (intro round_even_mono divide_right_mono) auto
  then show ?thesis using assms True
    by (simp add: double_pos mult_right_mono)
next
  case False
  then have lt: "exponent x + 1 \<le> exponent y" using exponent_mono [OF assms] by simp
  have "double x \<le> 2 powi (exponent x + 1)" using assms by (intro double_range)
  also have "\<dots> \<le> 2 powi exponent y" using lt by (intro power_int_increasing) auto
  also have "\<dots> \<le> double y" using assms by (intro double_range) simp
  finally show ?thesis .
qed

lemma double_sign: "0 < x \<Longrightarrow> 0 < double x"
  using double_range(1) [of x] zero_less_power_int [of "2::rat" "exponent x"] by linarith

lemma double_mono: "x \<le> y \<Longrightarrow> double x \<le> double y"
proof -
  assume le: "x \<le> y"
  consider "0 < x" | "y < 0" | "x \<le> 0" "0 \<le> y" using le by linarith
  then show ?thesis
  proof cases
    case 1
    then show ?thesis using le by (rule double_mono_pos)
  next
    case 2
    then have "double (- y) \<le> double (- x)" using le by (intro double_mono_pos) auto
    then show ?thesis by (simp add: double_minus)
  next
    case 3
    have "0 \<le> double y" using 3(2) double_sign [of y] by (cases "y = 0") auto
    moreover have "double x \<le> 0" using 3(1) double_sign [of "- x"] by (cases "x = 0") (auto simp: double_minus)
    ultimately show ?thesis by simp
  qed
qed

lemma double_near: "\<bar>double x - x\<bar> \<le> \<bar>x\<bar> / 2 ^ 53"
proof -
  have pos: "\<bar>double x - x\<bar> \<le> x / 2 ^ 53" if x: "0 < x" for x
  proof -
    define u :: rat where "u = 2 powi (exponent x - 52)"
    have u: "0 < u" by (simp add: u_def zero_less_power_int)
    have "double x - x = (of_int (round_even (x / u)) - x / u) * u"
      using u by (simp add: double_pos [OF x] u_def [symmetric] field_simps)
    then have "\<bar>double x - x\<bar> \<le> 1 / 2 * u"
      using u mult_right_mono [OF round_even_near [of "x / u"], of u] by (simp add: abs_mult)
    also have "\<dots> \<le> x / 2 ^ 53"
    proof -
      have "2 powi exponent x = 2 ^ 52 * u"
        using pow2_shift [of "exponent x" 52] by (simp add: u_def)
      then show ?thesis using exponent_bounds(1) [OF x] by simp
    qed
    finally show ?thesis .
  qed
  consider "0 < x" | "x = 0" | "0 < - x" by linarith
  then show ?thesis
  proof cases
    case 3
    then show ?thesis using pos [OF 3] by (simp add: double_minus abs_minus_commute)
  qed (use pos in auto)
qed

text \<open>Numbers of 53 bits are represented exactly.\<close>

lemma double_exact_pos:
  assumes "0 < n" "n < 2 ^ 53"
  shows "double (of_int n * 2 powi k) = of_int n * 2 powi k"
proof -
  let ?x = "of_int n * 2 powi k :: rat"
  have x: "0 < ?x" using assms(1) by simp
  have "2 powi exponent ?x \<le> ?x" by (rule exponent_bounds(1) [OF x])
  also have "?x < 2 ^ 53 * 2 powi k"
    using assms(2) by (intro mult_strict_right_mono) (simp_all flip: of_int_power_less_of_int_cancel_iff)
  also have "\<dots> = 2 powi (k + 53)" using pow2_shift [of "k + 53" 53] by simp
  finally have "exponent ?x < k + 53"
    using power_int_increasing [of "k + 53" "exponent ?x" "2::rat"] by fastforce
  then have "0 \<le> k - (exponent ?x - 52)" by simp
  then obtain j where "k - (exponent ?x - 52) = int j" by (metis nonneg_int_cases)
  then have j: "exponent ?x - 52 = k - int j" by simp
  have "?x = of_int (n * 2 ^ j) * 2 powi (exponent ?x - 52)"
    unfolding j using pow2_shift [of k j] by simp
  then have "?x / 2 powi (exponent ?x - 52) = of_int (n * 2 ^ j)"
    by (metis nonzero_mult_div_cancel_right power_int_not_zero zero_neq_numeral)
  then have "round_even (?x / 2 powi (exponent ?x - 52)) = n * 2 ^ j" by (simp only: round_even_int)
  then show ?thesis using double_pos [OF x] \<open>?x = _\<close> by auto
qed

lemma double_exact:
  assumes "\<bar>n\<bar> < 2 ^ 53"
  shows "double (of_int n * 2 powi k) = of_int n * 2 powi k"
proof -
  consider "0 < n" | "n = 0" | "0 < - n" by linarith
  then show ?thesis
  proof cases
    case 3
    then have "double (of_int (- n) * 2 powi k) = of_int (- n) * 2 powi k"
      using assms by (intro double_exact_pos) auto
    then show ?thesis by (simp add: double_minus)
  qed (use assms double_exact_pos in auto)
qed

lemma double_int: "\<bar>n\<bar> < 2 ^ 53 \<Longrightarrow> double (of_int n) = of_int n"
  using double_exact [of n 0] by simp

text \<open>
  A number times its rounded reciprocal does not exceed 1: the exact product exceeds 1 by
  at most half the distance to the next double, and the tie goes to 1.
\<close>

lemma double_above_1: "double (1 + 1 / 2 ^ 53) = 1"
proof -
  have "exponent (1 + 1 / 2 ^ 53) = 0" by (rule exponent_unique) auto
  moreover have "round_even (2 ^ 52 + 1 / 2) = 2 ^ 52"
  proof -
    have "\<lfloor>2 ^ 52 + 1 / 2 :: rat\<rfloor> = 2 ^ 52" by (simp add: floor_eq_iff)
    then show ?thesis unfolding round_even_def Let_def by simp
  qed
  ultimately show ?thesis using double_pos [of "1 + 1 / 2 ^ 53"] by (simp add: power_int_minus field_simps)
qed

lemma double_reciprocal:
  assumes "0 < d"
  shows "double (d * double (1 / d)) \<le> 1"
proof -
  have "double (1 / d) \<le> 1 / d + (1 / d) / 2 ^ 53"
    using double_near [of "1 / d"] assms by (simp add: abs_le_iff)
  then have "d * double (1 / d) \<le> d * (1 / d + (1 / d) / 2 ^ 53)"
    using assms by (intro mult_left_mono) auto
  also have "\<dots> = 1 + 1 / 2 ^ 53" using assms by (simp add: field_simps)
  finally show ?thesis using double_mono double_above_1 by metis
qed

section \<open>What the proofs use of a rounding\<close>

locale rounding =
  fixes fl :: "rat \<Rightarrow> rat"
  assumes mono: "x \<le> y \<Longrightarrow> fl x \<le> fl y"
    and int_exact: "\<bar>n\<bar> < 2 ^ 53 \<Longrightarrow> fl (of_int n) = of_int n"
    and near: "\<bar>fl x - x\<bar> \<le> \<bar>x\<bar> / 2 ^ 53"
    and minus: "fl (- x) = - fl x"
    and reciprocal: "0 < d \<Longrightarrow> fl (d * fl (1 / d)) \<le> 1"
begin

lemma zero: "fl 0 = 0"
  using int_exact [of 0] by simp

lemma one: "fl 1 = 1"
  using int_exact [of 1] by simp

lemma nonneg: "0 \<le> fl x \<longleftrightarrow> 0 \<le> x"
proof
  assume "0 \<le> fl x"
  show "0 \<le> x"
  proof (rule ccontr)
    assume "\<not> 0 \<le> x"
    then have "fl x \<le> x - x / 2 ^ 53" using near [of x] by (simp add: abs_le_iff)
    also have "\<dots> < 0" using \<open>\<not> 0 \<le> x\<close> by (simp add: field_simps)
    finally show False using \<open>0 \<le> fl x\<close> by simp
  qed
next
  assume "0 \<le> x"
  then show "0 \<le> fl x" using mono [of 0 x] by (simp add: zero)
qed

lemma pos: "0 < fl x \<longleftrightarrow> 0 < x"
  using nonneg [of "- x"] by (simp add: minus not_le [symmetric])

lemma eq_0: "fl x = 0 \<longleftrightarrow> x = 0"
  using pos [of x] pos [of "- x"] by (metis linorder_neqE_linordered_idom minus neg_0_less_iff_less order_less_irrefl zero)

lemma le_1: "x \<le> 1 \<Longrightarrow> fl x \<le> 1"
  using mono [of x 1] by (simp add: one)

text \<open>Scaling by the rounded reciprocal of the range keeps a part of the range below 1.\<close>

lemma scaled_le_1:
  assumes "0 < d" "x \<le> d"
  shows "fl (x * fl (1 / d)) \<le> 1"
proof -
  have "0 \<le> fl (1 / d)" using assms(1) by (simp add: nonneg)
  then have "fl (x * fl (1 / d)) \<le> fl (d * fl (1 / d))" using assms(2) by (intro mono mult_right_mono)
  then show ?thesis using reciprocal [OF assms(1)] by simp
qed

end

interpretation double: rounding double
  by unfold_locales (blast intro: double_mono double_int double_near double_minus double_reciprocal)+

interpretation exact: rounding "\<lambda>x. x"
  by unfold_locales simp_all

end
