(* ===== verification/PageScripts.thy ===== *)
theory PageScripts
  imports JsValue
begin

text \<open>
  The helpers of the demo pages: the class names of \<open>css.js\<close> and the event handlers of
  \<open>common.js\<close>. A class string is taken as the text it is: it contains no character
  that is special in a regular expression. A handler is a number; what it does to the
  application, and what it returns, is a parameter.
\<close>

section \<open>Class names\<close>

abbreviation (input) "SPACE \<equiv> (32::nat)"

definition is_word :: "nat \<Rightarrow> bool" where
  "is_word c \<longleftrightarrow> 48 \<le> c \<and> c \<le> 57 \<or> 65 \<le> c \<and> c \<le> 90 \<or> 97 \<le> c \<and> c \<le> 122 \<or> c = 95"

definition word_at :: "nat option \<Rightarrow> bool" where
  "word_at c = (case c of None \<Rightarrow> False | Some x \<Rightarrow> is_word x)"

fun first_char :: "jsstring \<Rightarrow> nat option" where
  "first_char [] = None"
| "first_char (c # s) = Some c"

text \<open>A match of \<open>\bclassString\b\<close> in the text behind the character \<open>before\<close>.\<close>

definition boundary :: "nat option \<Rightarrow> nat option \<Rightarrow> bool" where
  "boundary a b \<longleftrightarrow> word_at a \<noteq> word_at b"

definition last_char :: "nat option \<Rightarrow> jsstring \<Rightarrow> nat option" where
  "last_char before s = (if s = [] then before else Some (last s))"

definition matches_here :: "jsstring \<Rightarrow> nat option \<Rightarrow> jsstring \<Rightarrow> bool" where
  "matches_here cls before s \<longleftrightarrow>
     take (length cls) s = cls \<and> boundary before (first_char s)
     \<and> boundary (last_char before cls) (first_char (drop (length cls) s))"

fun matches_from :: "jsstring \<Rightarrow> nat option \<Rightarrow> jsstring \<Rightarrow> bool" where
  "matches_from cls before [] = matches_here cls before []"
| "matches_from cls before (c # s) =
     (matches_here cls before (c # s) \<or> matches_from cls (Some c) s)"

definition elementHasClass :: "jsstring \<Rightarrow> jsstring \<Rightarrow> bool" where
  "elementHasClass className classString = matches_from classString None className"

definition getClassArray :: "jsstring \<Rightarrow> jsstring list" where
  "getClassArray className = split_on SPACE className"

definition createClassString :: "jsstring list \<Rightarrow> jsstring" where
  "createClassString classArray = join_with [SPACE] classArray"

definition addClassToElement :: "jsstring \<Rightarrow> jsstring \<Rightarrow> jsstring" where
  "addClassToElement className classString =
     (if elementHasClass className classString then className
      else createClassString (getClassArray className @ [classString]))"

fun blank_first :: "jsstring \<Rightarrow> jsstring list \<Rightarrow> jsstring list" where
  "blank_first c [] = []"
| "blank_first c (x # xs) = (if c = x then [] # xs else x # blank_first c xs)"

definition removeClassFromElement :: "jsstring \<Rightarrow> jsstring \<Rightarrow> jsstring" where
  "removeClassFromElement className classString =
     createClassString (blank_first classString (getClassArray className))"

definition getElementsByClass :: "('el \<Rightarrow> jsstring) \<Rightarrow> 'el list \<Rightarrow> jsstring \<Rightarrow> 'el list" where
  "getElementsByClass className els searchClass =
     filter (\<lambda>el. elementHasClass (className el) searchClass) els"

lemma join_split: "join_with [c] (split_on c s) = s"
proof (induction c s rule: split_on.induct)
  case (1 c)
  then show ?case by simp
next
  case (2 c x xs)
  have "join_with [c] ((x # p) # ps) = x # join_with [c] (p # ps)" for p ps
    by (cases ps) auto
  moreover have "join_with [c] ([] # p # ps) = c # join_with [c] (p # ps)" for p ps by simp
  moreover obtain p ps where "split_on c xs = p # ps" by (cases "split_on c xs") auto
  ultimately show ?case using 2 by (auto split: list.split)
qed

lemma matches_from_append: "matches_from cls (last_char b s) t \<Longrightarrow> matches_from cls b (s @ t)"
proof (induction s arbitrary: b)
  case Nil
  then show ?case by (simp add: last_char_def)
next
  case (Cons c s)
  have "last_char b (c # s) = last_char (Some c) s" by (simp add: last_char_def)
  with Cons show ?case by simp
qed

lemma matches_after_space:
  assumes "cls \<noteq> []" "\<forall>c \<in> set cls. is_word c"
  shows "matches_from cls (Some SPACE) cls"
proof -
  obtain c s where c: "cls = c # s" using assms(1) by (cases cls) auto
  have "is_word (last cls)" using assms by simp
  moreover have "\<not> is_word SPACE" by (simp add: is_word_def)
  ultimately have "matches_here cls (Some SPACE) cls"
    using assms c by (simp add: matches_here_def boundary_def word_at_def last_char_def)
  with c show ?thesis by simp
qed

lemma addClass_has:
  assumes "cls \<noteq> []" "\<forall>c \<in> set cls. is_word c"
  shows "elementHasClass (addClassToElement className cls) cls"
proof (cases "elementHasClass className cls")
  case True
  then show ?thesis by (simp add: addClassToElement_def)
next
  case False
  have "join_with [SPACE] (xs @ [cls]) = join_with [SPACE] xs @ SPACE # cls" if "xs \<noteq> []" for xs
    using that by (induction "[SPACE]" xs rule: join_with.induct) auto
  then have e: "addClassToElement className cls = (className @ [SPACE]) @ cls"
    using False by (simp add: addClassToElement_def getClassArray_def createClassString_def join_split)
  have "matches_from cls (last_char None (className @ [SPACE])) cls"
    using matches_after_space [OF assms] by (simp add: last_char_def)
  then show ?thesis unfolding elementHasClass_def e by (rule matches_from_append)
qed

section \<open>Event handlers\<close>

text \<open>
  An element has, for each type of event, a table of handlers by identifier, and the
  handler the browser calls: one assigned by the page, or \<open>handleEvent\<close>.
\<close>

datatype on_handler = NoHandler | PageHandler nat | HandleEvent

record element =
  el_events :: "(jsstring \<times> (nat \<times> nat) list) list"
  el_on :: "(jsstring \<times> on_handler) list"

record guids =
  next_guid :: nat
  guid_of :: "(nat \<times> nat) list"

definition on_of :: "element \<Rightarrow> jsstring \<Rightarrow> on_handler" where
  "on_of el type = (case map_of (el_on el) type of None \<Rightarrow> NoHandler | Some h \<Rightarrow> h)"

text \<open>
  The handler the page assigned is kept as number 0. \<open>handleEvent\<close> is never found here:
  it is only assigned together with a table for the type (\<open>events_ok\<close> below).
\<close>

definition existing_handlers :: "on_handler \<Rightarrow> (nat \<times> nat) list" where
  "existing_handlers h =
     (case h of NoHandler \<Rightarrow> [] | PageHandler k \<Rightarrow> [(0, k)] | HandleEvent \<Rightarrow> [])"

definition assign_guid :: "nat \<Rightarrow> guids \<Rightarrow> nat \<times> guids" where
  "assign_guid handler g =
     (case map_of (guid_of g) handler of
        Some i \<Rightarrow> (i, g)
      | None \<Rightarrow> (next_guid g, \<lparr>next_guid = next_guid g + 1, guid_of = (handler, next_guid g) # guid_of g\<rparr>))"

definition addEvent :: "jsstring \<Rightarrow> nat \<Rightarrow> element \<times> guids \<Rightarrow> element \<times> guids" where
  "addEvent type handler eg =
     (case eg of (el, g) \<Rightarrow>
      case assign_guid handler g of (i, g1) \<Rightarrow>
        let handlers = (case map_of (el_events el) type of
              Some hs \<Rightarrow> hs | None \<Rightarrow> existing_handlers (on_of el type))
        in (el\<lparr>el_events := AList.update type (AList.update i handler handlers) (el_events el),
               el_on := AList.update type HandleEvent (el_on el)\<rparr>, g1))"

definition removeEvent :: "jsstring \<Rightarrow> nat \<Rightarrow> element \<times> guids \<Rightarrow> element \<times> guids" where
  "removeEvent type handler eg =
     (case eg of (el, g) \<Rightarrow>
      case (map_of (el_events el) type, map_of (guid_of g) handler) of
        (Some hs, Some i) \<Rightarrow>
          (el\<lparr>el_events := AList.update type (AList.delete i hs) (el_events el)\<rparr>, g)
      | _ \<Rightarrow> (el, g))"

text \<open>
  \<open>for (i in handlers)\<close> visits whole numbers in ascending order. The handlers are run on
  the state of the application; one that returns false makes the result false.
\<close>

fun run_handlers :: "(nat \<Rightarrow> 'a \<Rightarrow> 'a \<times> bool) \<Rightarrow> nat list \<Rightarrow> 'a \<times> bool \<Rightarrow> 'a \<times> bool" where
  "run_handlers f [] r = r"
| "run_handlers f (h # hs) (a, ok) =
     (case f h a of (a1, v) \<Rightarrow> run_handlers f hs (a1, ok \<and> v))"

definition handleEvent ::
  "(nat \<Rightarrow> 'a \<Rightarrow> 'a \<times> bool) \<Rightarrow> jsstring \<Rightarrow> element \<Rightarrow> 'a \<Rightarrow> 'a \<times> bool" where
  "handleEvent f type el a =
     (case map_of (el_events el) type of
        None \<Rightarrow> (a, True)
      | Some hs \<Rightarrow> run_handlers f (map snd (sort_key fst hs)) (a, True))"

text \<open>The target of an event; a text node stands for its parent.\<close>

record event_target =
  nodeType :: nat
  node_id :: nat
  parent_id :: nat

definition getEventTarget :: "event_target option \<Rightarrow> event_target option \<Rightarrow> nat option" where
  "getEventTarget target srcElement =
     (case (case target of Some t \<Rightarrow> Some t | None \<Rightarrow> srcElement) of
        None \<Rightarrow> None
      | Some t \<Rightarrow> Some (if nodeType t = 3 then parent_id t else node_id t))"

definition table_ok :: "guids \<Rightarrow> (nat \<times> nat) list \<Rightarrow> bool" where
  "table_ok g hs \<longleftrightarrow> distinct (map fst hs) \<and> (\<forall>(i, h) \<in> set hs. i = 0 \<or> (h, i) \<in> set (guid_of g))"

definition events_ok :: "element \<times> guids \<Rightarrow> bool" where
  "events_ok eg \<longleftrightarrow>
     (\<forall>t. on_of (fst eg) t = HandleEvent \<longrightarrow> map_of (el_events (fst eg)) t \<noteq> None) \<and>
     0 < next_guid (snd eg) \<and> (\<forall>(h, i) \<in> set (guid_of (snd eg)). 0 < i \<and> i < next_guid (snd eg)) \<and>
     (\<forall>hs \<in> snd ` set (el_events (fst eg)). table_ok (snd eg) hs)"

lemma assign_guid_again:
  "assign_guid h g = (i, g1) \<Longrightarrow> assign_guid h g1 = (i, g1)"
  by (auto simp: assign_guid_def split: option.splits)

lemma addEvent_again: "addEvent type h (addEvent type h eg) = addEvent type h eg"
proof -
  obtain el g where eg: "eg = (el, g)" by (cases eg)
  obtain i g1 where a: "assign_guid h g = (i, g1)" by (cases "assign_guid h g")
  note b = assign_guid_again [OF a]
  show ?thesis
    by (simp add: eg addEvent_def a b Let_def map_of_update alist_update_twice split: option.split)
qed

lemma set_update_subset: "set (AList.update k v al) \<subseteq> insert (k, v) (set al)"
  by (induction al) auto

lemma assign_guid_ok:
  assumes "assign_guid h g = (i, g1)" "0 < next_guid g"
    "\<forall>(k, j) \<in> set (guid_of g). 0 < j \<and> j < next_guid g"
  shows "0 < i \<and> (h, i) \<in> set (guid_of g1) \<and> set (guid_of g) \<subseteq> set (guid_of g1)
    \<and> 0 < next_guid g1 \<and> (\<forall>(k, j) \<in> set (guid_of g1). 0 < j \<and> j < next_guid g1)"
  using assms by (fastforce simp: assign_guid_def dest: map_of_SomeD split: option.splits)

lemma addEvent_ok: "events_ok eg \<Longrightarrow> events_ok (addEvent type h eg)"
proof -
  assume ok: "events_ok eg"
  obtain el g where eg: "eg = (el, g)" by (cases eg)
  obtain i g1 where a: "assign_guid h g = (i, g1)" by (cases "assign_guid h g")
  define hs where "hs = (case map_of (el_events el) type of
      Some hs \<Rightarrow> hs | None \<Rightarrow> existing_handlers (on_of el type))"
  have g: "0 < i" "(h, i) \<in> set (guid_of g1)" "set (guid_of g) \<subseteq> set (guid_of g1)"
    "0 < next_guid g1" "\<forall>(k, j) \<in> set (guid_of g1). 0 < j \<and> j < next_guid g1"
    using assign_guid_ok [OF a] ok by (auto simp: events_ok_def eg)
  have tables: "\<forall>hs \<in> snd ` set (el_events el). table_ok g1 hs"
    using ok g(3) by (fastforce simp: events_ok_def table_ok_def eg)
  have "table_ok g1 hs"
  proof (cases "map_of (el_events el) type")
    case None
    then show ?thesis by (simp add: hs_def existing_handlers_def table_ok_def split: on_handler.split)
  next
    case (Some x)
    then have "x \<in> snd ` set (el_events el)" by (force dest: map_of_SomeD)
    from bspec [OF tables this] Some show ?thesis by (simp add: hs_def)
  qed
  then have "table_ok g1 (AList.update i h hs)"
    using g(2) set_update_subset [of i h hs] by (fastforce simp: table_ok_def intro: distinct_update_keys)
  with tables have "\<forall>hs \<in> snd ` set (AList.update type (AList.update i h hs) (el_events el)). table_ok g1 hs"
    using set_update_subset [of type "AList.update i h hs" "el_events el"] by fastforce
  moreover have "addEvent type h eg = (el\<lparr>el_events := AList.update type (AList.update i h hs) (el_events el),
      el_on := AList.update type HandleEvent (el_on el)\<rparr>, g1)"
    by (simp add: eg addEvent_def a hs_def Let_def)
  ultimately show ?thesis
    using g(4,5) ok by (auto simp: events_ok_def eg on_of_def map_of_update)
qed

text \<open>
  A registered handler is run by the next event, once, and after the handler the page had
  assigned; a handler that was removed is not run.
\<close>

lemma run_handlers_trace:
  "run_handlers (\<lambda>h tr. (tr @ [h], True)) hs (tr, b) = (tr @ hs, b)"
  by (induction hs arbitrary: tr b) auto

definition handlers_run :: "jsstring \<Rightarrow> element \<Rightarrow> nat list" where
  "handlers_run type el = fst (handleEvent (\<lambda>h tr. (tr @ [h], True)) type el [])"

lemma handlers_run_table:
  "handlers_run type el =
     (case map_of (el_events el) type of None \<Rightarrow> [] | Some hs \<Rightarrow> map snd (sort_key fst hs))"
  by (simp add: handlers_run_def handleEvent_def run_handlers_trace split: option.split)

text \<open>
  A handler that was added to an element is among those an event of its type runs.
\<close>

theorem added_handler_runs:
  "h \<in> set (handlers_run type (fst (addEvent type h eg)))"
proof -
  obtain el g where eg: "eg = (el, g)" by (cases eg)
  obtain i g1 where a: "assign_guid h g = (i, g1)" by (cases "assign_guid h g")
  have "(i, h) \<in> set (AList.update i h hs)" for hs :: "(nat \<times> nat) list" by (induction hs) auto
  then have "h \<in> snd ` set (AList.update i h hs)" for hs by (metis image_eqI snd_conv)
  then show ?thesis
    by (auto simp: eg addEvent_def a Let_def handlers_run_table map_of_update split: option.split)
qed

end
