(* ===== verification/TableSort.thy ===== *)
theory TableSort
  imports PageScripts StompFrame "HOL-Library.Multiset" Complex_Main
begin

text \<open>
  The table sorting of \<open>standardista-table-sorting.js\<close>. A regular expression is a value
  of \<open>regex\<close> matched by derivatives; a decimal number is the rational it denotes (the
  differences the code takes of two such numbers have the sign they have for doubles as
  long as the numbers have at most fifteen digits); letters of ASCII and Latin-1 have a
  case. \<open>Array.sort\<close> is a stable insertion sort. Rows are told apart by a number. The
  texts \<open>getInnerText\<close> stores in attributes are part of the nodes. The flag \<open>isOdd\<close> is
  set to false before every pass over the rows and is an argument of that pass. Infinity
  as the text of a number is not modelled.
\<close>

section \<open>Regular expressions\<close>

datatype regex =
    NoMatch | Eps | Char "nat list" | Digit | Seq regex regex | Alt regex regex | Star regex

definition char_digit :: "nat \<Rightarrow> bool" where
  "char_digit c \<longleftrightarrow> 48 \<le> c \<and> c \<le> 57"

fun nullable :: "regex \<Rightarrow> bool" where
  "nullable NoMatch = False"
| "nullable Eps = True"
| "nullable (Char cs) = False"
| "nullable Digit = False"
| "nullable (Seq r s) = (nullable r \<and> nullable s)"
| "nullable (Alt r s) = (nullable r \<or> nullable s)"
| "nullable (Star r) = True"

fun deriv :: "nat \<Rightarrow> regex \<Rightarrow> regex" where
  "deriv c NoMatch = NoMatch"
| "deriv c Eps = NoMatch"
| "deriv c (Char cs) = (if c \<in> set cs then Eps else NoMatch)"
| "deriv c Digit = (if char_digit c then Eps else NoMatch)"
| "deriv c (Seq r s) = (if nullable r then Alt (Seq (deriv c r) s) (deriv c s) else Seq (deriv c r) s)"
| "deriv c (Alt r s) = Alt (deriv c r) (deriv c s)"
| "deriv c (Star r) = Seq (deriv c r) (Star r)"

fun matches :: "regex \<Rightarrow> jsstring \<Rightarrow> bool" where
  "matches r [] = nullable r"
| "matches r (c # s) = matches (deriv c r) s"

definition Opt :: "regex \<Rightarrow> regex" where "Opt r = Alt r Eps"
definition Plus :: "regex \<Rightarrow> regex" where "Plus r = Seq r (Star r)"
definition Seqs :: "regex list \<Rightarrow> regex" where "Seqs rs = foldr Seq rs Eps"
definition Alts :: "regex list \<Rightarrow> regex" where "Alts rs = foldr Alt rs NoMatch"

definition date_sep :: regex where "date_sep = Char [47, 45]"

definition date_long :: regex where
  "date_long = Seqs [Digit, Digit, date_sep, Digit, Digit, date_sep, Digit, Digit, Digit, Digit]"

definition date_short :: regex where
  "date_short = Seqs [Digit, Digit, date_sep, Digit, Digit, date_sep, Digit, Digit]"

text \<open>The pound sign of the file, which is written in Latin-1, and the dollar sign.\<close>

definition currency_start :: "jsstring \<Rightarrow> bool" where
  "currency_start s = (case s of [] \<Rightarrow> False | c # t \<Rightarrow> c = 163 \<or> c = 36)"

definition numeric_short :: regex where
  "numeric_short = Seqs [Opt Digit, Opt (Char [46]), Plus Digit]"

definition numeric_long :: regex where
  "numeric_long = Seqs [Opt (Char [43, 45]), Star Digit, Opt (Char [46]), Plus Digit,
     Opt (Seqs [Char [101, 69], Opt (Char [45]), Plus Digit])]"

definition ip_byte :: regex where
  "ip_byte = Alts [Seqs [Opt (Char [48, 49]), Digit, Opt Digit],
     Seqs [Char [50], Char [48, 49, 50, 51, 52], Digit],
     Seqs [Char [50], Char [53], Char [48, 49, 50, 51, 52, 53]]]"

definition ip_address :: regex where
  "ip_address = Seqs [ip_byte, Char [46], ip_byte, Char [46], ip_byte, Char [46], ip_byte]"

section \<open>Texts of cells\<close>

text \<open>
  A node: a text, another node that is neither text nor element, or an element with its
  \<open>innerText\<close> (empty where the browser has none), the attribute in which
  \<open>getInnerText\<close> keeps its result, and its children.
\<close>

datatype node = TextNode jsstring | OtherNode | ElementNode jsstring "jsstring option" "node list"

fun getInnerText :: "node \<Rightarrow> jsstring" and firstText :: "node list \<Rightarrow> jsstring" where
  "getInnerText (TextNode t) = t"
| "getInnerText OtherNode = []"
| "getInnerText (ElementNode inner cache kids) =
     (if inner \<noteq> [] then inner
      else case cache of
        Some t \<Rightarrow> if t \<noteq> [] then t else firstText kids
      | None \<Rightarrow> firstText kids)"
| "firstText [] = []"
| "firstText (TextNode t # ns) = t"
| "firstText (OtherNode # ns) = firstText ns"
| "firstText (ElementNode inner cache kids # ns) = getInnerText (ElementNode inner cache kids)"

text \<open>The node with the attributes \<open>getInnerText\<close> leaves on it.\<close>

fun cacheText :: "node \<Rightarrow> node" and cacheFirst :: "node list \<Rightarrow> node list" where
  "cacheText (TextNode t) = TextNode t"
| "cacheText OtherNode = OtherNode"
| "cacheText (ElementNode inner cache kids) =
     (if inner \<noteq> [] \<or> (case cache of Some t \<Rightarrow> t \<noteq> [] | None \<Rightarrow> False)
      then ElementNode inner cache kids
      else ElementNode inner (Some (firstText kids)) (cacheFirst kids))"
| "cacheFirst [] = []"
| "cacheFirst (TextNode t # ns) = TextNode t # ns"
| "cacheFirst (OtherNode # ns) = OtherNode # cacheFirst ns"
| "cacheFirst (ElementNode inner cache kids # ns) = cacheText (ElementNode inner cache kids) # ns"

record row =
  row_id :: nat
  className :: jsstring
  cells :: "node list"

definition cell_text :: "nat \<Rightarrow> row \<Rightarrow> jsstring option" where
  "cell_text col r = (if col < length (cells r) then Some (getInnerText (cells r ! col)) else None)"

section \<open>Comparing texts\<close>

fun str_less :: "jsstring \<Rightarrow> jsstring \<Rightarrow> bool" where
  "str_less s [] = False"
| "str_less [] (y # t) = True"
| "str_less (x # s) (y # t) = (x < y \<or> x = y \<and> str_less s t)"

definition str_compare :: "jsstring \<Rightarrow> jsstring \<Rightarrow> rat" where
  "str_compare aa bb = (if aa = bb then 0 else if str_less aa bb then -1 else 1)"

definition lower_char :: "nat \<Rightarrow> nat" where
  "lower_char c = (if 65 \<le> c \<and> c \<le> 90 \<or> 192 \<le> c \<and> c \<le> 222 \<and> c \<noteq> 215 then c + 32 else c)"

definition toLowerCase :: "jsstring \<Rightarrow> jsstring" where
  "toLowerCase s = map lower_char s"

definition substr :: "jsstring \<Rightarrow> nat \<Rightarrow> nat \<Rightarrow> jsstring" where
  "substr s from len = take len (drop from s)"

definition sortCaseInsensitive :: "jsstring \<Rightarrow> jsstring \<Rightarrow> rat" where
  "sortCaseInsensitive a b = str_compare (toLowerCase a) (toLowerCase b)"

definition full_year :: "jsstring \<Rightarrow> jsstring" where
  "full_year yr =
     (case parseInt yr of
        Some n \<Rightarrow> if n < 50 then js ''20'' @ yr else js ''19'' @ yr
      | None \<Rightarrow> js ''19'' @ yr)"

definition date_key :: "jsstring \<Rightarrow> jsstring" where
  "date_key aa =
     (if length aa = 10 then substr aa 6 4 @ substr aa 3 2 @ substr aa 0 2
      else full_year (substr aa 6 2) @ substr aa 3 2 @ substr aa 0 2)"

definition sortDate :: "jsstring \<Rightarrow> jsstring \<Rightarrow> rat" where
  "sortDate a b = str_compare (date_key a) (date_key b)"

text \<open>\<open>parseFloat\<close>: the longest prefix that is a decimal literal; \<open>None\<close> is NaN.\<close>

definition decimal_value :: "jsstring \<Rightarrow> jsstring \<Rightarrow> rat" where
  "decimal_value whole fds =
     of_nat (digits_value 10 (whole @ fds)) / 10 ^ length fds"

definition exponent_of :: "jsstring \<Rightarrow> int" where
  "exponent_of s =
     (case s of
        e # t \<Rightarrow>
          if e = 101 \<or> e = 69 then
            (let neg = (take 1 t = [45]);
                 ds = takeWhile char_digit (if take 1 t = [45] \<or> take 1 t = [43] then drop 1 t else t)
             in if neg then - int (digits_value 10 ds) else int (digits_value 10 ds))
          else 0
      | [] \<Rightarrow> 0)"

definition scale10 :: "rat \<Rightarrow> int \<Rightarrow> rat" where
  "scale10 x e = (if e < 0 then x / 10 ^ nat (- e) else x * 10 ^ nat e)"

definition parse_decimal :: "jsstring \<Rightarrow> rat option" where
  "parse_decimal s =
     (let whole = takeWhile char_digit s; r1 = dropWhile char_digit s;
          point = (take 1 r1 = [46]);
          fds = (if point then takeWhile char_digit (drop 1 r1) else []);
          r2 = (if point \<and> (whole \<noteq> [] \<or> fds \<noteq> []) then drop (1 + length fds) r1 else r1)
      in if whole = [] \<and> fds = [] then None
         else Some (scale10 (decimal_value whole fds) (exponent_of r2)))"

definition parseFloat :: "jsstring \<Rightarrow> rat option" where
  "parseFloat s =
     (case dropWhile is_space s of
        [] \<Rightarrow> None
      | c # t \<Rightarrow>
          if c = 45 then map_option uminus (parse_decimal t)
          else if c = 43 then parse_decimal t
          else parse_decimal (c # t))"

text \<open>A comparison whose result is NaN counts as 0.\<close>

definition difference :: "rat option \<Rightarrow> rat option \<Rightarrow> rat" where
  "difference a b = (case (a, b) of (Some x, Some y) \<Rightarrow> x - y | _ \<Rightarrow> 0)"

definition currency_value :: "jsstring \<Rightarrow> rat option" where
  "currency_value s = parseFloat (filter (\<lambda>c. char_digit c \<or> c = 46) s)"

definition sortCurrency :: "jsstring \<Rightarrow> jsstring \<Rightarrow> rat" where
  "sortCurrency a b = difference (currency_value a) (currency_value b)"

definition numeric_value :: "jsstring \<Rightarrow> rat" where
  "numeric_value s = (case parseFloat s of None \<Rightarrow> 0 | Some x \<Rightarrow> x)"

definition sortNumeric :: "jsstring \<Rightarrow> jsstring \<Rightarrow> rat" where
  "sortNumeric a b = numeric_value a - numeric_value b"

definition pad3 :: "jsstring \<Rightarrow> jsstring" where
  "pad3 s = replicate (3 - length s) 48 @ s"

definition makeStandardIPAddress :: "jsstring \<Rightarrow> jsstring" where
  "makeStandardIPAddress val = join_with [46] (map pad3 (split_on 46 val))"

definition sortIP :: "jsstring \<Rightarrow> jsstring \<Rightarrow> rat" where
  "sortIP a b =
     str_compare (makeStandardIPAddress (toLowerCase a)) (makeStandardIPAddress (toLowerCase b))"

datatype sort_function = CaseInsensitive | Date | Currency | Numeric | IP

text \<open>The tests in the order of the code: a later one overrides an earlier.\<close>

definition determineSortFunction :: "jsstring \<Rightarrow> sort_function" where
  "determineSortFunction itm =
     (if matches ip_address itm then IP
      else if matches numeric_long itm \<or> matches numeric_short itm then Numeric
      else if currency_start itm then Currency
      else if matches date_short itm \<or> matches date_long itm then Date
      else CaseInsensitive)"

fun sort_compare :: "sort_function \<Rightarrow> jsstring \<Rightarrow> jsstring \<Rightarrow> rat" where
  "sort_compare CaseInsensitive = sortCaseInsensitive"
| "sort_compare Date = sortDate"
| "sort_compare Currency = sortCurrency"
| "sort_compare Numeric = sortNumeric"
| "sort_compare IP = sortIP"

section \<open>Sorting a table\<close>

text \<open>The arrow of a heading: the \<open>sortOrder\<close> attribute of its span.\<close>

datatype arrow = Plain | Ascending | Descending

record table =
  table_id :: jsstring
  tableClass :: jsstring
  has_thead :: bool
  headings :: "(node list \<times> node list) list"
  arrows :: "arrow list"
  rows :: "row list"

record sorter =
  lastAssignedId :: nat
  sortColumnIndex :: "nat option"
  newRows :: "row list"
  lastSortedTable :: "jsstring option"

fun insert_by :: "('a \<Rightarrow> 'a \<Rightarrow> rat) \<Rightarrow> 'a \<Rightarrow> 'a list \<Rightarrow> 'a list" where
  "insert_by cmp x [] = [x]"
| "insert_by cmp x (y # ys) = (if cmp x y < 0 then x # y # ys else y # insert_by cmp x ys)"

definition array_sort :: "('a \<Rightarrow> 'a \<Rightarrow> rat) \<Rightarrow> 'a list \<Rightarrow> 'a list" where
  "array_sort cmp xs = foldl (\<lambda>acc x. insert_by cmp x acc) [] xs"

definition doStripe :: "bool \<Rightarrow> row \<Rightarrow> row" where
  "doStripe isOdd r =
     r\<lparr>className := (if isOdd then addClassToElement (className r) (js ''odd'')
        else removeClassFromElement (className r) (js ''odd''))\<rparr>"

fun stripe_rows :: "bool \<Rightarrow> row list \<Rightarrow> row list" where
  "stripe_rows isOdd [] = []"
| "stripe_rows isOdd (r # rs) = doStripe isOdd r # stripe_rows (\<not> isOdd) rs"

definition moveRows :: "table \<Rightarrow> row list \<Rightarrow> table" where
  "moveRows t rs =
     t\<lparr>rows := filter (\<lambda>r. row_id r \<notin> row_id ` set rs) (rows t) @ stripe_rows False rs\<rparr>"

definition cache_column :: "nat \<Rightarrow> row \<Rightarrow> row" where
  "cache_column col r = r\<lparr>cells := (cells r)[col := cacheText (cells r ! col)]\<rparr>"

text \<open>The first text of the column that is not empty; a missing cell ends the search.\<close>

fun sample_text :: "nat \<Rightarrow> row list \<Rightarrow> jsstring option" where
  "sample_text col [] = Some []"
| "sample_text col (r # rs) =
     (case cell_text col r of
        None \<Rightarrow> None
      | Some t \<Rightarrow> if t = [] then sample_text col rs else Some t)"

definition next_arrow :: "arrow \<Rightarrow> arrow" where
  "next_arrow a = (if a = Ascending then Descending else Ascending)"

text \<open>
  \<open>headingClicked\<close>, with whether it throws: when the column is missing in the row whose
  text decides how to sort, or, while sorting, in any row unless numbers are compared. The
  rows that are moved are also kept, to be reversed by the next click on the same heading.
\<close>

definition column_text :: "nat \<Rightarrow> row \<Rightarrow> jsstring" where
  "column_text col r = (case cell_text col r of None \<Rightarrow> js ''undefined'' | Some t \<Rightarrow> t)"

definition sorted_rows :: "nat \<Rightarrow> sort_function \<Rightarrow> table \<Rightarrow> row list" where
  "sorted_rows col f t =
     array_sort (\<lambda>a b. sort_compare f (column_text col a) (column_text col b))
       (map (cache_column col) (rows t))"

definition show_arrow :: "nat \<Rightarrow> table \<Rightarrow> table" where
  "show_arrow col t =
     t\<lparr>arrows := (map (\<lambda>a. Plain) (arrows t))
        [col := next_arrow (if col < length (arrows t) then arrows t ! col else Plain)]\<rparr>"

definition headingClicked :: "nat \<Rightarrow> table \<times> sorter \<Rightarrow> (table \<times> sorter) \<times> bool" where
  "headingClicked col ts =
     (case ts of (t, s) \<Rightarrow>
      if length (rows t) \<le> 1 then ((t, s), False)
      else case sample_text col (rows t) of
        None \<Rightarrow> ((t, s), True)
      | Some itm \<Rightarrow>
          (let f = determineSortFunction itm;
               again = (lastSortedTable s = Some (table_id t) \<and> sortColumnIndex s = Some col);
               s1 = s\<lparr>sortColumnIndex := Some col\<rparr>;
               moved = (if again then rev (newRows s) else sorted_rows col f t)
           in if \<not> again \<and> f \<noteq> Numeric \<and> (\<exists>r \<in> set (rows t). cell_text col r = None)
              then ((t, s1), True)
              else ((show_arrow col (moveRows t moved),
                     s1\<lparr>newRows := stripe_rows False moved, lastSortedTable := Some (table_id t)\<rparr>),
                    False)))"

section \<open>Making tables sortable\<close>

text \<open>
  The loop that moves the children of a heading into a link runs over the live list of
  children, which shrinks as they are moved.
\<close>

function move_live :: "nat \<Rightarrow> 'n list \<Rightarrow> 'n list \<Rightarrow> 'n list \<times> 'n list" where
  "move_live j kids link =
     (if j < length kids then move_live (j + 1) (take j kids @ drop (Suc j) kids) (link @ [kids ! j])
      else (link, kids))"
  by pat_completeness auto
termination by (relation "measure (\<lambda>(j, kids, link). length kids - j)") auto

definition makeSortable :: "table \<times> sorter \<Rightarrow> table \<times> sorter" where
  "makeSortable ts =
     (case ts of (t, s) \<Rightarrow>
        let t1 = (if table_id t = [] then t\<lparr>table_id := js ''sortableTable'' @ dec_string (lastAssignedId s)\<rparr> else t);
            s1 = (if table_id t = [] then s\<lparr>lastAssignedId := lastAssignedId s + 1\<rparr> else s)
        in if \<not> has_thead t then (t1, s1)
           else (t1\<lparr>headings := map (\<lambda>h. move_live 0 (snd h) []) (headings t),
                    arrows := map (\<lambda>h. Plain) (headings t),
                    rows := (if elementHasClass (tableClass t) (js ''autostripe'')
                             then stripe_rows False (rows t) else rows t)\<rparr>, s1))"

fun run_tables :: "table list \<Rightarrow> sorter \<Rightarrow> table list \<times> sorter" where
  "run_tables [] s = ([], s)"
| "run_tables (t # ts) s =
     (case (if elementHasClass (tableClass t) (js ''sortable'') then makeSortable (t, s) else (t, s)) of
        (t1, s1) \<Rightarrow> (case run_tables ts s1 of (ts1, s2) \<Rightarrow> (t1 # ts1, s2)))"

section \<open>Texts survive sorting\<close>

lemma getInnerText_cache:
  "getInnerText (cacheText n) = getInnerText n" "firstText (cacheFirst ns) = firstText ns"
proof (induction n and ns rule: cacheText_cacheFirst.induct)
  case (3 inner cache kids)
  then show ?case by (auto split: option.splits)
next
  case (7 inner cache kids ns)
  obtain i c k where "cacheText (ElementNode inner cache kids) = ElementNode i c k"
    by (cases "inner \<noteq> [] \<or> (case cache of Some t \<Rightarrow> t \<noteq> [] | None \<Rightarrow> False)") auto
  with 7 show ?case by simp
qed simp_all

lemma column_text_cache: "column_text col (cache_column col r) = column_text col r"
  by (simp add: column_text_def cell_text_def cache_column_def getInnerText_cache)

lemma column_text_stripe: "column_text c (doStripe b r) = column_text c r"
  by (simp add: column_text_def cell_text_def doStripe_def)

lemma stripe_rows_map:
  "map (column_text c) (stripe_rows b rs) = map (column_text c) rs"
  "map row_id (stripe_rows b rs) = map row_id rs" "length (stripe_rows b rs) = length rs"
  by (induction b rs rule: stripe_rows.induct) (simp_all add: column_text_stripe, simp_all add: doStripe_def)

section \<open>Sorting with a consistent comparison\<close>

text \<open>What \<open>Array.sort\<close> asks of a comparison function: a strict weak order.\<close>

locale weak_order =
  fixes cmp :: "'a \<Rightarrow> 'a \<Rightarrow> rat"
  assumes asym: "cmp a b < 0 \<Longrightarrow> \<not> cmp b a < 0"
    and negtrans: "\<not> cmp a b < 0 \<Longrightarrow> \<not> cmp b c < 0 \<Longrightarrow> \<not> cmp a c < 0"
begin

abbreviation "in_order \<equiv> sorted_wrt (\<lambda>x y. \<not> cmp y x < 0)"

lemma insert_by_sorted: "in_order ys \<Longrightarrow> in_order (insert_by cmp x ys)"
proof (induction ys)
  case Nil
  then show ?case by simp
next
  case (Cons y ys)
  have set: "set (insert_by cmp x zs) = insert x (set zs)" for zs by (induction zs) auto
  show ?case
  proof (cases "cmp x y < 0")
    case True
    have "\<not> cmp z x < 0" if "z \<in> set ys" for z
      using that Cons.prems asym [OF True] negtrans [of z y x] by auto
    with True Cons.prems asym [OF True] show ?thesis by auto
  next
    case False
    with Cons show ?thesis by (auto simp: set)
  qed
qed

lemma array_sort_sorted: "in_order (array_sort cmp xs)"
proof -
  have "in_order acc \<Longrightarrow> in_order (foldl (\<lambda>acc x. insert_by cmp x acc) acc xs)" for acc
    by (induction xs arbitrary: acc) (auto intro: insert_by_sorted)
  then show ?thesis by (simp add: array_sort_def)
qed

end

lemma insert_by_mset: "mset (insert_by cmp x ys) = add_mset x (mset ys)"
  by (induction ys) auto

lemma array_sort_mset: "mset (array_sort cmp xs) = mset xs"
proof -
  have "mset (foldl (\<lambda>acc x. insert_by cmp x acc) acc xs) = mset acc + mset xs" for acc
    by (induction xs arbitrary: acc) (simp_all add: insert_by_mset)
  then show ?thesis by (simp add: array_sort_def)
qed

lemma weak_order_on: "weak_order cmp \<Longrightarrow> weak_order (\<lambda>a b. cmp (f a) (f b))"
  unfolding weak_order_def by blast

lemma str_less_irrefl: "\<not> str_less s s"
  by (induction s) auto

lemma str_less_trans: "str_less a b \<Longrightarrow> str_less b c \<Longrightarrow> str_less a c"
proof (induction a b arbitrary: c rule: str_less.induct)
  case (2 y t)
  then show ?case by (cases c) auto
next
  case (3 x s y t)
  then show ?case by (cases c) auto
qed simp

lemma str_less_total: "a \<noteq> b \<Longrightarrow> \<not> str_less a b \<Longrightarrow> str_less b a"
proof (induction a b rule: str_less.induct)
  case (1 s)
  then show ?case by (cases s) auto
qed auto

lemma str_compare_less: "str_compare a b < 0 \<longleftrightarrow> str_less a b"
  by (auto simp: str_compare_def str_less_irrefl)

interpretation text_order: weak_order str_compare
proof unfold_locales
  fix a b c :: jsstring
  show "str_compare a b < 0 \<Longrightarrow> \<not> str_compare b a < 0"
    using str_less_trans [of a b a] by (auto simp: str_compare_less str_less_irrefl)
  show "\<not> str_compare a b < 0 \<Longrightarrow> \<not> str_compare b c < 0 \<Longrightarrow> \<not> str_compare a c < 0"
    using str_less_total [of a b] str_less_trans [of b a c] by (auto simp: str_compare_less)
qed

interpretation numeric_order: weak_order sortNumeric
  by unfold_locales (auto simp: sortNumeric_def)

interpretation case_order: weak_order sortCaseInsensitive
  unfolding sortCaseInsensitive_def [abs_def] by (rule weak_order_on) (rule text_order.weak_order_axioms)

interpretation date_order: weak_order sortDate
  unfolding sortDate_def [abs_def] by (rule weak_order_on) (rule text_order.weak_order_axioms)

interpretation ip_order: weak_order sortIP
  unfolding sortIP_def [abs_def]
  using weak_order_on [OF text_order.weak_order_axioms, of "\<lambda>a. makeStandardIPAddress (toLowerCase a)"] .

lemma sort_compare_order: "f \<noteq> Currency \<Longrightarrow> weak_order (sort_compare f)"
  by (cases f) (simp_all add: numeric_order.weak_order_axioms case_order.weak_order_axioms
      date_order.weak_order_axioms ip_order.weak_order_axioms)

section \<open>Clicking a heading\<close>

lemma moveRows_rows:
  assumes "row_id ` set (rows t) \<subseteq> row_id ` set rs"
  shows "rows (moveRows t rs) = stripe_rows False rs"
proof -
  have "filter (\<lambda>r. row_id r \<notin> row_id ` set rs) (rows t) = []"
    using assms by (auto simp: filter_empty_conv)
  then show ?thesis by (simp add: moveRows_def)
qed

lemma row_id_cache: "row_id (cache_column col r) = row_id r"
  by (simp add: cache_column_def)

lemma sorted_rows_ids: "mset (map row_id (sorted_rows col f t)) = mset (map row_id (rows t))"
proof -
  have "mset (sorted_rows col f t) = mset (map (cache_column col) (rows t))"
    by (simp add: sorted_rows_def array_sort_mset)
  then have "image_mset row_id (mset (sorted_rows col f t)) =
      image_mset row_id (mset (map (cache_column col) (rows t)))" by simp
  then show ?thesis by (simp add: image_mset.compositionality comp_def row_id_cache)
qed

lemma mset_ids_set: "mset (map row_id xs) = mset (map row_id ys) \<Longrightarrow> row_id ` set xs = row_id ` set ys"
  by (metis list.set_map set_mset_mset)

definition ascending :: "nat \<Rightarrow> sort_function \<Rightarrow> row list \<Rightarrow> bool" where
  "ascending col f rs \<longleftrightarrow>
     sorted_wrt (\<lambda>x y. \<not> sort_compare f y x < 0) (map (column_text col) rs)"

lemma sorted_rows_ascending:
  assumes "f \<noteq> Currency"
  shows "ascending col f (sorted_rows col f t)"
proof -
  have "weak_order (\<lambda>a b. sort_compare f (column_text col a) (column_text col b))"
    by (rule weak_order_on [OF sort_compare_order [OF assms]])
  from weak_order.array_sort_sorted [OF this] show ?thesis
    by (simp add: ascending_def sorted_rows_def sorted_wrt_map)
qed

lemma ascending_stripe: "ascending col f (stripe_rows b rs) = ascending col f rs"
  by (simp add: ascending_def stripe_rows_map)

text \<open>A click that sorts: the heading is not the one that was clicked last.\<close>

definition fresh_click :: "nat \<Rightarrow> table \<Rightarrow> sorter \<Rightarrow> bool" where
  "fresh_click col t s \<longleftrightarrow> \<not> (lastSortedTable s = Some (table_id t) \<and> sortColumnIndex s = Some col)"

definition full_column :: "nat \<Rightarrow> table \<Rightarrow> bool" where
  "full_column col t \<longleftrightarrow> 1 < length (rows t) \<and> col < length (arrows t) \<and>
     (\<forall>r \<in> set (rows t). col < length (cells r))"

lemma sample_text_full:
  "\<forall>r \<in> set rs. col < length (cells r) \<Longrightarrow> \<exists>itm. sample_text col rs = Some itm"
  by (induction rs) (auto simp: cell_text_def)

definition column_sort :: "nat \<Rightarrow> table \<Rightarrow> sort_function" where
  "column_sort col t = determineSortFunction (the (sample_text col (rows t)))"

lemma fresh_click_result:
  assumes "fresh_click col t s" "full_column col t"
  shows "headingClicked col (t, s) =
    ((show_arrow col (t\<lparr>rows := stripe_rows False (sorted_rows col (column_sort col t) t)\<rparr>),
      s\<lparr>sortColumnIndex := Some col,
        newRows := stripe_rows False (sorted_rows col (column_sort col t) t),
        lastSortedTable := Some (table_id t)\<rparr>), False)"
proof -
  from assms(2) obtain itm where itm: "sample_text col (rows t) = Some itm"
    using sample_text_full unfolding full_column_def by blast
  have "\<not> (\<exists>r \<in> set (rows t). cell_text col r = None)"
    using assms(2) by (auto simp: full_column_def cell_text_def)
  moreover have "moveRows t (sorted_rows col f t) = t\<lparr>rows := stripe_rows False (sorted_rows col f t)\<rparr>" for f
    using moveRows_rows [of t "sorted_rows col f t"] mset_ids_set [OF sorted_rows_ids]
    by (simp add: moveRows_def)
  moreover have "(lastSortedTable s = Some (table_id t) \<and> sortColumnIndex s = Some col) = False"
    using assms(1) by (simp add: fresh_click_def)
  moreover have "\<not> length (rows t) \<le> 1" using assms(2) by (simp add: full_column_def)
  ultimately show ?thesis using itm
    by (simp only: headingClicked_def column_sort_def Let_def option.case option.sel if_False if_True
        prod.case simp_thms)
qed

text \<open>
  C21. A first click on the heading of a column that every row has sorts the table: the rows
  are the same, their texts ascend in the order the code chose for the column, and of all
  headings only the clicked one shows an arrow. (Prices are excepted, see
  \<open>currency_is_no_order\<close>.)
\<close>

theorem click_sorts_table:
  assumes "fresh_click col t s" "full_column col t" "column_sort col t \<noteq> Currency"
  shows "\<exists>t' s'. headingClicked col (t, s) = ((t', s'), False) \<and>
    mset (map row_id (rows t')) = mset (map row_id (rows t)) \<and>
    ascending col (column_sort col t) (rows t') \<and>
    arrows t' = (map (\<lambda>a. Plain) (arrows t))[col := next_arrow (arrows t ! col)]"
proof -
  let ?rs = "sorted_rows col (column_sort col t) t"
  have "mset (map row_id (stripe_rows False ?rs)) = mset (map row_id (rows t))"
    by (simp only: stripe_rows_map sorted_rows_ids)
  moreover have "ascending col (column_sort col t) (stripe_rows False ?rs)"
    by (simp add: ascending_stripe sorted_rows_ascending assms(3))
  ultimately show ?thesis
    using fresh_click_result [OF assms(1,2)] assms(2) by (simp add: show_arrow_def full_column_def)
qed

section \<open>Clicking again\<close>

lemma cells_length_stripe:
  "map (\<lambda>r. length (cells r)) (stripe_rows b rs) = map (\<lambda>r. length (cells r)) rs"
  by (induction b rs rule: stripe_rows.induct) (simp_all add: doStripe_def)

lemma full_column_lengths:
  "full_column col t \<longleftrightarrow> 1 < length (map (\<lambda>r. length (cells r)) (rows t)) \<and> col < length (arrows t) \<and>
     (\<forall>n \<in> set (map (\<lambda>r. length (cells r)) (rows t)). col < n)"
  by (simp add: full_column_def)

lemma again_click_result:
  assumes "\<not> fresh_click col t s" "full_column col t"
    and "mset (map row_id (newRows s)) = mset (map row_id (rows t))"
  shows "headingClicked col (t, s) =
    ((show_arrow col (t\<lparr>rows := stripe_rows False (rev (newRows s))\<rparr>),
      s\<lparr>sortColumnIndex := Some col, newRows := stripe_rows False (rev (newRows s)),
        lastSortedTable := Some (table_id t)\<rparr>), False)"
proof -
  from assms(2) obtain itm where itm: "sample_text col (rows t) = Some itm"
    using sample_text_full unfolding full_column_def by blast
  have "moveRows t (rev (newRows s)) = t\<lparr>rows := stripe_rows False (rev (newRows s))\<rparr>"
    using moveRows_rows [of t "rev (newRows s)"] mset_ids_set [OF assms(3)]
    by (simp add: moveRows_def)
  then show ?thesis using assms itm
    by (simp add: headingClicked_def fresh_click_def full_column_def Let_def)
qed

lemma sorted_rows_length: "length (sorted_rows col f t) = length (rows t)"
  using arg_cong [OF sorted_rows_ids, of size col f t] by simp

lemma sorted_rows_full:
  assumes "full_column col t"
  shows "\<forall>r \<in> set (sorted_rows col f t). col < length (cells r)"
proof -
  have "set (sorted_rows col f t) = set (map (cache_column col) (rows t))"
    using array_sort_mset unfolding sorted_rows_def by (metis set_mset_mset)
  then show ?thesis using assms by (auto simp: full_column_def cache_column_def)
qed

text \<open>
  A second click on the same heading reverses the rows, and the arrow turns from
  ascending to descending.
\<close>

theorem second_click_reverses:
  assumes "fresh_click col t s" "full_column col t" "arrows t ! col = Plain"
  shows "\<exists>t1 s1 t2 s2. headingClicked col (t, s) = ((t1, s1), False) \<and>
    headingClicked col (t1, s1) = ((t2, s2), False) \<and>
    map row_id (rows t2) = rev (map row_id (rows t1)) \<and>
    arrows t1 ! col = Ascending \<and> arrows t2 ! col = Descending"
proof -
  define rs where "rs = stripe_rows False (sorted_rows col (column_sort col t) t)"
  define t1 where "t1 = show_arrow col (t\<lparr>rows := rs\<rparr>)"
  define s1 where "s1 = s\<lparr>sortColumnIndex := Some col, newRows := rs, lastSortedTable := Some (table_id t)\<rparr>"
  have 1: "headingClicked col (t, s) = ((t1, s1), False)"
    using fresh_click_result [OF assms(1,2)] by (simp add: t1_def s1_def rs_def)
  have "length rs = length (rows t)" by (simp add: rs_def stripe_rows_map sorted_rows_length)
  moreover have "\<forall>n \<in> set (map (\<lambda>r. length (cells r)) rs). col < n"
    using sorted_rows_full [OF assms(2)] by (simp add: rs_def cells_length_stripe)
  ultimately have full: "full_column col t1"
    using assms(2) unfolding full_column_lengths by (simp add: t1_def show_arrow_def)
  have "\<not> fresh_click col t1 s1" by (simp add: fresh_click_def t1_def s1_def show_arrow_def)
  from again_click_result [OF this full] obtain t2 s2 where
    2: "headingClicked col (t1, s1) = ((t2, s2), False)"
    "t2 = show_arrow col (t1\<lparr>rows := stripe_rows False (rev (newRows s1))\<rparr>)"
    by (simp add: t1_def s1_def show_arrow_def)
  have "map row_id (rows t2) = rev (map row_id (rows t1))"
    by (simp add: 2(2) show_arrow_def stripe_rows_map s1_def t1_def rev_map)
  moreover have "arrows t1 ! col = Ascending" "arrows t2 ! col = Descending"
    using assms(2,3) by (simp_all add: 2(2) t1_def show_arrow_def full_column_def next_arrow_def)
  ultimately show ?thesis using 1 2(1) by blast
qed

section \<open>Two tables\<close>

text \<open>A column whose texts are all of one kind.\<close>

definition one_kind :: "nat \<Rightarrow> sort_function \<Rightarrow> row list \<Rightarrow> bool" where
  "one_kind col f rs \<longleftrightarrow>
     (\<forall>r \<in> set rs. col < length (cells r) \<and> determineSortFunction (column_text col r) = f)"

lemma one_kind_sample:
  "one_kind col f rs \<Longrightarrow> rs \<noteq> [] \<Longrightarrow>
     \<exists>itm. sample_text col rs = Some itm \<and> determineSortFunction itm = f"
proof (induction rs)
  case (Cons r rs)
  then have t: "cell_text col r = Some (column_text col r)" "determineSortFunction (column_text col r) = f"
    by (auto simp: one_kind_def cell_text_def column_text_def split: if_splits)
  show ?case
  proof (cases "column_text col r = [] \<and> rs \<noteq> []")
    case True
    with Cons show ?thesis using t by (auto simp: one_kind_def)
  next
    case False
    with t show ?thesis by (cases "column_text col r = []") auto
  qed
qed simp

lemma column_sort_kind: "one_kind col f (rows t) \<Longrightarrow> rows t \<noteq> [] \<Longrightarrow> column_sort col t = f"
  using one_kind_sample [of col f "rows t"] by (auto simp: column_sort_def)

lemma one_kind_maps:
  "one_kind col f rs \<longleftrightarrow> (\<forall>n \<in> set (map (\<lambda>r. length (cells r)) rs). col < n) \<and>
     (\<forall>x \<in> set (map (column_text col) rs). determineSortFunction x = f)"
  by (auto simp: one_kind_def)

lemma one_kind_sorted:
  assumes "one_kind col f (rows t)"
  shows "one_kind col f (stripe_rows b (sorted_rows col g t))"
proof -
  have "set (sorted_rows col g t) = set (map (cache_column col) (rows t))"
    using array_sort_mset unfolding sorted_rows_def by (metis set_mset_mset)
  moreover have "col < length (cells (cache_column col r)) \<longleftrightarrow> col < length (cells r)" for r
    by (simp add: cache_column_def)
  ultimately have "one_kind col f (sorted_rows col g t)"
    using assms by (auto simp: one_kind_def column_text_cache)
  then show ?thesis unfolding one_kind_maps by (simp only: stripe_rows_map cells_length_stripe)
qed

text \<open>
  The arrow is wrong with two sortable tables on a page: a click on a heading of the
  first, one on the second and another one on the first leave the first table sorted
  upwards under an arrow that says downwards.
\<close>

theorem arrow_wrong_with_two_tables:
  assumes "fresh_click col t s" "full_column col t" "full_column col u" "table_id t \<noteq> table_id u"
    and "arrows t ! col = Plain" "one_kind col f (rows t)" "f \<noteq> Currency"
  shows "\<exists>t1 s1 u1 s2 t2 s3. headingClicked col (t, s) = ((t1, s1), False) \<and>
    headingClicked col (u, s1) = ((u1, s2), False) \<and> headingClicked col (t1, s2) = ((t2, s3), False) \<and>
    ascending col f (rows t2) \<and> arrows t2 ! col = Descending"
proof -
  define rs where "rs = stripe_rows False (sorted_rows col (column_sort col t) t)"
  define t1 where "t1 = show_arrow col (t\<lparr>rows := rs\<rparr>)"
  define s1 where "s1 = s\<lparr>sortColumnIndex := Some col, newRows := rs, lastSortedTable := Some (table_id t)\<rparr>"
  have 1: "headingClicked col (t, s) = ((t1, s1), False)"
    using fresh_click_result [OF assms(1,2)] by (simp add: t1_def s1_def rs_def)
  have "length rs = length (rows t)" by (simp add: rs_def stripe_rows_map sorted_rows_length)
  moreover have "\<forall>n \<in> set (map (\<lambda>r. length (cells r)) rs). col < n"
    using sorted_rows_full [OF assms(2)] by (simp add: rs_def cells_length_stripe)
  ultimately have full: "full_column col t1"
    using assms(2) unfolding full_column_lengths by (simp add: t1_def show_arrow_def)
  have "fresh_click col u s1" using assms(4) by (simp add: fresh_click_def s1_def)
  from fresh_click_result [OF this assms(3)] obtain u1 s2 where
    2: "headingClicked col (u, s1) = ((u1, s2), False)" "lastSortedTable s2 = Some (table_id u)" by simp
  have "fresh_click col t1 s2"
    using 2(2) assms(4) by (simp add: fresh_click_def t1_def show_arrow_def)
  from fresh_click_result [OF this full] obtain t2 s3 where
    3: "headingClicked col (t1, s2) = ((t2, s3), False)"
    "t2 = show_arrow col (t1\<lparr>rows := stripe_rows False (sorted_rows col (column_sort col t1) t1)\<rparr>)" by simp
  have "rows t1 = rs" "rs \<noteq> []"
    using \<open>length rs = length (rows t)\<close> assms(2) by (auto simp: t1_def show_arrow_def full_column_def)
  then have "column_sort col t1 = f"
    using one_kind_sorted [OF assms(6)] by (intro column_sort_kind) (auto simp: rs_def)
  then have "ascending col f (rows t2)"
    using assms(7) by (simp add: 3(2) show_arrow_def ascending_stripe sorted_rows_ascending)
  moreover have "arrows t2 ! col = Descending"
    using assms(2,5) by (simp add: 3(2) t1_def show_arrow_def full_column_def next_arrow_def)
  ultimately show ?thesis using 1 2(1) 3(1) by blast
qed

section \<open>Numbers of fixed width\<close>

lemma lex_base10:
  fixes a b c d :: nat
  assumes "b < 10" "d < 10"
  shows "a < c \<or> a = c \<and> b < d \<longleftrightarrow> a * 10 + b < c * 10 + d"
  using assms by linarith

fun fixed :: "nat \<Rightarrow> nat \<Rightarrow> jsstring" where
  "fixed 0 n = []"
| "fixed (Suc w) n = fixed w (n div 10) @ [48 + n mod 10]"

lemma length_fixed [simp]: "length (fixed w n) = w"
  by (induction w arbitrary: n) auto

lemma str_less_append:
  "length p = length q \<Longrightarrow> str_less (p @ s) (q @ t) \<longleftrightarrow> str_less p q \<or> p = q \<and> str_less s t"
  by (induction p q rule: list_induct2) auto

lemma fixed_inject: "m < 10 ^ w \<Longrightarrow> n < 10 ^ w \<Longrightarrow> fixed w m = fixed w n \<longleftrightarrow> m = n"
proof (induction w arbitrary: m n)
  case (Suc w)
  have "m div 10 < 10 ^ w" "n div 10 < 10 ^ w"
    using Suc.prems by (simp_all add: less_mult_imp_div_less mult.commute)
  with Suc.IH have "fixed w (m div 10) = fixed w (n div 10) \<longleftrightarrow> m div 10 = n div 10" by blast
  then show ?case by simp (metis div_mult_mod_eq)
qed simp

lemma str_less_fixed:
  "m < 10 ^ w \<Longrightarrow> n < 10 ^ w \<Longrightarrow> str_less (fixed w m) (fixed w n) \<longleftrightarrow> m < n"
proof (induction w arbitrary: m n)
  case (Suc w)
  have d: "m div 10 < 10 ^ w" "n div 10 < 10 ^ w"
    using Suc.prems by (simp_all add: less_mult_imp_div_less mult.commute)
  have "str_less (fixed (Suc w) m) (fixed (Suc w) n) \<longleftrightarrow>
      m div 10 < n div 10 \<or> m div 10 = n div 10 \<and> m mod 10 < n mod 10"
    using Suc.IH [OF d] fixed_inject [OF d] by (simp add: str_less_append)
  also have "\<dots> \<longleftrightarrow> m < n"
    using lex_base10 [of "m mod 10" "n mod 10" "m div 10" "n div 10"] by simp
  finally show ?case .
qed simp

lemma fixed_digits: "c \<in> set (fixed w n) \<Longrightarrow> char_digit c"
  by (induction w arbitrary: n) (auto simp: char_digit_def)

section \<open>Dates\<close>

text \<open>A date as a cell shows it, with four or two digits of the year.\<close>

datatype date = LongDate nat nat nat | ShortDate nat nat nat

fun date_ok :: "date \<Rightarrow> bool" where
  "date_ok (LongDate d m y) = (d < 100 \<and> m < 100 \<and> y < 10000)"
| "date_ok (ShortDate d m y) = (d < 100 \<and> m < 100 \<and> y < 100)"

fun date_text :: "date \<Rightarrow> jsstring" where
  "date_text (LongDate d m y) = fixed 2 d @ [47] @ fixed 2 m @ [47] @ fixed 4 y"
| "date_text (ShortDate d m y) = fixed 2 d @ [47] @ fixed 2 m @ [47] @ fixed 2 y"

fun date_year :: "date \<Rightarrow> nat" where
  "date_year (LongDate d m y) = y"
| "date_year (ShortDate d m y) = (if y < 50 then 2000 + y else 1900 + y)"

fun date_month :: "date \<Rightarrow> nat" where
  "date_month (LongDate d m y) = m"
| "date_month (ShortDate d m y) = m"

fun date_day :: "date \<Rightarrow> nat" where
  "date_day (LongDate d m y) = d"
| "date_day (ShortDate d m y) = d"

lemma fixed_2: "fixed 2 n = [48 + n div 10 mod 10, 48 + n mod 10]"
  by (simp add: numeral_2_eq_2)

lemma parseInt_fixed_2:
  assumes "n < 100"
  shows "parseInt (fixed 2 n) = Some (int n)"
proof -
  define a b where "a = n div 10 mod 10" and "b = n mod 10"
  have ab: "a < 10" "b < 10" "n = a * 10 + b" using assms by (auto simp: a_def b_def)
  have "is_digit 10 (48 + a)" "is_digit 10 (48 + b)" using ab by (auto simp: is_digit_def digit_of_def)
  moreover have "\<not> is_space (48 + a)" using ab by (simp add: is_space_def)
  moreover have "take 2 [48 + a, 48 + b] \<noteq> js ''0x''" "take 2 [48 + a, 48 + b] \<noteq> js ''0X''"
    using ab by (simp_all add: js_def)
  moreover have "digits_value 10 [48 + a, 48 + b] = n"
    using ab by (simp add: digits_value_def digit_of_def)
  ultimately show ?thesis
    using ab(1) by (simp add: fixed_2 parseInt_def parse_unsigned_def Let_def flip: a_def b_def)
qed

lemma fixed_4: "fixed 4 n = fixed 2 (n div 100) @ fixed 2 n"
proof -
  have "n div 10 div 10 = n div 100" using div_mult2_eq [of n 10 10] by simp
  then have "fixed (Suc (Suc w)) n = fixed w (n div 100) @ fixed 2 n" for w
    by (simp add: fixed_2)
  moreover have "4 = Suc (Suc 2)" by simp
  ultimately show ?thesis by metis
qed

lemma fixed_2_mod: "fixed 2 (100 * k + y) = fixed 2 y"
proof -
  have e: "100 * k + y = y + (10 * k) * 10" by simp
  have "(100 * k + y) mod 10 = y mod 10" unfolding e by (rule mod_mult_self1)
  moreover have "(100 * k + y) div 10 = y div 10 + k * 10"
    unfolding e by (subst div_mult_self1) simp_all
  ultimately show ?thesis by (simp only: fixed_2 mod_mult_self1)
qed

lemma fixed_4_century: "y < 100 \<Longrightarrow> fixed 4 (100 * k + y) = fixed 2 k @ fixed 2 y"
  by (simp add: fixed_4 fixed_2_mod)

lemma century_text: "js ''20'' = fixed 2 20" "js ''19'' = fixed 2 19"
  by (simp_all add: js_def fixed_2)

lemma full_year_fixed:
  assumes "y < 100"
  shows "full_year (fixed 2 y) = fixed 4 (if y < 50 then 2000 + y else 1900 + y)"
  using fixed_4_century [OF assms, of 20] fixed_4_century [OF assms, of 19]
  by (simp add: full_year_def parseInt_fixed_2 [OF assms] century_text)

lemma date_key_text:
  "date_ok p \<Longrightarrow> date_key (date_text p) = fixed 4 (date_year p) @ fixed 2 (date_month p) @ fixed 2 (date_day p)"
  by (cases p) (simp_all add: date_key_def substr_def full_year_fixed del: fixed.simps)

text \<open>
  C24. Dates, with two or four digits for the year, compare as the days they denote; years
  of two digits below 50 are of this century.
\<close>

theorem dates_sorted_chronologically:
  assumes "date_ok p" "date_ok q"
  shows "sortDate (date_text p) (date_text q) < 0 \<longleftrightarrow>
    date_year p < date_year q \<or> date_year p = date_year q \<and>
      (date_month p < date_month q \<or> date_month p = date_month q \<and> date_day p < date_day q)"
proof -
  have b: "date_year x < 10 ^ 4" "date_month x < 10 ^ 2" "date_day x < 10 ^ 2" if "date_ok x" for x
    using that by (cases x; simp)+
  show ?thesis
    using b [OF assms(1)] b [OF assms(2)]
    by (simp add: sortDate_def str_compare_less date_key_text assms str_less_append str_less_fixed fixed_inject
        del: fixed.simps)
qed

section \<open>Addresses\<close>

definition ip_text :: "nat list \<Rightarrow> jsstring" where
  "ip_text p = join_with [46] (map dec_string p)"

lemma pad3_dec: "n < 1000 \<Longrightarrow> pad3 (dec_string n) = fixed 3 n"
proof -
  assume n: "n < 1000"
  consider "n < 10" | "10 \<le> n" "n < 100" | "100 \<le> n" by linarith
  then show ?thesis
  proof cases
    case 1
    then show ?thesis
      by (simp add: pad3_def dec_string_base10 digits_base.simps numeral_3_eq_3 numeral_2_eq_2)
  next
    case 2
    then have "n div 10 < 10" "n div 10 div 10 = 0" by auto
    with 2 show ?thesis
      by (simp add: pad3_def dec_string_base10 digits_base.simps [of 10 n] digits_base.simps [of 10 "n div 10"]
          numeral_3_eq_3)
  next
    case 3
    then have "10 \<le> n div 10" "n div 10 div 10 < 10" using n by auto
    with 3 show ?thesis
      by (simp add: pad3_def dec_string_base10 digits_base.simps [of 10 n] digits_base.simps [of 10 "n div 10"]
          digits_base.simps [of 10 "n div 10 div 10"] numeral_3_eq_3)
  qed
qed

lemma toLowerCase_digits: "\<forall>c \<in> set s. c < 65 \<Longrightarrow> toLowerCase s = s"
  by (induction s) (auto simp: toLowerCase_def lower_char_def)

lemma standard_ip:
  assumes "p \<noteq> []" "\<forall>n \<in> set p. n < 1000"
  shows "makeStandardIPAddress (toLowerCase (ip_text p)) = join_with [46] (map (fixed 3) p)"
proof -
  have "set (ip_text p) \<subseteq> {46} \<union> \<Union> (set ` dec_string ` set p)"
    using join_with_set [of "[46]" "map dec_string p"] by (simp add: ip_text_def)
  then have "\<forall>c \<in> set (ip_text p). c < 65" using dec_string_set by fastforce
  then have "toLowerCase (ip_text p) = ip_text p" by (rule toLowerCase_digits)
  moreover have "46 \<notin> set (dec_string n)" for n using dec_string_set [of 46 n] by auto
  then have "split_on 46 (ip_text p) = map dec_string p"
    using assms(1) by (simp add: ip_text_def split_on_join)
  moreover have m: "map pad3 (map dec_string p) = map (fixed 3) p"
    using assms(2) by (simp add: pad3_dec)
  ultimately show ?thesis by (simp only: makeStandardIPAddress_def)
qed

lemma str_less_addresses:
  "length p = length q \<Longrightarrow> \<forall>n \<in> set p \<union> set q. n < 1000 \<Longrightarrow>
     str_less (join_with [46] (map (fixed 3) p)) (join_with [46] (map (fixed 3) q)) \<longleftrightarrow> str_less p q"
proof (induction p q rule: list_induct2)
  case (Cons m p n q)
  then have b: "m < 10 ^ 3" "n < 10 ^ 3" by auto
  show ?case
  proof (cases p)
    case Nil
    with Cons b show ?thesis by (simp add: str_less_fixed del: fixed.simps)
  next
    case (Cons m' p')
    with Cons.hyps obtain n' q' where "q = n' # q'" by (cases q) auto
    with Cons Cons.IH Cons.prems b show ?thesis
      by (simp add: str_less_append str_less_fixed fixed_inject del: fixed.simps)
  qed
qed simp

text \<open>
  Addresses compare as the sequences of their numbers, though the code compares texts.
\<close>

theorem addresses_sorted_numerically:
  assumes "p \<noteq> []" "length p = length q" "\<forall>n \<in> set p \<union> set q. n < 1000"
  shows "sortIP (ip_text p) (ip_text q) < 0 \<longleftrightarrow> str_less p q"
proof -
  have "q \<noteq> []" using assms by auto
  then show ?thesis
    using assms standard_ip [of p] standard_ip [of q] str_less_addresses [of p q]
    by (simp add: sortIP_def str_compare_less)
qed

theorem addresses_sorted_numerically_witness:
  "sortIP (ip_text [9, 10, 200, 1]) (ip_text [10, 2, 3, 4]) < 0"
  using addresses_sorted_numerically [of "[9, 10, 200, 1]" "[10, 2, 3, 4]"] by simp

theorem dates_sorted_chronologically_witness:
  "sortDate (date_text (ShortDate 31 12 99)) (date_text (LongDate 1 1 2000)) < 0"
  using dates_sorted_chronologically [of "ShortDate 31 12 99" "LongDate 1 1 2000"] by simp

section \<open>Prices\<close>

lemmas currency_eval = currency_value_def js_def char_digit_def parseFloat_def is_space_def
  parse_decimal_def Let_def decimal_value_def digits_value_def digit_of_def exponent_of_def scale10_def

lemma currency_values:
  "currency_value (js ''$2'') = Some 2" "currency_value (js ''$1'') = Some 1"
  "currency_value (js ''n/a'') = None"
  by (simp_all add: currency_eval)

theorem currency_is_no_order: "\<not> weak_order sortCurrency"
proof
  assume w: "weak_order sortCurrency"
  have "\<not> sortCurrency (js ''$1'') (js ''n/a'') < 0" "\<not> sortCurrency (js ''n/a'') (js ''$2'') < 0"
    "sortCurrency (js ''$1'') (js ''$2'') < 0"
    by (simp_all add: sortCurrency_def currency_values difference_def)
  with weak_order.negtrans [OF w] show False by blast
qed

section \<open>Stripes\<close>

definition plain_class :: "jsstring \<Rightarrow> bool" where
  "plain_class c \<longleftrightarrow> \<not> elementHasClass (removeClassFromElement c (js ''odd'')) (js ''odd'')"

lemma stripe_nth:
  "i < length rs \<Longrightarrow> stripe_rows b rs ! i = doStripe (b = even i) (rs ! i)"
proof (induction b rs arbitrary: i rule: stripe_rows.induct)
  case (2 b r rs)
  then show ?case by (cases i; cases b) auto
qed simp

text \<open>
  Every second row of a table carries the class \<open>odd\<close> after a pass over its rows.
\<close>

theorem stripes_alternate:
  assumes "i < length rs" "plain_class (className (rs ! i))"
  shows "elementHasClass (className (stripe_rows False rs ! i)) (js ''odd'') \<longleftrightarrow> odd i"
proof -
  have "elementHasClass (addClassToElement c (js ''odd'')) (js ''odd'')" for c
    by (rule addClass_has) (auto simp: js_def is_word_def)
  then show ?thesis using assms by (simp add: stripe_nth doStripe_def plain_class_def)
qed

text \<open>A class that only contains the word keeps a row from being striped.\<close>

theorem hyphenated_class_hides:
  "addClassToElement (js ''odd-one'') (js ''odd'') = js ''odd-one''"
  by code_simp

text \<open>Every other child of a heading is left outside its link.\<close>

theorem heading_children_left:
  "move_live 0 [x, y, z] [] = ([x, z], [y])"
  by (simp add: move_live.simps)

section \<open>Witnesses\<close>

definition example_row :: "nat \<Rightarrow> string \<Rightarrow> row" where
  "example_row i s = \<lparr>row_id = i, className = [], cells = [TextNode (js s)]\<rparr>"

definition example_table :: "string \<Rightarrow> table" where
  "example_table i = \<lparr>table_id = js i, tableClass = js ''sortable'', has_thead = True, headings = [],
     arrows = [Plain], rows = [example_row 1 ''b'', example_row 2 ''a'']\<rparr>"

definition example_sorter :: sorter where
  "example_sorter = \<lparr>lastAssignedId = 0, sortColumnIndex = None, newRows = [], lastSortedTable = None\<rparr>"

lemma example_kind: "determineSortFunction (js ''a'') = CaseInsensitive"
  "determineSortFunction (js ''b'') = CaseInsensitive"
  by code_simp+

lemma example_facts:
  "fresh_click 0 (example_table i) example_sorter" "full_column 0 (example_table i)"
  "one_kind 0 CaseInsensitive (rows (example_table i))" "arrows (example_table i) ! 0 = Plain"
  "table_id (example_table i) = js i"
  by (simp_all add: fresh_click_def full_column_def one_kind_def example_sorter_def example_table_def
      example_row_def column_text_def cell_text_def example_kind)

lemma example_column_sort: "column_sort 0 (example_table i) = CaseInsensitive"
proof (rule column_sort_kind)
  show "rows (example_table i) \<noteq> []" by (simp add: example_table_def)
qed (use example_facts(2,3) [of i] in \<open>simp_all add: full_column_def\<close>)

theorem click_sorts_table_witness:
  "\<exists>t' s'. headingClicked 0 (example_table ''t'', example_sorter) = ((t', s'), False) \<and>
     ascending 0 CaseInsensitive (rows t')"
  using click_sorts_table [OF example_facts(1,2), of "''t''"] by (auto simp: example_column_sort)

theorem second_click_reverses_witness:
  "\<exists>t1 s1 t2 s2. headingClicked 0 (example_table ''t'', example_sorter) = ((t1, s1), False) \<and>
    headingClicked 0 (t1, s1) = ((t2, s2), False) \<and> map row_id (rows t2) = rev (map row_id (rows t1))"
  using second_click_reverses [OF example_facts(1,2,4), of "''t''"] by blast

theorem arrow_wrong_with_two_tables_witness:
  "\<exists>t1 s1 u1 s2 t2 s3. headingClicked 0 (example_table ''t'', example_sorter) = ((t1, s1), False) \<and>
    headingClicked 0 (example_table ''u'', s1) = ((u1, s2), False) \<and>
    headingClicked 0 (t1, s2) = ((t2, s3), False) \<and>
    ascending 0 CaseInsensitive (rows t2) \<and> arrows t2 ! 0 = Descending"
proof -
  have "table_id (example_table ''t'') \<noteq> table_id (example_table ''u'')"
    by (simp add: example_facts(5) js_eq_iff)
  from arrow_wrong_with_two_tables [OF example_facts(1,2,2) this example_facts(4,3)]
  show ?thesis by simp
qed

theorem stripes_alternate_witness:
  "elementHasClass (className (stripe_rows False [example_row 1 ''a'', example_row 2 ''b''] ! 1)) (js ''odd'')"
proof -
  have "plain_class []" by code_simp
  then show ?thesis
    using stripes_alternate [of 1 "[example_row 1 ''a'', example_row 2 ''b'']"] by (simp add: example_row_def)
qed

end
