(* ===== verification/NumberText.thy ===== *)
theory NumberText
  imports JsNumber TableSort
begin

text \<open>
  Texts of numbers: \<open>toFixed\<close>, \<open>toPrecision\<close>, the conversion of a number to text, which
  writes the fewest digits that denote the number among the doubles, \<open>parseFloat\<close> with its
  result rounded to a double, \<open>parseInt\<close> to base 16, \<open>Math.round\<close> and \<open>Math.PI\<close>.
\<close>

definition math_round :: "rat \<Rightarrow> int" where
  "math_round x = \<lfloor>x + 1 / 2\<rfloor>"

definition Math_PI :: rat where
  "Math_PI = 884279719003555 / 2 ^ 48"

text \<open>The decimal digits of \<open>n\<close> with the point before the last \<open>f\<close> of them.\<close>

definition point_before :: "nat \<Rightarrow> jsstring \<Rightarrow> jsstring" where
  "point_before f m =
     (if f = 0 then m
      else let z = replicate (f + 1 - length m) 48 @ m
           in take (length z - f) z @ [46] @ drop (length z - f) z)"

definition to_fixed :: "nat \<Rightarrow> rat \<Rightarrow> jsstring" where
  "to_fixed f x =
     (let t = point_before f (dec_string (nat \<lfloor>\<bar>x\<bar> * 10 ^ f + 1 / 2\<rfloor>))
      in if x < 0 then 45 # t else t)"

text \<open>The number of digits before the point, for a positive number (negative for zeros behind it).\<close>

definition dec_exponent :: "rat \<Rightarrow> int" where
  "dec_exponent x =
     (case quotient_of x of (p, q) \<Rightarrow>
        let n = int (length (dec_string (nat p))) - int (length (dec_string (nat q)))
        in if x < 10 powi n then n else n + 1)"

definition to_precision :: "nat \<Rightarrow> rat \<Rightarrow> jsstring" where
  "to_precision k x =
     (if x = 0 then point_before (k - 1) (replicate k 48)
      else
        (let n = dec_exponent \<bar>x\<bar>; s = nat \<lfloor>\<bar>x\<bar> / (10::rat) powi (n - int k) + 1 / 2\<rfloor>;
             (s', n') = (if s = 10 ^ k then (s div 10, n + 1) else (s, n));
             ds = dec_string s';
             t = (if n' \<le> -6 \<or> n' > int k then
                    take 1 ds @ (if k = 1 then [] else 46 # drop 1 ds)
                      @ (if n' - 1 < 0 then js ''e-'' else js ''e+'') @ dec_string (nat \<bar>n' - 1\<bar>)
                  else if n' > 0 then point_before (k - nat n') ds
                  else js ''0.'' @ replicate (nat (- n')) 48 @ ds)
         in if x < 0 then 45 # t else t))"

fun shortest :: "nat \<Rightarrow> nat \<Rightarrow> rat \<Rightarrow> int \<Rightarrow> nat \<times> nat" where
  "shortest 0 k x n = (k, nat (math_round (x / (10::rat) powi (n - int k))))"
| "shortest (Suc fuel) k x n =
     (let s = math_round (x / (10::rat) powi (n - int k))
      in if double (of_int s * (10::rat) powi (n - int k)) = x then (k, nat s)
         else shortest fuel (Suc k) x n)"

definition strip_zeros :: "jsstring \<Rightarrow> jsstring" where
  "strip_zeros ds = rev (dropWhile (\<lambda>c. c = 48) (rev ds))"

definition positive_text :: "rat \<Rightarrow> jsstring" where
  "positive_text x =
     (case shortest 16 1 x (dec_exponent x) of (k0, s) \<Rightarrow>
        let n = dec_exponent x + int (length (dec_string s)) - int k0;
            ds = strip_zeros (dec_string s); k = int (length ds)
        in if k \<le> n \<and> n \<le> 21 then ds @ replicate (nat (n - k)) 48
           else if 0 < n \<and> n \<le> 21 then take (nat n) ds @ [46] @ drop (nat n) ds
           else if -6 < n \<and> n \<le> 0 then js ''0.'' @ replicate (nat (- n)) 48 @ ds
           else take 1 ds @ (if k = 1 then [] else 46 # drop 1 ds)
             @ (if n - 1 < 0 then js ''e-'' else js ''e+'') @ dec_string (nat \<bar>n - 1\<bar>))"

definition number_text :: "rat \<Rightarrow> jsstring" where
  "number_text x =
     (if x = 0 then js ''0'' else if x < 0 then 45 # positive_text (- x) else positive_text x)"

definition parse_float :: "jsstring \<Rightarrow> rat option" where
  "parse_float s = map_option double (parseFloat s)"

text \<open>\<open>parseInt\<close> of a text to base 16.\<close>

definition parse_hex_int :: "jsstring \<Rightarrow> int option" where
  "parse_hex_int s =
     (let t = dropWhile is_space s; neg = (take 1 t = [45]);
          u = (if take 1 t = [45] \<or> take 1 t = [43] then drop 1 t else t);
          v = (if take 2 u = js ''0x'' \<or> take 2 u = js ''0X'' then drop 2 u else u);
          ds = takeWhile (is_digit 16) v
      in if ds = [] then None
         else Some (if neg then - int (digits_value 16 ds) else int (digits_value 16 ds)))"

end
