(* ===== verification/MochiColor.thy ===== *)
theory MochiColor
  imports NumberText
begin

text \<open>
  The colours of \<open>MochiKit.Color\<close>, over a rounding \<open>fl\<close>: a colour is its four components,
  and the cached conversions of a colour object are recomputed, as the components never
  change. \<open>hsvToRGB\<close> leaves the components undefined for a hue outside the circle
  (\<open>None\<close>). The constructors from names, which look up a table, and from computed styles,
  which read the document, are left out.
\<close>

record rgb =
  red :: rat
  green :: rat
  blue :: rat
  alpha :: rat

record hsl =
  hue :: rat
  saturation :: rat
  lightness :: rat
  hsl_alpha :: rat

record hsv =
  hsv_hue :: rat
  hsv_saturation :: rat
  brightness :: rat
  hsv_alpha :: rat

text \<open>The components of a colour in a fixed order, for \<open>compareRGB\<close> and the library's orders.\<close>

definition components :: "rgb \<Rightarrow> rat list" where
  "components c = [red c, green c, blue c, alpha c]"

section \<open>Conversions\<close>

definition hslValue :: "(rat \<Rightarrow> rat) \<Rightarrow> rat \<Rightarrow> rat \<Rightarrow> rat \<Rightarrow> rat" where
  "hslValue fl n1 n2 h =
     (let k = (if h > 6 then fl (h - 6) else if h < 0 then fl (h + 6) else h)
      in if k < 1 then fl (n1 + fl (fl (n2 - n1) * k))
         else if k < 3 then n2
         else if k < 4 then fl (n1 + fl (fl (n2 - n1) * fl (4 - k)))
         else n1)"

definition hslToRGB :: "(rat \<Rightarrow> rat) \<Rightarrow> hsl \<Rightarrow> rgb" where
  "hslToRGB fl c =
     (let s = saturation c; l = lightness c
      in if s = 0 then \<lparr>red = l, green = l, blue = l, alpha = hsl_alpha c\<rparr>
         else
           (let m2 = (if l \<le> 1 / 2 then fl (l * fl (1 + s)) else fl (fl (l + s) - fl (l * s)));
                m1 = fl (fl (2 * l) - m2);
                h6 = fl (hue c * 6)
            in \<lparr>red = hslValue fl m1 m2 (fl (h6 + 2)), green = hslValue fl m1 m2 h6,
                blue = hslValue fl m1 m2 (fl (h6 - 2)), alpha = hsl_alpha c\<rparr>))"

text \<open>The hue of a colour with the greatest component \<open>M\<close> and the range \<open>d\<close>, from 0 to 1.\<close>

definition hue_of :: "(rat \<Rightarrow> rat) \<Rightarrow> rgb \<Rightarrow> rat \<Rightarrow> rat \<Rightarrow> rat" where
  "hue_of fl c M d =
     (let h = (if red c = M then fl (fl (green c - blue c) / d)
               else if green c = M then fl (2 + fl (fl (blue c - red c) / d))
               else fl (4 + fl (fl (red c - green c) / d)));
          h1 = fl (h / 6);
          h2 = (if h1 < 0 then fl (h1 + 1) else h1)
      in if h2 > 1 then fl (h2 - 1) else h2)"

definition rgbToHSL :: "(rat \<Rightarrow> rat) \<Rightarrow> rgb \<Rightarrow> hsl" where
  "rgbToHSL fl c =
     (let M = max (red c) (max (green c) (blue c)); m = min (red c) (min (green c) (blue c));
          l = fl (fl (M + m) / 2); d = fl (M - m)
      in if d = 0 then \<lparr>hue = 0, saturation = 0, lightness = l, hsl_alpha = alpha c\<rparr>
         else \<lparr>hue = hue_of fl c M d,
               saturation = (if l \<le> 1 / 2 then fl (d / fl (M + m)) else fl (d / fl (fl (2 - M) - m))),
               lightness = l, hsl_alpha = alpha c\<rparr>)"

definition hsvToRGB :: "(rat \<Rightarrow> rat) \<Rightarrow> hsv \<Rightarrow> rgb option" where
  "hsvToRGB fl c =
     (let s = hsv_saturation c; v = brightness c; col = (\<lambda>r g b. \<lparr>red = r, green = g, blue = b, alpha = hsv_alpha c\<rparr>)
      in if s = 0 then Some (col 0 0 0)
         else
           (let h6 = fl (hsv_hue c * 6); i = \<lfloor>h6\<rfloor>; f = fl (h6 - of_int i);
                p = fl (v * fl (1 - s)); q = fl (v * fl (1 - fl (s * f)));
                t = fl (v * fl (1 - fl (s * fl (1 - f))))
            in if i = 1 then Some (col q v p)
               else if i = 2 then Some (col p v t)
               else if i = 3 then Some (col p q v)
               else if i = 4 then Some (col t p v)
               else if i = 5 then Some (col v p q)
               else if i = 6 \<or> i = 0 then Some (col v t p)
               else None))"

definition rgbToHSV :: "(rat \<Rightarrow> rat) \<Rightarrow> rgb \<Rightarrow> hsv" where
  "rgbToHSV fl c =
     (let M = max (max (red c) (green c)) (blue c); m = min (min (red c) (green c)) (blue c);
          d = fl (M - m)
      in if m = M then \<lparr>hsv_hue = 0, hsv_saturation = 0, brightness = M, hsv_alpha = alpha c\<rparr>
         else \<lparr>hsv_hue = hue_of fl c M d, hsv_saturation = fl (d / M), brightness = M, hsv_alpha = alpha c\<rparr>)"

section \<open>Colours derived from a colour\<close>

definition colorWithAlpha :: "rgb \<Rightarrow> rat \<Rightarrow> rgb" where
  "colorWithAlpha c a = c\<lparr>alpha := a\<rparr>"

definition colorWithHue :: "(rat \<Rightarrow> rat) \<Rightarrow> rgb \<Rightarrow> rat \<Rightarrow> rgb" where
  "colorWithHue fl c h = hslToRGB fl ((rgbToHSL fl c)\<lparr>hue := h\<rparr>)"

definition colorWithSaturation :: "(rat \<Rightarrow> rat) \<Rightarrow> rgb \<Rightarrow> rat \<Rightarrow> rgb" where
  "colorWithSaturation fl c s = hslToRGB fl ((rgbToHSL fl c)\<lparr>saturation := s\<rparr>)"

definition colorWithLightness :: "(rat \<Rightarrow> rat) \<Rightarrow> rgb \<Rightarrow> rat \<Rightarrow> rgb" where
  "colorWithLightness fl c l = hslToRGB fl ((rgbToHSL fl c)\<lparr>lightness := l\<rparr>)"

definition darkerColorWithLevel :: "(rat \<Rightarrow> rat) \<Rightarrow> rgb \<Rightarrow> rat \<Rightarrow> rgb" where
  "darkerColorWithLevel fl c level =
     (let h = rgbToHSL fl c in hslToRGB fl (h\<lparr>lightness := max (fl (lightness h - level)) 0\<rparr>))"

definition lighterColorWithLevel :: "(rat \<Rightarrow> rat) \<Rightarrow> rgb \<Rightarrow> rat \<Rightarrow> rgb" where
  "lighterColorWithLevel fl c level =
     (let h = rgbToHSL fl c in hslToRGB fl (h\<lparr>lightness := min (fl (lightness h + level)) 1\<rparr>))"

definition blendedColor :: "(rat \<Rightarrow> rat) \<Rightarrow> rgb \<Rightarrow> rgb \<Rightarrow> rat option \<Rightarrow> rgb" where
  "blendedColor fl c d fraction =
     (let df = (case fraction of None \<Rightarrow> 1 / 2 | Some f \<Rightarrow> f); sf = fl (1 - df);
          mix = (\<lambda>x y. fl (fl (x * sf) + fl (y * df)))
      in \<lparr>red = mix (red c) (red d), green = mix (green c) (green d), blue = mix (blue c) (blue d),
          alpha = mix (alpha c) (alpha d)\<rparr>)"

definition compare_numbers :: "rat \<Rightarrow> rat \<Rightarrow> int" where
  "compare_numbers a b = (if a = b then 0 else if a < b then -1 else 1)"

fun compare_arrays :: "rat list \<Rightarrow> rat list \<Rightarrow> int" where
  "compare_arrays [] [] = 0"
| "compare_arrays [] (y # ys) = -1"
| "compare_arrays (x # xs) [] = 1"
| "compare_arrays (x # xs) (y # ys) =
     (let c = compare_numbers x y in if c \<noteq> 0 then c else compare_arrays xs ys)"

definition compareRGB :: "rgb \<Rightarrow> rgb \<Rightarrow> int" where
  "compareRGB c d = compare_arrays (components c) (components d)"

text \<open>
  \<open>isLight\<close> reads the property \<open>b\<close> of the HSL form, which has none: it compares the
  undefined value with a number.
\<close>

definition hsl_prop :: "hsl \<Rightarrow> string \<Rightarrow> rat option" where
  "hsl_prop c k =
     (if k = ''h'' then Some (hue c) else if k = ''s'' then Some (saturation c)
      else if k = ''l'' then Some (lightness c) else if k = ''a'' then Some (hsl_alpha c) else None)"

definition isLight :: "(rat \<Rightarrow> rat) \<Rightarrow> rgb \<Rightarrow> bool" where
  "isLight fl c = (case hsl_prop (rgbToHSL fl c) ''b'' of None \<Rightarrow> False | Some b \<Rightarrow> b > 1 / 2)"

definition isDark :: "(rat \<Rightarrow> rat) \<Rightarrow> rgb \<Rightarrow> bool" where
  "isDark fl c = (\<not> isLight fl c)"

section \<open>Colours and texts\<close>

definition clampColorComponent :: "(rat \<Rightarrow> rat) \<Rightarrow> rat \<Rightarrow> rat \<Rightarrow> rat" where
  "clampColorComponent fl v scale =
     (let w = fl (v * scale) in if w < 0 then 0 else if w > scale then scale else w)"

definition toColorPart :: "rat \<Rightarrow> jsstring" where
  "toColorPart num =
     (let n = nat (math_round num); t = js (show_base 16 n) in if n < 16 then 48 # t else t)"

definition toHexString :: "(rat \<Rightarrow> rat) \<Rightarrow> rgb \<Rightarrow> jsstring" where
  "toHexString fl c =
     35 # toColorPart (clampColorComponent fl (red c) 255)
       @ toColorPart (clampColorComponent fl (green c) 255)
       @ toColorPart (clampColorComponent fl (blue c) 255)"

definition toRGBString :: "(rat \<Rightarrow> rat) \<Rightarrow> rgb \<Rightarrow> jsstring" where
  "toRGBString fl c =
     (let part = (\<lambda>v. to_fixed 0 (clampColorComponent fl v 255));
          mid = join_with (js '','') [part (red c), part (green c), part (blue c)]
      in if alpha c \<noteq> 1 then js ''rgba('' @ mid @ js '','' @ number_text (alpha c) @ js '')''
         else js ''rgb('' @ mid @ js '')'')"

definition toHSLString :: "(rat \<Rightarrow> rat) \<Rightarrow> rgb \<Rightarrow> jsstring" where
  "toHSLString fl c =
     (let h = rgbToHSL fl c;
          mid = to_fixed 0 (clampColorComponent fl (hue h) 360) @ js '',''
            @ to_precision 4 (clampColorComponent fl (saturation h) 100) @ js ''%,''
            @ to_precision 4 (clampColorComponent fl (lightness h) 100) @ js ''%'';
          a = hsl_alpha h
      in if a \<ge> 1 then js ''hsl('' @ mid @ js '')''
         else js ''hsla('' @ mid @ js '','' @ number_text (if a \<le> 0 then 0 else a) @ js '')'')"

text \<open>
  A component that is no number makes the colour useless; the constructors then return
  \<open>None\<close>.
\<close>

definition from_components :: "rat option list \<Rightarrow> rgb option" where
  "from_components vs =
     (case vs of
        [Some r, Some g, Some b] \<Rightarrow> Some \<lparr>red = r, green = g, blue = b, alpha = 1\<rparr>
      | [Some r, Some g, Some b, Some a] \<Rightarrow> Some \<lparr>red = r, green = g, blue = b, alpha = a\<rparr>
      | _ \<Rightarrow> None)"

definition hex_component :: "(rat \<Rightarrow> rat) \<Rightarrow> jsstring \<Rightarrow> rat option" where
  "hex_component fl t = map_option (\<lambda>n. fl (of_int n / 255)) (parse_hex_int t)"

definition fromHexString :: "(rat \<Rightarrow> rat) \<Rightarrow> jsstring \<Rightarrow> rgb option" where
  "fromHexString fl s =
     (let t = (if take 1 s = [35] then drop 1 s else s)
      in from_components
           (if length t = 3 then map (\<lambda>i. hex_component fl (substr t i 1 @ substr t i 1)) [0, 1, 2]
            else map (\<lambda>i. hex_component fl (substr t i 2)) [0, 2, 4]))"

text \<open>
  A list of components in a functional notation: the text between the parentheses, split at
  commas with the spaces around them; a component is a percentage, an angle in degrees or
  radians, or a number to be scaled.
\<close>

fun find_from :: "nat \<Rightarrow> nat \<Rightarrow> jsstring \<Rightarrow> int" where
  "find_from c i s =
     (let r = index_of c (drop i s) in if r < 0 then -1 else r + int (min i (length s)))"

definition color_component :: "(rat \<Rightarrow> rat) \<Rightarrow> rat \<Rightarrow> jsstring \<Rightarrow> rat option" where
  "color_component fl scale c =
     (let suffix = drop (length c - 3) c
      in if c \<noteq> [] \<and> last c = 37 then
           map_option (\<lambda>x. fl (fl (1 / 100) * x)) (parse_float (take (length c - 1) c))
         else if suffix = js ''deg'' then map_option (\<lambda>x. fl (x / 360)) (parse_float c)
         else if suffix = js ''rad'' then map_option (\<lambda>x. fl (x / fl (Math_PI * 2))) (parse_float c)
         else map_option (\<lambda>x. fl (scale * x)) (parse_float c))"

definition color_arguments :: "jsstring \<Rightarrow> jsstring \<Rightarrow> jsstring list" where
  "color_arguments pre s =
     (let inner = (if take (length pre) s = pre
            then substring s (Some (find_from 40 3 s + 1)) (Some (int (length s) - 1)) else s);
          parts = split_on 44 inner; n = length parts
      in map (\<lambda>(i, t). let u = (if i > 0 then dropWhile is_space t else t)
              in if i + 1 < n then rev (dropWhile is_space (rev u)) else u)
           (zip [0..<n] parts))"

definition fromRGBString :: "(rat \<Rightarrow> rat) \<Rightarrow> jsstring \<Rightarrow> rgb option" where
  "fromRGBString fl s =
     (let args = color_arguments (js ''rgb'') s; byte = fl (1 / 255)
      in from_components (map (\<lambda>(k, t). color_component fl k t) (zip [byte, byte, byte, 1] args)))"

definition fromHSLString :: "(rat \<Rightarrow> rat) \<Rightarrow> jsstring \<Rightarrow> rgb option" where
  "fromHSLString fl s =
     (let args = color_arguments (js ''hsl'') s; cent = fl (1 / 100)
      in map_option (\<lambda>c. hslToRGB fl \<lparr>hue = red c, saturation = green c, lightness = blue c, hsl_alpha = alpha c\<rparr>)
           (from_components (map (\<lambda>(k, t). color_component fl k t) (zip [fl (1 / 360), cent, cent, 1] args))))"

section \<open>Round trips in exact arithmetic\<close>

abbreviation (input) "ex \<equiv> (\<lambda>x::rat. x)"

definition valid_color :: "rgb \<Rightarrow> bool" where
  "valid_color c \<longleftrightarrow> (\<forall>x \<in> set (components c). 0 \<le> x \<and> x \<le> 1)"

text \<open>
  The hue in sixths of the circle, by which component is the greatest; a red colour that
  turns to violet is counted backwards from 6.
\<close>

definition sixths :: "rgb \<Rightarrow> rat \<Rightarrow> rat \<Rightarrow> rat" where
  "sixths c M d =
     (if red c = M then (if green c < blue c then 6 + (green c - blue c) / d else (green c - blue c) / d)
      else if green c = M then 2 + (blue c - red c) / d else 4 + (red c - green c) / d)"

lemma hue_sixths:
  assumes "0 < d" "\<bar>green c - blue c\<bar> \<le> d" "\<bar>blue c - red c\<bar> \<le> d" "\<bar>red c - green c\<bar> \<le> d"
  shows "hue_of ex c M d * 6 = sixths c M d"
proof -
  have q: "-1 \<le> x / d \<and> x / d \<le> 1" if "\<bar>x\<bar> \<le> d" for x
    using that assms(1) by (simp add: abs_le_iff pos_divide_le_eq pos_le_divide_eq)
  have s: "(green c - blue c) / d < 0 \<longleftrightarrow> green c < blue c" using assms(1) by (simp add: pos_divide_less_eq)
  define t1 t2 t3 where t: "t1 = (green c - blue c) / d" "t2 = (blue c - red c) / d" "t3 = (red c - green c) / d"
  have r: "-1 \<le> t1" "t1 \<le> 1" "-1 \<le> t2" "t2 \<le> 1" "-1 \<le> t3" "t3 \<le> 1"
    using q assms(2-4) by (simp_all add: t)
  have "green c < blue c \<longleftrightarrow> t1 < 0" using s by (simp add: t)
  then show ?thesis
    unfolding hue_of_def sixths_def Let_def t [symmetric] using r by (auto split: if_splits)
qed

text \<open>What \<open>hslValue\<close> yields in each sixth, for the least component \<open>m\<close> and the range \<open>d\<close>.\<close>

lemma hslValue_low: "0 \<le> k \<Longrightarrow> k \<le> 1 \<Longrightarrow> hslValue ex m (m + d) k = m + d * k"
  by (cases "k = 1") (simp_all add: hslValue_def)

lemma hslValue_full: "1 \<le> k \<Longrightarrow> k \<le> 3 \<Longrightarrow> hslValue ex m (m + d) k = m + d"
  by (cases "k = 3") (simp_all add: hslValue_def)

lemma hslValue_down: "3 \<le> k \<Longrightarrow> k \<le> 4 \<Longrightarrow> hslValue ex m (m + d) k = m + d * (4 - k)"
  by (cases "k = 4") (simp_all add: hslValue_def)

lemma hslValue_none: "4 \<le> k \<Longrightarrow> k \<le> 6 \<Longrightarrow> hslValue ex m (m + d) k = m"
  by (simp add: hslValue_def)

lemma hslValue_wrap:
  "6 < k \<Longrightarrow> k \<le> 12 \<Longrightarrow> hslValue ex m (m + d) k = hslValue ex m (m + d) (k - 6)"
  "-6 \<le> k \<Longrightarrow> k < 0 \<Longrightarrow> hslValue ex m (m + d) k = hslValue ex m (m + d) (k + 6)"
  by (simp_all add: hslValue_def)

lemmas hslValues = hslValue_low hslValue_full hslValue_down hslValue_none


text \<open>The six sectors of the circle: the third component lies \<open>d * t\<close> above the least.\<close>

lemma sixths_sectors:
  fixes c :: rgb and m d :: rat
  defines "k \<equiv> sixths c (m + d) d"
  assumes d: "0 < d" and min: "m = min (red c) (min (green c) (blue c))"
    and max: "m + d = max (red c) (max (green c) (blue c))"
  obtains (1) t where "red c = m + d" "green c = m + d * t" "blue c = m" "k = t" "0 \<le> t" "t \<le> 1"
  | (2) t where "red c = m + d" "green c = m" "blue c = m + d * t" "k = 6 - t" "0 < t" "t \<le> 1"
  | (3) t where "red c = m" "green c = m + d" "blue c = m + d * t" "k = 2 + t" "0 \<le> t" "t \<le> 1"
  | (4) t where "red c = m + d * t" "green c = m + d" "blue c = m" "k = 2 - t" "0 < t" "t < 1"
  | (5) t where "red c = m + d * t" "green c = m" "blue c = m + d" "k = 4 + t" "0 \<le> t" "t < 1"
  | (6) t where "red c = m" "green c = m + d * t" "blue c = m + d" "k = 4 - t" "0 < t" "t < 1"
proof -
  have b: "m \<le> red c" "red c \<le> m + d" "m \<le> green c" "green c \<le> m + d" "m \<le> blue c" "blue c \<le> m + d"
    unfolding max using min by simp_all
  have frac: "\<exists>t. (f c - m) / d = t \<and> (m - f c) / d = - t \<and> f c = m + d * t \<and> (f c < m + d \<longrightarrow> t < 1) \<and>
      (m < f c \<longrightarrow> 0 < t) \<and> 0 \<le> t \<and> t \<le> 1"
    if "m \<le> f c" "f c \<le> m + d" for f :: "rgb \<Rightarrow> rat"
  proof -
    have "(m - f c) / d = - ((f c - m) / d)" by (metis minus_diff_eq minus_divide_left)
    then show ?thesis using that d by (simp add: pos_divide_le_eq pos_divide_less_eq)
  qed
  consider (s1) "red c = m + d" "blue c = m" "m \<le> green c" | (s2) "red c = m + d" "green c = m" "m < blue c"
    | (s3) "red c \<noteq> m + d" "green c = m + d" "red c = m" | (s4) "red c < m + d" "green c = m + d" "blue c = m" "m < red c"
    | (s5) "red c < m + d" "green c \<noteq> m + d" "blue c = m + d" "green c = m"
    | (s6) "red c \<noteq> m + d" "green c < m + d" "blue c = m + d" "red c = m" "m < green c"
    using min max b d by (metis linorder_not_less min_def max_def order_le_less)
  then show ?thesis
  proof cases
    case s1
    obtain t where t: "(green c - m) / d = t" "(m - green c) / d = - t" "green c = m + d * t" "0 \<le> t" "t \<le> 1"
      "green c < m + d \<Longrightarrow> t < 1" "m < green c \<Longrightarrow> 0 < t"
      using frac [of green] b(3,4) by blast
    have "\<not> green c < blue c" using s1 by simp
    then have "k = t" using s1(1,2) t(1) by (simp add: k_def sixths_def)
    then show ?thesis using s1 t by (intro 1 [of t]) auto
  next
    case s2
    obtain t where t: "(blue c - m) / d = t" "(m - blue c) / d = - t" "blue c = m + d * t" "0 \<le> t" "t \<le> 1"
      "blue c < m + d \<Longrightarrow> t < 1" "m < blue c \<Longrightarrow> 0 < t"
      using frac [of blue] b(5,6) by blast
    show ?thesis by (rule 2 [of t]) (use s2 t d b in \<open>auto simp: k_def sixths_def\<close>)
  next
    case s3
    obtain t where t: "(blue c - m) / d = t" "(m - blue c) / d = - t" "blue c = m + d * t" "0 \<le> t" "t \<le> 1"
      "blue c < m + d \<Longrightarrow> t < 1" "m < blue c \<Longrightarrow> 0 < t"
      using frac [of blue] b(5,6) by blast
    show ?thesis by (rule 3 [of t]) (use s3 t d b in \<open>auto simp: k_def sixths_def\<close>)
  next
    case s4
    obtain t where t: "(red c - m) / d = t" "(m - red c) / d = - t" "red c = m + d * t" "0 \<le> t" "t \<le> 1"
      "red c < m + d \<Longrightarrow> t < 1" "m < red c \<Longrightarrow> 0 < t"
      using frac [of red] b(1,2) by blast
    show ?thesis by (rule 4 [of t]) (use s4 t d b in \<open>auto simp: k_def sixths_def\<close>)
  next
    case s5
    obtain t where t: "(red c - m) / d = t" "(m - red c) / d = - t" "red c = m + d * t" "0 \<le> t" "t \<le> 1"
      "red c < m + d \<Longrightarrow> t < 1" "m < red c \<Longrightarrow> 0 < t"
      using frac [of red] b(1,2) by blast
    show ?thesis by (rule 5 [of t]) (use s5 t d b in \<open>auto simp: k_def sixths_def\<close>)
  next
    case s6
    obtain t where t: "(green c - m) / d = t" "(m - green c) / d = - t" "green c = m + d * t" "0 \<le> t" "t \<le> 1"
      "green c < m + d \<Longrightarrow> t < 1" "m < green c \<Longrightarrow> 0 < t"
      using frac [of green] b(3,4) by blast
    have "k = 4 - t" using s6 t(2) by (simp add: k_def sixths_def)
    then show ?thesis using s6 t by (intro 6 [of t]) auto
  qed
qed

text \<open>The three components come back from the hue, the least component and the range.\<close>

lemma hsl_components:
  fixes c :: rgb and m d :: rat
  defines "k \<equiv> sixths c (m + d) d"
  assumes d: "0 < d" and min: "m = min (red c) (min (green c) (blue c))"
    and max: "m + d = max (red c) (max (green c) (blue c))"
  shows "hslValue ex m (m + d) (k + 2) = red c \<and> hslValue ex m (m + d) k = green c \<and>
    hslValue ex m (m + d) (k - 2) = blue c"
  using sixths_sectors [OF d min max]
proof cases
  case (5 t)
  then show ?thesis by (cases "t = 0") (simp_all add: hslValues hslValue_wrap k_def)
qed (simp_all add: hslValues hslValue_wrap k_def)

lemma spread_abs:
  fixes c :: rgb
  defines "d \<equiv> max (red c) (max (green c) (blue c)) - min (red c) (min (green c) (blue c))"
  shows "\<bar>green c - blue c\<bar> \<le> d" "\<bar>blue c - red c\<bar> \<le> d" "\<bar>red c - green c\<bar> \<le> d"
  unfolding d_def by (auto simp: abs_le_iff min_def max_def)

text \<open>The HSL form of a colour that is not grey.\<close>

lemma rgbToHSL_spread:
  fixes c :: rgb
  defines "M \<equiv> max (red c) (max (green c) (blue c))" and "m \<equiv> min (red c) (min (green c) (blue c))"
  assumes "0 < M - m"
  shows "hue (rgbToHSL ex c) * 6 = sixths c M (M - m)" "lightness (rgbToHSL ex c) = (M + m) / 2"
    "hsl_alpha (rgbToHSL ex c) = alpha c"
    "saturation (rgbToHSL ex c) = (if (M + m) / 2 \<le> 1 / 2 then (M - m) / (M + m) else (M - m) / (2 - M - m))"
  using assms(3) hue_sixths [of "M - m" c M] spread_abs [of c]
  unfolding rgbToHSL_def Let_def M_def [symmetric] m_def [symmetric] by simp_all

text \<open>
  In exact arithmetic a colour with components from 0 to 1 is what its HSL form is
  converted back to.
\<close>

theorem hsl_roundtrip:
  assumes "valid_color c"
  shows "hslToRGB (\<lambda>x. x) (rgbToHSL (\<lambda>x. x) c) = c"
proof -
  define M where "M = max (red c) (max (green c) (blue c))"
  define m where "m = min (red c) (min (green c) (blue c))"
  define d where "d = M - m"
  have v: "0 \<le> m" "M \<le> 1" "m \<le> M" using assms by (auto simp: valid_color_def components_def M_def m_def)
  show ?thesis
  proof (cases "d = 0")
    case True
    then have "red c = m" "green c = m" "blue c = m" "M = m"
      unfolding d_def M_def m_def by (simp_all add: min_def max_def split: if_splits)
    then show ?thesis using True
      by (simp add: rgbToHSL_def hslToRGB_def Let_def flip: M_def m_def)
  next
    case False
    with v have d: "0 < d" by (simp add: d_def)
    have M: "M = m + d" by (simp add: d_def)
    define h where "h = rgbToHSL ex c"
    note h = rgbToHSL_spread [of c, folded M_def m_def, folded d_def, OF d, folded h_def]
    have "saturation h \<noteq> 0" using d v False by (auto simp: h(4) d_def)
    have m2: "(if lightness h \<le> 1 / 2 then lightness h * (1 + saturation h)
        else lightness h + saturation h - lightness h * saturation h) = M"
    proof (cases "(M + m) / 2 \<le> 1 / 2")
      case True
      have half: "x / 2 * (d / x) = d / 2" if "x \<noteq> 0" for x :: rat using that by simp
      have "M + m \<noteq> 0" using d v by (simp add: d_def)
      from half [OF this] have "(M + m) / 2 * (d / (M + m)) = d / 2" .
      then show ?thesis using True h(2,4) by (simp only: if_True ring_distribs mult_1_right) (simp add: d_def flip: add_divide_distrib)
    next
      case False
      define r where "r = 2 - M - m"
      have "r \<noteq> 0" using v d by (simp add: r_def d_def)
      then have half: "r / 2 * (d / r) = d / 2" by simp
      have sat: "saturation h = d / r" using False by (simp add: h(4) r_def)
      have "1 - lightness h = r / 2" by (simp add: h(2) r_def field_simps)
      then have "lightness h + saturation h - lightness h * saturation h = lightness h + r / 2 * saturation h"
        by (metis add_diff_eq diff_add_eq left_diff_distrib mult_1_left)
      also have "\<dots> = M" unfolding sat half h(2) by (simp add: d_def flip: add_divide_distrib)
      finally show ?thesis using False by (simp add: h(2))
    qed
    have "2 * lightness h - M = m" by (simp add: h(2) field_simps)
    then have "hslToRGB ex h = \<lparr>red = hslValue ex m M (sixths c M d + 2), green = hslValue ex m M (sixths c M d),
        blue = hslValue ex m M (sixths c M d - 2), alpha = alpha c\<rparr>"
      using \<open>saturation h \<noteq> 0\<close> unfolding hslToRGB_def Let_def m2 h(1,3) by simp
    also have "\<dots> = c" using hsl_components [OF d m_def] M M_def by simp
    finally show ?thesis by (simp add: h_def)
  qed
qed

section \<open>Colours by brightness\<close>

lemma floor_eq: "of_int n \<le> k \<Longrightarrow> k < of_int n + 1 \<Longrightarrow> \<lfloor>k\<rfloor> = n" for k :: rat
  by (rule floor_unique)

text \<open>In exact arithmetic the HSV form is converted back, unless the colour is grey.\<close>

theorem hsv_roundtrip:
  assumes "valid_color c" "\<not> (red c = green c \<and> green c = blue c)"
  shows "hsvToRGB (\<lambda>x. x) (rgbToHSV (\<lambda>x. x) c) = Some c"
proof -
  define M where "M = max (max (red c) (green c)) (blue c)"
  define m where "m = min (min (red c) (green c)) (blue c)"
  define d where "d = M - m"
  have ne: "m \<noteq> M" using assms(2) unfolding M_def m_def by (auto simp: min_def max_def split: if_splits)
  have v: "0 \<le> m" "m \<le> M" using assms(1) by (auto simp: valid_color_def components_def M_def m_def)
  with ne have d: "0 < d" "0 < M" by (simp_all add: d_def)
  have abs: "\<bar>green c - blue c\<bar> \<le> d" "\<bar>blue c - red c\<bar> \<le> d" "\<bar>red c - green c\<bar> \<le> d"
    unfolding d_def M_def m_def by (auto simp: abs_le_iff min_def max_def)
  define h where "h = rgbToHSV ex c"
  have h: "hsv_hue h * 6 = sixths c M d" "hsv_saturation h = d / M" "brightness h = M" "hsv_alpha h = alpha c"
    using ne hue_sixths [OF d(1) abs, of M]
    unfolding h_def rgbToHSV_def Let_def M_def [symmetric] m_def [symmetric] d_def [symmetric] by simp_all
  have s: "d / M \<noteq> 0" "M * (1 - d / M) = m" "M * (1 - d / M * f) = M - d * f" for f
  proof -
    have "M * (d / M) = d" using d by simp
    then show "M * (1 - d / M) = m" "M * (1 - d / M * f) = M - d * f"
      by (simp_all only: right_diff_distrib mult_1_right mult.assoc [symmetric]) (simp add: d_def)
    show "d / M \<noteq> 0" using d by simp
  qed
  define k where "k = sixths c M d"
  have rgb: "hsvToRGB ex h =
     (let f = k - of_int \<lfloor>k\<rfloor>; q = M - d * f; t = M - d * (1 - f); i = \<lfloor>k\<rfloor> in
      if i = 1 then Some \<lparr>red = q, green = M, blue = m, alpha = alpha c\<rparr>
      else if i = 2 then Some \<lparr>red = m, green = M, blue = t, alpha = alpha c\<rparr>
      else if i = 3 then Some \<lparr>red = m, green = q, blue = M, alpha = alpha c\<rparr>
      else if i = 4 then Some \<lparr>red = t, green = m, blue = M, alpha = alpha c\<rparr>
      else if i = 5 then Some \<lparr>red = M, green = m, blue = q, alpha = alpha c\<rparr>
      else if i = 6 \<or> i = 0 then Some \<lparr>red = M, green = t, blue = m, alpha = alpha c\<rparr> else None)"
    unfolding hsvToRGB_def Let_def h k_def s(2) s(3) using s(1) by simp
  have M: "M = m + d" by (simp add: d_def)
  have mins: "m = min (red c) (min (green c) (blue c))" "m + d = max (red c) (max (green c) (blue c))"
    unfolding M [symmetric] by (simp_all add: m_def M_def min.assoc max.assoc)
  have "hsvToRGB ex h = Some c"
    using sixths_sectors [OF d(1) mins]
  proof cases
    case (1 t)
    have k: "k = t" using 1 M by (simp add: k_def)
    have f: "\<lfloor>k\<rfloor> = (if t < 1 then 0 else 1)" unfolding k using 1 by (auto intro!: floor_eq)
    show ?thesis unfolding rgb Let_def f unfolding k M
      using 1 by (auto intro!: rgb.equality simp: right_diff_distrib)
  next
    case (2 t)
    have k: "k = 6 - t" using 2 M by (simp add: k_def)
    have f: "\<lfloor>k\<rfloor> = 5" unfolding k using 2 by (auto intro!: floor_eq)
    show ?thesis unfolding rgb Let_def f unfolding k M
      using 2 by (auto intro!: rgb.equality simp: right_diff_distrib)
  next
    case (3 t)
    have k: "k = 2 + t" using 3 M by (simp add: k_def)
    have f: "\<lfloor>k\<rfloor> = (if t < 1 then 2 else 3)" unfolding k using 3 by (auto intro!: floor_eq)
    show ?thesis unfolding rgb Let_def f unfolding k M
      using 3 by (auto intro!: rgb.equality simp: right_diff_distrib)
  next
    case (4 t)
    have k: "k = 2 - t" using 4 M by (simp add: k_def)
    have f: "\<lfloor>k\<rfloor> = 1" unfolding k using 4 by (auto intro!: floor_eq)
    show ?thesis unfolding rgb Let_def f unfolding k M
      using 4 by (auto intro!: rgb.equality simp: right_diff_distrib)
  next
    case (5 t)
    have k: "k = 4 + t" using 5 M by (simp add: k_def)
    have f: "\<lfloor>k\<rfloor> = 4" unfolding k using 5 by (auto intro!: floor_eq)
    show ?thesis unfolding rgb Let_def f unfolding k M
      using 5 by (auto intro!: rgb.equality simp: right_diff_distrib)
  next
    case (6 t)
    have k: "k = 4 - t" using 6 M by (simp add: k_def)
    have f: "\<lfloor>k\<rfloor> = 3" unfolding k using 6 by (auto intro!: floor_eq)
    show ?thesis unfolding rgb Let_def f unfolding k M
      using 6 by (auto intro!: rgb.equality simp: right_diff_distrib)
  qed
  then show ?thesis by (simp add: h_def)
qed

text \<open>A grey has no saturation, and comes back from its HSV form as black.\<close>

theorem grey_turns_black:
  "hsvToRGB fl (rgbToHSV fl \<lparr>red = x, green = x, blue = x, alpha = a\<rparr>) =
     Some \<lparr>red = 0, green = 0, blue = 0, alpha = a\<rparr>"
  by (simp add: rgbToHSV_def hsvToRGB_def)

text \<open>Every colour is dark, white included.\<close>

theorem every_color_is_dark: "isDark fl c"
  by (simp add: isDark_def isLight_def hsl_prop_def)

section \<open>Lightening\<close>

definition valid_hsl :: "hsl \<Rightarrow> bool" where
  "valid_hsl h \<longleftrightarrow> 0 \<le> hue h \<and> hue h \<le> 1 \<and> 0 \<le> saturation h \<and> saturation h \<le> 1 \<and>
     0 \<le> lightness h \<and> lightness h \<le> 1 \<and> 0 \<le> hsl_alpha h \<and> hsl_alpha h \<le> 1"

text \<open>The components span the whole range from the least to the greatest.\<close>

lemma hslValue_between:
  assumes "-3 < k" "k < 9" "0 \<le> d"
  shows "m \<le> hslValue ex m (m + d) k" "hslValue ex m (m + d) k \<le> m + d"
proof -
  have between: "m \<le> hslValue ex m (m + d) k \<and> hslValue ex m (m + d) k \<le> m + d" if "0 \<le> k" "k \<le> 6" for k
  proof -
    have mid: "m \<le> m + d * x \<and> m + d * x \<le> m + d" if "0 \<le> x" "x \<le> 1" for x
      using that assms(3) mult_left_mono [of x 1 d] by simp
    consider "k \<le> 1" | "1 \<le> k" "k \<le> 3" | "3 \<le> k" "k \<le> 4" | "4 \<le> k" by linarith
    then show ?thesis
    proof cases
      case 1
      then show ?thesis using mid [of k] that(1) by (simp only: hslValue_low)
    next
      case 3
      then show ?thesis using mid [of "4 - k"] by (simp only: hslValue_down)
    qed (use that assms(3) in \<open>simp_all add: hslValues\<close>)
  qed
  consider "k < 0" | "0 \<le> k" "k \<le> 6" | "6 < k" by linarith
  then have "m \<le> hslValue ex m (m + d) k \<and> hslValue ex m (m + d) k \<le> m + d"
  proof cases
    case 1
    with assms(1) show ?thesis using between [of "k + 6"] by (simp only: hslValue_wrap)
  next
    case 2
    then show ?thesis by (rule between)
  next
    case 3
    with assms(2) show ?thesis using between [of "k - 6"] by (simp only: hslValue_wrap)
  qed
  then show "m \<le> hslValue ex m (m + d) k" "hslValue ex m (m + d) k \<le> m + d" by simp_all
qed

lemma hslValue_reached:
  assumes "0 \<le> k" "k \<le> 6"
  shows "\<exists>i \<in> {k + 2, k, k - 2}. hslValue ex m (m + d) i = m + d"
    "\<exists>i \<in> {k + 2, k, k - 2}. hslValue ex m (m + d) i = m"
proof -
  consider "k \<le> 1" | "1 \<le> k" "k \<le> 3" | "3 \<le> k" "k \<le> 5" | "5 \<le> k" by linarith
  then show "\<exists>i \<in> {k + 2, k, k - 2}. hslValue ex m (m + d) i = m + d"
    using assms by cases (auto simp: hslValues hslValue_wrap)
  consider "k < 2" | "2 \<le> k" "k \<le> 4" | "4 \<le> k" by linarith
  then show "\<exists>i \<in> {k + 2, k, k - 2}. hslValue ex m (m + d) i = m"
    using assms by cases (auto simp: hslValues hslValue_wrap)
qed

lemma lightness_rgbToHSL: "lightness (rgbToHSL ex c) =
    (max (red c) (max (green c) (blue c)) + min (red c) (min (green c) (blue c))) / 2"
  by (simp add: rgbToHSL_def Let_def)

text \<open>The components of an HSL colour lie around its lightness and span their range.\<close>

lemma hslToRGB_span:
  assumes "valid_hsl h"
  shows "valid_color (hslToRGB ex h)" "lightness (rgbToHSL ex (hslToRGB ex h)) = lightness h"
proof -
  define l s where "l = lightness h" and "s = saturation h"
  define m2 where "m2 = (if l \<le> 1 / 2 then l * (1 + s) else l + s - l * s)"
  define m d where "m = 2 * l - m2" and "d = 2 * (m2 - l)"
  have v: "0 \<le> l" "l \<le> 1" "0 \<le> s" "s \<le> 1" "0 \<le> hsl_alpha h" "hsl_alpha h \<le> 1" "0 \<le> hue h" "hue h \<le> 1"
    using assms by (simp_all add: valid_hsl_def l_def s_def)
  have prod: "0 \<le> l * s" "l * s \<le> l" "l * s \<le> s"
    using v mult_left_mono [of s 1 l] mult_right_mono [of l 1 s] by simp_all
  have "0 \<le> (1 - l) * (1 - s)" using v by simp
  then have "l + s - l * s \<le> 1" by (simp add: algebra_simps)
  then have b: "l \<le> m2" "m2 \<le> 1" "m2 \<le> 2 * l"
    using v prod by (auto simp: m2_def ring_distribs)
  then have md: "0 \<le> d" "0 \<le> m" "m + d = m2" "m + d \<le> 1" "(m2 + m) / 2 = l"
    by (simp_all add: m_def d_def)
  have rgb: "hslToRGB ex h = (if s = 0 then \<lparr>red = l, green = l, blue = l, alpha = hsl_alpha h\<rparr>
      else \<lparr>red = hslValue ex m (m + d) (hue h * 6 + 2), green = hslValue ex m (m + d) (hue h * 6),
        blue = hslValue ex m (m + d) (hue h * 6 - 2), alpha = hsl_alpha h\<rparr>)"
    unfolding hslToRGB_def Let_def md(3) l_def [symmetric] s_def [symmetric] m2_def [symmetric] m_def [symmetric]
    by (rule refl)
  have k: "0 \<le> hue h * 6" "hue h * 6 \<le> 6" using v by simp_all
  have between: "m \<le> hslValue ex m (m + d) i \<and> hslValue ex m (m + d) i \<le> m + d"
    if "i \<in> {hue h * 6 + 2, hue h * 6, hue h * 6 - 2}" for i
    using hslValue_between [of i d m] k md(1) that by auto
  show "valid_color (hslToRGB ex h)"
  proof (cases "s = 0")
    case False
    then show ?thesis using between md v unfolding rgb valid_color_def components_def
      by (auto intro: order_trans)
  qed (use v in \<open>simp add: rgb valid_color_def components_def\<close>)
  show "lightness (rgbToHSL ex (hslToRGB ex h)) = lightness h"
  proof (cases "s = 0")
    case False
    let ?r = "hslValue ex m (m + d) (hue h * 6 + 2)" and ?g = "hslValue ex m (m + d) (hue h * 6)"
      and ?b = "hslValue ex m (m + d) (hue h * 6 - 2)"
    have "m \<le> ?r" "?r \<le> m + d" "m \<le> ?g" "?g \<le> m + d" "m \<le> ?b" "?b \<le> m + d"
      using between by simp_all
    moreover have "?r = m + d \<or> ?g = m + d \<or> ?b = m + d" "?r = m \<or> ?g = m \<or> ?b = m"
      using hslValue_reached [OF k, of m d] by simp_all
    ultimately have "max ?r (max ?g ?b) = m + d" "min ?r (min ?g ?b) = m"
      by (auto simp: max_def min_def)
    with False md show ?thesis by (simp add: lightness_rgbToHSL rgb flip: l_def)
  qed (simp add: lightness_rgbToHSL rgb l_def)
qed

lemma valid_rgbToHSL:
  assumes "valid_color c"
  shows "valid_hsl (rgbToHSL ex c)"
proof -
  define M where "M = max (red c) (max (green c) (blue c))"
  define m where "m = min (red c) (min (green c) (blue c))"
  have v: "0 \<le> m" "M \<le> 1" "m \<le> M" "0 \<le> alpha c" "alpha c \<le> 1"
    using assms by (auto simp: valid_color_def components_def M_def m_def)
  show ?thesis
  proof (cases "M - m = 0")
    case True
    then show ?thesis using v unfolding rgbToHSL_def Let_def M_def [symmetric] m_def [symmetric]
      by (simp add: valid_hsl_def)
  next
    case False
    with v have d: "0 < M - m" by simp
    note h = rgbToHSL_spread [of c, folded M_def m_def, OF d]
    have e: "m + (M - m) = M" by simp
    have "0 \<le> sixths c M (M - m) \<and> sixths c M (M - m) \<le> 6"
      using sixths_sectors [OF d m_def, unfolded e, OF M_def] by cases simp_all
    then have "0 \<le> hue (rgbToHSL ex c)" "hue (rgbToHSL ex c) \<le> 1" unfolding h(1) [symmetric] by simp_all
    moreover have "0 \<le> (M - m) / x \<and> (M - m) / x \<le> 1" if "M - m \<le> x" for x
      using that d by (simp add: pos_divide_le_eq)
    then have "0 \<le> saturation (rgbToHSL ex c) \<and> saturation (rgbToHSL ex c) \<le> 1"
      unfolding h(4) using v by simp
    ultimately show ?thesis using v unfolding valid_hsl_def h(2,3) by simp
  qed
qed

text \<open>
  In exact arithmetic a lighter colour is a colour again, and exactly as much lighter as
  was asked for, up to white.
\<close>

theorem lighter_color:
  assumes "valid_color c" "0 \<le> level"
  defines "c' \<equiv> lighterColorWithLevel (\<lambda>x. x) c level"
  shows "valid_color c' \<and> lightness (rgbToHSL (\<lambda>x. x) c') = min (lightness (rgbToHSL (\<lambda>x. x) c) + level) 1"
proof -
  let ?h = "(rgbToHSL ex c)\<lparr>lightness := min (lightness (rgbToHSL ex c) + level) 1\<rparr>"
  have "valid_hsl ?h" using valid_rgbToHSL [OF assms(1)] assms(2) by (simp add: valid_hsl_def)
  from hslToRGB_span [OF this] show ?thesis by (simp add: c'_def lighterColorWithLevel_def Let_def)
qed

theorem hsl_roundtrip_witness:
  "hslToRGB (\<lambda>x. x) (rgbToHSL (\<lambda>x. x) \<lparr>red = 1, green = 1 / 2, blue = 1 / 4, alpha = 1\<rparr>) =
     \<lparr>red = 1, green = 1 / 2, blue = 1 / 4, alpha = 1\<rparr>"
  by (rule hsl_roundtrip) (simp add: valid_color_def components_def)

theorem hsv_roundtrip_witness:
  "hsvToRGB (\<lambda>x. x) (rgbToHSV (\<lambda>x. x) \<lparr>red = 1, green = 1 / 2, blue = 1 / 4, alpha = 1\<rparr>) =
     Some \<lparr>red = 1, green = 1 / 2, blue = 1 / 4, alpha = 1\<rparr>"
  by (rule hsv_roundtrip) (simp_all add: valid_color_def components_def)

theorem lighter_color_witness:
  "lightness (rgbToHSL (\<lambda>x. x)
     (lighterColorWithLevel (\<lambda>x. x) \<lparr>red = 1, green = 1 / 2, blue = 1 / 4, alpha = 1\<rparr> (1 / 8))) = 3 / 4"
proof -
  let ?c = "\<lparr>red = 1, green = 1 / 2, blue = 1 / 4, alpha = 1\<rparr>"
  have "lightness (rgbToHSL (\<lambda>x. x) ?c) = 5 / 8" by (simp add: lightness_rgbToHSL)
  moreover have "valid_color ?c" by (simp add: valid_color_def components_def)
  ultimately show ?thesis using lighter_color [of ?c "1 / 8"] by simp
qed

section \<open>The hexadecimal notation\<close>

text \<open>The rounding errors of a byte turned into a component and back are far below one half.\<close>

context rounding
begin

lemma byte_component:
  assumes "n \<le> 255"
  shows "math_round (clampColorComponent fl (fl (of_nat n / 255)) 255) = int n"
proof -
  define x :: rat where "x = of_nat n / 255"
  define w where "w = fl (fl x * 255)"
  have x: "0 \<le> x" "x \<le> 1" using assms by (simp_all add: x_def)
  have "\<bar>fl x - x\<bar> \<le> x / 2 ^ 53" "0 \<le> fl x" using near [of x] x by (simp_all add: nonneg)
  then have 1: "\<bar>fl x - x\<bar> \<le> 1 / 1024" using x by simp
  have "\<bar>w - fl x * 255\<bar> \<le> fl x * 255 / 2 ^ 53" "0 \<le> w"
    using near [of "fl x * 255"] \<open>0 \<le> fl x\<close> by (simp_all add: w_def nonneg)
  moreover have "fl x \<le> 1" using x(2) by (rule le_1)
  ultimately have 2: "\<bar>w - fl x * 255\<bar> \<le> 1 / 1024" "0 \<le> w" by simp_all
  have "255 * x = of_nat n" by (simp add: x_def)
  then have "\<bar>w - of_nat n\<bar> < 1 / 3" using 1 2 by (simp add: abs_if split: if_splits)
  have "\<bar>clampColorComponent fl (fl x) 255 - of_nat n\<bar> < 1 / 3"
  proof (cases "w > 255")
    case True
    moreover have "of_nat n \<le> (255 :: rat)" using assms by simp
    ultimately show ?thesis using \<open>\<bar>w - of_nat n\<bar> < 1 / 3\<close>
      unfolding clampColorComponent_def Let_def w_def [symmetric] by simp
  next
    case False
    then show ?thesis using \<open>0 \<le> w\<close> \<open>\<bar>w - of_nat n\<bar> < 1 / 3\<close>
      unfolding clampColorComponent_def Let_def w_def [symmetric] by simp
  qed
  then have "\<lfloor>clampColorComponent fl (fl x) 255 + 1 / 2\<rfloor> = int n"
    by (intro floor_unique) (simp_all add: abs_if split: if_splits)
  then show ?thesis by (simp add: math_round_def x_def)
qed

end

text \<open>The two lower-case digits of a byte.\<close>

definition hex_code :: "nat \<Rightarrow> nat" where
  "hex_code d = (if d < 10 then 48 + d else 87 + d)"

definition hex_byte :: "nat \<Rightarrow> jsstring" where
  "hex_byte n = [hex_code (n div 16), hex_code (n mod 16)]"

lemma digit_of_hex_code: "d < 16 \<Longrightarrow> digit_of (hex_code d) = Some d"
  by (auto simp: digit_of_def hex_code_def)

lemma hex_code_text: "d < 16 \<Longrightarrow> is_digit 16 (hex_code d) \<and> \<not> is_space (hex_code d) \<and>
    hex_code d \<noteq> 45 \<and> hex_code d \<noteq> 43 \<and> hex_code d \<noteq> 120 \<and> hex_code d \<noteq> 88"
  by (simp add: is_digit_def digit_of_hex_code) (auto simp: hex_code_def is_space_def)

lemma parse_hex_byte:
  assumes "n < 256"
  shows "parse_hex_int (hex_byte n) = Some (int n)"
proof -
  have d: "n div 16 < 16" "n mod 16 < 16" using assms by simp_all
  from hex_code_text [OF d(1)] hex_code_text [OF d(2)]
  have "takeWhile (is_digit 16) (hex_byte n) = hex_byte n" "dropWhile is_space (hex_byte n) = hex_byte n"
    "digits_value 16 (hex_byte n) = n"
    using d by (simp_all add: hex_byte_def digits_value_def digit_of_hex_code)
  with hex_code_text [OF d(1)] hex_code_text [OF d(2)] show ?thesis
    by (simp add: parse_hex_int_def js_def Let_def) (simp add: hex_byte_def)
qed


lemma toColorPart_byte:
  assumes "math_round x = int n" "n < 256"
  shows "toColorPart x = hex_byte n"
proof -
  have digit: "js (show_base 16 d) = [hex_code d]" if "d < 16" for d
    using that by (auto simp: show_base_def digits_base.simps [of 16 d] js_def hex_code_def digit_char_def)
  show ?thesis
  proof (cases "n < 16")
    case True
    then show ?thesis using assms(1) digit [of n]
      by (simp add: toColorPart_def hex_byte_def) (simp add: hex_code_def)
  next
    case False
    have "js (show_base 16 n) = js (show_base 16 (n div 16)) @ js (show_base 16 (n mod 16))"
      using False assms(2)
      by (simp add: show_base_def js_def digits_base.simps [of 16 n] digits_base.simps [of 16 "n mod 16"])
    then show ?thesis using assms False digit [of "n div 16"] digit [of "n mod 16"]
      by (simp add: toColorPart_def hex_byte_def Let_def)
  qed
qed

text \<open>
  A colour read from its notation with six digits is written with the same digits: the
  rounding of the doubles loses no byte.
\<close>

theorem hex_roundtrip:
  assumes "r < 256" "g < 256" "b < 256"
  shows "map_option (toHexString double) (fromHexString double (35 # hex_byte r @ hex_byte g @ hex_byte b)) =
    Some (35 # hex_byte r @ hex_byte g @ hex_byte b)"
proof -
  let ?t = "hex_byte r @ hex_byte g @ hex_byte b"
  have t: "length ?t = 6" "substr ?t 0 2 = hex_byte r" "substr ?t 2 2 = hex_byte g" "substr ?t 4 2 = hex_byte b"
    by (simp_all add: hex_byte_def substr_def)
  then have "fromHexString double (35 # ?t) =
      Some \<lparr>red = double (of_nat r / 255), green = double (of_nat g / 255), blue = double (of_nat b / 255), alpha = 1\<rparr>"
    using assms unfolding fromHexString_def Let_def
    by (simp add: t parse_hex_byte hex_component_def from_components_def)
  moreover have "toColorPart (clampColorComponent double (double (of_nat n / 255)) 255) = hex_byte n" if "n < 256" for n
    using that by (intro toColorPart_byte double.byte_component) simp_all
  ultimately show ?thesis using assms by (simp add: toHexString_def)
qed

theorem hex_roundtrip_witness:
  "map_option (toHexString double) (fromHexString double (35 # hex_byte 255 @ hex_byte 128 @ hex_byte 7)) =
     Some (35 # hex_byte 255 @ hex_byte 128 @ hex_byte 7)"
  by (rule hex_roundtrip) simp_all

end
