(* ===== verification/MochiFormat.thy ===== *)
theory MochiFormat
  imports MochiColor
begin

text \<open>
  Numbers with the values that are not finite, over a rounding \<open>fl\<close>, the parts of
  \<open>MochiKit.Base\<close> that compare them, and \<open>MochiKit.Format\<close>: rounding to fixed digits, the
  formatter made from a pattern, two-digit texts and the stripping of strings. A comparison
  with NaN throws.
\<close>

section \<open>Numbers that need not be finite\<close>

text \<open>\<open>Inf True\<close> is the negative infinity.\<close>

datatype jsnum = Fin rat | Inf bool | NaN

fun jneg :: "jsnum \<Rightarrow> jsnum" where
  "jneg (Fin x) = Fin (- x)"
| "jneg (Inf s) = Inf (\<not> s)"
| "jneg NaN = NaN"

fun jadd :: "(rat \<Rightarrow> rat) \<Rightarrow> jsnum \<Rightarrow> jsnum \<Rightarrow> jsnum" where
  "jadd fl (Fin x) (Fin y) = Fin (fl (x + y))"
| "jadd fl (Inf s) (Inf t) = (if s = t then Inf s else NaN)"
| "jadd fl (Inf s) (Fin y) = Inf s"
| "jadd fl (Fin x) (Inf t) = Inf t"
| "jadd fl NaN y = NaN"
| "jadd fl x NaN = NaN"

definition jsub :: "(rat \<Rightarrow> rat) \<Rightarrow> jsnum \<Rightarrow> jsnum \<Rightarrow> jsnum" where
  "jsub fl x y = jadd fl x (jneg y)"

fun jmul :: "(rat \<Rightarrow> rat) \<Rightarrow> jsnum \<Rightarrow> jsnum \<Rightarrow> jsnum" where
  "jmul fl (Fin x) (Fin y) = Fin (fl (x * y))"
| "jmul fl (Inf s) (Inf t) = Inf (s \<noteq> t)"
| "jmul fl (Inf s) (Fin y) = (if y = 0 then NaN else Inf (s \<noteq> (y < 0)))"
| "jmul fl (Fin x) (Inf t) = (if x = 0 then NaN else Inf (t \<noteq> (x < 0)))"
| "jmul fl NaN y = NaN"
| "jmul fl x NaN = NaN"

fun jdiv :: "(rat \<Rightarrow> rat) \<Rightarrow> jsnum \<Rightarrow> jsnum \<Rightarrow> jsnum" where
  "jdiv fl (Fin x) (Fin y) = (if y = 0 then if x = 0 then NaN else Inf (x < 0) else Fin (fl (x / y)))"
| "jdiv fl (Inf s) (Inf t) = NaN"
| "jdiv fl (Inf s) (Fin y) = Inf (s \<noteq> (y < 0))"
| "jdiv fl (Fin x) (Inf t) = Fin 0"
| "jdiv fl NaN y = NaN"
| "jdiv fl x NaN = NaN"

fun jless :: "jsnum \<Rightarrow> jsnum \<Rightarrow> bool" where
  "jless (Fin x) (Fin y) \<longleftrightarrow> x < y"
| "jless (Inf s) (Inf t) \<longleftrightarrow> s \<and> \<not> t"
| "jless (Inf s) (Fin y) \<longleftrightarrow> s"
| "jless (Fin x) (Inf t) \<longleftrightarrow> \<not> t"
| "jless NaN y \<longleftrightarrow> False"
| "jless x NaN \<longleftrightarrow> False"

text \<open>The loose equality: NaN is not equal to itself.\<close>

definition jeq :: "jsnum \<Rightarrow> jsnum \<Rightarrow> bool" where
  "jeq x y \<longleftrightarrow> x = y \<and> x \<noteq> NaN"

definition jle :: "jsnum \<Rightarrow> jsnum \<Rightarrow> bool" where
  "jle x y \<longleftrightarrow> jless x y \<or> jeq x y"

definition jabs :: "jsnum \<Rightarrow> jsnum" where
  "jabs x = (if jless x (Fin 0) then jneg x else x)"

text \<open>\<open>Math.min\<close>\<close>

definition jmin :: "jsnum \<Rightarrow> jsnum \<Rightarrow> jsnum" where
  "jmin x y = (if x = NaN \<or> y = NaN then NaN else if jless y x then y else x)"

fun jfloor :: "jsnum \<Rightarrow> jsnum" where
  "jfloor (Fin x) = Fin (of_int \<lfloor>x\<rfloor>)"
| "jfloor (Inf s) = Inf s"
| "jfloor NaN = NaN"

fun jtext :: "jsnum \<Rightarrow> jsstring" where
  "jtext (Fin x) = number_text x"
| "jtext (Inf s) = (if s then js ''-Infinity'' else js ''Infinity'')"
| "jtext NaN = js ''NaN''"

text \<open>\<open>toFixed\<close>, which falls back to the plain text from \<open>10\<^sup>2\<^sup>1\<close> on.\<close>

definition jfixed :: "jsnum \<Rightarrow> nat \<Rightarrow> jsstring" where
  "jfixed x n =
     (case x of Fin r \<Rightarrow> if \<bar>r\<bar> \<ge> 10 ^ 21 then number_text r else to_fixed n r | _ \<Rightarrow> jtext x)"

definition starts_with :: "jsstring \<Rightarrow> jsstring \<Rightarrow> bool" where
  "starts_with p s \<longleftrightarrow> take (length p) s = p"

definition parse_number :: "jsstring \<Rightarrow> jsnum" where
  "parse_number s =
     (let t = dropWhile is_space s
      in if starts_with (js ''Infinity'') t \<or> starts_with (js ''+Infinity'') t then Inf False
         else if starts_with (js ''-Infinity'') t then Inf True
         else case parse_float t of None \<Rightarrow> NaN | Some x \<Rightarrow> Fin x)"

section \<open>Comparing\<close>

text \<open>\<open>compare\<close> on numbers.\<close>

definition compare_nums :: "jsnum \<Rightarrow> jsnum \<Rightarrow> js_error + int" where
  "compare_nums a b =
     (if jeq a b then Inr 0 else if jless a b then Inr (-1) else if jless b a then Inr 1
      else Inl TypeError)"

fun extreme :: "int \<Rightarrow> jsnum \<Rightarrow> jsnum list \<Rightarrow> js_error + jsnum" where
  "extreme want cur [] = Inr cur"
| "extreme want cur (x # xs) =
     bindE (compare_nums x cur) (\<lambda>c. extreme want (if c = want then x else cur) xs)"

text \<open>\<open>listMinMax\<close>; the empty list gives null.\<close>

definition listMinMax :: "int \<Rightarrow> jsnum list \<Rightarrow> js_error + jsnum option" where
  "listMinMax want xs =
     (case xs of [] \<Rightarrow> Inr None | x # ys \<Rightarrow> bindE (extreme want x ys) (\<lambda>v. Inr (Some v)))"

text \<open>
  Sorting with \<open>compare\<close>: in a list with more than one element every element is compared,
  so a NaN makes it throw.
\<close>

definition num_order :: "jsnum \<Rightarrow> jsnum \<Rightarrow> rat" where
  "num_order a b = (case compare_nums a b of Inl e \<Rightarrow> 0 | Inr c \<Rightarrow> of_int c)"

definition sort_on :: "('a \<Rightarrow> jsnum) \<Rightarrow> 'a list \<Rightarrow> js_error + 'a list" where
  "sort_on key xs =
     (if 1 < length xs \<and> NaN \<in> key ` set xs then Inl TypeError
      else Inr (array_sort (\<lambda>a b. num_order (key a) (key b)) xs))"

section \<open>Formatting\<close>

definition truncToFixed :: "(rat \<Rightarrow> rat) \<Rightarrow> jsnum \<Rightarrow> nat \<Rightarrow> jsstring" where
  "truncToFixed fl x n =
     (let y = jfloor (jmul fl x (Fin (fl (10 ^ n))));
          res = jfixed (jmul fl y (Fin (fl (1 / 10 ^ n)))) n
      in if take 1 res = [46] then 48 # res else res)"

definition roundToFixed :: "(rat \<Rightarrow> rat) \<Rightarrow> jsnum \<Rightarrow> nat \<Rightarrow> jsstring" where
  "roundToFixed fl x n =
     truncToFixed fl (jadd fl x (jmul fl (Fin (1 / 2)) (Fin (fl (1 / 10 ^ n))))) n"

record locale_marks =
  separator :: jsstring
  decimal :: jsstring
  percent :: jsstring

definition formatLocale :: "string \<Rightarrow> locale_marks option" where
  "formatLocale name =
     (if name = ''en_US'' \<or> name = ''default'' then
        Some \<lparr>separator = js '','', decimal = js ''.'', percent = js ''%''\<rparr>
      else if name = ''de_DE'' then
        Some \<lparr>separator = js ''.'', decimal = js '','', percent = js ''%''\<rparr>
      else if name = ''fr_FR'' then
        Some \<lparr>separator = js '' '', decimal = js '','', percent = js ''%''\<rparr>
      else None)"

text \<open>The groups cut off the end of a run of digits, each behind a separator.\<close>

function separated :: "jsstring \<Rightarrow> nat \<Rightarrow> jsstring \<Rightarrow> jsstring \<Rightarrow> jsstring" where
  "separated sep k ds res =
     (if 0 < k \<and> k < length ds
      then separated sep k (take (length ds - k) ds) (sep @ drop (length ds - k) ds @ res)
      else ds @ res)"
  by pat_completeness auto
termination
  by (relation "measure (\<lambda>(sep, k, ds, res). length ds)") auto

declare separated.simps [simp del]

record number_format =
  placeholder :: jsstring
  header :: jsstring
  footer :: jsstring
  marks :: locale_marks
  isPercent :: bool
  precision :: nat
  leadingZeros :: nat
  separatorAt :: nat
  trailingZeros :: nat

text \<open>\<open>_numberFormatter\<close>; no separator is \<open>separatorAt = 0\<close>.\<close>

definition format_number :: "(rat \<Rightarrow> rat) \<Rightarrow> number_format \<Rightarrow> jsnum \<Rightarrow> jsstring" where
  "format_number fl f num =
     (if num = NaN then placeholder f
      else
        (let head = (if jless num (Fin 0) then header f else remove1 45 (header f));
             x1 = (if jless num (Fin 0) then jneg num else num);
             x = (if isPercent f then jmul fl x1 (Fin 100) else x1);
             foot = (if isPercent f then percent (marks f) @ footer f else footer f);
             parts = split_on 46 (roundToFixed fl x (precision f));
             whole0 = hd parts; frac0 = (if length parts = 1 then [] else parts ! 1);
             whole = replicate (leadingZeros f - length whole0) 48 @ whole0;
             frac = frac0 @ replicate (trailingZeros f - length frac0) 48;
             res = separated (separator (marks f)) (separatorAt f) whole []
         in head @ (if 0 < precision f then res @ decimal (marks f) @ frac else res) @ foot))"

text \<open>
  \<open>numberFormatter\<close>: the first match of the pattern, digits with at most one comma, a
  fraction and a percent sign; what is around it are the header and the footer.
\<close>

definition is_place :: "nat \<Rightarrow> bool" where
  "is_place c \<longleftrightarrow> c = 48 \<or> c = 35"

definition numberFormatter :: "jsstring \<Rightarrow> jsstring \<Rightarrow> locale_marks \<Rightarrow> js_error + number_format" where
  "numberFormatter pat hold m =
     (let pre = takeWhile (\<lambda>c. \<not> is_place c) pat; s1 = dropWhile (\<lambda>c. \<not> is_place c) pat
      in if s1 = [] then Inl TypeError
         else
           (let g1 = takeWhile is_place s1; s2 = dropWhile is_place s1;
                g2 = (if take 1 s2 = [44] then takeWhile is_place (drop 1 s2) else []);
                s3 = (if g2 = [] then s2 else drop (1 + length g2) s2);
                fr = (if take 1 s3 = [46] then takeWhile is_place (drop 1 s3) else []);
                s4 = (if fr = [] then s3 else drop (1 + length fr) s3);
                pc = (take 1 s4 = [37]); post = (if pc then drop 1 s4 else s4);
                zeros = (\<lambda>s. length (filter (\<lambda>c. c = 48) s))
            in Inr \<lparr>placeholder = hold, header = (if 45 \<in> set pre then pre else pre @ [45]), footer = post,
                 marks = m, isPercent = pc, precision = length fr,
                 leadingZeros = zeros (g1 @ g2), separatorAt = length g2, trailingZeros = zeros fr\<rparr>))"

definition lstrip :: "jsstring \<Rightarrow> jsstring" where
  "lstrip s = dropWhile is_space s"

definition rstrip :: "jsstring \<Rightarrow> jsstring" where
  "rstrip s = rev (dropWhile is_space (rev s))"

definition strip :: "jsstring \<Rightarrow> jsstring" where
  "strip s = rstrip (lstrip s)"

text \<open>\<open>twoDigitFloat\<close> on finite numbers.\<close>

definition twoDigitFloat :: "(rat \<Rightarrow> rat) \<Rightarrow> rat \<Rightarrow> jsstring" where
  "twoDigitFloat fl x =
     (let sign = (if x < 0 then [45] else []); s = number_text (of_int \<lfloor>fl (\<bar>x\<bar> * 100)\<rfloor>)
      in if s = js ''0'' then s
         else if length s < 3 then sign @ js ''0.'' @ strip_zeros s
         else
           (let head = sign @ take (length s - 2) s; tail = drop (length s - 2) s
            in if tail = js ''00'' then head
               else if drop 1 tail = [48] then head @ [46] @ take 1 tail
               else head @ [46] @ tail))"

definition percentFormat :: "(rat \<Rightarrow> rat) \<Rightarrow> rat \<Rightarrow> jsstring" where
  "percentFormat fl x = twoDigitFloat fl (fl (100 * x)) @ [37]"

definition twoDigitAverage :: "(rat \<Rightarrow> rat) \<Rightarrow> rat \<Rightarrow> rat \<Rightarrow> jsstring" where
  "twoDigitAverage fl a n = (if n \<noteq> 0 then twoDigitFloat fl (fl (a / n)) else js ''0'')"

section \<open>Groups of digits\<close>

lemma separated_groups:
  assumes "0 < k" "ds \<noteq> []"
  shows "\<exists>g gs. separated [c] k ds res = g @ concat (map (\<lambda>h. c # h) gs) @ res \<and> g @ concat gs = ds \<and>
    g \<noteq> [] \<and> length g \<le> k \<and> (\<forall>h \<in> set gs. length h = k)"
  using assms
proof (induction "[c]" k ds res rule: separated.induct)
  case (1 k ds res)
  show ?case
  proof (cases "k < length ds")
    case True
    let ?d = "take (length ds - k) ds" and ?h = "drop (length ds - k) ds"
    have "?d \<noteq> []" using True by auto
    with 1 True obtain g gs where g: "separated [c] k ?d ([c] @ ?h @ res) = g @ concat (map (\<lambda>h. c # h) gs) @ [c] @ ?h @ res"
      "g @ concat gs = ?d" "g \<noteq> []" "length g \<le> k" "\<forall>h \<in> set gs. length h = k" by blast
    have "separated [c] k ds res = separated [c] k ?d ([c] @ ?h @ res)"
      by (subst separated.simps) (use True 1(2) in simp)
    then have "separated [c] k ds res = g @ concat (map (\<lambda>h. c # h) (gs @ [?h])) @ res" using g(1) by simp
    moreover have "g @ concat (gs @ [?h]) = ds" by (simp add: g(2) flip: append_assoc)
    ultimately show ?thesis using g True by (intro exI [of _ g] exI [of _ "gs @ [?h]"]) simp
  next
    case False
    then show ?thesis using 1 by (intro exI [of _ ds] exI [of _ "[]"]) (simp add: separated.simps)
  qed
qed

lemma split_on_groups:
  "c \<notin> set g \<Longrightarrow> \<forall>h \<in> set gs. c \<notin> set h \<Longrightarrow> split_on c (g @ concat (map (\<lambda>h. c # h) gs)) = g # gs"
proof (induction gs arbitrary: g)
  case (Cons h gs)
  then show ?case by (simp add: split_on_append)
qed (simp add: split_on_no_sep)

text \<open>
  The separators of a formatted number can be taken out again: they cut the digits into
  groups of the length the pattern asks for, but for the first group, which is shorter or as
  long and not empty.
\<close>

theorem separators_group_digits:
  assumes "0 < k" "ds \<noteq> []" "c \<notin> set ds"
  shows "\<exists>g gs. split_on c (separated [c] k ds []) = g # gs \<and> concat (g # gs) = ds \<and>
    g \<noteq> [] \<and> length g \<le> k \<and> (\<forall>h \<in> set gs. length h = k)"
proof -
  from separated_groups [OF assms(1,2), of c "[]"] obtain g gs where
    g: "separated [c] k ds [] = g @ concat (map (\<lambda>h. c # h) gs)" "g @ concat gs = ds" "g \<noteq> []" "length g \<le> k"
    "\<forall>h \<in> set gs. length h = k" by auto
  have "c \<notin> set g" "\<forall>h \<in> set gs. c \<notin> set h" using assms(3) g(2) by auto
  from split_on_groups [OF this] g show ?thesis by auto
qed

theorem separators_group_digits_witness:
  "\<exists>g gs. split_on 44 (separated [44] 3 (js ''1234567'') []) = g # gs \<and> concat (g # gs) = js ''1234567'' \<and>
     g \<noteq> [] \<and> length g \<le> 3 \<and> (\<forall>h \<in> set gs. length h = 3)"
  by (rule separators_group_digits) (simp_all add: js_def)

lemma text_of_5_50: "number_text 5 = js ''5''" "number_text 50 = js ''50''"
proof -
  have d: "dec_string 5 = js ''5''" "dec_string 50 = js ''50''"
    by (simp_all add: dec_string_def show_base_def digits_base.simps digit_char_def js_def)
  have e: "dec_exponent 5 = 1" "dec_exponent 50 = 2"
    by (simp_all add: dec_exponent_def quotient_of_number dec_string_def show_base_def digits_base.simps js_def)
  have "math_round 5 = 5" by (simp add: math_round_def floor_eq_iff)
  moreover have "double 5 = 5" "double 50 = 50" using double_int [of 5] double_int [of 50] by simp_all
  ultimately have s: "shortest 16 1 5 1 = (1, 5)" "shortest 16 1 50 2 = (1, 5)"
    using shortest.simps(2) [of 15 1 5 1] shortest.simps(2) [of 15 1 50 2] by simp_all
  have z: "strip_zeros (js ''5'') = js ''5''" "length (js ''5'') = 1" by (simp_all add: strip_zeros_def js_def)
  have "positive_text 5 = js ''5''" "positive_text 50 = js ''5'' @ [48]"
    unfolding positive_text_def e s by (simp_all add: d z Let_def)
  then show "number_text 5 = js ''5''" "number_text 50 = js ''50''"
    by (simp_all add: number_text_def js_def)
qed

text \<open>A number below one tenth loses the zero behind its point.\<close>

theorem two_digits_lose_zero:
  "twoDigitFloat (\<lambda>x. x) (1 / 20) = twoDigitFloat (\<lambda>x. x) (1 / 2)"
  by (simp add: twoDigitFloat_def Let_def text_of_5_50 strip_zeros_def js_def)

end
