(* ===== verification/Portfolio.thy ===== *)
theory Portfolio
  imports AmqAjax MochiFormat
begin

text \<open>
  The portfolio page of the demos (\<open>portfolio/portfolio.js\<close>): the listener that puts the
  price of a stock into the row of that stock and computes its value and the profit or
  loss, and the registration of that listener when the script is loaded. A row is the list
  of its child nodes, of which some are text; what is written into a cell before an
  exception stays. \<open>fl\<close> is the rounding of a double.
\<close>

record cell =
  cell_id :: jsstring
  innerHTML :: jsstring
  className :: jsstring

datatype child = TextNode | Cell cell

type_synonym rows = "(jsstring \<times> child list) list"

section \<open>Convenience functions\<close>

text \<open>Numbers all have \<open>toFixed\<close>.\<close>

definition fixedDigits :: "MochiFormat.jsnum \<Rightarrow> nat \<Rightarrow> jsstring" where
  "fixedDigits t digits = jfixed t digits"

fun is_cell :: "jsstring \<Rightarrow> child \<Rightarrow> bool" where
  "is_cell k TextNode = False"
| "is_cell k (Cell c) = (cell_id c = k)"

fun find_from :: "nat \<Rightarrow> jsstring \<Rightarrow> child list \<Rightarrow> nat option" where
  "find_from i k [] = None"
| "find_from i k (n # ns) = (if is_cell k n then Some i else find_from (Suc i) k ns)"

definition find_child :: "string \<Rightarrow> child list \<Rightarrow> nat option" where
  "find_child k ns = find_from 0 (js k) ns"

fun the_cell :: "child \<Rightarrow> cell" where
  "the_cell (Cell c) = c"
| "the_cell TextNode = \<lparr>cell_id = [], innerHTML = [], className = []\<rparr>"

definition asFloat :: "string \<Rightarrow> child list \<Rightarrow> js_error + MochiFormat.jsnum" where
  "asFloat k ns =
     (case find_child k ns of
        None \<Rightarrow> Inl TypeError
      | Some i \<Rightarrow> Inr (parse_number (innerHTML (the_cell (ns ! i)))))"

section \<open>The listener\<close>

type_synonym row_step = "child list \<Rightarrow> child list \<times> js_error option"

definition change_cell :: "string \<Rightarrow> (cell \<Rightarrow> cell) \<Rightarrow> row_step" where
  "change_cell k f ns =
     (case find_child k ns of
        None \<Rightarrow> (ns, Some TypeError)
      | Some i \<Rightarrow> (ns[i := Cell (f (the_cell (ns ! i)))], None))"

definition set_html :: "string \<Rightarrow> jsstring \<Rightarrow> row_step" where
  "set_html k t = change_cell k (innerHTML_update (\<lambda>_. t))"

definition set_class :: "string \<Rightarrow> jsstring \<Rightarrow> row_step" where
  "set_class k t = change_cell k (className_update (\<lambda>_. t))"

fun run_steps :: "row_step list \<Rightarrow> row_step" where
  "run_steps [] ns = (ns, None)"
| "run_steps (f # fs) ns = (case f ns of (ns1, None) \<Rightarrow> run_steps fs ns1 | (ns1, Some e) \<Rightarrow> (ns1, Some e))"

definition update_row :: "(rat \<Rightarrow> rat) \<Rightarrow> MochiFormat.jsnum \<Rightarrow> jsstring \<Rightarrow> row_step" where
  "update_row fl price movement ns =
     (case asFloat ''amount'' ns of
        Inl e \<Rightarrow> (ns, Some e)
      | Inr amount \<Rightarrow>
          (let val = jmul fl amount price
           in case asFloat ''cost'' ns of
                Inl e \<Rightarrow> (ns, Some e)
              | Inr cost \<Rightarrow>
                  (let pl = jsub fl val cost
                   in run_steps
                        [set_html ''price'' (fixedDigits price 2), set_html ''value'' (fixedDigits val 2),
                         set_html ''pl'' (fixedDigits pl 2), set_class ''price'' movement,
                         set_class ''pl'' (if jle (Fin 0) pl then js ''up'' else js ''down'')] ns)))"

record stock_message =
  bid :: "jsstring option"
  stock :: "jsstring option"
  movement :: "jsstring option"

definition null_text :: "jsstring option \<Rightarrow> jsstring" where
  "null_text a = (case a of None \<Rightarrow> js ''null'' | Some t \<Rightarrow> t)"

fun change_row :: "jsstring \<Rightarrow> row_step \<Rightarrow> rows \<Rightarrow> rows \<times> js_error option" where
  "change_row k f [] = ([], None)"
| "change_row k f ((r, ns) # rs) =
     (if r = k then (case f ns of (ns1, e) \<Rightarrow> ((r, ns1) # rs, e))
      else (case change_row k f rs of (rs1, e) \<Rightarrow> ((r, ns) # rs1, e)))"

definition price_handler :: "(rat \<Rightarrow> rat) \<Rightarrow> stock_message option \<Rightarrow> rows \<Rightarrow> rows \<times> js_error option" where
  "price_handler fl message rs =
     (case message of
        None \<Rightarrow> (rs, None)
      | Some m \<Rightarrow>
          (let price = parse_number (null_text (bid m));
               moved = (case movement m of None \<Rightarrow> js ''up'' | Some t \<Rightarrow> t)
           in change_row (null_text (stock m)) (update_row fl price moved) rs))"

section \<open>Registration\<close>

definition portfolioPoll :: "nat \<Rightarrow> bool \<Rightarrow> amq \<Rightarrow> amq" where
  "portfolioPoll price first s =
     (if first then addListener (js ''stocks'') (js ''topic://STOCKS.*'') (Some price) None s else s)"

text \<open>
  Loading the script: \<open>amq\<close> is undeclared, or an object with the given members. The
  members of the object of \<open>amq.js\<close>:
\<close>

definition amq_members :: "string list" where
  "amq_members = [''init'', ''startBatch'', ''endBatch'', ''sendMessage'', ''addListener'', ''removeListener'',
     ''getMessageQueue'', ''testPollHandler'']"

definition load_portfolio :: "string list option \<Rightarrow> js_error option" where
  "load_portfolio amq_object =
     (case amq_object of
        None \<Rightarrow> Some ReferenceError
      | Some members \<Rightarrow> if ''addPollHandler'' \<in> set members then None else Some TypeError)"

section \<open>What the listener does\<close>

definition cell_of :: "string \<Rightarrow> child list \<Rightarrow> cell option" where
  "cell_of k ns = map_option (\<lambda>i. the_cell (ns ! i)) (find_child k ns)"

lemma find_from_props:
  "find_from i k ns = Some j \<Longrightarrow> i \<le> j \<and> j - i < length ns \<and> is_cell k (ns ! (j - i))"
  by (induction i k ns rule: find_from.induct) (fastforce split: if_splits simp: nth_Cons' le_Suc_eq)+

lemma find_from_change:
  "find_from i k ns = Some j \<Longrightarrow> (\<And>k'. is_cell k' n = is_cell k' (ns ! (j - i))) \<Longrightarrow>
     find_from i k' (ns[j - i := n]) = find_from i k' ns"
proof (induction i k ns rule: find_from.induct)
  case (2 i k m ns)
  show ?case
  proof (cases "is_cell k m")
    case True
    with 2(2,3) show ?thesis by simp
  next
    case False
    with 2(2) have f: "find_from (Suc i) k ns = Some j" by simp
    from find_from_props [OF this] have j: "Suc i \<le> j" by simp
    then have "j - i = Suc (j - Suc i)" by simp
    with 2(1) [OF False f] 2(3) show ?thesis by simp
  qed
qed simp

lemma is_cell_inject: "is_cell k n \<Longrightarrow> is_cell k' n \<longleftrightarrow> k' = k"
  by (cases n) auto

lemma change_cell_effect:
  assumes "find_child k ns \<noteq> None" "\<And>c. cell_id (f c) = cell_id c"
  shows "\<exists>ns'. change_cell k f ns = (ns', None) \<and> (\<forall>k'. find_child k' ns' = find_child k' ns) \<and>
    length ns' = length ns \<and>
    (\<forall>k'. cell_of k' ns' = (if k' = k then map_option f (cell_of k' ns) else cell_of k' ns))"
proof -
  from assms(1) obtain i where i: "find_child k ns = Some i" by auto
  then have p: "i < length ns" "is_cell (js k) (ns ! i)" using find_from_props [of 0 "js k" ns i] by (simp_all add: find_child_def)
  then obtain c where c: "ns ! i = Cell c" "cell_id c = js k" by (cases "ns ! i") auto
  let ?ns = "ns[i := Cell (f c)]"
  have same: "find_child k' ?ns = find_child k' ns" for k'
    using find_from_change [of 0 "js k" ns i "Cell (f c)" "js k'"] i c assms(2) by (simp add: find_child_def)
  have "cell_of k' ?ns = (if k' = k then map_option f (cell_of k' ns) else cell_of k' ns)" for k'
  proof (cases "find_child k' ns")
    case None
    then show ?thesis using i by (auto simp: cell_of_def same)
  next
    case (Some j)
    then have j: "is_cell (js k') (ns ! j)" using find_from_props [of 0 "js k'" ns j] by (simp add: find_child_def)
    show ?thesis
    proof (cases "k' = k")
      case True
      then show ?thesis using i c(1) p(1) by (simp add: cell_of_def same)
    next
      case False
      then have "js k' \<noteq> js k" by (simp add: js_eq_iff)
      then have "j \<noteq> i" using j c by auto
      then show ?thesis using False Some by (simp add: cell_of_def same)
    qed
  qed
  moreover have "change_cell k f ns = (?ns, None)" by (simp add: change_cell_def i c(1))
  ultimately show ?thesis using same by auto
qed

definition has_cells :: "child list \<Rightarrow> bool" where
  "has_cells ns \<longleftrightarrow> (\<forall>k \<in> set [''amount'', ''price'', ''value'', ''cost'', ''pl'']. find_child k ns \<noteq> None)"

definition number_in :: "string \<Rightarrow> child list \<Rightarrow> MochiFormat.jsnum" where
  "number_in k ns = parse_number (innerHTML (the (cell_of k ns)))"


lemma run_changes:
  assumes "\<forall>(k, f) \<in> set kfs. find_child k ns \<noteq> None \<and> (\<forall>c. cell_id (f c) = cell_id c)"
  shows "\<exists>ns'. run_steps (map (\<lambda>(k, f). change_cell k f) kfs) ns = (ns', None) \<and>
    (\<forall>k'. find_child k' ns' = find_child k' ns) \<and>
    (\<forall>k'. cell_of k' ns' = map_option (fold (\<lambda>(k, f). if k = k' then f else id) kfs) (cell_of k' ns))"
  using assms
proof (induction kfs arbitrary: ns)
  case Nil
  then show ?case by (simp add: option.map_ident)
next
  case (Cons kf kfs)
  obtain k f where kf: "kf = (k, f)" by (cases kf)
  from Cons.prems kf have "find_child k ns \<noteq> None" "\<And>c. cell_id (f c) = cell_id c" by auto
  from change_cell_effect [OF this] obtain ns1 where 1: "change_cell k f ns = (ns1, None)"
    "\<forall>k'. find_child k' ns1 = find_child k' ns"
    "\<forall>k'. cell_of k' ns1 = (if k' = k then map_option f (cell_of k' ns) else cell_of k' ns)" by auto
  from Cons.prems 1(2) have "\<forall>(k, f) \<in> set kfs. find_child k ns1 \<noteq> None \<and> (\<forall>c. cell_id (f c) = cell_id c)" by auto
  from Cons.IH [OF this] obtain ns' where 2: "run_steps (map (\<lambda>(k, f). change_cell k f) kfs) ns1 = (ns', None)"
    "\<forall>k'. find_child k' ns' = find_child k' ns1"
    "\<forall>k'. cell_of k' ns' = map_option (fold (\<lambda>(k, f). if k = k' then f else id) kfs) (cell_of k' ns1)" by auto
  show ?case using 1 2 by (auto simp: kf option.map_comp comp_def id_def)
qed

lemma change_row_update:
  "map_of rs k = Some ns \<Longrightarrow> f ns = (ns', e) \<Longrightarrow> change_row k f rs = (AList.update k ns' rs, e)"
  by (induction rs) (auto split: if_splits)

text \<open>
  A price is shown in its row. For a row with all its cells, the listener writes the price,
  the value of the amount at that price and the profit or loss against the cost, each with
  two digits, marks the price with its movement (up when none is given) and the profit or
  loss with its sign; the amount, the cost and every other row stay as they are.
\<close>

theorem price_is_shown:
  assumes "map_of rs k = Some ns" "has_cells ns" "price = parse_number b"
    and "val = jmul fl (number_in ''amount'' ns) price" "pl = jsub fl val (number_in ''cost'' ns)"
  shows "\<exists>ns'. price_handler fl (Some \<lparr>bid = Some b, stock = Some k, movement = mv\<rparr>) rs = (AList.update k ns' rs, None) \<and>
    map_option innerHTML (cell_of ''price'' ns') = Some (fixedDigits price 2) \<and>
    map_option innerHTML (cell_of ''value'' ns') = Some (fixedDigits val 2) \<and>
    map_option innerHTML (cell_of ''pl'' ns') = Some (fixedDigits pl 2) \<and>
    map_option className (cell_of ''price'' ns') = Some (case mv of None \<Rightarrow> js ''up'' | Some t \<Rightarrow> t) \<and>
    map_option className (cell_of ''pl'' ns') = Some (js (if jle (Fin 0) pl then ''up'' else ''down'')) \<and>
    cell_of ''amount'' ns' = cell_of ''amount'' ns \<and> cell_of ''cost'' ns' = cell_of ''cost'' ns"
proof -
  let ?mv = "case mv of None \<Rightarrow> js ''up'' | Some t \<Rightarrow> t"
  let ?kfs = "[(''price'', innerHTML_update (\<lambda>_. fixedDigits price 2)), (''value'', innerHTML_update (\<lambda>_. fixedDigits val 2)),
    (''pl'', innerHTML_update (\<lambda>_. fixedDigits pl 2)), (''price'', className_update (\<lambda>_. ?mv)),
    (''pl'', className_update (\<lambda>_. if jle (Fin 0) pl then js ''up'' else js ''down''))]"
  have "\<forall>(k, f) \<in> set ?kfs. find_child k ns \<noteq> None \<and> (\<forall>c. cell_id (f c) = cell_id c)"
    using assms(2) by (simp add: has_cells_def)
  from run_changes [OF this] obtain ns' where r: "run_steps (map (\<lambda>(k, f). change_cell k f) ?kfs) ns = (ns', None)"
    "\<forall>k'. cell_of k' ns' = map_option (fold (\<lambda>(k, f). if k = k' then f else id) ?kfs) (cell_of k' ns)" by blast
  obtain i j where ij: "find_child ''amount'' ns = Some i" "find_child ''cost'' ns = Some j"
    using assms(2) by (auto simp: has_cells_def)
  then have "update_row fl price ?mv ns = (ns', None)"
    using r(1) assms(4,5) by (simp add: update_row_def asFloat_def number_in_def cell_of_def set_html_def set_class_def Let_def)
  then have "price_handler fl (Some \<lparr>bid = Some b, stock = Some k, movement = mv\<rparr>) rs = (AList.update k ns' rs, None)"
    using change_row_update [OF assms(1)] assms(3) by (simp add: price_handler_def null_text_def Let_def)
  moreover have "cell_of ''price'' ns \<noteq> None" "cell_of ''value'' ns \<noteq> None" "cell_of ''pl'' ns \<noteq> None"
    using assms(2) by (simp_all add: has_cells_def cell_of_def)
  ultimately show ?thesis by (intro exI [of _ ns']) (auto simp: r(2) option.map_id)
qed

definition example_row :: "child list" where
  "example_row = [TextNode, Cell \<lparr>cell_id = [], innerHTML = js ''IBMW'', className = []\<rparr>,
     Cell \<lparr>cell_id = js ''amount'', innerHTML = js ''1000'', className = []\<rparr>,
     Cell \<lparr>cell_id = js ''price'', innerHTML = [], className = []\<rparr>,
     Cell \<lparr>cell_id = js ''value'', innerHTML = [], className = []\<rparr>,
     Cell \<lparr>cell_id = js ''cost'', innerHTML = js ''19000'', className = []\<rparr>,
     Cell \<lparr>cell_id = js ''pl'', innerHTML = [], className = []\<rparr>]"

theorem price_is_shown_witness:
  "\<exists>ns'. price_handler id (Some \<lparr>bid = Some (js ''20.5''), stock = Some (js ''IBMW''), movement = None\<rparr>)
       [(js ''IBMW'', example_row)] = ([(js ''IBMW'', ns')], None) \<and>
     map_option innerHTML (cell_of ''price'' ns') = Some (fixedDigits (parse_number (js ''20.5'')) 2)"
proof -
  have "has_cells example_row"
    by (simp add: has_cells_def find_child_def example_row_def js_eq_iff)
  then show ?thesis
    using price_is_shown [where rs = "[(js ''IBMW'', example_row)]" and k = "js ''IBMW''" and ns = example_row and fl = id and mv = None,
      OF _ _ refl refl refl, of "js ''20.5''"] by auto
qed

text \<open>
  The page never listens: \<open>amq\<close> has no \<open>addPollHandler\<close>, so loading the script throws
  at that call, whether or not the page declared \<open>amq\<close>.
\<close>

theorem portfolio_never_listens:
  "load_portfolio None = Some ReferenceError" "load_portfolio (Some amq_members) = Some TypeError"
  by (simp_all add: load_portfolio_def amq_members_def)

end
