(* ===== verification/PlotLayout.thy ===== *)
theory PlotLayout
  imports MochiFormat
begin

text \<open>
  The layout engine of PlotKit that the queue graph of the console uses, with the helpers of
  \<open>PlotKit.Base\<close> it calls. A dataset is a list of points, null once it has been removed; the
  datasets are kept in the order their names came in, which is the order of the
  enumeration for names that are no array index. The coordinates of the chart are
  fractions of the drawing area. The functions take the rounding \<open>fl\<close> of the arithmetic.

  An operation that may throw returns the layout as it is left behind and the exception.
\<close>

section \<open>State\<close>

record tick =
  tick_v :: jsnum
  tick_label :: "jsstring option"

datatype tick_text = Text jsstring | Number jsnum

record layout_options =
  barWidthFillFraction :: rat
  xOriginIsZero :: bool
  yOriginIsZero :: bool
  xAxis :: "(jsnum \<times> jsnum) option"
  yAxis :: "(jsnum \<times> jsnum) option"
  xTicks :: "tick list option"
  yTicks :: "tick list option"
  xNumberOfTicks :: nat
  yNumberOfTicks :: nat
  yTickPrecision :: nat
  pieRadius :: rat

type_synonym dataset = "(jsnum \<times> jsnum) list"

record bar =
  bar_x :: jsnum
  bar_y :: jsnum
  bar_w :: jsnum
  bar_h :: jsnum
  bar_xval :: jsnum
  bar_yval :: jsnum
  bar_name :: string

record point =
  px :: jsnum
  py :: jsnum
  pxval :: jsnum
  pyval :: jsnum
  pname :: string

record slice =
  fraction :: jsnum
  sxval :: jsnum
  syval :: jsnum
  startAngle :: jsnum
  endAngle :: jsnum

record layout =
  style :: string
  options :: layout_options
  minxval :: "jsnum option"
  maxxval :: "jsnum option"
  xscale :: "jsnum option"
  minyval :: "jsnum option"
  maxyval :: "jsnum option"
  yscale :: "jsnum option"
  bars :: "bar list"
  points :: "point list"
  slices :: "slice list"
  xticks :: "(jsnum \<times> tick_text) list"
  yticks :: "(jsnum \<times> tick_text) list"
  datasets :: "(string \<times> dataset option) list"
  minxdelta :: jsnum
  xrange :: jsnum
  yrange :: jsnum
  cache_xvalues :: "jsnum list"
  cache_x2maxy :: "(jsnum \<times> jsnum option) list option"

type_synonym outcome = "layout \<times> js_error option"

fun andThen :: "outcome \<Rightarrow> (layout \<Rightarrow> outcome) \<Rightarrow> outcome" where
  "andThen (l, None) f = f l"
| "andThen (l, Some e) f = (l, Some e)"

definition assign :: "js_error + 'a \<Rightarrow> ('a \<Rightarrow> layout \<Rightarrow> layout) \<Rightarrow> layout \<Rightarrow> outcome" where
  "assign r f l = (case r of Inl e \<Rightarrow> (l, Some e) | Inr a \<Rightarrow> (f a l, None))"

text \<open>Null counts as 0 in arithmetic.\<close>

definition num :: "jsnum option \<Rightarrow> jsnum" where
  "num a = (case a of None \<Rightarrow> Fin 0 | Some x \<Rightarrow> x)"

definition default_options :: layout_options where
  "default_options =
     \<lparr>barWidthFillFraction = 3 / 4, xOriginIsZero = True, yOriginIsZero = True, xAxis = None,
      yAxis = None, xTicks = None, yTicks = None, xNumberOfTicks = 10, yNumberOfTicks = 5,
      yTickPrecision = 3, pieRadius = double (2 / 5)\<rparr>"

text \<open>The constructor; the scale of a given y axis is computed from a property that does not exist.\<close>

definition Layout :: "(rat \<Rightarrow> rat) \<Rightarrow> string \<Rightarrow> layout_options \<Rightarrow> layout" where
  "Layout fl st opts =
     \<lparr>style = st, options = opts,
      minxval = (case xAxis opts of None \<Rightarrow> Some (Fin 0) | Some (a, b) \<Rightarrow> Some a),
      maxxval = map_option snd (xAxis opts),
      xscale = map_option (\<lambda>(a, b). jsub fl b a) (xAxis opts),
      minyval = (case yAxis opts of None \<Rightarrow> Some (Fin 0) | Some (a, b) \<Rightarrow> Some a),
      maxyval = map_option snd (yAxis opts),
      yscale = map_option (\<lambda>(a, b). NaN) (yAxis opts),
      bars = [], points = [], slices = [], xticks = [], yticks = [], datasets = [],
      minxdelta = Fin 0, xrange = Fin 1, yrange = Fin 1, cache_xvalues = [], cache_x2maxy = None\<rparr>"

section \<open>Datasets\<close>

fun put_set :: "string \<Rightarrow> 'a \<Rightarrow> (string \<times> 'a) list \<Rightarrow> (string \<times> 'a) list" where
  "put_set n d [] = [(n, d)]"
| "put_set n d ((m, e) # ds) = (if m = n then (n, d) # ds else (m, e) # put_set n d ds)"

definition addDataset :: "string \<Rightarrow> dataset \<Rightarrow> layout \<Rightarrow> layout" where
  "addDataset n d l = l\<lparr>datasets := put_set n (Some d) (datasets l)\<rparr>"

definition removeDataset :: "string \<Rightarrow> layout \<Rightarrow> layout" where
  "removeDataset n l = l\<lparr>datasets := put_set n None (datasets l)\<rparr>"

text \<open>The text below a node of the document, and the numbers in two columns of a table.\<close>

datatype dom_node = DomNode "dom_node list" "jsstring option"

fun scrapeText :: "dom_node \<Rightarrow> jsstring" where
  "scrapeText (DomNode cn t) = concat (map scrapeText cn) @ (case t of None \<Rightarrow> [] | Some s \<Rightarrow> s)"

definition table_number :: "dom_node list \<Rightarrow> nat \<Rightarrow> js_error + jsnum" where
  "table_number cs col =
     (if col < length cs then Inr (parse_number (strip (scrapeText (cs ! col)))) else Inl TypeError)"

fun table_points :: "nat \<Rightarrow> nat \<Rightarrow> dom_node list list \<Rightarrow> js_error + dataset" where
  "table_points xcol ycol [] = Inr []"
| "table_points xcol ycol (r # rs) =
     bindE (table_number r xcol) (\<lambda>a. bindE (table_number r ycol) (\<lambda>b.
       bindE (table_points xcol ycol rs) (\<lambda>ps. Inr ((a, b) # ps))))"

definition addDatasetFromTable ::
  "string \<Rightarrow> dom_node list list option \<Rightarrow> nat option \<Rightarrow> nat option \<Rightarrow> layout \<Rightarrow> (layout \<times> bool) \<times> js_error option" where
  "addDatasetFromTable n trs xcol ycol l =
     (case trs of
        None \<Rightarrow> ((l, False), None)
      | Some rs \<Rightarrow>
          (case table_points (case xcol of None \<Rightarrow> 0 | Some c \<Rightarrow> c) (case ycol of None \<Rightarrow> 1 | Some c \<Rightarrow> c) rs of
             Inl e \<Rightarrow> ((l, False), Some e)
           | Inr d \<Rightarrow> ((addDataset n d l, True), None)))"

text \<open>\<open>collapse\<close> joins the lists; null adds nothing.\<close>

definition collapse :: "'a list option list \<Rightarrow> 'a list" where
  "collapse ds = concat (map (\<lambda>d. case d of None \<Rightarrow> [] | Some p \<Rightarrow> p) ds)"

fun uniq_from :: "jsnum \<Rightarrow> jsnum list \<Rightarrow> jsnum list" where
  "uniq_from a [] = []"
| "uniq_from a (b # bs) = (if jeq b a then uniq_from a bs else b # uniq_from b bs)"

definition uniq :: "jsnum list \<Rightarrow> jsnum list" where
  "uniq bs = (case bs of [] \<Rightarrow> [] | b # cs \<Rightarrow> b # uniq_from b cs)"

definition all_points :: "layout \<Rightarrow> dataset" where
  "all_points l = collapse (map snd (datasets l))"

definition uniqueXValues :: "layout \<Rightarrow> js_error + jsnum list" where
  "uniqueXValues l = bindE (sort_on (\<lambda>a. a) (map fst (all_points l))) (\<lambda>bs. Inr (uniq bs))"

section \<open>Limits and scales\<close>

definition evaluateLimits :: "layout \<Rightarrow> outcome" where
  "evaluateLimits l =
     (let xs = map fst (all_points l); ys = map snd (all_points l); o1 = options l;
          s1 = (if xAxis o1 \<noteq> None then (l, None)
                else if xOriginIsZero o1 then (l\<lparr>minxval := Some (Fin 0)\<rparr>, None)
                else assign (listMinMax (-1) xs) (\<lambda>a. minxval_update (\<lambda>_. a)) l);
          s2 = andThen s1 (\<lambda>l. if yAxis o1 \<noteq> None then (l, None)
                else if yOriginIsZero o1 then (l\<lparr>minyval := Some (Fin 0)\<rparr>, None)
                else assign (listMinMax (-1) ys) (\<lambda>a. minyval_update (\<lambda>_. a)) l);
          s3 = andThen s2 (assign (listMinMax 1 xs) (\<lambda>a. maxxval_update (\<lambda>_. a)))
      in andThen s3 (assign (listMinMax 1 ys) (\<lambda>a. maxyval_update (\<lambda>_. a))))"

definition scale_of :: "(rat \<Rightarrow> rat) \<Rightarrow> jsnum \<Rightarrow> jsnum" where
  "scale_of fl r = (if jeq r (Fin 0) then Fin 1 else jdiv fl (Fin 1) r)"

definition evaluateScales :: "(rat \<Rightarrow> rat) \<Rightarrow> layout \<Rightarrow> layout" where
  "evaluateScales fl l =
     (let xr = jsub fl (num (maxxval l)) (num (minxval l));
          yr = jsub fl (num (maxyval l)) (num (minyval l))
      in l\<lparr>xrange := xr, xscale := Some (scale_of fl xr), yrange := yr, yscale := Some (scale_of fl yr)\<rparr>)"

section \<open>Charts\<close>

definition x_position :: "(rat \<Rightarrow> rat) \<Rightarrow> layout \<Rightarrow> jsnum \<Rightarrow> jsnum" where
  "x_position fl l a = jmul fl (jsub fl a (num (minxval l))) (num (xscale l))"

definition y_height :: "(rat \<Rightarrow> rat) \<Rightarrow> layout \<Rightarrow> jsnum \<Rightarrow> jsnum" where
  "y_height fl l b = jmul fl (jsub fl b (num (minyval l))) (num (yscale l))"

fun gaps :: "(rat \<Rightarrow> rat) \<Rightarrow> jsnum \<Rightarrow> jsnum list \<Rightarrow> jsnum" where
  "gaps fl d (a # b # bs) = gaps fl (jmin (jabs (jsub fl b a)) d) (b # bs)"
| "gaps fl d bs = d"

text \<open>The rectangles of the \<open>i\<close>-th and the following datasets; a removed one throws.\<close>

definition bar_rect :: "(rat \<Rightarrow> rat) \<Rightarrow> layout \<Rightarrow> jsnum \<Rightarrow> jsnum \<Rightarrow> nat \<Rightarrow> string \<Rightarrow> jsnum \<times> jsnum \<Rightarrow> bar" where
  "bar_rect fl l wset margin i n item =
     \<lparr>bar_x = jadd fl (jadd fl (x_position fl l (fst item)) (jmul fl (Fin (of_nat i)) wset)) margin,
      bar_y = jsub fl (Fin 1) (y_height fl l (snd item)), bar_w = wset, bar_h = y_height fl l (snd item),
      bar_xval = fst item, bar_yval = snd item, bar_name = n\<rparr>"

fun bar_rects :: "(rat \<Rightarrow> rat) \<Rightarrow> jsnum \<Rightarrow> jsnum \<Rightarrow> nat \<Rightarrow> (string \<times> dataset option) list \<Rightarrow> layout \<Rightarrow> outcome" where
  "bar_rects fl wset margin i [] l = (l, None)"
| "bar_rects fl wset margin i ((n, None) # ds) l = (l, Some TypeError)"
| "bar_rects fl wset margin i ((n, Some d) # ds) l =
     bar_rects fl wset margin (Suc i) ds (l\<lparr>bars := bars l @ map (bar_rect fl l wset margin i n) d\<rparr>)"

text \<open>
  The widths: with one x value the bars fill the area, otherwise the scale is reduced to
  leave room for the last bar.
\<close>

definition bar_layout :: "(rat \<Rightarrow> rat) \<Rightarrow> jsnum list \<Rightarrow> layout \<Rightarrow> outcome" where
  "bar_layout fl xvs l =
     (let sets = Fin (of_nat (length (datasets l))); fill = Fin (barWidthFillFraction (options l));
          rest = jsub fl (Fin 1) fill
      in if length xvs = 1 then
           (let width = jmul fl (Fin 1) fill
            in bar_rects fl (jdiv fl width sets) (jdiv fl rest (Fin 2)) 0 (datasets l)
                 (l\<lparr>xscale := Some (Fin 1), minxval := Some (hd xvs), minxdelta := Fin 1, bars := []\<rparr>))
         else
           (let delta = gaps fl (Fin 10000000) xvs;
                scale = jdiv fl (jsub fl (Fin 1) (jdiv fl delta (xrange l))) (xrange l);
                room = jmul fl delta scale; width = jmul fl room fill
            in bar_rects fl (jdiv fl width sets) (jdiv fl (jmul fl room rest) (Fin 2)) 0 (datasets l)
                 (l\<lparr>xscale := Some scale, minxdelta := delta, bars := []\<rparr>)))"

definition evaluateBarCharts :: "(rat \<Rightarrow> rat) \<Rightarrow> layout \<Rightarrow> outcome" where
  "evaluateBarCharts fl l =
     (case uniqueXValues l of Inl e \<Rightarrow> (l, Some e) | Inr xvs \<Rightarrow> bar_layout fl xvs l)"

definition line_point :: "(rat \<Rightarrow> rat) \<Rightarrow> layout \<Rightarrow> string \<Rightarrow> jsnum \<times> jsnum \<Rightarrow> point" where
  "line_point fl l n item =
     \<lparr>px = x_position fl l (fst item), py = jsub fl (Fin 1) (y_height fl l (snd item)),
      pxval = fst item, pyval = snd item, pname = n\<rparr>"

text \<open>The datasets are sorted in place; the first argument holds those already done.\<close>

fun line_points ::
  "(rat \<Rightarrow> rat) \<Rightarrow> (string \<times> dataset option) list \<Rightarrow> (string \<times> dataset option) list \<Rightarrow> layout \<Rightarrow> outcome" where
  "line_points fl prev [] l = (l\<lparr>datasets := prev\<rparr>, None)"
| "line_points fl prev ((n, None) # ds) l = (l\<lparr>datasets := prev @ (n, None) # ds\<rparr>, Some TypeError)"
| "line_points fl prev ((n, Some d) # ds) l =
     (case sort_on fst d of
        Inl e \<Rightarrow> (l\<lparr>datasets := prev @ (n, Some d) # ds\<rparr>, Some e)
      | Inr d' \<Rightarrow> line_points fl (prev @ [(n, Some d')]) ds (l\<lparr>points := points l @ map (line_point fl l n) d'\<rparr>))"

definition evaluateLineCharts :: "(rat \<Rightarrow> rat) \<Rightarrow> layout \<Rightarrow> outcome" where
  "evaluateLineCharts fl l = line_points fl [] (datasets l) (l\<lparr>points := []\<rparr>)"

text \<open>The slices of the first dataset; the angles go on where the last slice ended.\<close>

definition total_y :: "(rat \<Rightarrow> rat) \<Rightarrow> dataset \<Rightarrow> jsnum" where
  "total_y fl d = foldl (jadd fl) (Fin 0) (map snd d)"

definition angle :: "(rat \<Rightarrow> rat) \<Rightarrow> jsnum \<Rightarrow> jsnum" where
  "angle fl a = jmul fl (jmul fl a (Fin Math_PI)) (Fin 2)"

fun pie_slices :: "(rat \<Rightarrow> rat) \<Rightarrow> jsnum \<Rightarrow> jsnum \<Rightarrow> dataset \<Rightarrow> slice list" where
  "pie_slices fl t current [] = []"
| "pie_slices fl t current ((a, b) # d) =
     (let f = jdiv fl b t
      in \<lparr>fraction = f, sxval = a, syval = b, startAngle = angle fl current,
          endAngle = angle fl (jadd fl current f)\<rparr> # pie_slices fl t (jadd fl current f) d)"

definition evaluatePieCharts :: "(rat \<Rightarrow> rat) \<Rightarrow> layout \<Rightarrow> outcome" where
  "evaluatePieCharts fl l =
     (case datasets l of
        (n, Some d) # ds \<Rightarrow> (l\<lparr>slices := pie_slices fl (total_y fl d) (Fin 0) d\<rparr>, None)
      | _ \<Rightarrow> (l, Some TypeError))"

section \<open>Ticks\<close>

definition label_text :: "tick \<Rightarrow> jsstring" where
  "label_text t = (case tick_label t of None \<Rightarrow> jtext (tick_v t) | Some s \<Rightarrow> s)"

text \<open>The positions chosen among the x values; one outside the area ends the list.\<close>

fun auto_ticks :: "(rat \<Rightarrow> rat) \<Rightarrow> layout \<Rightarrow> nat \<Rightarrow> jsnum \<Rightarrow> nat \<Rightarrow> jsnum list \<Rightarrow> (jsnum \<times> tick_text) list" where
  "auto_ticks fl l n sep k [] = []"
| "auto_ticks fl l n sep k (a # as) =
     (if jle (jmul fl (Fin (of_nat k)) sep) a then
        (let pos = jmul fl (num (xscale l)) (jsub fl a (num (minxval l)))
         in if jless (Fin 1) pos \<or> jless pos (Fin 0) then []
            else (pos, Number a) # (if k + 1 > n then [] else auto_ticks fl l n sep (k + 1) as))
      else if k > n then [] else auto_ticks fl l n sep k as)"

definition evaluateLineTicksForXAxis :: "(rat \<Rightarrow> rat) \<Rightarrow> layout \<Rightarrow> outcome" where
  "evaluateLineTicksForXAxis fl l =
     (let n = xNumberOfTicks (options l)
      in case xTicks (options l) of
        Some ts \<Rightarrow>
          (l\<lparr>xticks := map (\<lambda>t. (jmul fl (num (xscale l)) (jsub fl (tick_v t) (num (minxval l))), Text (label_text t))) ts\<rparr>, None)
      | None \<Rightarrow>
          if n = 0 then (l, None)
          else assign (uniqueXValues l)
                 (\<lambda>as l. l\<lparr>xticks := auto_ticks fl l n (jdiv fl (xrange l) (Fin (of_nat n))) 0 as\<rparr>) l)"

definition roundInterval :: "(rat \<Rightarrow> rat) \<Rightarrow> jsnum \<Rightarrow> jsnum \<Rightarrow> nat \<Rightarrow> jsnum" where
  "roundInterval fl r n prec = parse_number (roundToFixed fl (jdiv fl r n) prec)"

text \<open>The y position of a given tick adds the least x value, not the least y value.\<close>

definition evaluateLineTicksForYAxis :: "(rat \<Rightarrow> rat) \<Rightarrow> layout \<Rightarrow> layout" where
  "evaluateLineTicksForYAxis fl l =
     (let n = yNumberOfTicks (options l)
      in case yTicks (options l) of
        Some ts \<Rightarrow>
          (let pos = (\<lambda>t. jsub fl (Fin 1) (jmul fl (num (yscale l)) (jadd fl (tick_v t) (num (minxval l)))))
           in l\<lparr>yticks := map (\<lambda>t. (pos t, Text (label_text t)))
                (filter (\<lambda>t. \<not> (jless (pos t) (Fin 0) \<or> jless (Fin 1) (pos t))) ts)\<rparr>)
      | None \<Rightarrow>
          if n = 0 then l
          else
            (let sep = roundInterval fl (yrange l) (Fin (of_nat n)) (yTickPrecision (options l));
                 val = (\<lambda>i. jadd fl (num (minyval l)) (jmul fl (Fin (of_nat i)) sep))
             in l\<lparr>yticks := map (\<lambda>i. (jsub fl (Fin 1) (jmul fl (jsub fl (val i) (num (minyval l))) (num (yscale l))),
                     Text (roundToFixed fl (val i) 1))) [0..<Suc n]\<rparr>))"

definition evaluateLineTicks :: "(rat \<Rightarrow> rat) \<Rightarrow> layout \<Rightarrow> outcome" where
  "evaluateLineTicks fl l =
     andThen (evaluateLineTicksForXAxis fl l) (\<lambda>l. (evaluateLineTicksForYAxis fl l, None))"

definition evaluateBarTicks :: "(rat \<Rightarrow> rat) \<Rightarrow> layout \<Rightarrow> outcome" where
  "evaluateBarTicks fl l =
     andThen (evaluateLineTicks fl l)
       (\<lambda>l. (l\<lparr>xticks := map (\<lambda>(p, t). (jadd fl p (jdiv fl (jmul fl (minxdelta l) (num (xscale l))) (Fin 2)), t)) (xticks l)\<rparr>, None))"

definition percent_label :: "(rat \<Rightarrow> rat) \<Rightarrow> slice \<Rightarrow> jsstring" where
  "percent_label fl s =
     (let f = (case numberFormatter (js ''#%'') [] (the (formatLocale ''default'')) of Inr f \<Rightarrow> f)
      in js '' ('' @ format_number fl f (fraction s) @ js '')'')"

text \<open>The last slice with an x value is the one a given tick finds.\<close>

definition evaluatePieTicks :: "(rat \<Rightarrow> rat) \<Rightarrow> layout \<Rightarrow> layout" where
  "evaluatePieTicks fl l =
     l\<lparr>xticks :=
        (case xTicks (options l) of
           Some ts \<Rightarrow>
             concat (map (\<lambda>t.
               (case find (\<lambda>s. sxval s = tick_v t) (rev (slices l)) of
                  None \<Rightarrow> []
                | Some s \<Rightarrow> [(tick_v t, Text (label_text t @ percent_label fl s))])) ts)
         | None \<Rightarrow> map (\<lambda>s. (sxval s, Text (jtext (sxval s) @ percent_label fl s))) (slices l))\<rparr>"

definition evaluate :: "(rat \<Rightarrow> rat) \<Rightarrow> layout \<Rightarrow> outcome" where
  "evaluate fl l0 =
     andThen (evaluateLimits l0) (\<lambda>l1.
       let l = evaluateScales fl l1
       in if style l = ''bar'' then andThen (evaluateBarCharts fl l) (evaluateBarTicks fl)
          else if style l = ''line'' then andThen (evaluateLineCharts fl l) (evaluateLineTicks fl)
          else if style l = ''pie'' then
            andThen (evaluatePieCharts fl l) (\<lambda>l. (evaluatePieTicks fl l, None))
          else (l, None))"

section \<open>Hit tests\<close>

text \<open>
  The cache of a line chart: its x values, and the greatest y value at each of them. It is
  filled when it is null, and left empty when the greatest value of a point cannot be found.
\<close>

fun set_points :: "(string \<times> dataset option) list \<Rightarrow> js_error + dataset" where
  "set_points [] = Inr []"
| "set_points ((n, None) # ds) = Inl TypeError"
| "set_points ((n, Some d) # ds) = bindE (set_points ds) (\<lambda>ps. Inr (d @ ps))"

fun greatest_ys :: "dataset \<Rightarrow> jsnum list \<Rightarrow> (jsnum \<times> jsnum option) list \<Rightarrow> (jsnum \<times> jsnum option) list \<times> js_error option" where
  "greatest_ys ps [] acc = (acc, None)"
| "greatest_ys ps (a # as) acc =
     (case listMinMax 1 (map snd (filter (\<lambda>p. fst p = a) ps)) of
        Inl e \<Rightarrow> (acc, Some e)
      | Inr m \<Rightarrow> greatest_ys ps as (acc @ [(a, m)]))"

definition regenerateHitTestCache :: "layout \<Rightarrow> outcome" where
  "regenerateHitTestCache l =
     (case uniqueXValues l of
        Inl e \<Rightarrow> (l, Some e)
      | Inr as \<Rightarrow>
          (let l1 = l\<lparr>cache_xvalues := as, cache_x2maxy := Some []\<rparr>
           in case set_points (datasets l) of
                Inl e \<Rightarrow> (l1, Some e)
              | Inr ps \<Rightarrow>
                  (case greatest_ys ps (remdups (map fst ps)) [] of
                     (m, e) \<Rightarrow> (l1\<lparr>cache_x2maxy := Some m\<rparr>, e))))"

record line_hit =
  hit_xval :: jsnum
  hit_yval :: jsnum
  xafter :: jsnum
  yafter :: jsnum
  xbefore :: jsnum
  ybefore :: jsnum
  yprojected :: jsnum

datatype hit = NoHit | HitBar bar | HitLine line_hit | HitSlice slice

definition in_bar :: "(rat \<Rightarrow> rat) \<Rightarrow> jsnum \<Rightarrow> jsnum \<Rightarrow> bar \<Rightarrow> bool" where
  "in_bar fl a b r \<longleftrightarrow> jle (bar_x r) a \<and> jle a (jadd fl (bar_x r) (bar_w r)) \<and> jle (bar_y r) b \<and>
     jle (jsub fl b (bar_y r)) (bar_h r)"

fun around :: "jsnum \<Rightarrow> jsnum list \<Rightarrow> (jsnum \<times> jsnum) option" where
  "around a (b # c # cs) = (if jless a c then Some (b, c) else around a (c # cs))"
| "around a bs = None"

definition max_y_at :: "layout \<Rightarrow> jsnum \<Rightarrow> jsnum" where
  "max_y_at l a =
     (case cache_x2maxy l of
        None \<Rightarrow> NaN
      | Some m \<Rightarrow> (case map_of m a of None \<Rightarrow> NaN | Some b \<Rightarrow> num b))"

definition hit_line :: "(rat \<Rightarrow> rat) \<Rightarrow> layout \<Rightarrow> jsnum \<Rightarrow> jsnum \<Rightarrow> hit" where
  "hit_line fl l a b =
     (let xv = jdiv fl a (num (xscale l))
      in case around xv (cache_xvalues l) of
           None \<Rightarrow> NoHit
         | Some (x0, x1) \<Rightarrow>
             (let yb = max_y_at l x0; ya = max_y_at l x1;
                  yv = jdiv fl (jsub fl (Fin 1) b) (num (yscale l));
                  gradient = jdiv fl (jsub fl ya yb) (jsub fl x1 x0);
                  proj = jadd fl yb (jmul fl gradient (jsub fl xv x0))
              in if jle yv proj then
                   HitLine \<lparr>hit_xval = xv, hit_yval = yv, xafter = x1, yafter = ya, xbefore = x0,
                     ybefore = yb, yprojected = proj\<rparr>
                 else NoHit))"

text \<open>
  \<open>hitTest\<close>. \<open>msqrt\<close> and \<open>matan2\<close> stand for \<open>Math.sqrt\<close> and \<open>Math.atan2\<close>, whose results the
  language leaves to the implementation.
\<close>

definition hitTest ::
  "(rat \<Rightarrow> rat) \<Rightarrow> (jsnum \<Rightarrow> jsnum) \<Rightarrow> (jsnum \<Rightarrow> jsnum \<Rightarrow> jsnum) \<Rightarrow> jsnum \<Rightarrow> jsnum \<Rightarrow> layout \<Rightarrow> (layout \<times> hit) \<times> js_error option" where
  "hitTest fl msqrt matan2 a b l =
     (if style l = ''bar'' \<and> bars l \<noteq> [] then
        ((l, case find (in_bar fl a b) (bars l) of None \<Rightarrow> NoHit | Some r \<Rightarrow> HitBar r), None)
      else if style l = ''line'' then
        (case (if cache_x2maxy l = None then regenerateHitTestCache l else (l, None)) of
           (l', Some e) \<Rightarrow> ((l', NoHit), Some e)
         | (l', None) \<Rightarrow> ((l', hit_line fl l' a b), None))
      else if style l = ''pie'' then
        (let dx = jsub fl a (Fin (1 / 2)); dy = jsub fl b (Fin (1 / 2));
             dist = msqrt (jadd fl (jmul fl dy dy) (jmul fl dx dx));
             ang = jsub fl (matan2 dy dx) (jdiv fl (Fin Math_PI) (Fin 2))
         in ((l, if jless (Fin (pieRadius (options l))) dist then NoHit
                 else case find (\<lambda>s. jless (startAngle s) ang \<and> jle ang (endAngle s)) (slices l) of
                        None \<Rightarrow> NoHit | Some s \<Rightarrow> HitSlice s), None))
      else ((l, NoHit), None))"

section \<open>Colour schemes\<close>

text \<open>\<open>palette\<close>: the levels in steps, as far as the fuel goes, and the colours lighter by them.\<close>

fun levels :: "nat \<Rightarrow> (rat \<Rightarrow> rat) \<Rightarrow> rat \<Rightarrow> rat \<Rightarrow> rat \<Rightarrow> rat list option" where
  "levels 0 fl a b step = None"
| "levels (Suc k) fl a b step =
     (if a \<le> b then map_option (\<lambda>r. a # r) (levels k fl (fl (a + step)) b step) else Some [])"

definition palette :: "nat \<Rightarrow> (rat \<Rightarrow> rat) \<Rightarrow> rgb \<Rightarrow> rat option \<Rightarrow> rat option \<Rightarrow> rat option \<Rightarrow> rgb list option" where
  "palette k fl c from to step =
     map_option (map (lighterColorWithLevel fl c))
       (levels k fl (case from of None \<Rightarrow> fl (- 1 / 5) | Some a \<Rightarrow> a) (case to of None \<Rightarrow> fl (2 / 5) | Some b \<Rightarrow> b)
          (case step of None \<Rightarrow> fl (1 / 10) | Some s \<Rightarrow> s))"

definition baseColors :: "(rat \<Rightarrow> rat) \<Rightarrow> rgb list" where
  "baseColors fl =
     map (\<lambda>s. the (fromHexString fl (js s)))
       [''#476fb2'', ''#be2c2b'', ''#85b730'', ''#734a99'', ''#26a1c5'', ''#fb8707'', ''#000000'']"

definition asFillColor :: "(rat \<Rightarrow> rat) \<Rightarrow> rgb \<Rightarrow> rgb" where
  "asFillColor fl c = lighterColorWithLevel fl c (fl (3 / 10))"

definition asStrokeColor :: "(rat \<Rightarrow> rat) \<Rightarrow> rgb \<Rightarrow> rgb" where
  "asStrokeColor fl c = darkerColorWithLevel fl c (fl (1 / 10))"

definition asPointColor :: "(rat \<Rightarrow> rat) \<Rightarrow> rgb \<Rightarrow> rgb" where
  "asPointColor fl c = lighterColorWithLevel fl c (fl (1 / 10))"

section \<open>Charts of finite numbers\<close>

text \<open>The datasets of named points with finite coordinates, none of them removed.\<close>

abbreviation "fin_point \<equiv> map_prod Fin Fin"

definition plain :: "(string \<times> (rat \<times> rat) list) list \<Rightarrow> (string \<times> dataset option) list" where
  "plain ps = map (\<lambda>(n, d). (n, Some (map fin_point d))) ps"

definition plain_points :: "(string \<times> (rat \<times> rat) list) list \<Rightarrow> (rat \<times> rat) list" where
  "plain_points ps = concat (map snd ps)"

lemma plain_simps [simp]:
  "plain [] = []" "plain ((n, d) # ps) = (n, Some (map fin_point d)) # plain ps"
  "length (plain ps) = length ps"
  by (simp_all add: plain_def)

lemma all_points_plain: "datasets l = plain ps \<Longrightarrow> all_points l = map fin_point (plain_points ps)"
  by (simp add: all_points_def collapse_def plain_def plain_points_def map_concat comp_def case_prod_beta)

lemma points_axes: "map fst (map fin_point ps) = map Fin (map fst ps)" "map snd (map fin_point ps) = map Fin (map snd ps)"
  by (simp_all add: comp_def)

lemma num_simps [simp]: "num (Some a) = a" "num None = Fin 0"
  by (simp_all add: num_def)

lemma jsub_Fin [simp]: "jsub fl (Fin a) (Fin b) = Fin (fl (a - b))"
  by (simp add: jsub_def)

lemma jeq_Fin [simp]: "jeq (Fin a) (Fin b) \<longleftrightarrow> a = b"
  by (simp add: jeq_def)

lemma jle_Fin [simp]: "jle (Fin a) (Fin b) \<longleftrightarrow> a \<le> b"
  by (auto simp: jle_def)

lemma jabs_Fin [simp]: "jabs (Fin a) = Fin \<bar>a\<bar>"
  by (auto simp: jabs_def)

lemma jmin_Fin [simp]: "jmin (Fin a) (Fin b) = Fin (min a b)"
  by (auto simp: jmin_def)

text \<open>The greatest and the least of a list of finite numbers.\<close>

lemma compare_nums_Fin: "compare_nums (Fin a) (Fin b) = Inr (if a = b then 0 else if a < b then -1 else 1)"
  by (simp add: compare_nums_def)

lemma extreme_Fin:
  "extreme 1 (Fin c) (map Fin xs) = Inr (Fin (Max (insert c (set xs))))"
  "extreme (-1) (Fin c) (map Fin xs) = Inr (Fin (Min (insert c (set xs))))"
proof -
  have "extreme 1 (Fin c) (map Fin xs) = Inr (Fin (fold max xs c))"
    "extreme (-1) (Fin c) (map Fin xs) = Inr (Fin (fold min xs c))"
    by (induction xs arbitrary: c) (auto simp: compare_nums_Fin max_def min_def)
  then show "extreme 1 (Fin c) (map Fin xs) = Inr (Fin (Max (insert c (set xs))))"
    "extreme (-1) (Fin c) (map Fin xs) = Inr (Fin (Min (insert c (set xs))))"
    by (simp_all add: Max.set_eq_fold Min.set_eq_fold flip: list.simps(15))
qed

lemma listMinMax_Fin:
  assumes "xs \<noteq> []"
  shows "listMinMax 1 (map Fin xs) = Inr (Some (Fin (Max (set xs))))"
    "listMinMax (-1) (map Fin xs) = Inr (Some (Fin (Min (set xs))))"
  using assms by (cases xs; simp add: listMinMax_def extreme_Fin)+

text \<open>Sorting finite numbers never throws.\<close>

definition by_key :: "('a \<Rightarrow> rat) \<Rightarrow> 'a list \<Rightarrow> 'a list" where
  "by_key key xs = array_sort (\<lambda>a b. num_order (Fin (key a)) (Fin (key b))) xs"

lemma num_order_neg: "num_order (Fin a) (Fin b) < 0 \<longleftrightarrow> a < b"
  by (simp add: num_order_def compare_nums_Fin)

lemma sort_on_Fin:
  assumes "\<And>a. key (f a) = Fin (k a)"
  shows "sort_on key (map f xs) = Inr (map f (by_key k xs))"
proof -
  let ?c = "\<lambda>a b. num_order (key a) (key b)" and ?d = "\<lambda>a b. num_order (Fin (k a)) (Fin (k b))"
  have ins: "insert_by ?c (f x) (map f ys) = map f (insert_by ?d x ys)" for x ys
    by (induction ys) (simp_all add: assms)
  have "foldl (\<lambda>acc x. insert_by ?c x acc) (map f acc) (map f xs) = map f (foldl (\<lambda>acc x. insert_by ?d x acc) acc xs)" for acc
    by (induction xs arbitrary: acc) (simp_all add: ins)
  from this [of "[]"] have "array_sort ?c (map f xs) = map f (by_key k xs)"
    by (simp add: array_sort_def by_key_def)
  moreover have "key ` set (map f xs) = Fin ` k ` set xs" by (simp add: image_image assms)
  then have "NaN \<notin> key ` set (map f xs)" by auto
  ultimately show ?thesis unfolding sort_on_def by metis
qed

lemma mset_by_key: "mset (by_key key xs) = mset xs"
  by (simp add: by_key_def array_sort_mset)

lemma set_by_key [simp]: "set (by_key key xs) = set xs"
  by (rule mset_eq_setD) (rule mset_by_key)

interpretation finite_order: weak_order "\<lambda>a b. num_order (Fin a) (Fin b)"
  by unfold_locales (auto simp: num_order_neg)

lemma sorted_by_key: "sorted (map key (by_key key xs))"
proof -
  have w: "weak_order (\<lambda>a b. num_order (Fin (key a)) (Fin (key b)))"
    by (rule weak_order_on [of "\<lambda>a b. num_order (Fin a) (Fin b)" key]) (rule finite_order.weak_order_axioms)
  show ?thesis using weak_order.array_sort_sorted [OF w, of xs]
    by (simp add: by_key_def sorted_wrt_map num_order_neg not_less)
qed

text \<open>The x values of a chart, each once and in ascending order.\<close>

lemma uniq_from_sorted:
  assumes "sorted (a # xs)"
  shows "\<exists>ys. uniq_from (Fin a) (map Fin xs) = map Fin ys \<and> sorted_wrt (<) (a # ys) \<and> set (a # ys) = set (a # xs)"
  using assms
proof (induction xs arbitrary: a)
  case Nil
  then show ?case by simp
next
  case (Cons b xs)
  show ?case
  proof (cases "b = a")
    case True
    then show ?thesis using Cons.IH [of a] Cons.prems by auto
  next
    case False
    with Cons.prems have "a < b" "sorted (b # xs)" by auto
    from Cons.IH [OF this(2)] obtain ys where "uniq_from (Fin b) (map Fin xs) = map Fin ys"
      "sorted_wrt (<) (b # ys)" "set (b # ys) = set (b # xs)" by blast
    moreover have "\<forall>x \<in> set xs. a < x" using \<open>a < b\<close> \<open>sorted (b # xs)\<close> by auto
    moreover from calculation have "\<forall>x \<in> set ys. a < x" using \<open>a < b\<close> by auto
    ultimately show ?thesis using False \<open>a < b\<close> by (intro exI [of _ "b # ys"]) simp
  qed
qed

lemma uniq_sorted:
  assumes "sorted xs"
  shows "uniq (map Fin xs) = map Fin (sorted_list_of_set (set xs))"
proof (cases xs)
  case Nil
  then show ?thesis by (simp add: uniq_def)
next
  case (Cons a as)
  with uniq_from_sorted [of a as] assms obtain ys where ys: "uniq_from (Fin a) (map Fin as) = map Fin ys"
    "sorted_wrt (<) (a # ys)" "set (a # ys) = set (a # as)" by blast
  have "sorted (a # ys) \<and> distinct (a # ys)" using ys(2) by (simp only: strict_sorted_iff)
  then have "a # ys = sorted_list_of_set (set xs)"
    using ys(3) Cons by (metis sorted_list_of_set.idem_if_sorted_distinct)
  then show ?thesis using ys(1) unfolding Cons uniq_def by (metis list.simps(5,9))
qed

lemma uniqueXValues_plain:
  assumes "datasets l = plain ps"
  shows "uniqueXValues l = Inr (map Fin (sorted_list_of_set (fst ` set (plain_points ps))))"
proof -
  have "sort_on (\<lambda>a. a) (map Fin (map fst (plain_points ps))) = Inr (map Fin (by_key (\<lambda>a. a) (map fst (plain_points ps))))"
    by (rule sort_on_Fin) simp
  moreover have "sorted (by_key (\<lambda>a. a) (map fst (plain_points ps)))"
    using sorted_by_key [of "\<lambda>a. a" "map fst (plain_points ps)"] by simp
  ultimately show ?thesis
    unfolding uniqueXValues_def all_points_plain [OF assms] points_axes by (simp add: uniq_sorted)
qed

section \<open>Limits of a chart\<close>

text \<open>
  A chart over at least one point, all of finite coordinates; an axis that the options give
  has a finite lower end, which the constructor has put into the layout.
\<close>

definition finite_end :: "jsnum option \<Rightarrow> bool" where
  "finite_end v \<longleftrightarrow> (case v of Some (Fin _) \<Rightarrow> True | _ \<Rightarrow> False)"

fun rat_of :: "jsnum option \<Rightarrow> rat" where
  "rat_of (Some (Fin a)) = a"
| "rat_of _ = 0"

lemma finite_end_rat [simp]: "finite_end v \<Longrightarrow> Some (Fin (rat_of v)) = v"
  by (auto simp: finite_end_def split: option.splits jsnum.splits)

definition chart :: "layout \<Rightarrow> (string \<times> (rat \<times> rat) list) list \<Rightarrow> bool" where
  "chart l ps \<longleftrightarrow> datasets l = plain ps \<and> plain_points ps \<noteq> [] \<and>
     (xAxis (options l) \<noteq> None \<longrightarrow> finite_end (minxval l)) \<and> (yAxis (options l) \<noteq> None \<longrightarrow> finite_end (minyval l))"

text \<open>
  The lower ends of the axes: those that are given, 0 where the origin is zero (the default),
  and the least coordinate otherwise.
\<close>

definition low_x :: "layout \<Rightarrow> (string \<times> (rat \<times> rat) list) list \<Rightarrow> rat" where
  "low_x l ps = (if xAxis (options l) \<noteq> None then rat_of (minxval l) else if xOriginIsZero (options l) then 0
     else Min (fst ` set (plain_points ps)))"

definition low_y :: "layout \<Rightarrow> (string \<times> (rat \<times> rat) list) list \<Rightarrow> rat" where
  "low_y l ps = (if yAxis (options l) \<noteq> None then rat_of (minyval l) else if yOriginIsZero (options l) then 0
     else Min (snd ` set (plain_points ps)))"

text \<open>No point lies below the lower end of an axis.\<close>

definition above_origin :: "layout \<Rightarrow> (string \<times> (rat \<times> rat) list) list \<Rightarrow> bool" where
  "above_origin l ps \<longleftrightarrow> (\<forall>(a, b) \<in> set (plain_points ps). low_x l ps \<le> a \<and> low_y l ps \<le> b)"

lemma default_above_origin:
  assumes "xAxis (options l) = None" "yAxis (options l) = None" "\<forall>(a, b) \<in> set (plain_points ps). 0 \<le> a \<and> 0 \<le> b"
  shows "above_origin l ps"
proof -
  have "Min (fst ` set (plain_points ps)) \<le> a \<and> Min (snd ` set (plain_points ps)) \<le> b" if "(a, b) \<in> set (plain_points ps)" for a b
    using Min_le [OF _ imageI [OF that, of fst]] Min_le [OF _ imageI [OF that, of snd]] by simp
  then show ?thesis using assms by (auto simp: above_origin_def low_x_def low_y_def split_beta)
qed

definition high_x :: "(string \<times> (rat \<times> rat) list) list \<Rightarrow> rat" where
  "high_x ps = Max (fst ` set (plain_points ps))"

definition high_y :: "(string \<times> (rat \<times> rat) list) list \<Rightarrow> rat" where
  "high_y ps = Max (snd ` set (plain_points ps))"

lemma evaluateLimits_chart:
  assumes "chart l ps"
  shows "evaluateLimits l = (l\<lparr>minxval := Some (Fin (low_x l ps)), minyval := Some (Fin (low_y l ps)),
    maxxval := Some (Fin (high_x ps)), maxyval := Some (Fin (high_y ps))\<rparr>, None)"
proof -
  have ne: "map fst (plain_points ps) \<noteq> []" "map snd (plain_points ps) \<noteq> []"
    and d: "datasets l = plain ps"
    and x: "xAxis (options l) \<noteq> None \<Longrightarrow> finite_end (minxval l)"
    and y: "yAxis (options l) \<noteq> None \<Longrightarrow> finite_end (minyval l)"
    using assms by (simp_all add: chart_def)
  note ex = listMinMax_Fin [OF ne(1)] listMinMax_Fin [OF ne(2)]
  show ?thesis
    unfolding evaluateLimits_def Let_def all_points_plain [OF d] points_axes ex
    by (cases "xAxis (options l) = None"; cases "yAxis (options l) = None")
      (auto simp: assign_def low_x_def low_y_def high_x_def high_y_def intro!: layout.equality finite_end_rat [symmetric] x y)
qed

lemma highest:
  assumes "p \<in> set (plain_points ps)"
  shows "fst p \<le> high_x ps" "snd p \<le> high_y ps"
  using assms by (auto simp: high_x_def high_y_def)

lemma chart_bounds:
  assumes "above_origin l ps" "p \<in> set (plain_points ps)"
  shows "low_x l ps \<le> fst p" "fst p \<le> high_x ps" "low_y l ps \<le> snd p" "snd p \<le> high_y ps"
  using assms highest [OF assms(2)] by (auto simp: above_origin_def)

definition fin_scale :: "(rat \<Rightarrow> rat) \<Rightarrow> rat \<Rightarrow> rat" where
  "fin_scale fl d = (if d = 0 then 1 else fl (1 / d))"

lemma scale_of_Fin: "scale_of fl (Fin d) = Fin (fin_scale fl d)"
  by (simp add: scale_of_def fin_scale_def)

text \<open>The layout with the limits and scales of the chart, on which the charts are drawn.\<close>

definition scaled :: "(rat \<Rightarrow> rat) \<Rightarrow> layout \<Rightarrow> (string \<times> (rat \<times> rat) list) list \<Rightarrow> layout" where
  "scaled fl l ps = evaluateScales fl (l\<lparr>minxval := Some (Fin (low_x l ps)), minyval := Some (Fin (low_y l ps)),
    maxxval := Some (Fin (high_x ps)), maxyval := Some (Fin (high_y ps))\<rparr>)"

lemma scaled_simps [simp]:
  "minxval (scaled fl l ps) = Some (Fin (low_x l ps))" "minyval (scaled fl l ps) = Some (Fin (low_y l ps))"
  "xrange (scaled fl l ps) = Fin (fl (high_x ps - low_x l ps))"
  "yrange (scaled fl l ps) = Fin (fl (high_y ps - low_y l ps))"
  "xscale (scaled fl l ps) = Some (Fin (fin_scale fl (fl (high_x ps - low_x l ps))))"
  "yscale (scaled fl l ps) = Some (Fin (fin_scale fl (fl (high_y ps - low_y l ps))))"
  "datasets (scaled fl l ps) = datasets l" "options (scaled fl l ps) = options l" "style (scaled fl l ps) = style l"
  by (simp_all add: scaled_def evaluateScales_def Let_def scale_of_Fin)

text \<open>A coordinate scaled to the range of its axis lies between 0 and 1, whatever is rounded.\<close>

context rounding
begin

lemma scaled_position:
  assumes "m \<le> a" "a \<le> M"
  shows "0 \<le> fl (fl (a - m) * fin_scale fl (fl (M - m)))" "fl (fl (a - m) * fin_scale fl (fl (M - m))) \<le> 1"
proof -
  define d where "d = fl (M - m)"
  have a: "0 \<le> fl (a - m)" "fl (a - m) \<le> d" using assms by (simp_all add: d_def nonneg mono)
  from a have "0 \<le> d" by (rule order_trans)
  then have "0 \<le> fin_scale fl d" by (simp add: fin_scale_def nonneg)
  then show "0 \<le> fl (fl (a - m) * fin_scale fl (fl (M - m)))" using a(1) by (simp add: nonneg d_def)
  show "fl (fl (a - m) * fin_scale fl (fl (M - m))) \<le> 1"
  proof (cases "d = 0")
    case True
    with a have "fl (a - m) = 0" by simp
    then show ?thesis by (simp add: zero)
  next
    case False
    with \<open>0 \<le> d\<close> have "0 < d" by simp
    then show ?thesis using scaled_le_1 [OF _ a(2)] False by (simp add: fin_scale_def flip: d_def)
  qed
qed

end

end
