(* ===== verification/PlotCharts.thy ===== *)
theory PlotCharts
  imports PlotLayout
begin

text \<open>
  The charts of PlotKit are laid out as they should be: theorems on line charts, in the
  arithmetic of doubles, on pie charts and bar charts, and on what removed datasets, given
  axes and the cache of the hit test do to them.
\<close>

section \<open>Line charts\<close>

lemma position_cong:
  "minxval l = minxval l' \<Longrightarrow> xscale l = xscale l' \<Longrightarrow> x_position fl l a = x_position fl l' a"
  "minyval l = minyval l' \<Longrightarrow> yscale l = yscale l' \<Longrightarrow> y_height fl l b = y_height fl l' b"
  by (simp_all add: x_position_def y_height_def)

lemma line_point_update [simp]:
  "line_point fl (l\<lparr>points := P\<rparr>) = line_point fl l" "line_point fl (l\<lparr>datasets := D\<rparr>) = line_point fl l"
  by (simp_all add: line_point_def x_position_def y_height_def fun_eq_iff)

definition sorted_sets :: "(string \<times> (rat \<times> rat) list) list \<Rightarrow> (string \<times> (rat \<times> rat) list) list" where
  "sorted_sets ps = map (\<lambda>(n, d). (n, by_key fst d)) ps"

definition drawn :: "(rat \<Rightarrow> rat) \<Rightarrow> layout \<Rightarrow> (string \<times> (rat \<times> rat) list) list \<Rightarrow> point list" where
  "drawn fl l ps = concat (map (\<lambda>(n, d). map (line_point fl l n \<circ> fin_point) d) ps)"

lemma line_points_plain:
  "line_points fl prev (plain ps) l =
     (l\<lparr>points := points l @ drawn fl l (sorted_sets ps), datasets := prev @ plain (sorted_sets ps)\<rparr>, None)"
proof (induction ps arbitrary: prev l)
  case Nil
  then show ?case by (simp add: drawn_def sorted_sets_def)
next
  case (Cons p ps)
  obtain n d where p: "p = (n, d)" by (cases p)
  have "sort_on fst (map fin_point d) = Inr (map fin_point (by_key fst d))"
    by (rule sort_on_Fin) simp
  then show ?case using Cons.IH [of "prev @ [(n, Some (map fin_point (by_key fst d)))]"]
    by (simp add: p drawn_def sorted_sets_def)
qed

text \<open>The points of a line chart: those of every dataset in the order of their x values.\<close>

lemma evaluateLineTicks_keeps:
  assumes "datasets l = plain ps"
  shows "snd (evaluateLineTicks fl l) = None" "points (fst (evaluateLineTicks fl l)) = points l"
    "datasets (fst (evaluateLineTicks fl l)) = datasets l" "bars (fst (evaluateLineTicks fl l)) = bars l"
proof -
  have x: "snd (evaluateLineTicksForXAxis fl l) = None \<and> points (fst (evaluateLineTicksForXAxis fl l)) = points l \<and>
      datasets (fst (evaluateLineTicksForXAxis fl l)) = datasets l \<and> bars (fst (evaluateLineTicksForXAxis fl l)) = bars l"
    using uniqueXValues_plain [OF assms] by (simp add: evaluateLineTicksForXAxis_def assign_def Let_def split: option.split)
  then obtain k where k: "evaluateLineTicksForXAxis fl l = (k, None)" "points k = points l" "datasets k = datasets l" "bars k = bars l"
    by (cases "evaluateLineTicksForXAxis fl l") auto
  show "snd (evaluateLineTicks fl l) = None" "points (fst (evaluateLineTicks fl l)) = points l"
    "datasets (fst (evaluateLineTicks fl l)) = datasets l" "bars (fst (evaluateLineTicks fl l)) = bars l"
    using k by (simp_all add: evaluateLineTicks_def evaluateLineTicksForYAxis_def Let_def split: option.split)
qed

lemma evaluate_line:
  assumes "chart l ps" "style l = ''line''"
  shows "snd (evaluate fl l) = None" "points (fst (evaluate fl l)) = drawn fl (scaled fl l ps) (sorted_sets ps)"
    "datasets (fst (evaluate fl l)) = plain (sorted_sets ps)"
proof -
  have d: "datasets (scaled fl l ps) = plain ps" using assms(1) by (simp add: chart_def)
  define k where "k = (scaled fl l ps)\<lparr>points := drawn fl (scaled fl l ps) (sorted_sets ps), datasets := plain (sorted_sets ps)\<rparr>"
  have "line_point fl (scaled fl l ps\<lparr>points := []\<rparr>) = line_point fl (scaled fl l ps)" by simp
  then have "drawn fl (scaled fl l ps\<lparr>points := []\<rparr>) = drawn fl (scaled fl l ps)" unfolding drawn_def by simp
  then have "evaluateLineCharts fl (scaled fl l ps) = (k, None)"
    unfolding evaluateLineCharts_def d line_points_plain by (simp add: k_def)
  then have e: "evaluate fl l = evaluateLineTicks fl k"
    unfolding evaluate_def evaluateLimits_chart [OF assms(1)] using assms(2) by (simp add: Let_def scaled_def [symmetric])
  have "datasets k = plain (sorted_sets ps)" by (simp add: k_def)
  note keeps = evaluateLineTicks_keeps [OF this]
  show "snd (evaluate fl l) = None" "points (fst (evaluate fl l)) = drawn fl (scaled fl l ps) (sorted_sets ps)"
    "datasets (fst (evaluate fl l)) = plain (sorted_sets ps)"
    unfolding e keeps by (simp_all add: k_def)
qed

lemma set_drawn: "p \<in> set (drawn fl l ps) \<Longrightarrow> \<exists>n a b. (a, b) \<in> set (plain_points ps) \<and> p = line_point fl l n (Fin a, Fin b)"
proof -
  assume "p \<in> set (drawn fl l ps)"
  then obtain n d a b where "(n, d) \<in> set ps" "(a, b) \<in> set d" "p = line_point fl l n (Fin a, Fin b)"
    by (auto simp: drawn_def)
  moreover from this have "(a, b) \<in> set (plain_points ps)" by (force simp: plain_points_def)
  ultimately show ?thesis by blast
qed

lemma set_sorted_sets: "set (plain_points (sorted_sets ps)) = set (plain_points ps)"
  by (simp add: plain_points_def sorted_sets_def image_comp comp_def case_prod_beta)

definition in_area :: "jsnum \<Rightarrow> bool" where
  "in_area a \<longleftrightarrow> jle (Fin 0) a \<and> jle a (Fin 1)"

lemma in_area_Fin [simp]: "in_area (Fin a) \<longleftrightarrow> 0 \<le> a \<and> a \<le> 1"
  by (simp add: in_area_def)

context rounding
begin

lemma line_point_in_area:
  assumes "(a, b) \<in> set (plain_points ps)"
  shows "low_x l ps \<le> a \<Longrightarrow> in_area (px (line_point fl (scaled fl l ps) n (Fin a, Fin b)))"
    and "low_y l ps \<le> b \<Longrightarrow> in_area (py (line_point fl (scaled fl l ps) n (Fin a, Fin b)))"
  using scaled_position [OF _ highest(1) [OF assms, simplified], of "low_x l ps"]
    scaled_position [OF _ highest(2) [OF assms, simplified], of "low_y l ps"]
  by (simp_all add: line_point_def x_position_def y_height_def nonneg le_1)

lemma line_chart_in_area:
  assumes "chart l ps" "style l = ''line''"
  shows "snd (evaluate fl l) = None \<and> (\<forall>p \<in> set (points (fst (evaluate fl l))).
    \<exists>a b. pxval p = Fin a \<and> pyval p = Fin b \<and> (a, b) \<in> set (plain_points ps) \<and>
      (low_x l ps \<le> a \<longrightarrow> in_area (px p)) \<and> (low_y l ps \<le> b \<longrightarrow> in_area (py p)))"
proof -
  have "\<exists>a b. pxval p = Fin a \<and> pyval p = Fin b \<and> (a, b) \<in> set (plain_points ps) \<and>
      (low_x l ps \<le> a \<longrightarrow> in_area (px p)) \<and> (low_y l ps \<le> b \<longrightarrow> in_area (py p))"
    if "p \<in> set (drawn fl (scaled fl l ps) (sorted_sets ps))" for p
  proof -
    from set_drawn [OF that] obtain n a b where p: "(a, b) \<in> set (plain_points ps)"
      "p = line_point fl (scaled fl l ps) n (Fin a, Fin b)" by (auto simp: set_sorted_sets)
    moreover from p have "pxval p = Fin a" "pyval p = Fin b" by (simp_all add: line_point_def)
    ultimately show ?thesis using line_point_in_area [OF p(1), of l n] by blast
  qed
  then show ?thesis unfolding evaluate_line [OF assms] by simp
qed

end

text \<open>
  C28. A line chart over at least one point, all of finite coordinates, is evaluated without an
  exception, and every point it draws is one of these. In the arithmetic of doubles a drawn
  point lies inside the drawing area horizontally when its x value is not below the lower end
  of the x axis, and vertically when its y value is not below that of the y axis: the end
  that the options give, else 0 when the origin is zero, which is the default, else the least
  coordinate of the data. (A value below the lower end is drawn outside, see below.)
\<close>

theorem line_chart_inside:
  assumes "chart l ps" "style l = ''line''"
  shows "snd (evaluate double l) = None \<and> (\<forall>p \<in> set (points (fst (evaluate double l))).
    \<exists>a b. pxval p = Fin a \<and> pyval p = Fin b \<and> (a, b) \<in> set (plain_points ps) \<and>
      (low_x l ps \<le> a \<longrightarrow> in_area (px p)) \<and> (low_y l ps \<le> b \<longrightarrow> in_area (py p)))"
  using assms by (rule double.line_chart_in_area)

theorem line_chart_inside_witness:
  "list_all (\<lambda>p. in_area (px p)) (points (fst (evaluate double
      (addDataset ''a'' [(Fin 3, Fin (-1)), (Fin 1, Fin 7)] (Layout double ''line'' default_options)))))"
proof -
  let ?l = "addDataset ''a'' [(Fin 3, Fin (-1)), (Fin 1, Fin 7)] (Layout double ''line'' default_options)"
  have "chart ?l [(''a'', [(3, -1), (1, 7)])]" "style ?l = ''line''" "low_x ?l [(''a'', [(3, -1), (1, 7)])] = 0"
    by (simp_all add: chart_def low_x_def Layout_def addDataset_def default_options_def plain_points_def)
  note low = this(3) and inside = line_chart_inside [OF this(1,2), THEN conjunct2]
  show ?thesis unfolding list_all_iff
  proof
    fix p assume "p \<in> set (points (fst (evaluate double ?l)))"
    with inside obtain a b where "(a, b) \<in> set (plain_points [(''a'', [(3, -1), (1, 7)])])"
      "low_x ?l [(''a'', [(3, -1), (1, 7)])] \<le> a \<longrightarrow> in_area (px p)" by blast
    then show "in_area (px p)" unfolding low by (auto simp: plain_points_def)
  qed
qed

text \<open>
  The condition is needed: a point whose y value is below the lower end of the axis, such as a
  negative one with the default options, is drawn below the drawing area.
\<close>

theorem low_point_outside:
  assumes "chart l ps" "style l = ''line''" "(n, d) \<in> set ps" "(a, b) \<in> set d" "b < low_y l ps" "low_y l ps < high_y ps"
  shows "\<exists>p \<in> set (points (fst (evaluate (\<lambda>x. x) l))). pxval p = Fin a \<and> pyval p = Fin b \<and> \<not> in_area (py p)"
proof -
  let ?p = "line_point (\<lambda>x. x) (scaled (\<lambda>x. x) l ps) n (Fin a, Fin b)"
  have "(n, by_key fst d) \<in> set (sorted_sets ps)" using assms(3) by (force simp: sorted_sets_def)
  then have "?p \<in> set (drawn (\<lambda>x. x) (scaled (\<lambda>x. x) l ps) (sorted_sets ps))"
    unfolding drawn_def set_concat set_map
    by (intro UN_I [of "map (line_point (\<lambda>x. x) (scaled (\<lambda>x. x) l ps) n \<circ> fin_point) (by_key fst d)"] image_eqI [of _ _ "(n, by_key fst d)"])
      (use assms(4) in \<open>auto intro!: image_eqI [of _ _ "(a, b)"]\<close>)
  moreover have "(b - low_y l ps) * (1 / (high_y ps - low_y l ps)) < 0"
    using assms(5,6) by (intro mult_neg_pos) simp_all
  then have "\<not> in_area (py ?p)" using assms(6) by (simp add: line_point_def y_height_def fin_scale_def)
  ultimately show ?thesis unfolding evaluate_line [OF assms(1,2)] by (intro bexI [of _ ?p]) (simp_all add: line_point_def)
qed

theorem low_point_outside_witness:
  "\<exists>p \<in> set (points (fst (evaluate (\<lambda>x. x)
      (addDataset ''a'' [(Fin 3, Fin (-1)), (Fin 1, Fin 7)] (Layout double ''line'' default_options))))). \<not> in_area (py p)"
proof -
  let ?l = "addDataset ''a'' [(Fin 3, Fin (-1)), (Fin 1, Fin 7)] (Layout double ''line'' default_options)"
    and ?ps = "[(''a'', [(3, -1), (1, 7)])] :: (string \<times> (rat \<times> rat) list) list"
  have "chart ?l ?ps" "style ?l = ''line''" "(''a'', [(3, -1), (1, 7)]) \<in> set ?ps" "(3, -1) \<in> set [(3, -1), (1, 7 :: rat)]"
    "-1 < low_y ?l ?ps" "low_y ?l ?ps < high_y ?ps"
    by (simp_all add: chart_def low_y_def high_y_def Layout_def addDataset_def default_options_def plain_points_def)
  from low_point_outside [OF this] show ?thesis by blast
qed

lemma filter_drawn:
  assumes "distinct (map fst ps)" "(n, d) \<in> set ps"
  shows "filter (\<lambda>p. pname p = n) (drawn fl l ps) = map (line_point fl l n \<circ> fin_point) d"
  using assms
proof (induction ps)
  case (Cons p ps)
  obtain m e where p: "p = (m, e)" by (cases p)
  have e: "filter (\<lambda>q. pname q = n) (map (line_point fl l m \<circ> fin_point) e) =
      (if m = n then map (line_point fl l m \<circ> fin_point) e else [])"
    by (auto simp: filter_map comp_def line_point_def)
  show ?case
  proof (cases "m = n")
    case True
    with Cons.prems p have "d = e" "n \<notin> fst ` set ps" by force+
    moreover from this have "filter (\<lambda>q. pname q = n) (drawn fl l ps) = []"
      by (force simp: drawn_def filter_empty_conv line_point_def)
    ultimately show ?thesis using True e by (simp add: drawn_def p)
  next
    case False
    then show ?thesis using Cons e by (simp add: drawn_def p)
  qed
qed simp

text \<open>
  Every point of a dataset is drawn once, from left to right; this does not depend on the
  arithmetic.
\<close>

theorem line_chart_complete:
  fixes fl :: "rat \<Rightarrow> rat"
  assumes "chart l ps" "style l = ''line''" "(n, d) \<in> set ps" "distinct (map fst ps)"
  shows "\<exists>P. filter (\<lambda>p. pname p = n) (points (fst (evaluate fl l))) = P \<and>
    mset (map (\<lambda>p. (pxval p, pyval p)) P) = mset (map fin_point d) \<and> sorted_wrt (\<lambda>p q. jle (pxval p) (pxval q)) P"
proof -
  let ?P = "map (line_point fl (scaled fl l ps) n \<circ> fin_point) (by_key fst d)"
  have "(n, by_key fst d) \<in> set (sorted_sets ps)" "distinct (map fst (sorted_sets ps))"
    using assms(3,4) by (force simp: sorted_sets_def comp_def case_prod_beta)+
  from filter_drawn [OF this(2,1)]
  have "filter (\<lambda>p. pname p = n) (points (fst (evaluate fl l))) = ?P" unfolding evaluate_line [OF assms(1,2)] .
  moreover have "map (\<lambda>p. (pxval p, pyval p)) ?P = map fin_point (by_key fst d)"
    by (simp add: line_point_def comp_def map_prod_def case_prod_beta)
  then have "mset (map (\<lambda>p. (pxval p, pyval p)) ?P) = mset (map fin_point d)"
    by (simp only: mset_map mset_by_key)
  moreover have "sorted_wrt (\<lambda>p q. jle (pxval p) (pxval q)) ?P"
    using sorted_by_key [of fst d] by (simp add: sorted_wrt_map line_point_def)
  ultimately show ?thesis by blast
qed

theorem line_chart_complete_witness:
  "\<exists>P. filter (\<lambda>p. pname p = ''a'')
       (points (fst (evaluate double (addDataset ''a'' [(Fin 3, Fin 1), (Fin 1, Fin 7)] (Layout double ''line'' default_options))))) = P \<and>
     mset (map (\<lambda>p. (pxval p, pyval p)) P) = mset (map fin_point [(3, 1), (1, 7)]) \<and>
     sorted_wrt (\<lambda>p q. jle (pxval p) (pxval q)) P"
  by (rule line_chart_complete [where ps = "[(''a'', [(3, 1), (1, 7)])]"])
    (simp_all add: chart_def Layout_def addDataset_def default_options_def plain_points_def)

section \<open>Pie charts\<close>

lemma pie_slices_length: "length (pie_slices fl t c d) = length d"
  by (induction d arbitrary: c) (auto simp: Let_def)

text \<open>Every slice starts where the one before ended, to the last bit.\<close>

lemma pie_slices_start: "d \<noteq> [] \<Longrightarrow> startAngle (hd (pie_slices fl t c d)) = angle fl c"
  by (cases d) (auto simp: Let_def)

lemma pie_slices_contiguous:
  "successively (\<lambda>s s'. startAngle s' = endAngle s) (pie_slices fl t c d)"
proof (induction d arbitrary: c)
  case (Cons p d)
  note IH = Cons.IH
  obtain a b where p: "p = (a, b)" by (cases p)
  let ?c = "jadd fl c (jdiv fl b t)"
  have start: "startAngle s = angle fl ?c" if "pie_slices fl t ?c d = s # ss" for s ss
    using pie_slices_start [of d fl t ?c] that by (cases d) auto
  show ?case
  proof (cases "pie_slices fl t ?c d")
    case Nil
    then show ?thesis by (simp add: p Let_def)
  next
    case (Cons s ss)
    then show ?thesis using start [OF Cons] IH [of ?c] by (simp add: p Let_def)
  qed
qed simp

lemma pie_fractions:
  assumes "t \<noteq> 0"
  shows "map fraction (pie_slices (\<lambda>x. x) (Fin t) (Fin c) (map fin_point d)) = map (\<lambda>(a, b). Fin (b / t)) d"
    "map endAngle (pie_slices (\<lambda>x. x) (Fin t) (Fin c) (map fin_point (d @ [(a, b)]))) =
       map endAngle (pie_slices (\<lambda>x. x) (Fin t) (Fin c) (map fin_point d)) @
       [angle (\<lambda>x. x) (Fin (c + (sum_list (map snd d) + b) / t))]"
  using assms
  by (induction d arbitrary: c) (auto simp: Let_def add_divide_distrib add.assoc)

lemma total_plain: "foldl (jadd (\<lambda>x. x)) (Fin c) (map Fin bs) = Fin (c + sum_list bs)"
  by (induction bs arbitrary: c) (auto simp: add.assoc)

lemma evaluate_pie:
  assumes "chart l ((n, d) # ps)" "style l = ''pie''"
  shows "snd (evaluate fl l) = None" "slices (fst (evaluate fl l)) = pie_slices fl (total_y fl (map fin_point d)) (Fin 0) (map fin_point d)"
  using assms evaluateLimits_chart [OF assms(1)]
  by (simp_all add: evaluate_def evaluatePieCharts_def evaluatePieTicks_def Let_def chart_def scaled_def [symmetric])

text \<open>
  C34. A pie chart of finite values is evaluated without an exception; its slices are those of
  the first dataset, the first begins at 0 and every slice at the angle where the one before
  ends; in exact arithmetic, when the values do not sum up to 0, the fractions sum up to 1
  and the last slice ends with the full circle.
\<close>

theorem pie_covers_circle:
  assumes "chart l ((n, d) # ps)" "style l = ''pie''" "d \<noteq> []" "sum_list (map snd d) \<noteq> 0"
  shows "snd (evaluate fl l) = None \<and>
    startAngle (hd (slices (fst (evaluate fl l)))) = angle fl (Fin 0) \<and>
    successively (\<lambda>s s'. startAngle s' = endAngle s) (slices (fst (evaluate fl l))) \<and>
    foldl (jadd (\<lambda>x. x)) (Fin 0) (map fraction (slices (fst (evaluate (\<lambda>x. x) l)))) = Fin 1 \<and>
    endAngle (last (slices (fst (evaluate (\<lambda>x. x) l)))) = angle (\<lambda>x. x) (Fin 1)"
proof -
  let ?S = "\<lambda>fl. pie_slices fl (total_y fl (map fin_point d)) (Fin 0) (map fin_point d)"
  let ?t = "sum_list (map snd d)"
  have t: "total_y (\<lambda>x. x) (map fin_point d) = Fin ?t"
    unfolding total_y_def points_axes total_plain by simp
  have "map fraction (?S (\<lambda>x. x)) = map Fin (map (\<lambda>p. snd p / ?t) d)"
    unfolding t by (simp add: pie_fractions(1) [OF assms(4)] case_prod_beta)
  then have "foldl (jadd (\<lambda>x. x)) (Fin 0) (map fraction (?S (\<lambda>x. x))) = Fin (sum_list (map (\<lambda>p. snd p / ?t) d))"
    by (simp only: total_plain) simp
  also have "sum_list (map (\<lambda>p. snd p / ?t) d) = ?t / ?t"
    using sum_list_mult_const [of snd "1 / ?t" d] by simp
  finally have one: "foldl (jadd (\<lambda>x. x)) (Fin 0) (map fraction (?S (\<lambda>x. x))) = Fin 1" using assms(4) by simp
  obtain e a b where d: "d = e @ [(a, b)]" using assms(3) by (metis rev_exhaust surj_pair)
  have ne: "?S (\<lambda>x. x) \<noteq> []" using assms(3) pie_slices_length [of "\<lambda>x. x" _ _ "map fin_point d"] by (metis length_0_conv map_is_Nil_conv)
  have "last (map endAngle (?S (\<lambda>x. x))) = angle (\<lambda>x. x) (Fin 1)"
    unfolding t using pie_fractions(2) [OF assms(4), of 0 e a b] assms(4) by (simp add: d)
  then have "endAngle (last (?S (\<lambda>x. x))) = angle (\<lambda>x. x) (Fin 1)" using ne by (simp add: last_map)
  moreover have "startAngle (hd (?S fl)) = angle fl (Fin 0)" using assms(3) by (intro pie_slices_start) simp
  ultimately show ?thesis
    unfolding evaluate_pie [OF assms(1,2)] using one pie_slices_contiguous by blast
qed

theorem pie_covers_circle_witness:
  "endAngle (last (slices (fst (evaluate (\<lambda>x. x)
     (addDataset ''a'' [(Fin 1, Fin 3), (Fin 2, Fin 5)] (Layout double ''pie'' default_options)))))) = Fin (2 * Math_PI)"
proof -
  let ?l = "addDataset ''a'' [(Fin 1, Fin 3), (Fin 2, Fin 5)] (Layout double ''pie'' default_options)"
  have "chart ?l ((''a'', [(1, 3), (2, 5)]) # [])" "style ?l = ''pie''"
    by (simp_all add: chart_def Layout_def addDataset_def default_options_def plain_points_def)
  from pie_covers_circle [OF this, of "\<lambda>x. x"] show ?thesis by (simp add: angle_def)
qed

section \<open>Bar charts\<close>

text \<open>The smallest gap between two of the x values.\<close>

lemma gaps_bound:
  assumes "sorted_wrt (<) xs" "0 < e"
  shows "\<exists>d. gaps (\<lambda>x. x) (Fin e) (map Fin xs) = Fin d \<and> 0 < d \<and> d \<le> e \<and> (\<forall>a \<in> set xs. \<forall>b \<in> set xs. a < b \<longrightarrow> d \<le> b - a)"
  using assms
proof (induction xs arbitrary: e)
  case (Cons a xs)
  show ?case
  proof (cases xs)
    case Nil
    then show ?thesis using Cons.prems by auto
  next
    case (Cons b ys)
    with \<open>sorted_wrt (<) (a # xs)\<close> have ab: "a < b" "sorted_wrt (<) xs" "\<forall>c \<in> set xs. b \<le> c" by auto
    have "0 < min (b - a) e" using ab(1) \<open>0 < e\<close> by simp
    from Cons.IH [OF ab(2) this] obtain d where d: "gaps (\<lambda>x. x) (Fin (min (b - a) e)) (map Fin xs) = Fin d"
      "0 < d" "d \<le> min (b - a) e" "\<forall>a \<in> set xs. \<forall>b \<in> set xs. a < b \<longrightarrow> d \<le> b - a" by blast
    have "gaps (\<lambda>x. x) (Fin e) (map Fin (a # xs)) = Fin d"
      using d(1) ab(1) Cons by simp
    moreover have "d \<le> c - a" if "c \<in> set xs" for c using ab(3) that d(3) by fastforce
    moreover have "\<not> c < a" if "c \<in> set xs" for c using ab(1,3) that by fastforce
    ultimately show ?thesis using d by (intro exI [of _ d]) auto
  qed
qed simp

lemma bar_rect_update [simp]: "bar_rect fl (l\<lparr>bars := B\<rparr>) = bar_rect fl l"
  by (simp add: bar_rect_def x_position_def y_height_def fun_eq_iff)

lemma bar_rects_plain:
  "\<exists>B. bar_rects fl ws mg i (plain ps) l = (l\<lparr>bars := bars l @ B\<rparr>, None) \<and>
     (\<forall>r \<in> set B. \<exists>k n p. i \<le> k \<and> k < i + length ps \<and> p \<in> set (plain_points ps) \<and> r = bar_rect fl l ws mg k n (fin_point p))"
proof (induction ps arbitrary: i l)
  case (Cons q ps)
  obtain n d where q: "q = (n, d)" by (cases q)
  let ?l = "l\<lparr>bars := bars l @ map (bar_rect fl l ws mg i n) (map fin_point d)\<rparr>"
  from Cons.IH [of "Suc i" ?l] obtain B where B:
    "bar_rects fl ws mg (Suc i) (plain ps) ?l = (?l\<lparr>bars := bars ?l @ B\<rparr>, None)"
    "\<forall>r \<in> set B. \<exists>k n p. Suc i \<le> k \<and> k < Suc i + length ps \<and> p \<in> set (plain_points ps) \<and> r = bar_rect fl l ws mg k n (fin_point p)"
    by auto
  let ?B = "map (bar_rect fl l ws mg i n) (map fin_point d) @ B"
  have "\<exists>k n p. i \<le> k \<and> k < i + length (q # ps) \<and> p \<in> set (plain_points (q # ps)) \<and> r = bar_rect fl l ws mg k n (fin_point p)"
    if "r \<in> set ?B" for r
  proof (cases "r \<in> set B")
    case True
    with B(2) obtain k n p where "Suc i \<le> k" "k < Suc i + length ps" "p \<in> set (plain_points ps)"
      "r = bar_rect fl l ws mg k n (fin_point p)" by blast
    then show ?thesis by (intro exI [of _ k] exI [of _ n] exI [of _ p]) (auto simp: plain_points_def)
  next
    case False
    with that obtain p where "p \<in> set d" "r = bar_rect fl l ws mg i n (fin_point p)" by auto
    then show ?thesis by (intro exI [of _ i] exI [of _ n] exI [of _ p]) (auto simp: plain_points_def q)
  qed
  moreover have "bar_rects fl ws mg i (plain (q # ps)) l = (l\<lparr>bars := bars l @ ?B\<rparr>, None)"
    using B(1) by (simp add: q)
  ultimately show ?case by (intro exI [of _ ?B]) blast
qed (auto intro: exI [of _ "[]"])

lemma evaluateBarTicks_keeps:
  assumes "datasets l = plain ps"
  shows "snd (evaluateBarTicks fl l) = None" "bars (fst (evaluateBarTicks fl l)) = bars l"
    "datasets (fst (evaluateBarTicks fl l)) = datasets l"
proof -
  obtain k where "evaluateLineTicks fl l = (k, None)" "bars k = bars l" "datasets k = datasets l"
    using evaluateLineTicks_keeps [OF assms, of fl] by (cases "evaluateLineTicks fl l") auto
  then show "snd (evaluateBarTicks fl l) = None" "bars (fst (evaluateBarTicks fl l)) = bars l"
    "datasets (fst (evaluateBarTicks fl l)) = datasets l"
    by (simp_all add: evaluateBarTicks_def)
qed

text \<open>
  The bars at one x value: side by side in a room \<open>g\<close> that the scale leaves between two x
  values.
\<close>

definition placed :: "rat \<Rightarrow> rat set \<Rightarrow> (rat \<Rightarrow> rat) \<Rightarrow> bar \<Rightarrow> bool" where
  "placed g X pos r \<longleftrightarrow>
     (\<exists>a s t. bar_xval r = Fin a \<and> a \<in> X \<and> bar_x r = Fin (pos a + s) \<and> bar_w r = Fin t \<and>
        0 \<le> s \<and> 0 \<le> t \<and> s + t \<le> g)"

lemma side_by_side:
  fixes g fill :: rat
  assumes "k < n" "0 \<le> fill" "fill \<le> 1" "0 \<le> g"
  defines "t \<equiv> g * fill / of_nat n" and "mg \<equiv> g * (1 - fill) / 2"
  shows "0 \<le> of_nat k * t + mg" "0 \<le> t" "of_nat k * t + mg + t \<le> g"
proof -
  have "0 \<le> g * (1 - fill)" using assms(3,4) by simp
  then have mg: "0 \<le> mg" "mg \<le> g * (1 - fill)" unfolding mg_def by linarith+
  show t: "0 \<le> t" using assms by (simp add: t_def)
  with mg show "0 \<le> of_nat k * t + mg" by simp
  have "of_nat n * t = g * fill" using assms(1) by (simp add: t_def)
  moreover have "of_nat (Suc k) * t \<le> of_nat n * t" using assms(1) t by (intro mult_right_mono) simp_all
  ultimately have "of_nat k * t + t \<le> g * fill" by (simp add: ring_distribs)
  with mg show "of_nat k * t + mg + t \<le> g" by (simp add: right_diff_distrib)
qed

lemma bar_rects_placed:
  assumes "above_origin l ps" "0 \<le> fill" "fill \<le> 1" "0 \<le> g"
    and "bars l' = []" "minxval l' = Some (Fin m)" "xscale l' = Some (Fin sc)"
    and "minyval l' = Some (Fin (low_y l ps))" "yscale l' = Some (Fin (fin_scale (\<lambda>x. x) (high_y ps - low_y l ps)))"
  shows "\<exists>B. bar_rects (\<lambda>x. x) (Fin (g * fill / of_nat (length ps))) (Fin (g * (1 - fill) / 2)) 0 (plain ps) l' = (l'\<lparr>bars := B\<rparr>, None) \<and>
    (\<forall>r \<in> set B. placed g (fst ` set (plain_points ps)) (\<lambda>a. (a - m) * sc) r \<and> in_area (bar_y r) \<and> in_area (bar_h r))"
proof -
  let ?ws = "g * fill / of_nat (length ps)" and ?mg = "g * (1 - fill) / 2"
  from bar_rects_plain [of "\<lambda>x. x" "Fin ?ws" "Fin ?mg" 0 ps l'] obtain B where
    B: "bar_rects (\<lambda>x. x) (Fin ?ws) (Fin ?mg) 0 (plain ps) l' = (l'\<lparr>bars := B\<rparr>, None)"
    and mem: "\<forall>r \<in> set B. \<exists>k n p. k < length ps \<and> p \<in> set (plain_points ps) \<and> r = bar_rect (\<lambda>x. x) l' (Fin ?ws) (Fin ?mg) k n (fin_point p)"
    unfolding assms(5) by auto
  have "placed g (fst ` set (plain_points ps)) (\<lambda>a. (a - m) * sc) r \<and> in_area (bar_y r) \<and> in_area (bar_h r)"
    if "r \<in> set B" for r
  proof -
    from mem that obtain k n p where r: "k < length ps" "p \<in> set (plain_points ps)"
      "r = bar_rect (\<lambda>x. x) l' (Fin ?ws) (Fin ?mg) k n (fin_point p)" by blast
    note c = chart_bounds [OF assms(1) r(2)]
    note s = side_by_side [OF r(1) assms(2-4)]
    have "bar_xval r = Fin (fst p)" "bar_x r = Fin ((fst p - m) * sc + (of_nat k * ?ws + ?mg))" "bar_w r = Fin ?ws"
      using assms(6,7) by (simp_all add: r(3) bar_rect_def x_position_def)
    then have "placed g (fst ` set (plain_points ps)) (\<lambda>a. (a - m) * sc) r"
      unfolding placed_def using s r(2) by (auto simp: add_ac)
    moreover have "in_area (bar_y r) \<and> in_area (bar_h r)"
      using exact.scaled_position [OF c(3,4)] assms(8,9) by (simp add: r(3) bar_rect_def y_height_def)
    ultimately show ?thesis by blast
  qed
  with B show ?thesis by blast
qed


text \<open>Bars placed in their rooms do not overlap and stay in the area, when the scale leaves the rooms.\<close>

lemma placed_apart:
  assumes "placed g X pos r" "placed g X pos r'" "jless (bar_xval r) (bar_xval r')"
    and "\<And>a b. a \<in> X \<Longrightarrow> b \<in> X \<Longrightarrow> a < b \<Longrightarrow> pos a + g \<le> pos b"
  shows "jle (jadd (\<lambda>x. x) (bar_x r) (bar_w r)) (bar_x r')"
proof -
  from assms(1) obtain a s t where r: "a \<in> X" "bar_xval r = Fin a" "bar_x r = Fin (pos a + s)" "bar_w r = Fin t" "s + t \<le> g"
    unfolding placed_def by blast
  from assms(2) obtain b s' where r': "b \<in> X" "bar_xval r' = Fin b" "bar_x r' = Fin (pos b + s')" "0 \<le> s'"
    unfolding placed_def by blast
  have "a < b" using assms(3) r r' by simp
  with assms(4) r r' have "pos a + g \<le> pos b" by simp
  then show ?thesis using r r' by simp
qed

lemma placed_in_area:
  assumes "placed g X pos r" "\<And>a. a \<in> X \<Longrightarrow> 0 \<le> pos a \<and> pos a + g \<le> 1"
  shows "in_area (bar_x r) \<and> in_area (jadd (\<lambda>x. x) (bar_x r) (bar_w r))"
proof -
  from assms(1) obtain a s t where r: "a \<in> X" "bar_x r = Fin (pos a + s)" "bar_w r = Fin t" "0 \<le> s" "0 \<le> t" "s + t \<le> g"
    unfolding placed_def by blast
  with assms(2) [OF r(1)] show ?thesis by simp
qed

definition well_placed :: "bar list \<Rightarrow> bool" where
  "well_placed B \<longleftrightarrow>
     (\<forall>r \<in> set B. in_area (bar_x r) \<and> in_area (jadd (\<lambda>x. x) (bar_x r) (bar_w r)) \<and> in_area (bar_y r) \<and> in_area (bar_h r)) \<and>
     (\<forall>r \<in> set B. \<forall>r' \<in> set B. jless (bar_xval r) (bar_xval r') \<longrightarrow> jle (jadd (\<lambda>x. x) (bar_x r) (bar_w r)) (bar_x r'))"

text \<open>One x value: its bars share the whole width.\<close>

lemma one_bar_position:
  assumes "above_origin l ps" "0 \<le> barWidthFillFraction (options l)" "barWidthFillFraction (options l) \<le> 1"
    and "chart l ps"
    and "sorted_list_of_set (fst ` set (plain_points ps)) = [c]"
  shows "\<exists>k. bar_layout (\<lambda>x. x) [Fin c] (scaled (\<lambda>x. x) l ps) = (k, None) \<and> datasets k = plain ps \<and> well_placed (bars k)"
proof -
  let ?l = "scaled (\<lambda>x. x) l ps"
  let ?l' = "?l\<lparr>xscale := Some (Fin 1), minxval := Some (Fin c), minxdelta := Fin 1, bars := []\<rparr>"
  have d: "datasets l = plain ps" using assms(4) by (simp add: chart_def)
  have set: "fst ` set (plain_points ps) = {c}"
    using assms(5) set_sorted_list_of_set [of "fst ` set (plain_points ps)"] by simp
  from bar_rects_placed [OF assms(1-3), of 1 ?l' c 1] obtain B where
    B: "bar_rects (\<lambda>x. x) (Fin (1 * barWidthFillFraction (options l) / of_nat (length ps))) (Fin (1 * (1 - barWidthFillFraction (options l)) / 2)) 0 (plain ps) ?l' = (?l'\<lparr>bars := B\<rparr>, None)"
    "\<forall>r \<in> set B. placed 1 {c} (\<lambda>a. (a - c) * 1) r \<and> in_area (bar_y r) \<and> in_area (bar_h r)"
    unfolding set by auto
  have "length ps \<noteq> 0" using assms(4) by (auto simp: chart_def plain_points_def)
  then have "bar_layout (\<lambda>x. x) [Fin c] ?l = (?l'\<lparr>bars := B\<rparr>, None)"
    using B(1) by (simp add: bar_layout_def Let_def d)
  moreover have "in_area (bar_x r) \<and> in_area (jadd (\<lambda>x. x) (bar_x r) (bar_w r))" if "r \<in> set B" for r
    using B(2) that by (intro placed_in_area [of 1 "{c}" "\<lambda>a. (a - c) * 1"]) auto
  moreover have "\<not> jless (bar_xval r) (bar_xval r')" if "r \<in> set B" "r' \<in> set B" for r r'
  proof -
    have "bar_xval r = Fin c" "bar_xval r' = Fin c" using B(2) that by (auto simp: placed_def)
    then show ?thesis by simp
  qed
  ultimately show ?thesis using B(2) by (auto simp: well_placed_def d)
qed

text \<open>Several x values: the scale leaves a room of the smallest gap behind the last one.\<close>

lemma several_bar_positions:
  assumes "above_origin l ps" "0 \<le> barWidthFillFraction (options l)" "barWidthFillFraction (options l) \<le> 1"
    and "chart l ps"
    and "length xs \<noteq> 1" "xs = sorted_list_of_set (fst ` set (plain_points ps))"
  shows "\<exists>k. bar_layout (\<lambda>x. x) (map Fin xs) (scaled (\<lambda>x. x) l ps) = (k, None) \<and> datasets k = plain ps \<and> well_placed (bars k)"
proof -
  let ?l = "scaled (\<lambda>x. x) l ps" and ?X = "fst ` set (plain_points ps)"
  have d: "datasets l = plain ps" and ne: "?X \<noteq> {}" using assms(4) by (simp_all add: chart_def)
  have xs: "set xs = ?X" "sorted_wrt (<) xs" using assms(6) by simp_all
  from gaps_bound [OF xs(2), of 10000000] obtain delta where
    delta: "gaps (\<lambda>x. x) (Fin 10000000) (map Fin xs) = Fin delta" "0 < delta"
    "\<forall>a \<in> ?X. \<forall>b \<in> ?X. a < b \<longrightarrow> delta \<le> b - a" unfolding xs(1) by auto
  define m R where "m = low_x l ps" and "R = high_x ps - m"
  have bounds: "m \<le> a" "a \<le> high_x ps" if "a \<in> ?X" for a
    using chart_bounds [OF assms(1)] that by (auto simp: m_def)
  have "card ?X \<noteq> 1" using assms(5) unfolding assms(6) by simp
  then have "Min ?X \<noteq> Max ?X" using ne by (metis (no_types, lifting) List.finite_set Max_eq_if Min_le Max_ge antisym card_1_singleton_iff finite_imageI is_singletonI' is_singleton_altdef)
  moreover have "Min ?X \<in> ?X" "Max ?X \<in> ?X" "Min ?X \<le> Max ?X" using ne by simp_all
  ultimately have "delta \<le> Max ?X - Min ?X" using delta(3) by (meson order.not_eq_order_implies_strict)
  also have "\<dots> \<le> R" using bounds(1) [OF \<open>Min ?X \<in> ?X\<close>] by (simp add: R_def high_x_def)
  finally have R: "delta \<le> R" "0 < R" using delta(2) by simp_all
  define sc where "sc = (1 - delta / R) / R"
  define g where "g = delta * sc"
  have q: "delta / R \<le> 1" "0 < delta / R" using R delta(2) by simp_all
  then have sc: "0 \<le> sc" "0 \<le> g" using R delta(2) by (simp_all add: sc_def g_def)
  have "R * sc = 1 - delta / R" using R(2) by (simp add: sc_def)
  moreover have "g = delta / R * (1 - delta / R)" by (simp add: g_def sc_def)
  moreover have "delta / R * (1 - delta / R) \<le> 1 * (1 - delta / R)" using q by (intro mult_right_mono) simp_all
  have "delta / R * (1 - delta / R) \<le> delta / R * 1" using q by (intro mult_left_mono) simp_all
  ultimately have full: "R * sc + g \<le> 1" by simp
  let ?l' = "?l\<lparr>xscale := Some (Fin sc), minxdelta := Fin delta, bars := []\<rparr>"
  let ?fill = "barWidthFillFraction (options l)"
  from bar_rects_placed [OF assms(1-3) sc(2), of ?l' m sc] obtain B where
    B: "bar_rects (\<lambda>x. x) (Fin (g * ?fill / of_nat (length ps))) (Fin (g * (1 - ?fill) / 2)) 0 (plain ps) ?l' = (?l'\<lparr>bars := B\<rparr>, None)"
    and pl: "\<And>r. r \<in> set B \<Longrightarrow> placed g ?X (\<lambda>a. (a - m) * sc) r \<and> in_area (bar_y r) \<and> in_area (bar_h r)"
    by (auto simp: m_def)
  have "length ps \<noteq> 0" using assms(4) by (auto simp: chart_def plain_points_def)
  moreover have "R \<noteq> 0" using R by simp
  ultimately have "bar_layout (\<lambda>x. x) (map Fin xs) ?l = (?l'\<lparr>bars := B\<rparr>, None)"
    using B assms(5) unfolding bar_layout_def Let_def delta(1)
    by (simp add: d sc_def [symmetric] g_def [symmetric] m_def [symmetric] R_def [symmetric])
  moreover have "well_placed B"
  proof -
    have "in_area (bar_x r) \<and> in_area (jadd (\<lambda>x. x) (bar_x r) (bar_w r))" if "r \<in> set B" for r
    proof (rule placed_in_area [of g ?X "\<lambda>a. (a - m) * sc"])
      show "placed g ?X (\<lambda>a. (a - m) * sc) r" using pl [OF that] by blast
      show "0 \<le> (a - m) * sc \<and> (a - m) * sc + g \<le> 1" if "a \<in> ?X" for a
      proof -
        have "(a - m) * sc \<le> R * sc" using bounds(2) [OF that] sc(1) by (intro mult_right_mono) (simp_all add: R_def)
        then show ?thesis using full bounds(1) [OF that] sc(1) by simp
      qed
    qed
    moreover have "jle (jadd (\<lambda>x. x) (bar_x r) (bar_w r)) (bar_x r')"
      if "r \<in> set B" "r' \<in> set B" "jless (bar_xval r) (bar_xval r')" for r r'
    proof (rule placed_apart [of g ?X "\<lambda>a. (a - m) * sc"])
      show "(a - m) * sc + g \<le> (b - m) * sc" if "a \<in> ?X" "b \<in> ?X" "a < b" for a b
      proof -
        have "delta * sc \<le> (b - a) * sc" using delta(3) that sc(1) by (intro mult_right_mono) auto
        then show ?thesis by (simp add: g_def algebra_simps)
      qed
    qed (use pl that in blast)+
    ultimately show ?thesis unfolding well_placed_def using pl by blast
  qed
  ultimately show ?thesis using d by auto
qed

text \<open>Bars stand on the x axis and have the name of a dataset.\<close>

definition standing :: "(rat \<Rightarrow> rat) \<Rightarrow> (string \<times> dataset option) list \<Rightarrow> bar \<Rightarrow> bool" where
  "standing fl ds b \<longleftrightarrow> bar_y b = jsub fl (Fin 1) (bar_h b) \<and> bar_name b \<in> fst ` set ds"

lemma bar_rects_standing:
  assumes "set es \<subseteq> set ds" "\<forall>b \<in> set (bars l). standing fl ds b"
  shows "\<forall>b \<in> set (bars (fst (bar_rects fl ws mg i es l))). standing fl ds b"
  using assms
proof (induction es arbitrary: i l)
  case (Cons q es)
  obtain n d where q: "q = (n, d)" by (cases q)
  show ?case
  proof (cases d)
    case None
    then show ?thesis using Cons.prems(2) by (simp add: q)
  next
    case (Some ps)
    have "n \<in> fst ` set ds" using Cons.prems(1) q by force
    then have "\<forall>b \<in> set (map (bar_rect fl l ws mg i n) ps). standing fl ds b"
      by (simp add: standing_def bar_rect_def)
    with Cons.prems(2) have "\<forall>b \<in> set (bars (l\<lparr>bars := bars l @ map (bar_rect fl l ws mg i n) ps\<rparr>)). standing fl ds b"
      by auto
    from Cons.IH [OF _ this] Cons.prems(1) show ?thesis by (simp add: q Some)
  qed
qed simp

lemma bar_rects_all_standing:
  assumes "datasets l = ds" "bars l = []"
  shows "\<forall>b \<in> set (bars (fst (bar_rects fl ws mg i ds l))). standing fl ds b"
  by (rule bar_rects_standing) (simp_all add: assms)

lemma bar_layout_standing: "\<forall>b \<in> set (bars (fst (bar_layout fl xvs l))). standing fl (datasets l) b"
proof -
  have split: "\<forall>b \<in> set (bars (fst (if c then u else v))). P b" if "\<forall>b \<in> set (bars (fst u)). P b" "\<forall>b \<in> set (bars (fst v)). P b"
    for c P and u v :: PlotLayout.outcome using that by simp
  show ?thesis unfolding bar_layout_def Let_def by (intro split bar_rects_all_standing) simp_all
qed

lemma bars_placed:
  assumes "chart l ps" "style l = ''bar''" "above_origin l ps"
    and "0 \<le> barWidthFillFraction (options l)" "barWidthFillFraction (options l) \<le> 1"
  shows "snd (evaluate (\<lambda>x. x) l) = None \<and> well_placed (bars (fst (evaluate (\<lambda>x. x) l))) \<and>
    datasets (fst (evaluate (\<lambda>x. x) l)) = datasets l \<and>
    (\<forall>b \<in> set (bars (fst (evaluate (\<lambda>x. x) l))). standing (\<lambda>x. x) (datasets l) b)"
proof -
  let ?l = "scaled (\<lambda>x. x) l ps"
  define xs where "xs = sorted_list_of_set (fst ` set (plain_points ps))"
  have ds: "datasets ?l = plain ps" using assms(1) by (simp add: chart_def)
  from uniqueXValues_plain [OF ds] have u: "evaluateBarCharts (\<lambda>x. x) ?l = bar_layout (\<lambda>x. x) (map Fin xs) ?l"
    by (simp add: evaluateBarCharts_def xs_def)
  have "\<exists>k. bar_layout (\<lambda>x. x) (map Fin xs) ?l = (k, None) \<and> datasets k = plain ps \<and> well_placed (bars k)"
  proof (cases "length xs = 1")
    case True
    then obtain c where c: "xs = [c]" by (auto simp: length_Suc_conv)
    from one_bar_position [OF assms(3-5,1) this [unfolded xs_def]] show ?thesis by (simp add: c)
  next
    case False
    from several_bar_positions [OF assms(3-5,1) this xs_def] show ?thesis .
  qed
  then obtain k where k: "bar_layout (\<lambda>x. x) (map Fin xs) ?l = (k, None)" "datasets k = plain ps" "well_placed (bars k)" by blast
  have e: "evaluate (\<lambda>x. x) l = evaluateBarTicks (\<lambda>x. x) k"
    unfolding evaluate_def evaluateLimits_chart [OF assms(1)] using assms(2) u k(1)
    by (simp add: Let_def scaled_def [symmetric])
  have "\<forall>b \<in> set (bars k). standing (\<lambda>x. x) (plain ps) b"
    using bar_layout_standing [of "\<lambda>x. x" "map Fin xs" ?l] k(1) ds by simp
  with e evaluateBarTicks_keeps [OF k(2)] k(2,3) assms(1) show ?thesis by (simp add: chart_def)
qed

text \<open>
  C33. In exact arithmetic, a bar chart over at least one point, all of finite coordinates and
  none below the lower end of an axis, whose bars fill a fraction from 0 to 1 of their room,
  is evaluated without an exception; every bar lies inside the drawing area, and a bar ends
  before the bars at greater x values begin. The lower end of an axis is the one that the
  options give, else 0 when the origin is zero, which is the default, else the least
  coordinate of the data: with the default options the coordinates are not negative.
\<close>

theorem bars_do_not_overlap:
  assumes "chart l ps" "style l = ''bar''" "\<forall>(a, b) \<in> set (plain_points ps). low_x l ps \<le> a \<and> low_y l ps \<le> b"
    and "0 \<le> barWidthFillFraction (options l)" "barWidthFillFraction (options l) \<le> 1"
  shows "snd (evaluate (\<lambda>x. x) l) = None \<and> well_placed (bars (fst (evaluate (\<lambda>x. x) l)))"
  using bars_placed [OF assms [folded above_origin_def]] by blast

theorem bars_do_not_overlap_witness:
  "well_placed (bars (fst (evaluate (\<lambda>x. x)
     (addDataset ''sqrt'' [(Fin 1, Fin 10), (Fin 2, Fin 4)] (Layout double ''bar'' default_options)))))"
  by (rule bars_do_not_overlap [THEN conjunct2, of _ "[(''sqrt'', [(1, 10), (2, 4)])]"])
    (simp_all add: chart_def low_x_def low_y_def Layout_def addDataset_def default_options_def plain_points_def)

text \<open>The condition is needed: the bar of a value below the lower end has a negative height.\<close>

theorem low_bar_negative:
  assumes "minyval l = Some (Fin m)" "yscale l = Some (Fin sc)" "b < m" "0 < sc"
  shows "bar_h (bar_rect (\<lambda>x. x) l ws mg i n (Fin a, Fin b)) = Fin ((b - m) * sc) \<and> (b - m) * sc < 0"
  using assms by (simp add: bar_rect_def y_height_def mult_neg_pos)

theorem low_bar_negative_witness:
  "bar_h (bar_rect (\<lambda>x. x) (Layout double ''bar'' default_options\<lparr>yscale := Some (Fin 1)\<rparr>) (Fin 1) (Fin 0) 0 ''a'' (Fin 1, Fin (-2))) = Fin (-2)"
  using low_bar_negative [of "Layout double ''bar'' default_options\<lparr>yscale := Some (Fin 1)\<rparr>" 0 1 "-2" "Fin 1" "Fin 0" 0 "''a''" 1]
  by (simp add: Layout_def default_options_def)

section \<open>Removed datasets, given axes and the cache\<close>

text \<open>Datasets of finite points, some of them removed.\<close>

definition finite_sets :: "(string \<times> dataset option) list \<Rightarrow> bool" where
  "finite_sets ds \<longleftrightarrow> (\<forall>(n, d) \<in> set ds. \<forall>ps. d = Some ps \<longrightarrow> (\<exists>qs. ps = map fin_point qs))"

lemma finite_sets_points:
  assumes "finite_sets (datasets l)"
  obtains qs where "all_points l = map fin_point qs"
proof -
  have "\<exists>qs. collapse (map snd ds) = map fin_point qs" if "finite_sets ds" for ds
    using that
  proof (induction ds)
    case (Cons q ds)
    then obtain qs where qs: "collapse (map snd ds) = map fin_point qs" by (auto simp: finite_sets_def)
    obtain n d where q: "q = (n, d)" by (cases q)
    show ?case
    proof (cases d)
      case None
      then show ?thesis using qs by (auto simp: collapse_def q)
    next
      case (Some ps)
      with Cons.prems q obtain rs where "ps = map fin_point rs" by (auto simp: finite_sets_def)
      with qs Some show ?thesis by (auto simp: collapse_def q intro!: exI [of _ "rs @ qs"])
    qed
  qed (simp add: collapse_def)
  from this [OF assms] that show thesis by (auto simp: all_points_def)
qed

lemma finite_sets_limits:
  assumes "finite_sets (datasets l)"
  shows "snd (evaluateLimits l) = None" "datasets (fst (evaluateLimits l)) = datasets l"
    "style (fst (evaluateLimits l)) = style l"
proof -
  obtain qs where qs: "all_points l = map fin_point qs" using finite_sets_points [OF assms] .
  have "\<exists>r. listMinMax 1 (map Fin xs) = Inr r" "\<exists>r. listMinMax (-1) (map Fin xs) = Inr r" for xs
    using listMinMax_Fin [of xs] by (cases "xs = []"; simp add: listMinMax_def)+
  then obtain low high where ex: "listMinMax 1 (map Fin xs) = Inr (high xs)" "listMinMax (-1) (map Fin xs) = Inr (low xs)" for xs
    by metis
  show "snd (evaluateLimits l) = None" "datasets (fst (evaluateLimits l)) = datasets l"
    "style (fst (evaluateLimits l)) = style l"
    unfolding evaluateLimits_def Let_def qs points_axes ex by (simp_all add: assign_def)
qed

lemma evaluate_after_limits:
  assumes "evaluateLimits l = (k, None)"
  shows "evaluate fl l =
    (let l = evaluateScales fl k
     in if style l = ''bar'' then andThen (evaluateBarCharts fl l) (evaluateBarTicks fl)
        else if style l = ''line'' then andThen (evaluateLineCharts fl l) (evaluateLineTicks fl)
        else if style l = ''pie'' then andThen (evaluatePieCharts fl l) (\<lambda>l. (evaluatePieTicks fl l, None))
        else (l, None))"
  by (simp add: evaluate_def assms)

lemma bar_rects_removed: "(n, None) \<in> set ds \<Longrightarrow> snd (bar_rects fl ws mg i ds l) = Some TypeError"
proof (induction ds arbitrary: i l)
  case (Cons q ds)
  then show ?case by (cases q; cases "snd q") auto
qed simp

lemma line_points_removed:
  "finite_sets ds \<Longrightarrow> (n, None) \<in> set ds \<Longrightarrow> snd (line_points fl prev ds l) = Some TypeError"
proof (induction ds arbitrary: prev l)
  case (Cons q ds)
  obtain m d where q: "q = (m, d)" by (cases q)
  show ?case
  proof (cases d)
    case (Some ps)
    with Cons.prems q obtain qs where "ps = map fin_point qs" by (auto simp: finite_sets_def)
    moreover have "sort_on fst (map fin_point qs) = Inr (map fin_point (by_key fst qs))" by (rule sort_on_Fin) simp
    moreover have "finite_sets ds" "(n, None) \<in> set ds" using Cons.prems Some q by (auto simp: finite_sets_def)
    ultimately show ?thesis using Cons.IH by (simp add: q Some)
  qed (simp add: q)
qed simp

lemma uniqueXValues_finite:
  assumes "finite_sets (datasets l)"
  obtains bs where "uniqueXValues l = Inr bs"
proof -
  obtain qs where qs: "all_points l = map fin_point qs" using finite_sets_points [OF assms] .
  have "sort_on (\<lambda>a. a) (map Fin (map fst qs)) = Inr (map Fin (by_key (\<lambda>a. a) (map fst qs)))"
    by (rule sort_on_Fin) simp
  then show thesis using that unfolding uniqueXValues_def qs points_axes by simp
qed

lemma put_set_None: "(n, None) \<in> set (put_set n None ds)"
  by (induction ds) auto

lemma finite_sets_removed: "finite_sets (plain ps) \<and> finite_sets (put_set n None (plain ps))"
proof -
  have plain: "finite_sets (plain ps)" by (auto simp: finite_sets_def plain_def)
  have "set (put_set n None ds) \<subseteq> insert (n, None) (set ds)" for ds :: "(string \<times> dataset option) list"
    by (induction ds) (auto split: if_splits)
  with plain show ?thesis unfolding finite_sets_def by blast
qed

text \<open>
  Once a dataset has been removed, a bar chart and a line chart can no longer be
  evaluated: the null left in its place makes it throw.
\<close>

theorem removed_dataset_throws:
  assumes "datasets l = plain ps" "style l \<in> {''bar'', ''line''}"
  shows "snd (evaluate fl (removeDataset n l)) = Some TypeError"
proof -
  let ?l = "removeDataset n l"
  have ds: "finite_sets (datasets ?l)" "(n, None) \<in> set (datasets ?l)" "style ?l = style l"
    using finite_sets_removed [of ps n] put_set_None by (simp_all add: removeDataset_def assms(1))
  note lim = finite_sets_limits [OF ds(1)]
  define k where "k = evaluateScales fl (fst (evaluateLimits ?l))"
  have k: "datasets k = datasets ?l" "style k = style l"
    using lim ds(3) by (simp_all add: k_def evaluateScales_def Let_def)
  obtain bs where "uniqueXValues k = Inr bs" using uniqueXValues_finite [of k] ds(1) by (metis k(1))
  then have "snd (evaluateBarCharts fl k) = Some TypeError"
    using bar_rects_removed [OF ds(2)] by (simp add: evaluateBarCharts_def bar_layout_def Let_def k(1))
  moreover have "snd (evaluateLineCharts fl k) = Some TypeError"
    using line_points_removed [OF ds(1,2)] by (simp add: evaluateLineCharts_def k(1))
  moreover have "snd (andThen r f) = Some TypeError" if "snd r = Some TypeError" for r :: outcome and f
    using that by (cases r) auto
  moreover have "evaluateLimits ?l = (fst (evaluateLimits ?l), None)" using lim(1) by (simp add: prod_eq_iff)
  from evaluate_after_limits [OF this, of fl, folded k_def]
  have "evaluate fl ?l =
      (if style l = ''bar'' then andThen (evaluateBarCharts fl k) (evaluateBarTicks fl)
       else if style l = ''line'' then andThen (evaluateLineCharts fl k) (evaluateLineTicks fl)
       else if style l = ''pie'' then andThen (evaluatePieCharts fl k) (\<lambda>l. (evaluatePieTicks fl l, None))
       else (k, None))"
    by (simp only: Let_def k(2))
  ultimately show ?thesis using assms(2) by auto
qed

theorem removed_dataset_throws_witness:
  "snd (evaluate double (removeDataset ''a'' (addDataset ''a'' [(Fin 1, Fin 2)] (Layout double ''bar'' default_options)))) = Some TypeError"
  by (rule removed_dataset_throws [of _ "[(''a'', [(1, 2)])]"]) (simp_all add: Layout_def addDataset_def)

text \<open>The greatest value of a given axis is overwritten by that of the data.\<close>

theorem axis_maximum_ignored:
  assumes "datasets l = plain ps" "plain_points ps \<noteq> []"
  shows "maxxval (fst (evaluateLimits l)) = Some (Fin (high_x ps)) \<and> maxyval (fst (evaluateLimits l)) = Some (Fin (high_y ps))"
proof -
  have ne: "map fst (plain_points ps) \<noteq> []" "map snd (plain_points ps) \<noteq> []" using assms(2) by simp_all
  note ex = listMinMax_Fin [OF ne(1)] listMinMax_Fin [OF ne(2)]
  show ?thesis unfolding evaluateLimits_def Let_def all_points_plain [OF assms(1)] points_axes ex
    by (simp add: assign_def high_x_def high_y_def)
qed

theorem axis_maximum_ignored_witness:
  "maxxval (fst (evaluateLimits (addDataset ''a'' [(Fin 1, Fin 2)]
     (Layout double ''line'' (default_options\<lparr>xAxis := Some (Fin 0, Fin 100)\<rparr>))))) = Some (Fin 1)"
  using axis_maximum_ignored [of "addDataset ''a'' [(Fin 1, Fin 2)] (Layout double ''line'' (default_options\<lparr>xAxis := Some (Fin 0, Fin 100)\<rparr>))" "[(''a'', [(1, 2)])]"]
  by (simp add: Layout_def addDataset_def plain_points_def high_x_def)

text \<open>The cache of the hit test is never emptied.\<close>

definition hit_cache :: "layout \<Rightarrow> jsnum list \<times> (jsnum \<times> jsnum option) list option" where
  "hit_cache l = (cache_xvalues l, cache_x2maxy l)"

lemma hit_cache_andThen:
  "hit_cache (fst r) = c \<Longrightarrow> (\<And>l. hit_cache l = c \<Longrightarrow> hit_cache (fst (f l)) = c) \<Longrightarrow> hit_cache (fst (andThen r f)) = c"
  by (cases r; cases "snd r") auto

lemma hit_cache_update [simp]:
  "hit_cache (l\<lparr>minxval := a\<rparr>) = hit_cache l" "hit_cache (l\<lparr>minyval := a\<rparr>) = hit_cache l"
  "hit_cache (l\<lparr>maxxval := a\<rparr>) = hit_cache l" "hit_cache (l\<lparr>maxyval := a\<rparr>) = hit_cache l"
  "hit_cache (l\<lparr>xscale := a\<rparr>) = hit_cache l" "hit_cache (l\<lparr>yscale := a\<rparr>) = hit_cache l"
  "hit_cache (l\<lparr>xrange := b\<rparr>) = hit_cache l" "hit_cache (l\<lparr>yrange := b\<rparr>) = hit_cache l"
  "hit_cache (l\<lparr>minxdelta := b\<rparr>) = hit_cache l" "hit_cache (l\<lparr>bars := B\<rparr>) = hit_cache l"
  "hit_cache (l\<lparr>points := P\<rparr>) = hit_cache l" "hit_cache (l\<lparr>slices := S\<rparr>) = hit_cache l"
  "hit_cache (l\<lparr>xticks := T\<rparr>) = hit_cache l" "hit_cache (l\<lparr>yticks := T\<rparr>) = hit_cache l"
  "hit_cache (l\<lparr>datasets := D\<rparr>) = hit_cache l"
  by (simp_all add: hit_cache_def)

lemma hit_cache_assign: "(\<And>a l. hit_cache (f a l) = hit_cache l) \<Longrightarrow> hit_cache (fst (assign r f l)) = hit_cache l"
  by (simp add: assign_def split: sum.split)

lemma hit_cache_charts:
  "hit_cache (fst (bar_rects fl ws mg i ds l)) = hit_cache l"
  "hit_cache (fst (line_points fl prev ds l)) = hit_cache l"
proof -
  show "hit_cache (fst (bar_rects fl ws mg i ds l)) = hit_cache l"
    by (induction fl ws mg i ds l rule: bar_rects.induct) simp_all
  show "hit_cache (fst (line_points fl prev ds l)) = hit_cache l"
    by (induction fl prev ds l rule: line_points.induct) (simp_all split: sum.split)
qed

lemma hit_cache_evaluate: "hit_cache (fst (evaluate fl l)) = hit_cache l"
proof -
  have lim: "hit_cache (fst (evaluateLimits l)) = hit_cache l"
    unfolding evaluateLimits_def Let_def
    by (intro hit_cache_andThen) (simp_all add: hit_cache_assign)
  have scales: "hit_cache (evaluateScales fl k) = hit_cache k" for k
    by (simp add: evaluateScales_def Let_def)
  have ticks: "hit_cache (fst (evaluateLineTicks fl k)) = hit_cache k" for k
    unfolding evaluateLineTicks_def
    by (rule hit_cache_andThen)
      (auto simp: evaluateLineTicksForXAxis_def evaluateLineTicksForYAxis_def Let_def hit_cache_assign split: option.split)
  have bars: "hit_cache (fst (evaluateBarCharts fl k)) = hit_cache k" "hit_cache (fst (evaluateBarTicks fl k)) = hit_cache k" for k
    by (auto simp: evaluateBarCharts_def bar_layout_def Let_def hit_cache_charts evaluateBarTicks_def ticks intro!: hit_cache_andThen split: sum.split)
  have lines: "hit_cache (fst (evaluateLineCharts fl k)) = hit_cache k" for k
    by (simp add: evaluateLineCharts_def hit_cache_charts)
  have pies: "hit_cache (fst (evaluatePieCharts fl k)) = hit_cache k" "hit_cache (evaluatePieTicks fl k) = hit_cache k" for k
    by (auto simp: evaluatePieCharts_def evaluatePieTicks_def split: list.split option.split)
  show ?thesis unfolding evaluate_def Let_def
    by (intro hit_cache_andThen lim) (simp add: scales bars lines pies ticks hit_cache_andThen)
qed

text \<open>
  Once a hit test has filled its cache, further datasets and evaluations do not change
  what it looks at: the next hit test works on the x values and y values of the first.
\<close>

theorem stale_hit_cache:
  assumes "cache_x2maxy l \<noteq> None"
  shows "hit_cache (fst (fst (hitTest fl msqrt matan2 a b (fst (evaluate fl (addDataset n d l)))))) = hit_cache l"
proof -
  let ?k = "fst (evaluate fl (addDataset n d l))"
  have c: "hit_cache ?k = hit_cache l" by (simp add: hit_cache_evaluate addDataset_def)
  then obtain m where "cache_x2maxy ?k = Some m" using assms by (auto simp: hit_cache_def)
  then show ?thesis using c by (simp add: hitTest_def Let_def)
qed

theorem stale_hit_cache_witness:
  "hit_cache (fst (fst (hitTest double (\<lambda>x. x) (\<lambda>x y. x) (Fin 0) (Fin 0)
     (fst (evaluate double (addDataset ''b'' [(Fin 2, Fin 9)]
       (Layout double ''line'' default_options\<lparr>cache_xvalues := [Fin 1], cache_x2maxy := Some [(Fin 1, Some (Fin 2))]\<rparr>)))))))
   = ([Fin 1], Some [(Fin 1, Some (Fin 2))])"
  by (subst stale_hit_cache) (simp_all add: hit_cache_def)

end
