(* ===== verification/PlotCanvas.thy ===== *)
theory PlotCanvas
  imports PlotCharts
begin

text \<open>
  The canvas renderers of PlotKit (\<open>Canvas.js\<close>, \<open>SweetCanvas.js\<close>): a layout becomes drawing
  commands on the canvas and labels in the element around it, and the position of the mouse
  becomes signals. The canvas is the list of the commands it was given; the labels of
  the container have numbers, by which the renderer finds them again. The emulation of a
  canvas in old browsers is not modelled, nor is an empty colour scheme, on which drawing
  throws. \<open>msin\<close>, \<open>mcos\<close>, \<open>msqrt\<close> and \<open>matan2\<close> are the functions of \<open>Math\<close>.
\<close>

section \<open>Options and state\<close>

datatype transform = AsFillColor | AsStrokeColor | AsPointColor

fun transformed :: "(rat \<Rightarrow> rat) \<Rightarrow> transform \<Rightarrow> rgb \<Rightarrow> rgb" where
  "transformed fl AsFillColor c = asFillColor fl c"
| "transformed fl AsStrokeColor c = asStrokeColor fl c"
| "transformed fl AsPointColor c = asPointColor fl c"

record padding =
  pad_left :: rat
  pad_right :: rat
  pad_top :: rat
  pad_bottom :: rat

record canvas_options =
  drawBackground :: bool
  backgroundColor :: rgb
  padding :: padding
  colorScheme :: "rgb list"
  strokeColor :: "rgb option"
  strokeColorTransform :: "transform option"
  strokeWidth :: rat
  shouldFill :: bool
  shouldStroke :: bool
  drawXAxis :: bool
  drawYAxis :: bool
  axisLineColor :: rgb
  axisLineWidth :: rat
  axisTickSize :: rat
  axisLabelColor :: rgb
  axisLabelFontSize :: rat
  axisLabelWidth :: rat
  canvas_pieRadius :: rat

definition whiteColor :: rgb where
  "whiteColor = \<lparr>red = 1, green = 1, blue = 1, alpha = 1\<rparr>"

definition blackColor :: rgb where
  "blackColor = \<lparr>red = 0, green = 0, blue = 0, alpha = 1\<rparr>"

definition grayColor :: rgb where
  "grayColor = \<lparr>red = 1 / 2, green = 1 / 2, blue = 1 / 2, alpha = 1\<rparr>"

text \<open>A palette has at most seven levels for the limits that are used.\<close>

definition scheme_between :: "(rat \<Rightarrow> rat) \<Rightarrow> rgb \<Rightarrow> rat option \<Rightarrow> rat option \<Rightarrow> rgb list" where
  "scheme_between fl c from to = (case palette 8 fl c from to None of None \<Rightarrow> [] | Some cs \<Rightarrow> cs)"

abbreviation "scheme fl c \<equiv> scheme_between fl c None None"

lemma office_levels:
  "levels 8 double (double (- 1 / 5)) (double (2 / 5)) (double (1 / 10)) \<noteq> None"
  "levels 8 double 0 (double (3 / 5)) (double (1 / 10)) \<noteq> None"
  by code_simp+

lemma palettes_return:
  "palette 8 double c None None None \<noteq> None" "palette 8 double c (Some 0) (Some (double (3 / 5))) None \<noteq> None"
  using office_levels by (simp_all add: palette_def)

definition default_canvas :: "(rat \<Rightarrow> rat) \<Rightarrow> canvas_options" where
  "default_canvas fl =
     \<lparr>drawBackground = True, backgroundColor = whiteColor,
      padding = \<lparr>pad_left = 30, pad_right = 30, pad_top = 5, pad_bottom = 10\<rparr>,
      colorScheme = scheme fl (baseColors fl ! 0), strokeColor = Some whiteColor,
      strokeColorTransform = Some AsStrokeColor, strokeWidth = 1 / 2, shouldFill = True, shouldStroke = True,
      drawXAxis = True, drawYAxis = True, axisLineColor = blackColor, axisLineWidth = 1 / 2, axisTickSize = 3,
      axisLabelColor = blackColor, axisLabelFontSize = 9, axisLabelWidth = 50, canvas_pieRadius = fl (2 / 5)\<rparr>"

text \<open>The styles of \<open>PlotKit.Base\<close>, which differ in a base colour, the lightness of the background and the palette.\<close>

definition office_style ::
  "(rat \<Rightarrow> rat) \<Rightarrow> nat \<Rightarrow> rat option \<Rightarrow> rat option \<Rightarrow> rat \<Rightarrow> canvas_options \<Rightarrow> canvas_options" where
  "office_style fl i from to level opts =
     opts\<lparr>colorScheme := scheme_between fl (baseColors fl ! i) from to,
       backgroundColor := lighterColorWithLevel fl (baseColors fl ! i) (fl level),
       axisLineWidth := 2, axisLabelColor := grayColor, axisLineColor := whiteColor,
       padding := \<lparr>pad_left = 30, pad_right = 30, pad_top = 5, pad_bottom = 10\<rparr>\<rparr>"

definition officeBlue :: "(rat \<Rightarrow> rat) \<Rightarrow> canvas_options \<Rightarrow> canvas_options" where
  "officeBlue fl = office_style fl 0 None None (9 / 20)"

definition officeRed :: "(rat \<Rightarrow> rat) \<Rightarrow> canvas_options \<Rightarrow> canvas_options" where
  "officeRed fl = office_style fl 1 None None (1 / 2)"

definition officeGreen :: "(rat \<Rightarrow> rat) \<Rightarrow> canvas_options \<Rightarrow> canvas_options" where
  "officeGreen fl = office_style fl 2 None None (1 / 2)"

definition officePurple :: "(rat \<Rightarrow> rat) \<Rightarrow> canvas_options \<Rightarrow> canvas_options" where
  "officePurple fl = office_style fl 3 None None (1 / 2)"

definition officeCyan :: "(rat \<Rightarrow> rat) \<Rightarrow> canvas_options \<Rightarrow> canvas_options" where
  "officeCyan fl = office_style fl 4 None None (1 / 2)"

definition officeOrange :: "(rat \<Rightarrow> rat) \<Rightarrow> canvas_options \<Rightarrow> canvas_options" where
  "officeOrange fl = office_style fl 5 None None (2 / 5)"

definition officeBlack :: "(rat \<Rightarrow> rat) \<Rightarrow> canvas_options \<Rightarrow> canvas_options" where
  "officeBlack fl = office_style fl 6 (Some 0) (Some (fl (3 / 5))) (9 / 10)"

datatype command =
    Save | Restore
  | FillStyle jsstring | StrokeStyle jsstring | LineWidth rat | ShadowBlur rat | ShadowColor jsstring
  | FillRect jsnum jsnum jsnum jsnum | StrokeRect jsnum jsnum jsnum jsnum | ClearRect jsnum jsnum jsnum jsnum
  | BeginPath | MoveTo jsnum jsnum | LineTo jsnum jsnum | Arc jsnum jsnum jsnum jsnum jsnum | ClosePath
  | FillPath | StrokePath | Translate rat rat

record label =
  label_id :: nat
  label_text :: jsstring
  label_style :: "(string \<times> jsstring) list"

record plot_area =
  ax :: jsnum
  ay :: jsnum
  aw :: jsnum
  ah :: jsnum

datatype event_arg = RawEvent | NullEvent | ChartEvent hit

text \<open>\<open>sweet\<close>: the renderer is a \<open>SweetCanvasRenderer\<close>.\<close>

record renderer =
  sweet :: bool
  canvas_opts :: canvas_options
  chart :: layout
  chart_style :: string
  canvas_width :: rat
  canvas_height :: rat
  area :: plot_area
  canvas :: "command list"
  container :: "label list"
  next_id :: nat
  xlabels :: "nat list"
  ylabels :: "nat list"
  event_isinside :: hit
  signals :: "(string \<times> event_arg) list"

text \<open>The options of the caller override the others: \<open>upd\<close> is the update with them.\<close>

definition new_renderer ::
  "(rat \<Rightarrow> rat) \<Rightarrow> bool \<Rightarrow> (canvas_options \<Rightarrow> canvas_options) \<Rightarrow> layout \<Rightarrow> rat \<Rightarrow> rat \<Rightarrow> renderer" where
  "new_renderer fl sw upd l w h =
     (let opts = upd (if sw then officeBlue fl (default_canvas fl) else default_canvas fl); p = padding opts
      in \<lparr>sweet = sw, canvas_opts = opts, chart = l, chart_style = style l, canvas_width = w, canvas_height = h,
          area = \<lparr>ax = Fin (pad_left p), ay = Fin (pad_top p),
            aw = jsub fl (jsub fl (Fin w) (Fin (pad_left p))) (Fin (pad_right p)),
            ah = jsub fl (jsub fl (Fin h) (Fin (pad_top p))) (Fin (pad_bottom p))\<rparr>,
          canvas = [], container = [], next_id = 0, xlabels = [], ylabels = [], event_isinside = NoHit, signals = []\<rparr>)"

definition draw :: "command list \<Rightarrow> renderer \<Rightarrow> renderer" where
  "draw cs r = r\<lparr>canvas := canvas r @ cs\<rparr>"

definition color_at :: "canvas_options \<Rightarrow> nat \<Rightarrow> rgb" where
  "color_at o' i = colorScheme o' ! (i mod length (colorScheme o'))"

definition style_text :: "(rat \<Rightarrow> rat) \<Rightarrow> rgb \<Rightarrow> jsstring" where
  "style_text fl c = toRGBString fl c"

definition stroke_style :: "(rat \<Rightarrow> rat) \<Rightarrow> canvas_options \<Rightarrow> rgb \<Rightarrow> command list" where
  "stroke_style fl o' c =
     (case strokeColor o' of
        Some s \<Rightarrow> [StrokeStyle (style_text fl s)]
      | None \<Rightarrow>
          (case strokeColorTransform o' of
             None \<Rightarrow> [] | Some t \<Rightarrow> [StrokeStyle (style_text fl (transformed fl t c))]))"

section \<open>Bar charts\<close>

definition at_x :: "(rat \<Rightarrow> rat) \<Rightarrow> plot_area \<Rightarrow> jsnum \<Rightarrow> jsnum" where
  "at_x fl a v = jadd fl (jmul fl (aw a) v) (ax a)"

definition at_y :: "(rat \<Rightarrow> rat) \<Rightarrow> plot_area \<Rightarrow> jsnum \<Rightarrow> jsnum" where
  "at_y fl a v = jadd fl (jmul fl (ah a) v) (ay a)"

definition draw_bar :: "(rat \<Rightarrow> rat) \<Rightarrow> canvas_options \<Rightarrow> plot_area \<Rightarrow> bar \<Rightarrow> command list" where
  "draw_bar fl o' a b =
     (let x' = at_x fl a (bar_x b); y' = at_y fl a (bar_y b); w = jmul fl (aw a) (bar_w b); h = jmul fl (ah a) (bar_h b)
      in if jless w (Fin 1) \<or> jless h (Fin 1) then []
         else (if shouldFill o' then [FillRect x' y' w h] else []) @ (if shouldStroke o' then [StrokeRect x' y' w h] else []))"

text \<open>The colour of a name: the last dataset names are distinct, so the first one is it.\<close>

fun choose_color :: "canvas_options \<Rightarrow> nat \<Rightarrow> string list \<Rightarrow> string \<Rightarrow> rgb" where
  "choose_color o' i [] n = colorScheme o' ! 0"
| "choose_color o' i (m # ms) n = (if n = m then color_at o' i else choose_color o' (Suc i) ms n)"

definition shadow :: "(rat \<Rightarrow> rat) \<Rightarrow> rat \<Rightarrow> jsstring" where
  "shadow fl level = style_text fl (colorWithAlpha blackColor (fl level))"

definition gray_shadow :: "(rat \<Rightarrow> rat) \<Rightarrow> command list" where
  "gray_shadow fl = [ShadowBlur 5, ShadowColor (style_text fl (the (fromHexString fl (js ''#888888''))))]"

definition draw_sweet_bar :: "(rat \<Rightarrow> rat) \<Rightarrow> canvas_options \<Rightarrow> string list \<Rightarrow> plot_area \<Rightarrow> bar \<Rightarrow> command list" where
  "draw_sweet_bar fl o' ns a b =
     (let x' = at_x fl a (bar_x b); y' = at_y fl a (bar_y b); w = jmul fl (aw a) (bar_w b); h = jmul fl (ah a) (bar_h b);
          s = FillStyle (shadow fl (1 / 10)); sub = (\<lambda>u k. jsub fl u (Fin k)); add = (\<lambda>u k. jadd fl u (Fin k))
      in if jless w (Fin 1) \<or> jless h (Fin 1) then []
         else [Save] @ gray_shadow fl @
           [s, FillRect (sub x' 2) (sub y' 2) (add w 4) (add h 2), s, FillRect (sub x' 1) (sub y' 1) (add w 2) (add h 1),
            FillStyle (style_text fl (choose_color o' 0 ns (bar_name b))), FillRect x' y' w h,
            ShadowBlur 0, StrokeStyle (style_text fl whiteColor), LineWidth 2, StrokeRect x' y' w h, Restore])"

text \<open>\<open>_renderBarChartWrap\<close>: the settings of each dataset, then what belongs to it.\<close>

fun for_sets :: "(nat \<Rightarrow> string \<Rightarrow> command list) \<Rightarrow> nat \<Rightarrow> string list \<Rightarrow> command list" where
  "for_sets f i [] = []"
| "for_sets f i (n # ns) = f i n @ for_sets f (Suc i) ns"

definition set_names :: "renderer \<Rightarrow> string list" where
  "set_names r = map fst (datasets (chart r))"

definition set_bars :: "(rat \<Rightarrow> rat) \<Rightarrow> canvas_options \<Rightarrow> (bar \<Rightarrow> command list) \<Rightarrow> bar list \<Rightarrow> nat \<Rightarrow> string \<Rightarrow> command list" where
  "set_bars fl o' plot bs i n =
     [Save, FillStyle (style_text fl (color_at o' i))] @ stroke_style fl o' (color_at o' i) @ [LineWidth (strokeWidth o')]
     @ concat (map plot (filter (\<lambda>b. bar_name b = n) bs)) @ [Restore]"

definition renderBarChart :: "(rat \<Rightarrow> rat) \<Rightarrow> renderer \<Rightarrow> renderer" where
  "renderBarChart fl r =
     (let o' = canvas_opts r; ns = set_names r;
          plot = (if sweet r then draw_sweet_bar fl o' ns (area r) else draw_bar fl o' (area r))
      in draw (for_sets (set_bars fl o' plot (bars (chart r))) 0 ns) r)"

section \<open>Line charts\<close>

definition line_path :: "(rat \<Rightarrow> rat) \<Rightarrow> plot_area \<Rightarrow> point list \<Rightarrow> string \<Rightarrow> command list" where
  "line_path fl a ps n =
     [BeginPath, MoveTo (ax a) (jadd fl (ay a) (ah a))]
     @ map (\<lambda>p. LineTo (at_x fl a (px p)) (at_y fl a (py p))) (filter (\<lambda>p. pname p = n) ps)
     @ [LineTo (jadd fl (aw a) (ax a)) (jadd fl (ah a) (ay a)), LineTo (ax a) (jadd fl (ay a) (ah a)), ClosePath]"

definition set_line :: "(rat \<Rightarrow> rat) \<Rightarrow> canvas_options \<Rightarrow> plot_area \<Rightarrow> point list \<Rightarrow> nat \<Rightarrow> string \<Rightarrow> command list" where
  "set_line fl o' a ps i n =
     [Save, FillStyle (style_text fl (color_at o' i))] @ stroke_style fl o' (color_at o' i) @ [LineWidth (strokeWidth o')]
     @ (if shouldFill o' then line_path fl a ps n @ [FillPath] else [])
     @ (if shouldStroke o' then line_path fl a ps n @ [StrokePath] else []) @ [Restore]"

definition set_sweet_line :: "(rat \<Rightarrow> rat) \<Rightarrow> canvas_options \<Rightarrow> plot_area \<Rightarrow> point list \<Rightarrow> nat \<Rightarrow> string \<Rightarrow> command list" where
  "set_sweet_line fl o' a ps i n =
     [Save, Save, FillStyle (shadow fl (1 / 5)), Translate (-1) (-2)] @ line_path fl a ps n @ [FillPath, Restore]
     @ gray_shadow fl @ [FillStyle (style_text fl (color_at o' i)), LineWidth 2, StrokeStyle (style_text fl whiteColor)]
     @ line_path fl a ps n @ [FillPath] @ line_path fl a ps n @ [StrokePath, Restore]"

text \<open>\<open>SweetCanvas.js\<close> replaces the methods of \<open>CanvasRenderer\<close> itself: \<open>loaded\<close> when it was loaded.\<close>

definition renderLineChart :: "(rat \<Rightarrow> rat) \<Rightarrow> bool \<Rightarrow> renderer \<Rightarrow> renderer" where
  "renderLineChart fl loaded r =
     draw (for_sets ((if loaded then set_sweet_line else set_line) fl (canvas_opts r) (area r) (points (chart r))) 0 (set_names r)) r"

section \<open>Pie charts\<close>

definition center_x :: "(rat \<Rightarrow> rat) \<Rightarrow> plot_area \<Rightarrow> jsnum" where
  "center_x fl a = jadd fl (ax a) (jmul fl (aw a) (Fin (1 / 2)))"

definition center_y :: "(rat \<Rightarrow> rat) \<Rightarrow> plot_area \<Rightarrow> jsnum" where
  "center_y fl a = jadd fl (ay a) (jmul fl (ah a) (Fin (1 / 2)))"

definition radius :: "(rat \<Rightarrow> rat) \<Rightarrow> canvas_options \<Rightarrow> plot_area \<Rightarrow> jsnum" where
  "radius fl o' a = jmin (jmul fl (aw a) (Fin (canvas_pieRadius o'))) (jmul fl (ah a) (Fin (canvas_pieRadius o')))"

definition half_pi :: "(rat \<Rightarrow> rat) \<Rightarrow> jsnum" where
  "half_pi fl = jdiv fl (Fin Math_PI) (Fin 2)"

definition pie_path :: "(rat \<Rightarrow> rat) \<Rightarrow> canvas_options \<Rightarrow> plot_area \<Rightarrow> slice \<Rightarrow> command list" where
  "pie_path fl o' a s =
     [BeginPath, MoveTo (center_x fl a) (center_y fl a),
      Arc (center_x fl a) (center_y fl a) (radius fl o' a) (jsub fl (startAngle s) (half_pi fl)) (jsub fl (endAngle s) (half_pi fl)),
      LineTo (center_x fl a) (center_y fl a), ClosePath]"

definition wide :: "(rat \<Rightarrow> rat) \<Rightarrow> rat \<Rightarrow> slice \<Rightarrow> bool" where
  "wide fl eps s \<longleftrightarrow> jless (Fin (fl eps)) (jabs (jsub fl (startAngle s) (endAngle s)))"

fun draw_slices :: "(nat \<Rightarrow> slice \<Rightarrow> command list) \<Rightarrow> nat \<Rightarrow> slice list \<Rightarrow> command list" where
  "draw_slices f i [] = []"
| "draw_slices f i (s # ss) = f i s @ draw_slices f (Suc i) ss"

definition plain_slice :: "(rat \<Rightarrow> rat) \<Rightarrow> canvas_options \<Rightarrow> plot_area \<Rightarrow> nat \<Rightarrow> slice \<Rightarrow> command list" where
  "plain_slice fl o' a i s =
     [Save, FillStyle (style_text fl (color_at o' i))]
     @ (if wide fl (1 / 1000) s then
          (if shouldFill o' then pie_path fl o' a s @ [FillPath] else [])
          @ (if shouldStroke o' then
               pie_path fl o' a s @ [LineWidth (strokeWidth o')] @ stroke_style fl o' (color_at o' i) @ [StrokePath] else [])
        else []) @ [Restore]"

definition sweet_slice :: "(rat \<Rightarrow> rat) \<Rightarrow> canvas_options \<Rightarrow> plot_area \<Rightarrow> nat \<Rightarrow> slice \<Rightarrow> command list" where
  "sweet_slice fl o' a i s =
     [FillStyle (style_text fl (color_at o' i))]
     @ (if wide fl (1 / 10000) s then pie_path fl o' a s @ [FillPath] @ pie_path fl o' a s @ [StrokePath] else [])"

definition pie_shadow :: "(rat \<Rightarrow> rat) \<Rightarrow> canvas_options \<Rightarrow> plot_area \<Rightarrow> command list" where
  "pie_shadow fl o' a =
     [Save, FillStyle (shadow fl (1 / 5))] @ gray_shadow fl @
     [Translate 1 1, BeginPath, MoveTo (center_x fl a) (center_y fl a),
      Arc (center_x fl a) (center_y fl a) (jadd fl (radius fl o' a) (Fin 2)) (Fin 0) (jmul fl (Fin Math_PI) (Fin 2)),
      ClosePath, FillPath, Restore]"

definition renderPieChart :: "(rat \<Rightarrow> rat) \<Rightarrow> bool \<Rightarrow> renderer \<Rightarrow> renderer" where
  "renderPieChart fl loaded r =
     (let o' = canvas_opts r; a = area r; ss = slices (chart r)
      in draw (if loaded then
            pie_shadow fl o' a @ [Save, StrokeStyle (style_text fl whiteColor), LineWidth 2]
              @ draw_slices (sweet_slice fl o' a) 0 ss @ [Restore]
          else draw_slices (plain_slice fl o' a) 0 ss) r)"

section \<open>Axes and labels\<close>

definition px_text :: "jsnum \<Rightarrow> jsstring" where
  "px_text a = jtext a @ js ''px''"

definition rat_px :: "rat \<Rightarrow> jsstring" where
  "rat_px a = px_text (Fin a)"

fun tick_string :: "tick_text \<Rightarrow> jsstring" where
  "tick_string (Text s) = s"
| "tick_string (Number a) = jtext a"

text \<open>A label is put into the container and remembered as one of its axis.\<close>

definition add_label :: "bool \<Rightarrow> jsstring \<Rightarrow> (string \<times> jsstring) list \<Rightarrow> renderer \<Rightarrow> renderer" where
  "add_label x_axis t st r =
     (let i = next_id r; l = \<lparr>label_id = i, label_text = t, label_style = st\<rparr>;
          r1 = r\<lparr>container := container r @ [l], next_id := i + 1\<rparr>
      in if x_axis then r1\<lparr>xlabels := xlabels r @ [i]\<rparr> else r1\<lparr>ylabels := ylabels r @ [i]\<rparr>)"

definition axis_label_style :: "(rat \<Rightarrow> rat) \<Rightarrow> canvas_options \<Rightarrow> (string \<times> jsstring) list" where
  "axis_label_style fl o' =
     [(''position'', js ''absolute''), (''fontSize'', rat_px (axisLabelFontSize o')), (''zIndex'', js ''10''),
      (''color'', style_text fl (axisLabelColor o')), (''width'', rat_px (axisLabelWidth o')), (''overflow'', js ''hidden'')]"

fun styled :: "(string \<times> jsstring) list \<Rightarrow> (string \<times> jsstring) list \<Rightarrow> (string \<times> jsstring) list" where
  "styled [] st = st"
| "styled ((k, v) # kvs) st = styled kvs (AList.update k v st)"

definition segment :: "jsnum \<Rightarrow> jsnum \<Rightarrow> jsnum \<Rightarrow> jsnum \<Rightarrow> command list" where
  "segment x1 y1 x2 y2 = [BeginPath, MoveTo x1 y1, LineTo x2 y2, ClosePath, StrokePath]"

definition draw_ytick :: "(rat \<Rightarrow> rat) \<Rightarrow> jsnum \<times> tick_text \<Rightarrow> renderer \<Rightarrow> renderer" where
  "draw_ytick fl t r =
     (let o' = canvas_opts r; a = area r; x' = ax a; y' = jadd fl (ay a) (jmul fl (fst t) (ah a)); size = Fin (axisTickSize o');
          left = Fin (pad_left (padding o'))
      in add_label False (tick_string (snd t))
           (styled [(''top'', px_text (jsub fl y' (Fin (axisLabelFontSize o')))),
              (''left'', px_text (jsub fl (jsub fl x' left) size)), (''textAlign'', js ''right''),
              (''width'', px_text (jsub fl left (jmul fl size (Fin 2))))] (axis_label_style fl o'))
           (draw (segment x' y' (jsub fl x' size) y') r))"

definition draw_xtick :: "(rat \<Rightarrow> rat) \<Rightarrow> jsnum \<times> tick_text \<Rightarrow> renderer \<Rightarrow> renderer" where
  "draw_xtick fl t r =
     (let o' = canvas_opts r; a = area r; x' = jadd fl (ax a) (jmul fl (fst t) (aw a)); y' = jadd fl (ay a) (ah a);
          size = Fin (axisTickSize o'); width = Fin (axisLabelWidth o')
      in add_label True (tick_string (snd t))
           (styled [(''top'', px_text (jadd fl y' size)), (''left'', px_text (jsub fl x' (jdiv fl width (Fin 2)))),
              (''textAlign'', js ''center''), (''width'', px_text width)] (axis_label_style fl o'))
           (draw (segment x' y' x' (jadd fl y' size)) r))"

definition renderAxis :: "(rat \<Rightarrow> rat) \<Rightarrow> renderer \<Rightarrow> renderer" where
  "renderAxis fl r =
     (let o' = canvas_opts r; a = area r; bottom = jadd fl (ay a) (ah a)
      in if \<not> drawXAxis o' \<and> \<not> drawYAxis o' then r
         else
           (let r1 = draw [Save, StrokeStyle (style_text fl (axisLineColor o')), LineWidth (axisLineWidth o')] r;
                r2 = (if drawYAxis o' then draw (segment (ax a) (ay a) (ax a) bottom) (fold (draw_ytick fl) (yticks (chart r)) r1) else r1);
                r3 = (if drawXAxis o' then
                        draw (segment (ax a) bottom (jadd fl (ax a) (aw a)) bottom) (fold (draw_xtick fl) (xticks (chart r)) r2) else r2)
            in draw [Restore] r3))"

text \<open>
  The labels of a pie: the last slice with the position of a tick as its x value, at its
  middle, aligned by the quarter it is in.
\<close>

definition normalised :: "(rat \<Rightarrow> rat) \<Rightarrow> jsnum \<Rightarrow> jsnum" where
  "normalised fl a =
     (let circle = jmul fl (Fin Math_PI) (Fin 2)
      in if jless circle a then jsub fl a circle else if jless a (Fin 0) then jadd fl a circle else a)"

definition pie_place ::
  "(rat \<Rightarrow> rat) \<Rightarrow> canvas_options \<Rightarrow> jsnum \<Rightarrow> jsnum \<Rightarrow> jsnum \<Rightarrow> (string \<times> jsstring) list" where
  "pie_place fl o' ang lx ly =
     (let up = jsub fl ly (Fin (axisLabelFontSize o')); west = jsub fl lx (Fin (axisLabelWidth o'));
          place = (\<lambda>al va l t. [(''textAlign'', js al), (''verticalAlign'', js va), (''left'', px_text l), (''top'', px_text t)])
      in if jle ang (jmul fl (Fin Math_PI) (Fin (1 / 2))) then place ''left'' ''top'' lx up
         else if jle ang (Fin Math_PI) then place ''left'' ''bottom'' lx ly
         else if jle ang (jmul fl (Fin Math_PI) (Fin (3 / 2))) \<and> jless (Fin Math_PI) ang then place ''right'' ''bottom'' west ly
         else place ''right'' ''bottom'' west up)"

definition draw_pie_label ::
  "(rat \<Rightarrow> rat) \<Rightarrow> (jsnum \<Rightarrow> jsnum) \<Rightarrow> (jsnum \<Rightarrow> jsnum) \<Rightarrow> jsnum \<times> tick_text \<Rightarrow> renderer \<Rightarrow> renderer" where
  "draw_pie_label fl msin mcos t r =
     (case find (\<lambda>s. sxval s = fst t) (rev (slices (chart r))) of
        None \<Rightarrow> r
      | Some s \<Rightarrow>
          (let o' = canvas_opts r; a = area r;
               ang = normalised fl (jdiv fl (jadd fl (startAngle s) (endAngle s)) (Fin 2));
               dist = jadd fl (radius fl o' a) (Fin 10);
               lx = jadd fl (center_x fl a) (jmul fl (msin ang) dist); ly = jsub fl (center_y fl a) (jmul fl (mcos ang) dist)
           in add_label True (tick_string (snd t))
                ([(''position'', js ''absolute''), (''zIndex'', js ''11''), (''width'', rat_px (axisLabelWidth o')),
                  (''fontSize'', rat_px (axisLabelFontSize o')), (''overflow'', js ''hidden''),
                  (''color'', toHexString fl (axisLabelColor o'))] @ pie_place fl o' ang lx ly) r))"

definition renderPieAxis :: "(rat \<Rightarrow> rat) \<Rightarrow> (jsnum \<Rightarrow> jsnum) \<Rightarrow> (jsnum \<Rightarrow> jsnum) \<Rightarrow> renderer \<Rightarrow> renderer" where
  "renderPieAxis fl msin mcos r =
     (if drawXAxis (canvas_opts r) then fold (draw_pie_label fl msin mcos) (xticks (chart r)) r else r)"

section \<open>Rendering and clearing\<close>

definition plain_background :: "(rat \<Rightarrow> rat) \<Rightarrow> renderer \<Rightarrow> renderer" where
  "plain_background fl r =
     draw [Save, FillStyle (style_text fl (backgroundColor (canvas_opts r))),
       FillRect (Fin 0) (Fin 0) (Fin (canvas_width r)) (Fin (canvas_height r)), Restore] r"

definition sweet_background :: "(rat \<Rightarrow> rat) \<Rightarrow> renderer \<Rightarrow> renderer" where
  "sweet_background fl r =
     (let a = area r
      in if style (chart r) = ''bar'' \<or> style (chart r) = ''line'' then
           draw ([Save, FillStyle (style_text fl (backgroundColor (canvas_opts r))), FillRect (ax a) (ay a) (aw a) (ah a),
               StrokeStyle (style_text fl whiteColor), LineWidth 1]
             @ concat (map (\<lambda>t. let y' = jadd fl (jmul fl (fst t) (ah a)) (ay a) in segment (ax a) y' (jadd fl (ax a) (aw a)) y')
                 (yticks (chart r)))
             @ [Restore]) r
         else plain_background fl r)"

definition renderBackground :: "(rat \<Rightarrow> rat) \<Rightarrow> renderer \<Rightarrow> renderer" where
  "renderBackground fl r = (if sweet r then sweet_background fl r else plain_background fl r)"

definition render ::
  "(rat \<Rightarrow> rat) \<Rightarrow> (jsnum \<Rightarrow> jsnum) \<Rightarrow> (jsnum \<Rightarrow> jsnum) \<Rightarrow> bool \<Rightarrow> renderer \<Rightarrow> renderer option" where
  "render fl msin mcos loaded r =
     (if colorScheme (canvas_opts r) = [] then None
      else
        (let r1 = (if drawBackground (canvas_opts r) then renderBackground fl r else r)
         in Some (if chart_style r = ''bar'' then renderAxis fl (renderBarChart fl r1)
                  else if chart_style r = ''pie'' then renderPieAxis fl msin mcos (renderPieChart fl loaded r1)
                  else if chart_style r = ''line'' then renderAxis fl (renderLineChart fl loaded r1)
                  else r1)))"

definition clear :: "renderer \<Rightarrow> renderer" where
  "clear r =
     (draw [ClearRect (Fin 0) (Fin 0) (Fin (canvas_width r)) (Fin (canvas_height r))] r)
       \<lparr>container := filter (\<lambda>l. label_id l \<notin> set (xlabels r @ ylabels r)) (container r), xlabels := [], ylabels := []\<rparr>"

section \<open>The mouse\<close>

text \<open>The position of the mouse on the page and of the canvas; the hit test may change the layout.\<close>

definition resolveObject ::
  "(rat \<Rightarrow> rat) \<Rightarrow> (jsnum \<Rightarrow> jsnum) \<Rightarrow> (jsnum \<Rightarrow> jsnum \<Rightarrow> jsnum) \<Rightarrow> rat \<times> rat \<Rightarrow> rat \<times> rat \<Rightarrow> renderer \<Rightarrow> renderer \<times> (js_error + hit)" where
  "resolveObject fl msqrt matan2 pos mouse r =
     (let a = area r; rel = (\<lambda>m p o'. jsub fl (jsub fl (Fin m) (Fin p)) o');
          x' = jdiv fl (rel (fst mouse) (fst pos) (ax a)) (aw a); y' = jdiv fl (rel (snd mouse) (snd pos) (ay a)) (ah a)
      in case hitTest fl msqrt matan2 x' y' (chart r) of
           ((l, h), None) \<Rightarrow> (r\<lparr>chart := l\<rparr>, Inr h)
         | ((l, h), Some e) \<Rightarrow> (r\<lparr>chart := l\<rparr>, Inl e))"

definition signal :: "string \<Rightarrow> event_arg \<Rightarrow> renderer \<Rightarrow> renderer" where
  "signal s a r = r\<lparr>signals := signals r @ [(s, a)]\<rparr>"

definition event_object :: "hit \<Rightarrow> event_arg" where
  "event_object h = (if h = NoHit then NullEvent else ChartEvent h)"

definition onclick :: "hit \<Rightarrow> renderer \<Rightarrow> renderer" where
  "onclick h r = (if h = NoHit then r else signal ''onclick'' (event_object h) r)"

definition onmouseover :: "hit \<Rightarrow> renderer \<Rightarrow> renderer" where
  "onmouseover h r = (if h = NoHit then r else signal ''onmouseover'' (event_object h) r)"

definition onmouseout :: "hit \<Rightarrow> renderer \<Rightarrow> renderer" where
  "onmouseout h r = signal ''onmouseout'' (if h = NoHit then RawEvent else event_object h) r"

definition onmousemove :: "hit \<Rightarrow> renderer \<Rightarrow> renderer" where
  "onmousemove h r =
     (if h = NoHit \<and> event_isinside r = NoHit then r
      else
        (let s = (if event_isinside r = NoHit then ''onmouseover'' else if h = NoHit then ''onmouseout'' else ''onmousemove'')
         in (signal s (event_object h) r)\<lparr>event_isinside := h\<rparr>))"

text \<open>A handler first finds out what the mouse is on.\<close>

definition mouse_event ::
  "(rat \<Rightarrow> rat) \<Rightarrow> (jsnum \<Rightarrow> jsnum) \<Rightarrow> (jsnum \<Rightarrow> jsnum \<Rightarrow> jsnum) \<Rightarrow> (hit \<Rightarrow> renderer \<Rightarrow> renderer) \<Rightarrow> rat \<times> rat \<Rightarrow> rat \<times> rat \<Rightarrow> renderer \<Rightarrow> renderer \<times> js_error option" where
  "mouse_event fl msqrt matan2 handler pos mouse r =
     (case resolveObject fl msqrt matan2 pos mouse r of
        (r1, Inl e) \<Rightarrow> (r1, Some e)
      | (r1, Inr h) \<Rightarrow> (handler h r1, None))"

section \<open>The settings of the canvas are restored\<close>

text \<open>The depth of the stack of settings; a restore without a save is an error.\<close>

fun depth :: "command list \<Rightarrow> nat \<Rightarrow> nat option" where
  "depth [] d = Some d"
| "depth (Save # cs) d = depth cs (Suc d)"
| "depth (Restore # cs) d = (case d of 0 \<Rightarrow> None | Suc e \<Rightarrow> depth cs e)"
| "depth (c # cs) d = depth cs d"

definition balanced :: "command list \<Rightarrow> bool" where
  "balanced cs \<longleftrightarrow> (\<forall>d. depth cs d = Some d)"

lemma depth_append: "depth (cs @ ds) d = Option.bind (depth cs d) (depth ds)"
  by (induction cs d rule: depth.induct) (auto split: nat.split)

lemma balanced_nested [simp]:
  "balanced cs \<Longrightarrow> depth (cs @ ds) d = depth ds d" "balanced cs \<Longrightarrow> depth cs d = Some d"
  by (simp_all add: balanced_def depth_append)

lemma balancedI: "(\<And>d. depth cs d = Some d) \<Longrightarrow> balanced cs"
  by (simp add: balanced_def)

lemma balanced_pieces [simp]:
  "balanced []" "balanced cs \<Longrightarrow> balanced ds \<Longrightarrow> balanced (cs @ ds)" "balanced (if b then cs else ds) = (if b then balanced cs else balanced ds)"
  by (simp_all add: balanced_def depth_append)

lemma balanced_concat: "(\<And>c. c \<in> set css \<Longrightarrow> balanced c) \<Longrightarrow> balanced (concat css)"
  by (induction css) auto

lemma balanced_for_sets [simp]: "(\<And>i n. balanced (f i n)) \<Longrightarrow> balanced (for_sets f i ns)"
  by (induction f i ns rule: for_sets.induct) auto

lemma balanced_slices [simp]: "(\<And>i s. balanced (f i s)) \<Longrightarrow> balanced (draw_slices f i ss)"
  by (induction f i ss rule: draw_slices.induct) auto

lemma balanced_small [simp]:
  "balanced (stroke_style fl o' c)" "balanced (gray_shadow fl)" "balanced (draw_bar fl o' a b)"
  "balanced (segment x1 y1 x2 y2)" "balanced (pie_path fl o' a s)"
  by (rule balancedI; simp add: stroke_style_def gray_shadow_def draw_bar_def segment_def pie_path_def Let_def split: option.split)+

lemma balanced_lines [simp]: "balanced (map (\<lambda>p. LineTo (f p) (g p)) ps)"
  by (rule balancedI, induction ps) simp_all

lemma balanced_line_path [simp]: "balanced (line_path fl a ps n)"
  by (rule balancedI) (simp add: line_path_def)

lemma balanced_sets [simp]:
  "balanced (draw_sweet_bar fl o' ns a b)" "balanced (set_line fl o' a ps i n)" "balanced (set_sweet_line fl o' a ps i n)"
  "balanced (plain_slice fl o' a i s)" "balanced (sweet_slice fl o' a i s)" "balanced (pie_shadow fl o' a)"
  by (rule balancedI; simp add: draw_sweet_bar_def set_line_def set_sweet_line_def plain_slice_def sweet_slice_def pie_shadow_def Let_def)+

lemma balanced_set_bars [simp]:
  assumes "\<And>b. balanced (plot b)"
  shows "balanced (set_bars fl o' plot bs i n)"
proof -
  have "balanced (concat (map plot (filter (\<lambda>b. bar_name b = n) bs)))"
    by (rule balanced_concat) (auto simp: assms)
  then show ?thesis by (intro balancedI) (simp add: set_bars_def)
qed

text \<open>What an operation adds to the canvas.\<close>

definition keeps_settings :: "renderer \<Rightarrow> renderer \<Rightarrow> bool" where
  "keeps_settings r r' \<longleftrightarrow> (\<exists>cs. canvas r' = canvas r @ cs \<and> balanced cs)"

lemma keeps_refl [simp]: "keeps_settings r r"
  by (auto simp: keeps_settings_def)

lemma keeps_trans: "keeps_settings r r1 \<Longrightarrow> keeps_settings r1 r2 \<Longrightarrow> keeps_settings r r2"
  by (auto simp: keeps_settings_def)

lemma keeps_draw: "balanced cs \<Longrightarrow> keeps_settings r (draw cs r)"
  by (auto simp: keeps_settings_def draw_def)

lemma keeps_same_canvas: "canvas r' = canvas r \<Longrightarrow> keeps_settings r r'"
  by (auto simp: keeps_settings_def)

lemma add_label_canvas [simp]: "canvas (add_label b t st r) = canvas r"
  by (simp add: add_label_def Let_def)

lemma keeps_fold: "(\<And>t r. keeps_settings r (f t r)) \<Longrightarrow> keeps_settings r (fold f ts r)"
  by (induction ts arbitrary: r) (auto intro: keeps_trans)

lemma keeps_ticks: "keeps_settings r (draw_ytick fl t r)" "keeps_settings r (draw_xtick fl t r)" "keeps_settings r (draw_pie_label fl msin mcos t r)"
  by (auto simp: draw_ytick_def draw_xtick_def draw_pie_label_def Let_def keeps_settings_def draw_def split: option.split)

lemma keeps_renderAxis: "keeps_settings r (renderAxis fl r)"
proof -
  let ?o = "canvas_opts r" and ?a = "area r"
  define cs where "cs = [StrokeStyle (style_text fl (axisLineColor ?o)), LineWidth (axisLineWidth ?o)]"
  let ?r1 = "draw (Save # cs) r"
  define r2 where "r2 = (if drawYAxis ?o then draw (segment (ax ?a) (ay ?a) (ax ?a) (jadd fl (ay ?a) (ah ?a)))
    (fold (draw_ytick fl) (yticks (chart r)) ?r1) else ?r1)"
  define r3 where "r3 = (if drawXAxis ?o then draw (segment (ax ?a) (jadd fl (ay ?a) (ah ?a)) (jadd fl (ax ?a) (aw ?a)) (jadd fl (ay ?a) (ah ?a)))
    (fold (draw_xtick fl) (xticks (chart r)) r2) else r2)"
  have folds: "keeps_settings q (fold (draw_ytick fl) ts q)" "keeps_settings q (fold (draw_xtick fl) ts q)" for q ts
    by (rule keeps_fold, rule keeps_ticks)+
  have "keeps_settings ?r1 r2" unfolding r2_def using keeps_trans [OF folds(1) keeps_draw] by simp
  moreover have "keeps_settings r2 r3" unfolding r3_def using keeps_trans [OF folds(2) keeps_draw] by simp
  ultimately have "keeps_settings ?r1 r3" by (rule keeps_trans)
  then obtain ds where ds: "canvas r3 = canvas ?r1 @ ds" "balanced ds" by (auto simp: keeps_settings_def)
  have "balanced (Save # cs @ ds @ [Restore])" by (rule balancedI) (simp add: cs_def ds(2))
  moreover have "canvas (draw [Restore] r3) = canvas r @ Save # cs @ ds @ [Restore]" using ds(1) by (simp add: draw_def)
  ultimately have "keeps_settings r (draw [Restore] r3)" unfolding keeps_settings_def by blast
  moreover have "renderAxis fl r = (if \<not> drawXAxis ?o \<and> \<not> drawYAxis ?o then r else draw [Restore] r3)"
    by (simp add: renderAxis_def Let_def r2_def r3_def cs_def)
  ultimately show ?thesis by simp
qed

lemma keeps_background: "keeps_settings r (renderBackground fl r)"
proof -
  have p: "keeps_settings r (plain_background fl r)"
    unfolding plain_background_def by (intro keeps_draw balancedI) simp
  have b: "balanced (concat (map (\<lambda>t. segment (f t) (g t) (h t) (k t)) ts))" for f g h k and ts :: "(jsnum \<times> tick_text) list"
    by (rule balanced_concat) auto
  have "keeps_settings r (sweet_background fl r)"
    unfolding sweet_background_def Let_def using p b by (auto intro!: keeps_draw balancedI)
  with p show ?thesis by (simp add: renderBackground_def)
qed

lemma keeps_charts:
  "keeps_settings r (renderBarChart fl r)" "keeps_settings r (renderLineChart fl loaded r)" "keeps_settings r (renderPieChart fl loaded r)"
proof -
  show "keeps_settings r (renderBarChart fl r)" "keeps_settings r (renderLineChart fl loaded r)"
    unfolding renderBarChart_def renderLineChart_def Let_def by (intro keeps_draw; simp)+
  show "keeps_settings r (renderPieChart fl loaded r)"
    unfolding renderPieChart_def Let_def by (intro keeps_draw balancedI) simp
qed

lemma keeps_pie_axis: "keeps_settings r (renderPieAxis fl msin mcos r)"
  by (simp add: renderPieAxis_def keeps_fold keeps_ticks(3))

text \<open>
  Rendering leaves the canvas with the settings it had: whatever is drawn, every save is
  matched by a restore and no restore lacks its save.
\<close>

theorem render_restores_settings:
  assumes "render fl msin mcos loaded r = Some r'"
  shows "\<exists>cs. canvas r' = canvas r @ cs \<and> balanced cs"
proof -
  define r1 where "r1 = (if drawBackground (canvas_opts r) then renderBackground fl r else r)"
  have 1: "keeps_settings r r1" by (simp add: r1_def keeps_background)
  have "r' = (if chart_style r = ''bar'' then renderAxis fl (renderBarChart fl r1)
      else if chart_style r = ''pie'' then renderPieAxis fl msin mcos (renderPieChart fl loaded r1)
      else if chart_style r = ''line'' then renderAxis fl (renderLineChart fl loaded r1) else r1)"
    using assms by (simp add: render_def r1_def Let_def split: if_splits)
  then have "keeps_settings r1 r'"
    by (auto intro: keeps_trans [OF keeps_charts(1) keeps_renderAxis] keeps_trans [OF keeps_charts(2) keeps_renderAxis]
        keeps_trans [OF keeps_charts(3) keeps_pie_axis])
  with 1 show ?thesis using keeps_trans unfolding keeps_settings_def [symmetric] by blast
qed

section \<open>Clearing\<close>

text \<open>The labels in the container that are not the renderer's, and the numbers not used yet.\<close>

definition foreign :: "renderer \<Rightarrow> label list" where
  "foreign r = filter (\<lambda>l. label_id l \<notin> set (xlabels r @ ylabels r)) (container r)"

definition fresh :: "renderer \<Rightarrow> bool" where
  "fresh r \<longleftrightarrow> (\<forall>l \<in> set (container r). label_id l < next_id r)"

definition keeps_foreign :: "renderer \<Rightarrow> renderer \<Rightarrow> bool" where
  "keeps_foreign r r' \<longleftrightarrow> (fresh r \<longrightarrow> fresh r' \<and> foreign r' = foreign r)"

lemma foreign_trans: "keeps_foreign r r1 \<Longrightarrow> keeps_foreign r1 r2 \<Longrightarrow> keeps_foreign r r2"
  by (simp add: keeps_foreign_def)

lemma foreign_refl [simp]: "keeps_foreign r r"
  by (simp add: keeps_foreign_def)

lemma foreign_draw [simp]: "keeps_foreign q (draw cs r) = keeps_foreign q r"
  by (simp add: keeps_foreign_def fresh_def foreign_def draw_def)

lemma foreign_add_label: "keeps_foreign r (add_label b t st r)"
proof -
  have "filter (\<lambda>l. label_id l \<notin> insert (next_id r) (set (xlabels r @ ylabels r))) (container r) = foreign r" if "fresh r"
    unfolding foreign_def using that by (intro filter_cong) (auto simp: fresh_def)
  then show ?thesis
    by (auto simp: keeps_foreign_def fresh_def foreign_def add_label_def Let_def conj_left_commute less_SucI)
qed

lemma foreign_draw_label: "keeps_foreign r (add_label b t st (draw cs r))"
  using foreign_trans [OF _ foreign_add_label, of r "draw cs r"] by simp

lemma foreign_fold: "(\<And>t r. keeps_foreign r (f t r)) \<Longrightarrow> keeps_foreign r (fold f ts r)"
  by (induction ts arbitrary: r) (auto intro: foreign_trans)

lemma foreign_ticks: "keeps_foreign r (draw_ytick fl t r)" "keeps_foreign r (draw_xtick fl t r)" "keeps_foreign r (draw_pie_label fl msin mcos t r)"
  by (simp_all add: draw_ytick_def draw_xtick_def draw_pie_label_def Let_def foreign_draw_label foreign_add_label split: option.split)

lemma foreign_folds: "keeps_foreign q r \<Longrightarrow> keeps_foreign q (fold (draw_ytick fl) ts r)" "keeps_foreign q r \<Longrightarrow> keeps_foreign q (fold (draw_xtick fl) ts r)"
  "keeps_foreign q r \<Longrightarrow> keeps_foreign q (fold (draw_pie_label fl msin mcos) ts r)"
  by (erule foreign_trans, rule foreign_fold, rule foreign_ticks)+

lemma foreign_parts:
  "keeps_foreign r (renderAxis fl r)" "keeps_foreign r (renderPieAxis fl msin mcos r)" "keeps_foreign r (renderBackground fl r)"
  "keeps_foreign r (renderBarChart fl r)" "keeps_foreign r (renderLineChart fl loaded r)" "keeps_foreign r (renderPieChart fl loaded r)"
  by (simp_all add: renderAxis_def renderPieAxis_def renderBackground_def sweet_background_def plain_background_def renderBarChart_def
      renderLineChart_def renderPieChart_def Let_def foreign_folds)

lemma render_keeps_foreign:
  assumes "render fl msin mcos loaded r = Some r'"
  shows "keeps_foreign r r'"
proof -
  define r1 where "r1 = (if drawBackground (canvas_opts r) then renderBackground fl r else r)"
  have 1: "keeps_foreign r r1" by (simp add: r1_def foreign_parts)
  have "r' = (if chart_style r = ''bar'' then renderAxis fl (renderBarChart fl r1)
      else if chart_style r = ''pie'' then renderPieAxis fl msin mcos (renderPieChart fl loaded r1)
      else if chart_style r = ''line'' then renderAxis fl (renderLineChart fl loaded r1) else r1)"
    using assms by (simp add: render_def r1_def Let_def split: if_splits)
  then have "keeps_foreign r1 r'"
    by (auto intro: foreign_trans [OF foreign_parts(4) foreign_parts(1)] foreign_trans [OF foreign_parts(6) foreign_parts(2)]
        foreign_trans [OF foreign_parts(5) foreign_parts(1)])
  with 1 show ?thesis by (rule foreign_trans)
qed

fun render_times ::
  "nat \<Rightarrow> (rat \<Rightarrow> rat) \<Rightarrow> (jsnum \<Rightarrow> jsnum) \<Rightarrow> (jsnum \<Rightarrow> jsnum) \<Rightarrow> bool \<Rightarrow> renderer \<Rightarrow> renderer option" where
  "render_times 0 fl msin mcos loaded r = Some r"
| "render_times (Suc k) fl msin mcos loaded r =
     Option.bind (render fl msin mcos loaded r) (render_times k fl msin mcos loaded)"

lemma render_times_keeps: "render_times k fl msin mcos loaded r = Some r' \<Longrightarrow> keeps_foreign r r'"
  by (induction k arbitrary: r) (auto simp: Option.bind_eq_Some_conv dest: render_keeps_foreign intro: foreign_trans)

text \<open>
  C31. Clearing undoes rendering. However often a new renderer has rendered, \<open>clear\<close> takes all
  its labels and none else out of the container and ends with clearing the whole canvas.
\<close>

theorem clear_undoes_render:
  assumes "fresh r" "xlabels r = []" "ylabels r = []" "render_times k fl msin mcos loaded r = Some r'"
  shows "container (clear r') = container r \<and> xlabels (clear r') = [] \<and> ylabels (clear r') = [] \<and>
    canvas (clear r') = canvas r' @ [ClearRect (Fin 0) (Fin 0) (Fin (canvas_width r')) (Fin (canvas_height r'))]"
proof -
  have "foreign r' = foreign r" using render_times_keeps [OF assms(4)] assms(1) by (simp add: keeps_foreign_def)
  moreover have "foreign r = container r" using assms(2,3) by (simp add: foreign_def)
  moreover have "container (clear r') = foreign r'" by (simp add: clear_def draw_def foreign_def)
  ultimately show ?thesis by (simp add: clear_def draw_def)
qed

section \<open>The mouse enters before it moves or leaves\<close>

fun alternating :: "bool \<Rightarrow> string list \<Rightarrow> bool" where
  "alternating inside [] = True"
| "alternating False (s # ss) = (s = ''onmouseover'' \<and> alternating True ss)"
| "alternating True (s # ss) = (s = ''onmousemove'' \<and> alternating True ss \<or> s = ''onmouseout'' \<and> alternating False ss)"

text \<open>
  C32. The signals of mouse movements. For any sequence of objects under the mouse, the signals
  sent are first one that the mouse is over an object, then movements, then one that it is
  out, and so on; whether the mouse is inside at the end is what the renderer remembers.
\<close>

theorem mouse_over_and_out_alternate:
  "\<exists>ss. signals (fold onmousemove hs r) = signals r @ ss \<and> alternating (event_isinside r \<noteq> NoHit) (map fst ss) \<and>
     event_isinside (fold onmousemove hs r) = (if hs = [] then event_isinside r else last hs)"
proof (induction hs arbitrary: r)
  case Nil
  show ?case by simp
next
  case (Cons h hs)
  from Cons [of "onmousemove h r"] obtain ss where
    ss: "signals (fold onmousemove (h # hs) r) = signals (onmousemove h r) @ ss"
    "alternating (event_isinside (onmousemove h r) \<noteq> NoHit) (map fst ss)"
    "event_isinside (fold onmousemove (h # hs) r) = (if hs = [] then event_isinside (onmousemove h r) else last hs)" by auto
  have inside: "event_isinside (onmousemove h r) = h" by (simp add: onmousemove_def signal_def Let_def)
  consider "h = NoHit" "event_isinside r = NoHit" | "h \<noteq> NoHit" "event_isinside r = NoHit"
    | "h = NoHit" "event_isinside r \<noteq> NoHit" | "h \<noteq> NoHit" "event_isinside r \<noteq> NoHit" by blast
  then obtain s where "signals (onmousemove h r) = signals r @ s" "alternating (event_isinside r \<noteq> NoHit) (map fst (s @ ss))"
  proof cases
    case 1
    then show ?thesis using that [of "[]"] ss(2) inside by (simp add: onmousemove_def)
  next
    case 2
    then show ?thesis using that [of "[(''onmouseover'', event_object h)]"] ss(2) inside by (simp add: onmousemove_def signal_def Let_def)
  next
    case 3
    then show ?thesis using that [of "[(''onmouseout'', event_object h)]"] ss(2) inside by (simp add: onmousemove_def signal_def Let_def)
  next
    case 4
    then show ?thesis using that [of "[(''onmousemove'', event_object h)]"] ss(2) inside by (simp add: onmousemove_def signal_def Let_def)
  qed
  then show ?case using ss(1,3) inside by (intro exI [of _ "s @ ss"]) auto
qed

section \<open>Bars are drawn where the layout puts them\<close>

text \<open>The rectangle of a bar in pixels and whether it is wide and high enough to be drawn.\<close>

definition bar_pixels :: "(rat \<Rightarrow> rat) \<Rightarrow> plot_area \<Rightarrow> bar \<Rightarrow> jsnum \<times> jsnum \<times> jsnum \<times> jsnum" where
  "bar_pixels fl a b = (at_x fl a (bar_x b), at_y fl a (bar_y b), jmul fl (aw a) (bar_w b), jmul fl (ah a) (bar_h b))"

definition visible :: "(rat \<Rightarrow> rat) \<Rightarrow> plot_area \<Rightarrow> bar \<Rightarrow> bool" where
  "visible fl a b \<longleftrightarrow> \<not> jless (jmul fl (aw a) (bar_w b)) (Fin 1) \<and> \<not> jless (jmul fl (ah a) (bar_h b)) (Fin 1)"

definition outlines :: "command list \<Rightarrow> (jsnum \<times> jsnum \<times> jsnum \<times> jsnum) set" where
  "outlines cs = {(a, b, w, h). StrokeRect a b w h \<in> set cs}"

lemma outlines_simps [simp]:
  "outlines [] = {}" "outlines (cs @ ds) = outlines cs \<union> outlines ds" "outlines (concat css) = (\<Union>cs \<in> set css. outlines cs)"
  by (auto simp: outlines_def)

lemma UN_lessThan_Suc: "(\<Union>k < Suc m. g k) = g 0 \<union> (\<Union>k < m. g (Suc k))"
  unfolding lessThan_Suc_eq_insert_0 by simp

lemma outlines_for_sets: "outlines (for_sets f i ns) = (\<Union>k < length ns. outlines (f (i + k) (ns ! k)))"
  by (induction f i ns rule: for_sets.induct) (simp_all add: UN_lessThan_Suc)

definition outlined :: "renderer \<Rightarrow> bool" where
  "outlined r \<longleftrightarrow> sweet r \<or> shouldStroke (canvas_opts r)"

lemma outlines_bar:
  assumes "outlined r"
  shows "outlines ((if sweet r then draw_sweet_bar fl (canvas_opts r) ns (area r) else draw_bar fl (canvas_opts r) (area r)) b) =
    (if visible fl (area r) b then {bar_pixels fl (area r) b} else {})"
  using assms by (auto simp: outlined_def outlines_def draw_sweet_bar_def draw_bar_def visible_def bar_pixels_def gray_shadow_def Let_def)

lemma outlines_set_bars: "outlines (set_bars fl o' plot bs i n) = (\<Union>b \<in> {b \<in> set bs. bar_name b = n}. outlines (plot b))"
  by (auto simp: set_bars_def outlines_def stroke_style_def split: option.splits)

lemma bars_outlined:
  assumes "outlined r" "\<forall>b \<in> set (bars (chart r)). bar_name b \<in> set (set_names r)"
  shows "\<exists>cs. canvas (renderBarChart fl r) = canvas r @ cs \<and>
    outlines cs = bar_pixels fl (area r) ` {b \<in> set (bars (chart r)). visible fl (area r) b}"
proof -
  let ?ns = "set_names r"
  let ?plot = "if sweet r then draw_sweet_bar fl (canvas_opts r) ?ns (area r) else draw_bar fl (canvas_opts r) (area r)"
  let ?cs = "for_sets (set_bars fl (canvas_opts r) ?plot (bars (chart r))) 0 ?ns"
  have "canvas (renderBarChart fl r) = canvas r @ ?cs" by (simp add: renderBarChart_def draw_def Let_def)
  moreover have "outlines ?cs = (\<Union>n \<in> set ?ns. \<Union>b \<in> {b \<in> set (bars (chart r)). bar_name b = n}. outlines (?plot b))"
    unfolding outlines_for_sets outlines_set_bars by (auto simp: set_conv_nth)
  then have "outlines ?cs = (\<Union>b \<in> set (bars (chart r)). if visible fl (area r) b then {bar_pixels fl (area r) b} else {})"
    unfolding outlines_bar [OF assms(1)] using assms(2) by blast
  ultimately show ?thesis by (auto split: if_splits)
qed

definition inside_box :: "rat \<Rightarrow> rat \<Rightarrow> rat \<Rightarrow> rat \<Rightarrow> jsnum \<times> jsnum \<times> jsnum \<times> jsnum \<Rightarrow> bool" where
  "inside_box left upper width height p \<longleftrightarrow>
     (\<exists>a b w h. p = (Fin a, Fin b, Fin w, Fin h) \<and> left \<le> a \<and> a + w \<le> left + width \<and> upper \<le> b \<and> b + h = upper + height)"

lemma in_area_finite: "in_area v \<Longrightarrow> \<exists>u. v = Fin u \<and> 0 \<le> u \<and> u \<le> 1"
  by (cases v) (auto simp: in_area_def jle_def jeq_def)

lemma placed_bar_within:
  assumes "in_area (bar_x b)" "in_area (jadd (\<lambda>x. x) (bar_x b) (bar_w b))" "in_area (bar_h b)" "bar_y b = jsub (\<lambda>x. x) (Fin 1) (bar_h b)"
    and "0 \<le> width" "0 \<le> height" "a = \<lparr>ax = Fin left, ay = Fin upper, aw = Fin width, ah = Fin height\<rparr>"
  shows "inside_box left upper width height (bar_pixels (\<lambda>x. x) a b)"
proof -
  obtain u where u: "bar_x b = Fin u" "0 \<le> u" using in_area_finite [OF assms(1)] by blast
  obtain w where w: "bar_w b = Fin w" "u + w \<le> 1" using in_area_finite [OF assms(2)] u(1) by (cases "bar_w b") auto
  obtain h where h: "bar_h b = Fin h" "0 \<le> h" "h \<le> 1" using in_area_finite [OF assms(3)] by blast
  have y: "bar_y b = Fin (1 - h)" using assms(4) h(1) by simp
  have "width * u + width * w \<le> width" using mult_left_mono [OF w(2) assms(5)] by (simp add: distrib_left)
  moreover have "0 \<le> width * u" using assms(5) u(2) by simp
  moreover have "height * (1 - h) + height * h = height" by (simp flip: distrib_left)
  moreover have "0 \<le> height * (1 - h)" using assms(6) h(3) by simp
  ultimately show ?thesis unfolding inside_box_def bar_pixels_def at_x_def at_y_def
    by (simp add: u(1) w(1) h(1) y assms(7) add_ac)
qed

text \<open>
  C29. A chart on the canvas. In exact arithmetic, for the layout of a bar chart over at least one
  point, all of finite coordinates and none below the lower end of an axis, whose bars fill a
  fraction from 0 to 1 of their room, a renderer that outlines, which is the sweet one or one
  with the option to stroke, outlines exactly the bars that are at least one pixel wide and
  high, each inside the drawing area and standing on its lower edge. The lower end of an axis
  is the one that the options give, else 0 when the origin is zero, which is the default,
  else the least coordinate: with the default options the coordinates are not negative.
\<close>

theorem bars_drawn_in_area:
  assumes "PlotLayout.chart l ps" "style l = ''bar''"
    and "\<forall>(a, b) \<in> set (plain_points ps). low_x l ps \<le> a \<and> low_y l ps \<le> b"
    and "0 \<le> barWidthFillFraction (options l)" "barWidthFillFraction (options l) \<le> 1"
    and "renderer.chart r = fst (evaluate (\<lambda>x. x) l)" "sweet r \<or> shouldStroke (canvas_opts r)" "0 \<le> width" "0 \<le> height"
    and "area r = \<lparr>ax = Fin left, ay = Fin upper, aw = Fin width, ah = Fin height\<rparr>"
  shows "\<exists>cs. canvas (renderBarChart (\<lambda>x. x) r) = canvas r @ cs \<and>
    outlines cs = bar_pixels (\<lambda>x. x) (area r) ` {b \<in> set (bars (renderer.chart r)). visible (\<lambda>x. x) (area r) b} \<and>
    (\<forall>p \<in> outlines cs. inside_box left upper width height p)"
proof -
  let ?B = "bars (renderer.chart r)"
  from bars_placed [OF assms(1,2) _ assms(4,5)] assms(3) have B: "well_placed ?B" "datasets (renderer.chart r) = datasets l"
    "\<forall>b \<in> set ?B. standing (\<lambda>x. x) (datasets l) b" unfolding assms(6) above_origin_def by blast+
  have "\<forall>b \<in> set ?B. bar_name b \<in> set (set_names r)" using B(2,3) by (simp add: set_names_def standing_def)
  from bars_outlined [OF assms(7) [folded outlined_def] this, of "\<lambda>x. x"] obtain cs where
    cs: "canvas (renderBarChart (\<lambda>x. x) r) = canvas r @ cs"
    "outlines cs = bar_pixels (\<lambda>x. x) (area r) ` {b \<in> set ?B. visible (\<lambda>x. x) (area r) b}" by blast
  have "inside_box left upper width height (bar_pixels (\<lambda>x. x) (area r) b)" if "b \<in> set ?B" for b
    by (rule placed_bar_within [OF _ _ _ _ assms(8-10)]) (use B(1,3) that in \<open>auto simp: well_placed_def standing_def\<close>)
  then have "\<forall>p \<in> outlines cs. inside_box left upper width height p" unfolding cs(2) by blast
  with cs show ?thesis by blast
qed

text \<open>The graph of two queues, of ten messages and four, on a canvas of 760 by 400 pixels.\<close>

definition queue_layout :: "(rat \<Rightarrow> rat) \<Rightarrow> layout" where
  "queue_layout fl =
     fst (evaluate fl (addDataset ''sqrt'' [(Fin 1, Fin 10), (Fin 2, Fin 4)] (Layout double ''bar'' default_options)))"

definition queue_graph :: "(rat \<Rightarrow> rat) \<Rightarrow> renderer" where
  "queue_graph fl =
     new_renderer fl True (\<lambda>o'. o'\<lparr>padding := \<lparr>pad_left = 0, pad_right = 0, pad_top = 10, pad_bottom = 30\<rparr>\<rparr>)
       (queue_layout fl) 760 400"

theorem bars_drawn_in_area_witness:
  "\<exists>cs. canvas (renderBarChart (\<lambda>x. x) (queue_graph (\<lambda>x. x))) = canvas (queue_graph (\<lambda>x. x)) @ cs \<and>
     (\<forall>p \<in> outlines cs. inside_box 0 10 760 360 p)"
proof -
  let ?l = "addDataset ''sqrt'' [(Fin 1, Fin 10), (Fin 2, Fin 4)] (Layout double ''bar'' default_options)"
  have l: "PlotLayout.chart ?l [(''sqrt'', [(1, 10), (2, 4)])]" "style ?l = ''bar''" "barWidthFillFraction (options ?l) = 3 / 4"
    "\<forall>(a, b) \<in> set (plain_points [(''sqrt'', [(1, 10), (2, 4)])]). low_x ?l [(''sqrt'', [(1, 10), (2, 4)])] \<le> a \<and> low_y ?l [(''sqrt'', [(1, 10), (2, 4)])] \<le> b"
    by (simp_all add: PlotLayout.chart_def low_x_def low_y_def Layout_def addDataset_def default_options_def plain_points_def)
  have r: "renderer.chart (queue_graph (\<lambda>x. x)) = fst (evaluate (\<lambda>x. x) ?l)" "sweet (queue_graph (\<lambda>x. x)) \<or> shouldStroke (canvas_opts (queue_graph (\<lambda>x. x)))"
    "area (queue_graph (\<lambda>x. x)) = \<lparr>ax = Fin 0, ay = Fin 10, aw = Fin 760, ah = Fin 360\<rparr>"
    by (simp_all add: queue_graph_def queue_layout_def new_renderer_def Let_def)
  show ?thesis using bars_drawn_in_area [OF l(1,2,4) _ _ r(1,2) _ _ r(3)] l(3) by fastforce
qed

text \<open>A palette has enough fuel with one more than its number of steps.\<close>

lemma levels_return: "b - a < of_nat n * step \<Longrightarrow> levels (Suc n) (\<lambda>x. x) a b step \<noteq> None"
proof (induction n arbitrary: a)
  case (Suc n)
  then have "b - (a + step) < of_nat n * step" by (simp add: distrib_right)
  from Suc.IH [OF this] show ?case by (subst levels.simps) auto
qed simp

lemma scheme_exact: "scheme (\<lambda>x. x) c \<noteq> []"
proof -
  have "levels 8 (\<lambda>x. x) (- 1 / 5) (2 / 5) (1 / 10) = Some [- 1 / 5, - 1 / 10, 0, 1 / 10, 1 / 5, 3 / 10, 2 / 5]"
    by (simp add: eval_nat_numeral)
  then show ?thesis by (simp add: scheme_between_def palette_def)
qed

lemma queue_graph_new:
  "fresh (queue_graph fl)" "xlabels (queue_graph fl) = []" "ylabels (queue_graph fl) = []" "container (queue_graph fl) = []"
  "colorScheme (canvas_opts (queue_graph (\<lambda>x. x))) \<noteq> []"
  by (simp_all add: queue_graph_def new_renderer_def fresh_def officeBlue_def office_style_def default_canvas_def scheme_exact Let_def)

theorem clear_undoes_render_witness:
  "\<exists>r'. render_times 1 (\<lambda>x. x) (\<lambda>x. x) (\<lambda>x. x) True (queue_graph (\<lambda>x. x)) = Some r' \<and> container (clear r') = []"
proof -
  obtain r' where "render (\<lambda>x. x) (\<lambda>x. x) (\<lambda>x. x) True (queue_graph (\<lambda>x. x)) = Some r'"
    using queue_graph_new(5) by (simp add: render_def Let_def)
  then have r': "render_times 1 (\<lambda>x. x) (\<lambda>x. x) (\<lambda>x. x) True (queue_graph (\<lambda>x. x)) = Some r'" by simp
  from clear_undoes_render [OF queue_graph_new(1-3) this] r' show ?thesis by (simp add: queue_graph_new(4))
qed

theorem render_restores_settings_witness:
  "\<exists>r' cs. render (\<lambda>x. x) (\<lambda>x. x) (\<lambda>x. x) True (queue_graph (\<lambda>x. x)) = Some r' \<and> canvas r' = cs \<and> balanced cs"
proof -
  obtain r' where r': "render (\<lambda>x. x) (\<lambda>x. x) (\<lambda>x. x) True (queue_graph (\<lambda>x. x)) = Some r'"
    using queue_graph_new(5) by (simp add: render_def Let_def)
  from render_restores_settings [OF this] r' show ?thesis by (simp add: queue_graph_def new_renderer_def Let_def)
qed

section \<open>Loading the sweet renderer\<close>

text \<open>
  \<open>SweetCanvas.js\<close> replaces the line charts of the plain renderer: without it a renderer
  told neither to fill nor to stroke draws no area and no line, with it the same renderer
  fills and strokes.
\<close>

theorem sweet_replaces_plain_lines:
  assumes "\<not> sweet r" "\<not> shouldFill (canvas_opts r)" "\<not> shouldStroke (canvas_opts r)" "datasets (renderer.chart r) \<noteq> []" "canvas r = []"
  shows "FillPath \<notin> set (canvas (renderLineChart fl False r))" "FillPath \<in> set (canvas (renderLineChart fl True r))"
proof -
  have "FillPath \<notin> set (for_sets (set_line fl (canvas_opts r) (area r) ps) i ns)" for ps i ns
    using assms(2,3) by (induction ns arbitrary: i) (auto simp: set_line_def stroke_style_def split: option.split)
  then show "FillPath \<notin> set (canvas (renderLineChart fl False r))" using assms(5) by (simp add: renderLineChart_def draw_def)
  obtain n ns where "set_names r = n # ns" using assms(4) by (cases "set_names r") (auto simp: set_names_def)
  then show "FillPath \<in> set (canvas (renderLineChart fl True r))"
    by (simp add: renderLineChart_def draw_def set_sweet_line_def)
qed

end
