(* ===== verification/PlotSvg.thy ===== *)
theory PlotSvg
  imports PlotCanvas
begin

text \<open>
  The SVG renderers of PlotKit (\<open>SVG.js\<close>, \<open>SweetSVG.js\<close>): the same charts as those of
  \<open>PlotCanvas\<close>, as elements of a document. An element has a tag, attributes with their texts
  and the text in it; the root is the list of its children. Labels are put into the
  container around it, or drawn as elements. The detection of browsers, the plug-in for
  SVG and the filter for shadows, which nothing uses, are not modelled.
\<close>

section \<open>Elements\<close>

record svg_element =
  tag :: string
  attributes :: "(string \<times> jsstring) list"
  content_text :: jsstring

record svg_renderer =
  svg_sweet :: bool
  svg_opts :: canvas_options
  axisLabelUseDiv :: bool
  svg_layout :: layout
  svg_style :: string
  svg_width :: rat
  svg_height :: rat
  svg_area :: plot_area
  svg_root :: "svg_element list"
  svg_container :: "label list"
  svg_next :: nat
  svg_xlabels :: "nat list"
  svg_ylabels :: "nat list"

definition createSVGElement :: "string \<Rightarrow> (string \<times> jsstring) list \<Rightarrow> svg_element" where
  "createSVGElement name attrs = \<lparr>tag = name, attributes = styled attrs [], content_text = []\<rparr>"

definition num :: "rat \<Rightarrow> jsstring" where
  "num x = jtext (Fin x)"

definition default_svg :: "(rat \<Rightarrow> rat) \<Rightarrow> canvas_options" where
  "default_svg fl = (default_canvas fl)\<lparr>colorScheme := scheme fl (baseColors fl ! 1)\<rparr>"

definition new_svg ::
  "(rat \<Rightarrow> rat) \<Rightarrow> bool \<Rightarrow> (canvas_options \<Rightarrow> canvas_options) \<Rightarrow> bool \<Rightarrow> layout \<Rightarrow> rat \<Rightarrow> rat \<Rightarrow> svg_renderer" where
  "new_svg fl sw upd useDiv l w h =
     (let opts = upd (if sw then officeBlue fl (default_svg fl) else default_svg fl); p = padding opts
      in \<lparr>svg_sweet = sw, svg_opts = opts, axisLabelUseDiv = useDiv, svg_layout = l, svg_style = style l, svg_width = w, svg_height = h,
          svg_area = \<lparr>ax = Fin (pad_left p), ay = Fin (pad_top p),
            aw = jsub fl (jsub fl (Fin w) (Fin (pad_left p))) (Fin (pad_right p)),
            ah = jsub fl (jsub fl (Fin h) (Fin (pad_top p))) (Fin (pad_bottom p))\<rparr>,
          svg_root = [], svg_container = [], svg_next = 0, svg_xlabels = [], svg_ylabels = []\<rparr>)"

definition append_svg :: "svg_element list \<Rightarrow> svg_renderer \<Rightarrow> svg_renderer" where
  "append_svg es r = r\<lparr>svg_root := svg_root r @ es\<rparr>"

definition svg_rect :: "jsnum \<Rightarrow> jsnum \<Rightarrow> jsnum \<Rightarrow> jsnum \<Rightarrow> (string \<times> jsstring) list \<Rightarrow> svg_element" where
  "svg_rect x y w h extra =
     createSVGElement ''rect'' ([(''x'', px_text x), (''y'', px_text y), (''width'', px_text w), (''height'', px_text h)] @ extra)"

definition svg_line :: "jsnum \<Rightarrow> jsnum \<Rightarrow> jsnum \<Rightarrow> jsnum \<Rightarrow> (string \<times> jsstring) list \<Rightarrow> svg_element" where
  "svg_line x1 y1 x2 y2 extra =
     createSVGElement ''line'' ([(''x1'', px_text x1), (''y1'', px_text y1), (''x2'', px_text x2), (''y2'', px_text y2)] @ extra)"

section \<open>Bar charts and line charts\<close>

definition fill_attr :: "(rat \<Rightarrow> rat) \<Rightarrow> canvas_options \<Rightarrow> rgb \<Rightarrow> string \<times> jsstring" where
  "fill_attr fl o' c = (''fill'', if shouldFill o' then style_text fl c else js ''none'')"

text \<open>The stroke, with what else is set where there is one.\<close>

definition stroke_attrs :: "(rat \<Rightarrow> rat) \<Rightarrow> canvas_options \<Rightarrow> rgb \<Rightarrow> (string \<times> jsstring) \<Rightarrow> (string \<times> jsstring) list" where
  "stroke_attrs fl o' c extra =
     (if shouldStroke o' then
        (case strokeColor o' of
           Some s \<Rightarrow> [(''stroke'', style_text fl s), extra]
         | None \<Rightarrow>
             (case strokeColorTransform o' of
                Some t \<Rightarrow> [(''stroke'', style_text fl (transformed fl t c)), extra] | None \<Rightarrow> []))
      else [])"

definition set_attrs :: "(rat \<Rightarrow> rat) \<Rightarrow> canvas_options \<Rightarrow> nat \<Rightarrow> (string \<times> jsstring) list" where
  "set_attrs fl o' i =
     fill_attr fl o' (color_at o' i) # stroke_attrs fl o' (color_at o' i) (''strokeWidth'', num (strokeWidth o'))"

text \<open>\<open>_renderBarOrLine\<close>: the elements of each dataset with its attributes.\<close>

fun renderBarOrLine :: "(nat \<Rightarrow> string \<Rightarrow> svg_element list) \<Rightarrow> nat \<Rightarrow> string list \<Rightarrow> svg_element list" where
  "renderBarOrLine f i [] = []"
| "renderBarOrLine f i (n # ns) = f i n @ renderBarOrLine f (Suc i) ns"

definition svg_names :: "svg_renderer \<Rightarrow> string list" where
  "svg_names r = map fst (datasets (svg_layout r))"

definition shadowStyle :: "(rat \<Rightarrow> rat) \<Rightarrow> string \<times> jsstring" where
  "shadowStyle fl = (''style'', js ''fill:'' @ style_text fl blackColor @ js '';fill-opacity:0.15'')"

definition strokeStyle :: "(rat \<Rightarrow> rat) \<Rightarrow> string \<times> jsstring" where
  "strokeStyle fl = (''style'', js ''stroke-width: 2.0; stroke:'' @ style_text fl whiteColor)"

definition svg_bar :: "(rat \<Rightarrow> rat) \<Rightarrow> plot_area \<Rightarrow> (string \<times> jsstring) list \<Rightarrow> bar \<Rightarrow> svg_element list" where
  "svg_bar fl a attrs b =
     [svg_rect (at_x fl a (bar_x b)) (at_y fl a (bar_y b)) (jmul fl (aw a) (bar_w b)) (jmul fl (ah a) (bar_h b)) attrs]"

definition sweet_svg_bar :: "(rat \<Rightarrow> rat) \<Rightarrow> plot_area \<Rightarrow> (string \<times> jsstring) list \<Rightarrow> bar \<Rightarrow> svg_element list" where
  "sweet_svg_bar fl a attrs b =
     (let x' = at_x fl a (bar_x b); y' = at_y fl a (bar_y b); w = jmul fl (aw a) (bar_w b); h = jmul fl (ah a) (bar_h b)
      in if jless w (Fin 1) \<or> jless h (Fin 1) then []
         else [svg_rect (jsub fl x' (Fin 2)) (jsub fl y' (Fin 1)) (jadd fl w (Fin 4)) (jadd fl h (Fin 2)) [shadowStyle fl],
               svg_rect x' y' w h (attrs @ [strokeStyle fl])])"

definition svg_set_bars ::
  "(rat \<Rightarrow> rat) \<Rightarrow> canvas_options \<Rightarrow> ((string \<times> jsstring) list \<Rightarrow> bar \<Rightarrow> svg_element list) \<Rightarrow> bar list \<Rightarrow> nat \<Rightarrow> string \<Rightarrow> svg_element list" where
  "svg_set_bars fl o' plot bs i n = concat (map (plot (set_attrs fl o' i)) (filter (\<lambda>b. bar_name b = n) bs))"

definition svg_barChart :: "(rat \<Rightarrow> rat) \<Rightarrow> svg_renderer \<Rightarrow> svg_renderer" where
  "svg_barChart fl r =
     (let plot = (if svg_sweet r then sweet_svg_bar else svg_bar) fl (svg_area r)
      in append_svg (renderBarOrLine (svg_set_bars fl (svg_opts r) plot (bars (svg_layout r))) 0 (svg_names r)) r)"

definition pair_text :: "jsnum \<Rightarrow> jsnum \<Rightarrow> jsstring" where
  "pair_text u v = jtext u @ js '','' @ jtext v"

text \<open>\<open>_tempPointsBuffer\<close>: the area below the line, from its left lower corner to the right one.\<close>

definition polygon_points :: "(rat \<Rightarrow> rat) \<Rightarrow> plot_area \<Rightarrow> point list \<Rightarrow> string \<Rightarrow> jsstring" where
  "polygon_points fl a ps n =
     pair_text (ax a) (jadd fl (ay a) (ah a)) @ js '' ''
     @ concat (map (\<lambda>p. pair_text (at_x fl a (px p)) (at_y fl a (py p)) @ js '' '') (filter (\<lambda>p. pname p = n) ps))
     @ pair_text (jadd fl (aw a) (ax a)) (jadd fl (ah a) (ay a))"

definition svg_polygon :: "(rat \<Rightarrow> rat) \<Rightarrow> canvas_options \<Rightarrow> plot_area \<Rightarrow> point list \<Rightarrow> nat \<Rightarrow> string \<Rightarrow> svg_element list" where
  "svg_polygon fl o' a ps i n = [createSVGElement ''polygon'' (set_attrs fl o' i @ [(''points'', polygon_points fl a ps n)])]"

definition sweet_polygons :: "(rat \<Rightarrow> rat) \<Rightarrow> canvas_options \<Rightarrow> plot_area \<Rightarrow> point list \<Rightarrow> nat \<Rightarrow> string \<Rightarrow> svg_element list" where
  "sweet_polygons fl o' a ps i n =
     (let attrs = set_attrs fl o' i @ [(''points'', polygon_points fl a ps n), (''stroke'', js ''none'')]
      in [createSVGElement ''polygon'' (attrs @ [(''transform'', js ''translate(-2, -1)''), shadowStyle fl]),
          createSVGElement ''polygon'' (attrs @ [(''transform'', []), strokeStyle fl])])"

definition svg_lineChart :: "(rat \<Rightarrow> rat) \<Rightarrow> svg_renderer \<Rightarrow> svg_renderer" where
  "svg_lineChart fl r =
     append_svg (renderBarOrLine
       ((if svg_sweet r then sweet_polygons else svg_polygon) fl (svg_opts r) (svg_area r) (points (svg_layout r))) 0 (svg_names r)) r"

section \<open>Pie charts\<close>

text \<open>A single slice is taken for the whole circle.\<close>

definition whole_pie :: "(rat \<Rightarrow> rat) \<Rightarrow> slice list \<Rightarrow> bool" where
  "whole_pie fl ss \<longleftrightarrow>
     (case ss of [s] \<Rightarrow> jless (jsub fl (jabs (startAngle s)) (jabs (endAngle s))) (Fin (fl (1 / 10))) | _ \<Rightarrow> False)"

definition svg_circle :: "(rat \<Rightarrow> rat) \<Rightarrow> canvas_options \<Rightarrow> plot_area \<Rightarrow> svg_element" where
  "svg_circle fl o' a =
     createSVGElement ''circle''
       ([(''cx'', jtext (center_x fl a)), (''cy'', jtext (center_y fl a)), (''r'', jtext (radius fl o' a)), fill_attr fl o' (color_at o' 0)]
        @ stroke_attrs fl o' (color_at o' 0) (''style'', js ''stroke-width: '' @ num (strokeWidth o')))"

definition arc_text ::
  "(rat \<Rightarrow> rat) \<Rightarrow> (jsnum \<Rightarrow> jsnum) \<Rightarrow> (jsnum \<Rightarrow> jsnum) \<Rightarrow> canvas_options \<Rightarrow> plot_area \<Rightarrow> slice \<Rightarrow> jsstring" where
  "arc_text fl msin mcos o' a s =
     (let rad = radius fl o' a; from = jsub fl (startAngle s) (half_pi fl); to = jsub fl (endAngle s) (half_pi fl);
          x1 = jmul fl (mcos from) rad; y1 = jmul fl (msin from) rad; x2 = jmul fl (mcos to) rad; y2 = jmul fl (msin to) rad;
          largearc = (if jless (Fin Math_PI) (jabs (jsub fl (endAngle s) (startAngle s))) then ''1'' else ''0'')
      in js ''M'' @ pair_text (center_x fl a) (center_y fl a) @ js '' l'' @ pair_text x1 y1 @ js '' a'' @ pair_text rad rad
         @ js ('' 0 '' @ largearc @ '',1 '') @ pair_text (jsub fl x2 x1) (jsub fl y2 y1) @ js '' z'')"

definition svg_slice ::
  "(rat \<Rightarrow> rat) \<Rightarrow> (jsnum \<Rightarrow> jsnum) \<Rightarrow> (jsnum \<Rightarrow> jsnum) \<Rightarrow> canvas_options \<Rightarrow> plot_area \<Rightarrow> nat \<Rightarrow> slice \<Rightarrow> svg_element" where
  "svg_slice fl msin mcos o' a i s =
     createSVGElement ''path''
       (fill_attr fl o' (color_at o' i) # stroke_attrs fl o' (color_at o' i) (''style'', js ''stroke-width:'' @ num (strokeWidth o'))
        @ [(''d'', arc_text fl msin mcos o' a s)])"

fun svg_slices :: "(nat \<Rightarrow> slice \<Rightarrow> svg_element) \<Rightarrow> nat \<Rightarrow> slice list \<Rightarrow> svg_element list" where
  "svg_slices f i [] = []"
| "svg_slices f i (s # ss) = f i s # svg_slices f (Suc i) ss"

definition svg_plain_pie :: "(rat \<Rightarrow> rat) \<Rightarrow> (jsnum \<Rightarrow> jsnum) \<Rightarrow> (jsnum \<Rightarrow> jsnum) \<Rightarrow> svg_renderer \<Rightarrow> svg_element list" where
  "svg_plain_pie fl msin mcos r =
     (let ss = slices (svg_layout r)
      in if whole_pie fl ss then [svg_circle fl (svg_opts r) (svg_area r)]
         else svg_slices (svg_slice fl msin mcos (svg_opts r) (svg_area r)) 0 ss)"

definition svg_pie_shadow :: "(rat \<Rightarrow> rat) \<Rightarrow> canvas_options \<Rightarrow> plot_area \<Rightarrow> svg_element" where
  "svg_pie_shadow fl o' a =
     createSVGElement ''circle''
       [shadowStyle fl, (''cx'', jtext (jadd fl (center_x fl a) (Fin 1))), (''cy'', jtext (jadd fl (center_y fl a) (Fin 1))),
        (''r'', jtext (jadd fl (radius fl o' a) (Fin 1)))]"

definition svg_pieChart :: "(rat \<Rightarrow> rat) \<Rightarrow> (jsnum \<Rightarrow> jsnum) \<Rightarrow> (jsnum \<Rightarrow> jsnum) \<Rightarrow> svg_renderer \<Rightarrow> svg_renderer" where
  "svg_pieChart fl msin mcos r =
     append_svg ((if svg_sweet r then [svg_pie_shadow fl (svg_opts r) (svg_area r)] else []) @ svg_plain_pie fl msin mcos r) r"

section \<open>Axes and labels\<close>

definition svg_add_label :: "bool \<Rightarrow> jsstring \<Rightarrow> (string \<times> jsstring) list \<Rightarrow> svg_renderer \<Rightarrow> svg_renderer" where
  "svg_add_label x_axis t st r =
     (let i = svg_next r; l = \<lparr>label_id = i, label_text = t, label_style = st\<rparr>;
          r1 = r\<lparr>svg_container := svg_container r @ [l], svg_next := i + 1\<rparr>
      in if x_axis then r1\<lparr>svg_xlabels := svg_xlabels r @ [i]\<rparr> else r1\<lparr>svg_ylabels := svg_ylabels r @ [i]\<rparr>)"

text \<open>A label in the container or as an element, as the option says.\<close>

definition put_label ::
  "bool \<Rightarrow> jsstring \<Rightarrow> (string \<times> jsstring) list \<Rightarrow> (string \<times> jsstring) list \<Rightarrow> svg_renderer \<Rightarrow> svg_renderer" where
  "put_label x_axis t st attrs r =
     (if axisLabelUseDiv r then svg_add_label x_axis t st r
      else append_svg [(createSVGElement ''text'' attrs)\<lparr>content_text := t\<rparr>] r)"

definition svg_label_style :: "(rat \<Rightarrow> rat) \<Rightarrow> canvas_options \<Rightarrow> (string \<times> jsstring) list" where
  "svg_label_style fl o' =
     [(''position'', js ''absolute''), (''textAlign'', js ''center''), (''fontSize'', rat_px (axisLabelFontSize o')),
      (''zIndex'', js ''10''), (''color'', style_text fl (axisLabelColor o')), (''width'', rat_px (axisLabelWidth o')),
      (''overflow'', js ''hidden'')]"

definition svg_text_attrs :: "(rat \<Rightarrow> rat) \<Rightarrow> canvas_options \<Rightarrow> (string \<times> jsstring) list" where
  "svg_text_attrs fl o' =
     [(''height'', px_text (jadd fl (Fin (axisLabelFontSize o')) (Fin 3))), (''fontFamily'', js ''Arial''),
      (''fontSize'', rat_px (axisLabelFontSize o')), (''fill'', style_text fl (axisLabelColor o'))]"

definition line_attrs :: "(rat \<Rightarrow> rat) \<Rightarrow> canvas_options \<Rightarrow> (string \<times> jsstring) list" where
  "line_attrs fl o' = [(''stroke'', style_text fl (axisLineColor o')), (''strokeWidth'', num (axisLineWidth o'))]"

definition svg_ytick :: "(rat \<Rightarrow> rat) \<Rightarrow> jsnum \<times> tick_text \<Rightarrow> svg_renderer \<Rightarrow> svg_renderer" where
  "svg_ytick fl t r =
     (let o' = svg_opts r; a = svg_area r; x' = ax a; y' = jadd fl (ay a) (jmul fl (fst t) (ah a)); size = Fin (axisTickSize o');
          left = Fin (pad_left (padding o'))
      in put_label False (tick_string (snd t))
           (styled [(''top'', px_text (jsub fl y' (Fin (axisLabelFontSize o')))),
              (''left'', px_text (jadd fl (jsub fl x' left) size)), (''textAlign'', js ''left''),
              (''width'', px_text (jsub fl left (Fin 3)))] (svg_label_style fl o'))
           ([(''y'', jtext (jadd fl y' (Fin 3))), (''x'', jtext (jadd fl (jsub fl x' left) (Fin 3))),
             (''width'', px_text (jsub fl left size))] @ svg_text_attrs fl o')
           (append_svg [svg_line x' y' (jsub fl x' (Fin 3)) y' (line_attrs fl o')] r))"

definition svg_xtick :: "(rat \<Rightarrow> rat) \<Rightarrow> jsnum \<times> tick_text \<Rightarrow> svg_renderer \<Rightarrow> svg_renderer" where
  "svg_xtick fl t r =
     (let o' = svg_opts r; a = svg_area r; x' = jadd fl (ax a) (jmul fl (fst t) (aw a)); y' = jadd fl (ay a) (ah a);
          size = Fin (axisTickSize o'); width = Fin (axisLabelWidth o')
      in put_label True (tick_string (snd t))
           (styled [(''top'', px_text (jadd fl y' size)), (''left'', px_text (jsub fl x' (jdiv fl width (Fin 2)))),
              (''textAlign'', js ''center''), (''width'', px_text width)] (svg_label_style fl o'))
           ([(''y'', jtext (jadd fl (jadd fl y' size) (Fin (axisLabelFontSize o')))), (''x'', jtext (jsub fl x' (Fin 3))),
             (''width'', px_text width)] @ svg_text_attrs fl o' @ [(''textAnchor'', js ''middle'')])
           (append_svg [svg_line x' y' x' (jadd fl y' size) (line_attrs fl o')] r))"

definition svg_axis :: "(rat \<Rightarrow> rat) \<Rightarrow> svg_renderer \<Rightarrow> svg_renderer" where
  "svg_axis fl r =
     (let o' = svg_opts r; a = svg_area r; bottom = jadd fl (ay a) (ah a)
      in if \<not> drawXAxis o' \<and> \<not> drawYAxis o' then r
         else
           (let r1 = (if drawYAxis o' then
                        append_svg [svg_line (ax a) (ay a) (ax a) bottom (line_attrs fl o')]
                          (fold (svg_ytick fl) (yticks (svg_layout r)) r) else r)
            in if drawXAxis o' then
                 append_svg [svg_line (ax a) bottom (jadd fl (ax a) (aw a)) bottom (line_attrs fl o')]
                   (fold (svg_xtick fl) (xticks (svg_layout r)) r1) else r1))"

text \<open>The place of a label of a pie, as a style and as attributes.\<close>

definition svg_pie_place ::
  "(rat \<Rightarrow> rat) \<Rightarrow> canvas_options \<Rightarrow> jsnum \<Rightarrow> jsnum \<Rightarrow> jsnum \<Rightarrow> (string \<times> jsstring) list \<times> (string \<times> jsstring) list" where
  "svg_pie_place fl o' ang lx ly =
     (let up = jsub fl ly (Fin (axisLabelFontSize o')); west = jsub fl lx (Fin (axisLabelWidth o'));
          st = (\<lambda>al va t. [(''textAlign'', js al), (''verticalAlign'', js va), (''left'', px_text lx), (''top'', px_text t)]);
          tx = (\<lambda>x' y' anchor. [(''x'', jtext x'), (''y'', jtext y'), (''textAnchor'', js anchor)])
      in if jle ang (jmul fl (Fin Math_PI) (Fin (1 / 2))) then (st ''left'' ''top'' up, tx lx up ''left'')
         else if jle ang (Fin Math_PI) then (st ''left'' ''bottom'' ly, tx lx ly ''left'')
         else if jle ang (jmul fl (Fin Math_PI) (Fin (3 / 2))) then (st ''right'' ''bottom'' ly, tx west ly ''right'')
         else (st ''left'' ''bottom'' ly, tx west up ''left''))"

definition svg_pie_label ::
  "(rat \<Rightarrow> rat) \<Rightarrow> (jsnum \<Rightarrow> jsnum) \<Rightarrow> (jsnum \<Rightarrow> jsnum) \<Rightarrow> jsnum \<times> tick_text \<Rightarrow> svg_renderer \<Rightarrow> svg_renderer" where
  "svg_pie_label fl msin mcos t r =
     (case find (\<lambda>s. sxval s = fst t) (rev (slices (svg_layout r))) of
        None \<Rightarrow> r
      | Some s \<Rightarrow>
          (let o' = svg_opts r; a = svg_area r; pr = Fin (canvas_pieRadius o');
               ang = normalised fl (jdiv fl (jadd fl (startAngle s) (endAngle s)) (Fin 2));
               rad = jmin (jadd fl (jmul fl (aw a) pr) (Fin 10)) (jadd fl (jmul fl (ah a) pr) (Fin 10));
               dist = jadd fl rad (Fin 10);
               lx = jadd fl (center_x fl a) (jmul fl (msin ang) dist); ly = jsub fl (center_y fl a) (jmul fl (mcos ang) dist);
               (st, tx) = svg_pie_place fl o' ang lx ly
           in put_label True (tick_string (snd t))
                ([(''position'', js ''absolute''), (''zIndex'', js ''11''), (''width'', rat_px (axisLabelWidth o')),
                  (''fontSize'', rat_px (axisLabelFontSize o')), (''overflow'', js ''hidden''),
                  (''color'', toHexString fl (axisLabelColor o'))] @ st)
                ([(''width'', rat_px (axisLabelWidth o')), (''fontSize'', rat_px (axisLabelFontSize o')),
                  (''height'', px_text (jadd fl (Fin (axisLabelFontSize o')) (Fin 3))), (''fill'', style_text fl (axisLabelColor o'))] @ tx) r))"

definition svg_pieAxis :: "(rat \<Rightarrow> rat) \<Rightarrow> (jsnum \<Rightarrow> jsnum) \<Rightarrow> (jsnum \<Rightarrow> jsnum) \<Rightarrow> svg_renderer \<Rightarrow> svg_renderer" where
  "svg_pieAxis fl msin mcos r = fold (svg_pie_label fl msin mcos) (xticks (svg_layout r)) r"

section \<open>Rendering and clearing\<close>

definition svg_background :: "(rat \<Rightarrow> rat) \<Rightarrow> svg_renderer \<Rightarrow> svg_renderer" where
  "svg_background fl r =
     (let a = svg_area r; attrs = [(''stroke'', js ''none''), (''fill'', style_text fl (backgroundColor (svg_opts r)))]
      in if svg_sweet r \<and> (style (svg_layout r) = ''bar'' \<or> style (svg_layout r) = ''line'') then
           append_svg (svg_rect (ax a) (ay a) (aw a) (ah a) attrs #
             map (\<lambda>t. svg_rect (ax a) (jadd fl (jmul fl (fst t) (ah a)) (ay a)) (aw a) (Fin 1) [(''fill'', style_text fl whiteColor)])
               (yticks (svg_layout r))) r
         else append_svg [svg_rect (Fin 0) (Fin 0) (Fin (svg_width r)) (Fin (svg_height r)) attrs] r)"

definition svg_render :: "(rat \<Rightarrow> rat) \<Rightarrow> (jsnum \<Rightarrow> jsnum) \<Rightarrow> (jsnum \<Rightarrow> jsnum) \<Rightarrow> svg_renderer \<Rightarrow> svg_renderer option" where
  "svg_render fl msin mcos r =
     (if colorScheme (svg_opts r) = [] then None
      else
        (let r1 = (if drawBackground (svg_opts r) then svg_background fl r else r)
         in Some (if svg_style r = ''bar'' then svg_axis fl (svg_barChart fl r1)
                  else if svg_style r = ''pie'' then svg_pieAxis fl msin mcos (svg_pieChart fl msin mcos r1)
                  else if svg_style r = ''line'' then svg_axis fl (svg_lineChart fl r1)
                  else r1)))"

definition svg_clear :: "svg_renderer \<Rightarrow> svg_renderer" where
  "svg_clear r =
     r\<lparr>svg_root := [],
       svg_container := (if axisLabelUseDiv r
         then filter (\<lambda>l. label_id l \<notin> set (svg_xlabels r @ svg_ylabels r)) (svg_container r) else svg_container r),
       svg_xlabels := [], svg_ylabels := []\<rparr>"

section \<open>The two renderers draw the same bar charts\<close>

lemma map_of_styled [simp]: "map_of (styled kvs st) k = (case map_of (rev kvs) k of Some v \<Rightarrow> Some v | None \<Rightarrow> map_of st k)"
  by (induction kvs st rule: styled.induct) (auto simp: update_conv' map_add_def split: option.splits)

text \<open>The places of outlined rectangles and of lines, in pixels, in the order they are drawn.\<close>

definition places :: "string list \<Rightarrow> svg_element \<Rightarrow> jsstring list" where
  "places ks e = map (\<lambda>k. the (map_of (attributes e) k)) ks"

definition boxes :: "svg_element list \<Rightarrow> jsstring list list" where
  "boxes es = map (places [''x'', ''y'', ''width'', ''height'']) (filter (\<lambda>e. tag e = ''rect'' \<and> map_of (attributes e) ''fill'' \<noteq> None) es)"

definition svg_lines :: "svg_element list \<Rightarrow> jsstring list list" where
  "svg_lines es = map (places [''x1'', ''y1'', ''x2'', ''y2'']) (filter (\<lambda>e. tag e = ''line'') es)"

fun boxes_drawn :: "command list \<Rightarrow> jsstring list list" where
  "boxes_drawn [] = []"
| "boxes_drawn (StrokeRect x y w h # cs) = map px_text [x, y, w, h] # boxes_drawn cs"
| "boxes_drawn (c # cs) = boxes_drawn cs"

fun segments_drawn :: "command list \<Rightarrow> jsstring list list" where
  "segments_drawn (MoveTo x y # LineTo u v # cs) = map px_text [x, y, u, v] # segments_drawn cs"
| "segments_drawn (c # cs) = segments_drawn cs"
| "segments_drawn [] = []"

lemma drawn_append [simp]:
  "boxes (es @ fs) = boxes es @ boxes fs" "svg_lines (es @ fs) = svg_lines es @ svg_lines fs"
  "boxes_drawn (cs @ ds) = boxes_drawn cs @ boxes_drawn ds" "boxes [] = []" "svg_lines [] = []"
  by (simp_all add: boxes_def svg_lines_def) (induction cs rule: boxes_drawn.induct; simp)

definition no_pen :: "command list \<Rightarrow> bool" where
  "no_pen cs \<longleftrightarrow> (\<forall>x y. MoveTo x y \<notin> set cs)"

lemma no_pen_segments: "no_pen cs \<Longrightarrow> segments_drawn (cs @ ds) = segments_drawn ds"
proof (induction cs)
  case (Cons c cs)
  then show ?case by (cases c) (auto simp: no_pen_def)
qed simp

lemma segment_drawn [simp]:
  "segments_drawn (segment x y u v @ cs) = map px_text [x, y, u, v] # segments_drawn cs" "boxes_drawn (segment x y u v) = []"
  by (simp_all add: segment_def)

lemma svg_line_drawn [simp]: "boxes (svg_line x1 y1 x2 y2 kvs # es) = boxes es"
  by (simp add: boxes_def svg_line_def createSVGElement_def)

lemma axis_line_drawn [simp]:
  "svg_lines (svg_line x1 y1 x2 y2 (line_attrs fl o') # es) = map px_text [x1, y1, x2, y2] # svg_lines es"
  by (simp add: svg_lines_def svg_line_def createSVGElement_def places_def line_attrs_def)

subsection \<open>Bars\<close>

lemma box_of_bar [simp]:
  "boxes (svg_rect x y w h (set_attrs fl o' i) # es) = map px_text [x, y, w, h] # boxes es"
  "boxes (svg_rect x y w h (set_attrs fl o' i @ [strokeStyle fl]) # es) = map px_text [x, y, w, h] # boxes es"
  "boxes (svg_rect x y w h [shadowStyle fl] # es) = boxes es"
  by (auto simp: boxes_def svg_rect_def createSVGElement_def places_def set_attrs_def fill_attr_def stroke_attrs_def strokeStyle_def shadowStyle_def
      split: option.split)

definition twin :: "renderer \<Rightarrow> svg_renderer \<Rightarrow> bool" where
  "twin r v \<longleftrightarrow> svg_opts v = canvas_opts r \<and> svg_layout v = renderer.chart r \<and> svg_area v = area r \<and> svg_sweet v = sweet r"

lemma same_bar:
  "boxes (sweet_svg_bar fl a (set_attrs fl o' i) b) = boxes_drawn (draw_sweet_bar fl o' ns a b)"
  "shouldStroke o' \<Longrightarrow> visible fl a b \<Longrightarrow> boxes (svg_bar fl a (set_attrs fl o' i) b) = boxes_drawn (draw_bar fl o' a b)"
  by (simp_all add: svg_bar_def sweet_svg_bar_def draw_sweet_bar_def draw_bar_def visible_def gray_shadow_def Let_def)

lemma same_set:
  assumes "\<forall>b \<in> set bs. sw \<or> shouldStroke o' \<and> visible fl a b"
  shows "boxes (svg_set_bars fl o' ((if sw then sweet_svg_bar else svg_bar) fl a) bs i n) =
    boxes_drawn (set_bars fl o' (if sw then draw_sweet_bar fl o' ns a else draw_bar fl o' a) bs i n)"
proof -
  have "boxes (concat (map ((if sw then sweet_svg_bar else svg_bar) fl a (set_attrs fl o' i)) cs)) =
      boxes_drawn (concat (map (if sw then draw_sweet_bar fl o' ns a else draw_bar fl o' a) cs))" if "set cs \<subseteq> set bs" for cs
    using that by (induction cs) (use assms in \<open>auto simp: same_bar\<close>)
  from this [of "filter (\<lambda>b. bar_name b = n) bs"] show ?thesis
    by (auto simp: svg_set_bars_def set_bars_def stroke_style_def split: option.split)
qed

lemma same_sets:
  assumes "\<And>i n. boxes (f i n) = boxes_drawn (g i n)"
  shows "boxes (renderBarOrLine f i ns) = boxes_drawn (for_sets g i ns)"
  by (induction ns arbitrary: i) (simp_all add: assms)

lemma bars_no_lines:
  "svg_lines (renderBarOrLine (svg_set_bars fl o' ((if sw then sweet_svg_bar else svg_bar) fl a) bs) i ns) = []"
proof -
  have "svg_lines (concat (map ((if sw then sweet_svg_bar else svg_bar) fl a kvs) cs)) = []" for kvs cs
    by (induction cs) (auto simp: svg_lines_def svg_bar_def sweet_svg_bar_def svg_rect_def createSVGElement_def Let_def)
  then show ?thesis by (induction ns arbitrary: i) (simp_all add: svg_set_bars_def del: if_split)
qed

lemma bars_no_pen:
  "no_pen (for_sets (set_bars fl o' (if sw then draw_sweet_bar fl o' ms a else draw_bar fl o' a) bs) i ns)"
  by (induction ns arbitrary: i)
    (auto simp: no_pen_def set_bars_def stroke_style_def draw_sweet_bar_def draw_bar_def gray_shadow_def Let_def split: option.splits if_splits)

subsection \<open>Both renderers in step\<close>

text \<open>
  From twins to twins, one adds commands and the other elements with the same boxes and lines.
  What follows does not continue a line.
\<close>

definition in_step :: "renderer \<times> svg_renderer \<Rightarrow> renderer \<times> svg_renderer \<Rightarrow> bool" where
  "in_step p q \<longleftrightarrow>
     canvas_opts (fst q) = canvas_opts (fst p) \<and> renderer.chart (fst q) = renderer.chart (fst p) \<and> area (fst q) = area (fst p) \<and>
     (twin (fst p) (snd p) \<longrightarrow> twin (fst q) (snd q)) \<and>
     (\<exists>cs es. canvas (fst q) = canvas (fst p) @ cs \<and> svg_root (snd q) = svg_root (snd p) @ es \<and> boxes es = boxes_drawn cs \<and>
        (\<forall>ds. segments_drawn (cs @ ds) = svg_lines es @ segments_drawn ds))"

lemma in_step_refl [simp]: "in_step p p"
  by (auto simp: in_step_def)

lemma in_step_trans: "in_step p q \<Longrightarrow> in_step q s \<Longrightarrow> in_step p s"
  unfolding in_step_def
  by (elim conjE exE, intro conjI) simp_all

lemma in_stepI:
  assumes "boxes es = boxes_drawn cs" "\<And>ds. segments_drawn (cs @ ds) = svg_lines es @ segments_drawn ds"
  shows "in_step (r, v) (draw cs r, append_svg es v)"
  using assms by (auto simp: in_step_def twin_def draw_def append_svg_def)

lemma in_step_settings: "no_pen cs \<Longrightarrow> boxes_drawn cs = [] \<Longrightarrow> in_step (r, v) (draw cs r, v)"
  using in_stepI [of "[]" cs r v] no_pen_segments by (simp add: append_svg_def)

lemma in_step_line:
  "in_step (r, v) (draw (segment x y u w) r, append_svg [svg_line x y u w (line_attrs fl o')] v)"
  by (rule in_stepI) simp_all

lemma in_step_label: "in_step (r, v) (add_label b t st r, put_label b' t' st' kvs v)"
proof -
  have "boxes [(createSVGElement ''text'' kvs)\<lparr>content_text := t'\<rparr>] = []" "svg_lines [(createSVGElement ''text'' kvs)\<lparr>content_text := t'\<rparr>] = []"
    by (simp_all add: boxes_def svg_lines_def createSVGElement_def)
  then show ?thesis
    by (auto simp: in_step_def twin_def put_label_def svg_add_label_def add_label_def append_svg_def Let_def)
qed

lemma in_step_fold:
  assumes "\<And>t r v. twin r v \<Longrightarrow> canvas_opts r = o' \<Longrightarrow> in_step (r, v) (f t r, g t v)"
  shows "twin r v \<Longrightarrow> canvas_opts r = o' \<Longrightarrow> in_step (r, v) (fold f ts r, fold g ts v)"
proof (induction ts arbitrary: r v)
  case (Cons t ts)
  from assms [OF Cons.prems] have s: "in_step (r, v) (f t r, g t v)" .
  moreover have "twin (f t r) (g t v)" "canvas_opts (f t r) = o'" using s Cons.prems by (simp_all add: in_step_def)
  ultimately show ?case using Cons.IH in_step_trans by simp
qed simp

lemma in_step_ticks:
  assumes "twin r v"
  shows "axisTickSize (canvas_opts r) = 3 \<Longrightarrow> in_step (r, v) (draw_ytick fl t r, svg_ytick fl t v)"
    and "in_step (r, v) (draw_xtick fl t r, svg_xtick fl t v)"
  using assms unfolding draw_ytick_def svg_ytick_def draw_xtick_def svg_xtick_def Let_def twin_def
  by (auto intro!: in_step_trans [OF in_step_line in_step_label])

lemma bar_charts_in_step:
  assumes "twin r v" "outlined r" "sweet r \<or> (\<forall>b \<in> set (bars (renderer.chart r)). visible fl (area r) b)"
  shows "in_step (r, v) (renderBarChart fl r, svg_barChart fl v)"
proof -
  have v: "svg_opts v = canvas_opts r" "svg_layout v = renderer.chart r" "svg_area v = area r" "svg_sweet v = sweet r" "svg_names v = set_names r"
    using assms(1) by (simp_all add: twin_def svg_names_def set_names_def)
  have "\<forall>b \<in> set (bars (renderer.chart r)). sweet r \<or> shouldStroke (canvas_opts r) \<and> visible fl (area r) b"
    using assms(2,3) by (auto simp: outlined_def)
  from same_sets [OF same_set [OF this]] no_pen_segments [OF bars_no_pen] bars_no_lines show ?thesis
    unfolding renderBarChart_def svg_barChart_def Let_def v by (intro in_stepI) (simp_all del: if_split)
qed

lemma axes_in_step:
  assumes "twin r v" "axisTickSize (canvas_opts r) = 3"
  shows "in_step (r, v) (renderAxis fl r, svg_axis fl v)"
proof -
  let ?o = "canvas_opts r" and ?a = "area r"
  let ?b = "jadd fl (ay ?a) (ah ?a)"
  have v: "svg_opts v = ?o" "svg_layout v = renderer.chart r" "svg_area v = ?a" using assms(1) by (simp_all add: twin_def)
  define hd' where "hd' = [Save, StrokeStyle (style_text fl (axisLineColor ?o)), LineWidth (axisLineWidth ?o)]"
  define r1 where "r1 = draw hd' r"
  define p2 where "p2 = (if drawYAxis ?o then
    (draw (segment (ax ?a) (ay ?a) (ax ?a) ?b) (fold (draw_ytick fl) (yticks (renderer.chart r)) r1),
     append_svg [svg_line (ax ?a) (ay ?a) (ax ?a) ?b (line_attrs fl ?o)] (fold (svg_ytick fl) (yticks (renderer.chart r)) v)) else (r1, v))"
  define p3 where "p3 = (if drawXAxis ?o then
    (draw (segment (ax ?a) ?b (jadd fl (ax ?a) (aw ?a)) ?b) (fold (draw_xtick fl) (xticks (renderer.chart r)) (fst p2)),
     append_svg [svg_line (ax ?a) ?b (jadd fl (ax ?a) (aw ?a)) ?b (line_attrs fl ?o)] (fold (svg_xtick fl) (xticks (renderer.chart r)) (snd p2))) else p2)"
  have 1: "in_step (r, v) (r1, v)" unfolding r1_def by (rule in_step_settings) (simp_all add: hd'_def no_pen_def)
  then have t1: "twin r1 v" "canvas_opts r1 = ?o" using assms(1) by (simp_all add: in_step_def)
  have "in_step (r1, v) p2"
    using in_step_trans [OF in_step_fold [where o' = ?o, OF in_step_ticks(1) t1] in_step_line] assms(2) by (auto simp: p2_def)
  with 1 have 2: "in_step (r, v) p2" by (rule in_step_trans)
  then have t2: "twin (fst p2) (snd p2)" "canvas_opts (fst p2) = ?o" using assms(1) by (simp_all add: in_step_def)
  have "in_step (fst p2, snd p2) p3"
    using in_step_trans [OF in_step_fold [where o' = ?o, OF in_step_ticks(2) t2] in_step_line] by (auto simp: p3_def)
  with 2 have "in_step (r, v) (fst p3, snd p3)" using in_step_trans by simp
  moreover have "in_step (fst p3, snd p3) (draw [Restore] (fst p3), snd p3)" by (rule in_step_settings) (simp_all add: no_pen_def)
  ultimately have "in_step (r, v) (draw [Restore] (fst p3), snd p3)" by (rule in_step_trans)
  then show ?thesis
    by (auto simp: renderAxis_def svg_axis_def Let_def v p2_def p3_def hd'_def r1_def split: if_splits)
qed

text \<open>
  C30. The SVG renderer draws the same bar charts as the canvas renderer under three conditions: the
  ticks have the default size of 3 pixels (the SVG renderer draws every y tick that long), the
  canvas renderer outlines its bars (it is the sweet one or has the option to stroke), and no
  bar of a plain renderer is less than a pixel wide or high (the plain SVG renderer draws such
  bars, the others leave them out). Then, for the same layout, options and area, the
  rectangles that the canvas outlines are, in order, those of the SVG elements, and so are the
  lines of the axes and their ticks.
\<close>

theorem svg_draws_canvas_bars:
  assumes "twin r v" and "outlined r" and "sweet r \<or> (\<forall>b \<in> set (bars (renderer.chart r)). visible fl (area r) b)"
    and "axisTickSize (canvas_opts r) = 3"
  shows "\<exists>cs es. canvas (renderAxis fl (renderBarChart fl r)) = canvas r @ cs \<and>
    svg_root (svg_axis fl (svg_barChart fl v)) = svg_root v @ es \<and>
    boxes es = boxes_drawn cs \<and> svg_lines es = segments_drawn cs"
proof -
  have 1: "in_step (r, v) (renderBarChart fl r, svg_barChart fl v)" using assms(1-3) by (rule bar_charts_in_step)
  then have "twin (renderBarChart fl r) (svg_barChart fl v)" "axisTickSize (canvas_opts (renderBarChart fl r)) = 3"
    using assms(1,4) by (simp_all add: in_step_def)
  from in_step_trans [OF 1 axes_in_step [OF this, of fl]] obtain cs es where
    "canvas (renderAxis fl (renderBarChart fl r)) = canvas r @ cs" "svg_root (svg_axis fl (svg_barChart fl v)) = svg_root v @ es"
    "boxes es = boxes_drawn cs" "\<forall>ds. segments_drawn (cs @ ds) = svg_lines es @ segments_drawn ds" by (auto simp: in_step_def)
  moreover from this(4) [rule_format, of "[]"] have "svg_lines es = segments_drawn cs" by simp
  ultimately show ?thesis by blast
qed

text \<open>The same graph of two queues as SVG.\<close>

definition queue_svg :: "(rat \<Rightarrow> rat) \<Rightarrow> svg_renderer" where
  "queue_svg fl =
     new_svg fl True (\<lambda>o'. o'\<lparr>padding := \<lparr>pad_left = 0, pad_right = 0, pad_top = 10, pad_bottom = 30\<rparr>\<rparr>) True (queue_layout fl) 760 400"

theorem svg_draws_canvas_bars_witness:
  "\<exists>cs. canvas (renderAxis (\<lambda>x. x) (renderBarChart (\<lambda>x. x) (queue_graph (\<lambda>x. x)))) = cs \<and>
     boxes (svg_root (svg_axis (\<lambda>x. x) (svg_barChart (\<lambda>x. x) (queue_svg (\<lambda>x. x))))) = boxes_drawn cs"
proof -
  have "twin (queue_graph (\<lambda>x. x)) (queue_svg (\<lambda>x. x))" "outlined (queue_graph (\<lambda>x. x))" "sweet (queue_graph (\<lambda>x. x))"
    "axisTickSize (canvas_opts (queue_graph (\<lambda>x. x))) = 3" "canvas (queue_graph (\<lambda>x. x)) = []" "svg_root (queue_svg (\<lambda>x. x)) = []"
    by (simp_all add: twin_def outlined_def queue_graph_def queue_svg_def new_renderer_def new_svg_def default_svg_def officeBlue_def
        office_style_def default_canvas_def Let_def)
  with svg_draws_canvas_bars [of "queue_graph (\<lambda>x. x)" "queue_svg (\<lambda>x. x)" "\<lambda>x. x"] show ?thesis by auto
qed

section \<open>Polygons are the paths of the canvas\<close>

fun corners :: "command list \<Rightarrow> jsstring list" where
  "corners [] = []"
| "corners (MoveTo x y # cs) = pair_text x y # corners cs"
| "corners (LineTo x y # cs) = pair_text x y # corners cs"
| "corners (c # cs) = corners cs"

fun blank_joined :: "jsstring list \<Rightarrow> jsstring" where
  "blank_joined [] = []"
| "blank_joined [t] = t"
| "blank_joined (t # ts) = t @ js '' '' @ blank_joined ts"

lemma blank_joined_Cons: "ts \<noteq> [] \<Longrightarrow> blank_joined (t # ts) = t @ js '' '' @ blank_joined ts"
  by (cases ts) simp_all

lemma blank_joined_append: "us \<noteq> [] \<Longrightarrow> blank_joined (map f ps @ us) = concat (map (\<lambda>p. f p @ js '' '') ps) @ blank_joined us"
  by (induction ps) (simp_all add: blank_joined_Cons)

lemma corners_lines: "corners (map (\<lambda>p. LineTo (f p) (g p)) ps @ cs) = map (\<lambda>p. pair_text (f p) (g p)) ps @ corners cs"
  by (induction ps) simp_all

text \<open>
  The polygon of a line chart has the corners of the path that the canvas renderer fills and
  strokes for the same dataset, without the return to the first one.
\<close>

theorem polygon_is_path: "polygon_points fl a ps n = blank_joined (butlast (corners (line_path fl a ps n)))"
proof -
  let ?start = "pair_text (ax a) (jadd fl (ay a) (ah a))" and ?final = "pair_text (jadd fl (aw a) (ax a)) (jadd fl (ah a) (ay a))"
  let ?ps = "map (\<lambda>p. pair_text (at_x fl a (px p)) (at_y fl a (py p))) (filter (\<lambda>p. pname p = n) ps)"
  have "corners (line_path fl a ps n) = (?start # ?ps @ [?final]) @ [?start]" by (simp add: line_path_def corners_lines)
  then have "butlast (corners (line_path fl a ps n)) = ?start # ?ps @ [?final]" by (simp only: butlast_snoc)
  then show ?thesis by (simp add: polygon_points_def blank_joined_Cons blank_joined_append)
qed

section \<open>Clearing\<close>

definition svg_foreign :: "svg_renderer \<Rightarrow> label list" where
  "svg_foreign v = filter (\<lambda>l. label_id l \<notin> set (svg_xlabels v @ svg_ylabels v)) (svg_container v)"

definition svg_fresh :: "svg_renderer \<Rightarrow> bool" where
  "svg_fresh v \<longleftrightarrow> (\<forall>l \<in> set (svg_container v). label_id l < svg_next v)"

text \<open>The labels of others stay, and without \<open>axisLabelUseDiv\<close> there are no others.\<close>

definition svg_keeps :: "svg_renderer \<Rightarrow> svg_renderer \<Rightarrow> bool" where
  "svg_keeps v v' \<longleftrightarrow> axisLabelUseDiv v' = axisLabelUseDiv v \<and>
     (svg_fresh v \<longrightarrow> svg_fresh v' \<and> svg_foreign v' = svg_foreign v) \<and>
     (\<not> axisLabelUseDiv v \<longrightarrow> svg_container v' = svg_container v)"

lemma svg_keeps_refl [simp]: "svg_keeps v v"
  by (simp add: svg_keeps_def)

lemma svg_keeps_trans: "svg_keeps v v1 \<Longrightarrow> svg_keeps v1 v2 \<Longrightarrow> svg_keeps v v2"
  by (simp add: svg_keeps_def)

lemma svg_keeps_append [simp]: "svg_keeps q (append_svg es v) = svg_keeps q v"
  by (simp add: svg_keeps_def svg_fresh_def svg_foreign_def append_svg_def)

lemma svg_keeps_label: "svg_keeps v (put_label b t st kvs v)"
proof -
  have "filter (\<lambda>l. label_id l \<notin> insert (svg_next v) (set (svg_xlabels v @ svg_ylabels v))) (svg_container v) = svg_foreign v" if "svg_fresh v"
    unfolding svg_foreign_def using that by (intro filter_cong) (auto simp: svg_fresh_def)
  then have "axisLabelUseDiv v \<Longrightarrow> svg_keeps v (svg_add_label b t st v)"
    by (auto simp: svg_keeps_def svg_fresh_def svg_foreign_def svg_add_label_def Let_def conj_left_commute less_SucI)
  then show ?thesis by (simp add: put_label_def)
qed

lemma svg_keeps_fold: "(\<And>t v. svg_keeps v (f t v)) \<Longrightarrow> svg_keeps q v \<Longrightarrow> svg_keeps q (fold f ts v)"
proof (induction ts arbitrary: v)
  case (Cons t ts)
  then have "svg_keeps q (f t v)" using svg_keeps_trans by blast
  with Cons show ?case by simp
qed simp

lemma svg_keeps_ticks: "svg_keeps v (svg_ytick fl t v)" "svg_keeps v (svg_xtick fl t v)" "svg_keeps v (svg_pie_label fl msin mcos t v)"
  using svg_keeps_trans [OF _ svg_keeps_label]
  by (auto simp: svg_ytick_def svg_xtick_def svg_pie_label_def Let_def split: option.split prod.split)

lemma svg_keeps_parts:
  "svg_keeps v (svg_axis fl v)" "svg_keeps v (svg_pieAxis fl msin mcos v)" "svg_keeps v (svg_background fl v)"
  "svg_keeps v (svg_barChart fl v)" "svg_keeps v (svg_lineChart fl v)" "svg_keeps v (svg_pieChart fl msin mcos v)"
  by (simp_all add: svg_axis_def svg_pieAxis_def svg_background_def svg_barChart_def svg_lineChart_def svg_pieChart_def Let_def
      svg_keeps_fold svg_keeps_ticks)

lemma svg_render_keeps:
  assumes "svg_render fl msin mcos v = Some v'"
  shows "svg_keeps v v'"
proof -
  define v1 where "v1 = (if drawBackground (svg_opts v) then svg_background fl v else v)"
  have 1: "svg_keeps v v1" by (simp add: v1_def svg_keeps_parts)
  have "v' = (if svg_style v = ''bar'' then svg_axis fl (svg_barChart fl v1)
      else if svg_style v = ''pie'' then svg_pieAxis fl msin mcos (svg_pieChart fl msin mcos v1)
      else if svg_style v = ''line'' then svg_axis fl (svg_lineChart fl v1) else v1)"
    using assms by (simp add: svg_render_def v1_def Let_def split: if_splits)
  then have "svg_keeps v1 v'"
    by (auto intro: svg_keeps_trans [OF svg_keeps_parts(4) svg_keeps_parts(1)] svg_keeps_trans [OF svg_keeps_parts(6) svg_keeps_parts(2)]
        svg_keeps_trans [OF svg_keeps_parts(5) svg_keeps_parts(1)])
  with 1 show ?thesis by (rule svg_keeps_trans)
qed

fun svg_render_times :: "nat \<Rightarrow> (rat \<Rightarrow> rat) \<Rightarrow> (jsnum \<Rightarrow> jsnum) \<Rightarrow> (jsnum \<Rightarrow> jsnum) \<Rightarrow> svg_renderer \<Rightarrow> svg_renderer option" where
  "svg_render_times 0 fl msin mcos v = Some v"
| "svg_render_times (Suc k) fl msin mcos v = Option.bind (svg_render fl msin mcos v) (svg_render_times k fl msin mcos)"

lemma svg_render_times_keeps: "svg_render_times k fl msin mcos v = Some v' \<Longrightarrow> svg_keeps v v'"
  by (induction k arbitrary: v) (auto simp: Option.bind_eq_Some_conv dest: svg_render_keeps intro: svg_keeps_trans)

text \<open>
  Clearing undoes rendering. However often a new SVG renderer has rendered, with labels in the
  container or in the drawing, \<open>clear\<close> empties the drawing and takes exactly its own labels out of
  the container.
\<close>

theorem svg_clear_undoes_render:
  assumes "svg_fresh v" "svg_xlabels v = []" "svg_ylabels v = []" "svg_render_times k fl msin mcos v = Some v'"
  shows "svg_root (svg_clear v') = [] \<and> svg_container (svg_clear v') = svg_container v \<and>
    svg_xlabels (svg_clear v') = [] \<and> svg_ylabels (svg_clear v') = []"
proof -
  have "svg_keeps v v'" using assms(4) by (rule svg_render_times_keeps)
  moreover have "svg_foreign v = svg_container v" using assms(2,3) by (simp add: svg_foreign_def)
  ultimately show ?thesis using assms(1) by (auto simp: svg_clear_def svg_keeps_def svg_foreign_def)
qed

theorem svg_clear_undoes_render_witness:
  "\<exists>v'. svg_render_times 1 (\<lambda>x. x) (\<lambda>x. x) (\<lambda>x. x) (queue_svg (\<lambda>x. x)) = Some v' \<and> svg_container (svg_clear v') = []"
proof -
  have q: "svg_fresh (queue_svg (\<lambda>x. x))" "svg_xlabels (queue_svg (\<lambda>x. x)) = []" "svg_ylabels (queue_svg (\<lambda>x. x)) = []"
    "svg_container (queue_svg (\<lambda>x. x)) = []" "colorScheme (svg_opts (queue_svg (\<lambda>x. x))) \<noteq> []"
    by (simp_all add: queue_svg_def new_svg_def svg_fresh_def officeBlue_def office_style_def scheme_exact Let_def)
  then obtain v' where "svg_render_times 1 (\<lambda>x. x) (\<lambda>x. x) (\<lambda>x. x) (queue_svg (\<lambda>x. x)) = Some v'"
    by (simp add: svg_render_def Let_def)
  with svg_clear_undoes_render [OF q(1-3) this] q(4) show ?thesis by simp
qed

end
