(* ===== verification/Spec2Isabelle.thy ===== *)
theory Spec2Isabelle
  imports Prelude HashRing CommModule KVClient EcsProperties MqttPages StompPages AmqChat Portfolio TableSort JsNumber MochiFormat PlotSvg
begin

text \<open>
  A verification development for DistributedStorageWithNotifAndEncryption: a distributed
  key-value store (Java, under \<open>src/src\<close>) and the messaging clients and console scripts
  (JavaScript, under \<open>src/apache-activemq-5.15.14\<close>) that are shipped with it.

  \<^bold>\<open>The storage service.\<close> Clients send get and put requests to servers; every server owns a
  range of a ring of hashes, keeps its pairs in a JSON file, refuses requests for keys that
  are not its own by sending the metadata of the ring, and hands a range over to another
  server when the ring changes. Messages travel sealed by a Diffie-Hellman key.

  \<^item> \<open>Prelude\<close>: strings, numbers and maps of the Java and JavaScript libraries, the
    exceptions of Java (\<open>java_error\<close>); a result is \<open>java_error + 'a\<close>.
  \<^item> \<open>HashRing\<close>: \<open>calc_metadata\<close>, \<open>getNodeByKey\<close> and \<open>computeHash\<close> of
    \<open>app_kvECS/ECSClient.java\<close> and \<open>ecs/ECSNode.java\<close>. The ranges cover the ring and the
    lookup by ranges finds the owner of a hash, except that two servers claim the borders
    (\<open>lookup_finds_owner\<close>).
  \<^item> \<open>KVMessages\<close>: the classes of \<open>shared/messages\<close>.
  \<^item> \<open>KVStorage\<close>: \<open>storage/KVStorage.java\<close> as a map (locale \<open>key_value_map\<close>).
  \<^item> \<open>KVServer\<close>: the state of \<open>app_kvServer/KVServer.java\<close>, its operations and \<open>moveData\<close>
    over a network of peers (locale \<open>kv_peer\<close>, interpreted in \<open>CommModule\<close>).
  \<^item> \<open>CommModule\<close>: \<open>shared/comm/CommModule.java\<close>: the handling of a request (\<open>serve\<close>, which
    refines the map of \<open>spec_serve\<close>), of administration messages, key exchange, sealing.
  \<^item> \<open>KVClient\<close>: \<open>client/KVStore.java\<close> (routing, and the repetition of a request until a
    server is responsible) and the commands of \<open>app_kvClient/KVClient.java\<close>. In a cluster of
    such servers with the metadata of one ring a request of a client whose metadata, old or
    new, name a server that is there reaches the owner (\<open>client_reaches\<close>), so that what one
    user puts another gets (\<open>put_command_then_get\<close>); a client that is sent to a server that is
    gone gets an exception (\<open>client_lost\<close>).
  \<^item> \<open>EcsControl\<close>: the configuration service, the rest of \<open>app_kvECS/ECSClient.java\<close>: its lists
    of servers, its commands, and the protocols of \<open>addNode\<close>, \<open>removeNode\<close>, \<open>addNodes\<close>,
    \<open>removeNodes\<close>, \<open>start\<close>, \<open>stop\<close> and \<open>shutdown\<close>, over an environment \<open>control\<close>; a cluster of
    the servers of \<open>KVServer\<close>, started as \<open>main\<close> does, is one (\<open>cluster_control\<close>). There a
    server that is launched is up at once; a start script that is slow or fails is
    another \<open>control\<close>.
  \<^item> \<open>EcsRing\<close> (a ring with one position more or less, \<open>moveData\<close> in a cluster, messages of the
    service; locale \<open>obeyed\<close>), \<open>ClusterMap\<close> (the pairs of all servers as one map, the
    invariant \<open>tidy\<close>), \<open>EcsAdd\<close>, \<open>EcsRemove\<close>, \<open>EcsHistory\<close> (any sequence of joins, leaves and
    puts) and \<open>EcsLoss\<close> lead to \<open>EcsProperties\<close>: \<open>addNode\<close> and \<open>removeNode\<close> keep every pair
    (\<open>addNode_keeps_data\<close>, \<open>removeNode_keeps_data\<close>), the cluster behaves as one map along
    every history (\<open>history_refines_map\<close>), \<open>stop\<close> and \<open>start\<close> cancel out
    (\<open>stop_then_start\<close>), and \<open>removeNodes\<close> loses the pairs of the server it removes
    (\<open>removeNodes_loses_data\<close>).

  \<^bold>\<open>The MQTT client\<close> (\<open>demo/mqtt/mqttws31.js\<close>): \<open>JsBase\<close> (strings as UTF-16 code units,
  exceptions), \<open>Utf8Codec\<close>, \<open>MqttWire\<close> (messages, \<open>encode\<close>, \<open>decodeMessage\<close>), \<open>MqttPacket\<close>
  (the layout of packets and their round trips over the locale \<open>wire_field\<close>), \<open>MqttState\<close>
  (\<open>ClientImpl\<close> and its copy in the local storage), \<open>MqttClient\<close> (all operations and the
  events of socket and timers), \<open>MqttSafety\<close> (invariants of the states reachable from the one
  that the constructor restores from the storage, proved once for every operation in the
  locale \<open>kept_by_connection\<close>), \<open>MqttDelivery\<close> (delivery at each quality of service,
  as a refinement of an abstract receiver, reconnecting, restoring), \<open>JsValue\<close> and
  \<open>MqttApi\<close> (the checks of the public interface), \<open>MqttPages\<close> (the chat page
  \<open>demo/mqtt/chat.js\<close> on top of that interface: what is typed in one page is shown in
  another).

  \<^bold>\<open>The STOMP client\<close> (\<open>demo/websocket/stomp.js\<close>, and the variant under
  \<open>examples/stomp\<close>): \<open>StompFrame\<close> (frames and the parsing of a stream of them, and the frames
  of a broker, \<open>broker_frame\<close>),
  \<open>StompClient\<close> (operations, heart beats, dispatch), \<open>StompPages\<close> (transmission in pieces
  and the chat page \<open>demo/websocket/chat.js\<close>; the broker between two pages is a parameter
  that keeps the protocol, \<open>relays\<close>).

  \<^bold>\<open>The AJAX client\<close> (\<open>demo/js/amq.js\<close>): \<open>AmqAjax\<close> (queue, batches, polling; the locale
  \<open>amq_application\<close> is what an application may do in its callbacks, each of which may throw;
  what the AJAX library makes of such an exception is a parameter, \<open>ajax_library\<close>, so that
  polling goes on under named conditions only, \<open>polling_never_stops\<close>) and \<open>AmqChat\<close> (the adapters and
  the chat page \<open>demo/js/chat.js\<close>, which interprets it); \<open>Portfolio\<close>
  (\<open>demo/portfolio/portfolio.js\<close>).

  \<^bold>\<open>Scripts of the pages and the console.\<close> \<open>PageScripts\<close> (\<open>css.js\<close>, \<open>common.js\<close>) and
  \<open>TableSort\<close> (\<open>standardista-table-sorting.js\<close>; the comparators are weak orders, locale
  \<open>weak_order\<close>); \<open>JsNumber\<close> (doubles as rationals with a rounding to 53 bits, ties to
  even; locale \<open>rounding\<close>, interpreted for it and for exact arithmetic), \<open>NumberText\<close>
  (texts of numbers), \<open>MochiColor\<close> and \<open>MochiFormat\<close> (the parts of \<open>MochiKit.js\<close> the charts
  use), \<open>PlotLayout\<close> (\<open>plotkit/Base.js\<close> and \<open>plotkit/Layout.js\<close>), \<open>PlotCharts\<close> (its
  theorems, for points that are not below the lower ends of the axes, \<open>low_x\<close> and \<open>low_y\<close>) and \<open>PlotCanvas\<close> (\<open>plotkit/Canvas.js\<close> and \<open>plotkit/SweetCanvas.js\<close>, which draw
  a layout as a list of calls on a canvas, with the styles of \<open>plotkit/Base.js\<close>: bars are
  drawn inside the area of the chart, and clearing undoes a rendering) and \<open>PlotSvg\<close>
  (\<open>plotkit/SVG.js\<close> and \<open>plotkit/SweetSVG.js\<close>, which draw it as elements: the bars and axes
  are those of the canvas when its ticks have the default size and its bars are outlined,
  \<open>svg_draws_canvas_bars\<close>).

  \<^bold>\<open>Conventions.\<close> State is a record that every operation returns updated; a JavaScript
  operation returns the state it leaves and the exception it throws, if any, because what
  was done before an exception stays done. What an operation hands to its environment
  (bytes sent, callbacks, requests) is a list of events in its state. The events of
  sockets and timers are operations of their own, so that any interleaving is a sequence
  of operations. A definition that returns an option of such a result is \<open>None\<close> where the
  arguments are outside the model.

  \<^bold>\<open>Parameters.\<close> Code that is not part of the repository is an argument: the hash (MD5), the
  ciphers and digests, the JSON library, the network, the outcome of writing a file, what
  ZooKeeper reports, the choice of an idle server and whether a confirmation arrives, the
  rounding \<open>fl\<close> of doubles where a theorem holds for any, random numbers and the clock, the
  callbacks of an application of the AJAX client, its AJAX library, the STOMP broker. The
  callbacks that the MQTT and STOMP clients call are events of their log and are taken to
  return. \<open>double\<close> has 53 bits and any exponent: numbers neither overflow nor underflow.

  \<^bold>\<open>Bounds and termination.\<close> \<open>KVClient.request\<close> repeats without a bound, so it is a partial
  function whose value \<open>None\<close> means that it does not return; \<open>request_served\<close> shows that in
  a cluster it returns after at most two attempts. \<open>shortest\<close> has fuel for 17 digits, which
  determine a double. \<open>palette\<close> is called with fuel for its levels, which is enough for every
  style that is used (\<open>palettes_return\<close>, \<open>levels_return\<close>). All other loops end by a measure;
  the search for a free message identifier is \<open>identifier_search\<close>. Identifiers, lengths
  and bytes of packets are numbers with the truncation of typed arrays written out.

  \<^bold>\<open>Not modelled.\<close> Input and output proper: consoles, logging (\<open>logger/LogSetup.java\<close>),
  accepting sockets and starting threads, the connection to ZooKeeper, the JMS calls of
  \<open>Publisher\<close> and \<open>Subscriber\<close>, tests. Requests to different servers are served one after
  the other: users do not interleave with the steps of a reconfiguration. Third-party scripts
  that are only loaded: prototype, jQuery, Dojo, prettify, jsunittest and the parts of
  MochiKit that charts do not call. The emulation of a canvas and the plug-in for SVG in old
  browsers, and the detection of browsers. The fading of page elements. The second copy of a
  script in another directory is not modelled again.
\<close>

end
